(* ===== verification/Prelude.thy ===== *)
theory Prelude
  imports Main "HOL-Library.Word"
begin

text \<open>
  Shared vocabulary of the development: machine integer types at their C width, the
  collections of simplification rules that the component theories extend, and generic
  facts about lists, options, function updates and words that several components use.
\<close>

unbundle bit_operations_syntax

type_synonym u8 = "8 word"
type_synonym u16 = "16 word"
type_synonym u32 = "32 word"
type_synonym u64 = "64 word"

text \<open>
  A pointer is an opaque number; \<open>None\<close> of \<open>ptr option\<close> is the null pointer.
\<close>

type_synonym ptr = nat

text \<open>
  The kernel allocator is outside of the repository.  Each call of it is modelled by the
  answer it gives (\<open>True\<close>: memory was found).  The model relies on one documented fact:
  \<open>kmalloc\<close> never serves a request above \<open>KMALLOC_MAX_SIZE\<close>, which is
  at most 32 MB.
\<close>

definition KMALLOC_MAX_SIZE :: nat where
  "KMALLOC_MAX_SIZE = 2 ^ 25"

definition VMCI_AllocKernelMem :: "bool \<Rightarrow> nat \<Rightarrow> bool" where
  "VMCI_AllocKernelMem avail bytes \<longleftrightarrow> avail \<and> bytes \<le> KMALLOC_MAX_SIZE"

named_theorems inv_defs \<open>definitions of the component invariants\<close>
named_theorems inv_intros \<open>operations keep the component invariants\<close>
named_theorems frame_simps \<open>fields an operation does not write\<close>

subsection \<open>Lists\<close>

lemma last_take_nth: "n < length xs \<Longrightarrow> last (take (Suc n) xs) = xs ! n"
  by (simp add: take_Suc_conv_app_nth)

lemma butlast_take_Suc: "n < length xs \<Longrightarrow> butlast (take (Suc n) xs) = take n xs"
  by (simp add: butlast_take)

lemma take_list_update_same:
  "n < length xs \<Longrightarrow> take (Suc n) (xs[n := x]) = take n xs @ [x]"
  by (simp add: take_Suc_conv_app_nth)

lemma set_concat_list_update_subset:
  "set (concat (xss[i := ys])) \<subseteq> set (concat xss) \<union> set ys"
  using set_update_subset_insert [of xss i ys] by auto

lemma sum_list_filter_split:
  "sum_list (map f xs) = sum_list (map f (filter P xs)) + sum_list (map f (filter (\<lambda>x. \<not> P x) xs))"
  for f :: "'a \<Rightarrow> nat"
  by (induction xs) auto

lemma distinct_remove1_filter: "distinct xs \<Longrightarrow> remove1 x xs = filter (\<lambda>y. y \<noteq> x) xs"
  by (induction xs) (auto intro!: filter_True [symmetric])

lemma find_Some_D: "find P xs = Some x \<Longrightarrow> x \<in> set xs \<and> P x"
  by (auto simp: find_Some_iff)

lemma find_None_D: "find P xs = None \<Longrightarrow> x \<in> set xs \<Longrightarrow> \<not> P x"
  by (auto simp: find_None_iff)

lemma find_unique:
  assumes "x \<in> set xs" "P x" "\<And>y. y \<in> set xs \<Longrightarrow> P y \<Longrightarrow> y = x"
  shows "find P xs = Some x"
proof (cases "find P xs")
  case None
  with assms(1,2) show ?thesis by (auto dest: find_None_D)
next
  case (Some y)
  then have "y \<in> set xs" and "P y" by (auto dest: find_Some_D)
  then have "y = x" by (rule assms(3))
  with Some show ?thesis by simp
qed

subsection \<open>Words\<close>

lemma unat_and_pred_less:
  fixes x m :: "'a::len word"
  assumes "m \<noteq> 0"
  shows "unat (x AND (m - 1)) < unat m"
proof -
  have "unat (x AND (m - 1)) \<le> unat (m - 1)"
    by (rule word_and_le1 [THEN word_le_nat_alt [THEN iffD1]])
  also have "unat (m - 1) < unat m"
    using assms by (rule measure_unat)
  finally show ?thesis .
qed

lemma unat_pred: "x \<noteq> 0 \<Longrightarrow> unat x = Suc (unat (x - 1))" for x :: "'a::len word"
proof -
  assume "x \<noteq> 0"
  then have "0 < unat x" by (simp add: unat_gt_0)
  moreover from \<open>x \<noteq> 0\<close> have "unat (x - 1) = unat x - 1" by (rule unat_minus_one)
  ultimately show ?thesis by simp
qed

lemma unat_inc_less: "unat (n + 1) = Suc (unat n)" if "n < m" for n m :: "'a::len word"
proof -
  from that have "unat n < unat m" by (simp add: word_less_nat_alt)
  moreover have "unat m < 2 ^ LENGTH('a)" by (rule unsigned_less)
  ultimately have "Suc (unat n) < 2 ^ LENGTH('a)" by linarith
  then show ?thesis by (simp add: unat_word_ariths unsigned_1)
qed

lemma word_inc_dec [simp]: "(x :: 'a::len word) + 1 - 1 = x"
  by simp

lemma word_add1_eq1_iff: "(x :: 'a::len word) + 1 = 1 \<longleftrightarrow> x = 0"
  by (metis add_cancel_left_left)

text \<open>A \<open>size_t\<close> returned as an \<open>int\<close> keeps its value below \<open>2 ^ 31\<close>.\<close>

lemma sint_small: "sint x = int (unat x)" if "unat x < 2 ^ 31" for x :: u32
proof -
  have "int (unat x) < 2 ^ 31"
    using that of_nat_less_iff [of "unat x" "2 ^ 31", where ?'a = int]
    by (simp del: of_nat_unat of_nat_less_iff)
  moreover have "- (2 ^ 31) \<le> int (unat x)" by (rule order_trans [of _ 0]) simp_all
  ultimately have "signed_take_bit 31 (int (unat x)) = int (unat x)"
    by (intro signed_take_bit_int_eq_self)
  then show ?thesis by (simp add: sint_uint)
qed

lemma ucast_small: "unat x < 2 ^ 32 \<Longrightarrow> unat (ucast x :: u32) = unat x" for x :: u64
  by (simp add: unsigned_ucast_eq take_bit_nat_eq_self)

lemma size_to_int: "unat x < 2 ^ 31 \<Longrightarrow> sint (ucast x :: u32) = int (unat x)" for x :: u64
  using sint_small [of "ucast x"] ucast_small [of x] by simp

lemma unat32_less: "unat x < 4294967296" for x :: u32
proof -
  have "unat x < 2 ^ LENGTH(32)" by (rule unsigned_less)
  then show ?thesis by simp
qed

end
