(* ===== verification/VmciDefs.thy ===== *)
theory VmciDefs
  imports Prelude
begin

text \<open>
  The constants, handles and privilege rules every VMCI component uses:
  \<open>vmci-only/include/vmci_defs.h\<close>, \<open>vmci_call_defs.h\<close>, \<open>vmci_infrastructure.h\<close>,
  the access rule of \<open>vmci-only/common/vmciCommonInt.h\<close> and the well-known id rule of
  \<open>vmci-only/linux/vmciKernelIf.c\<close>.  The configuration modelled is the one the
  Makefiles of the repository build: a hosted Linux kernel module, release build, so the
  \<open>VMKERNEL\<close>, \<open>_WIN32\<close>, \<open>VMX86_SERVER\<close>, \<open>VMX86_TOOLS\<close> and \<open>VMX86_DEVEL\<close>
  branches are absent and \<open>ASSERT\<close> is empty.
\<close>

section \<open>Identifiers and handles\<close>

type_synonym VMCIId = u32

record VMCIHandle =
  hcontext :: VMCIId
  hresource :: VMCIId

definition VMCI_MAKE_HANDLE :: "VMCIId \<Rightarrow> VMCIId \<Rightarrow> VMCIHandle" where
  "VMCI_MAKE_HANDLE cid rid = \<lparr>hcontext = cid, hresource = rid\<rparr>"

definition VMCI_HANDLE_EQUAL :: "VMCIHandle \<Rightarrow> VMCIHandle \<Rightarrow> bool" where
  "VMCI_HANDLE_EQUAL h1 h2 \<longleftrightarrow> hcontext h1 = hcontext h2 \<and> hresource h1 = hresource h2"

abbreviation (input) VMCI_INVALID_ID :: VMCIId where "VMCI_INVALID_ID \<equiv> 0xFFFFFFFF"

definition VMCI_INVALID_HANDLE :: VMCIHandle where
  "VMCI_INVALID_HANDLE = VMCI_MAKE_HANDLE VMCI_INVALID_ID VMCI_INVALID_ID"

abbreviation (input) VMCI_RESERVED_CID_LIMIT :: VMCIId where "VMCI_RESERVED_CID_LIMIT \<equiv> 16"
abbreviation (input) VMCI_HYPERVISOR_CONTEXT_ID :: VMCIId where "VMCI_HYPERVISOR_CONTEXT_ID \<equiv> 0"
abbreviation (input) VMCI_WELL_KNOWN_CONTEXT_ID :: VMCIId where "VMCI_WELL_KNOWN_CONTEXT_ID \<equiv> 1"
abbreviation (input) VMCI_HOST_CONTEXT_ID :: VMCIId where "VMCI_HOST_CONTEXT_ID \<equiv> 2"
abbreviation (input) VMCI_CONTEXT_RESOURCE_ID :: VMCIId where "VMCI_CONTEXT_RESOURCE_ID \<equiv> 0"
abbreviation (input) VMCI_EVENT_HANDLER :: VMCIId where "VMCI_EVENT_HANDLER \<equiv> 0"
abbreviation (input) VMCI_RESERVED_RESOURCE_ID_MAX :: VMCIId where
  "VMCI_RESERVED_RESOURCE_ID_MAX \<equiv> 1023"

lemma VMCI_HANDLE_EQUAL_iff [simp]: "VMCI_HANDLE_EQUAL h1 h2 \<longleftrightarrow> h1 = h2"
  by (cases h1; cases h2) (simp add: VMCI_HANDLE_EQUAL_def)

lemma handle_sel [simp]:
  "hcontext (VMCI_MAKE_HANDLE c r) = c" "hresource (VMCI_MAKE_HANDLE c r) = r"
  by (simp_all add: VMCI_MAKE_HANDLE_def)

lemma VMCI_MAKE_HANDLE_eq_iff [simp]:
  "VMCI_MAKE_HANDLE c r = VMCI_MAKE_HANDLE c' r' \<longleftrightarrow> c = c' \<and> r = r'"
  by (simp add: VMCI_MAKE_HANDLE_def)

lemma VMCI_MAKE_HANDLE_invalid_iff [simp]:
  "VMCI_MAKE_HANDLE c r = VMCI_INVALID_HANDLE \<longleftrightarrow> c = VMCI_INVALID_ID \<and> r = VMCI_INVALID_ID"
  by (simp add: VMCI_INVALID_HANDLE_def)

lemma VMCI_MAKE_HANDLE_collapse [simp]:
  fixes h :: VMCIHandle
  shows "VMCI_MAKE_HANDLE (hcontext h) (hresource h) = h"
  by (cases h) (simp add: VMCI_MAKE_HANDLE_def)

section \<open>Result codes\<close>

text \<open>A C \<open>int\<close> result: negative values are errors, the others successes.\<close>

abbreviation (input) VMCI_SUCCESS_QUEUEPAIR_ATTACH :: int where "VMCI_SUCCESS_QUEUEPAIR_ATTACH \<equiv> 5"
abbreviation (input) VMCI_SUCCESS_QUEUEPAIR_CREATE :: int where "VMCI_SUCCESS_QUEUEPAIR_CREATE \<equiv> 4"
abbreviation (input) VMCI_SUCCESS_LAST_DETACH :: int where "VMCI_SUCCESS_LAST_DETACH \<equiv> 3"
abbreviation (input) VMCI_SUCCESS_ACCESS_GRANTED :: int where "VMCI_SUCCESS_ACCESS_GRANTED \<equiv> 2"
abbreviation (input) VMCI_SUCCESS_ENTRY_DEAD :: int where "VMCI_SUCCESS_ENTRY_DEAD \<equiv> 1"
abbreviation (input) VMCI_SUCCESS :: int where "VMCI_SUCCESS \<equiv> 0"
abbreviation (input) VMCI_ERROR_INVALID_RESOURCE :: int where "VMCI_ERROR_INVALID_RESOURCE \<equiv> -1"
abbreviation (input) VMCI_ERROR_INVALID_ARGS :: int where "VMCI_ERROR_INVALID_ARGS \<equiv> -2"
abbreviation (input) VMCI_ERROR_NO_MEM :: int where "VMCI_ERROR_NO_MEM \<equiv> -3"
abbreviation (input) VMCI_ERROR_MORE_DATA :: int where "VMCI_ERROR_MORE_DATA \<equiv> -5"
abbreviation (input) VMCI_ERROR_NO_MORE_DATAGRAMS :: int where "VMCI_ERROR_NO_MORE_DATAGRAMS \<equiv> -6"
abbreviation (input) VMCI_ERROR_NO_ACCESS :: int where "VMCI_ERROR_NO_ACCESS \<equiv> -7"
abbreviation (input) VMCI_ERROR_NO_HANDLE :: int where "VMCI_ERROR_NO_HANDLE \<equiv> -8"
abbreviation (input) VMCI_ERROR_DUPLICATE_ENTRY :: int where "VMCI_ERROR_DUPLICATE_ENTRY \<equiv> -9"
abbreviation (input) VMCI_ERROR_DST_UNREACHABLE :: int where "VMCI_ERROR_DST_UNREACHABLE \<equiv> -10"
abbreviation (input) VMCI_ERROR_INVALID_PRIV :: int where "VMCI_ERROR_INVALID_PRIV \<equiv> -12"
abbreviation (input) VMCI_ERROR_GENERIC :: int where "VMCI_ERROR_GENERIC \<equiv> -13"
abbreviation (input) VMCI_ERROR_NO_RESOURCES :: int where "VMCI_ERROR_NO_RESOURCES \<equiv> -19"
abbreviation (input) VMCI_ERROR_UNAVAILABLE :: int where "VMCI_ERROR_UNAVAILABLE \<equiv> -20"
abbreviation (input) VMCI_ERROR_NOT_FOUND :: int where "VMCI_ERROR_NOT_FOUND \<equiv> -21"
abbreviation (input) VMCI_ERROR_ALREADY_EXISTS :: int where "VMCI_ERROR_ALREADY_EXISTS \<equiv> -22"
abbreviation (input) VMCI_ERROR_EVENT_UNKNOWN :: int where "VMCI_ERROR_EVENT_UNKNOWN \<equiv> -29"
abbreviation (input) VMCI_ERROR_QUEUEPAIR_MISMATCH :: int where "VMCI_ERROR_QUEUEPAIR_MISMATCH \<equiv> -31"
abbreviation (input) VMCI_ERROR_QUEUEPAIR_NOTOWNER :: int where "VMCI_ERROR_QUEUEPAIR_NOTOWNER \<equiv> -33"
abbreviation (input) VMCI_ERROR_QUEUEPAIR_NOTATTACHED :: int where
  "VMCI_ERROR_QUEUEPAIR_NOTATTACHED \<equiv> -34"
abbreviation (input) VMCI_ERROR_QUEUEPAIR_NOSPACE :: int where "VMCI_ERROR_QUEUEPAIR_NOSPACE \<equiv> -35"
abbreviation (input) VMCI_ERROR_QUEUEPAIR_NODATA :: int where "VMCI_ERROR_QUEUEPAIR_NODATA \<equiv> -36"

section \<open>Datagrams\<close>

text \<open>
  The 24 byte header of a datagram and its payload.  \<open>dg_payload\<close> is what follows the
  header in memory.
\<close>

record VMCIDatagram =
  dg_dst :: VMCIHandle
  dg_src :: VMCIHandle
  dg_payloadSize :: u64
  dg_payload :: "u8 list"

definition VMCI_DG_SIZE :: "VMCIDatagram \<Rightarrow> u64" where
  "VMCI_DG_SIZE dg = 24 + dg_payloadSize dg"

abbreviation (input) VMCI_MAX_DG_SIZE :: u64 where "VMCI_MAX_DG_SIZE \<equiv> 69632"
abbreviation (input) VMCI_MAX_DATAGRAM_QUEUE_SIZE :: u64 where
  "VMCI_MAX_DATAGRAM_QUEUE_SIZE \<equiv> 139264"

text \<open>
  1024 more event datagrams of 24 header bytes and 24 event bytes
  (\<open>sizeof(VMCIEventData_Max)\<close>) each.
\<close>

abbreviation (input) VMCI_MAX_DATAGRAM_AND_EVENT_QUEUE_SIZE :: u64 where
  "VMCI_MAX_DATAGRAM_AND_EVENT_QUEUE_SIZE \<equiv> 188416"

section \<open>Privileges\<close>

type_synonym VMCIPrivilegeFlags = u32

abbreviation (input) VMCI_PRIVILEGE_FLAG_RESTRICTED :: VMCIPrivilegeFlags where
  "VMCI_PRIVILEGE_FLAG_RESTRICTED \<equiv> 1"
abbreviation (input) VMCI_PRIVILEGE_FLAG_TRUSTED :: VMCIPrivilegeFlags where
  "VMCI_PRIVILEGE_FLAG_TRUSTED \<equiv> 2"
abbreviation (input) VMCI_PRIVILEGE_ALL_FLAGS :: VMCIPrivilegeFlags where
  "VMCI_PRIVILEGE_ALL_FLAGS \<equiv> 3"
abbreviation (input) VMCI_NO_PRIVILEGE_FLAGS :: VMCIPrivilegeFlags where
  "VMCI_NO_PRIVILEGE_FLAGS \<equiv> 0"
abbreviation (input) VMCI_DEFAULT_PROC_PRIVILEGE_FLAGS :: VMCIPrivilegeFlags where
  "VMCI_DEFAULT_PROC_PRIVILEGE_FLAGS \<equiv> 0"
abbreviation (input) VMCI_LEAST_PRIVILEGE_FLAGS :: VMCIPrivilegeFlags where
  "VMCI_LEAST_PRIVILEGE_FLAGS \<equiv> 1"
abbreviation (input) VMCI_MAX_PRIVILEGE_FLAGS :: VMCIPrivilegeFlags where
  "VMCI_MAX_PRIVILEGE_FLAGS \<equiv> 2"

definition restricted :: "VMCIPrivilegeFlags \<Rightarrow> bool" where
  "restricted f \<longleftrightarrow> f AND VMCI_PRIVILEGE_FLAG_RESTRICTED \<noteq> 0"

definition trusted :: "VMCIPrivilegeFlags \<Rightarrow> bool" where
  "trusted f \<longleftrightarrow> f AND VMCI_PRIVILEGE_FLAG_TRUSTED \<noteq> 0"

definition VMCIDenyInteraction :: "VMCIPrivilegeFlags \<Rightarrow> VMCIPrivilegeFlags \<Rightarrow> bool" where
  "VMCIDenyInteraction partOne partTwo \<longleftrightarrow>
     (partOne AND VMCI_PRIVILEGE_FLAG_RESTRICTED \<noteq> 0
        \<and> \<not> partTwo AND VMCI_PRIVILEGE_FLAG_TRUSTED \<noteq> 0)
     \<or> (partTwo AND VMCI_PRIVILEGE_FLAG_RESTRICTED \<noteq> 0
        \<and> \<not> partOne AND VMCI_PRIVILEGE_FLAG_TRUSTED \<noteq> 0)"

definition VMCIWellKnownID_AllowMap :: "VMCIId \<Rightarrow> VMCIPrivilegeFlags \<Rightarrow> bool" where
  "VMCIWellKnownID_AllowMap wellKnownID privFlags =
     (if wellKnownID < VMCI_RESERVED_RESOURCE_ID_MAX
         \<and> \<not> (privFlags AND VMCI_PRIVILEGE_FLAG_TRUSTED \<noteq> 0)
      then False else True)"

lemma VMCIDenyInteraction_iff:
  "VMCIDenyInteraction a b \<longleftrightarrow> restricted a \<and> \<not> trusted b \<or> restricted b \<and> \<not> trusted a"
  by (simp add: VMCIDenyInteraction_def restricted_def trusted_def)

lemma VMCIDenyInteraction_commute: "VMCIDenyInteraction a b \<longleftrightarrow> VMCIDenyInteraction b a"
  by (auto simp: VMCIDenyInteraction_iff)

lemma privilege_facts [simp]:
  "\<not> restricted VMCI_NO_PRIVILEGE_FLAGS" "\<not> trusted VMCI_NO_PRIVILEGE_FLAGS"
  "restricted VMCI_PRIVILEGE_FLAG_RESTRICTED" "\<not> trusted VMCI_PRIVILEGE_FLAG_RESTRICTED"
  "\<not> restricted VMCI_PRIVILEGE_FLAG_TRUSTED" "trusted VMCI_PRIVILEGE_FLAG_TRUSTED"
  by (simp_all add: restricted_def trusted_def)

section \<open>Hashing of handles\<close>

text \<open>
  \<open>VMCI_Hash\<close> is djb2 over the eight bytes of the handle, least significant byte of the
  context id first, in a 32-bit \<open>int\<close> that wraps, masked with \<open>size - 1\<close>.
\<close>

definition handle_byte :: "VMCIHandle \<Rightarrow> nat \<Rightarrow> u8" where
  "handle_byte h i =
     ucast (drop_bit (8 * i) (push_bit 32 (ucast (hresource h) :: u64) OR ucast (hcontext h)))"

fun hash_bytes :: "VMCIHandle \<Rightarrow> nat list \<Rightarrow> u32 \<Rightarrow> u32" where
  "hash_bytes h [] hash = hash"
| "hash_bytes h (i # is) hash = hash_bytes h is ((push_bit 5 hash + hash) + ucast (handle_byte h i))"

definition VMCI_Hash :: "VMCIHandle \<Rightarrow> u32 \<Rightarrow> u32" where
  "VMCI_Hash h sz = hash_bytes h [0..<8] 5381 AND (sz - 1)"

lemma VMCI_Hash_less: "sz \<noteq> 0 \<Longrightarrow> unat (VMCI_Hash h sz) < unat sz"
  by (simp add: VMCI_Hash_def unat_and_pred_less)

end
