(* ===== verification/HandleArray.thy ===== *)
theory HandleArray
  imports VmciDefs "HOL-Library.Multiset"
begin

text \<open>
  \<open>vmci-only/include/vmci_handle_array.h\<close>: the growable arrays of handles in which a
  context records its well-known mappings, groups, queue pairs and notification targets
  and a group its members.  The record has the three fields of the C struct; \<open>entries\<close>
  holds all allocated slots, of which the first \<open>asize\<close> are in use.  \<open>live\<close> abstracts
  an array to the list of the handles in use and each operation is shown to implement the
  corresponding list operation, with the 32-bit arithmetic of \<open>AppendEntry\<close> shown not to
  wrap because the allocator refuses large requests.
\<close>

record VMCIHandleArray =
  capacity :: u32
  asize :: u32
  entries :: "VMCIHandle list"

text \<open>
  Fresh memory of the allocator is not cleared.  Slots beyond \<open>asize\<close> are written before
  they are read (lemma \<open>live_def\<close> and the functional lemmas below never mention them), so
  their first content is represented by one fixed handle.
\<close>

definition uninit_handle :: VMCIHandle where
  "uninit_handle = VMCI_MAKE_HANDLE 0 0"

abbreviation (input) VMCI_HANDLE_ARRAY_DEFAULT_SIZE :: u32 where
  "VMCI_HANDLE_ARRAY_DEFAULT_SIZE \<equiv> 4"

section \<open>Operations\<close>

definition VMCIHandleArray_Create :: "bool \<Rightarrow> u32 \<Rightarrow> VMCIHandleArray option" where
  "VMCIHandleArray_Create avail cap0 =
     (let cap = (if cap0 = 0 then VMCI_HANDLE_ARRAY_DEFAULT_SIZE else cap0)
      in if VMCI_AllocKernelMem avail (4 + 4 + unat cap * 8)
         then Some \<lparr>capacity = cap, asize = 0, entries = replicate (unat cap) uninit_handle\<rparr>
         else None)"

definition store_entry :: "VMCIHandleArray \<Rightarrow> VMCIHandle \<Rightarrow> VMCIHandleArray" where
  "store_entry a h = a\<lparr>entries := (entries a)[unat (asize a) := h], asize := asize a + 1\<rparr>"

definition VMCIHandleArray_AppendEntry ::
  "bool \<Rightarrow> VMCIHandleArray \<Rightarrow> VMCIHandle \<Rightarrow> VMCIHandleArray" where
  "VMCIHandleArray_AppendEntry avail a h =
     (if capacity a \<le> asize a then
           let arraySize = (8 + capacity a * 8 :: u32)
           in if \<not> VMCI_AllocKernelMem avail (unat arraySize + unat (capacity a) * 8) then a
              else let kept = (unat arraySize - 8) div 8
                   in store_entry (a\<lparr>capacity := capacity a * 2,
                                    entries := take kept (entries a)
                                      @ replicate (2 * unat (capacity a) - kept) uninit_handle\<rparr>) h
      else store_entry a h)"

fun find_slot :: "VMCIHandle list \<Rightarrow> VMCIHandle \<Rightarrow> nat \<Rightarrow> nat \<Rightarrow> nat option" where
  "find_slot es h i 0 = None"
| "find_slot es h i (Suc n) =
     (if VMCI_HANDLE_EQUAL (es ! i) h then Some i else find_slot es h (Suc i) n)"

definition VMCIHandleArray_RemoveEntry ::
  "VMCIHandleArray \<Rightarrow> VMCIHandle \<Rightarrow> VMCIHandle \<times> VMCIHandleArray" where
  "VMCIHandleArray_RemoveEntry a entryHandle =
     (case find_slot (entries a) entryHandle 0 (unat (asize a)) of
        None \<Rightarrow> (VMCI_INVALID_HANDLE, a)
      | Some i \<Rightarrow>
          let handle = entries a ! i;
              es = (entries a)[i := entries a ! unat (asize a - 1)];
              es' = es[unat (asize a - 1) := VMCI_INVALID_HANDLE]
          in (handle, a\<lparr>entries := es', asize := asize a - 1\<rparr>))"

definition VMCIHandleArray_RemoveTail :: "VMCIHandleArray \<Rightarrow> VMCIHandle \<times> VMCIHandleArray" where
  "VMCIHandleArray_RemoveTail a =
     (if asize a = 0 then (VMCI_INVALID_HANDLE, a)
      else (entries a ! unat (asize a - 1),
            a\<lparr>entries := (entries a)[unat (asize a - 1) := VMCI_INVALID_HANDLE],
              asize := asize a - 1\<rparr>))"

definition VMCIHandleArray_GetEntry :: "VMCIHandleArray \<Rightarrow> u32 \<Rightarrow> VMCIHandle" where
  "VMCIHandleArray_GetEntry a index =
     (if asize a \<le> index then VMCI_INVALID_HANDLE else entries a ! unat index)"

definition VMCIHandleArray_GetSize :: "VMCIHandleArray \<Rightarrow> u32" where
  "VMCIHandleArray_GetSize a = asize a"

definition VMCIHandleArray_HasEntry :: "VMCIHandleArray \<Rightarrow> VMCIHandle \<Rightarrow> bool" where
  "VMCIHandleArray_HasEntry a entryHandle =
     (find_slot (entries a) entryHandle 0 (unat (asize a)) \<noteq> None)"

definition VMCIHandleArray_GetCopy :: "bool \<Rightarrow> VMCIHandleArray \<Rightarrow> VMCIHandleArray option" where
  "VMCIHandleArray_GetCopy avail a =
     (if VMCI_AllocKernelMem avail (4 + 4 + unat (asize a) * 8)
      then Some \<lparr>capacity = asize a, asize = asize a,
                 entries = take (unat (asize a)) (entries a)\<rparr>
      else None)"

section \<open>Abstraction and invariant\<close>

definition live :: "VMCIHandleArray \<Rightarrow> VMCIHandle list" where
  "live a = take (unat (asize a)) (entries a)"

text \<open>
  The allocator bound keeps the capacity below \<open>2 ^ 22\<close> (32 MB of 8 byte handles).  A
  copy made by \<open>GetCopy\<close> may have capacity 0, which no operation grows correctly: growing
  doubles the capacity.  The invariant therefore has a nonzero capacity.
\<close>

definition harr_inv :: "VMCIHandleArray \<Rightarrow> bool" where
  [inv_defs]: "harr_inv a \<longleftrightarrow> capacity a \<noteq> 0 \<and> unat (capacity a) \<le> 2 ^ 22
     \<and> length (entries a) = unat (capacity a) \<and> asize a \<le> capacity a"

lemma live_length [simp]: "harr_inv a \<Longrightarrow> length (live a) = unat (asize a)"
  by (simp add: live_def harr_inv_def word_le_nat_alt)

lemma find_slot_Some:
  assumes "find_slot es h i n = Some j"
  shows "i \<le> j \<and> j < i + n \<and> es ! j = h \<and> (\<forall>k. i \<le> k \<and> k < j \<longrightarrow> es ! k \<noteq> h)"
  using assms
proof (induction es h i n rule: find_slot.induct)
  case (2 es h i n)
  then show ?case
    by (cases "es ! i = h") (auto simp: Suc_le_eq, metis le_neq_implies_less)
qed simp

lemma find_slot_None: "find_slot es h i n = None \<longleftrightarrow> (\<forall>k. i \<le> k \<and> k < i + n \<longrightarrow> es ! k \<noteq> h)"
proof (induction es h i n rule: find_slot.induct)
  case (2 es h i n)
  then show ?case
    by (cases "es ! i = h") (auto simp: Suc_le_eq, metis le_neq_implies_less)
qed auto

lemma find_slot_live:
  "harr_inv a \<Longrightarrow> find_slot (entries a) h 0 (unat (asize a)) = None \<longleftrightarrow> h \<notin> set (live a)"
  by (auto simp: find_slot_None live_def in_set_conv_nth harr_inv_def word_le_nat_alt)

section \<open>Each operation implements the list operation\<close>

lemma VMCIHandleArray_Create_inv [inv_intros]:
  "VMCIHandleArray_Create avail cap = Some a \<Longrightarrow> harr_inv a"
  by (auto simp: VMCIHandleArray_Create_def Let_def harr_inv_def VMCI_AllocKernelMem_def
      KMALLOC_MAX_SIZE_def split: if_splits)

lemma VMCIHandleArray_Create_live [simp]:
  "VMCIHandleArray_Create avail cap = Some a \<Longrightarrow> live a = []"
  by (auto simp: VMCIHandleArray_Create_def Let_def live_def split: if_splits)

lemma VMCIHandleArray_Create_default:
  "VMCIHandleArray_Create avail 0 = None \<longleftrightarrow> \<not> avail"
  by (simp add: VMCIHandleArray_Create_def VMCI_AllocKernelMem_def KMALLOC_MAX_SIZE_def)

text \<open>
  Growing: the 32-bit size computation does not wrap for an array within the invariant, so
  all entries are copied; and when the allocator grants the request, the doubled capacity
  is within the invariant again.
\<close>

lemma grow_size:
  assumes "unat (cap :: u32) \<le> 2 ^ 22"
  shows "unat (8 + cap * 8 :: u32) = 8 + unat cap * 8" "unat (cap * 2) = 2 * unat cap"
  using assms by (simp_all add: unat_word_ariths)

lemma store_entry_correct:
  assumes "harr_inv a" "asize a < capacity a"
  shows "harr_inv (store_entry a h) \<and> live (store_entry a h) = live a @ [h]"
  using assms
  by (auto simp: store_entry_def live_def harr_inv_def unat_inc_less take_list_update_same
      word_less_nat_alt word_le_nat_alt)

text \<open>Whether the append stores the handle: only a failed allocation loses it.\<close>

definition append_stores :: "bool \<Rightarrow> VMCIHandleArray \<Rightarrow> bool" where
  "append_stores avail a \<longleftrightarrow> asize a < capacity a
     \<or> VMCI_AllocKernelMem avail (8 + 2 * (unat (capacity a) * 8))"

lemma VMCIHandleArray_AppendEntry_correct:
  assumes inv: "harr_inv a"
  shows "harr_inv (VMCIHandleArray_AppendEntry avail a h)
    \<and> live (VMCIHandleArray_AppendEntry avail a h) =
       (if append_stores avail a then live a @ [h] else live a)"
proof (cases "asize a < capacity a")
  case True
  with inv show ?thesis
    by (simp add: VMCIHandleArray_AppendEntry_def append_stores_def store_entry_correct leD)
next
  case False
  with inv have full: "asize a = capacity a" by (simp add: harr_inv_def)
  let ?c = "unat (capacity a)"
  let ?b = "a\<lparr>capacity := capacity a * 2,
    entries := entries a @ replicate ?c uninit_handle\<rparr>"
  have len: "length (entries a) = ?c" "?c \<le> 2 ^ 22" "capacity a \<noteq> 0"
    using inv by (simp_all add: harr_inv_def)
  show ?thesis
  proof (cases "VMCI_AllocKernelMem avail (8 + 2 * (?c * 8))")
    case True
    then have bound: "?c \<le> 2 ^ 21"
      by (simp add: VMCI_AllocKernelMem_def KMALLOC_MAX_SIZE_def)
    have "0 < ?c" using len(3) by (simp add: unat_gt_0)
    have two: "unat (capacity a * 2) = 2 * ?c"
      using len(2) by (rule grow_size)
    have nz: "capacity a * 2 \<noteq> 0"
      using two \<open>0 < ?c\<close> by (metis mult_is_0 not_gr_zero unat_0 zero_neq_numeral)
    have b: "harr_inv ?b" "asize ?b < capacity ?b"
      using bound len full two nz \<open>0 < ?c\<close>
      by (simp_all add: harr_inv_def word_le_nat_alt word_less_nat_alt)
    have "VMCIHandleArray_AppendEntry avail a h = store_entry ?b h"
      using True full len by (simp add: VMCIHandleArray_AppendEntry_def grow_size algebra_simps)
    moreover have "live ?b = live a"
      using full len by (simp add: live_def)
    ultimately show ?thesis
      using store_entry_correct [OF b] True by (simp add: append_stores_def)
  next
    case alloc_fails: False
    then have "VMCIHandleArray_AppendEntry avail a h = a"
      using full len by (simp add: VMCIHandleArray_AppendEntry_def grow_size algebra_simps)
    with inv alloc_fails full show ?thesis by (simp add: append_stores_def)
  qed
qed


text \<open>
  Removal moves the last handle into the freed slot.  It is described on lists first; a
  list without duplicates keeps none.
\<close>

definition swap_remove :: "'a list \<Rightarrow> nat \<Rightarrow> 'a list" where
  "swap_remove xs i = butlast (xs[i := last xs])"

lemma mset_swap_remove:
  assumes "i < length xs"
  shows "mset (swap_remove xs i) = mset xs - {#xs ! i#}"
proof -
  obtain ys y where xs: "xs = ys @ [y]"
    using assms by (cases xs rule: rev_cases) auto
  show ?thesis
  proof (cases "i < length ys")
    case True
    then show ?thesis
      by (simp add: xs swap_remove_def list_update_append mset_update nth_append)
  next
    case False
    with assms show ?thesis by (simp add: xs swap_remove_def list_update_append nth_append)
  qed
qed

lemma VMCIHandleArray_RemoveEntry_correct:
  assumes inv: "harr_inv a"
    and eq: "VMCIHandleArray_RemoveEntry a h = (r, a')"
  shows "harr_inv a' \<and> r = (if h \<in> set (live a) then h else VMCI_INVALID_HANDLE)
    \<and> mset (live a') = mset (live a) - {#h#}"
proof (cases "find_slot (entries a) h 0 (unat (asize a))")
  case None
  with eq have "r = VMCI_INVALID_HANDLE" "a' = a"
    by (simp_all add: VMCIHandleArray_RemoveEntry_def)
  moreover have "h \<notin> set (live a)" using None find_slot_live [OF inv] by simp
  ultimately show ?thesis using inv by (simp add: diff_single_trivial)
next
  case (Some i)
  note slot = find_slot_Some [OF Some]
  let ?n = "unat (asize a - 1)"
  have n: "unat (asize a) = Suc ?n"
    using slot by (intro unat_pred) auto
  have len: "Suc ?n \<le> length (entries a)"
    using inv n by (simp add: harr_inv_def word_le_nat_alt)
  have r: "r = h" and a': "a' = a\<lparr>entries := (entries a)[i := entries a ! ?n, ?n := VMCI_INVALID_HANDLE],
      asize := asize a - 1\<rparr>"
    using eq Some slot by (auto simp: VMCIHandleArray_RemoveEntry_def Let_def)
  have lst: "last (live a) = entries a ! ?n"
    using len by (simp add: live_def n last_take_nth)
  have live': "live a' = swap_remove (live a) i"
    using len slot n
    by (simp add: a' swap_remove_def lst) (simp add: live_def butlast_conv_take take_update_swap min_def list_update_beyond)
  have i: "i < length (live a)" "live a ! i = h"
    using slot live_length [OF inv] by (simp_all add: live_def)
  then have "h \<in> set (live a)" using nth_mem by blast
  moreover have "harr_inv a'"
    using inv n by (simp add: a' harr_inv_def word_le_nat_alt)
  ultimately show ?thesis
    using r i mset_swap_remove [of i "live a"] by (simp add: live')
qed

lemma VMCIHandleArray_RemoveTail_correct:
  assumes inv: "harr_inv a"
    and eq: "VMCIHandleArray_RemoveTail a = (r, a')"
  shows "harr_inv a'
    \<and> (r, live a') = (if live a = [] then (VMCI_INVALID_HANDLE, [])
                     else (last (live a), butlast (live a)))"
proof (cases "asize a = 0")
  case True
  with eq inv show ?thesis by (auto simp: VMCIHandleArray_RemoveTail_def live_def)
next
  case False
  let ?n = "unat (asize a - 1)"
  have n: "unat (asize a) = Suc ?n"
    using False by (rule unat_pred)
  have len: "Suc ?n \<le> length (entries a)"
    using inv n by (simp add: harr_inv_def word_le_nat_alt)
  then have "live a \<noteq> []" by (auto simp: live_def n)
  moreover have "harr_inv a'"
    using eq False inv n by (auto simp: VMCIHandleArray_RemoveTail_def harr_inv_def word_le_nat_alt)
  ultimately show ?thesis
    using eq False len
    by (auto simp: VMCIHandleArray_RemoveTail_def live_def n last_take_nth butlast_take)
qed

lemma VMCIHandleArray_GetEntry_correct:
  assumes "harr_inv a"
  shows "VMCIHandleArray_GetEntry a i =
    (if unat i < length (live a) then live a ! unat i else VMCI_INVALID_HANDLE)"
  using assms
  by (simp add: VMCIHandleArray_GetEntry_def word_le_nat_alt) (simp add: live_def)

lemma VMCIHandleArray_HasEntry_correct [simp]:
  "harr_inv a \<Longrightarrow> VMCIHandleArray_HasEntry a h \<longleftrightarrow> h \<in> set (live a)"
  using find_slot_live [of a h] by (auto simp: VMCIHandleArray_HasEntry_def)

lemma VMCIHandleArray_GetCopy_live:
  "harr_inv a \<Longrightarrow> VMCIHandleArray_GetCopy avail a = Some c \<Longrightarrow>
    live c = live a \<and> capacity c = asize a"
  by (auto simp: VMCIHandleArray_GetCopy_def live_def split: if_splits)

section \<open>The interface of a bag of handles\<close>

text \<open>
  The contexts and groups that keep handle arrays rely on them as bags: an insertion may be
  dropped when there is no memory (\<open>stores\<close> tells), a removal takes out one occurrence.
\<close>

locale handle_bag =
  fixes binv :: "'a \<Rightarrow> bool" and bag :: "'a \<Rightarrow> VMCIHandle multiset"
    and stores :: "bool \<Rightarrow> 'a \<Rightarrow> bool" and ins :: "bool \<Rightarrow> 'a \<Rightarrow> VMCIHandle \<Rightarrow> 'a"
    and del :: "'a \<Rightarrow> VMCIHandle \<Rightarrow> VMCIHandle \<times> 'a" and has :: "'a \<Rightarrow> VMCIHandle \<Rightarrow> bool"
  assumes ins_law: "binv a \<Longrightarrow> binv (ins m a h) \<and> bag (ins m a h) = (if stores m a then add_mset h (bag a) else bag a)"
    and del_law: "binv a \<Longrightarrow> del a h = (r, a') \<Longrightarrow>
      binv a' \<and> r = (if h \<in># bag a then h else VMCI_INVALID_HANDLE) \<and> bag a' = bag a - {#h#}"
    and has_law: "binv a \<Longrightarrow> has a h \<longleftrightarrow> h \<in># bag a"
begin

lemma ins_has: "binv a \<Longrightarrow> stores m a \<Longrightarrow> has (ins m a h) h"
  by (simp add: has_law ins_law)

lemma ins_del:
  assumes "binv a" "stores m a" "del (ins m a h) h = (r, a')"
  shows "binv a' \<and> r = h \<and> bag a' = bag a"
  using del_law [OF _ assms(3)] ins_law [OF assms(1)] assms(2) by simp

lemma ins_others: "binv a \<Longrightarrow> k \<noteq> h \<Longrightarrow> has (ins m a h) k = has a k"
  by (simp add: has_law ins_law)

lemma del_others: "binv a \<Longrightarrow> k \<noteq> h \<Longrightarrow> has (snd (del a h)) k = has a k"
  using del_law [of a h, OF _ surjective_pairing] by (simp add: has_law in_diff_count)

lemma ins_dropped: "binv a \<Longrightarrow> \<not> stores m a \<Longrightarrow> has (ins m a h) k = has a k"
  by (simp add: has_law ins_law)

end

interpretation harr: handle_bag harr_inv "\<lambda>a. mset (live a)" append_stores VMCIHandleArray_AppendEntry
  VMCIHandleArray_RemoveEntry VMCIHandleArray_HasEntry
proof unfold_locales
  show "harr_inv (VMCIHandleArray_AppendEntry m a h) \<and> mset (live (VMCIHandleArray_AppendEntry m a h))
      = (if append_stores m a then add_mset h (mset (live a)) else mset (live a))" if "harr_inv a" for m a h
    using VMCIHandleArray_AppendEntry_correct [OF that, of m h] by simp
  show "harr_inv a' \<and> r = (if h \<in># mset (live a) then h else VMCI_INVALID_HANDLE)
      \<and> mset (live a') = mset (live a) - {#h#}"
    if "harr_inv a" "VMCIHandleArray_RemoveEntry a h = (r, a')" for a h r a'
    using VMCIHandleArray_RemoveEntry_correct [OF that] by simp
qed simp

text \<open>
  A handle appended to a handle array is a member, and removing it brings back the handles
  of before; other handles are members as before.  When the array is full and cannot grow,
  the append is dropped without a trace.
\<close>

theorem handle_array_append_remove:
  assumes "harr_inv a" "VMCIHandleArray_RemoveEntry (VMCIHandleArray_AppendEntry avail a h) h = (r, a')"
  shows "(if append_stores avail a
     then VMCIHandleArray_HasEntry (VMCIHandleArray_AppendEntry avail a h) h \<and> r = h \<and> mset (live a') = mset (live a)
     else \<forall>k. VMCIHandleArray_HasEntry (VMCIHandleArray_AppendEntry avail a h) k = VMCIHandleArray_HasEntry a k)
   \<and> (\<forall>k. k \<noteq> h \<longrightarrow> VMCIHandleArray_HasEntry (VMCIHandleArray_AppendEntry avail a h) k = VMCIHandleArray_HasEntry a k)
   \<and> harr_inv a'"
  using harr.ins_has [OF assms(1), of avail h] harr.ins_del [OF assms(1) _ assms(2)]
    harr.ins_dropped [OF assms(1)] harr.ins_others [OF assms(1)]
    harr.del_law [OF _ assms(2)] harr.ins_law [OF assms(1)]
  by (simp del: VMCIHandleArray_HasEntry_correct)

theorem handle_array_append_remove_witness:
  "case VMCIHandleArray_RemoveEntry (VMCIHandleArray_AppendEntry True
       \<lparr>capacity = 1, asize = 1, entries = [VMCI_MAKE_HANDLE 3 4]\<rparr> (VMCI_MAKE_HANDLE 5 6)) (VMCI_MAKE_HANDLE 5 6)
   of (r, a') \<Rightarrow> r = VMCI_MAKE_HANDLE 5 6 \<and> mset (live a') = {#VMCI_MAKE_HANDLE 3 4#}"
proof -
  let ?a = "\<lparr>capacity = 1, asize = 1, entries = [VMCI_MAKE_HANDLE 3 4]\<rparr>"
  let ?h = "VMCI_MAKE_HANDLE 5 6"
  obtain r a' where r: "VMCIHandleArray_RemoveEntry (VMCIHandleArray_AppendEntry True ?a ?h) ?h = (r, a')"
    by fastforce
  have "harr_inv ?a" by (simp add: harr_inv_def)
  from handle_array_append_remove [OF this r] show ?thesis
    by (simp add: r append_stores_def VMCI_AllocKernelMem_def KMALLOC_MAX_SIZE_def live_def)
qed

end
