(* ===== verification/HashTable.thy ===== *)
theory HashTable
  imports VmciDefs
begin

text \<open>
  \<open>vmci-only/common/vmciHashtable.c\<close>: the table that maps handles to reference counted
  entries.  An entry is embedded in the object of the client (a resource, a well-known
  mapping), so the memory of the table maps a pointer to an extension of the entry record.
  The chain of a bucket is a list of pointers here; theory \<open>HashChain\<close> models the same
  operations on \<open>next\<close> pointers and shows that they refine these.  Every operation runs
  under the lock of the table and is one atomic function of the table.

  The locale \<open>handle_table\<close> states what the clients rely on; its client lemmas concern
  sequences of operations and reference counting; it is interpreted on the operations.
\<close>

record VMCIHashEntry =
  he_handle :: VMCIHandle
  he_refCount :: int

record 'e VMCIHashTable =
  ht_entries :: "ptr list list"
  ht_size :: u32
  ht_mem :: "ptr \<Rightarrow> 'e"

type_synonym 'a htable = "'a VMCIHashEntry_scheme VMCIHashTable"

section \<open>Operations\<close>

definition ht_handle :: "'a htable \<Rightarrow> ptr \<Rightarrow> VMCIHandle" where
  "ht_handle t p = he_handle (ht_mem t p)"

definition ht_ref :: "'a htable \<Rightarrow> ptr \<Rightarrow> int" where
  "ht_ref t p = he_refCount (ht_mem t p)"

definition ht_set_ref :: "ptr \<Rightarrow> int \<Rightarrow> 'a htable \<Rightarrow> 'a htable" where
  "ht_set_ref p n t = t\<lparr>ht_mem := (ht_mem t)(p := (ht_mem t p)\<lparr>he_refCount := n\<rparr>)\<rparr>"

definition ht_idx :: "'a htable \<Rightarrow> VMCIHandle \<Rightarrow> nat" where
  "ht_idx t h = unat (VMCI_Hash h (ht_size t))"

definition VMCIHashTable_Create ::
  "bool \<Rightarrow> bool \<Rightarrow> u32 \<Rightarrow> (ptr \<Rightarrow> 'a VMCIHashEntry_scheme) \<Rightarrow> 'a htable option" where
  "VMCIHashTable_Create avail1 avail2 sz mem =
     (if \<not> VMCI_AllocKernelMem avail1 24 then None
      else if \<not> VMCI_AllocKernelMem avail2 (8 * unat sz) then None
      else Some \<lparr>ht_entries = replicate (unat sz) [], ht_size = sz, ht_mem = mem\<rparr>)"

definition VMCIHashTable_Destroy :: "'a htable \<Rightarrow> 'a htable" where
  "VMCIHashTable_Destroy t = t\<lparr>ht_entries := []\<rparr>"

definition VMCIHashTable_InitEntry :: "'a htable \<Rightarrow> ptr \<Rightarrow> VMCIHandle \<Rightarrow> 'a htable" where
  "VMCIHashTable_InitEntry t e h =
     t\<lparr>ht_mem := (ht_mem t)(e := (ht_mem t e)\<lparr>he_handle := h, he_refCount := 0\<rparr>)\<rparr>"

definition VMCIHashTableEntryExistsLocked :: "'a htable \<Rightarrow> VMCIHandle \<Rightarrow> bool" where
  "VMCIHashTableEntryExistsLocked t h =
     (find (\<lambda>p. VMCI_HANDLE_EQUAL (ht_handle t p) h) (ht_entries t ! ht_idx t h) \<noteq> None)"

definition VMCIHashTable_EntryExists :: "'a htable \<Rightarrow> VMCIHandle \<Rightarrow> bool" where
  "VMCIHashTable_EntryExists t h = VMCIHashTableEntryExistsLocked t h"

definition VMCIHashTable_AddEntry :: "'a htable \<Rightarrow> ptr \<Rightarrow> int \<times> 'a htable" where
  "VMCIHashTable_AddEntry t e =
     (if VMCIHashTableEntryExistsLocked t (ht_handle t e) then (VMCI_ERROR_DUPLICATE_ENTRY, t)
      else let idx = ht_idx t (ht_handle t e);
               t1 = ht_set_ref e (ht_ref t e + 1) t
           in (VMCI_SUCCESS, t1\<lparr>ht_entries := (ht_entries t)[idx := e # ht_entries t ! idx]\<rparr>))"

fun unlink_first :: "(ptr \<Rightarrow> bool) \<Rightarrow> ptr list \<Rightarrow> ptr list option" where
  "unlink_first P [] = None"
| "unlink_first P (cur # next) =
     (if P cur then Some next else map_option ((#) cur) (unlink_first P next))"

text \<open>
  The release build removes the first entry whose handle equals that of \<open>e\<close>; that it is
  \<open>e\<close> itself is only asserted.
\<close>

definition HashTableUnlinkEntry :: "'a htable \<Rightarrow> ptr \<Rightarrow> int \<times> 'a htable" where
  "HashTableUnlinkEntry t e =
     (let idx = ht_idx t (ht_handle t e)
      in case unlink_first (\<lambda>cur. VMCI_HANDLE_EQUAL (ht_handle t cur) (ht_handle t e))
               (ht_entries t ! idx) of
           None \<Rightarrow> (VMCI_ERROR_NOT_FOUND, t)
         | Some b \<Rightarrow> (VMCI_SUCCESS, t\<lparr>ht_entries := (ht_entries t)[idx := b]\<rparr>))"

definition VMCIHashTable_RemoveEntry :: "'a htable \<Rightarrow> ptr \<Rightarrow> int \<times> 'a htable" where
  "VMCIHashTable_RemoveEntry t e =
     (let (result, t1) = HashTableUnlinkEntry t e
      in if result \<noteq> VMCI_SUCCESS then (result, t1)
         else let t2 = ht_set_ref e (ht_ref t1 e - 1) t1
              in if ht_ref t2 e = 0 then (VMCI_SUCCESS_ENTRY_DEAD, t2) else (result, t2))"

definition VMCIHashTableGetEntryLocked :: "'a htable \<Rightarrow> VMCIHandle \<Rightarrow> ptr option \<times> 'a htable" where
  "VMCIHashTableGetEntryLocked t h =
     (case find (\<lambda>cur. VMCI_HANDLE_EQUAL (ht_handle t cur) h) (ht_entries t ! ht_idx t h) of
        None \<Rightarrow> (None, t)
      | Some cur \<Rightarrow> (Some cur, ht_set_ref cur (ht_ref t cur + 1) t))"

definition VMCIHashTable_GetEntry :: "'a htable \<Rightarrow> VMCIHandle \<Rightarrow> ptr option \<times> 'a htable" where
  "VMCIHashTable_GetEntry t h =
     (if VMCI_HANDLE_EQUAL h VMCI_INVALID_HANDLE then (None, t)
      else VMCIHashTableGetEntryLocked t h)"

fun VMCIHashTable_GetEntries ::
  "'a htable \<Rightarrow> VMCIHandle list \<Rightarrow> ptr option list \<times> 'a htable" where
  "VMCIHashTable_GetEntries t [] = ([], t)"
| "VMCIHashTable_GetEntries t (h # hs) =
     (let (e, t1) = (if VMCI_HANDLE_EQUAL h VMCI_INVALID_HANDLE then (None, t)
                     else VMCIHashTableGetEntryLocked t h);
          (es, t2) = VMCIHashTable_GetEntries t1 hs
      in (e # es, t2))"

definition VMCIHashTableReleaseEntryLocked :: "'a htable \<Rightarrow> ptr \<Rightarrow> int \<times> 'a htable" where
  "VMCIHashTableReleaseEntryLocked t e =
     (let t1 = ht_set_ref e (ht_ref t e - 1) t
      in if ht_ref t1 e = 0 then (VMCI_SUCCESS_ENTRY_DEAD, snd (HashTableUnlinkEntry t1 e))
         else (VMCI_SUCCESS, t1))"

definition VMCIHashTable_ReleaseEntry :: "'a htable \<Rightarrow> ptr \<Rightarrow> int \<times> 'a htable" where
  "VMCIHashTable_ReleaseEntry t e = VMCIHashTableReleaseEntryLocked t e"

fun VMCIHashTable_ReleaseEntries ::
  "'a htable \<Rightarrow> ptr list \<Rightarrow> int \<Rightarrow> int \<times> int list \<times> 'a htable" where
  "VMCIHashTable_ReleaseEntries t [] result = (result, [], t)"
| "VMCIHashTable_ReleaseEntries t (e # es) result =
     (let (r, t1) = VMCIHashTableReleaseEntryLocked t e;
          result1 = (if r = VMCI_SUCCESS_ENTRY_DEAD then VMCI_SUCCESS_ENTRY_DEAD else result);
          (result2, rs, t2) = VMCIHashTable_ReleaseEntries t1 es result1
      in (result2, r # rs, t2))"

section \<open>Abstraction and invariant\<close>

definition ht_lookup :: "'a htable \<Rightarrow> VMCIHandle \<Rightarrow> ptr option" where
  "ht_lookup t h = find (\<lambda>p. ht_handle t p = h) (ht_entries t ! ht_idx t h)"

definition linked :: "'a htable \<Rightarrow> ptr \<Rightarrow> bool" where
  "linked t p \<longleftrightarrow> ht_lookup t (ht_handle t p) = Some p"

text \<open>
  Every entry is in the bucket of its handle, no bucket holds two entries with one handle,
  and a linked entry carries at least the reference of the table.
\<close>

definition ht_inv :: "'a htable \<Rightarrow> bool" where
  [inv_defs]: "ht_inv t \<longleftrightarrow> ht_size t \<noteq> 0 \<and> length (ht_entries t) = unat (ht_size t)
     \<and> (\<forall>i < length (ht_entries t).
           distinct (map (ht_handle t) (ht_entries t ! i))
         \<and> (\<forall>p \<in> set (ht_entries t ! i). ht_idx t (ht_handle t p) = i \<and> 1 \<le> ht_ref t p))"

lemma ht_set_ref_fields [simp]:
  "ht_entries (ht_set_ref p n t) = ht_entries t"
  "ht_size (ht_set_ref p n t) = ht_size t"
  "ht_idx (ht_set_ref p n t) h = ht_idx t h"
  "ht_handle (ht_set_ref p n t) = ht_handle t"
  "ht_ref (ht_set_ref p n t) = (ht_ref t)(p := n)"
  by (auto simp: ht_set_ref_def ht_idx_def ht_handle_def ht_ref_def fun_eq_iff)

lemma ht_set_ref_lookup [simp]:
  "ht_lookup (ht_set_ref p n t) = ht_lookup t" "linked (ht_set_ref p n t) = linked t"
  by (simp_all add: ht_lookup_def linked_def fun_eq_iff)

lemma ht_set_ref_same [simp]: "ht_set_ref p (ht_ref t p) t = t"
  by (simp add: ht_set_ref_def ht_ref_def)

lemma ht_set_ref_twice [simp]: "ht_set_ref p m (ht_set_ref p n t) = ht_set_ref p m t"
  by (simp add: ht_set_ref_def)

lemma ht_mem_set_ref [simp]:
  "ht_mem (ht_set_ref p n t) = (ht_mem t)(p := (ht_mem t p)\<lparr>he_refCount := n\<rparr>)"
  by (simp add: ht_set_ref_def)

lemma ht_entries_update_simps [simp]:
  "ht_handle (t\<lparr>ht_entries := b\<rparr>) = ht_handle t"
  "ht_ref (t\<lparr>ht_entries := b\<rparr>) = ht_ref t"
  "ht_idx (t\<lparr>ht_entries := b\<rparr>) h = ht_idx t h"
  by (auto simp: ht_idx_def ht_handle_def ht_ref_def fun_eq_iff)

lemma ht_idx_less: "ht_inv t \<Longrightarrow> ht_idx t h < length (ht_entries t)"
  by (simp add: ht_inv_def ht_idx_def VMCI_Hash_less)

lemma ht_lookup_Some_D:
  assumes "ht_lookup t h = Some p"
  shows "ht_handle t p = h" "p \<in> set (ht_entries t ! ht_idx t h)" "linked t p"
  using assms by (auto simp: ht_lookup_def linked_def dest: find_Some_D)

lemma ht_inv_bucket:
  assumes "ht_inv t" "i < length (ht_entries t)"
  shows "distinct (map (ht_handle t) (ht_entries t ! i))"
    and "p \<in> set (ht_entries t ! i) \<Longrightarrow> ht_idx t (ht_handle t p) = i"
    and "p \<in> set (ht_entries t ! i) \<Longrightarrow> 1 \<le> ht_ref t p"
  using assms by (simp_all add: ht_inv_def)

lemma linked_ref: "1 \<le> ht_ref t p" if "ht_inv t" "linked t p"
proof -
  have "p \<in> set (ht_entries t ! ht_idx t (ht_handle t p))"
    using that(2) by (auto simp: linked_def dest: ht_lookup_Some_D(2))
  then show ?thesis using ht_inv_bucket(3) ht_idx_less that(1) by blast
qed

text \<open>A bucket with distinct handles acts as a finite map.\<close>

lemma unlink_first_None: "unlink_first P b = None \<longleftrightarrow> (\<forall>p \<in> set b. \<not> P p)"
  by (induction b) auto

lemma unlink_first_None_find: "unlink_first P b = None \<longleftrightarrow> find P b = None"
  by (auto simp: unlink_first_None find_None_iff)

lemma unlink_first_subseq:
  "unlink_first P b = Some b' \<Longrightarrow> set b' \<subseteq> set b \<and> (distinct (map f b) \<longrightarrow> distinct (map f b'))"
  by (induction b arbitrary: b') (auto split: if_splits, blast+)

lemma find_unlink_first:
  assumes "unlink_first (\<lambda>p. f p = k) b = Some b'" "distinct (map f b)"
  shows "find (\<lambda>p. f p = h) b' = (if h = k then None else find (\<lambda>p. f p = h) b)"
  using assms
proof (induction b arbitrary: b')
  case (Cons p b)
  show ?case
  proof (cases "f p = k")
    case True
    with Cons.prems have "b' = b" "k \<notin> f ` set b" by auto
    with True show ?thesis by (auto simp: find_None_iff image_iff)
  next
    case False
    with Cons show ?thesis by auto
  qed
qed simp


lemma linkedI:
  assumes inv: "ht_inv t" and i: "i < length (ht_entries t)" and p: "p \<in> set (ht_entries t ! i)"
  shows "linked t p"
proof -
  note b = ht_inv_bucket(1,2) [OF inv i]
  have "find (\<lambda>q. ht_handle t q = ht_handle t p) (ht_entries t ! i) = Some p"
    using p b(1) by (intro find_unique) (auto dest: inj_onD simp: distinct_map)
  then show ?thesis using b(2) [OF p] by (simp add: linked_def ht_lookup_def)
qed

section \<open>Each operation on the abstraction\<close>

lemma EntryExists_lookup:
  "VMCIHashTableEntryExistsLocked t h \<longleftrightarrow> ht_lookup t h \<noteq> None"
  by (simp add: VMCIHashTableEntryExistsLocked_def ht_lookup_def)

lemma bucket_update_lookup:
  assumes "ht_inv t" "i = ht_idx t k"
    and "\<And>h. ht_idx t h = i \<Longrightarrow> find (\<lambda>p. ht_handle t p = h) b
            = (if h = k then x else find (\<lambda>p. ht_handle t p = h) (ht_entries t ! i))"
  shows "ht_lookup (t\<lparr>ht_entries := (ht_entries t)[i := b]\<rparr>) = (ht_lookup t)(k := x)"
  using assms ht_idx_less [of t k] by (auto simp: fun_eq_iff ht_lookup_def nth_list_update)

lemma bucket_update_inv:
  assumes "ht_inv t" "distinct (map (ht_handle t) b)"
    and "\<And>p. p \<in> set b \<Longrightarrow> ht_idx t (ht_handle t p) = i \<and> 1 \<le> ht_ref t p"
  shows "ht_inv (t\<lparr>ht_entries := (ht_entries t)[i := b]\<rparr>)"
  using assms by (cases "i < length (ht_entries t)") (simp_all add: ht_inv_def nth_list_update)

lemma ht_set_ref_inv:
  assumes "ht_inv t" "linked t p \<Longrightarrow> 1 \<le> n"
  shows "ht_inv (ht_set_ref p n t)"
proof -
  have "\<And>i. i < length (ht_entries t) \<Longrightarrow> p \<in> set (ht_entries t ! i) \<Longrightarrow> 1 \<le> n"
    using assms linkedI by blast
  with assms(1) show ?thesis by (auto simp: ht_inv_def)
qed

lemma VMCIHashTable_Create_correct:
  assumes "VMCIHashTable_Create a1 a2 sz m = Some t" "sz \<noteq> 0"
  shows "ht_inv t \<and> ht_lookup t h = None \<and> ht_mem t = m"
proof -
  from assms(1) have t: "t = \<lparr>ht_entries = replicate (unat sz) [], ht_size = sz, ht_mem = m\<rparr>"
    by (simp add: VMCIHashTable_Create_def split: if_splits)
  show ?thesis
    using assms(2) VMCI_Hash_less [of sz h] by (simp add: t ht_inv_def ht_lookup_def ht_idx_def)
qed

lemma VMCIHashTable_AddEntry_correct:
  assumes inv: "ht_inv t" and ref: "0 \<le> ht_ref t e"
  shows "case VMCIHashTable_AddEntry t e of (r, t') \<Rightarrow> ht_inv t' \<and>
    (if ht_lookup t (ht_handle t e) \<noteq> None then r = VMCI_ERROR_DUPLICATE_ENTRY \<and> t' = t
     else r = VMCI_SUCCESS \<and> ht_lookup t' = (ht_lookup t)(ht_handle t e := Some e)
        \<and> ht_handle t' = ht_handle t \<and> ht_ref t' = (ht_ref t)(e := ht_ref t e + 1))"
proof (cases "ht_lookup t (ht_handle t e)")
  case None
  let ?t1 = "ht_set_ref e (ht_ref t e + 1) t"
  let ?i = "ht_idx t (ht_handle t e)"
  let ?b = "e # ht_entries t ! ?i"
  have i: "?i < length (ht_entries t)" using inv by (rule ht_idx_less)
  have inv1: "ht_inv ?t1" using inv ref by (simp add: ht_set_ref_inv)
  have new: "ht_handle t e \<notin> ht_handle t ` set (ht_entries t ! ?i)"
    using None by (auto simp: ht_lookup_def find_None_iff)
  have "ht_inv (?t1\<lparr>ht_entries := (ht_entries ?t1)[?i := ?b]\<rparr>)"
    using inv1 ref new ht_inv_bucket [OF inv i] by (intro bucket_update_inv) auto
  moreover have "ht_lookup (?t1\<lparr>ht_entries := (ht_entries ?t1)[?i := ?b]\<rparr>)
      = (ht_lookup ?t1)(ht_handle t e := Some e)"
    using inv1 by (intro bucket_update_lookup) auto
  ultimately show ?thesis
    using None by (simp add: VMCIHashTable_AddEntry_def EntryExists_lookup Let_def)
qed (use inv in \<open>simp add: VMCIHashTable_AddEntry_def EntryExists_lookup\<close>)

lemma HashTableUnlinkEntry_correct:
  assumes inv: "ht_inv t"
  shows "case HashTableUnlinkEntry t e of (r, t') \<Rightarrow> ht_inv t'
    \<and> r = (if ht_lookup t (ht_handle t e) = None then VMCI_ERROR_NOT_FOUND else VMCI_SUCCESS)
    \<and> ht_lookup t' = (ht_lookup t)(ht_handle t e := None)
    \<and> ht_handle t' = ht_handle t \<and> ht_ref t' = ht_ref t \<and> ht_mem t' = ht_mem t"
proof -
  let ?k = "ht_handle t e"
  let ?i = "ht_idx t ?k"
  let ?u = "unlink_first (\<lambda>cur. ht_handle t cur = ?k) (ht_entries t ! ?i)"
  show ?thesis
  proof (cases ?u)
    case None
    then have "ht_lookup t ?k = None" by (simp add: ht_lookup_def unlink_first_None_find)
    with None inv show ?thesis
      by (simp add: HashTableUnlinkEntry_def Let_def fun_upd_idem)
  next
    case (Some b)
    then have found: "ht_lookup t ?k \<noteq> None"
      by (metis ht_lookup_def option.distinct(1) unlink_first_None_find)
    have i: "?i < length (ht_entries t)" using inv by (rule ht_idx_less)
    note bucket = ht_inv_bucket [OF inv i] and sub = unlink_first_subseq [OF Some]
    have "ht_inv (t\<lparr>ht_entries := (ht_entries t)[?i := b]\<rparr>)"
      using inv bucket sub by (intro bucket_update_inv) auto
    moreover have "ht_lookup (t\<lparr>ht_entries := (ht_entries t)[?i := b]\<rparr>) = (ht_lookup t)(?k := None)"
      using inv find_unlink_first [OF Some bucket(1)] by (intro bucket_update_lookup) auto
    ultimately show ?thesis
      using Some found by (simp add: HashTableUnlinkEntry_def Let_def)
  qed
qed


lemma ht_set_ref_entries: "(ht_set_ref p n t)\<lparr>ht_entries := b\<rparr> = ht_set_ref p n (t\<lparr>ht_entries := b\<rparr>)"
  by (simp add: ht_set_ref_def)

lemma HashTableUnlinkEntry_set_ref:
  "HashTableUnlinkEntry (ht_set_ref p n t) e
     = (fst (HashTableUnlinkEntry t e), ht_set_ref p n (snd (HashTableUnlinkEntry t e)))"
  by (simp add: HashTableUnlinkEntry_def Let_def ht_set_ref_entries split: option.split)

lemma VMCIHashTable_RemoveEntry_correct:
  assumes inv: "ht_inv t" and ok: "linked t e \<or> ht_lookup t (ht_handle t e) = None"
  shows "case VMCIHashTable_RemoveEntry t e of (r, t') \<Rightarrow> ht_inv t' \<and> ht_handle t' = ht_handle t
    \<and> (if linked t e then r = (if ht_ref t e = 1 then VMCI_SUCCESS_ENTRY_DEAD else VMCI_SUCCESS)
          \<and> ht_lookup t' = (ht_lookup t)(ht_handle t e := None)
          \<and> ht_ref t' = (ht_ref t)(e := ht_ref t e - 1)
        else r = VMCI_ERROR_NOT_FOUND \<and> ht_lookup t' = ht_lookup t \<and> ht_ref t' = ht_ref t)"
proof -
  obtain r1 t1 where u: "HashTableUnlinkEntry t e = (r1, t1)" by (cases "HashTableUnlinkEntry t e")
  note c = HashTableUnlinkEntry_correct [OF inv, of e, unfolded u prod.case]
  show ?thesis
  proof (cases "linked t e")
    case True
    then have "r1 = VMCI_SUCCESS" and gone: "\<not> linked t1 e" using c by (auto simp: linked_def)
    moreover have "ht_inv (ht_set_ref e (ht_ref t e - 1) t1)"
      using c gone by (intro ht_set_ref_inv) auto
    ultimately show ?thesis using True c by (auto simp: VMCIHashTable_RemoveEntry_def u Let_def)
  next
    case False
    with ok c show ?thesis by (auto simp: VMCIHashTable_RemoveEntry_def u fun_upd_idem)
  qed
qed

lemma VMCIHashTableGetEntryLocked_eq:
  "VMCIHashTableGetEntryLocked t h = (case ht_lookup t h of None \<Rightarrow> (None, t)
     | Some p \<Rightarrow> (Some p, ht_set_ref p (ht_ref t p + 1) t))"
  by (simp add: VMCIHashTableGetEntryLocked_def ht_lookup_def)

lemma VMCIHashTable_GetEntry_eq:
  "VMCIHashTable_GetEntry t h = (if h = VMCI_INVALID_HANDLE then (None, t)
     else case ht_lookup t h of None \<Rightarrow> (None, t)
          | Some p \<Rightarrow> (Some p, ht_set_ref p (ht_ref t p + 1) t))"
  by (simp add: VMCIHashTable_GetEntry_def VMCIHashTableGetEntryLocked_eq)

lemma ht_inv_get: "ht_inv t \<Longrightarrow> ht_inv (ht_set_ref p (ht_ref t p + 1) t)"
  by (rule ht_set_ref_inv) (auto dest: linked_ref)

lemma VMCIHashTable_ReleaseEntry_eq:
  assumes "ht_ref t e \<noteq> 1"
  shows "VMCIHashTable_ReleaseEntry t e = (VMCI_SUCCESS, ht_set_ref e (ht_ref t e - 1) t)"
  using assms by (simp add: VMCIHashTable_ReleaseEntry_def VMCIHashTableReleaseEntryLocked_def)

lemma VMCIHashTable_ReleaseEntry_last:
  assumes inv: "ht_inv t" and last: "ht_ref t e = 1"
  shows "case VMCIHashTable_ReleaseEntry t e of (r, t') \<Rightarrow> r = VMCI_SUCCESS_ENTRY_DEAD
    \<and> ht_lookup t' = (ht_lookup t)(ht_handle t e := None)
    \<and> ht_handle t' = ht_handle t \<and> ht_ref t' = (ht_ref t)(e := 0)
    \<and> (linked t e \<or> ht_lookup t (ht_handle t e) = None \<longrightarrow> ht_inv t')"
proof -
  let ?t1 = "ht_set_ref e 0 t"
  obtain r1 t1 where u: "HashTableUnlinkEntry ?t1 e = (r1, t1)" by (cases "HashTableUnlinkEntry ?t1 e")
  have e: "VMCIHashTable_ReleaseEntry t e = (VMCI_SUCCESS_ENTRY_DEAD, t1)"
    by (simp add: VMCIHashTable_ReleaseEntry_def VMCIHashTableReleaseEntryLocked_def last u)
  obtain r2 t2 where u2: "HashTableUnlinkEntry t e = (r2, t2)" by (cases "HashTableUnlinkEntry t e")
  have t1: "t1 = ht_set_ref e 0 t2"
    using u u2 by (simp add: HashTableUnlinkEntry_set_ref)
  note c = HashTableUnlinkEntry_correct [OF inv, of e, unfolded u2 prod.case]
  have "\<not> linked t2 e" using c by (simp add: linked_def)
  with c have "ht_inv t1" unfolding t1 by (intro ht_set_ref_inv) auto
  with c show ?thesis by (simp add: e) (simp add: t1)
qed


section \<open>The interface of the table\<close>

text \<open>
  What the clients rely on: a map from handles to entries and a reference count per entry,
  of which the table holds one while the entry is mapped.
\<close>

locale handle_table =
  fixes inv :: "'s \<Rightarrow> bool" and look :: "'s \<Rightarrow> VMCIHandle \<Rightarrow> ptr option"
    and hnd :: "'s \<Rightarrow> ptr \<Rightarrow> VMCIHandle" and ref :: "'s \<Rightarrow> ptr \<Rightarrow> int"
    and add :: "'s \<Rightarrow> ptr \<Rightarrow> int \<times> 's" and get :: "'s \<Rightarrow> VMCIHandle \<Rightarrow> ptr option \<times> 's"
    and rem :: "'s \<Rightarrow> ptr \<Rightarrow> int \<times> 's" and rel :: "'s \<Rightarrow> ptr \<Rightarrow> int \<times> 's"
  assumes look_hnd: "look s h = Some p \<Longrightarrow> hnd s p = h"
    and look_ref: "inv s \<Longrightarrow> look s h = Some p \<Longrightarrow> 1 \<le> ref s p"
    and add_law: "inv s \<Longrightarrow> 0 \<le> ref s e \<Longrightarrow> add s e = (r, s') \<Longrightarrow> inv s' \<and>
      (if look s (hnd s e) \<noteq> None then r = VMCI_ERROR_DUPLICATE_ENTRY \<and> s' = s
       else r = VMCI_SUCCESS \<and> look s' = (look s)(hnd s e := Some e) \<and> hnd s' = hnd s
         \<and> ref s' = (ref s)(e := ref s e + 1))"
    and get_law: "inv s \<Longrightarrow> get s h = (x, s') \<Longrightarrow> inv s' \<and> hnd s' = hnd s \<and> look s' = look s
      \<and> x = (if h = VMCI_INVALID_HANDLE then None else look s h)
      \<and> ref s' = (case x of None \<Rightarrow> ref s | Some p \<Rightarrow> (ref s)(p := ref s p + 1))"
    and rem_law: "inv s \<Longrightarrow> look s (hnd s e) \<in> {None, Some e} \<Longrightarrow> rem s e = (r, s') \<Longrightarrow>
      inv s' \<and> hnd s' = hnd s \<and>
      (if look s (hnd s e) = Some e
       then r = (if ref s e = 1 then VMCI_SUCCESS_ENTRY_DEAD else VMCI_SUCCESS)
         \<and> look s' = (look s)(hnd s e := None) \<and> ref s' = (ref s)(e := ref s e - 1)
       else r = VMCI_ERROR_NOT_FOUND \<and> look s' = look s \<and> ref s' = ref s)"
    and rel_law: "inv s \<Longrightarrow> look s (hnd s e) \<in> {None, Some e} \<Longrightarrow> rel s e = (r, s') \<Longrightarrow>
      inv s' \<and> hnd s' = hnd s \<and> ref s' = (ref s)(e := ref s e - 1)
      \<and> r = (if ref s e = 1 then VMCI_SUCCESS_ENTRY_DEAD else VMCI_SUCCESS)
      \<and> look s' = (if ref s e = 1 then (look s)(hnd s e := None) else look s)"

text \<open>
  Reference counting.  \<open>owed p\<close> counts the references clients hold.  The discipline: the
  count of an entry is what is owed plus the reference of the table, and while a client
  holds an entry its handle is not given to another one.
\<close>

definition counted ::
  "(VMCIHandle \<Rightarrow> ptr option) \<Rightarrow> (ptr \<Rightarrow> VMCIHandle) \<Rightarrow> (ptr \<Rightarrow> int) \<Rightarrow> (ptr \<Rightarrow> nat) \<Rightarrow> bool" where
  "counted look hnd ref owed \<longleftrightarrow>
     (\<forall>p. ref p = int (owed p) + (if look (hnd p) = Some p then 1 else 0)
        \<and> (0 < owed p \<longrightarrow> look (hnd p) \<in> {None, Some p}))"

lemma countedD:
  "counted look hnd ref owed \<Longrightarrow> ref p = int (owed p) + (if look (hnd p) = Some p then 1 else 0)"
  "counted look hnd ref owed \<Longrightarrow> 0 < owed p \<Longrightarrow> look (hnd p) \<in> {None, Some p}"
  by (auto simp: counted_def)

context handle_table begin

lemma get_then_release:
  assumes "inv s" "get s h = (Some p, s1)" "rel s1 p = (r, s2)"
  shows "r = VMCI_SUCCESS \<and> inv s2 \<and> look s2 = look s \<and> hnd s2 = hnd s \<and> ref s2 = ref s"
proof -
  note g = get_law [OF assms(1,2)]
  then have "look s h = Some p" by (auto split: if_splits)
  then have p: "look s (hnd s p) = Some p" and "1 \<le> ref s p"
    using look_hnd look_ref assms(1) by auto
  with g rel_law [of s1 p r s2] assms(3) show ?thesis by auto
qed

lemma add_counted:
  assumes "inv s" "counted (look s) (hnd s) (ref s) owed" "add s e = (r, s')"
    and "owed e = 0" "\<And>p. 0 < owed p \<Longrightarrow> hnd s p \<noteq> hnd s e"
  shows "inv s' \<and> counted (look s') (hnd s') (ref s') owed"
proof -
  have "0 \<le> ref s e" using countedD(1) [OF assms(2), of e] by simp
  note a = add_law [OF assms(1) this assms(3)]
  show ?thesis
  proof (cases "look s (hnd s e) = None")
    case True
    have "((look s)(hnd s e := Some e)) (hnd s p) = Some p \<longleftrightarrow> p = e \<or> look s (hnd s p) = Some p" for p
      using True by auto
    with True a assms(2,4,5) show ?thesis by (auto simp: counted_def)
  next
    case False
    with a assms(2) show ?thesis by auto
  qed
qed

lemma get_counted:
  assumes "inv s" "counted (look s) (hnd s) (ref s) owed" "get s h = (x, s')"
  shows "inv s' \<and> counted (look s') (hnd s') (ref s')
    (case x of None \<Rightarrow> owed | Some p \<Rightarrow> owed(p := Suc (owed p)))"
proof (cases x)
  case None
  with get_law [OF assms(1,3)] assms(2) show ?thesis by simp
next
  case (Some p)
  with get_law [OF assms(1,3)] have l: "look s h = Some p" and
    s': "inv s'" "hnd s' = hnd s" "look s' = look s" "ref s' = (ref s)(p := ref s p + 1)"
    by (auto split: if_splits)
  have "look s (hnd s p) = Some p" using l look_hnd by auto
  with s' assms(2) Some show ?thesis by (simp add: counted_def)
qed

lemma rem_counted:
  assumes "inv s" "counted (look s) (hnd s) (ref s) owed" "rem s e = (r, s')"
    and "0 < owed e \<or> look s (hnd s e) = Some e"
  shows "inv s' \<and> counted (look s') (hnd s') (ref s') owed
    \<and> (r = VMCI_SUCCESS_ENTRY_DEAD \<longleftrightarrow> owed e = 0)"
proof -
  have "look s (hnd s e) \<in> {None, Some e}"
    using assms(2,4) by (auto simp: counted_def)
  note a = rem_law [OF assms(1) this assms(3)]
  have u: "((look s)(hnd s e := None)) (hnd s p) = Some p \<longleftrightarrow> p \<noteq> e \<and> look s (hnd s p) = Some p"
    if "look s (hnd s e) = Some e" for p
    using that by auto
  show ?thesis
    using a assms(2,4) u by (auto simp: counted_def split: if_splits)
qed

lemma rel_counted:
  assumes "inv s" "counted (look s) (hnd s) (ref s) owed" "rel s e = (r, s')" and "0 < owed e"
  shows "inv s' \<and> counted (look s') (hnd s') (ref s') (owed(e := owed e - 1)) \<and> look s' = look s
    \<and> (r = VMCI_SUCCESS_ENTRY_DEAD \<longleftrightarrow> owed e = 1 \<and> look s (hnd s e) = None)"
proof -
  note c = countedD(1) [OF assms(2), of e] and d = countedD(2) [OF assms(2,4)]
  note a = rel_law [OF assms(1) d assms(3)]
  have dead: "ref s e = 1 \<longleftrightarrow> owed e = 1 \<and> look s (hnd s e) = None"
    using c d assms(4) by auto
  then have look': "look s' = look s" using a by (auto simp: fun_upd_idem)
  moreover have "counted (look s) (hnd s) ((ref s)(e := ref s e - 1)) (owed(e := owed e - 1))"
    using assms(2) d assms(4) unfolding counted_def by (auto simp: of_nat_diff)
  ultimately show ?thesis using a dead by simp
qed

end

lemma ht_add_law:
  assumes "ht_inv t" "0 \<le> ht_ref t e" "VMCIHashTable_AddEntry t e = (r, t')"
  shows "ht_inv t' \<and>
      (if ht_lookup t (ht_handle t e) \<noteq> None then r = VMCI_ERROR_DUPLICATE_ENTRY \<and> t' = t
       else r = VMCI_SUCCESS \<and> ht_lookup t' = (ht_lookup t)(ht_handle t e := Some e)
         \<and> ht_handle t' = ht_handle t \<and> ht_ref t' = (ht_ref t)(e := ht_ref t e + 1))"
  using VMCIHashTable_AddEntry_correct [OF assms(1,2)] assms(3) by simp

lemma ht_get_law:
  assumes "ht_inv t" "VMCIHashTable_GetEntry t h = (x, t')"
  shows "ht_inv t' \<and> ht_handle t' = ht_handle t \<and> ht_lookup t' = ht_lookup t
      \<and> x = (if h = VMCI_INVALID_HANDLE then None else ht_lookup t h)
      \<and> ht_ref t' = (case x of None \<Rightarrow> ht_ref t | Some p \<Rightarrow> (ht_ref t)(p := ht_ref t p + 1))"
  using assms by (auto simp: VMCIHashTable_GetEntry_eq ht_inv_get split: if_splits option.splits)

lemma ht_rel_law:
  assumes "ht_inv t" "ht_lookup t (ht_handle t e) \<in> {None, Some e}"
    and "VMCIHashTable_ReleaseEntry t e = (r, t')"
  shows "ht_inv t' \<and> ht_handle t' = ht_handle t \<and> ht_ref t' = (ht_ref t)(e := ht_ref t e - 1)
      \<and> r = (if ht_ref t e = 1 then VMCI_SUCCESS_ENTRY_DEAD else VMCI_SUCCESS)
      \<and> ht_lookup t' = (if ht_ref t e = 1 then (ht_lookup t)(ht_handle t e := None) else ht_lookup t)"
proof (cases "ht_ref t e = 1")
  case True
  with VMCIHashTable_ReleaseEntry_last [OF assms(1) True] assms show ?thesis
    by (auto simp: linked_def)
next
  case False
  have "linked t e \<Longrightarrow> 1 \<le> ht_ref t e - 1" using linked_ref [OF assms(1)] False by fastforce
  with False assms show ?thesis by (auto simp: VMCIHashTable_ReleaseEntry_eq ht_set_ref_inv)
qed

interpretation ht: handle_table ht_inv ht_lookup ht_handle ht_ref
  VMCIHashTable_AddEntry VMCIHashTable_GetEntry VMCIHashTable_RemoveEntry VMCIHashTable_ReleaseEntry
proof unfold_locales
  fix t :: "'a htable" and e r t'
  assume "ht_inv t" "ht_lookup t (ht_handle t e) \<in> {None, Some e}"
    "VMCIHashTable_RemoveEntry t e = (r, t')"
  then show "ht_inv t' \<and> ht_handle t' = ht_handle t \<and>
      (if ht_lookup t (ht_handle t e) = Some e
       then r = (if ht_ref t e = 1 then VMCI_SUCCESS_ENTRY_DEAD else VMCI_SUCCESS)
         \<and> ht_lookup t' = (ht_lookup t)(ht_handle t e := None) \<and> ht_ref t' = (ht_ref t)(e := ht_ref t e - 1)
       else r = VMCI_ERROR_NOT_FOUND \<and> ht_lookup t' = ht_lookup t \<and> ht_ref t' = ht_ref t)"
    using VMCIHashTable_RemoveEntry_correct [of t e] by (auto simp: linked_def)
next
  fix t :: "'a htable" and h p
  assume "ht_inv t" "ht_lookup t h = Some p"
  then show "1 \<le> ht_ref t p" by (auto intro: linked_ref dest: ht_lookup_Some_D(3))
qed (fact ht_lookup_Some_D(1) ht_add_law ht_get_law ht_rel_law)+


section \<open>Reference counting over any sequence of calls\<close>

text \<open>
  The state is the table and the references each client still has to release.  Clients may
  remove an entry they hold or that is mapped, release only what they hold, and initialise
  only entries nobody uses.  \<open>ht_add\<close> carries the discipline the code does not enforce:
  a handle must not be reused while its previous entry is still held.
\<close>

type_synonym 'a ht_conf = "'a htable \<times> (ptr \<Rightarrow> nat)"

inductive ht_step :: "'a ht_conf \<Rightarrow> 'a ht_conf \<Rightarrow> bool" where
  ht_init: "\<lbrakk> owed e = 0; \<not> linked t e \<rbrakk> \<Longrightarrow> ht_step (t, owed) (VMCIHashTable_InitEntry t e h, owed)"
| ht_add: "\<lbrakk> owed e = 0; \<And>p. 0 < owed p \<Longrightarrow> ht_handle t p \<noteq> ht_handle t e;
      VMCIHashTable_AddEntry t e = (r, t') \<rbrakk> \<Longrightarrow> ht_step (t, owed) (t', owed)"
| ht_get: "\<lbrakk> VMCIHashTable_GetEntry t h = (Some p, t') \<rbrakk> \<Longrightarrow>
      ht_step (t, owed) (t', owed(p := Suc (owed p)))"
| ht_get_none: "\<lbrakk> VMCIHashTable_GetEntry t h = (None, t') \<rbrakk> \<Longrightarrow> ht_step (t, owed) (t', owed)"
| ht_remove: "\<lbrakk> 0 < owed e \<or> linked t e; VMCIHashTable_RemoveEntry t e = (r, t') \<rbrakk> \<Longrightarrow>
      ht_step (t, owed) (t', owed)"
| ht_release: "\<lbrakk> 0 < owed e; VMCIHashTable_ReleaseEntry t e = (r, t') \<rbrakk> \<Longrightarrow>
      ht_step (t, owed) (t', owed(e := owed e - 1))"

definition ht_counted :: "'a ht_conf \<Rightarrow> bool" where
  "ht_counted c \<longleftrightarrow> ht_inv (fst c)
     \<and> counted (ht_lookup (fst c)) (ht_handle (fst c)) (ht_ref (fst c)) (snd c)"

lemma VMCIHashTable_InitEntry_mem [simp]:
  "ht_handle (VMCIHashTable_InitEntry t e h) = (ht_handle t)(e := h)"
  "ht_ref (VMCIHashTable_InitEntry t e h) = (ht_ref t)(e := 0)"
  "ht_entries (VMCIHashTable_InitEntry t e h) = ht_entries t"
  "ht_size (VMCIHashTable_InitEntry t e h) = ht_size t"
  "ht_idx (VMCIHashTable_InitEntry t e h) = ht_idx t"
  by (auto simp: VMCIHashTable_InitEntry_def ht_handle_def ht_ref_def ht_idx_def fun_eq_iff)

lemma VMCIHashTable_InitEntry_correct:
  assumes inv: "ht_inv t" and free: "\<not> linked t e"
  shows "ht_inv (VMCIHashTable_InitEntry t e h)"
    and "ht_lookup (VMCIHashTable_InitEntry t e h) = ht_lookup t"
    and "\<not> linked (VMCIHashTable_InitEntry t e h) e"
proof -
  have out: "i < length (ht_entries t) \<Longrightarrow> e \<notin> set (ht_entries t ! i)" for i
    using linkedI [OF inv] free by blast
  have "map ((ht_handle t)(e := h)) (ht_entries t ! i) = map (ht_handle t) (ht_entries t ! i)"
    if "i < length (ht_entries t)" for i
    using out [OF that] by (auto intro!: map_cong)
  with inv out show "ht_inv (VMCIHashTable_InitEntry t e h)"
    by (auto simp: ht_inv_def)
  have "find (\<lambda>p. ((ht_handle t)(e := h)) p = k) (ht_entries t ! ht_idx t k)
      = find (\<lambda>p. ht_handle t p = k) (ht_entries t ! ht_idx t k)" for k
    using out [OF ht_idx_less [OF inv]] by (intro find_cong) auto
  then show l: "ht_lookup (VMCIHashTable_InitEntry t e h) = ht_lookup t"
    by (simp add: fun_eq_iff ht_lookup_def)
  have "ht_lookup t h \<noteq> Some e"
    using out [OF ht_idx_less [OF inv]] ht_lookup_Some_D(2) by blast
  with l show "\<not> linked (VMCIHashTable_InitEntry t e h) e" by (simp add: linked_def)
qed

lemma ht_step_counted: "ht_step c c' \<Longrightarrow> ht_counted c \<Longrightarrow> ht_counted c'"
proof (induction rule: ht_step.induct)
  case (ht_init owed e t h)
  then have c: "ht_inv t" "counted (ht_lookup t) (ht_handle t) (ht_ref t) owed"
    by (simp_all add: ht_counted_def)
  note i = VMCIHashTable_InitEntry_correct [OF c(1) ht_init(2), of h]
  have "ht_lookup t h \<noteq> Some e" using i(2,3) by (simp add: linked_def)
  with i(2) c(2) ht_init(1) have "counted (ht_lookup t) ((ht_handle t)(e := h)) ((ht_ref t)(e := 0)) owed"
    by (auto simp: counted_def)
  with i show ?case by (simp add: ht_counted_def)
next
  case (ht_add owed e t r t')
  then show ?case using ht.add_counted [of t owed e r t'] by (simp add: ht_counted_def)
next
  case (ht_get t h p t' owed)
  then show ?case using ht.get_counted [of t owed h "Some p" t'] by (simp add: ht_counted_def)
next
  case (ht_get_none t h t' owed)
  then show ?case using ht.get_counted [of t owed h None t'] by (simp add: ht_counted_def)
next
  case (ht_remove owed e t r t')
  then show ?case using ht.rem_counted [of t owed e r t'] by (simp add: ht_counted_def linked_def)
next
  case (ht_release owed e t r t')
  then show ?case using ht.rel_counted [of t owed e r t'] by (auto simp: ht_counted_def)
qed

lemma ht_reachable_counted: "ht_step\<^sup>*\<^sup>* c c' \<Longrightarrow> ht_counted c \<Longrightarrow> ht_counted c'"
  by (induction rule: rtranclp_induct) (auto dest: ht_step_counted)

lemma ht_created_counted:
  assumes "VMCIHashTable_Create a1 a2 sz m = Some t" "sz \<noteq> 0" "\<And>p. he_refCount (m p) = 0"
  shows "ht_counted (t, \<lambda>_. 0)"
proof -
  have "ht_mem t = m" "ht_inv t" "ht_lookup t h = None" for h
    using VMCIHashTable_Create_correct [OF assms(1,2), of h] by auto
  with assms(3) show ?thesis by (simp add: ht_counted_def counted_def ht_ref_def)
qed


section \<open>Properties\<close>


definition demo_mem :: "ptr \<Rightarrow> VMCIHashEntry" where
  "demo_mem p = \<lparr>he_handle = VMCI_MAKE_HANDLE 0 0, he_refCount = 0\<rparr>"


text \<open>
  C6: Without that discipline the release build loses an entry: the last release of an
  entry that was removed from the table unmaps whatever entry has its handle by then,
  although the count of that entry still includes the reference of the table.
\<close>

theorem stale_release_unlinks_successor:
  assumes "ht_inv t" "ht_ref t e = 1" "ht_lookup t (ht_handle t e) = Some q" "q \<noteq> e"
  shows "case VMCIHashTable_ReleaseEntry t e of (r, t') \<Rightarrow> r = VMCI_SUCCESS_ENTRY_DEAD
    \<and> ht_lookup t' (ht_handle t e) = None \<and> \<not> linked t' q \<and> ht_ref t' q = ht_ref t q"
  using VMCIHashTable_ReleaseEntry_last [OF assms(1,2)] assms(3,4) ht_lookup_Some_D(1) [OF assms(3)]
  by (auto simp: linked_def)

definition stale_table :: "unit htable" where
  "stale_table = \<lparr>ht_entries = [[9]], ht_size = 1,
     ht_mem = (\<lambda>p. \<lparr>he_handle = VMCI_MAKE_HANDLE 2 5, he_refCount = 1\<rparr>)\<rparr>"

theorem stale_release_unlinks_successor_witness:
  "ht_lookup stale_table (VMCI_MAKE_HANDLE 2 5) = Some 9
   \<and> ht_lookup (snd (VMCIHashTable_ReleaseEntry stale_table 3)) (VMCI_MAKE_HANDLE 2 5) = None"
proof -
  have l: "ht_lookup stale_table (VMCI_MAKE_HANDLE 2 5) = Some 9"
    by (simp add: ht_lookup_def stale_table_def ht_idx_def VMCI_Hash_def ht_handle_def)
  have "ht_inv stale_table"
    by (simp add: ht_inv_def stale_table_def ht_handle_def ht_ref_def ht_idx_def VMCI_Hash_def)
  then show ?thesis
    using l stale_release_unlinks_successor [of stale_table 3 9]
    by (auto simp: ht_handle_def ht_ref_def stale_table_def)
qed

end
