(* ===== verification/HashChain.thy ===== *)
theory HashChain
  imports HashTable
begin

text \<open>
  \<open>vmci-only/common/vmciHashtable.c\<close> once more, on the \<open>next\<close> pointers the code
  follows.  A bucket is the head pointer of a chain in memory.  The loops of the code run
  until they meet the null pointer or the handle, so on a cyclic chain they may not end:
  they are partial functions whose value \<open>None\<close> means that the loop does not return.  The
  relation \<open>represents\<close> reads the buckets of theory \<open>HashTable\<close> out of the memory, and
  each operation is shown to return and to refine the operation on lists.
\<close>

record chain_entry =
  ce_handle :: VMCIHandle
  ce_refCount :: int
  ce_next :: "ptr option"

record chain_table =
  ct_entries :: "ptr option list"
  ct_size :: u32
  ct_mem :: "ptr \<Rightarrow> chain_entry"

section \<open>Operations\<close>

definition ct_set_ref :: "ptr \<Rightarrow> int \<Rightarrow> chain_table \<Rightarrow> chain_table" where
  "ct_set_ref p n c = c\<lparr>ct_mem := (ct_mem c)(p := (ct_mem c p)\<lparr>ce_refCount := n\<rparr>)\<rparr>"

definition ct_set_next :: "ptr \<Rightarrow> ptr option \<Rightarrow> chain_table \<Rightarrow> chain_table" where
  "ct_set_next p n c = c\<lparr>ct_mem := (ct_mem c)(p := (ct_mem c p)\<lparr>ce_next := n\<rparr>)\<rparr>"

partial_function (option) chain_find ::
  "(ptr \<Rightarrow> chain_entry) \<Rightarrow> VMCIHandle \<Rightarrow> ptr option \<Rightarrow> ptr option option" where
  "chain_find m h cur = (case cur of None \<Rightarrow> Some None
     | Some p \<Rightarrow> if VMCI_HANDLE_EQUAL (ce_handle (m p)) h then Some (Some p)
                 else chain_find m h (ce_next (m p)))"

definition chain_EntryExistsLocked :: "chain_table \<Rightarrow> VMCIHandle \<Rightarrow> bool option" where
  "chain_EntryExistsLocked c h =
     map_option (\<lambda>x. x \<noteq> None)
       (chain_find (ct_mem c) h (ct_entries c ! unat (VMCI_Hash h (ct_size c))))"

definition chain_AddEntry :: "chain_table \<Rightarrow> ptr \<Rightarrow> (int \<times> chain_table) option" where
  "chain_AddEntry c e =
     (case chain_EntryExistsLocked c (ce_handle (ct_mem c e)) of
        None \<Rightarrow> None
      | Some True \<Rightarrow> Some (VMCI_ERROR_DUPLICATE_ENTRY, c)
      | Some False \<Rightarrow>
          let idx = unat (VMCI_Hash (ce_handle (ct_mem c e)) (ct_size c));
              c1 = ct_set_ref e (ce_refCount (ct_mem c e) + 1) c;
              c2 = ct_set_next e (ct_entries c1 ! idx) c1
          in Some (VMCI_SUCCESS, c2\<lparr>ct_entries := (ct_entries c2)[idx := Some e]\<rparr>))"

definition chain_GetEntryLocked ::
  "chain_table \<Rightarrow> VMCIHandle \<Rightarrow> (ptr option \<times> chain_table) option" where
  "chain_GetEntryLocked c h =
     (case chain_find (ct_mem c) h (ct_entries c ! unat (VMCI_Hash h (ct_size c))) of
        None \<Rightarrow> None
      | Some None \<Rightarrow> Some (None, c)
      | Some (Some cur) \<Rightarrow> Some (Some cur, ct_set_ref cur (ce_refCount (ct_mem c cur) + 1) c))"

partial_function (option) unlink_loop ::
  "chain_table \<Rightarrow> nat \<Rightarrow> VMCIHandle \<Rightarrow> ptr option \<Rightarrow> ptr option \<Rightarrow> (int \<times> chain_table) option" where
  "unlink_loop c idx h prev cur = (case cur of None \<Rightarrow> Some (VMCI_ERROR_NOT_FOUND, c)
     | Some p \<Rightarrow>
         if VMCI_HANDLE_EQUAL (ce_handle (ct_mem c p)) h then
           let c1 = (case prev of
                       Some q \<Rightarrow> ct_set_next q (ce_next (ct_mem c p)) c
                     | None \<Rightarrow> c\<lparr>ct_entries := (ct_entries c)[idx := ce_next (ct_mem c p)]\<rparr>)
           in Some (VMCI_SUCCESS, ct_set_next p None c1)
         else unlink_loop c idx h cur (ce_next (ct_mem c p)))"

definition chain_UnlinkEntry :: "chain_table \<Rightarrow> ptr \<Rightarrow> (int \<times> chain_table) option" where
  "chain_UnlinkEntry c e =
     (let h = ce_handle (ct_mem c e); idx = unat (VMCI_Hash h (ct_size c))
      in unlink_loop c idx h None (ct_entries c ! idx))"

definition chain_RemoveEntry :: "chain_table \<Rightarrow> ptr \<Rightarrow> (int \<times> chain_table) option" where
  "chain_RemoveEntry c e =
     (case chain_UnlinkEntry c e of
        None \<Rightarrow> None
      | Some (result, c1) \<Rightarrow>
          if result \<noteq> VMCI_SUCCESS then Some (result, c1)
          else let c2 = ct_set_ref e (ce_refCount (ct_mem c1 e) - 1) c1
               in Some (if ce_refCount (ct_mem c2 e) = 0 then VMCI_SUCCESS_ENTRY_DEAD else result, c2))"

definition chain_ReleaseEntryLocked :: "chain_table \<Rightarrow> ptr \<Rightarrow> (int \<times> chain_table) option" where
  "chain_ReleaseEntryLocked c e =
     (let c1 = ct_set_ref e (ce_refCount (ct_mem c e) - 1) c
      in if ce_refCount (ct_mem c1 e) = 0
         then map_option (\<lambda>(_, c2). (VMCI_SUCCESS_ENTRY_DEAD, c2)) (chain_UnlinkEntry c1 e)
         else Some (VMCI_SUCCESS, c1))"

section \<open>The buckets a memory represents\<close>

fun chain :: "(ptr \<Rightarrow> chain_entry) \<Rightarrow> ptr option \<Rightarrow> ptr list \<Rightarrow> bool" where
  "chain m cur [] \<longleftrightarrow> cur = None"
| "chain m cur (p # ps) \<longleftrightarrow> cur = Some p \<and> chain m (ce_next (m p)) ps"

definition represents :: "chain_table \<Rightarrow> 'a htable \<Rightarrow> bool" where
  "represents c t \<longleftrightarrow> ct_size c = ht_size t \<and> length (ct_entries c) = length (ht_entries t)
     \<and> (\<forall>i < length (ht_entries t). chain (ct_mem c) (ct_entries c ! i) (ht_entries t ! i))
     \<and> (\<forall>p. ce_handle (ct_mem c p) = ht_handle t p) \<and> (\<forall>p. ce_refCount (ct_mem c p) = ht_ref t p)"

lemma chain_cong:
  "(\<And>p. p \<in> set ps \<Longrightarrow> ce_next (m' p) = ce_next (m p)) \<Longrightarrow> chain m' cur ps \<longleftrightarrow> chain m cur ps"
  by (induction ps arbitrary: cur) auto

lemma chain_find_eq:
  "chain m cur ps \<Longrightarrow> chain_find m h cur = Some (find (\<lambda>p. ce_handle (m p) = h) ps)"
  by (induction ps arbitrary: cur) (auto simp: chain_find.simps)

lemma represents_D:
  assumes "represents c t"
  shows "ct_size c = ht_size t" "length (ct_entries c) = length (ht_entries t)"
    "i < length (ht_entries t) \<Longrightarrow> chain (ct_mem c) (ct_entries c ! i) (ht_entries t ! i)"
    "ce_handle (ct_mem c p) = ht_handle t p" "ce_refCount (ct_mem c p) = ht_ref t p"
  using assms by (auto simp: represents_def)

lemma chain_find_lookup:
  assumes "represents c t" "ht_inv t"
  shows "chain_find (ct_mem c) h (ct_entries c ! unat (VMCI_Hash h (ct_size c)))
    = Some (ht_lookup t h)"
  using chain_find_eq [OF represents_D(3) [OF assms(1) ht_idx_less [OF assms(2), of h]], of h]
  by (simp add: represents_D(1,4) [OF assms(1)] ht_lookup_def ht_idx_def)

lemma represents_set_ref: "represents c t \<Longrightarrow> represents (ct_set_ref p n c) (ht_set_ref p n t)"
  by (auto simp: represents_def ct_set_ref_def intro: chain_cong [THEN iffD2, rotated])

lemma ct_set_ref_mem [simp]:
  "ce_handle (ct_mem (ct_set_ref p n c) q) = ce_handle (ct_mem c q)"
  "ce_next (ct_mem (ct_set_ref p n c) q) = ce_next (ct_mem c q)"
  "ce_refCount (ct_mem (ct_set_ref p n c) p) = n"
  "ct_size (ct_set_ref p n c) = ct_size c" "ct_entries (ct_set_ref p n c) = ct_entries c"
  by (simp_all add: ct_set_ref_def)

lemma ct_set_next_mem [simp]:
  "ce_handle (ct_mem (ct_set_next p n c) q) = ce_handle (ct_mem c q)"
  "ce_refCount (ct_mem (ct_set_next p n c) q) = ce_refCount (ct_mem c q)"
  "ce_next (ct_mem (ct_set_next p n c) q) = (if q = p then n else ce_next (ct_mem c q))"
  "ct_size (ct_set_next p n c) = ct_size c" "ct_entries (ct_set_next p n c) = ct_entries c"
  by (simp_all add: ct_set_next_def)


section \<open>Unlinking\<close>

lemma chain_tail: "chain m cur (us @ u # ps) \<Longrightarrow> chain m (ce_next (m u)) ps"
  by (induction us arbitrary: cur) auto

lemma chain_splice:
  assumes "chain m cur (us @ u # ps)" "\<And>q. q \<in> set us \<Longrightarrow> ce_next (m' q) = ce_next (m q)"
    and "chain m' (ce_next (m' u)) qs"
  shows "chain m' cur (us @ u # qs)"
  using assms by (induction us arbitrary: cur) auto

text \<open>What one run of the loop changes: the chain of its bucket, and nothing elsewhere.\<close>

definition relinked :: "chain_table \<Rightarrow> chain_table \<Rightarrow> nat \<Rightarrow> ptr list \<Rightarrow> ptr list \<Rightarrow> bool" where
  "relinked c c' idx ws ws' \<longleftrightarrow> chain (ct_mem c') (ct_entries c' ! idx) ws'
     \<and> ct_size c' = ct_size c \<and> length (ct_entries c') = length (ct_entries c)
     \<and> (\<forall>i. i \<noteq> idx \<longrightarrow> ct_entries c' ! i = ct_entries c ! i)
     \<and> (\<forall>q. q \<notin> set ws \<longrightarrow> ce_next (ct_mem c' q) = ce_next (ct_mem c q))
     \<and> (\<forall>q. ce_handle (ct_mem c' q) = ce_handle (ct_mem c q))
     \<and> (\<forall>q. ce_refCount (ct_mem c' q) = ce_refCount (ct_mem c q))"

lemma unlink_found:
  assumes ch: "chain (ct_mem c) (ct_entries c ! idx) (us @ p # ps)"
    and d: "distinct (us @ p # ps)" and idx: "idx < length (ct_entries c)"
    and prev: "prev = (if us = [] then None else Some (last us))"
  defines "c1 \<equiv> (case prev of Some q \<Rightarrow> ct_set_next q (ce_next (ct_mem c p)) c
                | None \<Rightarrow> c\<lparr>ct_entries := (ct_entries c)[idx := ce_next (ct_mem c p)]\<rparr>)"
  shows "relinked c (ct_set_next p None c1) idx (us @ p # ps) (us @ ps)"
proof -
  have rest: "chain (ct_mem c) (ce_next (ct_mem c p)) ps" using ch by (rule chain_tail)
  show ?thesis
  proof (cases us rule: rev_cases)
    case Nil
    let ?c' = "ct_set_next p None (c\<lparr>ct_entries := (ct_entries c)[idx := ce_next (ct_mem c p)]\<rparr>)"
    have "chain (ct_mem ?c') (ce_next (ct_mem c p)) ps"
      using d Nil by (intro chain_cong [THEN iffD2, OF _ rest]) auto
    with Nil idx prev show ?thesis by (simp add: relinked_def c1_def)
  next
    case (snoc vs v)
    let ?c' = "ct_set_next p None (ct_set_next v (ce_next (ct_mem c p)) c)"
    have tl: "chain (ct_mem ?c') (ce_next (ct_mem ?c' v)) ps"
      using d snoc by (subst chain_cong [where m = "ct_mem c"]) (auto simp: rest)
    have whole: "chain (ct_mem c) (ct_entries c ! idx) (vs @ v # (p # ps))"
      using ch snoc by simp
    have "ce_next (ct_mem ?c' q) = ce_next (ct_mem c q)" if "q \<in> set vs" for q
      using d snoc that by auto
    from chain_splice [OF whole this tl] snoc prev
    show ?thesis
      by (simp add: relinked_def c1_def)
  qed
qed

lemma unlink_loop_correct:
  assumes "chain (ct_mem c) (ct_entries c ! idx) (us @ ps)" "chain (ct_mem c) cur ps"
    and "distinct (us @ ps)" "idx < length (ct_entries c)"
    and "prev = (if us = [] then None else Some (last us))"
  shows "case unlink_first (\<lambda>q. ce_handle (ct_mem c q) = h) ps of
      None \<Rightarrow> unlink_loop c idx h prev cur = Some (VMCI_ERROR_NOT_FOUND, c)
    | Some ps' \<Rightarrow> \<exists>c'. unlink_loop c idx h prev cur = Some (VMCI_SUCCESS, c')
                     \<and> relinked c c' idx (us @ ps) (us @ ps')"
  using assms
proof (induction ps arbitrary: us cur prev)
  case Nil
  then show ?case by (simp add: unlink_loop.simps)
next
  case (Cons p ps)
  show ?case
  proof (cases "ce_handle (ct_mem c p) = h")
    case True
    from Cons.prems(2) have "cur = Some p" by simp
    then have "unlink_loop c idx h prev cur = Some (VMCI_SUCCESS, ct_set_next p None
        (case prev of Some q \<Rightarrow> ct_set_next q (ce_next (ct_mem c p)) c
         | None \<Rightarrow> c\<lparr>ct_entries := (ct_entries c)[idx := ce_next (ct_mem c p)]\<rparr>))"
      using True by (simp add: unlink_loop.simps [of c idx h prev] Let_def)
    with True unlink_found [OF Cons.prems(1,3,4,5)] show ?thesis by auto
  next
    case False
    have "case unlink_first (\<lambda>q. ce_handle (ct_mem c q) = h) ps of
        None \<Rightarrow> unlink_loop c idx h cur (ce_next (ct_mem c p)) = Some (VMCI_ERROR_NOT_FOUND, c)
      | Some ps' \<Rightarrow> \<exists>c'. unlink_loop c idx h cur (ce_next (ct_mem c p)) = Some (VMCI_SUCCESS, c')
                       \<and> relinked c c' idx ((us @ [p]) @ ps) ((us @ [p]) @ ps')"
      using Cons.prems by (intro Cons.IH) auto
    with False Cons.prems(2) show ?thesis
      by (auto simp: unlink_loop.simps [of c idx h prev] split: option.splits)
  qed
qed

text \<open>
  Two buckets share no entry, since an entry is in the bucket of its handle only.  A release
  unlinks when the count of \<open>e\<close> has already been lowered to 0, so the lemmas ask for the
  invariant up to that count.
\<close>

lemma buckets_disjoint:
  "ht_inv (ht_set_ref e n t) \<Longrightarrow> i < length (ht_entries t) \<Longrightarrow> j < length (ht_entries t) \<Longrightarrow> i \<noteq> j \<Longrightarrow>
    set (ht_entries t ! i) \<inter> set (ht_entries t ! j) = {}"
  using ht_inv_bucket(2) [of "ht_set_ref e n t"] by auto

lemma relinked_represents:
  assumes r: "represents c t" and inv: "ht_inv (ht_set_ref e n t)" and i: "i < length (ht_entries t)"
    and re: "relinked c c' i (ht_entries t ! i) b"
  shows "represents c' (t\<lparr>ht_entries := (ht_entries t)[i := b]\<rparr>)"
proof -
  have "chain (ct_mem c') (ct_entries c' ! j) (ht_entries t ! j)"
    if j: "j < length (ht_entries t)" "j \<noteq> i" for j
  proof -
    have "set (ht_entries t ! j) \<inter> set (ht_entries t ! i) = {}"
      using buckets_disjoint [OF inv j(1) i j(2)] .
    then have "ce_next (ct_mem c' q) = ce_next (ct_mem c q)" if "q \<in> set (ht_entries t ! j)" for q
      using that re by (auto simp: relinked_def)
    then have "chain (ct_mem c') (ct_entries c ! j) (ht_entries t ! j)"
      using represents_D(3) [OF r j(1)] chain_cong by blast
    with re j(2) show ?thesis by (simp add: relinked_def)
  qed
  with re represents_D [OF r] i show ?thesis
    by (auto simp: represents_def relinked_def nth_list_update)
qed

section \<open>Refinement\<close>

text \<open>
  \<open>refines\<close>: the operation on pointers returns, with the result of the operation on lists,
  in a memory that represents its table.
\<close>

definition refines :: "('r \<times> chain_table) option \<Rightarrow> 'r \<times> 'a htable \<Rightarrow> bool" where
  "refines x y \<longleftrightarrow> (\<exists>c. x = Some (fst y, c) \<and> represents c (snd y))"

lemma unlink_refines:
  assumes r: "represents c t" and inv: "ht_inv (ht_set_ref e n t)"
  shows "refines (chain_UnlinkEntry c e) (HashTableUnlinkEntry t e)"
proof -
  let ?h = "ht_handle t e"
  let ?i = "ht_idx t ?h"
  have i: "?i < length (ht_entries t)" using ht_idx_less [OF inv, of ?h] by simp
  note rD = represents_D [OF r]
  have d: "distinct (ht_entries t ! ?i)"
    using ht_inv_bucket(1) [OF inv, of ?i] i by (simp add: distinct_map)
  note loop = unlink_loop_correct [of c ?i "[]" "ht_entries t ! ?i" "ct_entries c ! ?i" None ?h]
  show ?thesis
    using loop rD(3) [OF i] d i relinked_represents [OF r inv i]
    by (auto simp: refines_def chain_UnlinkEntry_def HashTableUnlinkEntry_def Let_def rD(1,2,4) r
        simp flip: ht_idx_def split: option.splits)
qed

lemma exists_refines:
  "represents c t \<Longrightarrow> ht_inv t \<Longrightarrow>
    chain_EntryExistsLocked c h = Some (VMCIHashTableEntryExistsLocked t h)"
  by (simp add: chain_EntryExistsLocked_def chain_find_lookup EntryExists_lookup)

lemma get_refines:
  "represents c t \<Longrightarrow> ht_inv t \<Longrightarrow>
    refines (chain_GetEntryLocked c h) (VMCIHashTableGetEntryLocked t h)"
  by (auto simp: refines_def chain_GetEntryLocked_def chain_find_lookup VMCIHashTableGetEntryLocked_eq
      represents_D(5) represents_set_ref split: option.split)

lemma release_refines:
  assumes "represents c t" "ht_inv t"
  shows "refines (chain_ReleaseEntryLocked c e) (VMCIHashTableReleaseEntryLocked t e)"
proof (cases "ht_ref t e = 1")
  case False
  with represents_D(5) [OF assms(1)] show ?thesis
    by (simp add: refines_def chain_ReleaseEntryLocked_def VMCIHashTableReleaseEntryLocked_def
        represents_set_ref [OF assms(1)])
next
  case True
  let ?c1 = "ct_set_ref e 0 c" and ?t1 = "ht_set_ref e 0 t"
  have "refines (chain_UnlinkEntry ?c1 e) (HashTableUnlinkEntry ?t1 e)"
    using assms represents_set_ref by (intro unlink_refines [where n = "ht_ref t e"]) simp_all
  with True represents_D(5) [OF assms(1)] show ?thesis
    by (auto simp: refines_def chain_ReleaseEntryLocked_def VMCIHashTableReleaseEntryLocked_def)
qed

lemma remove_refines:
  assumes "represents c t" "ht_inv t"
  shows "refines (chain_RemoveEntry c e) (VMCIHashTable_RemoveEntry t e)"
proof -
  obtain c1 where "chain_UnlinkEntry c e = Some (fst (HashTableUnlinkEntry t e), c1)"
    and c1: "represents c1 (snd (HashTableUnlinkEntry t e))"
    using unlink_refines [of c t e "ht_ref t e"] assms by (auto simp: refines_def)
  with represents_set_ref [OF c1] represents_D(5) [OF c1] show ?thesis
    by (auto simp: refines_def chain_RemoveEntry_def VMCIHashTable_RemoveEntry_def Let_def
        split: prod.split)
qed

lemma add_refines:
  assumes r: "represents c t" and inv: "ht_inv t" and free: "\<not> linked t e"
  shows "refines (chain_AddEntry c e) (VMCIHashTable_AddEntry t e)"
proof (cases "VMCIHashTableEntryExistsLocked t (ht_handle t e)")
  case True
  with r exists_refines [OF r inv, of "ht_handle t e"] show ?thesis
    by (simp add: refines_def chain_AddEntry_def VMCIHashTable_AddEntry_def represents_D(4) [OF r])
next
  case False
  let ?i = "ht_idx t (ht_handle t e)"
  let ?t1 = "ht_set_ref e (ht_ref t e + 1) t"
  let ?c1 = "ct_set_ref e (ht_ref t e + 1) c"
  let ?c2 = "(ct_set_next e (ct_entries c ! ?i) ?c1)\<lparr>ct_entries := (ct_entries c)[?i := Some e]\<rparr>"
  have i: "?i < length (ht_entries t)" using inv by (rule ht_idx_less)
  have r1: "represents ?c1 ?t1" using r by (rule represents_set_ref)
  have inv1: "ht_inv (ht_set_ref e (ht_ref t e) ?t1)" using inv by simp
  have fresh: "e \<notin> set (ht_entries t ! j)" if "j < length (ht_entries t)" for j
    using linkedI [OF inv that] free by blast
  have *: "chain (ct_mem ?c2) x (ht_entries t ! j) \<longleftrightarrow> chain (ct_mem c) x (ht_entries t ! j)"
    if "j < length (ht_entries t)" for j x
    using fresh [OF that] by (intro chain_cong) auto
  have "represents ?c2 (?t1\<lparr>ht_entries := (ht_entries t)[?i := e # ht_entries t ! ?i]\<rparr>)"
    using represents_D [OF r] represents_D [OF r1] i *
    by (simp add: represents_def nth_list_update)
  with False exists_refines [OF r inv, of "ht_handle t e"] represents_D [OF r] show ?thesis
    by (simp add: refines_def chain_AddEntry_def VMCIHashTable_AddEntry_def Let_def
        flip: ht_idx_def)
qed


section \<open>Properties\<close>

text \<open>
  C2: On a memory whose chains represent a table, every loop over the \<open>next\<close> pointers
  returns and every operation of \<open>vmciHashtable.c\<close> (add, get, remove, release) has the
  result of the operation on the list of the bucket, and leaves a memory that represents
  the resulting table.
\<close>

theorem hash_chain_refines:
  assumes "represents c t" "ht_inv t"
  shows "refines (chain_GetEntryLocked c h) (VMCIHashTableGetEntryLocked t h)
    \<and> refines (chain_RemoveEntry c e) (VMCIHashTable_RemoveEntry t e)
    \<and> refines (chain_ReleaseEntryLocked c e) (VMCIHashTableReleaseEntryLocked t e)
    \<and> (\<not> linked t e \<longrightarrow> refines (chain_AddEntry c e) (VMCIHashTable_AddEntry t e))"
  using assms get_refines remove_refines release_refines add_refines by blast

text \<open>A table with one bucket that holds two entries, as a chain and as a list.\<close>

definition demo_chain :: chain_table where
  "demo_chain = \<lparr>ct_entries = [Some 7], ct_size = 1,
     ct_mem = (\<lambda>p. if p = 7 then \<lparr>ce_handle = VMCI_MAKE_HANDLE 2 5, ce_refCount = 1, ce_next = Some 9\<rparr>
        else \<lparr>ce_handle = VMCI_MAKE_HANDLE 3 (if p = 9 then 6 else 8),
              ce_refCount = (if p = 9 then 2 else 0), ce_next = None\<rparr>)\<rparr>"

definition demo_table :: "unit htable" where
  "demo_table = \<lparr>ht_entries = [[7, 9]], ht_size = 1,
     ht_mem = (\<lambda>p. if p = 7 then \<lparr>he_handle = VMCI_MAKE_HANDLE 2 5, he_refCount = 1\<rparr>
        else \<lparr>he_handle = VMCI_MAKE_HANDLE 3 (if p = 9 then 6 else 8),
              he_refCount = (if p = 9 then 2 else 0)\<rparr>)\<rparr>"

lemma demo_represents: "represents demo_chain demo_table"
  by (simp add: represents_def demo_chain_def demo_table_def ht_handle_def ht_ref_def)

lemma demo_inv: "ht_inv demo_table"
  using VMCI_Hash_less [of 1]
  by (simp add: ht_inv_def demo_table_def ht_handle_def ht_ref_def ht_idx_def)

theorem hash_chain_refines_witness:
  "refines (chain_ReleaseEntryLocked demo_chain 7) (VMCIHashTableReleaseEntryLocked demo_table 7)
   \<and> refines (chain_AddEntry demo_chain 4) (VMCIHashTable_AddEntry demo_table 4)"
proof -
  have "\<not> linked demo_table 4"
    using demo_inv by (auto dest!: linked_ref simp: demo_table_def ht_ref_def)
  then show ?thesis
    using hash_chain_refines [OF demo_represents demo_inv] by blast
qed

end
