(* ===== verification/VmciContext.thy ===== *)
theory VmciContext
  imports HandleArray
begin

text \<open>
  \<open>vmci-only/common/vmciContext.c\<close>: a context is the kernel's record of one virtual
  machine (or of the host); it owns a bounded queue of datagrams and four handle arrays,
  and is reference counted.  The global list of contexts is a list of pointers into the
  memory of contexts; \<open>ctx_live\<close> are the contexts allocated and not yet freed.  The locks of
  the code make each function below atomic.

  \<open>VMCIContext_Release\<close> calls \<open>VMCIContextFreeContext\<close> when the count drops to 0.  That
  function tears down well-known mappings, queue pairs and groups, so it is defined in a
  later theory and is the parameter \<open>free\<close> here.  A failing allocation is a Boolean or
  \<open>None\<close> argument at its call.
\<close>

record DatagramQueueEntry =
  dq_dgSize :: u64
  dq_dg :: VMCIDatagram

record VMCIContext =
  cx_cid :: VMCIId
  cx_refCount :: u32
  cx_datagramQueue :: "DatagramQueueEntry list"
  cx_pendingDatagrams :: u32
  cx_userVersion :: int
  cx_datagramQueueSize :: u64
  cx_wellKnownArray :: VMCIHandleArray
  cx_groupArray :: VMCIHandleArray
  cx_queuePairArray :: VMCIHandleArray
  cx_notifierArray :: VMCIHandleArray
  cx_wakeUps :: nat \<comment> \<open>\<open>hostContext\<close>: the \<open>wake_up\<close> calls on its wait queue\<close>
  cx_privFlags :: VMCIPrivilegeFlags
  cx_notify :: "bool option" \<comment> \<open>the flag in the page of the VMX, when one is mapped\<close>

record ctx_state =
  ctx_list :: "ptr list"
  ctx_mem :: "ptr \<Rightarrow> VMCIContext"
  ctx_live :: "ptr set"

abbreviation (input) VMCI_NOTIFICATION_CPT_STATE :: u32 where "VMCI_NOTIFICATION_CPT_STATE \<equiv> 1"
abbreviation (input) VMCI_WELLKNOWN_CPT_STATE :: u32 where "VMCI_WELLKNOWN_CPT_STATE \<equiv> 2"
abbreviation (input) VMCI_VERSION_HOSTQP :: int where "VMCI_VERSION_HOSTQP \<equiv> 589824"

section \<open>Operations\<close>

definition upd_ctx :: "ptr \<Rightarrow> (VMCIContext \<Rightarrow> VMCIContext) \<Rightarrow> 'a ctx_state_scheme \<Rightarrow> 'a ctx_state_scheme" where
  "upd_ctx p f s = s\<lparr>ctx_mem := (ctx_mem s)(p := f (ctx_mem s p))\<rparr>"

definition VMCIContextSignalNotify :: "VMCIContext \<Rightarrow> VMCIContext" where
  "VMCIContextSignalNotify c = (case cx_notify c of None \<Rightarrow> c | Some _ \<Rightarrow> c\<lparr>cx_notify := Some True\<rparr>)"

definition VMCIContextClearNotify :: "VMCIContext \<Rightarrow> VMCIContext" where
  "VMCIContextClearNotify c = (case cx_notify c of None \<Rightarrow> c | Some _ \<Rightarrow> c\<lparr>cx_notify := Some False\<rparr>)"

definition VMCIHost_SignalCall :: "VMCIContext \<Rightarrow> VMCIContext" where
  "VMCIHost_SignalCall c = c\<lparr>cx_wakeUps := Suc (cx_wakeUps c)\<rparr>"

definition VMCIHost_ClearCall :: "VMCIContext \<Rightarrow> VMCIContext" where
  "VMCIHost_ClearCall c = c"

definition VMCIContext_CheckAndSignalNotify :: "VMCIContext \<Rightarrow> VMCIContext" where
  "VMCIContext_CheckAndSignalNotify c =
     (if cx_pendingDatagrams c \<noteq> 0 then VMCIContextSignalNotify c else c)"

definition VMCIContext_Init :: "'a ctx_state_scheme \<Rightarrow> int \<times> 'a ctx_state_scheme" where
  "VMCIContext_Init s = (VMCI_SUCCESS, s\<lparr>ctx_list := []\<rparr>)"

definition ctx_lookup :: "'a ctx_state_scheme \<Rightarrow> VMCIId \<Rightarrow> ptr option" where
  "ctx_lookup s cid = find (\<lambda>p. cx_cid (ctx_mem s p) = cid) (ctx_list s)"

definition VMCIContextExists :: "'a ctx_state_scheme \<Rightarrow> VMCIId \<Rightarrow> bool" where
  "VMCIContextExists s cid = (ctx_lookup s cid \<noteq> None)"

definition VMCIContext_Exists :: "'a ctx_state_scheme \<Rightarrow> VMCIId \<Rightarrow> bool" where
  "VMCIContext_Exists s cid = VMCIContextExists s cid"

text \<open>The search for a free context id; \<open>None\<close> if the loop does not end.\<close>

definition next_cid :: "VMCIId \<Rightarrow> VMCIId" where
  "next_cid cid = (let c = max cid (VMCI_RESERVED_CID_LIMIT - 1) + 1
                   in if c = VMCI_INVALID_ID then VMCI_RESERVED_CID_LIMIT else c)"

partial_function (option) pick_cid :: "(VMCIId \<Rightarrow> bool) \<Rightarrow> VMCIId \<Rightarrow> VMCIId option" where
  "pick_cid used cid = (if used cid then pick_cid used (next_cid cid) else Some cid)"

text \<open>
  \<open>ctx\<close>: the address the allocator returns for the context, \<open>wk gr qp nt\<close> whether the
  allocations of the four arrays succeed.  The arrays of a context whose creation fails are
  freed with it.
\<close>

definition new_context :: "VMCIId \<Rightarrow> VMCIPrivilegeFlags \<Rightarrow> int \<Rightarrow> VMCIHandleArray \<Rightarrow> VMCIHandleArray
    \<Rightarrow> VMCIHandleArray \<Rightarrow> VMCIHandleArray \<Rightarrow> VMCIContext" where
  "new_context cid privFlags userVersion wka gra qpa nta =
     \<lparr>cx_cid = cid, cx_refCount = 1, cx_datagramQueue = [], cx_pendingDatagrams = 0,
      cx_userVersion = userVersion, cx_datagramQueueSize = 0, cx_wellKnownArray = wka,
      cx_groupArray = gra, cx_queuePairArray = qpa, cx_notifierArray = nta, cx_wakeUps = 0,
      cx_privFlags = privFlags, cx_notify = None\<rparr>"

definition VMCIContext_InitContext ::
  "ptr option \<Rightarrow> bool \<Rightarrow> bool \<Rightarrow> bool \<Rightarrow> bool \<Rightarrow> VMCIId \<Rightarrow> VMCIPrivilegeFlags \<Rightarrow> int
    \<Rightarrow> 'a ctx_state_scheme \<Rightarrow> (int \<times> ptr option \<times> 'a ctx_state_scheme) option" where
  "VMCIContext_InitContext ctx wk gr qp nt cid privFlags userVersion s =
     (if privFlags AND NOT VMCI_PRIVILEGE_ALL_FLAGS \<noteq> 0 then Some (VMCI_ERROR_INVALID_ARGS, None, s)
      else if userVersion = 0 then Some (VMCI_ERROR_INVALID_ARGS, None, s)
      else case ctx of None \<Rightarrow> Some (VMCI_ERROR_NO_MEM, None, s)
      | Some p \<Rightarrow>
        (case VMCIHandleArray_Create wk 0 of None \<Rightarrow> Some (VMCI_ERROR_NO_MEM, None, s)
         | Some wka \<Rightarrow> (case VMCIHandleArray_Create gr 0 of None \<Rightarrow> Some (VMCI_ERROR_NO_MEM, None, s)
         | Some gra \<Rightarrow> (case VMCIHandleArray_Create qp 0 of None \<Rightarrow> Some (VMCI_ERROR_NO_MEM, None, s)
         | Some qpa \<Rightarrow> (case VMCIHandleArray_Create nt 0 of None \<Rightarrow> Some (VMCI_ERROR_NO_MEM, None, s)
         | Some nta \<Rightarrow>
             (case pick_cid (VMCIContextExists s) cid of None \<Rightarrow> None
              | Some cid' \<Rightarrow>
                  let c = new_context cid' privFlags userVersion wka gra qpa nta
                  in Some (VMCI_SUCCESS, Some p,
                           s\<lparr>ctx_mem := (ctx_mem s)(p := c), ctx_list := ctx_list s @ [p],
                             ctx_live := insert p (ctx_live s)\<rparr>)))))))"

definition VMCIContext_Get :: "VMCIId \<Rightarrow> 'a ctx_state_scheme \<Rightarrow> ptr option \<times> 'a ctx_state_scheme" where
  "VMCIContext_Get cid s =
     (case find (\<lambda>p. cx_cid (ctx_mem s p) = cid) (ctx_list s) of
        None \<Rightarrow> (None, s)
      | Some p \<Rightarrow> (Some p, upd_ctx p (\<lambda>c. c\<lparr>cx_refCount := cx_refCount c + 1\<rparr>) s))"

definition VMCIContext_Release ::
  "(ptr \<Rightarrow> 'a ctx_state_scheme \<Rightarrow> 'a ctx_state_scheme) \<Rightarrow> ptr \<Rightarrow> 'a ctx_state_scheme
    \<Rightarrow> 'a ctx_state_scheme" where
  "VMCIContext_Release free p s =
     (let refCount = cx_refCount (ctx_mem s p);
          s1 = upd_ctx p (\<lambda>c. c\<lparr>cx_refCount := refCount - 1\<rparr>) s
      in if refCount = 1 then free p s1 else s1)"

definition VMCIContext_ReleaseContext ::
  "(ptr \<Rightarrow> 'a ctx_state_scheme \<Rightarrow> 'a ctx_state_scheme) \<Rightarrow> ptr \<Rightarrow> 'a ctx_state_scheme
    \<Rightarrow> 'a ctx_state_scheme" where
  "VMCIContext_ReleaseContext free p s =
     VMCIContext_Release free p (s\<lparr>ctx_list := remove1 p (ctx_list s)\<rparr>)"

definition VMCIContext_PendingDatagrams ::
  "(ptr \<Rightarrow> 'a ctx_state_scheme \<Rightarrow> 'a ctx_state_scheme) \<Rightarrow> VMCIId \<Rightarrow> 'a ctx_state_scheme
    \<Rightarrow> int \<times> u32 option \<times> 'a ctx_state_scheme" where
  "VMCIContext_PendingDatagrams free cid s =
     (case VMCIContext_Get cid s of
        (None, s1) \<Rightarrow> (VMCI_ERROR_INVALID_ARGS, None, s1)
      | (Some p, s1) \<Rightarrow> (VMCI_SUCCESS, Some (cx_pendingDatagrams (ctx_mem s1 p)),
                         VMCIContext_Release free p s1))"

text \<open>The part of \<open>VMCIContext_EnqueueDatagram\<close> that runs under the lock of the context.\<close>

definition enqueue_locked :: "VMCIDatagram \<Rightarrow> VMCIContext \<Rightarrow> int \<times> VMCIContext" where
  "enqueue_locked dg c =
     (let vmciDgSize = VMCI_DG_SIZE dg
      in if VMCI_MAX_DATAGRAM_QUEUE_SIZE \<le> cx_datagramQueueSize c + vmciDgSize
            \<and> (\<not> VMCI_HANDLE_EQUAL (dg_src dg)
                    (VMCI_MAKE_HANDLE VMCI_HYPERVISOR_CONTEXT_ID VMCI_CONTEXT_RESOURCE_ID)
               \<or> VMCI_MAX_DATAGRAM_AND_EVENT_QUEUE_SIZE \<le> cx_datagramQueueSize c + vmciDgSize)
         then (VMCI_ERROR_NO_RESOURCES, c)
         else (sint (ucast vmciDgSize :: u32),
               VMCIHost_SignalCall (VMCIContextSignalNotify
                 (c\<lparr>cx_datagramQueue := cx_datagramQueue c @ [\<lparr>dq_dgSize = vmciDgSize, dq_dg = dg\<rparr>],
                    cx_pendingDatagrams := cx_pendingDatagrams c + 1,
                    cx_datagramQueueSize := cx_datagramQueueSize c + vmciDgSize\<rparr>))))"

definition VMCIContext_EnqueueDatagram ::
  "(ptr \<Rightarrow> 'a ctx_state_scheme \<Rightarrow> 'a ctx_state_scheme) \<Rightarrow> bool \<Rightarrow> VMCIId \<Rightarrow> VMCIDatagram
    \<Rightarrow> 'a ctx_state_scheme \<Rightarrow> int \<times> 'a ctx_state_scheme" where
  "VMCIContext_EnqueueDatagram free avail cid dg s =
     (case VMCIContext_Get cid s of
        (None, s1) \<Rightarrow> (VMCI_ERROR_INVALID_ARGS, s1)
      | (Some p, s1) \<Rightarrow>
          if \<not> avail then (VMCI_ERROR_NO_MEM, VMCIContext_Release free p s1)
          else (fst (enqueue_locked dg (ctx_mem s1 p)),
                VMCIContext_Release free p (upd_ctx p (\<lambda>c. snd (enqueue_locked dg c)) s1)))"

definition VMCIContext_DequeueDatagram ::
  "u64 \<Rightarrow> VMCIContext \<Rightarrow> int \<times> u64 \<times> VMCIDatagram option \<times> VMCIContext" where
  "VMCIContext_DequeueDatagram maxSize c =
     (if cx_pendingDatagrams c = 0 then
        (VMCI_ERROR_NO_MORE_DATAGRAMS, maxSize, None, VMCIContextClearNotify (VMCIHost_ClearCall c))
      else let dqEntry = hd (cx_datagramQueue c)
      in if maxSize < dq_dgSize dqEntry then (VMCI_ERROR_NO_MEM, dq_dgSize dqEntry, None, c)
      else let c1 = c\<lparr>cx_datagramQueue := tl (cx_datagramQueue c),
                      cx_pendingDatagrams := cx_pendingDatagrams c - 1,
                      cx_datagramQueueSize := cx_datagramQueueSize c - dq_dgSize dqEntry\<rparr>
      in if cx_pendingDatagrams c1 = 0
         then (VMCI_SUCCESS, maxSize, Some (dq_dg dqEntry), VMCIContextClearNotify (VMCIHost_ClearCall c1))
         else (sint (ucast (dq_dgSize (hd (cx_datagramQueue c1))) :: u32), maxSize,
               Some (dq_dg dqEntry), c1))"

definition VMCIContext_GetId :: "'a ctx_state_scheme \<Rightarrow> ptr option \<Rightarrow> VMCIId" where
  "VMCIContext_GetId s cp = (case cp of None \<Rightarrow> VMCI_INVALID_ID | Some p \<Rightarrow> cx_cid (ctx_mem s p))"

definition VMCIContext_GetPrivFlagsInt ::
  "(ptr \<Rightarrow> 'a ctx_state_scheme \<Rightarrow> 'a ctx_state_scheme) \<Rightarrow> VMCIId \<Rightarrow> 'a ctx_state_scheme
    \<Rightarrow> VMCIPrivilegeFlags \<times> 'a ctx_state_scheme" where
  "VMCIContext_GetPrivFlagsInt free contextID s =
     (case VMCIContext_Get contextID s of
        (None, s1) \<Rightarrow> (VMCI_LEAST_PRIVILEGE_FLAGS, s1)
      | (Some p, s1) \<Rightarrow> (cx_privFlags (ctx_mem s1 p), VMCIContext_Release free p s1))"

definition VMCIContext_GetPrivFlags ::
  "(ptr \<Rightarrow> 'a ctx_state_scheme \<Rightarrow> 'a ctx_state_scheme) \<Rightarrow> VMCIId \<Rightarrow> 'a ctx_state_scheme
    \<Rightarrow> VMCIPrivilegeFlags \<times> 'a ctx_state_scheme" where
  "VMCIContext_GetPrivFlags free contextID s = VMCIContext_GetPrivFlagsInt free contextID s"

definition VMCIContext_AddGroupEntry ::
  "bool \<Rightarrow> ptr option \<Rightarrow> VMCIHandle \<Rightarrow> 'a ctx_state_scheme \<Rightarrow> int \<times> 'a ctx_state_scheme" where
  "VMCIContext_AddGroupEntry avail cp entryHandle s =
     (case cp of None \<Rightarrow> (VMCI_ERROR_INVALID_ARGS, s)
      | Some p \<Rightarrow> (VMCI_SUCCESS, upd_ctx p (\<lambda>c. c\<lparr>cx_groupArray :=
                    VMCIHandleArray_AppendEntry avail (cx_groupArray c) entryHandle\<rparr>) s))"

definition VMCIContext_RemoveGroupEntry ::
  "ptr option \<Rightarrow> VMCIHandle \<Rightarrow> 'a ctx_state_scheme \<Rightarrow> VMCIHandle \<times> 'a ctx_state_scheme" where
  "VMCIContext_RemoveGroupEntry cp entryHandle s =
     (case cp of None \<Rightarrow> (VMCI_INVALID_HANDLE, s)
      | Some p \<Rightarrow> (fst (VMCIHandleArray_RemoveEntry (cx_groupArray (ctx_mem s p)) entryHandle),
                   upd_ctx p (\<lambda>c. c\<lparr>cx_groupArray :=
                     snd (VMCIHandleArray_RemoveEntry (cx_groupArray c) entryHandle)\<rparr>) s))"

definition VMCIContext_AddWellKnown ::
  "(ptr \<Rightarrow> 'a ctx_state_scheme \<Rightarrow> 'a ctx_state_scheme) \<Rightarrow> bool \<Rightarrow> VMCIId \<Rightarrow> VMCIId
    \<Rightarrow> 'a ctx_state_scheme \<Rightarrow> int \<times> 'a ctx_state_scheme" where
  "VMCIContext_AddWellKnown free avail contextID wellKnownID s =
     (case VMCIContext_Get contextID s of
        (None, s1) \<Rightarrow> (VMCI_ERROR_NOT_FOUND, s1)
      | (Some p, s1) \<Rightarrow>
          let wkHandle = VMCI_MAKE_HANDLE VMCI_WELL_KNOWN_CONTEXT_ID wellKnownID;
              s2 = upd_ctx p (\<lambda>c. c\<lparr>cx_wellKnownArray :=
                     VMCIHandleArray_AppendEntry avail (cx_wellKnownArray c) wkHandle\<rparr>) s1
          in (VMCI_SUCCESS, VMCIContext_Release free p s2))"

definition VMCIContext_RemoveWellKnown ::
  "(ptr \<Rightarrow> 'a ctx_state_scheme \<Rightarrow> 'a ctx_state_scheme) \<Rightarrow> VMCIId \<Rightarrow> VMCIId
    \<Rightarrow> 'a ctx_state_scheme \<Rightarrow> int \<times> 'a ctx_state_scheme" where
  "VMCIContext_RemoveWellKnown free contextID wellKnownID s =
     (case VMCIContext_Get contextID s of
        (None, s1) \<Rightarrow> (VMCI_ERROR_NOT_FOUND, s1)
      | (Some p, s1) \<Rightarrow>
          let wkHandle = VMCI_MAKE_HANDLE VMCI_WELL_KNOWN_CONTEXT_ID wellKnownID;
              tmpHandle = fst (VMCIHandleArray_RemoveEntry (cx_wellKnownArray (ctx_mem s1 p)) wkHandle);
              s2 = VMCIContext_Release free p (upd_ctx p (\<lambda>c. c\<lparr>cx_wellKnownArray :=
                     snd (VMCIHandleArray_RemoveEntry (cx_wellKnownArray c) wkHandle)\<rparr>) s1)
          in (if VMCI_HANDLE_EQUAL tmpHandle VMCI_INVALID_HANDLE then VMCI_ERROR_NOT_FOUND
              else VMCI_SUCCESS, s2))"

definition VMCIContext_AddNotification ::
  "(ptr \<Rightarrow> 'a ctx_state_scheme \<Rightarrow> 'a ctx_state_scheme) \<Rightarrow> bool \<Rightarrow> VMCIId \<Rightarrow> VMCIId
    \<Rightarrow> 'a ctx_state_scheme \<Rightarrow> int \<times> 'a ctx_state_scheme" where
  "VMCIContext_AddNotification free avail contextID remoteCID s =
     (case VMCIContext_Get contextID s of
        (None, s1) \<Rightarrow> (VMCI_ERROR_NOT_FOUND, s1)
      | (Some p, s1) \<Rightarrow>
          let c = ctx_mem s1 p;
              notifierHandle = VMCI_MAKE_HANDLE remoteCID VMCI_EVENT_HANDLER
          in if cx_privFlags c AND VMCI_PRIVILEGE_FLAG_RESTRICTED \<noteq> 0
             then (VMCI_ERROR_NO_ACCESS, VMCIContext_Release free p s1)
             else if \<not> VMCIHandleArray_HasEntry (cx_notifierArray c) notifierHandle
             then (VMCI_SUCCESS, VMCIContext_Release free p (upd_ctx p (\<lambda>c. c\<lparr>cx_notifierArray :=
                     VMCIHandleArray_AppendEntry avail (cx_notifierArray c) notifierHandle\<rparr>) s1))
             else (VMCI_ERROR_ALREADY_EXISTS, VMCIContext_Release free p s1))"

definition VMCIContext_RemoveNotification ::
  "(ptr \<Rightarrow> 'a ctx_state_scheme \<Rightarrow> 'a ctx_state_scheme) \<Rightarrow> VMCIId \<Rightarrow> VMCIId
    \<Rightarrow> 'a ctx_state_scheme \<Rightarrow> int \<times> 'a ctx_state_scheme" where
  "VMCIContext_RemoveNotification free contextID remoteCID s =
     (case VMCIContext_Get contextID s of
        (None, s1) \<Rightarrow> (VMCI_ERROR_NOT_FOUND, s1)
      | (Some p, s1) \<Rightarrow>
          let notifierHandle = VMCI_MAKE_HANDLE remoteCID VMCI_EVENT_HANDLER;
              tmpHandle = fst (VMCIHandleArray_RemoveEntry (cx_notifierArray (ctx_mem s1 p)) notifierHandle);
              s2 = VMCIContext_Release free p (upd_ctx p (\<lambda>c. c\<lparr>cx_notifierArray :=
                     snd (VMCIHandleArray_RemoveEntry (cx_notifierArray c) notifierHandle)\<rparr>) s1)
          in (if VMCI_HANDLE_EQUAL tmpHandle VMCI_INVALID_HANDLE then VMCI_ERROR_NOT_FOUND
              else VMCI_SUCCESS, s2))"

text \<open>The result, the new \<open>bufSize\<close>, and the buffer with the ids (\<open>None\<close>: not written).\<close>

definition VMCIContext_GetCheckpointState ::
  "(ptr \<Rightarrow> 'a ctx_state_scheme \<Rightarrow> 'a ctx_state_scheme) \<Rightarrow> bool \<Rightarrow> VMCIId \<Rightarrow> u32 \<Rightarrow> u32
    \<Rightarrow> 'a ctx_state_scheme \<Rightarrow> int \<times> u32 \<times> VMCIId list option \<times> 'a ctx_state_scheme" where
  "VMCIContext_GetCheckpointState free avail contextID cptType bufSize s =
     (case VMCIContext_Get contextID s of
        (None, s1) \<Rightarrow> (VMCI_ERROR_NOT_FOUND, bufSize, None, s1)
      | (Some p, s1) \<Rightarrow>
          let s2 = VMCIContext_Release free p s1;
              c = ctx_mem s1 p
          in case (if cptType = VMCI_NOTIFICATION_CPT_STATE then Some (cx_notifierArray c, True)
                   else if cptType = VMCI_WELLKNOWN_CPT_STATE then Some (cx_wellKnownArray c, False)
                   else None) of
               None \<Rightarrow> (VMCI_ERROR_INVALID_ARGS, bufSize, None, s2)
             | Some (array, getContextID) \<Rightarrow>
                 let arraySize = VMCIHandleArray_GetSize array
                 in if 0 < arraySize then
                      let cptDataSize = arraySize * 4
                      in if bufSize < cptDataSize then (VMCI_ERROR_MORE_DATA, cptDataSize, None, s2)
                         else if \<not> VMCI_AllocKernelMem avail (unat cptDataSize)
                         then (VMCI_ERROR_NO_MEM, bufSize, None, s2)
                         else (VMCI_SUCCESS, cptDataSize,
                               Some (map (\<lambda>i. let tmpHandle = VMCIHandleArray_GetEntry array (of_nat i)
                                              in if getContextID then hcontext tmpHandle
                                                 else hresource tmpHandle)
                                      [0 ..< unat arraySize]), s2)
                    else (VMCI_SUCCESS, 0, Some [], s2))"

definition VMCIContext_SupportsHostQP :: "'a ctx_state_scheme \<Rightarrow> ptr option \<Rightarrow> bool" where
  "VMCIContext_SupportsHostQP s cp =
     (case cp of None \<Rightarrow> False
      | Some p \<Rightarrow> \<not> cx_userVersion (ctx_mem s p) < VMCI_VERSION_HOSTQP)"


section \<open>Invariants\<close>

text \<open>The datagram queue of a context: its two counters describe the list.\<close>

definition dq_inv :: "VMCIContext \<Rightarrow> bool" where
  [inv_defs]: "dq_inv c \<longleftrightarrow>
     (\<forall>e \<in> set (cx_datagramQueue c). dq_dgSize e = VMCI_DG_SIZE (dq_dg e)
        \<and> 24 \<le> unat (dq_dgSize e) \<and> unat (dq_dgSize e) \<le> 69632)
     \<and> unat (cx_datagramQueueSize c) = sum_list (map (unat \<circ> dq_dgSize) (cx_datagramQueue c))
     \<and> unat (cx_datagramQueueSize c) < 188416
     \<and> unat (cx_pendingDatagrams c) = length (cx_datagramQueue c)"

definition cx_inv :: "VMCIContext \<Rightarrow> bool" where
  [inv_defs]: "cx_inv c \<longleftrightarrow> cx_cid c \<noteq> VMCI_INVALID_ID \<and> dq_inv c
     \<and> harr_inv (cx_wellKnownArray c) \<and> harr_inv (cx_groupArray c)
     \<and> harr_inv (cx_queuePairArray c) \<and> harr_inv (cx_notifierArray c)"

text \<open>
  Contexts on the list have different ids and are referenced; every context that has not
  been freed is well formed.  A context that is being destroyed is off the list, with count 0.
\<close>

definition ctx_inv :: "'a ctx_state_scheme \<Rightarrow> bool" where
  [inv_defs]: "ctx_inv s \<longleftrightarrow> distinct (map (\<lambda>p. cx_cid (ctx_mem s p)) (ctx_list s))
     \<and> set (ctx_list s) \<subseteq> ctx_live s
     \<and> (\<forall>p \<in> set (ctx_list s). cx_refCount (ctx_mem s p) \<noteq> 0)
     \<and> (\<forall>p \<in> ctx_live s. cx_inv (ctx_mem s p))"

lemma upd_ctx_simps [simp]:
  "ctx_list (upd_ctx p f s) = ctx_list s" "ctx_live (upd_ctx p f s) = ctx_live s"
  "ctx_mem (upd_ctx p f s) = (ctx_mem s)(p := f (ctx_mem s p))"
  "ctx_state.more (upd_ctx p f s) = ctx_state.more s"
  by (simp_all add: upd_ctx_def)

lemma upd_ctx_upd_ctx: "upd_ctx p g (upd_ctx p f s) = upd_ctx p (\<lambda>c. g (f c)) s"
  by (simp add: upd_ctx_def)

lemma upd_ctx_id: "f (ctx_mem s p) = ctx_mem s p \<Longrightarrow> upd_ctx p f s = s"
  by (simp add: upd_ctx_def)

lemma upd_ctx_cong: "f (ctx_mem s p) = g (ctx_mem s p) \<Longrightarrow> upd_ctx p f s = upd_ctx p g s"
  by (simp add: upd_ctx_def)

lemma ctx_lookup_D:
  "ctx_lookup s cid = Some p \<Longrightarrow> p \<in> set (ctx_list s) \<and> cx_cid (ctx_mem s p) = cid"
  by (auto simp: ctx_lookup_def dest: find_Some_D)

lemma ctx_lookup_live:
  assumes "ctx_inv s" "ctx_lookup s cid = Some p"
  shows "p \<in> ctx_live s" "cx_refCount (ctx_mem s p) \<noteq> 0" "cx_inv (ctx_mem s p)"
    "cx_cid (ctx_mem s p) = cid" "p \<in> set (ctx_list s)"
  using assms ctx_lookup_D [OF assms(2)] by (auto simp: ctx_inv_def)

lemma ctx_lookup_None: "ctx_lookup s cid = None \<longleftrightarrow> cid \<notin> (\<lambda>p. cx_cid (ctx_mem s p)) ` set (ctx_list s)"
  by (auto simp: ctx_lookup_def find_None_iff)

lemma ctx_lookup_listed:
  assumes "ctx_inv s" "p \<in> set (ctx_list s)"
  shows "ctx_lookup s (cx_cid (ctx_mem s p)) = Some p"
  unfolding ctx_lookup_def using assms
  by (intro find_unique) (auto simp: ctx_inv_def distinct_map dest: inj_onD)

lemma upd_ctx_lookup:
  assumes "\<And>c. cx_cid (f c) = cx_cid c"
  shows "ctx_lookup (upd_ctx p f s) = ctx_lookup s"
proof -
  have "(\<lambda>q. cx_cid (ctx_mem (upd_ctx p f s) q) = cid) = (\<lambda>q. cx_cid (ctx_mem s q) = cid)" for cid
    using assms by auto
  then show ?thesis by (simp add: ctx_lookup_def fun_eq_iff)
qed

lemma upd_ctx_inv [inv_intros]:
  assumes "ctx_inv s" "cx_cid (f (ctx_mem s p)) = cx_cid (ctx_mem s p)"
    and "p \<in> set (ctx_list s) \<Longrightarrow> cx_refCount (f (ctx_mem s p)) \<noteq> 0"
    and "p \<in> ctx_live s \<Longrightarrow> cx_inv (f (ctx_mem s p))"
  shows "ctx_inv (upd_ctx p f s)"
proof -
  have "map (\<lambda>q. cx_cid (ctx_mem (upd_ctx p f s) q)) (ctx_list s)
      = map (\<lambda>q. cx_cid (ctx_mem s q)) (ctx_list s)"
    using assms(2) by auto
  with assms(1,3,4) show ?thesis by (auto simp: ctx_inv_def simp del: map_eq_conv)
qed

section \<open>Taking and giving back a reference\<close>

text \<open>
  An operation that takes a reference, changes other fields, and gives the reference back
  changes just these fields: a context on the list is referenced, so the release never
  frees it, whatever \<open>free\<close> is.
\<close>

lemma VMCIContext_Get_eq:
  "VMCIContext_Get cid s = (case ctx_lookup s cid of None \<Rightarrow> (None, s)
     | Some p \<Rightarrow> (Some p, upd_ctx p (\<lambda>c. c\<lparr>cx_refCount := cx_refCount c + 1\<rparr>) s))"
  by (simp add: VMCIContext_Get_def ctx_lookup_def)

lemma release_after_get:
  assumes "cx_refCount (ctx_mem s p) \<noteq> 0"
    and "\<And>c n. g (c\<lparr>cx_refCount := n\<rparr>) = (g c)\<lparr>cx_refCount := n\<rparr>"
  shows "VMCIContext_Release free p
      (upd_ctx p g (upd_ctx p (\<lambda>c. c\<lparr>cx_refCount := cx_refCount c + 1\<rparr>) s)) = upd_ctx p g s"
proof -
  have n: "cx_refCount (ctx_mem s p) + 1 \<noteq> 1"
    using assms(1) by (simp add: word_add1_eq1_iff)
  have keep: "(g c)\<lparr>cx_refCount := cx_refCount c\<rparr> = g c" for c
    using assms(2) [where c = c and n = "cx_refCount c"] by simp
  show ?thesis
    using n by (simp add: VMCIContext_Release_def Let_def upd_ctx_upd_ctx assms(2))
      (simp add: upd_ctx_def keep)
qed

lemma release_after_get_id:
  assumes "cx_refCount (ctx_mem s p) \<noteq> 0"
  shows "VMCIContext_Release free p (upd_ctx p (\<lambda>c. c\<lparr>cx_refCount := cx_refCount c + 1\<rparr>) s) = s"
  using release_after_get [OF assms, of "\<lambda>c. c" free] by (simp add: upd_ctx_id)

text \<open>Each operation without the reference counting.\<close>

lemma VMCIContext_PendingDatagrams_eq:
  "ctx_inv s \<Longrightarrow> VMCIContext_PendingDatagrams free cid s =
    (case ctx_lookup s cid of None \<Rightarrow> (VMCI_ERROR_INVALID_ARGS, None, s)
     | Some p \<Rightarrow> (VMCI_SUCCESS, Some (cx_pendingDatagrams (ctx_mem s p)), s))"
  by (auto simp: VMCIContext_PendingDatagrams_def VMCIContext_Get_eq release_after_get_id
      ctx_lookup_live split: option.split)

lemma VMCIContext_GetPrivFlagsInt_eq:
  "ctx_inv s \<Longrightarrow> VMCIContext_GetPrivFlagsInt free cid s =
    (case ctx_lookup s cid of None \<Rightarrow> VMCI_LEAST_PRIVILEGE_FLAGS
     | Some p \<Rightarrow> cx_privFlags (ctx_mem s p), s)"
  by (auto simp: VMCIContext_GetPrivFlagsInt_def VMCIContext_Get_eq release_after_get_id
      ctx_lookup_live split: option.split)

lemma enqueue_locked_ref:
  "enqueue_locked dg (c\<lparr>cx_refCount := n\<rparr>)
     = (fst (enqueue_locked dg c), (snd (enqueue_locked dg c))\<lparr>cx_refCount := n\<rparr>)"
  by (cases "cx_notify c")
    (auto simp: enqueue_locked_def Let_def VMCIHost_SignalCall_def VMCIContextSignalNotify_def)

lemma VMCIContext_EnqueueDatagram_eq:
  "ctx_inv s \<Longrightarrow> VMCIContext_EnqueueDatagram free avail cid dg s =
    (case ctx_lookup s cid of None \<Rightarrow> (VMCI_ERROR_INVALID_ARGS, s)
     | Some p \<Rightarrow> if \<not> avail then (VMCI_ERROR_NO_MEM, s)
         else (fst (enqueue_locked dg (ctx_mem s p)), upd_ctx p (\<lambda>c. snd (enqueue_locked dg c)) s))"
  by (auto simp: VMCIContext_EnqueueDatagram_def VMCIContext_Get_eq release_after_get_id
      release_after_get enqueue_locked_ref ctx_lookup_live split: option.split)

lemma VMCIContext_AddWellKnown_eq:
  "ctx_inv s \<Longrightarrow> VMCIContext_AddWellKnown free avail cid wk s =
    (case ctx_lookup s cid of None \<Rightarrow> (VMCI_ERROR_NOT_FOUND, s)
     | Some p \<Rightarrow> (VMCI_SUCCESS, upd_ctx p (\<lambda>c. c\<lparr>cx_wellKnownArray :=
         VMCIHandleArray_AppendEntry avail (cx_wellKnownArray c)
           (VMCI_MAKE_HANDLE VMCI_WELL_KNOWN_CONTEXT_ID wk)\<rparr>) s))"
  by (auto simp: VMCIContext_AddWellKnown_def VMCIContext_Get_eq Let_def release_after_get
      ctx_lookup_live split: option.split)

lemma VMCIContext_RemoveWellKnown_eq:
  "ctx_inv s \<Longrightarrow> VMCIContext_RemoveWellKnown free cid wk s =
    (case ctx_lookup s cid of None \<Rightarrow> (VMCI_ERROR_NOT_FOUND, s)
     | Some p \<Rightarrow> let h = VMCI_MAKE_HANDLE VMCI_WELL_KNOWN_CONTEXT_ID wk
         in (if fst (VMCIHandleArray_RemoveEntry (cx_wellKnownArray (ctx_mem s p)) h) = VMCI_INVALID_HANDLE
             then VMCI_ERROR_NOT_FOUND else VMCI_SUCCESS,
             upd_ctx p (\<lambda>c. c\<lparr>cx_wellKnownArray :=
               snd (VMCIHandleArray_RemoveEntry (cx_wellKnownArray c) h)\<rparr>) s))"
  by (auto simp: VMCIContext_RemoveWellKnown_def VMCIContext_Get_eq Let_def release_after_get
      ctx_lookup_live split: option.split)

lemma VMCIContext_AddNotification_eq:
  "ctx_inv s \<Longrightarrow> VMCIContext_AddNotification free avail cid remote s =
    (case ctx_lookup s cid of None \<Rightarrow> (VMCI_ERROR_NOT_FOUND, s)
     | Some p \<Rightarrow> let h = VMCI_MAKE_HANDLE remote VMCI_EVENT_HANDLER
         in if restricted (cx_privFlags (ctx_mem s p)) then (VMCI_ERROR_NO_ACCESS, s)
            else if VMCIHandleArray_HasEntry (cx_notifierArray (ctx_mem s p)) h
            then (VMCI_ERROR_ALREADY_EXISTS, s)
            else (VMCI_SUCCESS, upd_ctx p (\<lambda>c. c\<lparr>cx_notifierArray :=
                    VMCIHandleArray_AppendEntry avail (cx_notifierArray c) h\<rparr>) s))"
  by (auto simp: VMCIContext_AddNotification_def VMCIContext_Get_eq Let_def release_after_get
      release_after_get_id restricted_def ctx_lookup_live split: option.split)

lemma VMCIContext_RemoveNotification_eq:
  "ctx_inv s \<Longrightarrow> VMCIContext_RemoveNotification free cid remote s =
    (case ctx_lookup s cid of None \<Rightarrow> (VMCI_ERROR_NOT_FOUND, s)
     | Some p \<Rightarrow> let h = VMCI_MAKE_HANDLE remote VMCI_EVENT_HANDLER
         in (if fst (VMCIHandleArray_RemoveEntry (cx_notifierArray (ctx_mem s p)) h) = VMCI_INVALID_HANDLE
             then VMCI_ERROR_NOT_FOUND else VMCI_SUCCESS,
             upd_ctx p (\<lambda>c. c\<lparr>cx_notifierArray :=
               snd (VMCIHandleArray_RemoveEntry (cx_notifierArray c) h)\<rparr>) s))"
  by (auto simp: VMCIContext_RemoveNotification_def VMCIContext_Get_eq Let_def release_after_get
      ctx_lookup_live split: option.split)


section \<open>The datagram queue\<close>

text \<open>
  The contract of a queue of datagrams: an accepted datagram goes to the end, a delivered
  one comes from the front.  A run of the queue returns the datagrams accepted, those
  delivered, and the final queue.
\<close>

datatype queue_op = Enqueue VMCIDatagram | Dequeue u64

fun queue_run ::
  "(VMCIDatagram \<Rightarrow> 'c \<Rightarrow> int \<times> 'c) \<Rightarrow> (u64 \<Rightarrow> 'c \<Rightarrow> int \<times> u64 \<times> VMCIDatagram option \<times> 'c)
    \<Rightarrow> queue_op list \<Rightarrow> 'c \<Rightarrow> VMCIDatagram list \<times> VMCIDatagram list \<times> 'c" where
  "queue_run enq deq [] c = ([], [], c)"
| "queue_run enq deq (Enqueue dg # ops) c =
     (let (r, c1) = enq dg c; (acc, del, c2) = queue_run enq deq ops c1
      in (if r < 0 then acc else dg # acc, del, c2))"
| "queue_run enq deq (Dequeue m # ops) c =
     (let (r, m', x, c1) = deq m c; (acc, del, c2) = queue_run enq deq ops c1
      in (acc, (case x of None \<Rightarrow> del | Some dg \<Rightarrow> dg # del), c2))"

locale datagram_queue =
  fixes qinv :: "'c \<Rightarrow> bool" and fits :: "VMCIDatagram \<Rightarrow> bool" and contents :: "'c \<Rightarrow> VMCIDatagram list"
    and enq :: "VMCIDatagram \<Rightarrow> 'c \<Rightarrow> int \<times> 'c"
    and deq :: "u64 \<Rightarrow> 'c \<Rightarrow> int \<times> u64 \<times> VMCIDatagram option \<times> 'c"
  assumes enq_law: "qinv c \<Longrightarrow> fits dg \<Longrightarrow> enq dg c = (r, c') \<Longrightarrow>
      qinv c' \<and> contents c' = (if r < 0 then contents c else contents c @ [dg])"
    and deq_law: "qinv c \<Longrightarrow> deq m c = (r, m', x, c') \<Longrightarrow>
      qinv c' \<and> contents c = (case x of None \<Rightarrow> contents c' | Some dg \<Rightarrow> dg # contents c')"
begin

lemma fifo:
  assumes "qinv c" "\<forall>dg. Enqueue dg \<in> set ops \<longrightarrow> fits dg" "queue_run enq deq ops c = (acc, del, c')"
  shows "qinv c' \<and> contents c @ acc = del @ contents c'"
  using assms
proof (induction ops arbitrary: c acc del c')
  case (Cons op ops)
  show ?case
  proof (cases op)
    case (Enqueue dg)
    obtain r c1 where e: "enq dg c = (r, c1)" by fastforce
    obtain acc1 del1 c2 where run: "queue_run enq deq ops c1 = (acc1, del1, c2)" by (metis prod_cases3)
    have "fits dg" using Cons.prems(2) Enqueue by simp
    note e' = enq_law [OF Cons.prems(1) this e]
    with Cons.IH [OF _ _ run] Cons.prems show ?thesis
      by (auto simp: Enqueue e run split: if_splits)
  next
    case (Dequeue m)
    obtain r m' x c1 where d: "deq m c = (r, m', x, c1)" by (metis prod_cases4)
    obtain acc1 del1 c2 where run: "queue_run enq deq ops c1 = (acc1, del1, c2)" by (metis prod_cases3)
    note d' = deq_law [OF Cons.prems(1) d]
    with Cons.IH [OF _ _ run] Cons.prems show ?thesis
      by (auto simp: Dequeue d run split: option.splits)
  qed
qed simp

end

definition dg_fits :: "VMCIDatagram \<Rightarrow> bool" where
  "dg_fits dg \<longleftrightarrow> 24 \<le> unat (VMCI_DG_SIZE dg) \<and> unat (VMCI_DG_SIZE dg) \<le> 69632"

definition queued :: "VMCIContext \<Rightarrow> VMCIDatagram list" where
  "queued c = map dq_dg (cx_datagramQueue c)"

lemma notify_simps [simp]:
  "cx_datagramQueue (VMCIContextSignalNotify c) = cx_datagramQueue c"
  "cx_pendingDatagrams (VMCIContextSignalNotify c) = cx_pendingDatagrams c"
  "cx_datagramQueueSize (VMCIContextSignalNotify c) = cx_datagramQueueSize c"
  "cx_datagramQueue (VMCIContextClearNotify c) = cx_datagramQueue c"
  "cx_pendingDatagrams (VMCIContextClearNotify c) = cx_pendingDatagrams c"
  "cx_datagramQueueSize (VMCIContextClearNotify c) = cx_datagramQueueSize c"
  "cx_datagramQueue (VMCIHost_SignalCall c) = cx_datagramQueue c"
  "cx_pendingDatagrams (VMCIHost_SignalCall c) = cx_pendingDatagrams c"
  "cx_datagramQueueSize (VMCIHost_SignalCall c) = cx_datagramQueueSize c"
  by (simp_all add: VMCIContextSignalNotify_def VMCIContextClearNotify_def VMCIHost_SignalCall_def
      split: option.split)

lemma dq_inv_notify [simp]:
  "dq_inv (VMCIContextSignalNotify c) = dq_inv c" "dq_inv (VMCIContextClearNotify c) = dq_inv c"
  "dq_inv (VMCIHost_SignalCall c) = dq_inv c"
  "queued (VMCIContextSignalNotify c) = queued c" "queued (VMCIContextClearNotify c) = queued c"
  "queued (VMCIHost_SignalCall c) = queued c"
  by (simp_all add: dq_inv_def queued_def)

text \<open>A queue within its limit holds at most 7850 datagrams, so its counter does not wrap.\<close>

lemma sum_list_ge:
  "(\<And>x. x \<in> set xs \<Longrightarrow> k \<le> f x) \<Longrightarrow> k * length xs \<le> sum_list (map f xs)" for f :: "'a \<Rightarrow> nat"
  by (induction xs) (auto simp: add_mono)

lemma dq_inv_length: "length (cx_datagramQueue c) \<le> 7850" if "dq_inv c"
proof -
  have "24 * length (cx_datagramQueue c) \<le> sum_list (map (unat \<circ> dq_dgSize) (cx_datagramQueue c))"
    using that by (intro sum_list_ge) (auto simp: dq_inv_def)
  with that show ?thesis by (simp add: dq_inv_def)
qed

definition accepts :: "VMCIContext \<Rightarrow> VMCIDatagram \<Rightarrow> bool" where
  "accepts c dg \<longleftrightarrow> unat (cx_datagramQueueSize c) + unat (VMCI_DG_SIZE dg)
     < (if dg_src dg = VMCI_MAKE_HANDLE VMCI_HYPERVISOR_CONTEXT_ID VMCI_CONTEXT_RESOURCE_ID
        then 188416 else 139264)"

lemma enqueue_locked_cases:
  assumes "dq_inv c" "dg_fits dg"
  shows "enqueue_locked dg c = (if accepts c dg then (int (unat (VMCI_DG_SIZE dg)),
      VMCIHost_SignalCall (VMCIContextSignalNotify
        (c\<lparr>cx_datagramQueue := cx_datagramQueue c @ [\<lparr>dq_dgSize = VMCI_DG_SIZE dg, dq_dg = dg\<rparr>],
           cx_pendingDatagrams := cx_pendingDatagrams c + 1,
           cx_datagramQueueSize := cx_datagramQueueSize c + VMCI_DG_SIZE dg\<rparr>)))
    else (VMCI_ERROR_NO_RESOURCES, c))"
proof -
  have "unat (cx_datagramQueueSize c + VMCI_DG_SIZE dg)
      = unat (cx_datagramQueueSize c) + unat (VMCI_DG_SIZE dg)"
    using assms by (simp add: unat_word_ariths dq_inv_def dg_fits_def)
  then show ?thesis
    using assms by (auto simp: enqueue_locked_def Let_def accepts_def word_le_nat_alt size_to_int dg_fits_def)
qed

lemma enqueue_locked_correct:
  assumes "dq_inv c" "dg_fits dg" "enqueue_locked dg c = (r, c')"
  shows "dq_inv c' \<and> queued c' = (if r < 0 then queued c else queued c @ [dg])"
proof (cases "accepts c dg")
  case True
  have sz: "unat (cx_datagramQueueSize c + VMCI_DG_SIZE dg)
      = unat (cx_datagramQueueSize c) + unat (VMCI_DG_SIZE dg)"
    using assms(1,2) by (simp add: unat_word_ariths dq_inv_def dg_fits_def)
  have pend: "unat (cx_pendingDatagrams c + 1) = Suc (length (cx_datagramQueue c))"
    using dq_inv_length [OF assms(1)] assms(1) by (simp add: unat_word_ariths dq_inv_def)
  have "unat (cx_datagramQueueSize c) + unat (VMCI_DG_SIZE dg) < 188416"
    using True by (auto simp: accepts_def split: if_splits)
  with assms True sz pend show ?thesis
    by (auto simp: enqueue_locked_cases) (auto simp: dq_inv_def queued_def dg_fits_def)
qed (use assms in \<open>auto simp: enqueue_locked_cases\<close>)

lemma VMCIContext_DequeueDatagram_correct:
  assumes "dq_inv c" "VMCIContext_DequeueDatagram m c = (r, m', x, c')"
  shows "dq_inv c' \<and> queued c = (case x of None \<Rightarrow> queued c' | Some dg \<Rightarrow> dg # queued c')"
proof (cases "cx_datagramQueue c")
  case Nil
  then have "cx_pendingDatagrams c = 0" using assms(1) by (simp add: dq_inv_def unat_eq_0)
  with assms show ?thesis by (auto simp: VMCIContext_DequeueDatagram_def VMCIHost_ClearCall_def)
next
  case (Cons e es)
  then have pend: "unat (cx_pendingDatagrams c) = Suc (length es)"
    using assms(1) by (simp add: dq_inv_def)
  then have nz: "cx_pendingDatagrams c \<noteq> 0" by auto
  have p1: "unat (cx_pendingDatagrams c - 1) = length es"
    using unat_pred [OF nz] pend by simp
  have "unat (cx_datagramQueueSize c) = unat (dq_dgSize e) + sum_list (map (unat \<circ> dq_dgSize) es)"
    using assms(1) Cons by (simp add: dq_inv_def)
  then have "unat (cx_datagramQueueSize c - dq_dgSize e) = sum_list (map (unat \<circ> dq_dgSize) es)"
    by (simp add: unat_sub word_le_nat_alt)
  with assms Cons nz p1 show ?thesis
    by (auto simp: VMCIContext_DequeueDatagram_def VMCIHost_ClearCall_def Let_def split: if_splits)
      (auto simp: dq_inv_def queued_def)
qed

interpretation cxq: datagram_queue dq_inv dg_fits queued enqueue_locked VMCIContext_DequeueDatagram
  by unfold_locales (fact enqueue_locked_correct VMCIContext_DequeueDatagram_correct)+


section \<open>Choosing a context id\<close>

text \<open>
  From any id the search walks upwards through 16 .. 0xFFFFFFFE and wraps to 16, so the
  distance to a free id of that range shrinks at every step.
\<close>

definition cid_dist :: "VMCIId \<Rightarrow> VMCIId \<Rightarrow> nat" where
  "cid_dist u c = (if c \<le> u then unat u - unat c else (4294967295 - unat c) + (unat u - 16))"

definition dynamic_cid :: "VMCIId \<Rightarrow> bool" where
  "dynamic_cid u \<longleftrightarrow> VMCI_RESERVED_CID_LIMIT \<le> u \<and> u \<noteq> VMCI_INVALID_ID"

lemma invalid_iff: "c = VMCI_INVALID_ID \<longleftrightarrow> unat c = 4294967295" for c :: VMCIId
  by (simp add: word_unat_eq_iff)

lemma valid_less: "unat c < 4294967295" if "c \<noteq> VMCI_INVALID_ID" for c :: VMCIId
proof -
  have "unat c < 2 ^ LENGTH(32)" by (rule unsigned_less)
  with that show ?thesis by (simp add: invalid_iff)
qed

lemma next_cid_unat:
  assumes "c \<noteq> VMCI_INVALID_ID"
  shows "unat (next_cid c) = (if unat c < 15 \<or> unat c = 4294967294 then 16 else Suc (unat c))"
proof -
  note c = valid_less [OF assms]
  have m: "unat (max c 15) = max (unat c) 15" by (simp add: max_def word_le_nat_alt)
  have n: "unat (max c 15 + 1) = Suc (max (unat c) 15)"
    using c m by (simp add: unat_word_ariths)
  then show ?thesis using c unfolding next_cid_def Let_def invalid_iff by auto
qed

lemma next_cid_dynamic: "c \<noteq> VMCI_INVALID_ID \<Longrightarrow> dynamic_cid (next_cid c)"
  using valid_less [of c] next_cid_unat [of c]
  unfolding dynamic_cid_def word_le_nat_alt invalid_iff [of "next_cid c"] by auto

lemma next_cid_dist:
  assumes "dynamic_cid u" "c \<noteq> VMCI_INVALID_ID" "u \<noteq> c"
  shows "cid_dist u (next_cid c) < cid_dist u c"
proof -
  have "unat u \<noteq> unat c" "16 \<le> unat u" "unat u < 4294967295"
    using assms valid_less [of u] by (auto simp: dynamic_cid_def word_le_nat_alt word_unat_eq_iff)
  with valid_less [OF assms(2)] show ?thesis
    by (auto simp: cid_dist_def next_cid_unat [OF assms(2)] word_le_nat_alt)
qed

lemma pick_cid_returns:
  assumes "dynamic_cid u" "\<not> used u" "c \<noteq> VMCI_INVALID_ID"
  shows "\<exists>c'. pick_cid used c = Some c' \<and> \<not> used c' \<and> c' \<noteq> VMCI_INVALID_ID
    \<and> (if used c then dynamic_cid c' else c' = c)"
  using assms(3)
proof (induction "cid_dist u c" arbitrary: c rule: less_induct)
  case less
  show ?case
  proof (cases "used c")
    case True
    then have "u \<noteq> c" using assms(2) by auto
    note d = next_cid_dist [OF assms(1) less.prems this] and n = next_cid_dynamic [OF less.prems]
    have "next_cid c \<noteq> VMCI_INVALID_ID" using n by (simp add: dynamic_cid_def)
    from less.hyps [OF d this] n True show ?thesis
      by (auto simp: pick_cid.simps [of used c] split: if_splits)
  qed (use less.prems in \<open>simp add: pick_cid.simps [of used c]\<close>)
qed

lemma free_dynamic_cid:
  assumes "finite A" "card A < 4294967279"
  shows "\<exists>u. dynamic_cid u \<and> u \<notin> A"
proof (rule ccontr)
  assume none: "\<not> (\<exists>u. dynamic_cid u \<and> u \<notin> A)"
  have sub: "{16 ..< 4294967295} \<subseteq> unat ` A"
  proof (intro subsetI)
    fix n :: nat assume n: "n \<in> {16 ..< 4294967295}"
    let ?u = "of_nat n :: u32"
    have u: "unat ?u = n" using n by (simp add: unat_of_nat take_bit_nat_eq_self)
    then have "dynamic_cid ?u"
      using n by (auto simp: dynamic_cid_def word_le_nat_alt invalid_iff)
    with none u show "n \<in> unat ` A" by (metis image_eqI)
  qed
  have "card {16 ..< 4294967295 :: nat} \<le> card (unat ` A)"
    using sub assms(1) by (intro card_mono) auto
  also have "\<dots> \<le> card A" using assms(1) by (rule card_image_le)
  finally show False using assms(2) by simp
qed

lemma pick_cid_correct:
  assumes "length (ctx_list s) < 4294967279" "cid \<noteq> VMCI_INVALID_ID"
  shows "\<exists>c'. pick_cid (VMCIContextExists s) cid = Some c' \<and> ctx_lookup s c' = None
    \<and> c' \<noteq> VMCI_INVALID_ID \<and> (if ctx_lookup s cid = None then c' = cid else dynamic_cid c')"
proof -
  let ?A = "(\<lambda>p. cx_cid (ctx_mem s p)) ` set (ctx_list s)"
  have "card ?A \<le> card (set (ctx_list s))" by (rule card_image_le) simp
  also have "\<dots> \<le> length (ctx_list s)" by (rule card_length)
  finally obtain u where "dynamic_cid u" "u \<notin> ?A"
    using free_dynamic_cid [of ?A] assms(1) by auto
  then have "\<not> VMCIContextExists s u" by (simp add: VMCIContextExists_def ctx_lookup_None)
  from pick_cid_returns [where used = "VMCIContextExists s", OF \<open>dynamic_cid u\<close> this assms(2)] show ?thesis
    by (auto simp: VMCIContextExists_def split: if_splits)
qed

definition fresh_context :: "VMCIId \<Rightarrow> VMCIPrivilegeFlags \<Rightarrow> int \<Rightarrow> VMCIContext \<Rightarrow> bool" where
  "fresh_context cid flags ver c \<longleftrightarrow> cx_cid c = cid \<and> cx_refCount c = 1 \<and> queued c = []
     \<and> cx_privFlags c = flags \<and> cx_userVersion c = ver \<and> live (cx_wellKnownArray c) = []
     \<and> live (cx_groupArray c) = [] \<and> live (cx_queuePairArray c) = [] \<and> live (cx_notifierArray c) = []
     \<and> cx_inv c"

lemma ctx_inv_new:
  assumes "ctx_inv s" "p \<notin> ctx_live s" "cx_refCount c \<noteq> 0" "cx_inv c" "ctx_lookup s (cx_cid c) = None"
  shows "ctx_inv (s\<lparr>ctx_mem := (ctx_mem s)(p := c), ctx_list := ctx_list s @ [p],
    ctx_live := insert p (ctx_live s)\<rparr>)"
proof -
  have "p \<notin> set (ctx_list s)" using assms(1,2) by (auto simp: ctx_inv_def)
  then have "map (\<lambda>q. cx_cid (((ctx_mem s)(p := c)) q)) (ctx_list s)
      = map (\<lambda>q. cx_cid (ctx_mem s q)) (ctx_list s)"
    by auto
  with assms show ?thesis
    by (auto simp: ctx_inv_def ctx_lookup_None simp del: map_eq_conv)
qed

lemma VMCIContext_InitContext_correct:
  assumes inv: "ctx_inv s" and n: "length (ctx_list s) < 4294967279" and cid: "cid \<noteq> VMCI_INVALID_ID"
    and fresh: "\<And>p. ctx = Some p \<Longrightarrow> p \<notin> ctx_live s"
  shows "\<exists>r x s'. VMCIContext_InitContext ctx wk gr qp nt cid flags ver s = Some (r, x, s') \<and> ctx_inv s'
    \<and> (if r = VMCI_SUCCESS then \<exists>p c'. x = Some p \<and> ctx = Some p \<and> ctx_lookup s c' = None
          \<and> fresh_context c' flags ver (ctx_mem s' p) \<and> ctx_lookup s' c' = Some p
          \<and> (ctx_lookup s cid = None \<longrightarrow> c' = cid)
       else x = None \<and> s' = s)"
proof -
  obtain c' where pick: "pick_cid (VMCIContextExists s) cid = Some c'"
    and c': "ctx_lookup s c' = None" "c' \<noteq> VMCI_INVALID_ID" "ctx_lookup s cid = None \<longrightarrow> c' = cid"
    using pick_cid_correct [OF n cid] by (auto split: if_splits)
  have new: "ctx_inv s' \<and> fresh_context c' flags ver (ctx_mem s' p) \<and> ctx_lookup s' c' = Some p"
    if p: "ctx = Some p"
      and arrays: "VMCIHandleArray_Create wk 0 = Some a1" "VMCIHandleArray_Create gr 0 = Some a2"
        "VMCIHandleArray_Create qp 0 = Some a3" "VMCIHandleArray_Create nt 0 = Some a4"
      and c: "c = new_context c' flags ver a1 a2 a3 a4"
      and s': "s' = s\<lparr>ctx_mem := (ctx_mem s)(p := c), ctx_list := ctx_list s @ [p],
          ctx_live := insert p (ctx_live s)\<rparr>"
    for p a1 a2 a3 a4 c s'
  proof -
    note a = arrays [THEN VMCIHandleArray_Create_inv] arrays [THEN VMCIHandleArray_Create_live]
    have f: "fresh_context c' flags ver c"
      using a c'(2) by (simp add: c new_context_def fresh_context_def cx_inv_def dq_inv_def queued_def)
    then have c_facts: "cx_refCount c \<noteq> 0" "cx_inv c" "cx_cid c = c'"
      by (simp_all add: fresh_context_def)
    have inv': "ctx_inv s'"
      unfolding s' using ctx_inv_new [OF inv fresh [OF p] c_facts(1,2)] c'(1) c_facts(3) by simp
    have "ctx_lookup s' c' = Some p"
      using ctx_lookup_listed [OF inv', of p] c_facts(3) by (simp add: s')
    with f inv' show ?thesis by (simp add: s')
  qed
  show ?thesis
  proof (cases "flags AND NOT VMCI_PRIVILEGE_ALL_FLAGS \<noteq> 0 \<or> ver = 0 \<or> ctx = None
      \<or> VMCIHandleArray_Create wk 0 = None \<or> VMCIHandleArray_Create gr 0 = None
      \<or> VMCIHandleArray_Create qp 0 = None \<or> VMCIHandleArray_Create nt 0 = None")
    case True
    then have "\<exists>r. VMCIContext_InitContext ctx wk gr qp nt cid flags ver s = Some (r, None, s)
        \<and> r \<noteq> VMCI_SUCCESS"
      by (auto simp: VMCIContext_InitContext_def split: option.split)
    with inv show ?thesis by auto
  next
    case False
    then obtain p a1 a2 a3 a4 where p: "ctx = Some p" and
      a: "VMCIHandleArray_Create wk 0 = Some a1" "VMCIHandleArray_Create gr 0 = Some a2"
        "VMCIHandleArray_Create qp 0 = Some a3" "VMCIHandleArray_Create nt 0 = Some a4"
      by auto
    let ?s' = "s\<lparr>ctx_mem := (ctx_mem s)(p := new_context c' flags ver a1 a2 a3 a4),
      ctx_list := ctx_list s @ [p], ctx_live := insert p (ctx_live s)\<rparr>"
    have "VMCIContext_InitContext ctx wk gr qp nt cid flags ver s = Some (VMCI_SUCCESS, Some p, ?s')"
      using False p a pick by (simp add: VMCIContext_InitContext_def Let_def)
    with new [OF p a refl refl] c' p show ?thesis
      by (intro exI [of _ VMCI_SUCCESS] exI [of _ "Some p"] exI [of _ ?s']) auto
  qed
qed


section \<open>Every operation keeps the invariant\<close>

lemma dq_inv_fields [simp]:
  "dq_inv (c\<lparr>cx_refCount := n\<rparr>) = dq_inv c" "dq_inv (c\<lparr>cx_wellKnownArray := a\<rparr>) = dq_inv c"
  "dq_inv (c\<lparr>cx_groupArray := a\<rparr>) = dq_inv c" "dq_inv (c\<lparr>cx_queuePairArray := a\<rparr>) = dq_inv c"
  "dq_inv (c\<lparr>cx_notifierArray := a\<rparr>) = dq_inv c"
  by (simp_all add: dq_inv_def)

lemma cx_inv_refCount [simp]: "cx_inv (c\<lparr>cx_refCount := n\<rparr>) = cx_inv c"
  by (simp add: cx_inv_def)

lemma cx_inv_arrays [inv_intros]:
  "cx_inv c \<Longrightarrow> harr_inv a \<Longrightarrow> cx_inv (c\<lparr>cx_wellKnownArray := a\<rparr>)"
  "cx_inv c \<Longrightarrow> harr_inv a \<Longrightarrow> cx_inv (c\<lparr>cx_groupArray := a\<rparr>)"
  "cx_inv c \<Longrightarrow> harr_inv a \<Longrightarrow> cx_inv (c\<lparr>cx_queuePairArray := a\<rparr>)"
  "cx_inv c \<Longrightarrow> harr_inv a \<Longrightarrow> cx_inv (c\<lparr>cx_notifierArray := a\<rparr>)"
  by (simp_all add: cx_inv_def)

lemma cx_inv_D:
  "cx_inv c \<Longrightarrow> harr_inv (cx_wellKnownArray c)" "cx_inv c \<Longrightarrow> harr_inv (cx_groupArray c)"
  "cx_inv c \<Longrightarrow> harr_inv (cx_queuePairArray c)" "cx_inv c \<Longrightarrow> harr_inv (cx_notifierArray c)"
  "cx_inv c \<Longrightarrow> dq_inv c"
  by (simp_all add: cx_inv_def)

lemma harr_ops_inv [inv_intros]:
  "harr_inv a \<Longrightarrow> harr_inv (VMCIHandleArray_AppendEntry avail a h)"
  "harr_inv a \<Longrightarrow> harr_inv (snd (VMCIHandleArray_RemoveEntry a h))"
  "harr_inv a \<Longrightarrow> harr_inv (snd (VMCIHandleArray_RemoveTail a))"
  using VMCIHandleArray_AppendEntry_correct VMCIHandleArray_RemoveEntry_correct [OF _ surjective_pairing]
    VMCIHandleArray_RemoveTail_correct [OF _ surjective_pairing] by blast+

lemma enqueue_locked_fields:
  "cx_cid (snd (enqueue_locked dg c)) = cx_cid c"
  "cx_refCount (snd (enqueue_locked dg c)) = cx_refCount c"
  "cx_privFlags (snd (enqueue_locked dg c)) = cx_privFlags c"
  "cx_wellKnownArray (snd (enqueue_locked dg c)) = cx_wellKnownArray c"
  "cx_groupArray (snd (enqueue_locked dg c)) = cx_groupArray c"
  "cx_queuePairArray (snd (enqueue_locked dg c)) = cx_queuePairArray c"
  "cx_notifierArray (snd (enqueue_locked dg c)) = cx_notifierArray c"
  by (cases "cx_notify c";
      auto simp: enqueue_locked_def Let_def VMCIHost_SignalCall_def VMCIContextSignalNotify_def)+

lemma enqueue_locked_inv [inv_intros]:
  "cx_inv c \<Longrightarrow> dg_fits dg \<Longrightarrow> cx_inv (snd (enqueue_locked dg c))"
  using enqueue_locked_correct [of c dg, OF _ _ surjective_pairing]
  by (simp add: cx_inv_def enqueue_locked_fields)

lemma upd_ctx_fields_inv:
  assumes "ctx_inv s" "\<And>c. cx_inv c \<Longrightarrow> cx_inv (f c)" "\<And>c. cx_cid (f c) = cx_cid c"
    "\<And>c. cx_refCount (f c) = cx_refCount c"
  shows "ctx_inv (upd_ctx p f s)"
  using assms(1) by (intro upd_ctx_inv) (auto simp: assms(2-4) ctx_inv_def)

lemma VMCIContext_EnqueueDatagram_inv [inv_intros]:
  "ctx_inv s \<Longrightarrow> dg_fits dg \<Longrightarrow> ctx_inv (snd (VMCIContext_EnqueueDatagram free avail cid dg s))"
  by (simp add: VMCIContext_EnqueueDatagram_eq upd_ctx_fields_inv enqueue_locked_inv
      enqueue_locked_fields split: option.split)

lemma VMCIContext_ops_inv [inv_intros]:
  assumes "ctx_inv s"
  shows "ctx_inv (snd (VMCIContext_AddWellKnown free avail cid wk s))"
    "ctx_inv (snd (VMCIContext_RemoveWellKnown free cid wk s))"
    "ctx_inv (snd (VMCIContext_AddNotification free avail cid wk s))"
    "ctx_inv (snd (VMCIContext_RemoveNotification free cid wk s))"
    "ctx_inv (snd (VMCIContext_AddGroupEntry avail cp h s))"
    "ctx_inv (snd (VMCIContext_RemoveGroupEntry cp h s))"
  using assms
  by (auto simp: VMCIContext_AddWellKnown_eq VMCIContext_RemoveWellKnown_eq
      VMCIContext_AddNotification_eq VMCIContext_RemoveNotification_eq VMCIContext_AddGroupEntry_def
      VMCIContext_RemoveGroupEntry_def Let_def split: option.split
      intro!: upd_ctx_fields_inv cx_inv_arrays harr_ops_inv dest: cx_inv_D)

text \<open>
  The context loses a reference; while others remain, nothing is freed.  A context taken off
  the list stays well formed for those who still hold it.
\<close>

lemma VMCIContext_Get_inv [inv_intros]:
  assumes "ctx_inv s" "VMCIContext_Get cid s = (x, s')" "\<And>p. cx_refCount (ctx_mem s p) \<noteq> 4294967295"
  shows "ctx_inv s' \<and> x = ctx_lookup s cid"
proof (cases "ctx_lookup s cid")
  case (Some p)
  have "cx_refCount (ctx_mem s p) + 1 \<noteq> 0"
  proof -
    have "(4294967295 :: u32) = - 1" by simp
    with assms(3) [of p] show ?thesis by (metis eq_neg_iff_add_eq_0)
  qed
  with assms ctx_lookup_live [OF assms(1) Some] show ?thesis
    by (auto simp: VMCIContext_Get_eq Some intro!: upd_ctx_inv)
qed (use assms in \<open>auto simp: VMCIContext_Get_eq\<close>)


section \<open>Checkpoints\<close>

lemma VMCIHandleArray_ids:
  assumes "harr_inv a"
  shows "map (\<lambda>i. f (VMCIHandleArray_GetEntry a (of_nat i))) [0 ..< unat (asize a)] = map f (live a)"
proof (rule nth_equalityI)
  fix i assume "i < length (map (\<lambda>i. f (VMCIHandleArray_GetEntry a (of_nat i))) [0 ..< unat (asize a)])"
  then have i: "i < unat (asize a)" by simp
  then have "unat (of_nat i :: u32) = i"
    using unat32_less [of "asize a"] by (simp add: unat_of_nat take_bit_nat_eq_self)
  with i assms show "map (\<lambda>i. f (VMCIHandleArray_GetEntry a (of_nat i))) [0 ..< unat (asize a)] ! i
      = map f (live a) ! i"
    by (simp add: VMCIHandleArray_GetEntry_correct)
qed (simp add: assms)

definition cpt_ids :: "u32 \<Rightarrow> VMCIContext \<Rightarrow> VMCIId list" where
  "cpt_ids cptType c = (if cptType = VMCI_NOTIFICATION_CPT_STATE then map hcontext (live (cx_notifierArray c))
     else map hresource (live (cx_wellKnownArray c)))"

lemma cpt_size: "unat (asize a * 4) = unat (asize a) * 4" if "harr_inv a" for a
  using that by (simp add: harr_inv_def unat_word_ariths word_le_nat_alt)

lemma VMCIContext_GetCheckpointState_eq:
  assumes "ctx_inv s"
  shows "VMCIContext_GetCheckpointState free avail cid cptType bufSize s =
    (case ctx_lookup s cid of None \<Rightarrow> (VMCI_ERROR_NOT_FOUND, bufSize, None, s)
     | Some p \<Rightarrow>
       if cptType \<noteq> VMCI_NOTIFICATION_CPT_STATE \<and> cptType \<noteq> VMCI_WELLKNOWN_CPT_STATE
       then (VMCI_ERROR_INVALID_ARGS, bufSize, None, s)
       else let ids = cpt_ids cptType (ctx_mem s p); n = 4 * length ids
       in if ids = [] then (VMCI_SUCCESS, 0, Some [], s)
          else if unat bufSize < n then (VMCI_ERROR_MORE_DATA, of_nat n, None, s)
          else if \<not> VMCI_AllocKernelMem avail n then (VMCI_ERROR_NO_MEM, bufSize, None, s)
          else (VMCI_SUCCESS, of_nat n, Some ids, s))"
proof (cases "ctx_lookup s cid")
  case (Some p)
  note live = ctx_lookup_live [OF assms Some]
  let ?c = "ctx_mem s p"
  note a = cx_inv_D(1,4) [OF live(3)]
  have size: "of_nat (unat (asize a) * 4) = asize a * 4" for a by simp
  have nil: "live a = [] \<longleftrightarrow> asize a = 0" if "harr_inv a" for a
    using live_length [OF that] by (metis length_0_conv unat_eq_0)
  show ?thesis
    using Some a
    by (simp add: VMCIContext_GetCheckpointState_def VMCIContext_Get_eq release_after_get_id live(2)
        cpt_ids_def VMCIHandleArray_GetSize_def VMCIHandleArray_ids Let_def nil word_less_nat_alt
        cpt_size unat_gt_0 mult.commute [of 4])
qed (simp add: VMCIContext_GetCheckpointState_def VMCIContext_Get_eq)

section \<open>Properties\<close>

text \<open>One context with id 5 and an empty queue.\<close>

definition demo_array :: VMCIHandleArray where
  "demo_array = \<lparr>capacity = 4, asize = 0, entries = replicate 4 uninit_handle\<rparr>"

definition demo_ctx :: ctx_state where
  "demo_ctx = \<lparr>ctx_list = [3],
     ctx_mem = (\<lambda>_. new_context 5 0 589824 demo_array demo_array demo_array demo_array),
     ctx_live = {3}\<rparr>"

lemma demo_ctx_inv: "ctx_inv demo_ctx"
  by (simp add: demo_ctx_def ctx_inv_def new_context_def cx_inv_def dq_inv_def harr_inv_def demo_array_def)

definition demo_dg :: "u64 \<Rightarrow> VMCIDatagram" where
  "demo_dg n = \<lparr>dg_dst = VMCI_MAKE_HANDLE 5 0, dg_src = VMCI_MAKE_HANDLE 6 1, dg_payloadSize = n,
     dg_payload = []\<rparr>"

text \<open>
  C4: Enqueueing keeps every context well formed.  A datagram is accepted exactly when it
  keeps the bytes queued below the limit of its sender (the hypervisor has a higher one);
  then it is the last of the queue and its size is returned.  On an unknown context, a
  failed allocation or a full queue the matching error is returned and nothing changes.
\<close>

theorem enqueue_datagram_bounded:
  assumes "ctx_inv s" "dg_fits dg"
  shows "case VMCIContext_EnqueueDatagram free avail cid dg s of (r, s') \<Rightarrow> ctx_inv s' \<and>
    (case ctx_lookup s cid of
       None \<Rightarrow> r = VMCI_ERROR_INVALID_ARGS \<and> s' = s
     | Some p \<Rightarrow>
         if \<not> avail then r = VMCI_ERROR_NO_MEM \<and> s' = s
         else if accepts (ctx_mem s p) dg
         then r = int (unat (VMCI_DG_SIZE dg)) \<and> queued (ctx_mem s' p) = queued (ctx_mem s p) @ [dg]
           \<and> ctx_list s' = ctx_list s \<and> (\<forall>q. q \<noteq> p \<longrightarrow> ctx_mem s' q = ctx_mem s q)
         else r = VMCI_ERROR_NO_RESOURCES \<and> s' = s)"
proof -
  note inv = VMCIContext_EnqueueDatagram_inv [OF assms, of free avail cid]
  show ?thesis
  proof (cases "ctx_lookup s cid")
    case (Some p)
    have dq: "dq_inv (ctx_mem s p)" using ctx_lookup_live(3) [OF assms(1) Some] by (simp add: cx_inv_def)
    show ?thesis
      using inv Some assms(1)
      by (auto simp: VMCIContext_EnqueueDatagram_eq [OF assms(1)] enqueue_locked_cases [OF dq assms(2)]
          queued_def upd_ctx_id)
  qed (use assms in \<open>simp add: VMCIContext_EnqueueDatagram_eq\<close>)
qed

theorem enqueue_datagram_bounded_witness:
  "fst (VMCIContext_EnqueueDatagram (\<lambda>_ s. s) True 5 (demo_dg 100) demo_ctx) = 124
   \<and> fst (VMCIContext_EnqueueDatagram (\<lambda>_ s. s) True 9 (demo_dg 100) demo_ctx) = VMCI_ERROR_INVALID_ARGS"
proof -
  have fits: "dg_fits (demo_dg 100)" by (simp add: dg_fits_def demo_dg_def VMCI_DG_SIZE_def)
  have look: "ctx_lookup demo_ctx 5 = Some 3" "ctx_lookup demo_ctx 9 = None"
    by (simp_all add: ctx_lookup_def demo_ctx_def new_context_def)
  have acc: "accepts (ctx_mem demo_ctx 3) (demo_dg 100)"
    by (simp add: accepts_def demo_ctx_def new_context_def demo_dg_def VMCI_DG_SIZE_def)
  show ?thesis
    using enqueue_datagram_bounded [OF demo_ctx_inv fits, where free = "\<lambda>_ s. s" and avail = True and cid = 5]
      enqueue_datagram_bounded [OF demo_ctx_inv fits, where free = "\<lambda>_ s. s" and avail = True and cid = 9] look acc
    by (auto simp: split_beta demo_dg_def VMCI_DG_SIZE_def)
qed

text \<open>
  C3: The queue of a context is first in, first out over any interleaving of enqueues and
  dequeues, whatever buffer sizes the receiver offers: what was queued at the start and then
  accepted is what was delivered followed by what is still queued.
\<close>

theorem datagram_queue_fifo:
  assumes "dq_inv c" "\<forall>dg. Enqueue dg \<in> set ops \<longrightarrow> dg_fits dg"
    and "queue_run enqueue_locked VMCIContext_DequeueDatagram ops c = (accepted, delivered, c')"
  shows "delivered @ queued c' = queued c @ accepted \<and> dq_inv c'"
  using cxq.fifo [OF assms] by simp

theorem datagram_queue_fifo_witness:
  "case queue_run enqueue_locked VMCIContext_DequeueDatagram
      [Enqueue (demo_dg 8), Enqueue (demo_dg 16), Dequeue 10, Dequeue 100] (ctx_mem demo_ctx 3)
   of (accepted, delivered, c') \<Rightarrow>
     accepted = [demo_dg 8, demo_dg 16] \<and> delivered = [demo_dg 8] \<and> queued c' = [demo_dg 16]"
proof -
  let ?ops = "[Enqueue (demo_dg 8), Enqueue (demo_dg 16), Dequeue 10, Dequeue 100]"
  obtain acc del c' where run: "queue_run enqueue_locked VMCIContext_DequeueDatagram ?ops (ctx_mem demo_ctx 3)
      = (acc, del, c')"
    by (metis prod_cases3)
  then have "acc = [demo_dg 8, demo_dg 16]" "del = [demo_dg 8]"
    by (simp_all add: demo_ctx_def new_context_def enqueue_locked_def demo_dg_def VMCI_DG_SIZE_def Let_def
        VMCIHost_SignalCall_def VMCIContextSignalNotify_def VMCIContext_DequeueDatagram_def)
  moreover have "dq_inv (ctx_mem demo_ctx 3)" by (simp add: demo_ctx_def new_context_def dq_inv_def)
  moreover have "\<forall>dg. Enqueue dg \<in> set ?ops \<longrightarrow> dg_fits dg"
    by (auto simp: dg_fits_def demo_dg_def VMCI_DG_SIZE_def)
  moreover have "queued (ctx_mem demo_ctx 3) = []" by (simp add: demo_ctx_def new_context_def queued_def)
  ultimately show ?thesis using datagram_queue_fifo [OF _ _ run] by (simp add: run del: queue_run.simps)
qed



end
