(* ===== verification/Resource.thy ===== *)
theory Resource
  imports HashTable VmciContext
begin

text \<open>
  \<open>vmci-only/common/vmciResource.c\<close>: the registry of resources (datagram endpoints,
  groups, the discovery service).  A resource is the first member of its container object, so
  the address of a resource is the address of its container, and the container's own fields
  are the field \<open>r_object\<close> here.  Resources are entries of the handle table of theory
  \<open>HashTable\<close>; each has a list of clients with privileges.  Clients are separate objects in
  memory with a reference count of their own; \<open>cl_live\<close> are those not yet freed.

  \<open>VMCIResource_Release\<close> calls the callback \<open>containerFreeCB\<close> of a dead resource.  The
  callbacks belong to later theories and are the parameter \<open>cb\<close> here, a function of the
  callback and the address of the container.
\<close>

abbreviation (input) VMCI_PRIV_CH_PRIV :: nat where "VMCI_PRIV_CH_PRIV \<equiv> 0"
abbreviation (input) VMCI_PRIV_DESTROY_RESOURCE :: nat where "VMCI_PRIV_DESTROY_RESOURCE \<equiv> 1"
abbreviation (input) VMCI_PRIV_ASSIGN_CLIENT :: nat where "VMCI_PRIV_ASSIGN_CLIENT \<equiv> 2"
abbreviation (input) VMCI_PRIV_DG_CREATE :: nat where "VMCI_PRIV_DG_CREATE \<equiv> 3"
abbreviation (input) VMCI_PRIV_DG_SEND :: nat where "VMCI_PRIV_DG_SEND \<equiv> 4"
abbreviation (input) VMCI_NUM_PRIVILEGES :: nat where "VMCI_NUM_PRIVILEGES \<equiv> 7"

datatype VMCIResourcePrivilege =
  VMCI_PRIV_ALLOW | VMCI_PRIV_DENY | VMCI_PRIV_VALID | VMCI_PRIV_NOT_SET

datatype VMCIResourceType =
  VMCI_RESOURCE_TYPE_ANY | VMCI_RESOURCE_TYPE_API | VMCI_RESOURCE_TYPE_GROUP
| VMCI_RESOURCE_TYPE_DATAGRAM | VMCI_RESOURCE_TYPE_SHAREDMEM

record VMCIResourceClient =
  rc_handle :: VMCIHandle
  rc_refCount :: int
  rc_privilege :: "VMCIResourcePrivilege list"

text \<open>The receive callbacks of datagram endpoints: those of the driver, or a kernel client's.\<close>

datatype recv_cb = DatagramProcessNotifyCB_ref | DsDatagramRequestCB_ref | ClientRecvCB nat

text \<open>The fields of a container after its resource: a \<open>Group\<close>, a \<open>DatagramEntry\<close>, or none.\<close>

datatype container =
  NoContainer
| Group VMCIHandleArray
| DatagramEntry (de_flags: u32) (de_recvCB: recv_cb) (de_clientData: ptr) (de_signalled: bool)
    (de_privFlags: VMCIPrivilegeFlags)

datatype free_cb = GroupFreeCB_ref | DatagramFreeCB_ref

record VMCIResource = VMCIHashEntry +
  r_type :: VMCIResourceType
  r_validPrivs :: "VMCIResourcePrivilege list"
  r_clients :: "ptr list"
  r_containerFreeCB :: "free_cb option"
  r_containerObject :: ptr
  r_handle :: VMCIHandle
  r_registrationCount :: u32
  r_object :: container

record res_state = ctx_state +
  resourceTable :: "VMCIResource VMCIHashTable"
  resourceID_counter :: u32
  cl_mem :: "ptr \<Rightarrow> VMCIResourceClient"
  cl_live :: "ptr set"

section \<open>Operations\<close>

definition res :: "'a res_state_scheme \<Rightarrow> ptr \<Rightarrow> VMCIResource" where
  "res s p = ht_mem (resourceTable s) p"

definition upd_res :: "ptr \<Rightarrow> (VMCIResource \<Rightarrow> VMCIResource) \<Rightarrow> 'a res_state_scheme \<Rightarrow> 'a res_state_scheme" where
  "upd_res p f s = s\<lparr>resourceTable := (resourceTable s)\<lparr>ht_mem := (ht_mem (resourceTable s))(p := f (res s p))\<rparr>\<rparr>"

definition upd_client :: "ptr \<Rightarrow> (VMCIResourceClient \<Rightarrow> VMCIResourceClient) \<Rightarrow> 'a res_state_scheme \<Rightarrow> 'a res_state_scheme" where
  "upd_client c f s = s\<lparr>cl_mem := (cl_mem s)(c := f (cl_mem s c))\<rparr>"

definition VMCIResource_Init ::
  "bool \<Rightarrow> bool \<Rightarrow> 'a res_state_scheme \<Rightarrow> int \<times> 'a res_state_scheme" where
  "VMCIResource_Init avail1 avail2 s =
     (case VMCIHashTable_Create avail1 avail2 128 (ht_mem (resourceTable s)) of
        None \<Rightarrow> (VMCI_ERROR_NO_MEM, s)
      | Some t \<Rightarrow> (VMCI_SUCCESS, s\<lparr>resourceTable := t\<rparr>))"

definition VMCIResource_Exit :: "'a res_state_scheme \<Rightarrow> 'a res_state_scheme" where
  "VMCIResource_Exit s = s\<lparr>resourceTable := VMCIHashTable_Destroy (resourceTable s)\<rparr>"

text \<open>\<open>None\<close>: the counter overflowed and the driver panics.\<close>

definition VMCIResource_GetID :: "'a res_state_scheme \<Rightarrow> (VMCIId \<times> 'a res_state_scheme) option" where
  "VMCIResource_GetID s =
     (let cid = resourceID_counter s; s1 = s\<lparr>resourceID_counter := cid + 1\<rparr>
      in if cid = 0 then None else Some (cid, s1))"

fun ResourceValidatePrivileges :: "VMCIResource \<Rightarrow> nat list \<Rightarrow> int" where
  "ResourceValidatePrivileges r [] = VMCI_SUCCESS"
| "ResourceValidatePrivileges r (priv # privs) =
     (if r_validPrivs r ! priv \<noteq> VMCI_PRIV_VALID then VMCI_ERROR_INVALID_PRIV
      else ResourceValidatePrivileges r privs)"

definition ResourceGetClient ::
  "ptr \<Rightarrow> VMCIHandle \<Rightarrow> 'a res_state_scheme \<Rightarrow> ptr option \<times> 'a res_state_scheme" where
  "ResourceGetClient p clientHandle s =
     (case find (\<lambda>c. VMCI_HANDLE_EQUAL (rc_handle (cl_mem s c)) clientHandle) (r_clients (res s p)) of
        None \<Rightarrow> (None, s)
      | Some c \<Rightarrow> (Some c, upd_client c (\<lambda>c. c\<lparr>rc_refCount := rc_refCount c + 1\<rparr>) s))"

definition ResourceReleaseClient :: "ptr \<Rightarrow> 'a res_state_scheme \<Rightarrow> 'a res_state_scheme" where
  "ResourceReleaseClient c s =
     (let s1 = upd_client c (\<lambda>c. c\<lparr>rc_refCount := rc_refCount c - 1\<rparr>) s
      in if rc_refCount (cl_mem s1 c) = 0 then s1\<lparr>cl_live := cl_live s1 - {c}\<rparr> else s1)"

fun set_privs :: "VMCIResourcePrivilege \<Rightarrow> nat list \<Rightarrow> VMCIResourcePrivilege list \<Rightarrow> VMCIResourcePrivilege list" where
  "set_privs v [] ps = ps"
| "set_privs v (i # is) ps = set_privs v is (ps[i := v])"

text \<open>\<open>mem\<close>: the address the allocator returns for the client.\<close>

definition ResourceAddClient ::
  "ptr option \<Rightarrow> ptr \<Rightarrow> VMCIHandle \<Rightarrow> nat list \<Rightarrow> nat list \<Rightarrow> 'a res_state_scheme
    \<Rightarrow> int \<times> 'a res_state_scheme" where
  "ResourceAddClient mem p clientHandle allowPrivs denyPrivs s =
     (if VMCI_HANDLE_EQUAL clientHandle VMCI_INVALID_HANDLE then (VMCI_ERROR_INVALID_ARGS, s)
      else case mem of None \<Rightarrow> (VMCI_ERROR_NO_MEM, s)
      | Some c \<Rightarrow>
          let client = \<lparr>rc_handle = clientHandle, rc_refCount = 1,
                rc_privilege = set_privs VMCI_PRIV_DENY denyPrivs (set_privs VMCI_PRIV_ALLOW allowPrivs
                  (replicate VMCI_NUM_PRIVILEGES VMCI_PRIV_NOT_SET))\<rparr>
          in (VMCI_SUCCESS, upd_res p (\<lambda>r. r\<lparr>r_clients := c # r_clients r\<rparr>)
                (s\<lparr>cl_mem := (cl_mem s)(c := client), cl_live := insert c (cl_live s)\<rparr>)))"

text \<open>
  The loop unlinks the first client with the handle of \<open>c\<close>; there is one, since \<open>c\<close> itself
  is on the list whenever the function is called (otherwise the code follows a null pointer).
\<close>

definition ResourceRemoveClient :: "ptr \<Rightarrow> ptr \<Rightarrow> 'a res_state_scheme \<Rightarrow> 'a res_state_scheme" where
  "ResourceRemoveClient p c s =
     (let handle = rc_handle (cl_mem s c);
          s1 = upd_res p (\<lambda>r. r\<lparr>r_clients :=
                 the (unlink_first (\<lambda>cur. VMCI_HANDLE_EQUAL (rc_handle (cl_mem s cur)) handle)
                       (r_clients r))\<rparr>) s
      in ResourceReleaseClient c s1)"

text \<open>
  \<open>while (resource->clients)\<close>: every round removes the head of the list, so the rounds go
  through the list as it was at the start.
\<close>

definition remove_clients :: "ptr \<Rightarrow> 'a res_state_scheme \<Rightarrow> 'a res_state_scheme" where
  "remove_clients p s = fold (ResourceRemoveClient p) (r_clients (res s p)) s"

definition VMCIResource_Add ::
  "ptr option \<Rightarrow> ptr \<Rightarrow> VMCIResourceType \<Rightarrow> VMCIHandle \<Rightarrow> VMCIHandle \<Rightarrow> nat list \<Rightarrow> free_cb option
    \<Rightarrow> ptr \<Rightarrow> 'a res_state_scheme \<Rightarrow> int \<times> 'a res_state_scheme" where
  "VMCIResource_Add mem p resourceType resourceHandle ownerHandle validPrivs containerFreeCB containerObject s =
     (if VMCI_HANDLE_EQUAL resourceHandle VMCI_INVALID_HANDLE
         \<or> VMCI_HANDLE_EQUAL ownerHandle VMCI_INVALID_HANDLE \<or> length validPrivs < 1
      then (VMCI_ERROR_INVALID_ARGS, s)
      else let s1 = s\<lparr>resourceTable := VMCIHashTable_InitEntry (resourceTable s) p resourceHandle\<rparr>;
               privs = (replicate VMCI_NUM_PRIVILEGES VMCI_PRIV_NOT_SET)
                 [VMCI_PRIV_CH_PRIV := VMCI_PRIV_VALID, VMCI_PRIV_DESTROY_RESOURCE := VMCI_PRIV_VALID];
               s2 = upd_res p (\<lambda>r. r\<lparr>r_type := resourceType, r_containerFreeCB := containerFreeCB,
                      r_containerObject := containerObject, r_handle := resourceHandle,
                      r_registrationCount := 0, r_validPrivs := set_privs VMCI_PRIV_VALID validPrivs privs,
                      r_clients := []\<rparr>) s1;
               (result, s3) = ResourceAddClient mem p ownerHandle
                  [VMCI_PRIV_CH_PRIV, VMCI_PRIV_DESTROY_RESOURCE] [] s2
           in if result \<noteq> VMCI_SUCCESS then (result, s3)
              else let (result, t) = VMCIHashTable_AddEntry (resourceTable s3) p
                   in (result, s3\<lparr>resourceTable := t\<rparr>))"

definition VMCIResource_Get ::
  "VMCIHandle \<Rightarrow> VMCIResourceType \<Rightarrow> 'a res_state_scheme \<Rightarrow> ptr option \<times> 'a res_state_scheme" where
  "VMCIResource_Get resourceHandle resourceType s =
     (case VMCIHashTable_GetEntry (resourceTable s) resourceHandle of
        (None, t) \<Rightarrow> (None, s\<lparr>resourceTable := t\<rparr>)
      | (Some p, t) \<Rightarrow>
          let s1 = s\<lparr>resourceTable := t\<rparr>
          in if resourceType = VMCI_RESOURCE_TYPE_ANY \<or> r_type (res s1 p) = resourceType then (Some p, s1)
             else (None, s1\<lparr>resourceTable := snd (VMCIHashTable_ReleaseEntry t p)\<rparr>))"

fun get_typed ::
  "ptr option list \<Rightarrow> VMCIResourceType list \<Rightarrow> 'a res_state_scheme \<Rightarrow> ptr option list \<times> 'a res_state_scheme" where
  "get_typed (Some p # es) (ty # tys) s =
     (if ty = VMCI_RESOURCE_TYPE_ANY \<or> r_type (res s p) = ty
      then let (rs, s1) = get_typed es tys s in (Some p # rs, s1)
      else let (rs, s1) = get_typed es tys
                 (s\<lparr>resourceTable := snd (VMCIHashTable_ReleaseEntry (resourceTable s) p)\<rparr>)
           in (None # rs, s1))"
| "get_typed (None # es) (ty # tys) s = (let (rs, s1) = get_typed es tys s in (None # rs, s1))"
| "get_typed _ _ s = ([], s)"

definition VMCIResource_GetPair ::
  "VMCIHandle \<times> VMCIHandle \<Rightarrow> VMCIResourceType \<times> VMCIResourceType \<Rightarrow> 'a res_state_scheme
    \<Rightarrow> ptr option list \<times> 'a res_state_scheme" where
  "VMCIResource_GetPair handles types s =
     (let (entries, t) = VMCIHashTable_GetEntries (resourceTable s) [fst handles, snd handles]
      in get_typed entries [fst types, snd types] (s\<lparr>resourceTable := t\<rparr>))"

definition VMCIResourceDoRemove ::
  "(free_cb \<Rightarrow> ptr \<Rightarrow> 'a res_state_scheme \<Rightarrow> 'a res_state_scheme) \<Rightarrow> ptr \<Rightarrow> 'a res_state_scheme
    \<Rightarrow> 'a res_state_scheme" where
  "VMCIResourceDoRemove cb p s =
     (let s1 = remove_clients p s
      in case r_containerFreeCB (res s1 p) of None \<Rightarrow> s1
         | Some f \<Rightarrow> cb f (r_containerObject (res s1 p)) s1)"

definition VMCIResource_Release ::
  "(free_cb \<Rightarrow> ptr \<Rightarrow> 'a res_state_scheme \<Rightarrow> 'a res_state_scheme) \<Rightarrow> ptr \<Rightarrow> 'a res_state_scheme
    \<Rightarrow> int \<times> 'a res_state_scheme" where
  "VMCIResource_Release cb p s =
     (let (result, t) = VMCIHashTable_ReleaseEntry (resourceTable s) p; s1 = s\<lparr>resourceTable := t\<rparr>
      in if result = VMCI_SUCCESS_ENTRY_DEAD then (result, VMCIResourceDoRemove cb p s1)
         else (result, s1))"

definition VMCIResource_Remove ::
  "(free_cb \<Rightarrow> ptr \<Rightarrow> 'a res_state_scheme \<Rightarrow> 'a res_state_scheme) \<Rightarrow> VMCIHandle \<Rightarrow> VMCIResourceType
    \<Rightarrow> 'a res_state_scheme \<Rightarrow> 'a res_state_scheme" where
  "VMCIResource_Remove cb resourceHandle resourceType s =
     (case VMCIResource_Get resourceHandle resourceType s of
        (None, s1) \<Rightarrow> s1
      | (Some p, s1) \<Rightarrow>
          let s2 = remove_clients p s1;
              s3 = s2\<lparr>resourceTable := snd (VMCIHashTable_RemoveEntry (resourceTable s2) p)\<rparr>
          in snd (VMCIResource_Release cb p s3))"

definition VMCIResource_ReleasePair ::
  "(free_cb \<Rightarrow> ptr \<Rightarrow> 'a res_state_scheme \<Rightarrow> 'a res_state_scheme) \<Rightarrow> ptr option \<times> ptr option
    \<Rightarrow> 'a res_state_scheme \<Rightarrow> int \<times> int list \<times> 'a res_state_scheme" where
  "VMCIResource_ReleasePair cb resource s =
     (case resource of
        (Some p, Some q) \<Rightarrow>
          let (result, results, t) = VMCIHashTable_ReleaseEntries (resourceTable s) [p, q] VMCI_SUCCESS;
              s1 = s\<lparr>resourceTable := t\<rparr>
          in if result = VMCI_SUCCESS_ENTRY_DEAD then
               let s2 = (if results ! 0 = VMCI_SUCCESS_ENTRY_DEAD then VMCIResourceDoRemove cb p s1 else s1);
                   s3 = (if results ! 1 = VMCI_SUCCESS_ENTRY_DEAD then VMCIResourceDoRemove cb q s2 else s2)
               in (result, results, s3)
             else (result, results, s1)
      | (Some p, None) \<Rightarrow>
          let (result, t) = VMCIHashTable_ReleaseEntry (resourceTable s) p
          in (result, [result, VMCI_SUCCESS], s\<lparr>resourceTable := t\<rparr>)
      | (None, Some q) \<Rightarrow>
          let (result, t) = VMCIHashTable_ReleaseEntry (resourceTable s) q
          in (result, [VMCI_SUCCESS, result], s\<lparr>resourceTable := t\<rparr>)
      | (None, None) \<Rightarrow> (VMCI_SUCCESS, [VMCI_SUCCESS, VMCI_SUCCESS], s))"

text \<open>The part of \<open>VMCIResource_AddClientPrivileges\<close> before \<open>done\<close>.\<close>

definition add_privs ::
  "ptr option \<Rightarrow> ptr \<Rightarrow> VMCIHandle \<Rightarrow> nat list \<Rightarrow> nat list \<Rightarrow> 'a res_state_scheme
    \<Rightarrow> int \<times> 'a res_state_scheme" where
  "add_privs mem p clientHandle allowPrivs denyPrivs s =
     (let result = ResourceValidatePrivileges (res s p) allowPrivs
      in if result \<noteq> VMCI_SUCCESS then (result, s)
      else let result = ResourceValidatePrivileges (res s p) denyPrivs
      in if result \<noteq> VMCI_SUCCESS then (result, s)
      else case ResourceGetClient p clientHandle s of
          (None, s1) \<Rightarrow> ResourceAddClient mem p clientHandle allowPrivs denyPrivs s1
        | (Some c, s1) \<Rightarrow>
            (VMCI_SUCCESS, ResourceReleaseClient c
               (upd_client c (\<lambda>c. c\<lparr>rc_privilege := set_privs VMCI_PRIV_DENY denyPrivs
                  (set_privs VMCI_PRIV_ALLOW allowPrivs (rc_privilege c))\<rparr>) s1)))"

definition VMCIResource_AddClientPrivileges ::
  "(free_cb \<Rightarrow> ptr \<Rightarrow> 'a res_state_scheme \<Rightarrow> 'a res_state_scheme) \<Rightarrow> ptr option \<Rightarrow> VMCIHandle \<Rightarrow> VMCIHandle
    \<Rightarrow> nat list \<Rightarrow> nat list \<Rightarrow> 'a res_state_scheme \<Rightarrow> int \<times> 'a res_state_scheme" where
  "VMCIResource_AddClientPrivileges cb mem resourceHandle clientHandle allowPrivs denyPrivs s =
     (if VMCI_HANDLE_EQUAL resourceHandle VMCI_INVALID_HANDLE \<or> VMCI_HANDLE_EQUAL clientHandle VMCI_INVALID_HANDLE
         \<or> length allowPrivs + length denyPrivs < 1
      then (VMCI_ERROR_INVALID_ARGS, s)
      else case VMCIResource_Get resourceHandle VMCI_RESOURCE_TYPE_ANY s of
        (None, s1) \<Rightarrow> (VMCI_ERROR_INVALID_ARGS, s1)
      | (Some p, s1) \<Rightarrow>
          let (result, s2) = add_privs mem p clientHandle allowPrivs denyPrivs s1
          in (result, snd (VMCIResource_Release cb p s2)))"

definition remove_privs ::
  "ptr \<Rightarrow> VMCIHandle \<Rightarrow> nat list \<Rightarrow> 'a res_state_scheme \<Rightarrow> int \<times> 'a res_state_scheme" where
  "remove_privs p clientHandle privs s =
     (let result = ResourceValidatePrivileges (res s p) privs
      in if result \<noteq> VMCI_SUCCESS then (result, s)
      else case ResourceGetClient p clientHandle s of
          (None, s1) \<Rightarrow> (VMCI_ERROR_INVALID_ARGS, s1)
        | (Some c, s1) \<Rightarrow>
            let s2 = upd_client c (\<lambda>c. c\<lparr>rc_privilege :=
                       set_privs VMCI_PRIV_NOT_SET privs (rc_privilege c)\<rparr>) s1;
                noPrivs = list_all (\<lambda>v. v = VMCI_PRIV_NOT_SET) (rc_privilege (cl_mem s2 c));
                s3 = (if noPrivs then ResourceRemoveClient p c s2 else s2)
            in (VMCI_SUCCESS, ResourceReleaseClient c s3))"

definition VMCIResource_RemoveClientPrivileges ::
  "(free_cb \<Rightarrow> ptr \<Rightarrow> 'a res_state_scheme \<Rightarrow> 'a res_state_scheme) \<Rightarrow> VMCIHandle \<Rightarrow> VMCIHandle
    \<Rightarrow> nat list \<Rightarrow> 'a res_state_scheme \<Rightarrow> int \<times> 'a res_state_scheme" where
  "VMCIResource_RemoveClientPrivileges cb resourceHandle clientHandle privs s =
     (if VMCI_HANDLE_EQUAL resourceHandle VMCI_INVALID_HANDLE \<or> VMCI_HANDLE_EQUAL clientHandle VMCI_INVALID_HANDLE
         \<or> length privs < 1
      then (VMCI_ERROR_INVALID_ARGS, s)
      else case VMCIResource_Get resourceHandle VMCI_RESOURCE_TYPE_ANY s of
        (None, s1) \<Rightarrow> (VMCI_ERROR_INVALID_ARGS, s1)
      | (Some p, s1) \<Rightarrow>
          let (result, s2) = remove_privs p clientHandle privs s1
          in (result, snd (VMCIResource_Release cb p s2)))"

definition remove_all_privs :: "ptr \<Rightarrow> VMCIHandle \<Rightarrow> 'a res_state_scheme \<Rightarrow> int \<times> 'a res_state_scheme" where
  "remove_all_privs p clientHandle s =
     (case ResourceGetClient p clientHandle s of
          (None, s1) \<Rightarrow> (VMCI_ERROR_INVALID_ARGS, s1)
        | (Some c, s1) \<Rightarrow> (VMCI_SUCCESS, ResourceReleaseClient c (ResourceRemoveClient p c s1)))"

definition VMCIResource_RemoveAllClientPrivileges ::
  "(free_cb \<Rightarrow> ptr \<Rightarrow> 'a res_state_scheme \<Rightarrow> 'a res_state_scheme) \<Rightarrow> VMCIHandle \<Rightarrow> VMCIHandle
    \<Rightarrow> 'a res_state_scheme \<Rightarrow> int \<times> 'a res_state_scheme" where
  "VMCIResource_RemoveAllClientPrivileges cb resourceHandle clientHandle s =
     (if VMCI_HANDLE_EQUAL resourceHandle VMCI_INVALID_HANDLE \<or> VMCI_HANDLE_EQUAL clientHandle VMCI_INVALID_HANDLE
      then (VMCI_ERROR_INVALID_ARGS, s)
      else case VMCIResource_Get resourceHandle VMCI_RESOURCE_TYPE_ANY s of
        (None, s1) \<Rightarrow> (VMCI_ERROR_INVALID_ARGS, s1)
      | (Some p, s1) \<Rightarrow>
          let (result, s2) = remove_all_privs p clientHandle s1
          in (result, snd (VMCIResource_Release cb p s2)))"

text \<open>Everything after the early \<open>return VMCI_SUCCESS_ACCESS_GRANTED\<close> of the code is dead.\<close>

definition VMCIResource_CheckClientPrivilegePtr :: "ptr option \<Rightarrow> VMCIHandle \<Rightarrow> nat \<Rightarrow> int" where
  "VMCIResource_CheckClientPrivilegePtr resource clientHandle priv =
     (if resource = None \<or> VMCI_HANDLE_EQUAL clientHandle VMCI_INVALID_HANDLE \<or> VMCI_NUM_PRIVILEGES \<le> priv
      then VMCI_ERROR_INVALID_ARGS else VMCI_SUCCESS_ACCESS_GRANTED)"

definition VMCIResource_CheckClientPrivilege ::
  "(free_cb \<Rightarrow> ptr \<Rightarrow> 'a res_state_scheme \<Rightarrow> 'a res_state_scheme) \<Rightarrow> VMCIHandle \<Rightarrow> VMCIHandle \<Rightarrow> nat
    \<Rightarrow> 'a res_state_scheme \<Rightarrow> int \<times> 'a res_state_scheme" where
  "VMCIResource_CheckClientPrivilege cb resourceHandle clientHandle priv s =
     (if VMCI_HANDLE_EQUAL resourceHandle VMCI_INVALID_HANDLE then (VMCI_ERROR_INVALID_ARGS, s)
      else case VMCIResource_Get resourceHandle VMCI_RESOURCE_TYPE_ANY s of
        (None, s1) \<Rightarrow> (VMCI_ERROR_INVALID_ARGS, s1)
      | (Some p, s1) \<Rightarrow>
          (VMCIResource_CheckClientPrivilegePtr (Some p) clientHandle priv,
           snd (VMCIResource_Release cb p s1)))"

definition VMCIResource_IncDsRegCount :: "ptr option \<Rightarrow> 'a res_state_scheme \<Rightarrow> int \<times> 'a res_state_scheme" where
  "VMCIResource_IncDsRegCount resource s =
     (case resource of None \<Rightarrow> (VMCI_ERROR_INVALID_ARGS, s)
      | Some p \<Rightarrow> (VMCI_SUCCESS, upd_res p (\<lambda>r. r\<lparr>r_registrationCount := r_registrationCount r + 1\<rparr>) s))"

definition VMCIResource_DecDsRegCount :: "ptr option \<Rightarrow> 'a res_state_scheme \<Rightarrow> int \<times> 'a res_state_scheme" where
  "VMCIResource_DecDsRegCount resource s =
     (case resource of None \<Rightarrow> (VMCI_ERROR_INVALID_ARGS, s)
      | Some p \<Rightarrow> (VMCI_SUCCESS, upd_res p (\<lambda>r. r\<lparr>r_registrationCount := r_registrationCount r - 1\<rparr>) s))"


section \<open>Taking and giving back a reference\<close>

definition res_lookup :: "'a res_state_scheme \<Rightarrow> VMCIHandle \<Rightarrow> VMCIResourceType \<Rightarrow> ptr option" where
  "res_lookup s h ty = (if h = VMCI_INVALID_HANDLE then None
     else case ht_lookup (resourceTable s) h of None \<Rightarrow> None
          | Some p \<Rightarrow> if ty = VMCI_RESOURCE_TYPE_ANY \<or> r_type (res s p) = ty then Some p else None)"

lemma res_update_commute [simp]:
  fixes r :: VMCIResource
  shows "r\<lparr>he_refCount := n, r_clients := cs\<rparr> = r\<lparr>r_clients := cs, he_refCount := n\<rparr>"
    "r\<lparr>he_refCount := n, r_registrationCount := k\<rparr> = r\<lparr>r_registrationCount := k, he_refCount := n\<rparr>"
    "r\<lparr>he_refCount := n, r_object := ob\<rparr> = r\<lparr>r_object := ob, he_refCount := n\<rparr>"
  by (cases r; simp)+

definition inc_ref :: "VMCIResource \<Rightarrow> VMCIResource" where
  "inc_ref r = r\<lparr>he_refCount := he_refCount r + 1\<rparr>"

lemma res_upd_res [simp]: "res (upd_res p f s) q = (if q = p then f (res s p) else res s q)"
  by (simp add: upd_res_def res_def)

lemma upd_res_fields [simp]:
  "cl_mem (upd_res p f s) = cl_mem s" "cl_live (upd_res p f s) = cl_live s"
  "resourceID_counter (upd_res p f s) = resourceID_counter s" "ctx_list (upd_res p f s) = ctx_list s"
  "ctx_mem (upd_res p f s) = ctx_mem s" "ctx_live (upd_res p f s) = ctx_live s"
  "ht_entries (resourceTable (upd_res p f s)) = ht_entries (resourceTable s)"
  "ht_size (resourceTable (upd_res p f s)) = ht_size (resourceTable s)"
  by (simp_all add: upd_res_def)

lemma upd_res_upd_res: "upd_res p g (upd_res p f s) = upd_res p (\<lambda>r. g (f r)) s"
  by (simp add: upd_res_def res_def)

lemma upd_res_id: "f (res s p) = res s p \<Longrightarrow> upd_res p f s = s"
  by (simp add: upd_res_def res_def)

lemma upd_client_fields [simp]:
  "resourceTable (upd_client c f s) = resourceTable s" "cl_live (upd_client c f s) = cl_live s"
  "res (upd_client c f s) p = res s p" "cl_mem (upd_client c f s) = (cl_mem s)(c := f (cl_mem s c))"
  by (simp_all add: upd_client_def res_def)

lemma upd_client_upd_res [simp]: "upd_client c f (upd_res p g s) = upd_res p g (upd_client c f s)"
  by (simp add: upd_client_def upd_res_def res_def)

lemma set_ref_upd_res:
  "s\<lparr>resourceTable := ht_set_ref p n (resourceTable s)\<rparr> = upd_res p (\<lambda>r. r\<lparr>he_refCount := n\<rparr>) s"
  by (simp add: upd_res_def res_def ht_set_ref_def)

lemma ht_ref_res: "ht_ref (resourceTable s) p = he_refCount (res s p)"
  by (simp add: ht_ref_def res_def)

lemma ht_handle_res: "ht_handle (resourceTable s) p = he_handle (res s p)"
  by (simp add: ht_handle_def res_def)

lemma upd_res_table:
  assumes "he_handle (f (res s p)) = he_handle (res s p)"
  shows "ht_handle (resourceTable (upd_res p f s)) = ht_handle (resourceTable s)"
    "ht_lookup (resourceTable (upd_res p f s)) = ht_lookup (resourceTable s)"
    "linked (resourceTable (upd_res p f s)) = linked (resourceTable s)"
proof -
  show h: "ht_handle (resourceTable (upd_res p f s)) = ht_handle (resourceTable s)"
    using assms by (auto simp: ht_handle_res fun_eq_iff)
  show l: "ht_lookup (resourceTable (upd_res p f s)) = ht_lookup (resourceTable s)"
    by (simp add: ht_lookup_def ht_idx_def h fun_eq_iff)
  show "linked (resourceTable (upd_res p f s)) = linked (resourceTable s)"
    by (simp add: linked_def h l fun_eq_iff)
qed

text \<open>The table only reads the handle and the count of an entry.\<close>

lemma ht_inv_cong:
  assumes "ht_inv t" "ht_entries t' = ht_entries t" "ht_size t' = ht_size t"
    "ht_handle t' = ht_handle t" "\<And>p. linked t p \<Longrightarrow> 1 \<le> ht_ref t' p"
  shows "ht_inv t'"
proof -
  have "\<forall>i < length (ht_entries t). \<forall>p \<in> set (ht_entries t ! i). 1 \<le> ht_ref t' p"
    using assms(5) linkedI [OF assms(1)] by blast
  with assms(1-4) show ?thesis by (auto simp: ht_inv_def ht_idx_def)
qed

lemma ht_inv_upd_res:
  assumes "ht_inv (resourceTable s)" "he_handle (f (res s p)) = he_handle (res s p)"
    "he_refCount (res s p) \<le> he_refCount (f (res s p))"
  shows "ht_inv (resourceTable (upd_res p f s))"
  using assms(3) linked_ref [OF assms(1)] upd_res_table [where f = f and s = s and p = p, OF assms(2)]
  by (intro ht_inv_cong [OF assms(1)]) (auto simp: ht_ref_res intro: order_trans)

lemma res_lookup_D:
  assumes "res_lookup s h ty = Some p"
  shows "ht_lookup (resourceTable s) h = Some p" "linked (resourceTable s) p" "he_handle (res s p) = h"
    "ty = VMCI_RESOURCE_TYPE_ANY \<or> r_type (res s p) = ty"
  using assms ht_lookup_Some_D [of "resourceTable s" h p]
  by (auto simp: res_lookup_def ht_handle_res split: if_splits option.splits)

lemma VMCIResource_Get_eq:
  assumes inv: "ht_inv (resourceTable s)"
  shows "VMCIResource_Get h ty s = (case res_lookup s h ty of None \<Rightarrow> (None, s)
    | Some p \<Rightarrow> (Some p, upd_res p inc_ref s))"
proof (cases "h = VMCI_INVALID_HANDLE \<or> ht_lookup (resourceTable s) h = None")
  case False
  then obtain p where p: "ht_lookup (resourceTable s) h = Some p" "h \<noteq> VMCI_INVALID_HANDLE" by auto
  have ref: "1 \<le> he_refCount (res s p)"
    using linked_ref [OF inv, of p] p(1) by (auto simp: ht_ref_res dest: ht_lookup_Some_D(3))
  have inc: "s\<lparr>resourceTable := ht_set_ref p (ht_ref (resourceTable s) p + 1) (resourceTable s)\<rparr>
      = upd_res p inc_ref s"
    by (simp add: inc_ref_def ht_ref_res set_ref_upd_res) (simp add: upd_res_def inc_ref_def)
  have type: "r_type (res (upd_res p inc_ref s) p) = r_type (res s p)"
    by (simp add: inc_ref_def)
  have rel: "snd (VMCIHashTable_ReleaseEntry
        (ht_set_ref p (ht_ref (resourceTable s) p + 1) (resourceTable s)) p) = resourceTable s"
    using ref by (simp add: VMCIHashTable_ReleaseEntry_eq flip: ht_ref_res)
  show ?thesis
    using p type by (simp add: VMCIResource_Get_def VMCIHashTable_GetEntry_eq Let_def inc rel res_lookup_def)
      (simp add: upd_res_def)
qed (auto simp: VMCIResource_Get_def VMCIHashTable_GetEntry_eq res_lookup_def split: option.split)

lemma VMCIResource_Release_eq:
  assumes "he_refCount (res s p) \<noteq> 1"
  shows "VMCIResource_Release cb p s
    = (VMCI_SUCCESS, upd_res p (\<lambda>r. r\<lparr>he_refCount := he_refCount r - 1\<rparr>) s)"
proof -
  have "VMCIHashTable_ReleaseEntry (resourceTable s) p
      = (VMCI_SUCCESS, ht_set_ref p (ht_ref (resourceTable s) p - 1) (resourceTable s))"
    using assms by (intro VMCIHashTable_ReleaseEntry_eq) (simp add: ht_ref_res)
  then show ?thesis
    by (simp add: VMCIResource_Release_def Let_def set_ref_upd_res ht_ref_res) (simp add: upd_res_def)
qed

text \<open>
  Work done between a get and the release that may change the resource, but not its count:
  the release does not free the resource, and only the work remains.
\<close>

lemma release_after_inc:
  assumes "1 \<le> he_refCount (res s p)"
  shows "VMCIResource_Release cb p (upd_res p inc_ref s) = (VMCI_SUCCESS, s)"
  using assms by (subst VMCIResource_Release_eq) (simp_all add: inc_ref_def upd_res_upd_res upd_res_id)

lemma res_lookup_ref:
  "ht_inv (resourceTable s) \<Longrightarrow> res_lookup s h ty = Some p \<Longrightarrow> 1 \<le> he_refCount (res s p)"
  using linked_ref [of "resourceTable s" p] by (auto simp: ht_ref_res dest: res_lookup_D(2))


section \<open>Clients of a resource\<close>

text \<open>
  While no call is in progress every client on a list is allocated, referenced by the list
  alone, and the only one with its handle.
\<close>

definition clients_ok :: "'a res_state_scheme \<Rightarrow> ptr \<Rightarrow> bool" where
  [inv_defs]: "clients_ok s p \<longleftrightarrow>
     distinct (map (\<lambda>c. rc_handle (cl_mem s c)) (r_clients (res s p)))
     \<and> (\<forall>c \<in> set (r_clients (res s p)). c \<in> cl_live s \<and> rc_refCount (cl_mem s c) = 1
        \<and> length (rc_privilege (cl_mem s c)) = VMCI_NUM_PRIVILEGES)"

definition client_lookup :: "'a res_state_scheme \<Rightarrow> ptr \<Rightarrow> VMCIHandle \<Rightarrow> ptr option" where
  "client_lookup s p h = find (\<lambda>c. rc_handle (cl_mem s c) = h) (r_clients (res s p))"

text \<open>The privilege \<open>i\<close> of the client with handle \<open>h\<close>.\<close>

definition priv_of :: "'a res_state_scheme \<Rightarrow> ptr \<Rightarrow> VMCIHandle \<Rightarrow> nat \<Rightarrow> VMCIResourcePrivilege" where
  "priv_of s p h i = (case client_lookup s p h of None \<Rightarrow> VMCI_PRIV_NOT_SET
     | Some c \<Rightarrow> rc_privilege (cl_mem s c) ! i)"

lemma ResourceValidatePrivileges_eq:
  "ResourceValidatePrivileges r privs
    = (if list_all (\<lambda>i. r_validPrivs r ! i = VMCI_PRIV_VALID) privs then VMCI_SUCCESS
       else VMCI_ERROR_INVALID_PRIV)"
  by (induction privs) auto

lemma length_set_privs [simp]: "length (set_privs v is ps) = length ps"
  by (induction "is" arbitrary: ps) auto

lemma nth_set_privs:
  "i < length ps \<Longrightarrow> set_privs v is ps ! i = (if i \<in> set is then v else ps ! i)"
  by (induction "is" arbitrary: ps) (auto simp: nth_list_update)

lemma client_lookup_D:
  assumes "client_lookup s p h = Some c"
  shows "c \<in> set (r_clients (res s p))" "rc_handle (cl_mem s c) = h"
  using find_Some_D [OF assms [unfolded client_lookup_def]] by auto

lemma upd_client_id: "f (cl_mem s c) = cl_mem s c \<Longrightarrow> upd_client c f s = s"
  by (simp add: upd_client_def)

lemma upd_client_upd_client: "upd_client c g (upd_client c f s) = upd_client c (\<lambda>x. g (f x)) s"
  by (simp add: upd_client_def)

lemma client_get_release:
  assumes "rc_refCount (cl_mem s c) = 1"
    and "\<And>x n. f (x\<lparr>rc_refCount := n\<rparr>) = (f x)\<lparr>rc_refCount := n\<rparr>"
  shows "ResourceReleaseClient c (upd_client c f
      (upd_client c (\<lambda>x. x\<lparr>rc_refCount := rc_refCount x + 1\<rparr>) s)) = upd_client c f s"
proof -
  have keep: "(f x)\<lparr>rc_refCount := rc_refCount x\<rparr> = f x" for x
    using assms(2) [where x = x and n = "rc_refCount x"] by simp
  show ?thesis
    using assms(1) by (simp add: ResourceReleaseClient_def Let_def upd_client_upd_client assms(2))
      (simp add: upd_client_def keep)
qed

lemma add_privs_eq:
  assumes "clients_ok s p"
  shows "add_privs mem p h allow deny s =
    (if \<not> list_all (\<lambda>i. r_validPrivs (res s p) ! i = VMCI_PRIV_VALID) (allow @ deny)
     then (VMCI_ERROR_INVALID_PRIV, s)
     else case client_lookup s p h of None \<Rightarrow> ResourceAddClient mem p h allow deny s
       | Some c \<Rightarrow> (VMCI_SUCCESS, upd_client c (\<lambda>c. c\<lparr>rc_privilege :=
           set_privs VMCI_PRIV_DENY deny (set_privs VMCI_PRIV_ALLOW allow (rc_privilege c))\<rparr>) s))"
proof -
  have "rc_refCount (cl_mem s c) = 1" if "client_lookup s p h = Some c" for c
    using client_lookup_D(1) [OF that] assms by (simp add: clients_ok_def)
  then show ?thesis
    by (auto simp: add_privs_def ResourceValidatePrivileges_eq ResourceGetClient_def client_get_release
        client_lookup_def [symmetric] split: option.split)
qed

text \<open>
  Removing a client that is held: it is unlinked, the reference of the list is given back,
  and the release of the holder frees it.
\<close>

lemma unlink_first_distinct:
  assumes "distinct (map f b)" "x \<in> set b"
  shows "unlink_first (\<lambda>y. f y = f x) b = Some (remove1 x b)"
  using assms by (induction b) auto

definition drop_client :: "ptr \<Rightarrow> ptr \<Rightarrow> 'a res_state_scheme \<Rightarrow> 'a res_state_scheme" where
  "drop_client p c s = (upd_res p (\<lambda>r. r\<lparr>r_clients := remove1 c (r_clients r)\<rparr>)
     (upd_client c (\<lambda>x. x\<lparr>rc_refCount := 0\<rparr>) s))\<lparr>cl_live := cl_live s - {c}\<rparr>"

lemma upd_res_live_update [simp]:
  "(upd_res p f s)\<lparr>cl_live := L\<rparr> = upd_res p f (s\<lparr>cl_live := L\<rparr>)"
  "upd_client c g (s\<lparr>cl_live := L\<rparr>) = (upd_client c g s)\<lparr>cl_live := L\<rparr>"
  by (simp_all add: upd_res_def res_def upd_client_def)

lemma ResourceRemoveClient_unlink:
  assumes "distinct (map (\<lambda>c. rc_handle (cl_mem s c)) (r_clients (res s p)))" "c \<in> set (r_clients (res s p))"
  shows "ResourceRemoveClient p c s
    = ResourceReleaseClient c (upd_res p (\<lambda>r. r\<lparr>r_clients := remove1 c (r_clients r)\<rparr>) s)"
  using unlink_first_distinct [OF assms, unfolded res_def]
  by (simp add: ResourceRemoveClient_def Let_def upd_res_def res_def)

lemma ResourceRemoveClient_eq:
  assumes "clients_ok s p" "c \<in> set (r_clients (res s p))"
  shows "ResourceRemoveClient p c s = drop_client p c s"
proof -
  have "rc_refCount (cl_mem s c) = 1" using assms by (simp add: clients_ok_def)
  moreover have "ResourceRemoveClient p c s
      = ResourceReleaseClient c (upd_res p (\<lambda>r. r\<lparr>r_clients := remove1 c (r_clients r)\<rparr>) s)"
    using assms by (intro ResourceRemoveClient_unlink) (auto simp: clients_ok_def)
  ultimately show ?thesis
    by (simp add: ResourceReleaseClient_def Let_def drop_client_def) (simp add: upd_client_def upd_res_def res_def)
qed

lemma remove_all_privs_eq:
  assumes "clients_ok s p"
  shows "remove_all_privs p h s = (case client_lookup s p h of None \<Rightarrow> (VMCI_ERROR_INVALID_ARGS, s)
    | Some c \<Rightarrow> (VMCI_SUCCESS, drop_client p c s))"
proof (cases "client_lookup s p h")
  case None
  then show ?thesis
    by (simp add: remove_all_privs_def ResourceGetClient_def flip: client_lookup_def)
next
  case (Some c)
  let ?s1 = "upd_client c (\<lambda>x. x\<lparr>rc_refCount := rc_refCount x + 1\<rparr>) s"
  note c = client_lookup_D [OF Some]
  have ref: "rc_refCount (cl_mem s c) = 1" using assms c(1) by (simp add: clients_ok_def)
  have "(\<lambda>x. rc_handle (cl_mem ?s1 x)) = (\<lambda>x. rc_handle (cl_mem s x))" by auto
  then have "distinct (map (\<lambda>x. rc_handle (cl_mem ?s1 x)) (r_clients (res ?s1 p)))"
    using assms unfolding clients_ok_def by (simp only: upd_client_fields)
  moreover have "c \<in> set (r_clients (res ?s1 p))" using c(1) by simp
  ultimately have rem: "ResourceRemoveClient p c ?s1
      = upd_res p (\<lambda>r. r\<lparr>r_clients := remove1 c (r_clients r)\<rparr>) s"
    using ref by (subst ResourceRemoveClient_unlink)
      (simp_all add: ResourceReleaseClient_def Let_def upd_client_upd_client upd_client_id)
  have get: "ResourceGetClient p h s = (Some c, ?s1)"
    using Some by (simp add: ResourceGetClient_def flip: client_lookup_def)
  show ?thesis
    using Some ref
    by (simp add: remove_all_privs_def get rem ResourceReleaseClient_def drop_client_def)
      (simp add: upd_client_def)
qed

lemma drop_client_res [simp]:
  "r_clients (res (drop_client p c s) p) = remove1 c (r_clients (res s p))"
  "cl_live (drop_client p c s) = cl_live s - {c}"
  by (simp_all add: drop_client_def) (simp_all add: res_def upd_res_def upd_client_def)

lemma clients_ok_cong:
  assumes "clients_ok s p" "r_clients (res s' p) = r_clients (res s p)"
    "\<And>c. c \<in> set (r_clients (res s p)) \<Longrightarrow> cl_mem s' c = cl_mem s c"
    "set (r_clients (res s p)) \<inter> cl_live s \<subseteq> cl_live s'"
  shows "clients_ok s' p"
proof -
  have "map (\<lambda>c. rc_handle (cl_mem s' c)) (r_clients (res s p))
      = map (\<lambda>c. rc_handle (cl_mem s c)) (r_clients (res s p))"
    using assms(3) by auto
  with assms show ?thesis by (auto simp: clients_ok_def simp del: map_eq_conv)
qed

lemma clients_ok_drop:
  assumes "clients_ok s p"
  shows "clients_ok (drop_client p c s) p"
proof -
  let ?cs = "r_clients (res s p)"
  have d: "distinct ?cs" using assms by (auto simp: clients_ok_def dest: distinct_map [THEN iffD1])
  then have rest: "set (remove1 c ?cs) = set ?cs - {c}" by simp
  have mem: "cl_mem (drop_client p c s) x = cl_mem s x" if "x \<noteq> c" for x
    using that by (simp add: drop_client_def)
  have "map (\<lambda>x. rc_handle (cl_mem (drop_client p c s) x)) (remove1 c ?cs)
      = map (\<lambda>x. rc_handle (cl_mem s x)) (remove1 c ?cs)"
    using rest mem by auto
  moreover have "distinct (map (\<lambda>x. rc_handle (cl_mem s x)) (remove1 c ?cs))"
    using assms d by (auto simp: clients_ok_def distinct_map intro: inj_on_subset)
  ultimately have "distinct (map (\<lambda>x. rc_handle (cl_mem (drop_client p c s) x)) (remove1 c ?cs))"
    by (simp only:)
  then show ?thesis
    using assms rest mem by (simp add: clients_ok_def)
qed

text \<open>Removing all clients frees each of them and leaves none.\<close>

lemma fold_drop:
  "clients_ok s p \<Longrightarrow> r_clients (res s p) = cs \<Longrightarrow>
    fold (ResourceRemoveClient p) cs s = fold (drop_client p) cs s
    \<and> r_clients (res (fold (drop_client p) cs s) p) = []
    \<and> cl_live (fold (drop_client p) cs s) = cl_live s - set cs"
proof (induction cs arbitrary: s)
  case (Cons c cs)
  then have "ResourceRemoveClient p c s = drop_client p c s" by (intro ResourceRemoveClient_eq) auto
  with Cons.IH [of "drop_client p c s"] Cons.prems show ?case
    by (auto simp: clients_ok_drop)
qed simp

lemma remove_clients_correct:
  assumes "clients_ok s p"
  shows "r_clients (res (remove_clients p s) p) = []"
    "cl_live (remove_clients p s) = cl_live s - set (r_clients (res s p))"
  using fold_drop [OF assms refl] by (simp_all add: remove_clients_def)

section \<open>The operations on client privileges\<close>

lemma inc_ref_fields [simp]:
  "r_clients (inc_ref r) = r_clients r" "r_validPrivs (inc_ref r) = r_validPrivs r"
  "r_type (inc_ref r) = r_type r" "r_object (inc_ref r) = r_object r" "he_handle (inc_ref r) = he_handle r"
  "r_registrationCount (inc_ref r) = r_registrationCount r"
  "he_refCount (inc_ref r) = he_refCount r + 1"
  "r_containerFreeCB (inc_ref r) = r_containerFreeCB r" "r_containerObject (inc_ref r) = r_containerObject r"
  by (simp_all add: inc_ref_def)

lemma inc_ref_commute:
  assumes "\<And>r n. f (r\<lparr>he_refCount := n\<rparr>) = (f r)\<lparr>he_refCount := n\<rparr>"
    "\<And>r. he_refCount (f r) = he_refCount r"
  shows "upd_res p f (upd_res p inc_ref s) = upd_res p inc_ref (upd_res p f s)"
  using assms by (simp add: upd_res_upd_res) (simp add: upd_res_def inc_ref_def)

lemma clients_ok_inc [simp]: "clients_ok (upd_res p inc_ref s) q = clients_ok s q"
  by (simp add: clients_ok_def)

lemma client_lookup_inc [simp]: "client_lookup (upd_res p inc_ref s) q h = client_lookup s q h"
  by (simp add: client_lookup_def)

lemma ResourceAddClient_inc:
  "ResourceAddClient mem p h allow deny (upd_res p inc_ref s)
    = (fst (ResourceAddClient mem p h allow deny s),
       upd_res p inc_ref (snd (ResourceAddClient mem p h allow deny s)))"
  by (auto simp: ResourceAddClient_def Let_def upd_res_def res_def inc_ref_def split: option.split)

lemma add_privs_inc:
  "clients_ok s p \<Longrightarrow> add_privs mem p h allow deny (upd_res p inc_ref s)
    = (fst (add_privs mem p h allow deny s), upd_res p inc_ref (snd (add_privs mem p h allow deny s)))"
  by (auto simp: add_privs_eq ResourceAddClient_inc split: option.split)

lemma he_refCount_add_client [simp]:
  "he_refCount (res (snd (ResourceAddClient mem p h allow deny s)) q) = he_refCount (res s q)"
  by (auto simp: ResourceAddClient_def Let_def res_def upd_res_def split: option.split)

lemma he_refCount_add_privs [simp]:
  "clients_ok s p \<Longrightarrow> he_refCount (res (snd (add_privs mem p h allow deny s)) q) = he_refCount (res s q)"
  by (auto simp: add_privs_eq split: option.split)

lemma VMCIResource_AddClientPrivileges_eq:
  assumes "ht_inv (resourceTable s)" "\<And>p. linked (resourceTable s) p \<Longrightarrow> clients_ok s p"
  shows "VMCIResource_AddClientPrivileges cb mem rh h allow deny s =
    (if rh = VMCI_INVALID_HANDLE \<or> h = VMCI_INVALID_HANDLE \<or> allow = [] \<and> deny = []
     then (VMCI_ERROR_INVALID_ARGS, s)
     else case res_lookup s rh VMCI_RESOURCE_TYPE_ANY of None \<Rightarrow> (VMCI_ERROR_INVALID_ARGS, s)
       | Some p \<Rightarrow> add_privs mem p h allow deny s)"
proof (cases "res_lookup s rh VMCI_RESOURCE_TYPE_ANY")
  case (Some p)
  have ok: "clients_ok s p" using assms(2) res_lookup_D(2) [OF Some] .
  have "1 \<le> he_refCount (res (snd (add_privs mem p h allow deny s)) p)"
    using res_lookup_ref [OF assms(1) Some] ok by simp
  from release_after_inc [OF this] Some ok show ?thesis
    by (auto simp: VMCIResource_AddClientPrivileges_def VMCIResource_Get_eq [OF assms(1)] add_privs_inc
        split_beta less_Suc_eq)
qed (auto simp: VMCIResource_AddClientPrivileges_def VMCIResource_Get_eq [OF assms(1)] less_Suc_eq)

lemma drop_client_inc: "drop_client p c (upd_res p inc_ref s) = upd_res p inc_ref (drop_client p c s)"
  by (simp add: drop_client_def) (simp add: upd_res_def res_def inc_ref_def)

lemma VMCIResource_RemoveAllClientPrivileges_eq:
  assumes "ht_inv (resourceTable s)" "\<And>p. linked (resourceTable s) p \<Longrightarrow> clients_ok s p"
  shows "VMCIResource_RemoveAllClientPrivileges cb rh h s =
    (if rh = VMCI_INVALID_HANDLE \<or> h = VMCI_INVALID_HANDLE then (VMCI_ERROR_INVALID_ARGS, s)
     else case res_lookup s rh VMCI_RESOURCE_TYPE_ANY of None \<Rightarrow> (VMCI_ERROR_INVALID_ARGS, s)
       | Some p \<Rightarrow> (case client_lookup s p h of None \<Rightarrow> (VMCI_ERROR_INVALID_ARGS, s)
            | Some c \<Rightarrow> (VMCI_SUCCESS, drop_client p c s)))"
proof (cases "res_lookup s rh VMCI_RESOURCE_TYPE_ANY")
  case (Some p)
  have ok: "clients_ok s p" using assms(2) res_lookup_D(2) [OF Some] .
  have ref: "1 \<le> he_refCount (res s p)" using assms(1) Some by (rule res_lookup_ref)
  then have ref': "1 \<le> he_refCount (res (drop_client p c s) p)" for c
    by (simp add: drop_client_def) (simp add: res_def upd_res_def upd_client_def)
  show ?thesis
    using Some ok release_after_inc [OF ref] release_after_inc [OF ref']
    by (auto simp: VMCIResource_RemoveAllClientPrivileges_def VMCIResource_Get_eq [OF assms(1)]
        remove_all_privs_eq drop_client_inc split: option.split)
qed (auto simp: VMCIResource_RemoveAllClientPrivileges_def VMCIResource_Get_eq [OF assms(1)])


section \<open>Removing a resource\<close>

lemma drop_client_mem:
  "res (drop_client p c s) q = (if q = p then (res s p)\<lparr>r_clients := remove1 c (r_clients (res s p))\<rparr> else res s q)"
  "ht_entries (resourceTable (drop_client p c s)) = ht_entries (resourceTable s)"
  "ht_size (resourceTable (drop_client p c s)) = ht_size (resourceTable s)"
  by (simp_all add: drop_client_def) (simp_all add: res_def upd_res_def upd_client_def)

lemma fold_drop_mem:
  "res (fold (drop_client p) cs s) q
    = (if q = p then (res s p)\<lparr>r_clients := fold remove1 cs (r_clients (res s p))\<rparr> else res s q)"
  "ht_entries (resourceTable (fold (drop_client p) cs s)) = ht_entries (resourceTable s)"
  "ht_size (resourceTable (fold (drop_client p) cs s)) = ht_size (resourceTable s)"
  by (induction cs arbitrary: s) (simp_all add: drop_client_mem)

lemma fold_drop_inc:
  "fold (drop_client p) cs (upd_res p inc_ref s) = upd_res p inc_ref (fold (drop_client p) cs s)"
  by (induction cs arbitrary: s) (simp_all add: drop_client_inc)

lemma remove_clients_eq: "clients_ok s p \<Longrightarrow> remove_clients p s = fold (drop_client p) (r_clients (res s p)) s"
  by (simp add: remove_clients_def fold_drop)

lemma remove_clients_mem:
  assumes "clients_ok s p"
  shows "res (remove_clients p s) q = (if q = p then (res s p)\<lparr>r_clients := []\<rparr> else res s q)"
    "ht_handle (resourceTable (remove_clients p s)) = ht_handle (resourceTable s)"
    "ht_ref (resourceTable (remove_clients p s)) = ht_ref (resourceTable s)"
    "ht_lookup (resourceTable (remove_clients p s)) = ht_lookup (resourceTable s)"
proof -
  show r: "res (remove_clients p s) q = (if q = p then (res s p)\<lparr>r_clients := []\<rparr> else res s q)" for q
    using remove_clients_correct(1) [OF assms]
    by (simp add: remove_clients_eq [OF assms] fold_drop_mem)
  then show h: "ht_handle (resourceTable (remove_clients p s)) = ht_handle (resourceTable s)"
    and "ht_ref (resourceTable (remove_clients p s)) = ht_ref (resourceTable s)"
    by (auto simp: fun_eq_iff ht_handle_res ht_ref_res)
  show "ht_lookup (resourceTable (remove_clients p s)) = ht_lookup (resourceTable s)"
    using h by (simp add: fun_eq_iff ht_lookup_def ht_idx_def remove_clients_eq [OF assms] fold_drop_mem)
qed

lemma remove_clients_inv:
  assumes "clients_ok s p" "ht_inv (resourceTable s)"
  shows "ht_inv (resourceTable (remove_clients p s))"
proof (rule ht_inv_cong [OF assms(2)])
  show "ht_handle (resourceTable (remove_clients p s)) = ht_handle (resourceTable s)"
    using assms(1) by (rule remove_clients_mem)
  show "1 \<le> ht_ref (resourceTable (remove_clients p s)) q" if "linked (resourceTable s) q" for q
    unfolding remove_clients_mem(3) [OF assms(1)] using assms(2) that by (rule linked_ref)
qed (simp_all add: remove_clients_eq [OF assms(1)] fold_drop_mem)

lemma VMCIHashTable_RemoveEntry_mem:
  assumes "ht_inv t" "linked t e"
  shows "ht_mem (snd (VMCIHashTable_RemoveEntry t e)) = (ht_mem t)(e := (ht_mem t e)\<lparr>he_refCount := ht_ref t e - 1\<rparr>)"
proof -
  obtain r t1 where u: "HashTableUnlinkEntry t e = (r, t1)" by fastforce
  from HashTableUnlinkEntry_correct [OF assms(1), of e, unfolded u prod.case] assms(2)
  have "r = VMCI_SUCCESS" "ht_mem t1 = ht_mem t" "ht_ref t1 = ht_ref t" by (auto simp: linked_def)
  then show ?thesis by (simp add: VMCIHashTable_RemoveEntry_def u Let_def)
qed

text \<open>
  A resource that someone else still holds is taken out of the registry with its clients, and
  keeps the references of its holders.
\<close>

lemma VMCIResource_Remove_held:
  assumes inv: "ht_inv (resourceTable s)" and look: "res_lookup s h ty = Some p" and ok: "clients_ok s p"
    and held: "he_refCount (res s p) = n" "1 < n"
  shows "\<exists>t. VMCIResource_Remove cb h ty s = (remove_clients p s)\<lparr>resourceTable := t\<rparr>
    \<and> ht_inv t \<and> ht_lookup t = (ht_lookup (resourceTable s))(h := None)
    \<and> ht_mem t = (ht_mem (resourceTable s))(p := (res s p)\<lparr>r_clients := [], he_refCount := n - 1\<rparr>)"
proof -
  note l = res_lookup_D [OF look]
  let ?s2 = "upd_res p inc_ref (remove_clients p s)"
  have rem: "remove_clients p (upd_res p inc_ref s) = ?s2"
    using ok by (simp add: remove_clients_eq fold_drop_inc)
  have inv2: "ht_inv (resourceTable ?s2)" using remove_clients_inv [OF ok inv] by (intro ht_inv_upd_res) auto
  have p2: "res (remove_clients p s) p = (res s p)\<lparr>r_clients := []\<rparr>" using remove_clients_mem(1) [OF ok] by simp
  note tab = upd_res_table [where f = inc_ref and s = "remove_clients p s" and p = p, OF inc_ref_fields(5)]
  have link: "linked (resourceTable ?s2) p"
    using l(2,3) by (simp add: linked_def tab remove_clients_mem(2,4) [OF ok])
  obtain r t where t: "VMCIHashTable_RemoveEntry (resourceTable ?s2) p = (r, t)" by fastforce
  have mem2: "ht_mem (resourceTable ?s2) = (ht_mem (resourceTable s))
      (p := (res s p)\<lparr>r_clients := [], he_refCount := n + 1\<rparr>)"
  proof
    fix q
    show "ht_mem (resourceTable ?s2) q = ((ht_mem (resourceTable s))
      (p := (res s p)\<lparr>r_clients := [], he_refCount := n + 1\<rparr>)) q"
      using remove_clients_mem(1) [OF ok, of q] held(1) unfolding res_def upd_res_def
      by (cases "q = p") (simp_all add: inc_ref_def)
  qed
  have ref: "ht_ref (resourceTable ?s2) p = n + 1" unfolding ht_ref_def mem2 by simp
  have t': "ht_inv t" "ht_lookup t = (ht_lookup (resourceTable s))(h := None)"
    "ht_ref t p = n"
    using VMCIHashTable_RemoveEntry_correct [OF inv2 disjI1 [OF link]] link ref l(3)
    by (auto simp: t tab remove_clients_mem(2,4) [OF ok] ht_handle_res)
  have memt: "ht_mem t = (ht_mem (resourceTable s))(p := (res s p)\<lparr>r_clients := [], he_refCount := n\<rparr>)"
    using VMCIHashTable_RemoveEntry_mem [OF inv2 link] unfolding t ref mem2 by simp
  let ?s3 = "?s2\<lparr>resourceTable := t\<rparr>"
  have p3: "he_refCount (res ?s3 p) = n" using t'(3) by (simp add: ht_ref_res [symmetric])
  have rel: "VMCIResource_Release cb p ?s3 = (VMCI_SUCCESS, ?s3\<lparr>resourceTable := ht_set_ref p (n - 1) t\<rparr>)"
    using held(2) p3 by (subst VMCIResource_Release_eq) (auto simp: upd_res_def ht_set_ref_def res_def)
  have "VMCIResource_Remove cb h ty s = ?s3\<lparr>resourceTable := ht_set_ref p (n - 1) t\<rparr>"
    by (simp add: VMCIResource_Remove_def VMCIResource_Get_eq [OF inv] look rem t rel)
  also have "\<dots> = (remove_clients p s)\<lparr>resourceTable := ht_set_ref p (n - 1) t\<rparr>"
    by (simp add: upd_res_def)
  finally show ?thesis
    using t' held(2) memt by (intro exI [of _ "ht_set_ref p (n - 1) t"]) (auto intro!: ht_set_ref_inv)
qed


section \<open>Adding a resource\<close>

lemma res_init_entry:
  "VMCIHashTable_InitEntry (resourceTable s) p h
    = resourceTable (upd_res p (\<lambda>r. r\<lparr>he_handle := h, he_refCount := 0\<rparr>) s)"
  by (simp add: VMCIHashTable_InitEntry_def upd_res_def res_def)

lemma VMCIResource_Add_correct:
  assumes inv: "ht_inv (resourceTable s)" and free: "\<not> linked (resourceTable s) p"
    and ok: "rh \<noteq> VMCI_INVALID_HANDLE" "oh \<noteq> VMCI_INVALID_HANDLE" "privs \<noteq> []"
  shows "case VMCIResource_Add (Some c) p ty rh oh privs f ob s of (r, s') \<Rightarrow>
    ht_inv (resourceTable s') \<and>
    (if ht_lookup (resourceTable s) rh \<noteq> None
     then r = VMCI_ERROR_DUPLICATE_ENTRY \<and> ht_lookup (resourceTable s') = ht_lookup (resourceTable s)
     else r = VMCI_SUCCESS \<and> ht_lookup (resourceTable s') = (ht_lookup (resourceTable s))(rh := Some p)
        \<and> he_refCount (res s' p) = 1)
    \<and> cl_live s' = insert c (cl_live s)"
proof -
  let ?s1 = "s\<lparr>resourceTable := VMCIHashTable_InitEntry (resourceTable s) p rh\<rparr>"
  note init = VMCIHashTable_InitEntry_correct [OF inv free, of rh]
  obtain s3 where s3: "ResourceAddClient (Some c) p oh [VMCI_PRIV_CH_PRIV, VMCI_PRIV_DESTROY_RESOURCE] []
      (upd_res p (\<lambda>r. r\<lparr>r_type := ty, r_containerFreeCB := f, r_containerObject := ob, r_handle := rh,
         r_registrationCount := 0, r_validPrivs := set_privs VMCI_PRIV_VALID privs
           ((replicate VMCI_NUM_PRIVILEGES VMCI_PRIV_NOT_SET)
             [VMCI_PRIV_CH_PRIV := VMCI_PRIV_VALID, VMCI_PRIV_DESTROY_RESOURCE := VMCI_PRIV_VALID]),
         r_clients := []\<rparr>) ?s1) = (VMCI_SUCCESS, s3)"
    and live: "cl_live s3 = insert c (cl_live s)"
    and tab: "ht_entries (resourceTable s3) = ht_entries (resourceTable ?s1)"
      "ht_size (resourceTable s3) = ht_size (resourceTable ?s1)"
      "\<And>q. he_handle (res s3 q) = he_handle (res ?s1 q)" "\<And>q. he_refCount (res s3 q) = he_refCount (res ?s1 q)"
    using ok(2) by (simp add: ResourceAddClient_def Let_def res_def upd_res_def)
  have h: "ht_handle (resourceTable s3) = ht_handle (resourceTable ?s1)"
    and r: "ht_ref (resourceTable s3) = ht_ref (resourceTable ?s1)"
    using tab(3,4) by (simp_all add: fun_eq_iff ht_handle_def ht_ref_def res_def
        del: VMCIHashTable_InitEntry_mem)
  have l: "ht_lookup (resourceTable s3) = ht_lookup (resourceTable s)"
    using init(2) tab by (simp add: ht_lookup_def ht_idx_def h fun_eq_iff)
  have inv1: "ht_inv (resourceTable ?s1)" using init(1) by simp
  have inv3: "ht_inv (resourceTable s3)"
    by (rule ht_inv_cong [OF inv1 tab(1,2) h]) (simp only: r linked_ref [OF inv1])
  have ph: "ht_handle (resourceTable s3) p = rh" "ht_ref (resourceTable s3) p = 0"
    by (simp_all add: h r)
  obtain r' t' where a: "VMCIHashTable_AddEntry (resourceTable s3) p = (r', t')" by fastforce
  have res: "VMCIResource_Add (Some c) p ty rh oh privs f ob s = (r', s3\<lparr>resourceTable := t'\<rparr>)"
    using ok s3 a by (simp add: VMCIResource_Add_def less_Suc_eq)
  show ?thesis
    using VMCIHashTable_AddEntry_correct [OF inv3, of p] a ph l live
    by (auto simp: res ht_ref_res [symmetric] split: if_splits)
qed


lemma add_privs_correct:
  assumes ok: "clients_ok s p"
    and valid: "\<And>i. i \<in> set (allow @ deny) \<Longrightarrow> r_validPrivs (res s p) ! i = VMCI_PRIV_VALID"
    and h: "h \<noteq> VMCI_INVALID_HANDLE" and fresh: "c \<notin> set (r_clients (res s p))" and i: "i < VMCI_NUM_PRIVILEGES"
  shows "case add_privs (Some c) p h allow deny s of (r, s') \<Rightarrow>
    r = VMCI_SUCCESS \<and> clients_ok s' p
    \<and> priv_of s' p h i = (if i \<in> set deny then VMCI_PRIV_DENY
                         else if i \<in> set allow then VMCI_PRIV_ALLOW else priv_of s p h i)
    \<and> cl_live s' = (if client_lookup s p h = None then insert c (cl_live s) else cl_live s)
    \<and> (\<forall>q. he_refCount (res s' q) = he_refCount (res s q) \<and> r_object (res s' q) = r_object (res s q))"
proof -
  have v: "list_all (\<lambda>i. r_validPrivs (res s p) ! i = VMCI_PRIV_VALID) (allow @ deny)"
    using valid by (auto simp: list_all_iff)
  show ?thesis
  proof (cases "client_lookup s p h")
    case None
    let ?c = "\<lparr>rc_handle = h, rc_refCount = 1, rc_privilege = set_privs VMCI_PRIV_DENY deny
      (set_privs VMCI_PRIV_ALLOW allow (replicate VMCI_NUM_PRIVILEGES VMCI_PRIV_NOT_SET))\<rparr>"
    let ?s = "upd_res p (\<lambda>r. r\<lparr>r_clients := c # r_clients r\<rparr>)
      (s\<lparr>cl_mem := (cl_mem s)(c := ?c), cl_live := insert c (cl_live s)\<rparr>)"
    have e: "add_privs (Some c) p h allow deny s = (VMCI_SUCCESS, ?s)"
      using v h None by (simp add: add_privs_eq [OF ok] ResourceAddClient_def)
    have new: "h \<notin> (\<lambda>x. rc_handle (cl_mem s x)) ` set (r_clients (res s p))"
      using None by (auto simp: client_lookup_def find_None_iff)
    have same: "map (\<lambda>x. rc_handle (((cl_mem s)(c := ?c)) x)) (r_clients (res s p))
        = map (\<lambda>x. rc_handle (cl_mem s x)) (r_clients (res s p))"
      using fresh by auto
    have r: "res (s\<lparr>cl_mem := m, cl_live := l\<rparr>) = res s" for m l by (simp add: res_def fun_eq_iff)
    have "clients_ok ?s p"
      using ok fresh new same by (auto simp: clients_ok_def r simp del: map_eq_conv)
    then show ?thesis
      using None i by (simp add: e r priv_of_def client_lookup_def nth_set_privs)
  next
    case (Some d)
    let ?f = "\<lambda>x. x\<lparr>rc_privilege := set_privs VMCI_PRIV_DENY deny
      (set_privs VMCI_PRIV_ALLOW allow (rc_privilege x))\<rparr>"
    note d = client_lookup_D [OF Some]
    have e: "add_privs (Some c) p h allow deny s = (VMCI_SUCCESS, upd_client d ?f s)"
      using v Some by (simp add: add_privs_eq [OF ok])
    have same: "(\<lambda>x. rc_handle (cl_mem (upd_client d ?f s) x)) = (\<lambda>x. rc_handle (cl_mem s x))"
      by auto
    have "clients_ok (upd_client d ?f s) p"
      using ok same unfolding clients_ok_def by simp
    moreover have "client_lookup (upd_client d ?f s) p h = Some d"
    proof -
      have "(\<lambda>x. rc_handle (cl_mem (upd_client d ?f s) x) = h) = (\<lambda>x. rc_handle (cl_mem s x) = h)"
        by auto
      with Some show ?thesis unfolding client_lookup_def by (simp only: upd_client_fields)
    qed
    moreover have "length (rc_privilege (cl_mem s d)) = VMCI_NUM_PRIVILEGES"
      using ok d(1) by (simp add: clients_ok_def)
    ultimately show ?thesis
      using Some i by (simp add: e priv_of_def nth_set_privs)
  qed
qed


section \<open>Properties\<close>

text \<open>
  Granting and denying privileges: on a resource for which all of them are valid, the
  client afterwards has the denied ones denied, the others of the list allowed, and the rest
  as before; a new client is allocated only if there was none; all reference counts, of the
  resource and of its clients, are what they were.
\<close>

theorem add_client_privileges_correct:
  assumes inv: "ht_inv (resourceTable s)" "\<And>p. linked (resourceTable s) p \<Longrightarrow> clients_ok s p"
    and look: "res_lookup s rh VMCI_RESOURCE_TYPE_ANY = Some p"
    and valid: "\<And>i. i \<in> set (allow @ deny) \<Longrightarrow> r_validPrivs (res s p) ! i = VMCI_PRIV_VALID"
    and args: "rh \<noteq> VMCI_INVALID_HANDLE" "h \<noteq> VMCI_INVALID_HANDLE" "allow @ deny \<noteq> []"
    and fresh: "c \<notin> set (r_clients (res s p))" and i: "i < VMCI_NUM_PRIVILEGES"
  shows "case VMCIResource_AddClientPrivileges cb (Some c) rh h allow deny s of (r, s') \<Rightarrow>
    r = VMCI_SUCCESS \<and> clients_ok s' p
    \<and> priv_of s' p h i = (if i \<in> set deny then VMCI_PRIV_DENY
                         else if i \<in> set allow then VMCI_PRIV_ALLOW else priv_of s p h i)
    \<and> cl_live s' = (if client_lookup s p h = None then insert c (cl_live s) else cl_live s)
    \<and> he_refCount (res s' p) = he_refCount (res s p)"
proof -
  have e: "VMCIResource_AddClientPrivileges cb (Some c) rh h allow deny s = add_privs (Some c) p h allow deny s"
    using look args by (auto simp: VMCIResource_AddClientPrivileges_eq [OF inv])
  have ok: "clients_ok s p" using inv(2) res_lookup_D(2) [OF look] .
  from add_privs_correct [where allow = allow and deny = deny, OF ok valid args(2) fresh i] show ?thesis
    unfolding e by (simp add: split_beta)
qed


text \<open>A state with one datagram endpoint, handle 2:20, at address 10, and its owner client.\<close>

definition demo_resource :: VMCIResource where
  "demo_resource = \<lparr>he_handle = VMCI_MAKE_HANDLE 2 20, he_refCount = 1, r_type = VMCI_RESOURCE_TYPE_DATAGRAM,
     r_validPrivs = replicate 7 VMCI_PRIV_VALID, r_clients = [30], r_containerFreeCB = Some DatagramFreeCB_ref,
     r_containerObject = 10, r_handle = VMCI_MAKE_HANDLE 2 20, r_registrationCount = 0,
     r_object = DatagramEntry 0 (ClientRecvCB 4) 77 False 0\<rparr>"

definition demo_res :: res_state where
  "demo_res = \<lparr>ctx_list = ctx_list demo_ctx, ctx_mem = ctx_mem demo_ctx, ctx_live = ctx_live demo_ctx,
     resourceTable = \<lparr>ht_entries = [[10]], ht_size = 1, ht_mem = (\<lambda>_. demo_resource)\<rparr>,
     resourceID_counter = 1024,
     cl_mem = (\<lambda>_. \<lparr>rc_handle = VMCI_MAKE_HANDLE 2 0, rc_refCount = 1,
                    rc_privilege = replicate 7 VMCI_PRIV_NOT_SET\<rparr>),
     cl_live = {30}\<rparr>"

lemma demo_res_facts:
  "ht_inv (resourceTable demo_res)" "clients_ok demo_res p"
  "ht_lookup (resourceTable demo_res) (VMCI_MAKE_HANDLE 2 20) = Some 10"
  "res_lookup demo_res (VMCI_MAKE_HANDLE 2 20) VMCI_RESOURCE_TYPE_ANY = Some 10"
  by (simp_all add: demo_res_def ht_inv_def ht_handle_def ht_ref_def ht_idx_def VMCI_Hash_def demo_resource_def
      clients_ok_def res_def res_lookup_def ht_lookup_def)

theorem add_client_privileges_correct_witness:
  "priv_of (snd (VMCIResource_AddClientPrivileges (\<lambda>_ _ s. s) (Some 31) (VMCI_MAKE_HANDLE 2 20)
      (VMCI_MAKE_HANDLE 8 0) [4, 3] [3] demo_res)) 10 (VMCI_MAKE_HANDLE 8 0) 3 = VMCI_PRIV_DENY"
proof -
  have valid: "\<And>i. i \<in> set ([4, 3] @ [3]) \<Longrightarrow> r_validPrivs (res demo_res 10) ! i = VMCI_PRIV_VALID"
    by (auto simp: demo_res_def res_def demo_resource_def)
  have fresh: "31 \<notin> set (r_clients (res demo_res 10))"
    by (simp add: demo_res_def res_def demo_resource_def)
  show ?thesis
    using add_client_privileges_correct [OF demo_res_facts(1,2,4) valid _ _ _ fresh,
        where allow = "[4, 3]" and deny = "[3]" and h = "VMCI_MAKE_HANDLE 8 0" and i = 3 and cb = "\<lambda>_ _ s. s"]
    by (simp add: split_beta)
qed

text \<open>
  Releasing a pair of which one is null drops the last reference of the other without
  removing it: its clients stay allocated and its callback is not called, whatever it is,
  although the result says that the entry is dead.  (\<open>VMCIResource_Release\<close> and the branch
  for two resources call \<open>VMCIResourceDoRemove\<close> in that case.)
\<close>

theorem release_pair_single_leaks:
  assumes "ht_inv (resourceTable s)" "he_refCount (res s p) = 1"
  shows "\<exists>t. VMCIResource_ReleasePair cb (Some p, None) s
        = (VMCI_SUCCESS_ENTRY_DEAD, [VMCI_SUCCESS_ENTRY_DEAD, VMCI_SUCCESS], s\<lparr>resourceTable := t\<rparr>)
      \<and> ht_lookup t (he_handle (res s p)) = None
      \<and> cl_live (s\<lparr>resourceTable := t\<rparr>) = cl_live s
      \<and> VMCIResource_Release cb p s
        = (VMCI_SUCCESS_ENTRY_DEAD, VMCIResourceDoRemove cb p (s\<lparr>resourceTable := t\<rparr>))"
proof -
  obtain r t where rel: "VMCIHashTable_ReleaseEntry (resourceTable s) p = (r, t)" by fastforce
  then have "r = VMCI_SUCCESS_ENTRY_DEAD" "ht_lookup t (he_handle (res s p)) = None"
    using VMCIHashTable_ReleaseEntry_last [OF assms(1), of p] assms(2)
    by (auto simp: ht_ref_res ht_handle_res)
  with rel show ?thesis
    by (intro exI [of _ t]) (simp add: VMCIResource_ReleasePair_def VMCIResource_Release_def)
qed

theorem release_pair_single_leaks_witness:
  "\<exists>t. VMCIResource_ReleasePair (\<lambda>_ _ s. s) (Some 10, None) demo_res
     = (VMCI_SUCCESS_ENTRY_DEAD, [VMCI_SUCCESS_ENTRY_DEAD, VMCI_SUCCESS], demo_res\<lparr>resourceTable := t\<rparr>)
   \<and> cl_live (demo_res\<lparr>resourceTable := t\<rparr>) = {30}"
proof -
  have "he_refCount (res demo_res 10) = 1" by (simp add: demo_res_def res_def demo_resource_def)
  from release_pair_single_leaks [OF demo_res_facts(1) this, of "\<lambda>_ _ s. s"]
  show ?thesis by (auto simp: demo_res_def)
qed

text \<open>
  Registering a resource under a handle in use fails with \<open>DUPLICATE_ENTRY\<close> and leaves
  the registry as it was, but the owner client allocated on the way is never freed; under a
  free handle the resource is found afterwards, with the reference of the registry.
\<close>

theorem resource_add_correct:
  assumes "ht_inv (resourceTable s)" "\<not> linked (resourceTable s) p"
    and "rh \<noteq> VMCI_INVALID_HANDLE" "oh \<noteq> VMCI_INVALID_HANDLE" "privs \<noteq> []"
  shows "case VMCIResource_Add (Some c) p ty rh oh privs f ob s of (r, s') \<Rightarrow>
    ht_inv (resourceTable s') \<and>
    (if ht_lookup (resourceTable s) rh \<noteq> None
     then r = VMCI_ERROR_DUPLICATE_ENTRY \<and> ht_lookup (resourceTable s') = ht_lookup (resourceTable s)
     else r = VMCI_SUCCESS \<and> ht_lookup (resourceTable s') = (ht_lookup (resourceTable s))(rh := Some p)
        \<and> he_refCount (res s' p) = 1)
    \<and> cl_live s' = insert c (cl_live s)"
  using assms by (rule VMCIResource_Add_correct)

theorem resource_add_correct_witness:
  "fst (VMCIResource_Add (Some 31) 11 VMCI_RESOURCE_TYPE_GROUP (VMCI_MAKE_HANDLE 2 20) (VMCI_MAKE_HANDLE 2 0)
      [2] (Some GroupFreeCB_ref) 11 demo_res) = VMCI_ERROR_DUPLICATE_ENTRY
   \<and> cl_live (snd (VMCIResource_Add (Some 31) 11 VMCI_RESOURCE_TYPE_GROUP (VMCI_MAKE_HANDLE 2 20)
      (VMCI_MAKE_HANDLE 2 0) [2] (Some GroupFreeCB_ref) 11 demo_res)) = {30, 31}"
proof -
  have "\<not> linked (resourceTable demo_res) 11"
    using demo_res_facts(3) by (simp add: linked_def demo_res_def ht_handle_def demo_resource_def)
  from resource_add_correct [OF demo_res_facts(1) this, of "VMCI_MAKE_HANDLE 2 20" "VMCI_MAKE_HANDLE 2 0" "[2]"
      31 VMCI_RESOURCE_TYPE_GROUP "Some GroupFreeCB_ref" 11] demo_res_facts(3)
  show ?thesis by (auto simp: split_beta demo_res_def)
qed

end
