(* ===== verification/Event.thy ===== *)
theory Event
  imports VmciDefs "HOL-Library.Multiset"
begin

text \<open>
  \<open>vmci-only/common/vmciEvent.c\<close>: kernel clients subscribe callbacks to events; an event
  datagram for the host is delivered to all subscribers of its event.  The lists of
  subscribers, one per event, are in the order of subscription.  The effect of a callback
  lies outside of the driver, so the state records the calls made: callback, subscription id,
  the event data passed and the callback data.
\<close>

record VMCISubscription =
  sub_id :: VMCIId
  sub_event :: u32
  sub_callback :: nat
  sub_callbackData :: ptr

type_synonym event_call = "nat \<times> VMCIId \<times> u8 list \<times> ptr"

record event_state =
  subscriberArray :: "VMCISubscription list list"
  subscriptionID :: VMCIId
  event_calls :: "event_call list"

abbreviation (input) VMCI_EVENT_CTX_REMOVED :: u32 where "VMCI_EVENT_CTX_REMOVED \<equiv> 1"
abbreviation (input) VMCI_EVENT_QP_PEER_ATTACH :: u32 where "VMCI_EVENT_QP_PEER_ATTACH \<equiv> 3"
abbreviation (input) VMCI_EVENT_QP_PEER_DETACH :: u32 where "VMCI_EVENT_QP_PEER_DETACH \<equiv> 4"
abbreviation (input) VMCI_EVENT_MAX :: u32 where "VMCI_EVENT_MAX \<equiv> 5"
abbreviation (input) sizeof_VMCIEventData_Max :: nat where "sizeof_VMCIEventData_Max \<equiv> 24"
abbreviation (input) VMCI_EVENT_MAX_ATTEMPTS :: nat where "VMCI_EVENT_MAX_ATTEMPTS \<equiv> 10"

section \<open>Operations\<close>

definition VMCIEvent_Init :: event_state where
  "VMCIEvent_Init = \<lparr>subscriberArray = replicate 5 [], subscriptionID = 0, event_calls = []\<rparr>"

definition VMCIEventFind :: "event_state \<Rightarrow> VMCIId \<Rightarrow> VMCISubscription option" where
  "VMCIEventFind s subID = find (\<lambda>cur. sub_id cur = subID) (concat (subscriberArray s))"

text \<open>The first field of the event data is the number of the event.\<close>

definition event_number :: "VMCIDatagram \<Rightarrow> u32" where
  "event_number msg = (let b = (\<lambda>i. ucast (dg_payload msg ! i) :: u32)
     in b 0 OR push_bit 8 (b 1) OR push_bit 16 (b 2) OR push_bit 24 (b 3))"

definition event_payload :: "VMCIDatagram \<Rightarrow> u8 list" where
  "event_payload msg = (let n = unat (dg_payloadSize msg)
     in take n (dg_payload msg) @ replicate (sizeof_VMCIEventData_Max - n) 0)"

definition VMCIEventDeliver :: "event_state \<Rightarrow> VMCIDatagram \<Rightarrow> event_state" where
  "VMCIEventDeliver s msg =
     foldl (\<lambda>s cur. s\<lparr>event_calls := event_calls s
              @ [(sub_callback cur, sub_id cur, event_payload msg, sub_callbackData cur)]\<rparr>)
       s (subscriberArray s ! unat (event_number msg))"

definition VMCIEvent_Dispatch :: "event_state \<Rightarrow> VMCIDatagram \<Rightarrow> int \<times> event_state" where
  "VMCIEvent_Dispatch s msg =
     (if dg_payloadSize msg < 4 \<or> 24 < dg_payloadSize msg then (VMCI_ERROR_INVALID_ARGS, s)
      else if VMCI_EVENT_MAX \<le> event_number msg then (VMCI_ERROR_EVENT_UNKNOWN, s)
      else (VMCI_SUCCESS, VMCIEventDeliver s msg))"

fun new_subscription_id :: "nat \<Rightarrow> event_state \<Rightarrow> VMCIId option \<times> event_state" where
  "new_subscription_id 0 s = (None, s)"
| "new_subscription_id (Suc attempts) s =
     (let subID = subscriptionID s + 1; s1 = s\<lparr>subscriptionID := subID\<rparr>
      in if VMCIEventFind s1 subID = None then (Some subID, s1)
         else new_subscription_id attempts s1)"

definition VMCIEventRegisterSubscription ::
  "u32 \<Rightarrow> nat option \<Rightarrow> ptr \<Rightarrow> event_state \<Rightarrow> int \<times> VMCIId option \<times> event_state" where
  "VMCIEventRegisterSubscription event callback callbackData s =
     (case callback of None \<Rightarrow> (VMCI_ERROR_INVALID_ARGS, None, s)
      | Some cb \<Rightarrow>
          if VMCI_EVENT_MAX \<le> event then (VMCI_ERROR_INVALID_ARGS, None, s)
          else (case new_subscription_id VMCI_EVENT_MAX_ATTEMPTS s of
                  (None, s1) \<Rightarrow> (VMCI_ERROR_NO_RESOURCES, None, s1)
                | (Some subID, s1) \<Rightarrow>
                    let sub = \<lparr>sub_id = subID, sub_event = event, sub_callback = cb,
                               sub_callbackData = callbackData\<rparr>
                    in (VMCI_SUCCESS, Some subID,
                        s1\<lparr>subscriberArray := (subscriberArray s1)
                             [unat event := subscriberArray s1 ! unat event @ [sub]]\<rparr>)))"

definition VMCIEventUnregisterSubscription ::
  "VMCIId \<Rightarrow> event_state \<Rightarrow> VMCISubscription option \<times> event_state" where
  "VMCIEventUnregisterSubscription subID s =
     (case VMCIEventFind s subID of None \<Rightarrow> (None, s)
      | Some sub \<Rightarrow> (Some sub, s\<lparr>subscriberArray := (subscriberArray s)
          [unat (sub_event sub) := remove1 sub (subscriberArray s ! unat (sub_event sub))]\<rparr>))"

definition VMCIEventSubscribe ::
  "bool \<Rightarrow> u32 \<Rightarrow> nat option \<Rightarrow> ptr \<Rightarrow> event_state \<Rightarrow> int \<times> VMCIId option \<times> event_state" where
  "VMCIEventSubscribe avail event callback callbackData s =
     (if \<not> avail then (VMCI_ERROR_NO_MEM, None, s)
      else VMCIEventRegisterSubscription event callback callbackData s)"

definition VMCIEvent_Subscribe ::
  "bool \<Rightarrow> u32 \<Rightarrow> nat option \<Rightarrow> ptr \<Rightarrow> event_state \<Rightarrow> int \<times> VMCIId option \<times> event_state" where
  "VMCIEvent_Subscribe avail event callback callbackData s =
     VMCIEventSubscribe avail event callback callbackData s"

definition VMCIEventUnsubscribe :: "VMCIId \<Rightarrow> event_state \<Rightarrow> int \<times> event_state" where
  "VMCIEventUnsubscribe subID s =
     (case VMCIEventUnregisterSubscription subID s of
        (None, s1) \<Rightarrow> (VMCI_ERROR_NOT_FOUND, s1)
      | (Some sub, s1) \<Rightarrow> (VMCI_SUCCESS, s1))"

definition VMCIEvent_Unsubscribe :: "VMCIId \<Rightarrow> event_state \<Rightarrow> int \<times> event_state" where
  "VMCIEvent_Unsubscribe subID s = VMCIEventUnsubscribe subID s"

section \<open>Invariant and lemmas\<close>

text \<open>A subscription is on the list of its event, and the ids are different.\<close>

definition event_inv :: "event_state \<Rightarrow> bool" where
  [inv_defs]: "event_inv s \<longleftrightarrow> length (subscriberArray s) = 5
     \<and> distinct (map sub_id (concat (subscriberArray s)))
     \<and> (\<forall>e < 5. \<forall>sub \<in> set (subscriberArray s ! e). unat (sub_event sub) = e)"

lemma VMCIEvent_Init_inv [inv_intros]: "event_inv VMCIEvent_Init"
  by (simp add: event_inv_def VMCIEvent_Init_def nth_Cons' numeral_eq_Suc less_Suc_eq)

text \<open>Replacing one list of subscribers changes the subscriptions as a multiset.\<close>

lemma mset_subset_concat: "xs \<in> set xss \<Longrightarrow> mset xs \<subseteq># mset (concat xss)"
  by (induction xss) (auto intro: subset_mset.add_increasing)

lemma mset_concat_update:
  "i < length xss \<Longrightarrow> mset (concat (xss[i := ys])) = mset (concat xss) - mset (xss ! i) + mset ys"
proof (induction xss arbitrary: i)
  case (Cons xs xss)
  show ?case
  proof (cases i)
    case (Suc j)
    then have "mset (xss ! j) \<subseteq># mset (concat xss)"
      using Cons.prems by (intro mset_subset_concat) simp
    then obtain C where "mset (concat xss) = mset (xss ! j) + C"
      by (auto simp: subset_mset.le_iff_add)
    with Suc Cons show ?thesis by simp
  qed simp
qed simp


lemma distinct_count_le: "distinct xs \<longleftrightarrow> (\<forall>a. count (mset xs) a \<le> 1)"
proof
  assume "distinct xs"
  then show "\<forall>a. count (mset xs) a \<le> 1" by (simp add: distinct_count_atmost_1)
next
  assume le: "\<forall>a. count (mset xs) a \<le> 1"
  have "count (mset xs) a = (if a \<in> set xs then 1 else 0)" for a
    using le [rule_format, of a] by (auto simp: count_eq_zero_iff intro!: antisym simp: Suc_le_eq)
  then show "distinct xs" by (simp add: distinct_count_atmost_1)
qed

lemma event_inv_update:
  assumes inv: "event_inv s" and i: "i < 5"
    and ys: "\<And>sub. sub \<in> set ys \<Longrightarrow> unat (sub_event sub) = i"
    and d: "\<And>a. count (image_mset sub_id (mset (concat (subscriberArray s))
              - mset (subscriberArray s ! i) + mset ys)) a \<le> 1"
  shows "event_inv (s\<lparr>subscriberArray := (subscriberArray s)[i := ys]\<rparr>)"
proof -
  have len: "length (subscriberArray s) = 5" using inv by (simp add: event_inv_def)
  have "mset (map sub_id (concat ((subscriberArray s)[i := ys])))
      = image_mset sub_id (mset (concat (subscriberArray s)) - mset (subscriberArray s ! i) + mset ys)"
    using mset_concat_update [of i "subscriberArray s" ys] i len by simp
  then have "distinct (map sub_id (concat ((subscriberArray s)[i := ys])))"
    using d unfolding distinct_count_le by simp
  with inv i ys show ?thesis by (auto simp: event_inv_def nth_list_update)
qed

lemma VMCIEventFind_D:
  assumes "event_inv s" "VMCIEventFind s subID = Some sub"
  shows "sub_id sub = subID" "unat (sub_event sub) < 5"
    "sub \<in> set (subscriberArray s ! unat (sub_event sub))" "sub \<in> set (concat (subscriberArray s))"
proof -
  from find_Some_D [OF assms(2) [unfolded VMCIEventFind_def]]
  show id: "sub_id sub = subID" and mem: "sub \<in> set (concat (subscriberArray s))" by auto
  then obtain i where i: "i < 5" "sub \<in> set (subscriberArray s ! i)"
    using assms(1) unfolding event_inv_def by (metis UN_iff in_set_conv_nth set_concat)
  then have "unat (sub_event sub) = i" using assms(1) by (simp add: event_inv_def)
  with i show "unat (sub_event sub) < 5" "sub \<in> set (subscriberArray s ! unat (sub_event sub))" by auto
qed

lemma VMCIEventFind_None: "VMCIEventFind s subID = None \<longleftrightarrow> subID \<notin> sub_id ` set (concat (subscriberArray s))"
  by (auto simp: VMCIEventFind_def find_None_iff)

lemma new_subscription_id_correct:
  assumes "new_subscription_id n s = (x, s')"
  shows "subscriberArray s' = subscriberArray s \<and> event_calls s' = event_calls s
    \<and> (case x of None \<Rightarrow> subscriptionID s' = subscriptionID s + of_nat n
       | Some i \<Rightarrow> VMCIEventFind s i = None \<and> subscriptionID s' = i)"
  using assms
proof (induction n arbitrary: s)
  case (Suc n)
  let ?s1 = "s\<lparr>subscriptionID := subscriptionID s + 1\<rparr>"
  have find: "VMCIEventFind ?s1 = VMCIEventFind s" by (simp add: VMCIEventFind_def fun_eq_iff)
  show ?case
  proof (cases "VMCIEventFind s (subscriptionID s + 1)")
    case None
    with Suc.prems find show ?thesis by (auto simp: Let_def)
  next
    case (Some sub)
    with Suc.prems find have "new_subscription_id n ?s1 = (x, s')" by (simp add: Let_def)
    from Suc.IH [OF this] find show ?thesis by (auto split: option.splits)
  qed
qed simp

lemma subscribe_correct:
  assumes inv: "event_inv s" and "VMCIEventRegisterSubscription event (Some cb) cbd s = (r, x, s')"
  shows "event_inv s' \<and> (case x of
       None \<Rightarrow> r < 0 \<and> subscriberArray s' = subscriberArray s
     | Some i \<Rightarrow> r = VMCI_SUCCESS \<and> VMCIEventFind s i = None \<and> event < VMCI_EVENT_MAX
         \<and> subscriberArray s' = (subscriberArray s)[unat event := subscriberArray s ! unat event
             @ [\<lparr>sub_id = i, sub_event = event, sub_callback = cb, sub_callbackData = cbd\<rparr>]])"
proof (cases "VMCI_EVENT_MAX \<le> event")
  case True
  with assms show ?thesis by (simp add: VMCIEventRegisterSubscription_def)
next
  case False
  then have e: "unat event < 5" by (simp add: not_le word_less_nat_alt)
  obtain y s1 where n: "new_subscription_id VMCI_EVENT_MAX_ATTEMPTS s = (y, s1)" by fastforce
  note n' = new_subscription_id_correct [OF n]
  have inv1: "event_inv s1" using inv n' by (simp add: event_inv_def)
  show ?thesis
  proof (cases y)
    case None
    with False n n' inv1 assms(2) show ?thesis by (simp add: VMCIEventRegisterSubscription_def)
  next
    case (Some i)
    let ?sub = "\<lparr>sub_id = i, sub_event = event, sub_callback = cb, sub_callbackData = cbd\<rparr>"
    let ?ys = "subscriberArray s ! unat event @ [?sub]"
    let ?s' = "s1\<lparr>subscriberArray := (subscriberArray s1)[unat event := ?ys]\<rparr>"
    have len: "length (subscriberArray s) = 5" using inv by (simp add: event_inv_def)
    have "mset (subscriberArray s ! unat event) \<subseteq># mset (concat (subscriberArray s))"
      using e len by (intro mset_subset_concat) simp
    then have "mset (concat (subscriberArray s)) - mset (subscriberArray s ! unat event) + mset ?ys
        = add_mset ?sub (mset (concat (subscriberArray s)))"
      by simp
    moreover have "distinct (map sub_id (concat (subscriberArray s)))"
      using inv by (simp add: event_inv_def)
    moreover have "i \<notin> sub_id ` set (concat (subscriberArray s))"
      using n' Some by (simp add: VMCIEventFind_None)
    ultimately have "event_inv ?s'"
      using n' inv e by (intro event_inv_update [OF inv1 e])
        (auto simp: event_inv_def distinct_count_le count_eq_zero_iff)
    moreover have "r = VMCI_SUCCESS" "x = Some i" "s' = ?s'"
      using False n n' Some assms(2) by (auto simp: VMCIEventRegisterSubscription_def Let_def)
    moreover have "event < VMCI_EVENT_MAX" using False by simp
    ultimately show ?thesis using n' Some by simp
  qed
qed

lemma unsubscribe_correct:
  assumes inv: "event_inv s" and "VMCIEventUnsubscribe i s = (r, s')"
  shows "event_inv s' \<and> (case VMCIEventFind s i of None \<Rightarrow> r = VMCI_ERROR_NOT_FOUND \<and> s' = s
    | Some sub \<Rightarrow> r = VMCI_SUCCESS \<and> VMCIEventFind s' i = None
        \<and> mset (concat (subscriberArray s')) = mset (concat (subscriberArray s)) - {#sub#})"
proof (cases "VMCIEventFind s i")
  case None
  with assms show ?thesis
    by (simp add: VMCIEventUnsubscribe_def VMCIEventUnregisterSubscription_def)
next
  case (Some sub)
  note f = VMCIEventFind_D [OF inv Some]
  let ?e = "unat (sub_event sub)"
  let ?xs = "subscriberArray s ! ?e"
  let ?s' = "s\<lparr>subscriberArray := (subscriberArray s)[?e := remove1 sub ?xs]\<rparr>"
  have len: "?e < length (subscriberArray s)" using inv f(2) by (simp add: event_inv_def)
  have sub: "mset ?xs \<subseteq># mset (concat (subscriberArray s))" using len by (intro mset_subset_concat) simp
  have m: "mset (concat (subscriberArray s)) - mset ?xs + mset (remove1 sub ?xs)
      = mset (concat (subscriberArray s)) - {#sub#}"
    using sub f(3) by (simp add: subset_mset.diff_add_assoc2 subset_mset.add_diff_assoc2)
  have d: "count (image_mset sub_id (mset (concat (subscriberArray s)))) a \<le> 1" for a
    using inv by (simp add: event_inv_def distinct_count_le)
  have im: "image_mset sub_id (mset (concat (subscriberArray s)) - {#sub#})
      = image_mset sub_id (mset (concat (subscriberArray s))) - {#i#}"
    using f(1,4) by (simp add: image_mset_Diff)
  have ev: "unat (sub_event x) = ?e" if "x \<in> set (remove1 sub ?xs)" for x
    using notin_set_remove1 that inv f(2) by (metis event_inv_def)
  have "count (image_mset sub_id (mset (concat (subscriberArray s)) - mset ?xs + mset (remove1 sub ?xs))) a \<le> 1" for a
    unfolding m im using d [of a] by simp
  from event_inv_update [OF inv f(2) ev this] have inv': "event_inv ?s'" .
  have ms: "mset (concat (subscriberArray ?s')) = mset (concat (subscriberArray s)) - {#sub#}"
    using mset_concat_update [OF len, of "remove1 sub ?xs"] m by simp
  have "i \<notin># image_mset sub_id (mset (concat (subscriberArray ?s')))"
    unfolding ms im using d [of i] by (simp add: not_in_iff)
  then have "VMCIEventFind ?s' i = None" unfolding VMCIEventFind_None by simp
  with ms inv' Some assms(2) show ?thesis
    by (auto simp: VMCIEventUnsubscribe_def VMCIEventUnregisterSubscription_def)
qed


lemma VMCIEventDeliver_eq:
  "VMCIEventDeliver s msg = s\<lparr>event_calls := event_calls s
     @ map (\<lambda>sub. (sub_callback sub, sub_id sub, event_payload msg, sub_callbackData sub))
         (subscriberArray s ! unat (event_number msg))\<rparr>"
proof -
  have "foldl (\<lambda>s cur. s\<lparr>event_calls := event_calls s @ [f cur]\<rparr>) s subs
      = s\<lparr>event_calls := event_calls s @ map f subs\<rparr>" for f subs s
    by (induction subs arbitrary: s) auto
  from this [of "\<lambda>cur. (sub_callback cur, sub_id cur, event_payload msg, sub_callbackData cur)"]
  show ?thesis by (simp add: VMCIEventDeliver_def)
qed

lemma VMCIEvent_Dispatch_inv [inv_intros]: "event_inv s \<Longrightarrow> event_inv (snd (VMCIEvent_Dispatch s msg))"
  by (simp add: VMCIEvent_Dispatch_def VMCIEventDeliver_eq event_inv_def)

section \<open>Properties\<close>

text \<open>
  Subscribing keeps the subscriptions well formed: the id handed out was not in use (the
  32-bit counter may wrap, and up to ten ids are tried), the new subscription is the last of
  its event, and unsubscribing with this id removes exactly this subscription.
\<close>

theorem subscribe_unsubscribe:
  assumes "event_inv s" "VMCIEvent_Subscribe avail event (Some cb) cbd s = (r, Some i, s1)"
    and "VMCIEvent_Unsubscribe i s1 = (r2, s2)"
  shows "r = VMCI_SUCCESS \<and> r2 = VMCI_SUCCESS \<and> event_inv s1 \<and> event_inv s2 \<and> VMCIEventFind s i = None
    \<and> VMCIEventFind s1 i = Some \<lparr>sub_id = i, sub_event = event, sub_callback = cb, sub_callbackData = cbd\<rparr>
    \<and> mset (concat (subscriberArray s2)) = mset (concat (subscriberArray s))"
proof -
  let ?sub = "\<lparr>sub_id = i, sub_event = event, sub_callback = cb, sub_callbackData = cbd\<rparr>"
  let ?xs = "subscriberArray s ! unat event"
  have "VMCIEventRegisterSubscription event (Some cb) cbd s = (r, Some i, s1)"
    using assms(2) by (simp add: VMCIEvent_Subscribe_def VMCIEventSubscribe_def split: if_splits)
  note sub = subscribe_correct [OF assms(1) this, simplified]
  then have len: "unat event < length (subscriberArray s)"
    using assms(1) by (simp add: event_inv_def word_less_nat_alt)
  have "mset ?xs \<subseteq># mset (concat (subscriberArray s))" using len by (intro mset_subset_concat) simp
  then have m: "mset (concat (subscriberArray s1)) = add_mset ?sub (mset (concat (subscriberArray s)))"
    using mset_concat_update [OF len, of "?xs @ [?sub]"] sub by simp
  then have "?sub \<in># mset (concat (subscriberArray s1))" by simp
  then have mem: "?sub \<in> set (concat (subscriberArray s1))" by (metis set_mset_mset)
  have find: "VMCIEventFind s1 i = Some ?sub"
    unfolding VMCIEventFind_def
  proof (rule find_unique [OF mem])
    fix y assume y: "y \<in> set (concat (subscriberArray s1))" "sub_id y = i"
    have "event_inv s1" using sub by simp
    then have "inj_on sub_id (set (concat (subscriberArray s1)))"
      by (simp add: event_inv_def distinct_map)
    from inj_onD [OF this _ y(1) mem] y(2) show "y = ?sub" by simp
  qed simp
  from unsubscribe_correct [OF conjunct1 [OF sub], of i r2 s2] assms(3) find m sub
  show ?thesis by (simp add: VMCIEvent_Unsubscribe_def)
qed

theorem subscribe_unsubscribe_witness:
  "\<exists>s1 s2. VMCIEvent_Subscribe True VMCI_EVENT_CTX_REMOVED (Some 7) 9 VMCIEvent_Init = (VMCI_SUCCESS, Some 1, s1)
     \<and> VMCIEvent_Unsubscribe 1 s1 = (VMCI_SUCCESS, s2) \<and> event_inv s2"
proof -
  have n: "new_subscription_id 10 VMCIEvent_Init = (Some 1, VMCIEvent_Init\<lparr>subscriptionID := 1\<rparr>)"
    using new_subscription_id.simps(2) [of 9 VMCIEvent_Init]
    by (simp add: VMCIEvent_Init_def VMCIEventFind_def Let_def)
  obtain s1 where s1: "VMCIEvent_Subscribe True VMCI_EVENT_CTX_REMOVED (Some 7) 9 VMCIEvent_Init
      = (VMCI_SUCCESS, Some 1, s1)"
    by (simp add: VMCIEvent_Subscribe_def VMCIEventSubscribe_def VMCIEventRegisterSubscription_def n Let_def
        word_le_nat_alt)
  obtain r2 s2 where s2: "VMCIEvent_Unsubscribe 1 s1 = (r2, s2)" by fastforce
  from subscribe_unsubscribe [OF VMCIEvent_Init_inv s1 s2] s1 s2 show ?thesis by auto
qed

text \<open>
  An event datagram for the host is checked (its payload holds an event number and fits
  the largest event, the number is known) and then every subscriber of the event, and nobody
  else, is called once, in the order of subscription, with its own id and data and the 24
  bytes of event data, zero after the payload.
\<close>

theorem event_dispatch_delivers:
  "VMCIEvent_Dispatch s msg =
    (if unat (dg_payloadSize msg) < 4 \<or> 24 < unat (dg_payloadSize msg) then (VMCI_ERROR_INVALID_ARGS, s)
     else if 5 \<le> unat (event_number msg) then (VMCI_ERROR_EVENT_UNKNOWN, s)
     else (VMCI_SUCCESS, s\<lparr>event_calls := event_calls s
       @ map (\<lambda>sub. (sub_callback sub, sub_id sub,
             take (unat (dg_payloadSize msg)) (dg_payload msg) @ replicate (24 - unat (dg_payloadSize msg)) 0,
             sub_callbackData sub)) (subscriberArray s ! unat (event_number msg))\<rparr>))"
  by (simp add: VMCIEvent_Dispatch_def VMCIEventDeliver_eq event_payload_def Let_def word_less_nat_alt word_le_nat_alt)

end
