(* ===== verification/Datagram.thy ===== *)
theory Datagram
  imports Resource Event
begin

text \<open>
  \<open>vmci-only/common/vmciDatagram.c\<close>: datagram endpoints of the host (resources of type
  datagram), the table of well-known ids, the queues of host processes that read datagrams,
  and the routing of datagrams between contexts.

  The state extends that of the resources.  \<open>wk_live\<close>, \<open>dgp_live\<close> and \<open>obj_live\<close> are the
  well-known mappings, process queues and containers allocated and not yet freed.  Calls of
  code of later theories, and of receive callbacks, go through an environment record.
\<close>

record wk_mapping = VMCIHashEntry +
  wk_contextID :: VMCIId

record VMCIDatagramProcess =
  dp_handle :: VMCIHandle
  dp_wakeUps :: nat
  dp_pendingDatagrams :: u32
  dp_datagramQueueSize :: u64
  dp_datagramQueue :: "DatagramQueueEntry list"

record dg_state = res_state +
  events :: event_state
  wellKnownTable :: "wk_mapping VMCIHashTable"
  wk_live :: "ptr set"
  dgp_mem :: "ptr \<Rightarrow> VMCIDatagramProcess"
  dgp_live :: "ptr set"
  obj_live :: "ptr set"

record 's env =
  env_free :: "ptr \<Rightarrow> 's \<Rightarrow> 's" \<comment> \<open>\<open>VMCIContextFreeContext\<close>\<close>
  env_cb :: "free_cb \<Rightarrow> ptr \<Rightarrow> 's \<Rightarrow> 's" \<comment> \<open>the free callbacks of containers\<close>
  env_recv :: "recv_cb \<Rightarrow> ptr \<Rightarrow> VMCIDatagram \<Rightarrow> 's \<Rightarrow> int \<times> 's" \<comment> \<open>the receive callbacks\<close>

abbreviation (input) VMCI_FLAG_WELLKNOWN_DG_HND :: u32 where "VMCI_FLAG_WELLKNOWN_DG_HND \<equiv> 1"

section \<open>Well-known ids\<close>

definition VMCIDatagram_Init :: "bool \<Rightarrow> bool \<Rightarrow> 'a dg_state_scheme \<Rightarrow> int \<times> 'a dg_state_scheme" where
  "VMCIDatagram_Init avail1 avail2 s =
     (case VMCIHashTable_Create avail1 avail2 32 (ht_mem (wellKnownTable s)) of
        None \<Rightarrow> (VMCI_ERROR_NO_RESOURCES, s)
      | Some t \<Rightarrow> (VMCI_SUCCESS, s\<lparr>wellKnownTable := t\<rparr>))"

definition VMCIDatagram_Exit :: "'a dg_state_scheme \<Rightarrow> 'a dg_state_scheme" where
  "VMCIDatagram_Exit s = s\<lparr>wellKnownTable := VMCIHashTable_Destroy (wellKnownTable s)\<rparr>"

definition wk_handle :: "VMCIId \<Rightarrow> VMCIHandle" where
  "wk_handle wellKnownID = VMCI_MAKE_HANDLE VMCI_WELL_KNOWN_CONTEXT_ID wellKnownID"

definition wk_map :: "'a dg_state_scheme \<Rightarrow> ptr \<Rightarrow> wk_mapping" where
  "wk_map s p = ht_mem (wellKnownTable s) p"

definition DatagramGetWellKnownMap ::
  "VMCIId \<Rightarrow> 'a dg_state_scheme \<Rightarrow> ptr option \<times> 'a dg_state_scheme" where
  "DatagramGetWellKnownMap wellKnownID s =
     (let (entry, t) = VMCIHashTable_GetEntry (wellKnownTable s) (wk_handle wellKnownID)
      in (entry, s\<lparr>wellKnownTable := t\<rparr>))"

definition DatagramReleaseWellKnownMap :: "ptr \<Rightarrow> 'a dg_state_scheme \<Rightarrow> 'a dg_state_scheme" where
  "DatagramReleaseWellKnownMap p s =
     (let (r, t) = VMCIHashTable_ReleaseEntry (wellKnownTable s) p; s1 = s\<lparr>wellKnownTable := t\<rparr>
      in if r = VMCI_SUCCESS_ENTRY_DEAD then s1\<lparr>wk_live := wk_live s - {p}\<rparr> else s1)"

text \<open>\<open>mem\<close>: the address allocated for the mapping; \<open>avail\<close>: the growth of the context's array.\<close>

definition VMCIDatagramRequestWellKnownMap ::
  "'a dg_state_scheme env \<Rightarrow> ptr option \<Rightarrow> bool \<Rightarrow> VMCIId \<Rightarrow> VMCIId \<Rightarrow> VMCIPrivilegeFlags
    \<Rightarrow> 'a dg_state_scheme \<Rightarrow> int \<times> 'a dg_state_scheme" where
  "VMCIDatagramRequestWellKnownMap E mem avail wellKnownID contextID privFlags s =
     (if privFlags AND VMCI_PRIVILEGE_FLAG_RESTRICTED \<noteq> 0
         \<or> \<not> VMCIWellKnownID_AllowMap wellKnownID privFlags then (VMCI_ERROR_NO_ACCESS, s)
      else case mem of None \<Rightarrow> (VMCI_ERROR_NO_MEM, s)
      | Some p \<Rightarrow>
          let t1 = VMCIHashTable_InitEntry (wellKnownTable s) p (wk_handle wellKnownID);
              t2 = t1\<lparr>ht_mem := (ht_mem t1)(p := (ht_mem t1 p)\<lparr>wk_contextID := contextID\<rparr>)\<rparr>;
              (result, t3) = VMCIHashTable_AddEntry t2 p;
              s1 = s\<lparr>wellKnownTable := t3, wk_live := insert p (wk_live s)\<rparr>
          in if result \<noteq> VMCI_SUCCESS then (result, s1\<lparr>wk_live := wk_live s1 - {p}\<rparr>)
             else let (result, s2) = VMCIContext_AddWellKnown (env_free E) avail contextID wellKnownID s1
                  in if result < VMCI_SUCCESS
                     then (result, s2\<lparr>wellKnownTable := snd (VMCIHashTable_RemoveEntry (wellKnownTable s2) p),
                                      wk_live := wk_live s2 - {p}\<rparr>)
                     else (result, s2))"

definition VMCIDatagramRemoveWellKnownMap ::
  "'a dg_state_scheme env \<Rightarrow> VMCIId \<Rightarrow> VMCIId \<Rightarrow> 'a dg_state_scheme \<Rightarrow> int \<times> 'a dg_state_scheme" where
  "VMCIDatagramRemoveWellKnownMap E wellKnownID contextID s =
     (case DatagramGetWellKnownMap wellKnownID s of
        (None, s1) \<Rightarrow> (VMCI_ERROR_NOT_FOUND, s1)
      | (Some p, s1) \<Rightarrow>
          if contextID = wk_contextID (wk_map s1 p) then
            let s2 = s1\<lparr>wellKnownTable := snd (VMCIHashTable_RemoveEntry (wellKnownTable s1) p)\<rparr>;
                s3 = snd (VMCIContext_RemoveWellKnown (env_free E) contextID wellKnownID s2)
            in (VMCI_SUCCESS, DatagramReleaseWellKnownMap p s3)
          else (VMCI_ERROR_NO_ACCESS, DatagramReleaseWellKnownMap p s1))"

section \<open>Endpoints\<close>

text \<open>\<open>unreg\<close> is \<open>VMCIDs_UnregisterResource\<close> of the discovery service.\<close>

definition DatagramFreeCB ::
  "(ptr \<Rightarrow> 'a dg_state_scheme \<Rightarrow> 'a dg_state_scheme) \<Rightarrow> ptr \<Rightarrow> 'a dg_state_scheme \<Rightarrow> 'a dg_state_scheme" where
  "DatagramFreeCB unreg p s =
     (let s1 = (if r_registrationCount (res s p) \<noteq> 0 then unreg p s else s)
      in upd_res p (\<lambda>r. r\<lparr>r_object := (case r_object r of
            DatagramEntry fl cb cd _ pf \<Rightarrow> DatagramEntry fl cb cd True pf | ob \<Rightarrow> ob)\<rparr>) s1)"

definition DatagramReleaseCB :: "'a dg_state_scheme env \<Rightarrow> ptr \<Rightarrow> 'a dg_state_scheme \<Rightarrow> 'a dg_state_scheme" where
  "DatagramReleaseCB E p s = snd (VMCIResource_Release (env_cb E) p s)"

record dg_alloc =
  al_wk :: "ptr option" \<comment> \<open>the well-known mapping\<close>
  al_array :: bool \<comment> \<open>the growth of the context's array\<close>
  al_entry :: "ptr option" \<comment> \<open>the endpoint\<close>
  al_client :: "ptr option" \<comment> \<open>its owner client\<close>

text \<open>\<open>None\<close>: the driver panics since no resource id is left.\<close>

definition DatagramCreateHnd ::
  "'a dg_state_scheme env \<Rightarrow> dg_alloc \<Rightarrow> VMCIId \<Rightarrow> u32 \<Rightarrow> VMCIPrivilegeFlags \<Rightarrow> recv_cb \<Rightarrow> ptr
    \<Rightarrow> 'a dg_state_scheme \<Rightarrow> (int \<times> VMCIHandle option \<times> 'a dg_state_scheme) option" where
  "DatagramCreateHnd E A resourceID flags privFlags recvCB clientData s =
     (case (if flags AND VMCI_FLAG_WELLKNOWN_DG_HND \<noteq> 0 then
              if resourceID = VMCI_INVALID_ID then Some (Inl (VMCI_ERROR_INVALID_ARGS, s))
              else let (result, s1) = VMCIDatagramRequestWellKnownMap E (al_wk A) (al_array A)
                         resourceID VMCI_HOST_CONTEXT_ID privFlags s
                   in if result < VMCI_SUCCESS then Some (Inl (result, s1))
                      else Some (Inr (VMCI_MAKE_HANDLE VMCI_WELL_KNOWN_CONTEXT_ID resourceID, s1))
            else if resourceID = VMCI_INVALID_ID then
              map_option (\<lambda>(rid, s1). Inr (VMCI_MAKE_HANDLE VMCI_HOST_CONTEXT_ID rid, s1)) (VMCIResource_GetID s)
            else Some (Inr (VMCI_MAKE_HANDLE VMCI_HOST_CONTEXT_ID resourceID, s))) of
        None \<Rightarrow> None
      | Some (Inl (result, s1)) \<Rightarrow> Some (result, None, s1)
      | Some (Inr (handle, s1)) \<Rightarrow>
          (case al_entry A of
             None \<Rightarrow> Some (VMCI_ERROR_NO_MEM, None, s1)
           | Some p \<Rightarrow>
               let s2 = upd_res p (\<lambda>r. r\<lparr>r_object := DatagramEntry flags recvCB clientData False privFlags\<rparr>)
                          (s1\<lparr>obj_live := insert p (obj_live s1)\<rparr>);
                   (result, s3) = VMCIResource_Add (al_client A) p VMCI_RESOURCE_TYPE_DATAGRAM handle
                     (VMCI_MAKE_HANDLE (hcontext handle) VMCI_CONTEXT_RESOURCE_ID) [VMCI_PRIV_DG_SEND]
                     (Some DatagramFreeCB_ref) p s2
               in if result \<noteq> VMCI_SUCCESS then Some (result, None, s3\<lparr>obj_live := obj_live s3 - {p}\<rparr>)
                  else Some (VMCI_SUCCESS, Some handle, s3)))"

definition VMCIDatagramCreateHndInt ::
  "'a dg_state_scheme env \<Rightarrow> dg_alloc \<Rightarrow> VMCIId \<Rightarrow> u32 \<Rightarrow> recv_cb option \<Rightarrow> ptr
    \<Rightarrow> 'a dg_state_scheme \<Rightarrow> (int \<times> VMCIHandle option \<times> 'a dg_state_scheme) option" where
  "VMCIDatagramCreateHndInt E A resourceID flags recvCB clientData s =
     (case recvCB of None \<Rightarrow> Some (VMCI_ERROR_INVALID_ARGS, None, s)
      | Some cb \<Rightarrow> DatagramCreateHnd E A resourceID flags VMCI_DEFAULT_PROC_PRIVILEGE_FLAGS cb clientData s)"

definition VMCIDatagram_CreateHnd ::
  "'a dg_state_scheme env \<Rightarrow> dg_alloc \<Rightarrow> VMCIId \<Rightarrow> u32 \<Rightarrow> recv_cb option \<Rightarrow> ptr
    \<Rightarrow> 'a dg_state_scheme \<Rightarrow> (int \<times> VMCIHandle option \<times> 'a dg_state_scheme) option" where
  "VMCIDatagram_CreateHnd E A resourceID flags recvCB clientData s =
     VMCIDatagramCreateHndInt E A resourceID flags recvCB clientData s"

definition VMCIDatagramCreateHndPriv ::
  "'a dg_state_scheme env \<Rightarrow> dg_alloc \<Rightarrow> VMCIId \<Rightarrow> u32 \<Rightarrow> VMCIPrivilegeFlags \<Rightarrow> recv_cb option \<Rightarrow> ptr
    \<Rightarrow> 'a dg_state_scheme \<Rightarrow> (int \<times> VMCIHandle option \<times> 'a dg_state_scheme) option" where
  "VMCIDatagramCreateHndPriv E A resourceID flags privFlags recvCB clientData s =
     (case recvCB of None \<Rightarrow> Some (VMCI_ERROR_INVALID_ARGS, None, s)
      | Some cb \<Rightarrow>
          if privFlags AND NOT VMCI_PRIVILEGE_ALL_FLAGS \<noteq> 0 then Some (VMCI_ERROR_INVALID_ARGS, None, s)
          else DatagramCreateHnd E A resourceID flags privFlags cb clientData s)"

definition VMCIDatagram_CreateHndPriv ::
  "'a dg_state_scheme env \<Rightarrow> dg_alloc \<Rightarrow> VMCIId \<Rightarrow> u32 \<Rightarrow> VMCIPrivilegeFlags \<Rightarrow> recv_cb option \<Rightarrow> ptr
    \<Rightarrow> 'a dg_state_scheme \<Rightarrow> (int \<times> VMCIHandle option \<times> 'a dg_state_scheme) option" where
  "VMCIDatagram_CreateHndPriv E A resourceID flags privFlags recvCB clientData s =
     VMCIDatagramCreateHndPriv E A resourceID flags privFlags recvCB clientData s"

definition signalled :: "container \<Rightarrow> bool" where
  "signalled ob = (case ob of DatagramEntry _ _ _ sg _ \<Rightarrow> sg | _ \<Rightarrow> False)"

definition entry_flags :: "container \<Rightarrow> u32" where
  "entry_flags ob = (case ob of DatagramEntry fl _ _ _ _ \<Rightarrow> fl | _ \<Rightarrow> 0)"

text \<open>
  \<open>VMCI_WaitOnEvent\<close> queues the thread on the event, runs \<open>DatagramReleaseCB\<close>, and sleeps
  until the event is signalled or a signal for the process arrives (\<open>interrupted\<close>); the code
  does not tell the two apart.  \<open>None\<close>: the thread sleeps until another thread acts.
\<close>

definition VMCIDatagramDestroyHndInt ::
  "'a dg_state_scheme env \<Rightarrow> bool \<Rightarrow> VMCIHandle \<Rightarrow> 'a dg_state_scheme \<Rightarrow> (int \<times> 'a dg_state_scheme) option" where
  "VMCIDatagramDestroyHndInt E interrupted handle s =
     (case VMCIResource_Get handle VMCI_RESOURCE_TYPE_DATAGRAM s of
        (None, s1) \<Rightarrow> Some (VMCI_ERROR_NOT_FOUND, s1)
      | (Some p, s1) \<Rightarrow>
          let s2 = VMCIResource_Remove (env_cb E) handle VMCI_RESOURCE_TYPE_DATAGRAM s1;
              s3 = DatagramReleaseCB E p s2
          in if \<not> signalled (r_object (res s3 p)) \<and> \<not> interrupted then None
             else let s4 = (if entry_flags (r_object (res s3 p)) AND VMCI_FLAG_WELLKNOWN_DG_HND \<noteq> 0
                            then snd (VMCIDatagramRemoveWellKnownMap E (hresource handle) VMCI_HOST_CONTEXT_ID s3)
                            else s3)
                  in Some (VMCI_SUCCESS, s4\<lparr>obj_live := obj_live s4 - {p}\<rparr>))"

definition VMCIDatagram_DestroyHnd ::
  "'a dg_state_scheme env \<Rightarrow> bool \<Rightarrow> VMCIHandle \<Rightarrow> 'a dg_state_scheme \<Rightarrow> (int \<times> 'a dg_state_scheme) option" where
  "VMCIDatagram_DestroyHnd E interrupted handle s = VMCIDatagramDestroyHndInt E interrupted handle s"

section \<open>Routing\<close>

definition entry_privFlags :: "container \<Rightarrow> VMCIPrivilegeFlags" where
  "entry_privFlags ob = (case ob of DatagramEntry _ _ _ _ pf \<Rightarrow> pf | _ \<Rightarrow> 0)"

definition VMCIDatagramGetPrivFlagsInt ::
  "'a dg_state_scheme env \<Rightarrow> VMCIId \<Rightarrow> VMCIHandle \<Rightarrow> 'a dg_state_scheme
    \<Rightarrow> int \<times> VMCIPrivilegeFlags option \<times> 'a dg_state_scheme" where
  "VMCIDatagramGetPrivFlagsInt E contextID handle s =
     (if contextID = VMCI_HOST_CONTEXT_ID then
        (case VMCIResource_Get handle VMCI_RESOURCE_TYPE_DATAGRAM s of
           (None, s1) \<Rightarrow> (VMCI_ERROR_INVALID_ARGS, None, s1)
         | (Some p, s1) \<Rightarrow> (VMCI_SUCCESS, Some (entry_privFlags (r_object (res s1 p))),
                            snd (VMCIResource_Release (env_cb E) p s1)))
      else if contextID = VMCI_HYPERVISOR_CONTEXT_ID then (VMCI_SUCCESS, Some VMCI_MAX_PRIVILEGE_FLAGS, s)
      else let (flags, s1) = VMCIContext_GetPrivFlagsInt (env_free E) contextID s
           in (VMCI_SUCCESS, Some flags, s1))"

definition VMCIDatagram_GetPrivFlags ::
  "'a dg_state_scheme env \<Rightarrow> VMCIHandle \<Rightarrow> 'a dg_state_scheme
    \<Rightarrow> int \<times> VMCIPrivilegeFlags option \<times> 'a dg_state_scheme" where
  "VMCIDatagram_GetPrivFlags E handle s =
     (if hcontext handle = VMCI_INVALID_ID then (VMCI_ERROR_INVALID_ARGS, None, s)
      else VMCIDatagramGetPrivFlagsInt E (hcontext handle) handle s)"

text \<open>The check that the sending context owns the source handle: \<open>Some e\<close> is a refusal.\<close>

definition check_source ::
  "VMCIId \<Rightarrow> VMCIDatagram \<Rightarrow> 'a dg_state_scheme \<Rightarrow> int option \<times> 'a dg_state_scheme" where
  "check_source contextID dg s =
     (if hcontext (dg_src dg) = contextID then (None, s)
      else if hcontext (dg_src dg) = VMCI_WELL_KNOWN_CONTEXT_ID then
        (case DatagramGetWellKnownMap (hresource (dg_src dg)) s of
           (None, s1) \<Rightarrow> (Some VMCI_ERROR_INVALID_RESOURCE, s1)
         | (Some p, s1) \<Rightarrow>
             if wk_contextID (wk_map s1 p) \<noteq> contextID
             then (Some VMCI_ERROR_NO_ACCESS, DatagramReleaseWellKnownMap p s1)
             else (None, DatagramReleaseWellKnownMap p s1))
      else (Some VMCI_ERROR_NO_ACCESS, s))"

text \<open>The context a datagram goes to, or \<open>None\<close> for a well-known id without a mapping.\<close>

definition dst_context :: "VMCIDatagram \<Rightarrow> 'a dg_state_scheme \<Rightarrow> VMCIId option \<times> 'a dg_state_scheme" where
  "dst_context dg s =
     (if hcontext (dg_dst dg) = VMCI_WELL_KNOWN_CONTEXT_ID then
        (case DatagramGetWellKnownMap (hresource (dg_dst dg)) s of
           (None, s1) \<Rightarrow> (None, s1)
         | (Some p, s1) \<Rightarrow> (Some (wk_contextID (wk_map s1 p)), DatagramReleaseWellKnownMap p s1))
      else (Some (hcontext (dg_dst dg)), s))"

definition deliver_host ::
  "'a dg_state_scheme env \<Rightarrow> VMCIDatagram \<Rightarrow> VMCIPrivilegeFlags \<Rightarrow> 'a dg_state_scheme
    \<Rightarrow> int \<times> 'a dg_state_scheme" where
  "deliver_host E dg srcPrivFlags s =
     (if hcontext (dg_src dg) = VMCI_HYPERVISOR_CONTEXT_ID \<and> hresource (dg_dst dg) = VMCI_EVENT_HANDLER
      then let (r, ev) = VMCIEvent_Dispatch (events s) dg in (r, s\<lparr>events := ev\<rparr>)
      else case VMCIResource_Get (dg_dst dg) VMCI_RESOURCE_TYPE_DATAGRAM s of
        (None, s1) \<Rightarrow> (VMCI_ERROR_INVALID_ARGS, s1)
      | (Some p, s1) \<Rightarrow>
          if VMCIDenyInteraction srcPrivFlags (entry_privFlags (r_object (res s1 p)))
          then (VMCI_ERROR_NO_ACCESS, snd (VMCIResource_Release (env_cb E) p s1))
          else let (retval, s2) = (case r_object (res s1 p) of
                      DatagramEntry _ cb cd _ _ \<Rightarrow> env_recv E cb cd dg s1 | _ \<Rightarrow> (VMCI_SUCCESS, s1));
                   s3 = snd (VMCIResource_Release (env_cb E) p s2)
               in if retval < VMCI_SUCCESS then (retval, s3)
                  else (sint (ucast (VMCI_DG_SIZE dg) :: u32), s3))"

text \<open>\<open>new\<close> and \<open>dq\<close>: whether the copy and its queue entry can be allocated.\<close>

definition deliver_context ::
  "'a dg_state_scheme env \<Rightarrow> bool \<Rightarrow> bool \<Rightarrow> VMCIId \<Rightarrow> VMCIId \<Rightarrow> VMCIDatagram \<Rightarrow> VMCIPrivilegeFlags
    \<Rightarrow> 'a dg_state_scheme \<Rightarrow> int \<times> 'a dg_state_scheme" where
  "deliver_context E new dq contextID dstContext dg srcPrivFlags s =
     (let (denied, s1) = (if contextID \<noteq> dstContext
              then let (f, s1) = VMCIContext_GetPrivFlagsInt (env_free E) dstContext s
                   in (VMCIDenyInteraction srcPrivFlags f, s1)
              else (False, s))
      in if denied then (VMCI_ERROR_NO_ACCESS, s1)
         else if \<not> VMCI_AllocKernelMem new (unat (VMCI_DG_SIZE dg)) then (VMCI_ERROR_NO_MEM, s1)
         else let (retval, s2) = VMCIContext_EnqueueDatagram (env_free E) dq dstContext dg s1
              in if retval < VMCI_SUCCESS then (retval, s2)
                 else (sint (ucast (VMCI_DG_SIZE dg) :: u32), s2))"

definition VMCIDatagram_Dispatch ::
  "'a dg_state_scheme env \<Rightarrow> bool \<Rightarrow> bool \<Rightarrow> VMCIId \<Rightarrow> VMCIDatagram \<Rightarrow> 'a dg_state_scheme
    \<Rightarrow> int \<times> 'a dg_state_scheme" where
  "VMCIDatagram_Dispatch E new dq contextID dg s =
     (if VMCI_MAX_DG_SIZE < VMCI_DG_SIZE dg then (VMCI_ERROR_INVALID_ARGS, s)
      else if contextID = VMCI_HOST_CONTEXT_ID \<and> hcontext (dg_dst dg) = VMCI_HYPERVISOR_CONTEXT_ID
      then (VMCI_ERROR_DST_UNREACHABLE, s)
      else case check_source contextID dg s of
        (Some e, s1) \<Rightarrow> (e, s1)
      | (None, s1) \<Rightarrow>
          (case dst_context dg s1 of
             (None, s2) \<Rightarrow> (VMCI_ERROR_DST_UNREACHABLE, s2)
           | (Some dstContext, s2) \<Rightarrow>
               (case VMCIDatagramGetPrivFlagsInt E contextID (dg_src dg) s2 of
                  (retval, None, s3) \<Rightarrow> (retval, s3)
                | (retval, Some srcPrivFlags, s3) \<Rightarrow>
                    if retval \<noteq> VMCI_SUCCESS then (retval, s3)
                    else if dstContext = VMCI_HOST_CONTEXT_ID then deliver_host E dg srcPrivFlags s3
                    else deliver_context E new dq contextID dstContext dg srcPrivFlags s3)))"

definition VMCIDatagramSendInt ::
  "'a dg_state_scheme env \<Rightarrow> bool \<Rightarrow> bool \<Rightarrow> VMCIDatagram option \<Rightarrow> 'a dg_state_scheme
    \<Rightarrow> int \<times> 'a dg_state_scheme" where
  "VMCIDatagramSendInt E new dq msg s =
     (case msg of None \<Rightarrow> (VMCI_ERROR_INVALID_ARGS, s)
      | Some dg \<Rightarrow> if hcontext (dg_dst dg) = VMCI_HYPERVISOR_CONTEXT_ID then (VMCI_ERROR_DST_UNREACHABLE, s)
                   else VMCIDatagram_Dispatch E new dq VMCI_HOST_CONTEXT_ID dg s)"

definition VMCIDatagram_Send ::
  "'a dg_state_scheme env \<Rightarrow> bool \<Rightarrow> bool \<Rightarrow> VMCIDatagram option \<Rightarrow> 'a dg_state_scheme
    \<Rightarrow> int \<times> 'a dg_state_scheme" where
  "VMCIDatagram_Send E new dq msg s = VMCIDatagramSendInt E new dq msg s"

section \<open>Queues of host processes\<close>

definition DatagramProcessNotifyCB ::
  "bool \<Rightarrow> bool \<Rightarrow> VMCIDatagram \<Rightarrow> VMCIDatagramProcess \<Rightarrow> int \<times> VMCIDatagramProcess" where
  "DatagramProcessNotifyCB avail1 avail2 msg c =
     (let dgmSize = VMCI_DG_SIZE msg
      in if \<not> VMCI_AllocKernelMem avail1 (unat dgmSize) then (VMCI_ERROR_NO_MEM, c)
         else if \<not> avail2 then (VMCI_ERROR_NO_MEM, c)
         else if VMCI_MAX_DATAGRAM_QUEUE_SIZE \<le> dp_datagramQueueSize c + dgmSize
         then (VMCI_ERROR_NO_RESOURCES, c)
         else (VMCI_SUCCESS, c\<lparr>dp_datagramQueue := dp_datagramQueue c @ [\<lparr>dq_dgSize = dgmSize, dq_dg = msg\<rparr>],
                  dp_pendingDatagrams := dp_pendingDatagrams c + 1,
                  dp_datagramQueueSize := dp_datagramQueueSize c + dgmSize,
                  dp_wakeUps := Suc (dp_wakeUps c)\<rparr>))"

definition VMCIDatagramProcess_Create ::
  "'a dg_state_scheme env \<Rightarrow> dg_alloc \<Rightarrow> ptr option \<Rightarrow> VMCIId \<Rightarrow> u32 \<Rightarrow> 'a dg_state_scheme
    \<Rightarrow> (int \<times> ptr option \<times> 'a dg_state_scheme) option" where
  "VMCIDatagramProcess_Create E A mem resourceID flags s =
     (case mem of None \<Rightarrow> Some (VMCI_ERROR_NO_MEM, None, s)
      | Some p \<Rightarrow>
          let c = \<lparr>dp_handle = VMCI_INVALID_HANDLE, dp_wakeUps = 0, dp_pendingDatagrams = 0,
                   dp_datagramQueueSize = 0, dp_datagramQueue = []\<rparr>;
              s1 = s\<lparr>dgp_mem := (dgp_mem s)(p := c), dgp_live := insert p (dgp_live s)\<rparr>
          in (case DatagramCreateHnd E A resourceID flags VMCI_DEFAULT_PROC_PRIVILEGE_FLAGS
                     DatagramProcessNotifyCB_ref p s1 of
                None \<Rightarrow> None
              | Some (result, None, s2) \<Rightarrow> Some (result, None, s2\<lparr>dgp_live := dgp_live s2 - {p}\<rparr>)
              | Some (result, Some handle, s2) \<Rightarrow>
                  Some (VMCI_SUCCESS, Some p,
                        s2\<lparr>dgp_mem := (dgp_mem s2)(p := (dgp_mem s2 p)\<lparr>dp_handle := handle\<rparr>)\<rparr>)))"

definition VMCIDatagramProcess_Destroy ::
  "'a dg_state_scheme env \<Rightarrow> bool \<Rightarrow> ptr option \<Rightarrow> 'a dg_state_scheme \<Rightarrow> 'a dg_state_scheme option" where
  "VMCIDatagramProcess_Destroy E interrupted dgmProc s =
     (case dgmProc of None \<Rightarrow> Some s
      | Some p \<Rightarrow>
          (case (if \<not> VMCI_HANDLE_EQUAL (dp_handle (dgp_mem s p)) VMCI_INVALID_HANDLE
                 then map_option (\<lambda>(_, s1). s1\<lparr>dgp_mem := (dgp_mem s1)
                        (p := (dgp_mem s1 p)\<lparr>dp_handle := VMCI_INVALID_HANDLE\<rparr>)\<rparr>)
                        (VMCIDatagramDestroyHndInt E interrupted (dp_handle (dgp_mem s p)) s)
                 else Some s) of
             None \<Rightarrow> None
           | Some s1 \<Rightarrow> Some (s1\<lparr>dgp_mem := (dgp_mem s1)(p := (dgp_mem s1 p)\<lparr>dp_datagramQueue := []\<rparr>),
                                 dgp_live := dgp_live s1 - {p}\<rparr>)))"

text \<open>
  A blocking read.  Each element of the first argument is one sleep: what other threads did
  to the queue meanwhile, and whether the sleep ended without a signal for the process.
  \<open>None\<close>: the thread is still asleep.
\<close>

fun VMCIDatagramProcess_ReadCall ::
  "((VMCIDatagramProcess \<Rightarrow> VMCIDatagramProcess) \<times> bool) list \<Rightarrow> u64 \<Rightarrow> VMCIDatagramProcess
    \<Rightarrow> (int \<times> VMCIDatagram option \<times> VMCIDatagramProcess) option" where
  "VMCIDatagramProcess_ReadCall sleeps maxSize c =
     (if dp_pendingDatagrams c = 0 then
        (case sleeps of [] \<Rightarrow> None
         | (others, woken) # rest \<Rightarrow>
             if \<not> woken then Some (VMCI_ERROR_NO_MORE_DATAGRAMS, None, others c)
             else VMCIDatagramProcess_ReadCall rest maxSize (others c))
      else let dqEntry = hd (dp_datagramQueue c)
      in if maxSize < dq_dgSize dqEntry then Some (VMCI_ERROR_NO_MEM, None, c)
         else Some (VMCI_SUCCESS, Some (dq_dg dqEntry),
                c\<lparr>dp_datagramQueue := tl (dp_datagramQueue c),
                  dp_pendingDatagrams := dp_pendingDatagrams c - 1,
                  dp_datagramQueueSize := dp_datagramQueueSize c - dq_dgSize dqEntry\<rparr>))"


section \<open>Invariant, and operations without the reference counting\<close>

definition dg_inv :: "'a dg_state_scheme \<Rightarrow> bool" where
  [inv_defs]: "dg_inv s \<longleftrightarrow> ctx_inv s \<and> ht_inv (resourceTable s) \<and> ht_inv (wellKnownTable s)
     \<and> event_inv (events s)"

definition wk_owner :: "'a dg_state_scheme \<Rightarrow> VMCIId \<Rightarrow> VMCIId option" where
  "wk_owner s wellKnownID = map_option (\<lambda>p. wk_contextID (wk_map s p))
     (ht_lookup (wellKnownTable s) (wk_handle wellKnownID))"

lemma wk_handle_valid [simp]: "wk_handle wk \<noteq> VMCI_INVALID_HANDLE"
  by (simp add: wk_handle_def)

text \<open>A mapping that is looked up and released again is what it was.\<close>

lemma DatagramGetWellKnownMap_eq:
  "DatagramGetWellKnownMap wk s = (case ht_lookup (wellKnownTable s) (wk_handle wk) of None \<Rightarrow> (None, s)
     | Some p \<Rightarrow> (Some p, s\<lparr>wellKnownTable :=
         ht_set_ref p (ht_ref (wellKnownTable s) p + 1) (wellKnownTable s)\<rparr>))"
  by (auto simp: DatagramGetWellKnownMap_def VMCIHashTable_GetEntry_eq split: option.split)

lemma wk_get_release:
  assumes "ht_inv (wellKnownTable s)" "ht_lookup (wellKnownTable s) (wk_handle wk) = Some p"
  shows "DatagramReleaseWellKnownMap p (s\<lparr>wellKnownTable :=
      ht_set_ref p (ht_ref (wellKnownTable s) p + 1) (wellKnownTable s)\<rparr>) = s"
proof -
  have "1 \<le> ht_ref (wellKnownTable s) p"
    using assms linked_ref ht_lookup_Some_D(3) by blast
  then show ?thesis
    by (simp add: DatagramReleaseWellKnownMap_def VMCIHashTable_ReleaseEntry_eq)
qed

lemma wk_contextID_set_ref [simp]:
  "wk_contextID (wk_map (s\<lparr>wellKnownTable := ht_set_ref p n (wellKnownTable s)\<rparr>) q) = wk_contextID (wk_map s q)"
  by (simp add: wk_map_def)

definition source_error :: "'a dg_state_scheme \<Rightarrow> VMCIId \<Rightarrow> VMCIDatagram \<Rightarrow> int option" where
  "source_error s contextID dg =
     (if hcontext (dg_src dg) = contextID then None
      else if hcontext (dg_src dg) = VMCI_WELL_KNOWN_CONTEXT_ID then
        (case wk_owner s (hresource (dg_src dg)) of None \<Rightarrow> Some VMCI_ERROR_INVALID_RESOURCE
         | Some c \<Rightarrow> if c = contextID then None else Some VMCI_ERROR_NO_ACCESS)
      else Some VMCI_ERROR_NO_ACCESS)"

lemma check_source_eq:
  "ht_inv (wellKnownTable s) \<Longrightarrow> check_source contextID dg s = (source_error s contextID dg, s)"
  by (auto simp: check_source_def source_error_def DatagramGetWellKnownMap_eq wk_get_release wk_owner_def
      split: option.split)

definition route :: "'a dg_state_scheme \<Rightarrow> VMCIDatagram \<Rightarrow> VMCIId option" where
  "route s dg = (if hcontext (dg_dst dg) = VMCI_WELL_KNOWN_CONTEXT_ID then wk_owner s (hresource (dg_dst dg))
     else Some (hcontext (dg_dst dg)))"

lemma dst_context_eq: "ht_inv (wellKnownTable s) \<Longrightarrow> dst_context dg s = (route s dg, s)"
  by (auto simp: dst_context_def route_def DatagramGetWellKnownMap_eq wk_get_release wk_owner_def
      split: option.split)

definition ctx_privs :: "'a dg_state_scheme \<Rightarrow> VMCIId \<Rightarrow> VMCIPrivilegeFlags" where
  "ctx_privs s c = (case ctx_lookup s c of None \<Rightarrow> VMCI_LEAST_PRIVILEGE_FLAGS
     | Some p \<Rightarrow> cx_privFlags (ctx_mem s p))"

definition src_privs :: "'a dg_state_scheme \<Rightarrow> VMCIId \<Rightarrow> VMCIHandle \<Rightarrow> VMCIPrivilegeFlags option" where
  "src_privs s contextID handle =
     (if contextID = VMCI_HOST_CONTEXT_ID
      then map_option (\<lambda>p. entry_privFlags (r_object (res s p))) (res_lookup s handle VMCI_RESOURCE_TYPE_DATAGRAM)
      else if contextID = VMCI_HYPERVISOR_CONTEXT_ID then Some VMCI_MAX_PRIVILEGE_FLAGS
      else Some (ctx_privs s contextID))"

lemma VMCIDatagramGetPrivFlagsInt_eq:
  assumes "dg_inv s"
  shows "VMCIDatagramGetPrivFlagsInt E contextID handle s = (case src_privs s contextID handle of
      None \<Rightarrow> (VMCI_ERROR_INVALID_ARGS, None, s) | Some f \<Rightarrow> (VMCI_SUCCESS, Some f, s))"
proof (cases "contextID = VMCI_HOST_CONTEXT_ID")
  case True
  show ?thesis
  proof (cases "res_lookup s handle VMCI_RESOURCE_TYPE_DATAGRAM")
    case (Some p)
    have "1 \<le> he_refCount (res s p)" using assms Some by (intro res_lookup_ref) (auto simp: dg_inv_def)
    from release_after_inc [OF this] assms True Some show ?thesis
      by (simp add: VMCIDatagramGetPrivFlagsInt_def VMCIResource_Get_eq dg_inv_def src_privs_def)
  qed (use assms True in \<open>simp add: VMCIDatagramGetPrivFlagsInt_def VMCIResource_Get_eq dg_inv_def src_privs_def\<close>)
qed (use assms in \<open>auto simp: VMCIDatagramGetPrivFlagsInt_def VMCIContext_GetPrivFlagsInt_eq dg_inv_def
      src_privs_def ctx_privs_def\<close>)

lemma deliver_context_eq:
  assumes "dg_inv s"
  shows "deliver_context E new dq contextID d dg f s =
    (if contextID \<noteq> d \<and> VMCIDenyInteraction f (ctx_privs s d) then (VMCI_ERROR_NO_ACCESS, s)
     else if \<not> VMCI_AllocKernelMem new (unat (VMCI_DG_SIZE dg)) then (VMCI_ERROR_NO_MEM, s)
     else let (r, s') = VMCIContext_EnqueueDatagram (env_free E) dq d dg s
          in if r < VMCI_SUCCESS then (r, s') else (sint (ucast (VMCI_DG_SIZE dg) :: u32), s'))"
  using assms by (auto simp: deliver_context_def VMCIContext_GetPrivFlagsInt_eq dg_inv_def ctx_privs_def)

lemma VMCIDatagram_Dispatch_eq:
  assumes "dg_inv s"
  shows "VMCIDatagram_Dispatch E new dq contextID dg s =
    (if VMCI_MAX_DG_SIZE < VMCI_DG_SIZE dg then (VMCI_ERROR_INVALID_ARGS, s)
     else if contextID = VMCI_HOST_CONTEXT_ID \<and> hcontext (dg_dst dg) = VMCI_HYPERVISOR_CONTEXT_ID
     then (VMCI_ERROR_DST_UNREACHABLE, s)
     else case source_error s contextID dg of Some e \<Rightarrow> (e, s) | None \<Rightarrow>
       (case route s dg of None \<Rightarrow> (VMCI_ERROR_DST_UNREACHABLE, s) | Some d \<Rightarrow>
         (case src_privs s contextID (dg_src dg) of None \<Rightarrow> (VMCI_ERROR_INVALID_ARGS, s) | Some f \<Rightarrow>
            if d = VMCI_HOST_CONTEXT_ID then deliver_host E dg f s
            else deliver_context E new dq contextID d dg f s)))"
proof -
  have wk: "ht_inv (wellKnownTable s)" using assms by (simp add: dg_inv_def)
  show ?thesis
    by (auto simp: VMCIDatagram_Dispatch_def check_source_eq [OF wk] dst_context_eq [OF wk]
        VMCIDatagramGetPrivFlagsInt_eq [OF assms] split: option.split)
qed


section \<open>The queue of a process is the same kind of queue\<close>

definition dp_inv :: "VMCIDatagramProcess \<Rightarrow> bool" where
  [inv_defs]: "dp_inv c \<longleftrightarrow>
     (\<forall>e \<in> set (dp_datagramQueue c). dq_dgSize e = VMCI_DG_SIZE (dq_dg e)
        \<and> 24 \<le> unat (dq_dgSize e) \<and> unat (dq_dgSize e) \<le> 69632)
     \<and> unat (dp_datagramQueueSize c) = sum_list (map (unat \<circ> dq_dgSize) (dp_datagramQueue c))
     \<and> unat (dp_datagramQueueSize c) < 139264
     \<and> unat (dp_pendingDatagrams c) = length (dp_datagramQueue c)"

definition dp_queued :: "VMCIDatagramProcess \<Rightarrow> VMCIDatagram list" where
  "dp_queued c = map dq_dg (dp_datagramQueue c)"

definition dp_dequeue :: "u64 \<Rightarrow> VMCIDatagramProcess \<Rightarrow> int \<times> u64 \<times> VMCIDatagram option \<times> VMCIDatagramProcess" where
  "dp_dequeue maxSize c = (case VMCIDatagramProcess_ReadCall [] maxSize c of
     None \<Rightarrow> (VMCI_ERROR_NO_MORE_DATAGRAMS, maxSize, None, c) | Some (r, x, c') \<Rightarrow> (r, maxSize, x, c'))"

lemma dp_inv_length: "length (dp_datagramQueue c) \<le> 5802" if "dp_inv c"
proof -
  have "24 * length (dp_datagramQueue c) \<le> sum_list (map (unat \<circ> dq_dgSize) (dp_datagramQueue c))"
    using that by (intro sum_list_ge) (auto simp: dp_inv_def)
  with that show ?thesis by (simp add: dp_inv_def)
qed

lemma DatagramProcessNotifyCB_correct:
  assumes inv: "dp_inv c" and fits: "dg_fits dg" and eq: "DatagramProcessNotifyCB True True dg c = (r, c')"
  shows "dp_inv c' \<and> dp_queued c' = (if r < 0 then dp_queued c else dp_queued c @ [dg])"
proof -
  have sz: "unat (dp_datagramQueueSize c + VMCI_DG_SIZE dg)
      = unat (dp_datagramQueueSize c) + unat (VMCI_DG_SIZE dg)"
    using inv fits by (simp add: unat_word_ariths dp_inv_def dg_fits_def)
  have pend: "unat (dp_pendingDatagrams c + 1) = Suc (length (dp_datagramQueue c))"
    using dp_inv_length [OF inv] inv by (simp add: unat_word_ariths dp_inv_def)
  have al: "VMCI_AllocKernelMem True (unat (VMCI_DG_SIZE dg))"
    using fits by (simp add: VMCI_AllocKernelMem_def KMALLOC_MAX_SIZE_def dg_fits_def)
  show ?thesis
    using inv eq sz pend al fits
    by (auto simp: DatagramProcessNotifyCB_def Let_def word_le_nat_alt split: if_splits)
      (auto simp: dp_inv_def dp_queued_def dg_fits_def)
qed

lemma VMCIDatagramProcess_ReadCall_correct:
  assumes inv: "dp_inv c" and eq: "dp_dequeue m c = (r, m', x, c')"
  shows "dp_inv c' \<and> dp_queued c = (case x of None \<Rightarrow> dp_queued c' | Some dg \<Rightarrow> dg # dp_queued c')"
proof (cases "dp_datagramQueue c")
  case Nil
  then have "dp_pendingDatagrams c = 0" using inv by (simp add: dp_inv_def unat_eq_0)
  with assms show ?thesis by (auto simp: dp_dequeue_def)
next
  case (Cons e es)
  then have pend: "unat (dp_pendingDatagrams c) = Suc (length es)" using inv by (simp add: dp_inv_def)
  then have nz: "dp_pendingDatagrams c \<noteq> 0" by auto
  have p1: "unat (dp_pendingDatagrams c - 1) = length es" using unat_pred [OF nz] pend by simp
  have "unat (dp_datagramQueueSize c) = unat (dq_dgSize e) + sum_list (map (unat \<circ> dq_dgSize) es)"
    using inv Cons by (simp add: dp_inv_def)
  then have "unat (dp_datagramQueueSize c - dq_dgSize e) = sum_list (map (unat \<circ> dq_dgSize) es)"
    by (simp add: unat_sub word_le_nat_alt)
  with assms Cons nz p1 show ?thesis
    by (auto simp: dp_dequeue_def Let_def split: if_splits) (auto simp: dp_inv_def dp_queued_def)
qed

interpretation dpq: datagram_queue dp_inv dg_fits dp_queued "DatagramProcessNotifyCB True True" dp_dequeue
  by unfold_locales (fact DatagramProcessNotifyCB_correct VMCIDatagramProcess_ReadCall_correct)+

section \<open>Reserving and giving up well-known ids\<close>

lemma wk_init_entry_contextID:
  "ht_handle (t\<lparr>ht_mem := (ht_mem t)(p := (ht_mem t p)\<lparr>wk_contextID := c\<rparr>)\<rparr>) = ht_handle t"
  "ht_ref (t\<lparr>ht_mem := (ht_mem t)(p := (ht_mem t p)\<lparr>wk_contextID := c\<rparr>)\<rparr>) = ht_ref t"
  by (auto simp: ht_handle_def ht_ref_def fun_eq_iff)

lemma dg_inv_events [simp]: "dg_inv s \<Longrightarrow> event_inv (events s)"
  by (simp add: dg_inv_def)

lemma ctx_ops_frame [frame_simps]:
  "ctx_inv s \<Longrightarrow> wellKnownTable (snd (VMCIContext_AddWellKnown f a c wk s)) = wellKnownTable s"
  "ctx_inv s \<Longrightarrow> wk_live (snd (VMCIContext_AddWellKnown f a c wk s)) = wk_live s"
  "ctx_inv s \<Longrightarrow> wellKnownTable (snd (VMCIContext_RemoveWellKnown f c wk s)) = wellKnownTable s"
  "ctx_inv s \<Longrightarrow> wk_live (snd (VMCIContext_RemoveWellKnown f c wk s)) = wk_live s"
  "ctx_inv s \<Longrightarrow> wellKnownTable (snd (VMCIContext_EnqueueDatagram f a c dg s)) = wellKnownTable s"
  by (auto simp: VMCIContext_AddWellKnown_eq VMCIContext_RemoveWellKnown_eq VMCIContext_EnqueueDatagram_eq
      upd_ctx_def Let_def split: option.split)

lemma ctx_lookup_wk [simp]:
  "ctx_lookup (s\<lparr>wellKnownTable := t\<rparr>) c = ctx_lookup s c" "ctx_lookup (s\<lparr>wk_live := L\<rparr>) c = ctx_lookup s c"
  "ctx_inv (s\<lparr>wellKnownTable := t\<rparr>) = ctx_inv s" "ctx_inv (s\<lparr>wk_live := L\<rparr>) = ctx_inv s"
  by (simp_all add: ctx_lookup_def ctx_inv_def)

lemma VMCIHashTable_AddEntry_wk [simp]:
  "wk_contextID (ht_mem (snd (VMCIHashTable_AddEntry t e)) q) = wk_contextID (ht_mem t q)"
  by (simp add: VMCIHashTable_AddEntry_def Let_def)

definition wk_new_entry :: "wk_mapping VMCIHashTable \<Rightarrow> ptr \<Rightarrow> VMCIId \<Rightarrow> VMCIId \<Rightarrow> wk_mapping VMCIHashTable" where
  "wk_new_entry t p wk c = (let t1 = VMCIHashTable_InitEntry t p (wk_handle wk)
     in t1\<lparr>ht_mem := (ht_mem t1)(p := (ht_mem t1 p)\<lparr>wk_contextID := c\<rparr>)\<rparr>)"

lemma wk_new_entry_correct:
  fixes wk c :: VMCIId
  assumes inv: "ht_inv t" and free: "\<not> linked t p"
  defines "t2 \<equiv> wk_new_entry t p wk c"
  shows "ht_inv t2" "ht_lookup t2 = ht_lookup t" "ht_handle t2 p = wk_handle wk" "ht_ref t2 p = 0"
    "wk_contextID (ht_mem t2 p) = c"
proof -
  note init = VMCIHashTable_InitEntry_correct [OF inv free, of "wk_handle wk"]
  note eqs = wk_init_entry_contextID [where t = "VMCIHashTable_InitEntry t p (wk_handle wk)" and p = p and c = c]
  show "ht_inv t2"
    using linked_ref [OF init(1)] unfolding t2_def wk_new_entry_def Let_def
    by (intro ht_inv_cong [OF init(1)]) (simp_all add: eqs del: VMCIHashTable_InitEntry_mem)
  show "ht_lookup t2 = ht_lookup t"
    unfolding init(2) [symmetric] t2_def wk_new_entry_def Let_def ht_lookup_def ht_idx_def eqs by simp
  show "ht_handle t2 p = wk_handle wk" "ht_ref t2 p = 0"
    unfolding t2_def wk_new_entry_def Let_def eqs by simp_all
  show "wk_contextID (ht_mem t2 p) = c" by (simp add: t2_def wk_new_entry_def Let_def)
qed

lemma request_wk_correct:
  assumes inv: "dg_inv s" and free: "\<not> linked (wellKnownTable s) p"
    and ok: "\<not> restricted f" "VMCIWellKnownID_AllowMap wk f"
  shows "case VMCIDatagramRequestWellKnownMap E (Some p) avail wk c f s of (r, s') \<Rightarrow>
    ht_inv (wellKnownTable s') \<and> ctx_inv s' \<and>
    (if wk_owner s wk \<noteq> None then r = VMCI_ERROR_DUPLICATE_ENTRY
       \<and> ht_lookup (wellKnownTable s') = ht_lookup (wellKnownTable s) \<and> wk_live s' = wk_live s - {p}
     else if ctx_lookup s c = None then r = VMCI_ERROR_NOT_FOUND
       \<and> ht_lookup (wellKnownTable s') = ht_lookup (wellKnownTable s) \<and> wk_live s' = wk_live s - {p}
     else r = VMCI_SUCCESS \<and> wk_owner s' wk = Some c \<and> wk_live s' = insert p (wk_live s)
       \<and> ht_lookup (wellKnownTable s') = (ht_lookup (wellKnownTable s))(wk_handle wk := Some p))"
proof -
  have cinv: "ctx_inv s" and winv: "ht_inv (wellKnownTable s)" using inv by (simp_all add: dg_inv_def)
  let ?t2 = "wk_new_entry (wellKnownTable s) p wk c"
  note new = wk_new_entry_correct [OF winv free, of wk c]
  obtain r t3 where add: "VMCIHashTable_AddEntry ?t2 p = (r, t3)" by fastforce
  note a = VMCIHashTable_AddEntry_correct [OF new(1), of p, unfolded add new(2-4), simplified]
  have cid: "wk_contextID (ht_mem t3 p) = c"
    using VMCIHashTable_AddEntry_wk [of ?t2 p p] new(5) unfolding add by simp
  let ?s1 = "s\<lparr>wellKnownTable := t3, wk_live := insert p (wk_live s)\<rparr>"
  have req: "VMCIDatagramRequestWellKnownMap E (Some p) avail wk c f s =
     (if r \<noteq> VMCI_SUCCESS then (r, ?s1\<lparr>wk_live := wk_live ?s1 - {p}\<rparr>)
      else let (result, s2) = VMCIContext_AddWellKnown (env_free E) avail c wk ?s1
           in if result < VMCI_SUCCESS
              then (result, s2\<lparr>wellKnownTable := snd (VMCIHashTable_RemoveEntry (wellKnownTable s2) p),
                               wk_live := wk_live s2 - {p}\<rparr>)
              else (result, s2))"
    using ok add unfolding wk_new_entry_def VMCIDatagramRequestWellKnownMap_def
    by (simp add: restricted_def Let_def)
  have own: "wk_owner s wk = None \<longleftrightarrow> ht_lookup (wellKnownTable s) (wk_handle wk) = None"
    by (simp add: wk_owner_def)
  consider (dup) "wk_owner s wk \<noteq> None" | (gone) "wk_owner s wk = None" "ctx_lookup s c = None"
    | (ok) q where "wk_owner s wk = None" "ctx_lookup s c = Some q" by fastforce
  then show ?thesis
  proof cases
    case dup
    with a own have "r = VMCI_ERROR_DUPLICATE_ENTRY" "t3 = ?t2" by simp_all
    with dup new(1,2) cinv show ?thesis unfolding req by simp
  next
    case gone
    with a own have t3: "r = VMCI_SUCCESS" "ht_inv t3" "ht_handle t3 p = wk_handle wk"
        "ht_lookup t3 = (ht_lookup (wellKnownTable s))(wk_handle wk := Some p)"
      using new(3) by simp_all
    have "linked t3 p" by (simp add: linked_def t3)
    with VMCIHashTable_RemoveEntry_correct [OF t3(2), of p] t3 gone own
    have "ht_inv (snd (VMCIHashTable_RemoveEntry t3 p))"
      "ht_lookup (snd (VMCIHashTable_RemoveEntry t3 p)) = ht_lookup (wellKnownTable s)"
      by (auto simp: split_beta)
    with gone t3 cinv show ?thesis
      unfolding req by (simp add: VMCIContext_AddWellKnown_eq)
  next
    case (ok q)
    let ?f = "\<lambda>x. x\<lparr>cx_wellKnownArray := VMCIHandleArray_AppendEntry avail (cx_wellKnownArray x)
      (VMCI_MAKE_HANDLE VMCI_WELL_KNOWN_CONTEXT_ID wk)\<rparr>"
    from ok a own have t3: "r = VMCI_SUCCESS" "ht_inv t3" "ht_handle t3 p = wk_handle wk"
        "ht_lookup t3 = (ht_lookup (wellKnownTable s))(wk_handle wk := Some p)"
      using new(3) by simp_all
    have eq: "VMCIContext_AddWellKnown (env_free E) avail c wk ?s1 = (VMCI_SUCCESS, upd_ctx q ?f ?s1)"
      using ok cinv by (simp add: VMCIContext_AddWellKnown_eq)
    have "ctx_inv (upd_ctx q ?f ?s1)"
      using VMCIContext_ops_inv(1) [of ?s1 "env_free E" avail c wk] eq cinv by simp
    moreover have "wellKnownTable (upd_ctx q ?f ?s1) = t3" "wk_live (upd_ctx q ?f ?s1) = insert p (wk_live s)"
      by (simp_all add: upd_ctx_def)
    ultimately show ?thesis
      using ok t3 cid unfolding req by (simp add: eq wk_owner_def wk_map_def)
  qed
qed


section \<open>Properties\<close>

lemma upd_ctx_dg [simp]:
  "wellKnownTable (upd_ctx p f s) = wellKnownTable s" "resourceTable (upd_ctx p f s) = resourceTable s"
  "events (upd_ctx p f s) = events s"
  by (simp_all add: upd_ctx_def)

lemma dg_inv_upd_ctx: "dg_inv s \<Longrightarrow> ctx_inv (upd_ctx p f s) \<Longrightarrow> dg_inv (upd_ctx p f s)"
  by (simp add: dg_inv_def)

definition may_send :: "'a dg_state_scheme \<Rightarrow> VMCIId \<Rightarrow> VMCIId \<Rightarrow> VMCIDatagram \<Rightarrow> bool" where
  "may_send s contextID d dg \<longleftrightarrow> source_error s contextID dg = None
     \<and> \<not> (contextID = VMCI_HOST_CONTEXT_ID \<and> hcontext (dg_dst dg) = VMCI_HYPERVISOR_CONTEXT_ID)
     \<and> (case src_privs s contextID (dg_src dg) of None \<Rightarrow> False
        | Some f \<Rightarrow> contextID = d \<or> \<not> VMCIDenyInteraction f (ctx_privs s d))"

lemma not_fits_big: "dg_fits dg \<Longrightarrow> \<not> VMCI_MAX_DG_SIZE < VMCI_DG_SIZE dg"
  by (simp add: dg_fits_def word_less_nat_alt)

lemma dispatch_context_eq:
  assumes inv: "dg_inv s" and fits: "dg_fits dg" and d: "route s dg = Some d" "d \<noteq> VMCI_HOST_CONTEXT_ID"
  shows "may_send s contextID d dg \<Longrightarrow> VMCIDatagram_Dispatch E new dq contextID dg s =
      (if \<not> VMCI_AllocKernelMem new (unat (VMCI_DG_SIZE dg)) then (VMCI_ERROR_NO_MEM, s)
       else let (r, s') = VMCIContext_EnqueueDatagram (env_free E) dq d dg s
            in if r < VMCI_SUCCESS then (r, s') else (int (unat (VMCI_DG_SIZE dg)), s'))"
    and "\<not> may_send s contextID d dg \<Longrightarrow> \<exists>e < 0. VMCIDatagram_Dispatch E new dq contextID dg s = (e, s)"
proof -
  have sz: "sint (ucast (VMCI_DG_SIZE dg) :: u32) = int (unat (VMCI_DG_SIZE dg))"
    using fits by (simp add: size_to_int dg_fits_def)
  show "may_send s contextID d dg \<Longrightarrow> VMCIDatagram_Dispatch E new dq contextID dg s =
      (if \<not> VMCI_AllocKernelMem new (unat (VMCI_DG_SIZE dg)) then (VMCI_ERROR_NO_MEM, s)
       else let (r, s') = VMCIContext_EnqueueDatagram (env_free E) dq d dg s
            in if r < VMCI_SUCCESS then (r, s') else (int (unat (VMCI_DG_SIZE dg)), s'))"
    using not_fits_big [OF fits] d
    by (auto simp: VMCIDatagram_Dispatch_eq [OF inv] deliver_context_eq [OF inv] may_send_def sz split_beta
        split: option.splits)
  have err: "e < 0" if "source_error s contextID dg = Some e" for e
    using that by (auto simp: source_error_def split: if_splits option.splits)
  show "\<exists>e < 0. VMCIDatagram_Dispatch E new dq contextID dg s = (e, s)"
    if "\<not> may_send s contextID d dg"
    using that not_fits_big [OF fits] d err
    by (cases "source_error s contextID dg"; cases "src_privs s contextID (dg_src dg)")
      (auto simp: VMCIDatagram_Dispatch_eq [OF inv] deliver_context_eq [OF inv] may_send_def)
qed

text \<open>
  C7: A datagram for a virtual machine is queued there exactly when its sender owns the
  source handle (directly, or through the well-known mapping), the privileges of sender and
  receiver allow them to interact, the memory is there and the queue has room.  Then its
  size is returned and no other context changes; otherwise the result is an error and the
  state is the one before.  The invariant holds in every case.
\<close>

theorem dispatch_to_context:
  assumes inv: "dg_inv s" and fits: "dg_fits dg" and d: "route s dg = Some d" "d \<noteq> VMCI_HOST_CONTEXT_ID"
  shows "case VMCIDatagram_Dispatch E new dq contextID dg s of (r, s') \<Rightarrow> dg_inv s' \<and>
    (if may_send s contextID d dg \<and> new \<and> dq
        \<and> (case ctx_lookup s d of None \<Rightarrow> False | Some p \<Rightarrow> accepts (ctx_mem s p) dg)
     then \<exists>p. ctx_lookup s d = Some p \<and> r = int (unat (VMCI_DG_SIZE dg))
       \<and> queued (ctx_mem s' p) = queued (ctx_mem s p) @ [dg]
       \<and> (\<forall>q. q \<noteq> p \<longrightarrow> ctx_mem s' q = ctx_mem s q)
     else r < 0 \<and> s' = s)"
proof (cases "may_send s contextID d dg")
  case True
  note eq = dispatch_context_eq(1) [OF assms True, of E new dq]
  have cinv: "ctx_inv s" using inv by (simp add: dg_inv_def)
  have al: "VMCI_AllocKernelMem new (unat (VMCI_DG_SIZE dg)) = new"
    using fits by (simp add: VMCI_AllocKernelMem_def KMALLOC_MAX_SIZE_def dg_fits_def)
  show ?thesis
  proof (cases "ctx_lookup s d")
    case (Some p)
    have dqi: "dq_inv (ctx_mem s p)" using ctx_lookup_live(3) [OF cinv Some] by (simp add: cx_inv_def)
    have "dg_inv (upd_ctx p (\<lambda>c. snd (enqueue_locked dg c)) s)"
      using cinv fits
      by (intro dg_inv_upd_ctx [OF inv] upd_ctx_fields_inv) (auto simp: enqueue_locked_fields enqueue_locked_inv)
    with True Some inv show ?thesis
      by (auto simp: eq al VMCIContext_EnqueueDatagram_eq [OF cinv] enqueue_locked_cases [OF dqi fits]
          queued_def upd_ctx_id)
  qed (use True inv cinv in \<open>auto simp: eq al VMCIContext_EnqueueDatagram_eq\<close>)
next
  case False
  from dispatch_context_eq(2) [OF assms False, of E new dq] inv False show ?thesis by auto
qed

text \<open>
  A state with the virtual machine 5 at address 3, the host endpoint 2:20 at address 10 and
  the well-known id 1025 of context 5 at address 40.
\<close>

definition demo_dgs :: dg_state where
  "demo_dgs = \<lparr>ctx_list = ctx_list demo_ctx, ctx_mem = ctx_mem demo_ctx, ctx_live = ctx_live demo_ctx,
     resourceTable = resourceTable demo_res, resourceID_counter = 1024, cl_mem = cl_mem demo_res,
     cl_live = {30}, events = VMCIEvent_Init,
     wellKnownTable = \<lparr>ht_entries = [[40]], ht_size = 1,
       ht_mem = (\<lambda>_. \<lparr>he_handle = wk_handle 1025, he_refCount = 1, wk_contextID = 5\<rparr>)\<rparr>,
     wk_live = {40}, dgp_mem = (\<lambda>_. \<lparr>dp_handle = VMCI_INVALID_HANDLE, dp_wakeUps = 0, dp_pendingDatagrams = 0,
       dp_datagramQueueSize = 0, dp_datagramQueue = []\<rparr>), dgp_live = {}, obj_live = {10}\<rparr>"

definition demo_env :: "'s env" where
  "demo_env = \<lparr>env_free = (\<lambda>_ s. s), env_cb = (\<lambda>_ _ s. s), env_recv = (\<lambda>_ _ _ s. (VMCI_SUCCESS, s))\<rparr>"

definition demo_msg :: "VMCIHandle \<Rightarrow> VMCIHandle \<Rightarrow> u64 \<Rightarrow> VMCIDatagram" where
  "demo_msg src dst n = \<lparr>dg_dst = dst, dg_src = src, dg_payloadSize = n, dg_payload = []\<rparr>"

lemma demo_dgs_table [simp]: "resourceTable demo_dgs = resourceTable demo_res"
  by (simp add: demo_dgs_def)

lemma demo_dgs_inv: "dg_inv demo_dgs"
proof -
  have "ctx_inv demo_dgs" using demo_ctx_inv by (simp add: demo_dgs_def ctx_inv_def)
  moreover have "ht_inv (wellKnownTable demo_dgs)"
    by (simp add: demo_dgs_def ht_inv_def ht_handle_def ht_ref_def ht_idx_def VMCI_Hash_def)
  moreover have "event_inv (events demo_dgs)" by (simp add: demo_dgs_def VMCIEvent_Init_inv)
  ultimately show ?thesis using demo_res_facts(1) by (simp add: dg_inv_def)
qed

lemma demo_dgs_facts:
  "ctx_lookup demo_dgs 5 = Some 3" "ctx_mem demo_dgs = ctx_mem demo_ctx" "ctx_privs demo_dgs 5 = 0"
  "src_privs demo_dgs 2 (VMCI_MAKE_HANDLE 2 20) = Some 0" "wk_owner demo_dgs 1025 = Some 5"
  by (simp_all add: demo_dgs_def ctx_lookup_def demo_ctx_def new_context_def ctx_privs_def src_privs_def
      res_lookup_def ht_lookup_def ht_idx_def VMCI_Hash_def demo_res_def ht_handle_def demo_resource_def res_def
      entry_privFlags_def wk_owner_def wk_map_def)

text \<open>The endpoint sends to the machine under its own handle; under another one it is refused.\<close>

theorem dispatch_to_context_witness:
  "fst (VMCIDatagram_Dispatch demo_env True True 2 (demo_msg (VMCI_MAKE_HANDLE 2 20) (VMCI_MAKE_HANDLE 5 0) 8)
      demo_dgs) = 32
   \<and> snd (VMCIDatagram_Dispatch demo_env True True 2 (demo_msg (VMCI_MAKE_HANDLE 1 1025) (VMCI_MAKE_HANDLE 5 0) 8)
      demo_dgs) = demo_dgs"
proof -
  let ?m = "demo_msg (VMCI_MAKE_HANDLE 2 20) (VMCI_MAKE_HANDLE 5 0) 8"
  let ?n = "demo_msg (VMCI_MAKE_HANDLE 1 1025) (VMCI_MAKE_HANDLE 5 0) 8"
  have fits: "dg_fits ?m" "dg_fits ?n" by (simp_all add: dg_fits_def demo_msg_def VMCI_DG_SIZE_def)
  have rt: "route demo_dgs ?m = Some 5" "route demo_dgs ?n = Some 5" by (simp_all add: route_def demo_msg_def)
  have "may_send demo_dgs 2 5 ?m" "\<not> may_send demo_dgs 2 5 ?n"
    using demo_dgs_facts by (simp_all add: may_send_def source_error_def demo_msg_def VMCIDenyInteraction_iff)
  moreover have "accepts (ctx_mem demo_dgs 3) ?m"
    by (simp add: demo_dgs_facts accepts_def demo_ctx_def new_context_def demo_msg_def VMCI_DG_SIZE_def)
  ultimately show ?thesis
    using dispatch_to_context [OF demo_dgs_inv fits(1) rt(1),
        where E = demo_env and new = True and dq = True and contextID = 2]
      dispatch_to_context [OF demo_dgs_inv fits(2) rt(2),
        where E = demo_env and new = True and dq = True and contextID = 2] demo_dgs_facts(1)
    by (auto simp: split_beta demo_msg_def VMCI_DG_SIZE_def)
qed

lemma release_after_callback:
  assumes "resourceTable s' = resourceTable (upd_res p inc_ref s)" "1 \<le> he_refCount (res s p)"
  shows "VMCIResource_Release cb p s' = (VMCI_SUCCESS, s'\<lparr>resourceTable := resourceTable s\<rparr>)"
proof -
  have p: "res s' p = inc_ref (res s p)" using assms(1) by (simp add: res_def upd_res_def)
  with assms(2) have "VMCIResource_Release cb p s'
      = (VMCI_SUCCESS, upd_res p (\<lambda>r. r\<lparr>he_refCount := he_refCount r - 1\<rparr>) s')"
    by (intro VMCIResource_Release_eq) simp
  also have "upd_res p (\<lambda>r. r\<lparr>he_refCount := he_refCount r - 1\<rparr>) s' = s'\<lparr>resourceTable := resourceTable s\<rparr>"
    unfolding upd_res_def p by (simp add: assms(1) inc_ref_def) (simp add: upd_res_def res_def)
  finally show ?thesis .
qed



text \<open>
  The size of a datagram is a sum in a \<open>size_t\<close>: a payload size of \<open>2 ^ 64 - 24\<close> gives the
  size 0.  Such a datagram is accepted without changing the bytes accounted.
\<close>

lemma enqueue_wrapped:
  assumes "VMCI_DG_SIZE dg = 0" "cx_datagramQueueSize c < VMCI_MAX_DATAGRAM_QUEUE_SIZE"
  shows "fst (enqueue_locked dg c) = 0" "queued (snd (enqueue_locked dg c)) = queued c @ [dg]"
    "cx_datagramQueueSize (snd (enqueue_locked dg c)) = cx_datagramQueueSize c"
  using assms by (auto simp: enqueue_locked_def queued_def Let_def dest: leD)

text \<open>
  A datagram that claims a payload of 2^64 - 24 bytes passes the size check, and every
  authorised dispatch of it is accepted with result 0 and leaves the byte count of the
  receiver's queue alone, so the limit does not bound how many of them are queued.
\<close>

theorem wrapped_size_bypasses_limit:
  assumes inv: "dg_inv s" and size: "dg_payloadSize dg = 18446744073709551592"
    and d: "route s dg = Some d" "d \<noteq> VMCI_HOST_CONTEXT_ID" and may: "may_send s contextID d dg"
    and p: "ctx_lookup s d = Some p" "cx_datagramQueueSize (ctx_mem s p) < VMCI_MAX_DATAGRAM_QUEUE_SIZE"
  shows "(\<exists>s'. VMCIDatagram_Dispatch E True True contextID dg s = (VMCI_SUCCESS, s')
      \<and> queued (ctx_mem s' p) = queued (ctx_mem s p) @ [dg]
      \<and> cx_datagramQueueSize (ctx_mem s' p) = cx_datagramQueueSize (ctx_mem s p))
    \<and> (let c = ((\<lambda>c. snd (enqueue_locked dg c)) ^^ n) (ctx_mem s p)
      in length (queued c) = length (queued (ctx_mem s p)) + n
         \<and> cx_datagramQueueSize c = cx_datagramQueueSize (ctx_mem s p))"
proof -
  have zero: "VMCI_DG_SIZE dg = 0" by (simp add: VMCI_DG_SIZE_def size)
  have cinv: "ctx_inv s" using inv by (simp add: dg_inv_def)
  have al: "VMCI_AllocKernelMem True 0" by (simp add: VMCI_AllocKernelMem_def)
  have "VMCIDatagram_Dispatch E True True contextID dg s
      = (VMCI_SUCCESS, upd_ctx p (\<lambda>c. snd (enqueue_locked dg c)) s)"
    using may d p enqueue_wrapped(1) [OF zero p(2)]
    by (auto simp: VMCIDatagram_Dispatch_eq [OF inv] deliver_context_eq [OF inv] may_send_def zero al
        VMCIContext_EnqueueDatagram_eq [OF cinv] split: option.splits)
  moreover have "let c = ((\<lambda>c. snd (enqueue_locked dg c)) ^^ n) (ctx_mem s p)
      in length (queued c) = length (queued (ctx_mem s p)) + n
         \<and> cx_datagramQueueSize c = cx_datagramQueueSize (ctx_mem s p)"
    using p(2) by (induction n) (simp_all add: enqueue_wrapped [OF zero] Let_def)
  ultimately show ?thesis using enqueue_wrapped(2,3) [OF zero p(2)] by simp
qed

theorem wrapped_size_bypasses_limit_witness:
  "\<exists>s'. VMCIDatagram_Dispatch demo_env True True 2
      (demo_msg (VMCI_MAKE_HANDLE 2 20) (VMCI_MAKE_HANDLE 5 0) 18446744073709551592) demo_dgs = (VMCI_SUCCESS, s')"
proof -
  let ?m = "demo_msg (VMCI_MAKE_HANDLE 2 20) (VMCI_MAKE_HANDLE 5 0) 18446744073709551592"
  have "route demo_dgs ?m = Some 5" by (simp add: route_def demo_msg_def)
  moreover have "may_send demo_dgs 2 5 ?m"
    using demo_dgs_facts by (simp add: may_send_def source_error_def demo_msg_def VMCIDenyInteraction_iff)
  moreover have "cx_datagramQueueSize (ctx_mem demo_dgs 3) < VMCI_MAX_DATAGRAM_QUEUE_SIZE"
    by (simp add: demo_dgs_facts demo_ctx_def new_context_def)
  ultimately show ?thesis
    using wrapped_size_bypasses_limit [OF demo_dgs_inv, where dg = ?m and d = 5 and contextID = 2 and p = 3
        and E = demo_env] demo_dgs_facts(1)
    by (auto simp: demo_msg_def)
qed



text \<open>
  The queue of a host process is first in, first out over any interleaving of arriving
  datagrams and reads that find the queue as it is.
\<close>

theorem process_queue_fifo:
  assumes "dp_inv c" "\<forall>dg. Enqueue dg \<in> set ops \<longrightarrow> dg_fits dg"
    and "queue_run (DatagramProcessNotifyCB True True) dp_dequeue ops c = (accepted, delivered, c')"
  shows "delivered @ dp_queued c' = dp_queued c @ accepted \<and> dp_inv c'"
  using dpq.fifo [OF assms] by simp

theorem process_queue_fifo_witness:
  "case queue_run (DatagramProcessNotifyCB True True) dp_dequeue [Enqueue (demo_dg 8), Dequeue 100, Dequeue 100]
      (dgp_mem demo_dgs 2) of (accepted, delivered, c') \<Rightarrow>
     accepted = [demo_dg 8] \<and> delivered = [demo_dg 8] \<and> dp_queued c' = []"
proof -
  let ?ops = "[Enqueue (demo_dg 8), Dequeue 100, Dequeue 100]"
  obtain acc del c' where run: "queue_run (DatagramProcessNotifyCB True True) dp_dequeue ?ops (dgp_mem demo_dgs 2)
      = (acc, del, c')"
    by (metis prod_cases3)
  then have "acc = [demo_dg 8]" "del = [demo_dg 8]"
    by (auto simp: demo_dgs_def DatagramProcessNotifyCB_def demo_dg_def VMCI_DG_SIZE_def Let_def
        VMCI_AllocKernelMem_def KMALLOC_MAX_SIZE_def dp_dequeue_def)
  moreover have "dp_inv (dgp_mem demo_dgs 2)" by (simp add: demo_dgs_def dp_inv_def)
  moreover have "\<forall>dg. Enqueue dg \<in> set ?ops \<longrightarrow> dg_fits dg"
    by (auto simp: dg_fits_def demo_dg_def VMCI_DG_SIZE_def)
  moreover have "dp_queued (dgp_mem demo_dgs 2) = []" by (simp add: demo_dgs_def dp_queued_def)
  ultimately show ?thesis using process_queue_fifo [OF _ _ run] by (simp add: run del: queue_run.simps)
qed

section \<open>Destroying an endpoint\<close>

lemma obj_live_frames [simp]:
  "obj_live (upd_res p f s) = obj_live s" "obj_live (drop_client p c s) = obj_live s"
  by (simp_all add: upd_res_def drop_client_def upd_client_def)

lemma obj_live_remove_clients: "clients_ok s p \<Longrightarrow> obj_live (remove_clients p s) = obj_live s"
proof -
  have "obj_live (fold (drop_client p) cs s) = obj_live s" for cs by (induction cs arbitrary: s) simp_all
  then show "clients_ok s p \<Longrightarrow> obj_live (remove_clients p s) = obj_live s" by (simp add: remove_clients_eq)
qed

lemma VMCIHashTable_ReleaseEntry_last_mem:
  assumes "ht_inv t" "ht_ref t e = 1"
  shows "\<exists>t'. VMCIHashTable_ReleaseEntry t e = (VMCI_SUCCESS_ENTRY_DEAD, t')
    \<and> ht_mem t' = (ht_mem t)(e := (ht_mem t e)\<lparr>he_refCount := 0\<rparr>)
    \<and> ht_lookup t' = (ht_lookup t)(ht_handle t e := None)"
proof -
  let ?t1 = "ht_set_ref e 0 t"
  obtain r2 t2 where u2: "HashTableUnlinkEntry t e = (r2, t2)" by fastforce
  have e: "VMCIHashTable_ReleaseEntry t e = (VMCI_SUCCESS_ENTRY_DEAD, ht_set_ref e 0 t2)"
    using assms(2) by (simp add: VMCIHashTable_ReleaseEntry_def VMCIHashTableReleaseEntryLocked_def u2
        HashTableUnlinkEntry_set_ref)
  with HashTableUnlinkEntry_correct [OF assms(1), of e, unfolded u2 prod.case] show ?thesis by simp
qed

lemma upd_res_dg [simp]:
  "wellKnownTable (upd_res p f s) = wellKnownTable s" "events (upd_res p f s) = events s"
  "ctx_inv (upd_res p f s) = ctx_inv s"
  by (simp_all add: upd_res_def ctx_inv_def)

lemma dg_inv_upd_res: "ht_inv (resourceTable (upd_res p f s)) \<Longrightarrow> dg_inv s \<Longrightarrow> dg_inv (upd_res p f s)"
  by (simp add: dg_inv_def)

text \<open>The release by \<open>DatagramReleaseCB\<close>: the last one runs the callback, which signals the event.\<close>

lemma DatagramReleaseCB_eq:
  assumes inv: "ht_inv (resourceTable s)" and n: "he_refCount (res s p) = n"
    and h: "ht_lookup (resourceTable s) h = None" "he_handle (res s p) = h"
    and r: "r_clients (res s p) = []" "r_containerFreeCB (res s p) = Some DatagramFreeCB_ref"
      "r_containerObject (res s p) = p" "r_registrationCount (res s p) = 0"
      "r_object (res s p) = DatagramEntry flags cb cd False pf"
    and env: "env_cb E DatagramFreeCB_ref = DatagramFreeCB unreg"
  shows "\<exists>t. DatagramReleaseCB E p s = s\<lparr>resourceTable := t\<rparr> \<and> ht_lookup t h = None
    \<and> he_refCount (ht_mem t p) = n - 1 \<and> r_object (ht_mem t p) = DatagramEntry flags cb cd (n = 1) pf"
proof (cases "n = 1")
  case True
  from VMCIHashTable_ReleaseEntry_last_mem [OF inv, of p] n True obtain t'
    where t': "VMCIHashTable_ReleaseEntry (resourceTable s) p = (VMCI_SUCCESS_ENTRY_DEAD, t')"
      "ht_mem t' = (ht_mem (resourceTable s))(p := (res s p)\<lparr>he_refCount := 0\<rparr>)"
      "ht_lookup t' = (ht_lookup (resourceTable s))(h := None)"
    using h(2) by (auto simp: ht_ref_res ht_handle_res) (auto simp: res_def)
  let ?s1 = "s\<lparr>resourceTable := t'\<rparr>"
  have p1: "res ?s1 p = (res s p)\<lparr>he_refCount := 0\<rparr>" by (simp add: res_def t'(2))
  have "DatagramReleaseCB E p s = upd_res p (\<lambda>r. r\<lparr>r_object := DatagramEntry flags cb cd True pf\<rparr>) ?s1"
    using r by (simp add: DatagramReleaseCB_def VMCIResource_Release_def t'(1) VMCIResourceDoRemove_def
        remove_clients_def p1 env DatagramFreeCB_def) (simp add: upd_res_def p1 r)
  moreover have "ht_lookup (resourceTable (upd_res p (\<lambda>r. r\<lparr>r_object := DatagramEntry flags cb cd True pf\<rparr>) ?s1)) h = None"
    by (subst upd_res_table(2)) (simp_all add: t'(3))
  ultimately show ?thesis
    using True by (intro exI [of _ "resourceTable (upd_res p (\<lambda>r. r\<lparr>r_object := DatagramEntry flags cb cd True pf\<rparr>) ?s1)"])
      (simp add: upd_res_def p1)
next
  case False
  let ?f = "\<lambda>r :: VMCIResource. r\<lparr>he_refCount := he_refCount r - 1\<rparr>"
  have e: "DatagramReleaseCB E p s = upd_res p ?f s"
    using False n by (simp add: DatagramReleaseCB_def VMCIResource_Release_eq)
  have "ht_lookup (resourceTable (upd_res p ?f s)) h = None"
    by (subst upd_res_table(2)) (simp_all add: h)
  with e n r show ?thesis
    by (intro exI [of _ "resourceTable (upd_res p ?f s)"]) (simp add: upd_res_def False)
qed

text \<open>
  Destroying an endpoint takes its handle out of the registry.  With no other holder the
  call returns at once and frees the endpoint.  With other holders it sleeps until they have
  gone; but when a signal for the process ends the sleep, the endpoint is freed while
  they still hold references to it.
\<close>

theorem destroy_hnd_correct:
  assumes inv: "dg_inv s" and look: "res_lookup s h VMCI_RESOURCE_TYPE_DATAGRAM = Some p" and ok: "clients_ok s p"
    and n: "he_refCount (res s p) = n"
    and r: "r_containerFreeCB (res s p) = Some DatagramFreeCB_ref" "r_containerObject (res s p) = p"
      "r_registrationCount (res s p) = 0" "r_object (res s p) = DatagramEntry flags cb cd False pf"
    and flags: "flags AND VMCI_FLAG_WELLKNOWN_DG_HND = 0"
    and env: "env_cb E DatagramFreeCB_ref = DatagramFreeCB unreg"
  shows "case VMCIDatagram_DestroyHnd E interrupted h s of
      None \<Rightarrow> 1 < n \<and> \<not> interrupted
    | Some (result, s') \<Rightarrow> (n = 1 \<or> interrupted) \<and> result = VMCI_SUCCESS \<and> obj_live s' = obj_live s - {p}
        \<and> ht_lookup (resourceTable s') h = None \<and> he_refCount (res s' p) = n - 1"
proof -
  let ?s1 = "upd_res p inc_ref s"
  have rinv: "ht_inv (resourceTable s)" using inv by (simp add: dg_inv_def)
  have ref: "1 \<le> n" using res_lookup_ref [OF rinv look] n by simp
  have inv1: "ht_inv (resourceTable ?s1)" using rinv by (intro ht_inv_upd_res) auto
  have tab: "ht_lookup (resourceTable ?s1) = ht_lookup (resourceTable s)" by (subst upd_res_table(2)) simp_all
  have look1: "res_lookup ?s1 h VMCI_RESOURCE_TYPE_DATAGRAM = Some p"
    using look by (auto simp: res_lookup_def tab split: option.splits if_splits)
  obtain t where rem: "VMCIResource_Remove (env_cb E) h VMCI_RESOURCE_TYPE_DATAGRAM ?s1
      = (remove_clients p ?s1)\<lparr>resourceTable := t\<rparr>" "ht_inv t" "ht_lookup t h = None"
    "ht_mem t p = (res ?s1 p)\<lparr>r_clients := [], he_refCount := n\<rparr>"
    using VMCIResource_Remove_held [OF inv1 look1, of "n + 1" "env_cb E"] ok n ref by auto
  let ?s2 = "(remove_clients p ?s1)\<lparr>resourceTable := t\<rparr>"
  have p2: "res ?s2 p = (res s p)\<lparr>he_refCount := n, r_clients := []\<rparr>"
    by (simp add: res_def rem(4)) (simp add: res_def upd_res_def inc_ref_def)
  obtain t3 where rel: "DatagramReleaseCB E p ?s2 = ?s2\<lparr>resourceTable := t3\<rparr>" "ht_lookup t3 h = None"
    "he_refCount (ht_mem t3 p) = n - 1" "r_object (ht_mem t3 p) = DatagramEntry flags cb cd (n = 1) pf"
    using DatagramReleaseCB_eq [of ?s2 p n h flags cb cd pf E unreg] rem(2,3) r env p2 res_lookup_D(3) [OF look]
    by auto
  have live: "obj_live (remove_clients p ?s1) = obj_live s" using ok by (simp add: obj_live_remove_clients)
  have "VMCIDatagram_DestroyHnd E interrupted h s = (if n \<noteq> 1 \<and> \<not> interrupted then None
      else Some (VMCI_SUCCESS, (remove_clients p ?s1)\<lparr>resourceTable := t3, obj_live := obj_live s - {p}\<rparr>))"
    using look rel(4) flags by (simp add: VMCIDatagram_DestroyHnd_def VMCIDatagramDestroyHndInt_def
        VMCIResource_Get_eq [OF rinv] rem(1) rel(1) res_def signalled_def entry_flags_def live Let_def)
  with ref rel(2,3) show ?thesis by (auto simp: res_def)
qed

text \<open>An endpoint that one other thread holds.\<close>

theorem destroy_hnd_correct_witness:
  "\<exists>s'. VMCIDatagram_DestroyHnd (demo_env\<lparr>env_cb := (\<lambda>_. DatagramFreeCB (\<lambda>_ s. s))\<rparr>) True (VMCI_MAKE_HANDLE 2 20)
      (upd_res 10 inc_ref demo_dgs) = Some (VMCI_SUCCESS, s') \<and> obj_live s' = {} \<and> he_refCount (res s' 10) = 1"
proof -
  let ?E = "demo_env\<lparr>env_cb := (\<lambda>_. DatagramFreeCB (\<lambda>_ s. s))\<rparr>"
  let ?s = "upd_res 10 inc_ref demo_dgs"
  have res10: "res demo_dgs 10 = demo_resource" by (simp add: res_def) (simp add: demo_res_def)
  have "ht_inv (resourceTable ?s)" using demo_res_facts(1) by (intro ht_inv_upd_res) simp_all
  then have inv: "dg_inv ?s" using demo_dgs_inv by (rule dg_inv_upd_res)
  have "ht_lookup (resourceTable ?s) = ht_lookup (resourceTable demo_res)"
    by (subst upd_res_table(2)) simp_all
  then have look: "res_lookup ?s (VMCI_MAKE_HANDLE 2 20) VMCI_RESOURCE_TYPE_DATAGRAM = Some 10"
    by (simp add: res_lookup_def demo_res_facts res10) (simp add: demo_resource_def)
  have "clients_ok demo_dgs 10" using demo_res_facts(2) [of 10]
    by (simp add: clients_ok_def res10) (simp add: demo_dgs_def demo_res_def res_def)
  then have ok: "clients_ok ?s 10" by simp
  have r: "he_refCount (res ?s 10) = 2" "r_containerFreeCB (res ?s 10) = Some DatagramFreeCB_ref"
    "r_containerObject (res ?s 10) = 10" "r_registrationCount (res ?s 10) = 0"
    "r_object (res ?s 10) = DatagramEntry 0 (ClientRecvCB 4) 77 False 0"
    by (simp_all add: res10) (simp_all add: demo_resource_def)
  have "obj_live ?s = {10}" by (simp add: demo_dgs_def)
  with destroy_hnd_correct [OF inv look ok r, of ?E "\<lambda>_ s. s" True] show ?thesis
    by (auto split: option.splits)
qed

end
