(* ===== verification/Group.thy ===== *)
theory Group
  imports Datagram
begin

text \<open>
  \<open>vmci-only/common/vmciGroup.c\<close>: a group is a resource whose container holds an array of
  member handles.  Every member is also a client of the group's resource, with the privilege
  to assign clients allowed or denied.
\<close>

section \<open>Operations\<close>

definition GroupFreeCB :: "ptr \<Rightarrow> 'a dg_state_scheme \<Rightarrow> 'a dg_state_scheme" where
  "GroupFreeCB p s = s\<lparr>obj_live := obj_live s - {p}\<rparr>"

text \<open>
  \<open>mem\<close>, \<open>avail\<close> and \<open>client\<close> are the answers of the allocator for the group, its array and the
  owner client; \<open>None\<close>: the driver panics since no resource id is left.
\<close>

definition VMCIGroup_Create ::
  "ptr option \<Rightarrow> bool \<Rightarrow> ptr option \<Rightarrow> 'a dg_state_scheme \<Rightarrow> (VMCIHandle \<times> 'a dg_state_scheme) option" where
  "VMCIGroup_Create mem avail client s =
     (case VMCIResource_GetID s of None \<Rightarrow> None
      | Some (resourceID, s1) \<Rightarrow> Some (
          case mem of None \<Rightarrow> (VMCI_INVALID_HANDLE, s1)
          | Some p \<Rightarrow>
              (case VMCIHandleArray_Create avail 0 of None \<Rightarrow> (VMCI_INVALID_HANDLE, s1)
               | Some memberArray \<Rightarrow>
                   let handle = VMCI_MAKE_HANDLE VMCI_HOST_CONTEXT_ID resourceID;
                       s2 = upd_res p (\<lambda>r. r\<lparr>r_object := Group memberArray\<rparr>)
                              (s1\<lparr>obj_live := insert p (obj_live s1)\<rparr>);
                       (result, s3) = VMCIResource_Add client p VMCI_RESOURCE_TYPE_GROUP handle
                         (VMCI_MAKE_HANDLE VMCI_HOST_CONTEXT_ID VMCI_CONTEXT_RESOURCE_ID)
                         [VMCI_PRIV_ASSIGN_CLIENT] (Some GroupFreeCB_ref) p s2
                   in if result \<noteq> VMCI_SUCCESS
                      then (VMCI_INVALID_HANDLE, s3\<lparr>obj_live := obj_live s3 - {p}\<rparr>)
                      else (handle, s3))))"

definition memberArray :: "'a dg_state_scheme \<Rightarrow> ptr \<Rightarrow> VMCIHandleArray" where
  "memberArray s p = (case r_object (res s p) of Group a \<Rightarrow> a | _ \<Rightarrow> \<lparr>capacity = 0, asize = 0, entries = []\<rparr>)"

definition set_members :: "VMCIHandleArray \<Rightarrow> VMCIResource \<Rightarrow> VMCIResource" where
  "set_members a r = (case r_object r of Group _ \<Rightarrow> r\<lparr>r_object := Group a\<rparr> | _ \<Rightarrow> r)"

text \<open>The loop of \<open>VMCIGroup_Destroy\<close>; an invalid handle stands for the end.\<close>

function remove_members :: "VMCIHandleArray \<Rightarrow> VMCIHandleArray" where
  "remove_members a =
     (let (memberHandle, a') = VMCIHandleArray_RemoveTail a
      in if VMCI_HANDLE_EQUAL memberHandle VMCI_INVALID_HANDLE then a' else remove_members a')"
  by pat_completeness auto
termination
  by (relation "measure (\<lambda>a. unat (asize a))")
    (auto simp: VMCIHandleArray_RemoveTail_def unat_pred split: if_splits)

definition VMCIGroup_Destroy :: "'a dg_state_scheme env \<Rightarrow> VMCIHandle \<Rightarrow> 'a dg_state_scheme \<Rightarrow> 'a dg_state_scheme" where
  "VMCIGroup_Destroy E groupHandle s =
     (case VMCIResource_Get groupHandle VMCI_RESOURCE_TYPE_GROUP s of
        (None, s1) \<Rightarrow> s1
      | (Some p, s1) \<Rightarrow>
          let s2 = VMCIResource_Remove (env_cb E) groupHandle VMCI_RESOURCE_TYPE_GROUP s1;
              s3 = upd_res p (set_members (remove_members (memberArray s2 p))) s2
          in snd (VMCIResource_Release (env_cb E) p s3))"

definition VMCIGroup_AddMember ::
  "'a dg_state_scheme env \<Rightarrow> bool \<Rightarrow> ptr option \<Rightarrow> VMCIHandle \<Rightarrow> VMCIHandle \<Rightarrow> bool
    \<Rightarrow> 'a dg_state_scheme \<Rightarrow> int \<times> 'a dg_state_scheme" where
  "VMCIGroup_AddMember E avail client groupHandle memberHandle canAssign s =
     (if VMCI_HANDLE_EQUAL memberHandle VMCI_INVALID_HANDLE then (VMCI_ERROR_INVALID_ARGS, s)
      else case VMCIResource_Get groupHandle VMCI_RESOURCE_TYPE_GROUP s of
        (None, s1) \<Rightarrow> (VMCI_ERROR_INVALID_ARGS, s1)
      | (Some p, s1) \<Rightarrow>
          let s2 = upd_res p (set_members (VMCIHandleArray_AppendEntry avail (memberArray s1 p) memberHandle)) s1;
              (result, s3) = (if canAssign
                then VMCIResource_AddClientPrivileges (env_cb E) client groupHandle memberHandle
                       [VMCI_PRIV_ASSIGN_CLIENT] [] s2
                else VMCIResource_AddClientPrivileges (env_cb E) client groupHandle memberHandle
                       [] [VMCI_PRIV_ASSIGN_CLIENT] s2)
          in (result, snd (VMCIResource_Release (env_cb E) p s3)))"

definition VMCIGroup_RemoveMember ::
  "'a dg_state_scheme env \<Rightarrow> VMCIHandle \<Rightarrow> VMCIHandle \<Rightarrow> 'a dg_state_scheme \<Rightarrow> int \<times> 'a dg_state_scheme" where
  "VMCIGroup_RemoveMember E groupHandle memberHandle s =
     (if VMCI_HANDLE_EQUAL memberHandle VMCI_INVALID_HANDLE then (VMCI_ERROR_INVALID_ARGS, s)
      else case VMCIResource_Get groupHandle VMCI_RESOURCE_TYPE_GROUP s of
        (None, s1) \<Rightarrow> (VMCI_ERROR_INVALID_ARGS, s1)
      | (Some p, s1) \<Rightarrow>
          let s2 = upd_res p (set_members (snd (VMCIHandleArray_RemoveEntry (memberArray s1 p) memberHandle))) s1;
              (result, s3) = VMCIResource_RemoveAllClientPrivileges (env_cb E) groupHandle memberHandle s2
          in (result, snd (VMCIResource_Release (env_cb E) p s3)))"

definition VMCIGroup_IsMember ::
  "'a dg_state_scheme env \<Rightarrow> VMCIHandle \<Rightarrow> VMCIHandle \<Rightarrow> 'a dg_state_scheme \<Rightarrow> bool \<times> 'a dg_state_scheme" where
  "VMCIGroup_IsMember E groupHandle memberHandle s =
     (if VMCI_HANDLE_EQUAL memberHandle VMCI_INVALID_HANDLE then (False, s)
      else case VMCIResource_Get groupHandle VMCI_RESOURCE_TYPE_GROUP s of
        (None, s1) \<Rightarrow> (False, s1)
      | (Some p, s1) \<Rightarrow> (VMCIHandleArray_HasEntry (memberArray s1 p) memberHandle,
                         snd (VMCIResource_Release (env_cb E) p s1)))"

section \<open>Operations without the reference counting\<close>

definition res_ok :: "'a dg_state_scheme \<Rightarrow> bool" where
  [inv_defs]: "res_ok s \<longleftrightarrow> ht_inv (resourceTable s) \<and> (\<forall>p. linked (resourceTable s) p \<longrightarrow> clients_ok s p)"

lemma set_members_fields [simp]:
  "he_handle (set_members a r) = he_handle r" "he_refCount (set_members a r) = he_refCount r"
  "r_clients (set_members a r) = r_clients r" "r_type (set_members a r) = r_type r"
  "r_validPrivs (set_members a r) = r_validPrivs r"
  by (simp_all add: set_members_def split: container.split)

lemma memberArray_inc [simp]: "memberArray (upd_res p inc_ref s) q = memberArray s q"
  by (simp add: memberArray_def)

lemma set_members_inc [simp]:
  "upd_res p (set_members a) (upd_res p inc_ref s) = upd_res p inc_ref (upd_res p (set_members a) s)"
  by (rule inc_ref_commute) (simp_all add: set_members_def split: container.split)

lemma clients_ok_members [simp]: "clients_ok (upd_res p (set_members a) s) q = clients_ok s q"
  by (simp add: clients_ok_def)

lemma client_lookup_members [simp]: "client_lookup (upd_res p (set_members a) s) q h = client_lookup s q h"
  by (simp add: client_lookup_def)

lemma res_ok_upd:
  assumes "res_ok s" "\<And>r. he_handle (f r) = he_handle r" "\<And>r. he_refCount r \<le> he_refCount (f r)"
    "\<And>r. r_clients (f r) = r_clients r"
  shows "res_ok (upd_res p f s)"
proof -
  have "linked (resourceTable (upd_res p f s)) = linked (resourceTable s)" by (rule upd_res_table) (rule assms)
  moreover have "clients_ok (upd_res p f s) q = clients_ok s q" for q
    by (simp add: clients_ok_def assms(4))
  ultimately show ?thesis using assms(1-3) by (simp add: res_ok_def ht_inv_upd_res)
qed

lemma res_lookup_upd:
  assumes "\<And>r. he_handle (f r) = he_handle r" "\<And>r. r_type (f r) = r_type r"
  shows "res_lookup (upd_res p f s) = res_lookup s"
proof -
  have "ht_lookup (resourceTable (upd_res p f s)) = ht_lookup (resourceTable s)"
    by (rule upd_res_table) (rule assms)
  then show ?thesis by (auto simp: res_lookup_def fun_eq_iff assms(2) split: option.split)
qed

text \<open>A group found by its type is found whatever the type asked for.\<close>

lemma res_lookup_any: "res_lookup s h ty = Some p \<Longrightarrow> res_lookup s h VMCI_RESOURCE_TYPE_ANY = Some p"
  by (auto simp: res_lookup_def split: if_splits option.splits)

lemma group_call_eqs:
  fixes a :: VMCIHandleArray
  assumes ok: "res_ok s" and look: "res_lookup s gh ty = Some p" and m: "gh \<noteq> VMCI_INVALID_HANDLE"
  defines "s2 \<equiv> upd_res p inc_ref (upd_res p (set_members a) s)"
  shows "ht_inv (resourceTable s2)" "\<And>p. linked (resourceTable s2) p \<Longrightarrow> clients_ok s2 p"
    "res_lookup s2 gh VMCI_RESOURCE_TYPE_ANY = Some p" "clients_ok (upd_res p (set_members a) s) p"
    "he_refCount (res (upd_res p (set_members a) s) p) \<ge> 1"
proof -
  have "res_ok s2" unfolding s2_def using ok by (intro res_ok_upd) auto
  then show "ht_inv (resourceTable s2)" "\<And>p. linked (resourceTable s2) p \<Longrightarrow> clients_ok s2 p"
    by (simp_all add: res_ok_def)
  show "res_lookup s2 gh VMCI_RESOURCE_TYPE_ANY = Some p"
    unfolding s2_def using res_lookup_any [OF look] by (simp add: res_lookup_upd)
  show "clients_ok (upd_res p (set_members a) s) p"
    using ok res_lookup_D(2) [OF look] by (simp add: res_ok_def)
  show "he_refCount (res (upd_res p (set_members a) s) p) \<ge> 1"
    using ok res_lookup_ref [OF _ look] by (simp add: res_ok_def)
qed

lemma VMCIGroup_AddMember_eq:
  assumes ok: "res_ok s"
  shows "VMCIGroup_AddMember E avail client gh mh canAssign s =
    (if mh = VMCI_INVALID_HANDLE then (VMCI_ERROR_INVALID_ARGS, s)
     else case res_lookup s gh VMCI_RESOURCE_TYPE_GROUP of None \<Rightarrow> (VMCI_ERROR_INVALID_ARGS, s)
     | Some p \<Rightarrow> add_privs client p mh (if canAssign then [VMCI_PRIV_ASSIGN_CLIENT] else [])
         (if canAssign then [] else [VMCI_PRIV_ASSIGN_CLIENT])
         (upd_res p (set_members (VMCIHandleArray_AppendEntry avail (memberArray s p) mh)) s))"
proof (cases "res_lookup s gh VMCI_RESOURCE_TYPE_GROUP")
  case (Some p)
  let ?a = "VMCIHandleArray_AppendEntry avail (memberArray s p) mh"
  have gh: "gh \<noteq> VMCI_INVALID_HANDLE" using Some by (auto simp: res_lookup_def)
  note eqs = group_call_eqs [OF ok Some gh, of ?a]
  have ref: "1 \<le> he_refCount (res (snd (add_privs client p mh allow deny (upd_res p (set_members ?a) s))) p)"
    for allow deny
    using eqs(5) by (subst he_refCount_add_privs [OF eqs(4)])
  show ?thesis
    using Some gh ok
    by (simp add: VMCIGroup_AddMember_def VMCIResource_Get_eq res_ok_def Let_def split_beta
        VMCIResource_AddClientPrivileges_eq [OF eqs(1,2)] eqs(3) add_privs_inc [OF eqs(4)] release_after_inc [OF ref])
qed (use ok in \<open>simp add: VMCIGroup_AddMember_def VMCIResource_Get_eq res_ok_def\<close>)

lemma VMCIGroup_RemoveMember_eq:
  assumes ok: "res_ok s"
  shows "VMCIGroup_RemoveMember E gh mh s =
    (if mh = VMCI_INVALID_HANDLE then (VMCI_ERROR_INVALID_ARGS, s)
     else case res_lookup s gh VMCI_RESOURCE_TYPE_GROUP of None \<Rightarrow> (VMCI_ERROR_INVALID_ARGS, s)
     | Some p \<Rightarrow>
         let s1 = upd_res p (set_members (snd (VMCIHandleArray_RemoveEntry (memberArray s p) mh))) s
         in (case client_lookup s p mh of None \<Rightarrow> (VMCI_ERROR_INVALID_ARGS, s1)
             | Some c \<Rightarrow> (VMCI_SUCCESS, drop_client p c s1)))"
proof (cases "res_lookup s gh VMCI_RESOURCE_TYPE_GROUP")
  case (Some p)
  let ?a = "snd (VMCIHandleArray_RemoveEntry (memberArray s p) mh)"
  have gh: "gh \<noteq> VMCI_INVALID_HANDLE" using Some by (auto simp: res_lookup_def)
  note eqs = group_call_eqs [OF ok Some gh, of ?a]
  have ref: "1 \<le> he_refCount (res (drop_client p c (upd_res p (set_members ?a) s)) p)" for c
    using eqs(5) by (simp add: drop_client_mem)
  show ?thesis
    using Some gh ok
    by (auto simp: VMCIGroup_RemoveMember_def VMCIResource_Get_eq res_ok_def Let_def split_beta
        VMCIResource_RemoveAllClientPrivileges_eq [OF eqs(1,2)] eqs(3) drop_client_inc
        release_after_inc [OF ref] release_after_inc [OF eqs(5)] split: option.split)
qed (use ok in \<open>simp add: VMCIGroup_RemoveMember_def VMCIResource_Get_eq res_ok_def\<close>)

lemma VMCIGroup_IsMember_eq:
  assumes ok: "res_ok s"
  shows "VMCIGroup_IsMember E gh mh s =
    (mh \<noteq> VMCI_INVALID_HANDLE \<and> (case res_lookup s gh VMCI_RESOURCE_TYPE_GROUP of None \<Rightarrow> False
       | Some p \<Rightarrow> VMCIHandleArray_HasEntry (memberArray s p) mh), s)"
proof (cases "res_lookup s gh VMCI_RESOURCE_TYPE_GROUP")
  case (Some p)
  have "1 \<le> he_refCount (res s p)" using ok res_lookup_ref [OF _ Some] by (simp add: res_ok_def)
  from release_after_inc [OF this] Some ok show ?thesis
    by (auto simp: VMCIGroup_IsMember_def VMCIResource_Get_eq res_ok_def)
qed (use ok in \<open>auto simp: VMCIGroup_IsMember_def VMCIResource_Get_eq res_ok_def\<close>)

section \<open>Members and their privileges\<close>

lemma add_privs_frame:
  fixes mem :: "ptr option" and h :: VMCIHandle and allow deny :: "nat list" and c :: ptr
  assumes "clients_ok s p"
  defines "s' \<equiv> snd (add_privs mem p h allow deny s)"
  shows "ht_entries (resourceTable s') = ht_entries (resourceTable s)"
    "ht_size (resourceTable s') = ht_size (resourceTable s)"
    "he_handle (res s' q) = he_handle (res s q)" "he_refCount (res s' q) = he_refCount (res s q)"
    "r_type (res s' q) = r_type (res s q)" "r_object (res s' q) = r_object (res s q)"
    "q \<noteq> p \<Longrightarrow> r_clients (res s' q) = r_clients (res s q)"
  using assms(1) unfolding s'_def
  by (auto simp: add_privs_eq ResourceAddClient_def Let_def res_def upd_res_def upd_client_def split: option.split)

lemma res_lookup_cong:
  assumes "ht_entries (resourceTable s') = ht_entries (resourceTable s)"
    "ht_size (resourceTable s') = ht_size (resourceTable s)"
    "\<And>q. he_handle (res s' q) = he_handle (res s q)" "\<And>q. r_type (res s' q) = r_type (res s q)"
  shows "ht_handle (resourceTable s') = ht_handle (resourceTable s)"
    "linked (resourceTable s') = linked (resourceTable s)" "res_lookup s' = res_lookup s"
proof -
  show h: "ht_handle (resourceTable s') = ht_handle (resourceTable s)"
    using assms(3) by (simp add: ht_handle_res fun_eq_iff)
  have l: "ht_lookup (resourceTable s') = ht_lookup (resourceTable s)"
    using assms(1,2) by (simp add: ht_lookup_def ht_idx_def h fun_eq_iff)
  show "linked (resourceTable s') = linked (resourceTable s)" by (simp add: linked_def l h fun_eq_iff)
  show "res_lookup s' = res_lookup s"
    using assms(4) by (auto simp: res_lookup_def l fun_eq_iff split: option.split)
qed

lemma clients_ok_privs:
  assumes "clients_ok s q" "\<And>x. length (f x) = length x"
  shows "clients_ok (upd_client d (\<lambda>x. x\<lparr>rc_privilege := f (rc_privilege x)\<rparr>) s) q"
proof -
  have "(\<lambda>c. rc_handle (cl_mem (upd_client d (\<lambda>x. x\<lparr>rc_privilege := f (rc_privilege x)\<rparr>) s) c))
      = (\<lambda>c. rc_handle (cl_mem s c))"
    by auto
  with assms show ?thesis unfolding clients_ok_def by simp
qed

lemma add_privs_others:
  assumes "clients_ok s p" "clients_ok s q" "q \<noteq> p" "c \<notin> cl_live s"
  shows "clients_ok (snd (add_privs (Some c) p h allow deny s)) q"
proof -
  have "c \<notin> set (r_clients (res s q))" using assms(2,4) by (auto simp: clients_ok_def)
  moreover have "clients_ok (upd_client d (\<lambda>x. x\<lparr>rc_privilege := set_privs VMCI_PRIV_DENY deny
      (set_privs VMCI_PRIV_ALLOW allow (rc_privilege x))\<rparr>) s) q" for d
    by (rule clients_ok_privs [OF assms(2)]) simp
  ultimately show ?thesis
    using assms(3) by (auto simp: add_privs_eq [OF assms(1)] ResourceAddClient_def Let_def assms(2) split: option.split
        intro!: clients_ok_cong [OF assms(2)]) (auto simp: res_def)
qed

lemma add_privs_res_ok:
  fixes mem :: "ptr option" and h :: VMCIHandle and allow deny :: "nat list" and c :: ptr
  assumes ok: "res_ok s" and p: "linked (resourceTable s) p" and c: "c \<notin> cl_live s"
    and h: "h \<noteq> VMCI_INVALID_HANDLE"
    and valid: "\<And>i. i \<in> set (allow @ deny) \<Longrightarrow> r_validPrivs (res s p) ! i = VMCI_PRIV_VALID"
  defines "s' \<equiv> snd (add_privs (Some c) p h allow deny s)"
  shows "res_ok s'" "res_lookup s' = res_lookup s"
proof -
  have okp: "clients_ok s p" and inv: "ht_inv (resourceTable s)" using ok p by (simp_all add: res_ok_def)
  note fr = add_privs_frame [OF okp, where mem = "Some c" and h = h and allow = allow and deny = deny, folded s'_def]
  note cong = res_lookup_cong [OF fr(1,2,3,5)]
  show "res_lookup s' = res_lookup s" by (rule cong)
  have "ht_inv (resourceTable s')"
    by (rule ht_inv_cong [OF inv fr(1,2) cong(1)])
      (use linked_ref [OF inv] in \<open>simp add: ht_ref_res fr(4)\<close>)
  moreover have "clients_ok s' q" if "linked (resourceTable s) q" for q
  proof (cases "q = p")
    case True
    have "c \<notin> set (r_clients (res s p))" using okp c by (auto simp: clients_ok_def)
    from add_privs_correct [where allow = allow and deny = deny and i = 0, OF okp valid h this] True
    show ?thesis by (simp add: s'_def split_beta)
  next
    case False
    with ok that c show ?thesis by (simp add: s'_def add_privs_others okp res_ok_def)
  qed
  ultimately show "res_ok s'" by (simp add: res_ok_def cong(2))
qed

lemma client_lookup_drop:
  assumes "clients_ok s p" "client_lookup s p h = Some c"
  shows "client_lookup (drop_client p c s) p h = None"
proof -
  have "distinct (map (\<lambda>c. rc_handle (cl_mem s c)) (r_clients (res s p)))"
    using assms(1) by (simp add: clients_ok_def)
  then have "rc_handle (cl_mem s x) \<noteq> h" if "x \<in> set (r_clients (res s p))" "x \<noteq> c" for x
    using that client_lookup_D [OF assms(2)] by (auto simp: distinct_map dest: inj_onD)
  moreover have "distinct (r_clients (res s p))" using assms(1) by (auto simp: clients_ok_def distinct_map)
  ultimately show ?thesis
    by (auto simp: client_lookup_def find_None_iff) (auto simp: drop_client_def)
qed

lemma memberArray_drop [simp]: "memberArray (drop_client p c s) q = memberArray s q"
  by (simp add: memberArray_def drop_client_mem)

lemma memberArray_set: "r_object (res s p) = Group b \<Longrightarrow> memberArray (upd_res p (set_members a) s) p = a"
  by (simp add: memberArray_def set_members_def)

text \<open>
  Adding a member to a group makes it a member, with the privilege to assign clients
  allowed or denied as asked; removing it again restores the members, takes its privileges
  away and leaves every reference count as it was.
\<close>

theorem group_add_remove_member:
  assumes ok: "res_ok s" and look: "res_lookup s gh VMCI_RESOURCE_TYPE_GROUP = Some p"
    and arr: "r_object (res s p) = Group a" "harr_inv a" "append_stores avail a"
    and mh: "mh \<noteq> VMCI_INVALID_HANDLE" and valid: "r_validPrivs (res s p) ! VMCI_PRIV_ASSIGN_CLIENT = VMCI_PRIV_VALID"
    and c: "c \<notin> cl_live s"
  shows "case VMCIGroup_AddMember E avail (Some c) gh mh canAssign s of (r, s1) \<Rightarrow>
    r = VMCI_SUCCESS \<and> res_ok s1 \<and> fst (VMCIGroup_IsMember E gh mh s1)
    \<and> priv_of s1 p mh VMCI_PRIV_ASSIGN_CLIENT = (if canAssign then VMCI_PRIV_ALLOW else VMCI_PRIV_DENY)
    \<and> (case VMCIGroup_RemoveMember E gh mh s1 of (r2, s2) \<Rightarrow>
        r2 = VMCI_SUCCESS \<and> mset (live (memberArray s2 p)) = mset (live a) \<and> client_lookup s2 p mh = None
        \<and> (\<forall>q. he_refCount (res s2 q) = he_refCount (res s q)))"
proof -
  define b where "b = VMCIHandleArray_AppendEntry avail a mh"
  define t where "t = upd_res p (set_members b) s"
  let ?al = "if canAssign then [VMCI_PRIV_ASSIGN_CLIENT] else []" and ?dn = "if canAssign then [] else [VMCI_PRIV_ASSIGN_CLIENT]"
  define s1 where "s1 = snd (add_privs (Some c) p mh ?al ?dn t)"
  have a: "memberArray s p = a" by (simp add: memberArray_def arr(1))
  have okt: "res_ok t" unfolding t_def using ok by (intro res_ok_upd) simp_all
  have lookt: "res_lookup t = res_lookup s" unfolding t_def by (intro res_lookup_upd) simp_all
  have lt: "linked (resourceTable t) p" using res_lookup_D(2) look lookt by metis
  have okp: "clients_ok t p" using okt lt by (simp add: res_ok_def)
  have ct: "c \<notin> cl_live t" and fresh: "c \<notin> set (r_clients (res t p))"
    using c okp by (auto simp: t_def clients_ok_def)
  have vt: "\<And>i. i \<in> set (?al @ ?dn) \<Longrightarrow> r_validPrivs (res t p) ! i = VMCI_PRIV_VALID"
    using valid by (auto simp: t_def split: if_splits)
  note ap = add_privs_correct [where allow = ?al and deny = ?dn and i = VMCI_PRIV_ASSIGN_CLIENT, OF okp vt mh fresh]
  have add: "VMCIGroup_AddMember E avail (Some c) gh mh canAssign s = (VMCI_SUCCESS, s1)"
    and priv: "priv_of s1 p mh VMCI_PRIV_ASSIGN_CLIENT = (if canAssign then VMCI_PRIV_ALLOW else VMCI_PRIV_DENY)"
    using ap look mh unfolding s1_def t_def b_def
    by (simp_all add: VMCIGroup_AddMember_eq [OF ok] a split_beta prod_eq_iff)
  have ok1: "res_ok s1" and look1: "res_lookup s1 = res_lookup s"
    using add_privs_res_ok [OF okt lt ct mh vt] unfolding s1_def lookt by blast+
  have ok1p: "clients_ok s1 p" using ok1 res_lookup_D(2) look look1 by (metis res_ok_def)
  note fr = add_privs_frame [OF okp, where mem = "Some c" and h = mh and allow = ?al and deny = ?dn, folded s1_def]
  have obj: "r_object (res s1 p) = Group b" by (simp add: fr(6)) (simp add: t_def set_members_def arr(1))
  then have m1: "memberArray s1 p = b" by (simp add: memberArray_def)
  obtain d where d: "client_lookup s1 p mh = Some d"
    using priv by (cases "client_lookup s1 p mh") (auto simp: priv_of_def split: if_splits)
  let ?s1 = "upd_res p (set_members (snd (VMCIHandleArray_RemoveEntry b mh))) s1"
  have rem: "VMCIGroup_RemoveMember E gh mh s1 = (VMCI_SUCCESS, drop_client p d ?s1)"
    using mh look by (simp add: VMCIGroup_RemoveMember_eq [OF ok1] look1 m1 d)
  have "mset (live (memberArray (drop_client p d ?s1) p)) = mset (live a)"
    using harr.ins_del [OF arr(2,3), of mh, OF surjective_pairing] by (simp add: memberArray_set [OF obj] b_def)
  moreover have "client_lookup (drop_client p d ?s1) p mh = None"
    using ok1p d by (intro client_lookup_drop) simp_all
  moreover have "he_refCount (res (drop_client p d ?s1) q) = he_refCount (res s q)" for q
    by (simp add: drop_client_mem fr(4)) (simp add: t_def)
  moreover have "fst (VMCIGroup_IsMember E gh mh s1)"
    using mh look harr.ins_has [OF arr(2,3)] by (simp add: VMCIGroup_IsMember_eq [OF ok1] look1 m1 b_def
        del: VMCIHandleArray_HasEntry_correct)
  ultimately show ?thesis using ok1 priv by (simp add: add rem)
qed

text \<open>A state with the group 2:33 at address 12, without members.\<close>

definition demo_group_res :: VMCIResource where
  "demo_group_res = \<lparr>he_handle = VMCI_MAKE_HANDLE 2 33, he_refCount = 1, r_type = VMCI_RESOURCE_TYPE_GROUP,
     r_validPrivs = replicate 7 VMCI_PRIV_VALID, r_clients = [], r_containerFreeCB = Some GroupFreeCB_ref,
     r_containerObject = 12, r_handle = VMCI_MAKE_HANDLE 2 33, r_registrationCount = 0,
     r_object = Group demo_array\<rparr>"

definition demo_group :: dg_state where
  "demo_group = demo_dgs\<lparr>resourceTable := \<lparr>ht_entries = [[12]], ht_size = 1, ht_mem = (\<lambda>_. demo_group_res)\<rparr>\<rparr>"

lemma demo_group_facts:
  "res_ok demo_group" "res_lookup demo_group (VMCI_MAKE_HANDLE 2 33) VMCI_RESOURCE_TYPE_GROUP = Some 12"
  "res demo_group 12 = demo_group_res"
  by (simp_all add: res_ok_def clients_ok_def demo_group_def ht_inv_def ht_handle_def ht_ref_def ht_idx_def
      VMCI_Hash_def demo_group_res_def res_def res_lookup_def ht_lookup_def)

theorem group_add_remove_member_witness:
  "priv_of (snd (VMCIGroup_AddMember demo_env True (Some 31) (VMCI_MAKE_HANDLE 2 33) (VMCI_MAKE_HANDLE 5 0) False
      demo_group)) 12 (VMCI_MAKE_HANDLE 5 0) VMCI_PRIV_ASSIGN_CLIENT = VMCI_PRIV_DENY"
proof -
  have arr: "r_object (res demo_group 12) = Group demo_array" "harr_inv demo_array" "append_stores True demo_array"
    by (simp_all add: demo_group_facts demo_group_res_def demo_array_def harr_inv_def append_stores_def)
  have valid: "r_validPrivs (res demo_group 12) ! VMCI_PRIV_ASSIGN_CLIENT = VMCI_PRIV_VALID"
    by (simp add: demo_group_facts demo_group_res_def)
  have "31 \<notin> cl_live demo_group" by (simp add: demo_group_def demo_dgs_def)
  from group_add_remove_member [OF demo_group_facts(1,2) arr _ valid this,
      where mh = "VMCI_MAKE_HANDLE 5 0" and E = demo_env and canAssign = False]
  show ?thesis by (simp add: split_beta)
qed

text \<open>
  Destroying a group empties its array whatever it holds: the loop ends since every round
  shortens the array, and no member is the invalid handle.
\<close>

declare remove_members.simps [simp del]

lemma remove_members_correct:
  "harr_inv a \<Longrightarrow> VMCI_INVALID_HANDLE \<notin> set (live a) \<Longrightarrow> harr_inv (remove_members a) \<and> live (remove_members a) = []"
proof (induction a rule: remove_members.induct)
  case (1 a)
  obtain h a' where t: "VMCIHandleArray_RemoveTail a = (h, a')" by fastforce
  note c = VMCIHandleArray_RemoveTail_correct [OF 1(2) t]
  show ?case
  proof (cases "live a = []")
    case True
    with c show ?thesis by (simp add: remove_members.simps [of a] t)
  next
    case False
    then have "h \<in> set (live a)" "live a' = butlast (live a)" using c by auto
    then have h: "h \<noteq> VMCI_INVALID_HANDLE" "VMCI_INVALID_HANDLE \<notin> set (live a')"
      using 1(3) in_set_butlastD [of VMCI_INVALID_HANDLE "live a"] by auto
    have "harr_inv (remove_members a') \<and> live (remove_members a') = []"
      using 1(1) [OF t [symmetric] refl] h c by simp
    with h(1) show ?thesis by (simp add: remove_members.simps [of a] t)
  qed
qed

lemma VMCIResource_Release_last:
  assumes inv: "ht_inv (resourceTable s)" and n: "he_refCount (res s p) = 1"
    and r: "r_clients (res s p) = []" "r_containerFreeCB (res s p) = Some f" "r_containerObject (res s p) = p"
  shows "\<exists>t. VMCIResource_Release cb p s = (VMCI_SUCCESS_ENTRY_DEAD, cb f p (s\<lparr>resourceTable := t\<rparr>))
    \<and> ht_mem t = (ht_mem (resourceTable s))(p := (res s p)\<lparr>he_refCount := 0\<rparr>)
    \<and> ht_lookup t = (ht_lookup (resourceTable s))(he_handle (res s p) := None)"
proof -
  from VMCIHashTable_ReleaseEntry_last_mem [OF inv, of p] n obtain t
    where t: "VMCIHashTable_ReleaseEntry (resourceTable s) p = (VMCI_SUCCESS_ENTRY_DEAD, t)"
      "ht_mem t = (ht_mem (resourceTable s))(p := (res s p)\<lparr>he_refCount := 0\<rparr>)"
      "ht_lookup t = (ht_lookup (resourceTable s))(he_handle (res s p) := None)"
    by (auto simp: ht_ref_res ht_handle_res) (auto simp: res_def)
  have "res (s\<lparr>resourceTable := t\<rparr>) p = (res s p)\<lparr>he_refCount := 0\<rparr>" by (simp add: res_def t(2))
  with r t show ?thesis
    by (intro exI [of _ t]) (simp add: VMCIResource_Release_def VMCIResourceDoRemove_def remove_clients_def)
qed

lemma VMCIGroup_Destroy_correct:
  assumes ok: "res_ok s" and look: "res_lookup s gh VMCI_RESOURCE_TYPE_GROUP = Some p"
    and arr: "r_object (res s p) = Group a" "harr_inv a" "VMCI_INVALID_HANDLE \<notin> set (live a)"
    and r: "r_containerFreeCB (res s p) = Some GroupFreeCB_ref" "r_containerObject (res s p) = p"
    and env: "env_cb E GroupFreeCB_ref = GroupFreeCB" and n: "he_refCount (res s p) = n"
  shows "\<exists>t. VMCIGroup_Destroy E gh s = (remove_clients p s)\<lparr>resourceTable := t,
      obj_live := (if n = 1 then obj_live s - {p} else obj_live s)\<rparr>
    \<and> ht_lookup t gh = None \<and> he_refCount (ht_mem t p) = n - 1
    \<and> r_object (ht_mem t p) = Group (remove_members a)"
proof -
  let ?s1 = "upd_res p inc_ref s"
  have rinv: "ht_inv (resourceTable s)" and okp: "clients_ok s p"
    using ok res_lookup_D(2) [OF look] by (simp_all add: res_ok_def)
  have ref: "1 \<le> n" using res_lookup_ref [OF rinv look] n by simp
  have inv1: "ht_inv (resourceTable ?s1)" using rinv by (intro ht_inv_upd_res) auto
  have look1: "res_lookup ?s1 gh VMCI_RESOURCE_TYPE_GROUP = Some p" using look by (simp add: res_lookup_upd)
  obtain t where rem: "VMCIResource_Remove (env_cb E) gh VMCI_RESOURCE_TYPE_GROUP ?s1
      = (remove_clients p ?s1)\<lparr>resourceTable := t\<rparr>" "ht_inv t" "ht_lookup t gh = None"
    "ht_mem t p = (res ?s1 p)\<lparr>r_clients := [], he_refCount := n\<rparr>"
    using VMCIResource_Remove_held [OF inv1 look1, of "n + 1" "env_cb E"] okp n ref by auto
  let ?s2 = "(remove_clients p ?s1)\<lparr>resourceTable := t\<rparr>"
  define s3 where "s3 = upd_res p (set_members (remove_members a)) ?s2"
  have p2: "res ?s2 p = (res s p)\<lparr>he_refCount := n, r_clients := []\<rparr>"
    by (simp add: res_def rem(4)) (simp add: res_def upd_res_def inc_ref_def)
  have m2: "memberArray ?s2 p = a" by (simp add: memberArray_def p2 arr(1))
  have p3: "res s3 p = (res s p)\<lparr>he_refCount := n, r_clients := [], r_object := Group (remove_members a)\<rparr>"
    by (simp add: s3_def p2 set_members_def arr(1))
  have inv3: "ht_inv (resourceTable s3)" unfolding s3_def by (intro ht_inv_upd_res) (simp_all add: rem(2))
  have look3: "ht_lookup (resourceTable s3) gh = None" unfolding s3_def by (subst upd_res_table(2)) (simp_all add: rem(3))
  have rc: "(remove_clients p ?s1)\<lparr>resourceTable := u\<rparr> = (remove_clients p s)\<lparr>resourceTable := u\<rparr>" for u
    using okp by (simp add: remove_clients_eq fold_drop_inc) (simp add: upd_res_def)
  have s3_eq: "s3\<lparr>resourceTable := u\<rparr> = (remove_clients p s)\<lparr>resourceTable := u\<rparr>" for u
    using rc [of u] by (simp add: s3_def) (simp add: upd_res_def)
  have live: "obj_live (remove_clients p s) = obj_live s" using okp by (rule obj_live_remove_clients)
  have dest: "VMCIGroup_Destroy E gh s = snd (VMCIResource_Release (env_cb E) p s3)"
    using look by (simp add: VMCIGroup_Destroy_def VMCIResource_Get_eq [OF rinv] rem(1) m2 Let_def s3_def)
  show ?thesis
  proof (cases "n = 1")
    case True
    obtain u where u: "VMCIResource_Release (env_cb E) p s3
        = (VMCI_SUCCESS_ENTRY_DEAD, env_cb E GroupFreeCB_ref p (s3\<lparr>resourceTable := u\<rparr>))"
      "ht_mem u = (ht_mem (resourceTable s3))(p := (res s3 p)\<lparr>he_refCount := 0\<rparr>)"
      "ht_lookup u = (ht_lookup (resourceTable s3))(he_handle (res s3 p) := None)"
      using VMCIResource_Release_last [OF inv3, of p GroupFreeCB_ref "env_cb E"] p3 r True by auto
    have "VMCIGroup_Destroy E gh s = GroupFreeCB p ((remove_clients p s)\<lparr>resourceTable := u\<rparr>)"
      unfolding dest u(1) snd_conv env s3_eq ..
    then show ?thesis
      using True u(2,3) look3 p3 by (intro exI [of _ u]) (simp add: GroupFreeCB_def live)
  next
    case False
    let ?f = "\<lambda>r :: VMCIResource. r\<lparr>he_refCount := he_refCount r - 1\<rparr>"
    have "VMCIGroup_Destroy E gh s = upd_res p ?f s3"
      using False p3 unfolding dest by (subst VMCIResource_Release_eq) simp_all
    also have "\<dots> = s3\<lparr>resourceTable := resourceTable (upd_res p ?f s3)\<rparr>" by (simp add: upd_res_def)
    also have "\<dots> = (remove_clients p s)\<lparr>resourceTable := resourceTable (upd_res p ?f s3)\<rparr>" by (rule s3_eq)
    finally have e: "VMCIGroup_Destroy E gh s
      = (remove_clients p s)\<lparr>resourceTable := resourceTable (upd_res p ?f s3)\<rparr>" .
    have "ht_mem (resourceTable (upd_res p ?f s3)) p = ?f (res s3 p)" by (simp add: upd_res_def)
    moreover have "ht_lookup (resourceTable (upd_res p ?f s3)) gh = None"
      using look3 by (subst upd_res_table(2)) simp_all
    ultimately show ?thesis
      using False p3 live by (intro exI [of _ "resourceTable (upd_res p ?f s3)"]) (simp add: e)
  qed
qed

text \<open>
  Destroying a group takes its handle out of the registry, frees its clients and empties
  its array; the group itself is freed at once when nobody else holds it, and by the last
  holder otherwise.
\<close>

theorem group_destroy_correct:
  assumes "res_ok s" "res_lookup s gh VMCI_RESOURCE_TYPE_GROUP = Some p"
    and "r_object (res s p) = Group a" "harr_inv a" "VMCI_INVALID_HANDLE \<notin> set (live a)"
    and "r_containerFreeCB (res s p) = Some GroupFreeCB_ref" "r_containerObject (res s p) = p"
    and "env_cb E GroupFreeCB_ref = GroupFreeCB" "he_refCount (res s p) = n"
  shows "let s' = VMCIGroup_Destroy E gh s in
    ht_lookup (resourceTable s') gh = None \<and> live (memberArray s' p) = []
    \<and> cl_live s' = cl_live s - set (r_clients (res s p)) \<and> he_refCount (res s' p) = n - 1
    \<and> obj_live s' = (if n = 1 then obj_live s - {p} else obj_live s)"
proof -
  have "clients_ok s p" using assms(1) res_lookup_D(2) [OF assms(2)] by (simp add: res_ok_def)
  moreover have "live (remove_members a) = []" using remove_members_correct assms(4,5) by blast
  ultimately show ?thesis
    using VMCIGroup_Destroy_correct [OF assms]
    by (auto simp: memberArray_def res_def remove_clients_correct [unfolded res_def])
qed

theorem group_destroy_correct_witness:
  "obj_live (VMCIGroup_Destroy (demo_env\<lparr>env_cb := (\<lambda>_. GroupFreeCB)\<rparr>) (VMCI_MAKE_HANDLE 2 33) demo_group) = {10}"
proof -
  let ?s = "demo_group\<lparr>obj_live := {10, 12}\<rparr>"
  have r: "r_object (res demo_group 12) = Group demo_array" "harr_inv demo_array"
    "VMCI_INVALID_HANDLE \<notin> set (live demo_array)"
    "r_containerFreeCB (res demo_group 12) = Some GroupFreeCB_ref" "r_containerObject (res demo_group 12) = 12"
    "he_refCount (res demo_group 12) = 1"
    by (simp_all add: demo_group_facts demo_group_res_def demo_array_def harr_inv_def live_def)
  from group_destroy_correct [OF demo_group_facts(1,2) r(1-5) _ r(6),
      where E = "demo_env\<lparr>env_cb := (\<lambda>_. GroupFreeCB)\<rparr>"]
  show ?thesis by (simp add: Let_def demo_group_def demo_dgs_def)
qed

end
