(* ===== verification/DiscoveryService.thy ===== *)
theory DiscoveryService
  imports Group
begin

text \<open>
  \<open>vmci-only/common/vmciDs.c\<close>: the discovery service, a registry of names for handles that
  the driver and, by datagrams, trusted contexts write and every context reads.  Requests and
  replies are modelled byte by byte: the reply is written into a buffer on the stack that is
  not cleared (\<open>stack\<close> is what it held), and \<open>written\<close> bytes of it are sent.
\<close>

record DsListElement =
  el_name :: "u8 list" \<comment> \<open>without the terminating zero\<close>
  el_handle :: VMCIHandle
  el_contextID :: VMCIId

text \<open>\<open>size\<close> is the length of \<open>ds_elements\<close>: the elements in use.\<close>

record DsList =
  ds_capacity :: nat
  ds_elements :: "DsListElement list"

record ds_state = dg_state +
  ds_registry :: "DsList option"
  ds_apiHandle :: VMCIHandle
  ds_groupHandle :: VMCIHandle
  ds_isInitialized :: bool

abbreviation (input) sizeof_DsListElement :: nat where "sizeof_DsListElement \<equiv> 24"
abbreviation (input) VMCI_DS_MAX_MSG_SIZE :: nat where "VMCI_DS_MAX_MSG_SIZE \<equiv> 300"
abbreviation (input) VMCI_DS_RESOURCE_ID :: VMCIId where "VMCI_DS_RESOURCE_ID \<equiv> 1"
abbreviation (input) VMCI_DS_ACTION_LOOKUP :: u32 where "VMCI_DS_ACTION_LOOKUP \<equiv> 0"
abbreviation (input) VMCI_DS_ACTION_REGISTER :: u32 where "VMCI_DS_ACTION_REGISTER \<equiv> 1"
abbreviation (input) VMCI_DS_ACTION_UNREGISTER :: u32 where "VMCI_DS_ACTION_UNREGISTER \<equiv> 2"

definition VMCI_DS_HANDLE :: VMCIHandle where
  "VMCI_DS_HANDLE = VMCI_MAKE_HANDLE VMCI_WELL_KNOWN_CONTEXT_ID VMCI_DS_RESOURCE_ID"

section \<open>The list of registrations\<close>

definition DsListInit :: "bool \<Rightarrow> bool \<Rightarrow> nat \<Rightarrow> DsList option" where
  "DsListInit avail1 avail2 cap =
     (if \<not> VMCI_AllocKernelMem avail1 24 then None
      else if \<not> VMCI_AllocKernelMem avail2 (sizeof_DsListElement * cap) then None
      else Some \<lparr>ds_capacity = cap, ds_elements = []\<rparr>)"

text \<open>\<open>None\<close>: not found, the index -1 of the code.\<close>

fun lookup_index :: "DsListElement list \<Rightarrow> u8 list \<Rightarrow> nat \<Rightarrow> nat option" where
  "lookup_index [] name i = None"
| "lookup_index (e # es) name i = (if el_name e = name then Some i else lookup_index es name (Suc i))"

definition DsListLookupIndex :: "DsList \<Rightarrow> u8 list \<Rightarrow> nat option" where
  "DsListLookupIndex l name = lookup_index (ds_elements l) name 0"

definition DsListLookup :: "DsList \<Rightarrow> u8 list \<Rightarrow> int \<times> VMCIHandle option" where
  "DsListLookup l name =
     (case DsListLookupIndex l name of
        None \<Rightarrow> (VMCI_ERROR_NOT_FOUND, None)
      | Some idx \<Rightarrow> (VMCI_SUCCESS, Some (el_handle (ds_elements l ! idx))))"

definition DsListInsert ::
  "bool \<Rightarrow> bool \<Rightarrow> DsList option \<Rightarrow> u8 list \<Rightarrow> VMCIHandle \<Rightarrow> VMCIId \<Rightarrow> int \<times> DsList option" where
  "DsListInsert avail1 avail2 lst name handle contextID =
     (case lst of None \<Rightarrow> (VMCI_ERROR_INVALID_ARGS, None)
      | Some l \<Rightarrow>
          if VMCI_HANDLE_EQUAL handle VMCI_INVALID_HANDLE \<or> contextID = VMCI_INVALID_ID
          then (VMCI_ERROR_INVALID_ARGS, Some l)
          else if DsListLookupIndex l name \<noteq> None then (VMCI_ERROR_ALREADY_EXISTS, Some l)
          else let full = (ds_capacity l = length (ds_elements l));
                   newCapacity = ds_capacity l * 2
               in if full \<and> \<not> VMCI_AllocKernelMem avail1 (sizeof_DsListElement * newCapacity)
                  then (VMCI_ERROR_NO_MEM, Some l)
                  else let l1 = (if full then l\<lparr>ds_capacity := newCapacity\<rparr> else l)
                       in if \<not> VMCI_AllocKernelMem avail2 (length name + 1) then (VMCI_ERROR_NO_MEM, Some l1)
                          else (VMCI_SUCCESS, Some (l1\<lparr>ds_elements := ds_elements l1
                                  @ [\<lparr>el_name = name, el_handle = handle, el_contextID = contextID\<rparr>]\<rparr>)))"

definition DsListRemoveElement :: "DsList \<Rightarrow> nat \<Rightarrow> int \<times> DsList" where
  "DsListRemoveElement l index =
     (if length (ds_elements l) \<le> index then (VMCI_ERROR_NOT_FOUND, l)
      else (VMCI_SUCCESS, l\<lparr>ds_elements := take index (ds_elements l) @ drop (Suc index) (ds_elements l)\<rparr>))"

definition DsListRemove ::
  "DsList option \<Rightarrow> u8 list \<Rightarrow> VMCIId \<Rightarrow> int \<times> VMCIHandle option \<times> DsList option" where
  "DsListRemove lst name contextID =
     (case lst of None \<Rightarrow> (VMCI_ERROR_INVALID_ARGS, None, None)
      | Some l \<Rightarrow>
          if contextID = VMCI_INVALID_ID then (VMCI_ERROR_INVALID_ARGS, None, Some l)
          else (case DsListLookupIndex l name of
                  None \<Rightarrow> (VMCI_ERROR_NOT_FOUND, None, Some l)
                | Some idx \<Rightarrow>
                    if contextID \<noteq> VMCI_HOST_CONTEXT_ID \<and> el_contextID (ds_elements l ! idx) \<noteq> contextID
                    then (VMCI_ERROR_NO_ACCESS, None, Some l)
                    else let handle = el_handle (ds_elements l ! idx); (rv, l1) = DsListRemoveElement l idx
                         in (rv, if rv = VMCI_SUCCESS then Some handle else None, Some l1)))"

text \<open>The loop over the list; the resource loses one registration per element removed.\<close>

function remove_resource_loop ::
  "ptr \<Rightarrow> VMCIHandle \<Rightarrow> nat \<Rightarrow> int \<Rightarrow> DsList \<Rightarrow> 'a res_state_scheme \<Rightarrow> int \<times> DsList \<times> 'a res_state_scheme" where
  "remove_resource_loop p handle i removed l s =
     (if length (ds_elements l) \<le> i then (removed, l, s)
      else if VMCI_HANDLE_EQUAL (el_handle (ds_elements l ! i)) handle
      then remove_resource_loop p handle i (removed + 1) (snd (DsListRemoveElement l i))
             (snd (VMCIResource_DecDsRegCount (Some p) s))
      else remove_resource_loop p handle (Suc i) removed l s)"
  by pat_completeness auto
termination
  by (relation "measure (\<lambda>(p, h, i, c, l, s). length (ds_elements l) - i)")
    (auto simp: DsListRemoveElement_def)

definition DsListRemoveResource ::
  "DsList option \<Rightarrow> ptr \<Rightarrow> 'a res_state_scheme \<Rightarrow> int \<times> DsList option \<times> 'a res_state_scheme" where
  "DsListRemoveResource lst p s =
     (case lst of None \<Rightarrow> (VMCI_ERROR_INVALID_ARGS, None, s)
      | Some l \<Rightarrow>
          if VMCI_HANDLE_EQUAL (r_handle (res s p)) VMCI_INVALID_HANDLE then (VMCI_ERROR_NO_HANDLE, Some l, s)
          else let (removed, l1, s1) = remove_resource_loop p (r_handle (res s p)) 0 0 l s
               in (removed, Some l1, s1))"

fun remove_context_loop :: "VMCIId \<Rightarrow> nat \<Rightarrow> DsList \<Rightarrow> DsList" where
  "remove_context_loop contextID 0 l = l"
| "remove_context_loop contextID (Suc i) l =
     remove_context_loop contextID i
       (if hcontext (el_handle (ds_elements l ! i)) = contextID then snd (DsListRemoveElement l i) else l)"

definition DsRemoveRegistrationsContext :: "VMCIId \<Rightarrow> 'a ds_state_scheme \<Rightarrow> 'a ds_state_scheme" where
  "DsRemoveRegistrationsContext contextID s =
     (if contextID \<noteq> VMCI_INVALID_ID \<and> ds_isInitialized s
      then s\<lparr>ds_registry := map_option (\<lambda>l. remove_context_loop contextID (length (ds_elements l)) l) (ds_registry s)\<rparr>
      else s)"

section \<open>Registrations\<close>

definition VMCIDs_Register ::
  "'a ds_state_scheme env \<Rightarrow> bool \<Rightarrow> bool \<Rightarrow> u8 list \<Rightarrow> VMCIHandle \<Rightarrow> VMCIId
    \<Rightarrow> 'a ds_state_scheme \<Rightarrow> int \<times> 'a ds_state_scheme" where
  "VMCIDs_Register E avail1 avail2 name handle contextID s =
     (let (errcode, reg) = DsListInsert avail1 avail2 (ds_registry s) name handle contextID;
          s1 = s\<lparr>ds_registry := reg\<rparr>
      in if errcode = VMCI_SUCCESS then
           (case VMCIResource_Get handle VMCI_RESOURCE_TYPE_ANY s1 of
              (None, s2) \<Rightarrow> (errcode, s2)
            | (Some p, s2) \<Rightarrow>
                (errcode, snd (VMCIResource_Release (env_cb E) p (snd (VMCIResource_IncDsRegCount (Some p) s2)))))
         else (errcode, s1))"

definition VMCIDs_Unregister ::
  "'a ds_state_scheme env \<Rightarrow> u8 list \<Rightarrow> VMCIId \<Rightarrow> 'a ds_state_scheme \<Rightarrow> int \<times> 'a ds_state_scheme" where
  "VMCIDs_Unregister E name contextID s =
     (let (errcode, handle, reg) = DsListRemove (ds_registry s) name contextID;
          s1 = s\<lparr>ds_registry := reg\<rparr>
      in if errcode = VMCI_SUCCESS then
           (case VMCIResource_Get (case handle of None \<Rightarrow> VMCI_INVALID_HANDLE | Some h \<Rightarrow> h)
                   VMCI_RESOURCE_TYPE_ANY s1 of
              (None, s2) \<Rightarrow> (errcode, s2)
            | (Some p, s2) \<Rightarrow>
                (errcode, snd (VMCIResource_Release (env_cb E) p (snd (VMCIResource_DecDsRegCount (Some p) s2)))))
         else (errcode, s1))"

definition VMCIDs_UnregisterResource :: "ptr option \<Rightarrow> 'a ds_state_scheme \<Rightarrow> int \<times> 'a ds_state_scheme" where
  "VMCIDs_UnregisterResource resource s =
     (case resource of None \<Rightarrow> (VMCI_ERROR_INVALID_ARGS, s)
      | Some p \<Rightarrow>
          if r_registrationCount (res s p) \<noteq> 0 then
            let (rv, reg, s1) = DsListRemoveResource (ds_registry s) p s in (rv, s1\<lparr>ds_registry := reg\<rparr>)
          else (0, s))"

section \<open>Messages\<close>

text \<open>Little endian 32-bit numbers, handles and C strings in a buffer.\<close>

definition le32 :: "u32 \<Rightarrow> u8 list" where
  "le32 x = [ucast x, ucast (drop_bit 8 x), ucast (drop_bit 16 x), ucast (drop_bit 24 x)]"

definition rd32 :: "u8 list \<Rightarrow> nat \<Rightarrow> u32" where
  "rd32 b i = (let w = (\<lambda>k. ucast (b ! (i + k)) :: u32)
     in w 0 OR push_bit 8 (w 1) OR push_bit 16 (w 2) OR push_bit 24 (w 3))"

definition c_string :: "u8 list \<Rightarrow> nat \<Rightarrow> u8 list" where
  "c_string b i = takeWhile (\<lambda>c. c \<noteq> 0) (drop i b)"

definition write_at :: "nat \<Rightarrow> u8 list \<Rightarrow> u8 list \<Rightarrow> u8 list" where
  "write_at i bs b = take i b @ bs @ drop (i + length bs) b"

definition ascii :: "string \<Rightarrow> u8 list" where
  "ascii cs = map (\<lambda>c. of_nat (of_char c)) cs"

text \<open>
  The offsets of the reply header: \<open>msgid\<close> 0, \<open>code\<close> 4, \<open>handle\<close> 8, \<open>msgLen\<close> 16, \<open>msg\<close> 20;
  of the request header: \<open>action\<close> 0, \<open>msgid\<close> 4, \<open>handle\<close> 8, \<open>nameLen\<close> 16, \<open>name\<close> 20.  Both
  structures have 24 bytes, three of padding after the first character.
\<close>

definition DsSetReplyStatus :: "int \<Rightarrow> u8 list \<Rightarrow> u8 list \<Rightarrow> u8 list \<times> nat" where
  "DsSetReplyStatus code msg reply =
     (write_at 20 (msg @ [0]) (write_at 16 (le32 (of_nat (length msg))) (write_at 4 (le32 (word_of_int code)) reply)),
      24 + length msg + 1)"

definition reply_handle :: "VMCIHandle \<Rightarrow> u8 list \<Rightarrow> u8 list" where
  "reply_handle h reply = write_at 8 (le32 (hcontext h) @ le32 (hresource h)) reply"

definition DsLookupAction :: "u8 list \<Rightarrow> u8 list \<Rightarrow> 'a ds_state_scheme \<Rightarrow> u8 list \<times> nat" where
  "DsLookupAction name reply s =
     (let (errcode, handle) = DsListLookup (the (ds_registry s)) name
      in DsSetReplyStatus errcode []
           (reply_handle (case handle of None \<Rightarrow> VMCI_INVALID_HANDLE | Some h \<Rightarrow> h) reply))"

definition DsRegisterAction ::
  "'a ds_state_scheme env \<Rightarrow> bool \<Rightarrow> bool \<Rightarrow> u8 list \<Rightarrow> VMCIHandle \<Rightarrow> u8 list \<Rightarrow> VMCIId
    \<Rightarrow> 'a ds_state_scheme \<Rightarrow> (u8 list \<times> nat) \<times> 'a ds_state_scheme" where
  "DsRegisterAction E avail1 avail2 name handle reply contextID s =
     (let (errcode, s1) = VMCIDs_Register E avail1 avail2 name handle contextID s
      in (DsSetReplyStatus errcode [] reply, s1))"

definition DsUnregisterAction ::
  "'a ds_state_scheme env \<Rightarrow> u8 list \<Rightarrow> u8 list \<Rightarrow> VMCIId \<Rightarrow> 'a ds_state_scheme
    \<Rightarrow> (u8 list \<times> nat) \<times> 'a ds_state_scheme" where
  "DsUnregisterAction E name reply contextID s =
     (let (errcode, s1) = VMCIDs_Unregister E name contextID s
      in (DsSetReplyStatus errcode [] reply, s1))"

text \<open>
  The only caller passes \<open>VMCI_DS_MAX_MSG_SIZE\<close> as \<open>outSize\<close>, so the check of it passes.  The
  result is the reply, its length and the state.
\<close>

definition DsHandleMessage ::
  "'a ds_state_scheme env \<Rightarrow> bool \<Rightarrow> bool \<Rightarrow> u8 list \<Rightarrow> u8 list \<Rightarrow> VMCIId \<Rightarrow> VMCIPrivilegeFlags
    \<Rightarrow> 'a ds_state_scheme \<Rightarrow> (u8 list \<times> nat) \<times> 'a ds_state_scheme" where
  "DsHandleMessage E avail1 avail2 inBuffer outBuffer contextID privFlags s =
     (let action = rd32 inBuffer 0; name = c_string inBuffer 20;
          handle = VMCI_MAKE_HANDLE (rd32 inBuffer 8) (rd32 inBuffer 12);
          reply = reply_handle VMCI_INVALID_HANDLE (write_at 0 (le32 (rd32 inBuffer 4)) outBuffer)
      in if action \<noteq> VMCI_DS_ACTION_LOOKUP \<and> \<not> privFlags AND VMCI_PRIVILEGE_FLAG_TRUSTED \<noteq> 0
         then (DsSetReplyStatus VMCI_ERROR_NO_ACCESS (ascii ''access denied'') reply, s)
         else let reply1 = fst (DsSetReplyStatus VMCI_ERROR_GENERIC (ascii ''general failure'') reply)
         in if action = VMCI_DS_ACTION_LOOKUP then (DsLookupAction name reply1 s, s)
            else if action = VMCI_DS_ACTION_REGISTER
            then DsRegisterAction E avail1 avail2 name handle reply1 contextID s
            else if action = VMCI_DS_ACTION_UNREGISTER then DsUnregisterAction E name reply1 contextID s
            else (DsSetReplyStatus VMCI_ERROR_GENERIC (ascii ''unknown action'') reply1, s))"

definition DsRequestCb ::
  "'a ds_state_scheme env \<Rightarrow> bool \<Rightarrow> bool \<Rightarrow> bool \<Rightarrow> bool \<Rightarrow> u8 list \<Rightarrow> VMCIDatagram
    \<Rightarrow> 'a ds_state_scheme \<Rightarrow> int \<times> 'a ds_state_scheme" where
  "DsRequestCb E avail1 avail2 new dq stack msg s =
     (case VMCIDatagram_GetPrivFlags E (dg_src msg) s of (r, flags, s1) \<Rightarrow>
        if r \<noteq> VMCI_SUCCESS then (VMCI_ERROR_INVALID_ARGS, s1)
        else let ((reply, written), s2) = DsHandleMessage E avail1 avail2 (dg_payload msg) stack
                   (hcontext (dg_src msg)) (the flags) s1
             in VMCIDatagramSendInt E new dq (Some \<lparr>dg_dst = dg_src msg, dg_src = ds_apiHandle s2,
                  dg_payloadSize = of_nat written, dg_payload = take written reply\<rparr>) s2)"

section \<open>Start, end and contexts\<close>

record ds_alloc =
  da_list1 :: bool
  da_list2 :: bool
  da_endpoint :: dg_alloc
  da_group :: "ptr option"
  da_array :: bool
  da_owner :: "ptr option"
  da_client :: "ptr option"

text \<open>\<open>None\<close>: the driver panics, or sleeps in \<open>VMCIDatagramDestroyHndInt\<close>.\<close>

definition VMCIDs_Init ::
  "'a ds_state_scheme env \<Rightarrow> ds_alloc \<Rightarrow> bool \<Rightarrow> 'a ds_state_scheme \<Rightarrow> (bool \<times> 'a ds_state_scheme) option" where
  "VMCIDs_Init E A interrupted s =
     (case DsListInit (da_list1 A) (da_list2 A) 10 of
        None \<Rightarrow> Some (False, s)
      | Some l \<Rightarrow>
        let s0 = s\<lparr>ds_registry := Some l\<rparr> in
        (case VMCIDatagramCreateHndPriv E (da_endpoint A) VMCI_DS_RESOURCE_ID VMCI_FLAG_WELLKNOWN_DG_HND
                VMCI_PRIVILEGE_FLAG_TRUSTED (Some DsDatagramRequestCB_ref) 0 s0 of
           None \<Rightarrow> None
         | Some (result, None, s1) \<Rightarrow> Some (False, s1)
         | Some (result, Some handle, s1) \<Rightarrow>
             let s2 = s1\<lparr>ds_apiHandle := handle\<rparr> in
             if result < VMCI_SUCCESS then Some (False, s1)
             else if \<not> VMCI_HANDLE_EQUAL handle VMCI_DS_HANDLE then Some (False, s2)
             else (case VMCIGroup_Create (da_group A) (da_array A) (da_owner A) s2 of
                     None \<Rightarrow> None
                   | Some (groupHandle, s3) \<Rightarrow>
                       let s4 = s3\<lparr>ds_groupHandle := groupHandle\<rparr> in
                       if VMCI_HANDLE_EQUAL groupHandle VMCI_INVALID_HANDLE
                       then map_option (\<lambda>(_, s5). (False, s5)) (VMCIDatagramDestroyHndInt E interrupted handle s4)
                       else let (result, s5) = VMCIResource_AddClientPrivileges (env_cb E) (da_client A) handle
                                  groupHandle [VMCI_PRIV_DG_SEND] [] s4
                            in if result \<noteq> VMCI_SUCCESS
                               then map_option (\<lambda>(_, s6). (False, s6))
                                      (VMCIDatagramDestroyHndInt E interrupted handle (VMCIGroup_Destroy E groupHandle s5))
                               else Some (True, s5\<lparr>ds_isInitialized := True\<rparr>))))"

definition VMCIDs_Exit :: "'a ds_state_scheme env \<Rightarrow> bool \<Rightarrow> 'a ds_state_scheme \<Rightarrow> 'a ds_state_scheme option" where
  "VMCIDs_Exit E interrupted s =
     (if \<not> ds_isInitialized s then Some s
      else let s1 = snd (VMCIResource_RemoveAllClientPrivileges (env_cb E) (ds_apiHandle s) (ds_groupHandle s) s);
               s2 = VMCIGroup_Destroy E (ds_groupHandle s1) s1
           in map_option (\<lambda>(_, s3). s3\<lparr>ds_registry := None, ds_isInitialized := False\<rparr>)
                (VMCIDatagramDestroyHndInt E interrupted (ds_apiHandle s2) s2))"

definition VMCIDs_AddContext ::
  "'a ds_state_scheme env \<Rightarrow> bool \<Rightarrow> ptr option \<Rightarrow> bool \<Rightarrow> VMCIId \<Rightarrow> 'a ds_state_scheme \<Rightarrow> 'a ds_state_scheme" where
  "VMCIDs_AddContext E avail1 client avail2 contextID s =
     (case VMCIContext_Get contextID s of
        (None, s1) \<Rightarrow> s1
      | (Some p, s1) \<Rightarrow>
          let s2 = snd (VMCIGroup_AddMember E avail1 client (ds_groupHandle s1)
                     (VMCI_MAKE_HANDLE contextID VMCI_CONTEXT_RESOURCE_ID) False s1);
              s3 = upd_ctx p (\<lambda>c. c\<lparr>cx_groupArray :=
                     VMCIHandleArray_AppendEntry avail2 (cx_groupArray c) (ds_groupHandle s2)\<rparr>) s2
          in VMCIContext_Release (env_free E) p s3)"

definition VMCIDs_RemoveContext ::
  "'a ds_state_scheme env \<Rightarrow> VMCIId \<Rightarrow> 'a ds_state_scheme \<Rightarrow> 'a ds_state_scheme" where
  "VMCIDs_RemoveContext E contextID s =
     (if \<not> ds_isInitialized s then s
      else case VMCIContext_Get contextID s of
        (None, s1) \<Rightarrow> s1
      | (Some p, s1) \<Rightarrow>
          let s2 = upd_ctx p (\<lambda>c. c\<lparr>cx_groupArray :=
                     snd (VMCIHandleArray_RemoveEntry (cx_groupArray c) (ds_groupHandle s1))\<rparr>) s1;
              s3 = VMCIContext_Release (env_free E) p s2;
              s4 = snd (VMCIGroup_RemoveMember E (ds_groupHandle s3)
                     (VMCI_MAKE_HANDLE contextID VMCI_CONTEXT_RESOURCE_ID) s3)
          in DsRemoveRegistrationsContext contextID s4)"

section \<open>The registry as a map\<close>

text \<open>
  What users of a registry of names rely on: a name belongs to the context that registered
  it until that context or the host gives it up.
\<close>

datatype registry_op =
  RegInsert bool bool "u8 list" VMCIHandle VMCIId
| RegRemove "u8 list" VMCIId

fun registry_run ::
  "(bool \<Rightarrow> bool \<Rightarrow> 'r \<Rightarrow> u8 list \<Rightarrow> VMCIHandle \<Rightarrow> VMCIId \<Rightarrow> int \<times> 'r)
    \<Rightarrow> ('r \<Rightarrow> u8 list \<Rightarrow> VMCIId \<Rightarrow> int \<times> VMCIHandle option \<times> 'r) \<Rightarrow> registry_op list \<Rightarrow> 'r \<Rightarrow> 'r" where
  "registry_run ins rem [] r = r"
| "registry_run ins rem (RegInsert a1 a2 name h c # ops) r = registry_run ins rem ops (snd (ins a1 a2 r name h c))"
| "registry_run ins rem (RegRemove name c # ops) r = registry_run ins rem ops (snd (snd (rem r name c)))"

locale name_registry =
  fixes rinv :: "'r \<Rightarrow> bool" and rmap :: "'r \<Rightarrow> u8 list \<Rightarrow> (VMCIHandle \<times> VMCIId) option"
    and ins :: "bool \<Rightarrow> bool \<Rightarrow> 'r \<Rightarrow> u8 list \<Rightarrow> VMCIHandle \<Rightarrow> VMCIId \<Rightarrow> int \<times> 'r"
    and rem :: "'r \<Rightarrow> u8 list \<Rightarrow> VMCIId \<Rightarrow> int \<times> VMCIHandle option \<times> 'r"
  assumes ins_law: "rinv r \<Longrightarrow> ins a1 a2 r name h c = (result, r') \<Longrightarrow> rinv r' \<and>
      (if result = VMCI_SUCCESS then rmap r name = None \<and> rmap r' = (rmap r)(name \<mapsto> (h, c)) else rmap r' = rmap r)"
    and rem_law: "rinv r \<Longrightarrow> rem r name c = (result, out, r') \<Longrightarrow> rinv r' \<and>
      (if result = VMCI_SUCCESS then \<exists>h c'. rmap r name = Some (h, c') \<and> (c = VMCI_HOST_CONTEXT_ID \<or> c = c')
          \<and> out = Some h \<and> rmap r' = (rmap r)(name := None)
       else out = None \<and> rmap r' = rmap r)"
begin

lemma keeps_owned:
  assumes "rinv r" "rmap r name = Some (h, c)"
    and "\<forall>c'. RegRemove name c' \<in> set ops \<longrightarrow> c' \<noteq> c \<and> c' \<noteq> VMCI_HOST_CONTEXT_ID"
  shows "rinv (registry_run ins rem ops r) \<and> rmap (registry_run ins rem ops r) name = Some (h, c)"
  using assms
proof (induction ops arbitrary: r)
  case (Cons op ops)
  show ?case
  proof (cases op)
    case (RegInsert a1 a2 name' h' c')
    obtain q r' where i: "ins a1 a2 r name' h' c' = (q, r')" by fastforce
    have "rinv r'" "rmap r' name = Some (h, c)"
      using ins_law [OF Cons.prems(1) i] Cons.prems(2) by (auto split: if_splits)
    with Cons.IH [of r'] Cons.prems(3) show ?thesis by (simp add: RegInsert i)
  next
    case (RegRemove name' c')
    obtain q out r' where i: "rem r name' c' = (q, out, r')" by (metis prod_cases3)
    have "rinv r'" "rmap r' name = Some (h, c)"
      using rem_law [OF Cons.prems(1) i] Cons.prems(2,3) by (auto simp: RegRemove split: if_splits)
    with Cons.IH [of r'] Cons.prems(3) show ?thesis by (simp add: RegRemove i)
  qed
qed simp

lemma insert_remove:
  assumes "rinv r" "ins a1 a2 r name h c = (VMCI_SUCCESS, r1)" "rem r1 name c = (VMCI_SUCCESS, out, r2)"
  shows "out = Some h \<and> rmap r2 = rmap r"
  using ins_law [OF assms(1,2)] rem_law [OF _ assms(3)] by auto

end

definition ds_map :: "DsList \<Rightarrow> u8 list \<Rightarrow> (VMCIHandle \<times> VMCIId) option" where
  "ds_map l = map_of (map (\<lambda>e. (el_name e, (el_handle e, el_contextID e))) (ds_elements l))"

definition ds_inv :: "DsList \<Rightarrow> bool" where
  [inv_defs]: "ds_inv l \<longleftrightarrow> 0 < ds_capacity l \<and> length (ds_elements l) \<le> ds_capacity l
     \<and> distinct (map el_name (ds_elements l))
     \<and> (\<forall>e \<in> set (ds_elements l). el_handle e \<noteq> VMCI_INVALID_HANDLE \<and> el_contextID e \<noteq> VMCI_INVALID_ID)"

lemma lookup_index_None: "lookup_index es name i = None \<longleftrightarrow> name \<notin> el_name ` set es"
  by (induction es arbitrary: i) auto

lemma lookup_index_Some:
  "lookup_index es name i = Some k \<Longrightarrow> i \<le> k \<and> k - i < length es \<and> el_name (es ! (k - i)) = name"
proof (induction es arbitrary: i)
  case (Cons e es)
  show ?case
  proof (cases "el_name e = name")
    case False
    with Cons.prems have "lookup_index es name (Suc i) = Some k" by simp
    with Cons.IH [OF this] show ?thesis by (auto simp: nth_Cons' Suc_diff_le)
  qed (use Cons.prems in auto)
qed simp

lemma DsListLookupIndex_None: "DsListLookupIndex l name = None \<longleftrightarrow> ds_map l name = None"
  by (auto simp: DsListLookupIndex_def lookup_index_None ds_map_def map_of_eq_None_iff image_iff)

lemma DsListLookupIndex_Some:
  assumes "DsListLookupIndex l name = Some k" "distinct (map el_name (ds_elements l))"
  shows "k < length (ds_elements l)" "el_name (ds_elements l ! k) = name"
    "ds_map l name = Some (el_handle (ds_elements l ! k), el_contextID (ds_elements l ! k))"
proof -
  show k: "k < length (ds_elements l)" "el_name (ds_elements l ! k) = name"
    using lookup_index_Some [of "ds_elements l" name 0 k] assms(1) by (auto simp: DsListLookupIndex_def)
  then show "ds_map l name = Some (el_handle (ds_elements l ! k), el_contextID (ds_elements l ! k))"
    unfolding ds_map_def using assms(2)
    by (intro map_of_is_SomeI) (auto simp: comp_def intro!: image_eqI [where x = "ds_elements l ! k"])
qed

lemma DsListLookup_eq:
  assumes "ds_inv l"
  shows "DsListLookup l name = (case ds_map l name of None \<Rightarrow> (VMCI_ERROR_NOT_FOUND, None)
     | Some (h, c) \<Rightarrow> (VMCI_SUCCESS, Some h))"
proof (cases "DsListLookupIndex l name")
  case None
  then have "ds_map l name = None" by (simp add: DsListLookupIndex_None)
  with None show ?thesis by (simp add: DsListLookup_def)
next
  case (Some k)
  with assms DsListLookupIndex_Some(3) [OF Some] show ?thesis by (simp add: DsListLookup_def ds_inv_def)
qed

lemma map_add_new: "m k = None \<Longrightarrow> [k \<mapsto> v] ++ m = m(k \<mapsto> v)"
  by (auto simp: map_add_def fun_eq_iff split: option.split)

lemma DsListInsert_correct:
  assumes inv: "ds_inv l" and ins: "DsListInsert a1 a2 (Some l) name h c = (r, l')"
  shows "\<exists>l1. l' = Some l1 \<and> ds_inv l1 \<and>
    (if r = VMCI_SUCCESS then ds_map l name = None \<and> ds_map l1 = (ds_map l)(name \<mapsto> (h, c)) else ds_map l1 = ds_map l)"
proof (cases "ds_map l name")
  case None
  then have new: "name \<notin> el_name ` set (ds_elements l)" by (auto simp: ds_map_def map_of_eq_None_iff image_iff)
  let ?e = "\<lparr>el_name = name, el_handle = h, el_contextID = c\<rparr>"
  have m: "ds_map (l\<lparr>ds_elements := ds_elements l @ [?e]\<rparr>) = (ds_map l)(name \<mapsto> (h, c))"
    "ds_map (l\<lparr>ds_capacity := k, ds_elements := ds_elements l @ [?e]\<rparr>) = (ds_map l)(name \<mapsto> (h, c))" for k
    using map_add_new [of "ds_map l" name "(h, c)", OF None] by (simp_all add: ds_map_def)
  have m': "ds_map (l\<lparr>ds_capacity := k\<rparr>) = ds_map l" for k by (simp add: ds_map_def)
  have idx: "DsListLookupIndex l name = None" using None by (simp add: DsListLookupIndex_None)
  show ?thesis
    using ins inv new None
    by (auto simp: DsListInsert_def idx Let_def m m' split: if_splits) (auto simp: ds_inv_def Suc_le_eq)
next
  case (Some x)
  then have "DsListLookupIndex l name \<noteq> None" by (simp add: DsListLookupIndex_None)
  with ins inv show ?thesis by (auto simp: DsListInsert_def split: if_splits)
qed

lemma take_drop_remove:
  "k < length xs \<Longrightarrow> distinct (map f xs) \<Longrightarrow>
    take k xs @ drop (Suc k) xs = filter (\<lambda>x. f x \<noteq> f (xs ! k)) xs"
proof (induction xs arbitrary: k)
  case (Cons x xs)
  show ?case
  proof (cases k)
    case 0
    have "filter (\<lambda>y. f y \<noteq> f x) xs = xs" using Cons.prems(2) by (intro filter_True) (force simp: image_iff)
    with 0 show ?thesis by simp
  next
    case (Suc j)
    with Cons.prems have "f x \<noteq> f (xs ! j)" by auto
    with Suc Cons show ?thesis by simp
  qed
qed simp

lemma map_of_filter_key:
  "map_of (map (\<lambda>e. (f e, g e)) (filter (\<lambda>e. f e \<noteq> k) xs)) = (map_of (map (\<lambda>e. (f e, g e)) xs))(k := None)"
  by (induction xs) (auto simp: fun_eq_iff)

lemma DsListRemove_correct:
  assumes inv: "ds_inv l" and rem: "DsListRemove (Some l) name c = (r, out, l')"
  shows "\<exists>l1. l' = Some l1 \<and> ds_inv l1 \<and>
    (if r = VMCI_SUCCESS then \<exists>h c'. ds_map l name = Some (h, c') \<and> (c = VMCI_HOST_CONTEXT_ID \<or> c = c')
        \<and> out = Some h \<and> ds_map l1 = (ds_map l)(name := None)
     else out = None \<and> ds_map l1 = ds_map l)"
proof (cases "DsListLookupIndex l name")
  case None
  with assms show ?thesis by (auto simp: DsListRemove_def split: if_splits)
next
  case (Some k)
  have d: "distinct (map el_name (ds_elements l))" using inv by (simp add: ds_inv_def)
  note k = DsListLookupIndex_Some [OF Some d]
  let ?l = "l\<lparr>ds_elements := take k (ds_elements l) @ drop (Suc k) (ds_elements l)\<rparr>"
  have el: "ds_elements ?l = filter (\<lambda>e. el_name e \<noteq> name) (ds_elements l)"
    using take_drop_remove [OF k(1) d] k(2) by simp
  then have "ds_map ?l = (ds_map l)(name := None)" by (simp only: ds_map_def map_of_filter_key)
  moreover have "ds_inv ?l"
    using inv el length_filter_le [of "\<lambda>e. el_name e \<noteq> name" "ds_elements l"]
    by (simp add: ds_inv_def distinct_map_filter del: length_filter_le)
  moreover have "DsListRemoveElement l k = (VMCI_SUCCESS, ?l)" using k(1) by (simp add: DsListRemoveElement_def)
  ultimately show ?thesis
    using rem Some inv k(3) by (auto simp: DsListRemove_def Let_def split: if_splits)
qed

definition ds_insert :: "bool \<Rightarrow> bool \<Rightarrow> DsList \<Rightarrow> u8 list \<Rightarrow> VMCIHandle \<Rightarrow> VMCIId \<Rightarrow> int \<times> DsList" where
  "ds_insert a1 a2 l name h c = (let (r, l') = DsListInsert a1 a2 (Some l) name h c in (r, the l'))"

definition ds_remove :: "DsList \<Rightarrow> u8 list \<Rightarrow> VMCIId \<Rightarrow> int \<times> VMCIHandle option \<times> DsList" where
  "ds_remove l name c = (let (r, out, l') = DsListRemove (Some l) name c in (r, out, the l'))"

interpretation dsr: name_registry ds_inv ds_map ds_insert ds_remove
proof unfold_locales
  show "ds_inv r' \<and> (if result = VMCI_SUCCESS then ds_map r name = None \<and> ds_map r' = (ds_map r)(name \<mapsto> (h, c))
      else ds_map r' = ds_map r)"
    if inv: "ds_inv r" and eq: "ds_insert a1 a2 r name h c = (result, r')" for a1 a2 r name h c result r'
  proof -
    obtain l' where i: "DsListInsert a1 a2 (Some r) name h c = (result, l')" "r' = the l'"
      using eq by (auto simp: ds_insert_def split: prod.splits)
    from DsListInsert_correct [OF inv i(1)] i(2) show ?thesis by auto
  qed
  show "ds_inv r' \<and> (if result = VMCI_SUCCESS then \<exists>h c'. ds_map r name = Some (h, c') \<and> (c = VMCI_HOST_CONTEXT_ID \<or> c = c')
      \<and> out = Some h \<and> ds_map r' = (ds_map r)(name := None) else out = None \<and> ds_map r' = ds_map r)"
    if inv: "ds_inv r" and eq: "ds_remove r name c = (result, out, r')" for r name c result out r'
  proof -
    obtain l' where i: "DsListRemove (Some r) name c = (result, out, l')" "r' = the l'"
      using eq by (auto simp: ds_remove_def split: prod.splits)
    from DsListRemove_correct [OF inv i(1)] i(2) show ?thesis by auto
  qed
qed

section \<open>Bytes\<close>

lemma bytes_join:
  "(ucast (ucast x :: u8) :: u32) OR push_bit 8 (ucast (ucast (drop_bit 8 x) :: u8))
    OR push_bit 16 (ucast (ucast (drop_bit 16 x) :: u8)) OR push_bit 24 (ucast (ucast (drop_bit 24 x) :: u8)) = x"
  for x :: u32
proof (rule bit_word_eqI)
  show "bit ((ucast (ucast x :: u8) :: u32) OR push_bit 8 (ucast (ucast (drop_bit 8 x) :: u8))
      OR push_bit 16 (ucast (ucast (drop_bit 16 x) :: u8)) OR push_bit 24 (ucast (ucast (drop_bit 24 x) :: u8))) n
    = bit x n" if "n < LENGTH(32)" for n
    using that by (cases "n < 8"; cases "n < 16"; cases "n < 24") (auto simp: bit_simps)
qed

lemma length_le32 [simp]: "length (le32 x) = 4"
  by (simp add: le32_def)

lemma length_write_at [simp]: "i + length bs \<le> length b \<Longrightarrow> length (write_at i bs b) = length b"
  by (simp add: write_at_def)

lemma nth_write_at:
  assumes "i + length bs \<le> length b" "j < length b"
  shows "write_at i bs b ! j = (if i \<le> j \<and> j < i + length bs then bs ! (j - i) else b ! j)"
  using assms by (auto simp: write_at_def nth_append min_def)

lemma drop_write_at: "i + length bs \<le> k \<Longrightarrow> i + length bs \<le> length b \<Longrightarrow> drop k (write_at i bs b) = drop k b"
  by (simp add: write_at_def)

lemma rd32_write_other:
  assumes "i + length bs \<le> length b" "j + 4 \<le> i \<or> i + length bs \<le> j" "j + 4 \<le> length b"
  shows "rd32 (write_at i bs b) j = rd32 b j"
proof -
  have "write_at i bs b ! (j + k) = b ! (j + k)" if "k < 4" for k
    using assms that by (subst nth_write_at) auto
  from this [of 0] this [of 1] this [of 2] this [of 3] show ?thesis by (simp add: rd32_def Let_def)
qed

lemma rd32_write_in:
  assumes "i + length bs \<le> length b" "i \<le> j" "j + 4 \<le> i + length bs"
  shows "rd32 (write_at i bs b) j = rd32 bs (j - i)"
proof -
  have "write_at i bs b ! (j + k) = bs ! (j - i + k)" if "k < 4" for k
    using assms that by (subst nth_write_at) auto
  from this [of 0] this [of 1] this [of 2] this [of 3] show ?thesis by (simp add: rd32_def Let_def)
qed

lemma rd32_le32: "rd32 (le32 x @ bs) 0 = x" "rd32 (le32 y @ le32 x) 4 = x" "rd32 (le32 x) 0 = x"
  using bytes_join [of x] by (simp_all add: rd32_def le32_def Let_def)

lemmas reply_simps = rd32_write_in rd32_write_other rd32_le32

section \<open>Properties\<close>

text \<open>
  C10: A registration is protected: whatever any contexts register and unregister, a name stays
  with its handle and its context as long as neither that context nor the host takes it back.
\<close>

theorem registration_protected:
  assumes "ds_inv l" "ds_map l name = Some (h, c)"
    and "\<forall>c'. RegRemove name c' \<in> set ops \<longrightarrow> c' \<noteq> c \<and> c' \<noteq> VMCI_HOST_CONTEXT_ID"
  shows "ds_map (registry_run ds_insert ds_remove ops l) name = Some (h, c)"
  using dsr.keeps_owned [OF assms] by simp

definition demo_registry :: DsList where
  "demo_registry = \<lparr>ds_capacity = 10, ds_elements = [\<lparr>el_name = [118, 115], el_handle = VMCI_MAKE_HANDLE 2 20,
     el_contextID = 5\<rparr>]\<rparr>"

lemma demo_registry_facts: "ds_inv demo_registry" "ds_map demo_registry [118, 115] = Some (VMCI_MAKE_HANDLE 2 20, 5)"
  by (simp_all add: ds_inv_def ds_map_def demo_registry_def)

theorem registration_protected_witness:
  "ds_map (registry_run ds_insert ds_remove [RegRemove [118, 115] 7, RegInsert True True [118, 115] (VMCI_MAKE_HANDLE 2 9) 7]
     demo_registry) [118, 115] = Some (VMCI_MAKE_HANDLE 2 20, 5)"
  by (rule registration_protected [OF demo_registry_facts]) auto

text \<open>
  C11: A request of an untrusted context other than a lookup changes nothing and is answered
  with \<open>NO_ACCESS\<close>; the answer is four bytes longer than what was written into the buffer,
  and these are bytes of the kernel stack.
\<close>

theorem untrusted_request_denied:
  assumes "\<not> trusted f" "rd32 inb 0 \<noteq> VMCI_DS_ACTION_LOOKUP" "length stack = VMCI_DS_MAX_MSG_SIZE"
  shows "case DsHandleMessage E av aw inb stack contextID f s of ((reply, written), s') \<Rightarrow>
    s' = s \<and> rd32 reply 0 = rd32 inb 4 \<and> rd32 reply 4 = word_of_int VMCI_ERROR_NO_ACCESS
    \<and> written = 38 \<and> drop 34 (take written reply) = take 4 (drop 34 stack)"
proof -
  have len: "length (ascii ''access denied'') = 13" by (simp add: ascii_def)
  have handle: "DsHandleMessage E av aw inb stack contextID f s = (DsSetReplyStatus VMCI_ERROR_NO_ACCESS
      (ascii ''access denied'') (reply_handle VMCI_INVALID_HANDLE (write_at 0 (le32 (rd32 inb 4)) stack)), s)"
    using assms(1,2) by (simp add: DsHandleMessage_def trusted_def Let_def)
  show ?thesis
    unfolding handle using assms(3)
    by (simp add: DsSetReplyStatus_def reply_handle_def reply_simps len drop_take drop_write_at)
qed

definition demo_ds :: ds_state where
  "demo_ds = \<lparr>ctx_list = ctx_list demo_dgs, ctx_mem = ctx_mem demo_dgs, ctx_live = ctx_live demo_dgs,
     resourceTable = resourceTable demo_dgs, resourceID_counter = 1024, cl_mem = cl_mem demo_dgs,
     cl_live = {30}, events = events demo_dgs, wellKnownTable = wellKnownTable demo_dgs, wk_live = {40},
     dgp_mem = dgp_mem demo_dgs, dgp_live = {}, obj_live = {10}, ds_registry = Some demo_registry,
     ds_apiHandle = VMCI_DS_HANDLE, ds_groupHandle = VMCI_INVALID_HANDLE, ds_isInitialized = True\<rparr>"

text \<open>A registration asked for by an untrusted context; the stack was full of sevens.\<close>

theorem untrusted_request_denied_witness:
  "case DsHandleMessage demo_env True True (le32 1 @ replicate 20 0) (replicate 300 7) 5 0 demo_ds of
     ((reply, written), s') \<Rightarrow> s' = demo_ds \<and> drop 34 (take written reply) = [7, 7, 7, 7]"
proof -
  have "take 4 (drop 34 (replicate 300 7)) = ([7, 7, 7, 7] :: u8 list)" by (simp add: numeral_eq_Suc)
  then show ?thesis
    using untrusted_request_denied [of 0 "le32 1 @ replicate 20 0" "replicate 300 7", where E = demo_env and s = demo_ds
        and av = True and aw = True and contextID = 5]
    by (auto simp: rd32_le32)
qed

text \<open>
  A lookup is answered without changing anything: the answer carries the number of the
  request, and the handle registered under the name, or that there is none.
\<close>

theorem lookup_request_answered:
  assumes "rd32 inb 0 = VMCI_DS_ACTION_LOOKUP" "length stack = VMCI_DS_MAX_MSG_SIZE"
    and reg: "ds_registry s = Some l" "ds_inv l"
  shows "case DsHandleMessage E av aw inb stack contextID f s of ((reply, written), s') \<Rightarrow>
    s' = s \<and> written = 25 \<and> rd32 reply 0 = rd32 inb 4
    \<and> (case ds_map l (c_string inb 20) of
         None \<Rightarrow> rd32 reply 4 = word_of_int VMCI_ERROR_NOT_FOUND
           \<and> VMCI_MAKE_HANDLE (rd32 reply 8) (rd32 reply 12) = VMCI_INVALID_HANDLE
       | Some (h, c) \<Rightarrow> rd32 reply 4 = 0 \<and> VMCI_MAKE_HANDLE (rd32 reply 8) (rd32 reply 12) = h)"
proof -
  let ?r = "reply_handle VMCI_INVALID_HANDLE (write_at 0 (le32 (rd32 inb 4)) stack)"
  define r1 where "r1 = fst (DsSetReplyStatus VMCI_ERROR_GENERIC (ascii ''general failure'') ?r)"
  have "length (ascii ''general failure'') = 15" by (simp add: ascii_def)
  then have r1: "length r1 = 300" "rd32 r1 0 = rd32 inb 4"
    using assms(2) by (simp_all add: r1_def DsSetReplyStatus_def reply_handle_def reply_simps)
  have handle: "DsHandleMessage E av aw inb stack contextID f s = (DsLookupAction (c_string inb 20) r1 s, s)"
    using assms(1) by (simp add: DsHandleMessage_def Let_def r1_def)
  have inv: "hcontext VMCI_INVALID_HANDLE = VMCI_INVALID_ID" "hresource VMCI_INVALID_HANDLE = VMCI_INVALID_ID"
    by (simp_all add: VMCI_INVALID_HANDLE_def)
  show ?thesis
    unfolding handle DsLookupAction_def reg(1) option.sel DsListLookup_eq [OF reg(2)]
    by (cases "ds_map l (c_string inb 20)")
      (auto simp: DsSetReplyStatus_def reply_handle_def reply_simps r1 Let_def inv)
qed

text \<open>The name \<open>vs\<close> is found; the request carries the number 9.\<close>

theorem lookup_request_answered_witness:
  "case DsHandleMessage demo_env True True (le32 0 @ le32 9 @ replicate 12 0 @ [118, 115, 0]) (replicate 300 7) 5 1 demo_ds
   of ((reply, written), s') \<Rightarrow> rd32 reply 0 = 9 \<and> rd32 reply 4 = 0
     \<and> VMCI_MAKE_HANDLE (rd32 reply 8) (rd32 reply 12) = VMCI_MAKE_HANDLE 2 20"
proof -
  let ?b = "le32 0 @ le32 9 @ replicate 12 0 @ [118, 115, 0]"
  have b: "rd32 ?b 0 = 0" "rd32 ?b 4 = 9" "c_string ?b 20 = [118, 115]"
    by (simp_all add: le32_def rd32_def c_string_def)
  have reg: "ds_registry demo_ds = Some demo_registry" by (simp add: demo_ds_def)
  from lookup_request_answered [OF b(1) _ reg demo_registry_facts(1), of "replicate 300 7",
      where E = demo_env and av = True and aw = True and contextID = 5 and f = 1] b demo_registry_facts(2)
  show ?thesis by (simp add: split_beta)
qed

section \<open>Registrations of a resource\<close>

lemma ds_registry_upd_res [simp]: "ds_registry (upd_res p f s) = ds_registry s"
  by (simp add: upd_res_def)

lemma res_registry [simp]: "res (s\<lparr>ds_registry := r\<rparr>) = res s"
  by (simp add: res_def fun_eq_iff)

lemma res_lookup_registry [simp]: "res_lookup (s\<lparr>ds_registry := r\<rparr>) = res_lookup s"
  by (simp add: res_lookup_def fun_eq_iff cong: option.case_cong)

definition add_registrations :: "u32 \<Rightarrow> VMCIResource \<Rightarrow> VMCIResource" where
  "add_registrations n r = r\<lparr>r_registrationCount := r_registrationCount r + n\<rparr>"

lemma add_registrations_fields [simp]:
  "he_handle (add_registrations n r) = he_handle r" "he_refCount (add_registrations n r) = he_refCount r"
  "r_clients (add_registrations n r) = r_clients r" "r_type (add_registrations n r) = r_type r"
  "r_registrationCount (add_registrations n r) = r_registrationCount r + n" "r_handle (add_registrations n r) = r_handle r"
  by (simp_all add: add_registrations_def)

lemma get_count_release:
  assumes "ht_inv (resourceTable s)" "res_lookup s h VMCI_RESOURCE_TYPE_ANY = Some p"
  shows "VMCIResource_Release cb p (upd_res p (add_registrations n) (upd_res p inc_ref s))
    = (VMCI_SUCCESS, upd_res p (add_registrations n) s)"
proof -
  have "upd_res p (add_registrations n) (upd_res p inc_ref s) = upd_res p inc_ref (upd_res p (add_registrations n) s)"
    by (rule inc_ref_commute) (simp_all add: add_registrations_def)
  moreover have "1 \<le> he_refCount (res (upd_res p (add_registrations n) s) p)"
    using res_lookup_ref [OF assms] by simp
  ultimately show ?thesis by (simp add: release_after_inc)
qed

lemma RegCount_eqs:
  "VMCIResource_IncDsRegCount (Some p) s = (VMCI_SUCCESS, upd_res p (add_registrations 1) s)"
  "VMCIResource_DecDsRegCount (Some p) s = (VMCI_SUCCESS, upd_res p (add_registrations (- 1)) s)"
  by (simp_all add: VMCIResource_IncDsRegCount_def VMCIResource_DecDsRegCount_def add_registrations_def [abs_def])

definition count_registration :: "u32 \<Rightarrow> VMCIHandle \<Rightarrow> 'a ds_state_scheme \<Rightarrow> 'a ds_state_scheme" where
  "count_registration n h s = (case res_lookup s h VMCI_RESOURCE_TYPE_ANY of None \<Rightarrow> s
     | Some p \<Rightarrow> upd_res p (add_registrations n) s)"

lemma VMCIDs_Register_eq:
  "ht_inv (resourceTable s) \<Longrightarrow> VMCIDs_Register E av aw name h c s =
    (case DsListInsert av aw (ds_registry s) name h c of (r, reg) \<Rightarrow>
      (r, if r = VMCI_SUCCESS then count_registration 1 h (s\<lparr>ds_registry := reg\<rparr>) else s\<lparr>ds_registry := reg\<rparr>))"
  by (auto simp: VMCIDs_Register_def VMCIResource_Get_eq Let_def split_beta count_registration_def RegCount_eqs
      get_count_release split: option.split)

lemma VMCIDs_Unregister_eq:
  "ht_inv (resourceTable s) \<Longrightarrow> VMCIDs_Unregister E name c s =
    (case DsListRemove (ds_registry s) name c of (r, h, reg) \<Rightarrow>
      (r, if r = VMCI_SUCCESS then count_registration (- 1) (case h of None \<Rightarrow> VMCI_INVALID_HANDLE | Some h \<Rightarrow> h)
            (s\<lparr>ds_registry := reg\<rparr>) else s\<lparr>ds_registry := reg\<rparr>))"
  by (auto simp: VMCIDs_Unregister_def VMCIResource_Get_eq Let_def split_beta count_registration_def RegCount_eqs
      get_count_release split: option.split)

lemma count_registration_fields:
  "ds_registry (count_registration n h s) = ds_registry s"
  "res_lookup (count_registration n h s) = res_lookup s"
  "ht_inv (resourceTable s) \<Longrightarrow> ht_inv (resourceTable (count_registration n h s))"
  "he_refCount (res (count_registration n h s) q) = he_refCount (res s q)"
  "r_registrationCount (res (count_registration n h s) q) = r_registrationCount (res s q)
     + (if res_lookup s h VMCI_RESOURCE_TYPE_ANY = Some q then n else 0)"
  by (auto simp: count_registration_def res_lookup_upd ht_inv_upd_res split: option.split)

text \<open>
  A name that is registered is found with its handle, and its resource counts one
  registration more; when the context that registered it gives it up, the call succeeds and
  the registry, the registration counts and the reference counts are what they were.
\<close>

theorem register_unregister:
  assumes inv: "ht_inv (resourceTable s)" "ds_registry s = Some l" "ds_inv l" and c: "c \<noteq> VMCI_INVALID_ID"
    and reg: "VMCIDs_Register E av aw name h c s = (VMCI_SUCCESS, s1)"
  shows "DsListLookup (the (ds_registry s1)) name = (VMCI_SUCCESS, Some h)
    \<and> (\<forall>p. res_lookup s h VMCI_RESOURCE_TYPE_ANY = Some p
         \<longrightarrow> r_registrationCount (res s1 p) = r_registrationCount (res s p) + 1)
    \<and> (case VMCIDs_Unregister E name c s1 of (r, s2) \<Rightarrow> r = VMCI_SUCCESS
        \<and> ds_map (the (ds_registry s2)) = ds_map l
        \<and> (\<forall>q. r_registrationCount (res s2 q) = r_registrationCount (res s q)
             \<and> he_refCount (res s2 q) = he_refCount (res s q)))"
proof -
  obtain reg1 where ins: "DsListInsert av aw (Some l) name h c = (VMCI_SUCCESS, reg1)"
    "s1 = count_registration 1 h (s\<lparr>ds_registry := reg1\<rparr>)"
    using reg inv by (auto simp: VMCIDs_Register_eq split: prod.splits if_splits)
  obtain l1 where l1: "reg1 = Some l1" "ds_inv l1" "ds_map l name = None" "ds_map l1 = (ds_map l)(name \<mapsto> (h, c))"
    using DsListInsert_correct [OF inv(3) ins(1)] by auto
  obtain k where k: "DsListLookupIndex l1 name = Some k"
    using l1(4) by (cases "DsListLookupIndex l1 name") (auto simp: DsListLookupIndex_None)
  have d: "distinct (map el_name (ds_elements l1))" using l1(2) by (simp add: ds_inv_def)
  have e: "el_handle (ds_elements l1 ! k) = h" "el_contextID (ds_elements l1 ! k) = c"
    using DsListLookupIndex_Some(3) [OF k d] l1(4) by simp_all
  obtain reg2 where rem: "DsListRemove (Some l1) name c = (VMCI_SUCCESS, Some h, Some reg2)"
    using k e c DsListLookupIndex_Some(1) [OF k d] by (simp add: DsListRemove_def DsListRemoveElement_def)
  have m2: "ds_map reg2 = ds_map l"
    using DsListRemove_correct [OF l1(2) rem] l1(3,4) by (auto simp: fun_upd_idem)
  have inv1: "ht_inv (resourceTable s1)" unfolding ins(2) by (rule count_registration_fields) (simp add: inv)
  have r1: "ds_registry s1 = Some l1" by (simp add: ins(2) count_registration_fields l1(1))
  have un: "VMCIDs_Unregister E name c s1 = (VMCI_SUCCESS, count_registration (- 1) h (s1\<lparr>ds_registry := Some reg2\<rparr>))"
    using rem r1 by (simp add: VMCIDs_Unregister_eq [OF inv1])
  show ?thesis
    unfolding un
    by (simp add: count_registration_fields m2 ins(2) DsListLookup_eq [OF l1(2)] l1(1,4))
qed

theorem register_unregister_witness:
  "case VMCIDs_Register demo_env True True [97] (VMCI_MAKE_HANDLE 2 20) 5 demo_ds of (r, s1) \<Rightarrow>
     r = VMCI_SUCCESS \<and> DsListLookup (the (ds_registry s1)) [97] = (VMCI_SUCCESS, Some (VMCI_MAKE_HANDLE 2 20))"
proof -
  have reg: "ds_registry demo_ds = Some demo_registry" by (simp add: demo_ds_def)
  have inv: "ht_inv (resourceTable demo_ds)" by (simp add: demo_ds_def demo_res_facts(1))
  obtain r s1 where e: "VMCIDs_Register demo_env True True [97] (VMCI_MAKE_HANDLE 2 20) 5 demo_ds = (r, s1)" by fastforce
  then have r: "r = VMCI_SUCCESS"
    by (auto simp: VMCIDs_Register_eq [OF inv] reg DsListInsert_def DsListLookupIndex_def demo_registry_def
        VMCI_AllocKernelMem_def KMALLOC_MAX_SIZE_def split: prod.splits)
  from register_unregister [OF inv reg demo_registry_facts(1) _ e [unfolded r]] show ?thesis by (simp add: e r)
qed

text \<open>Both loops over the list filter it.\<close>

declare remove_resource_loop.simps [simp del]

lemma RemoveElement_elements:
  "i < length (ds_elements l) \<Longrightarrow>
    snd (DsListRemoveElement l i) = l\<lparr>ds_elements := take i (ds_elements l) @ drop (Suc i) (ds_elements l)\<rparr>"
  by (simp add: DsListRemoveElement_def)

lemma add_registrations_add: "add_registrations a (add_registrations b r) = add_registrations (b + a) r"
  by (simp add: add_registrations_def add.assoc)

lemma add_registrations_0 [simp]: "upd_res p (add_registrations 0) s = s"
  by (rule upd_res_id) (simp add: add_registrations_def)

lemma remove_resource_loop_correct:
  "remove_resource_loop p h i n l s =
    (n + int (length (filter (\<lambda>e. el_handle e = h) (drop i (ds_elements l)))),
     l\<lparr>ds_elements := take i (ds_elements l) @ filter (\<lambda>e. el_handle e \<noteq> h) (drop i (ds_elements l))\<rparr>,
     upd_res p (add_registrations (- of_nat (length (filter (\<lambda>e. el_handle e = h) (drop i (ds_elements l)))))) s)"
proof (induction p h i n l s rule: remove_resource_loop.induct)
  case (1 p h i n l s)
  show ?case
  proof (cases "i < length (ds_elements l)")
    case False
    then show ?thesis by (simp add: remove_resource_loop.simps [of p h i n l s])
  next
    case True
    have d: "drop i (ds_elements l) = ds_elements l ! i # drop (Suc i) (ds_elements l)"
      using True by (rule Cons_nth_drop_Suc [symmetric])
    show ?thesis
    proof (cases "el_handle (ds_elements l ! i) = h")
      case eq: True
      let ?l = "l\<lparr>ds_elements := take i (ds_elements l) @ drop (Suc i) (ds_elements l)\<rparr>"
      have step: "remove_resource_loop p h i n l s
          = remove_resource_loop p h i (n + 1) ?l (upd_res p (add_registrations (- 1)) s)"
        using True eq by (subst remove_resource_loop.simps) (simp add: RemoveElement_elements RegCount_eqs)
      show ?thesis
        using 1(1) True eq
        by (simp add: step RemoveElement_elements RegCount_eqs d upd_res_upd_res add_registrations_add)
    next
      case False
      have "remove_resource_loop p h i n l s = remove_resource_loop p h (Suc i) n l s"
        using True False by (subst remove_resource_loop.simps) simp
      with 1(2) True False show ?thesis by (simp add: d take_Suc_conv_app_nth)
    qed
  qed
qed

lemma remove_context_loop_eq:
  "i \<le> length (ds_elements l) \<Longrightarrow> remove_context_loop c i l
    = l\<lparr>ds_elements := filter (\<lambda>e. hcontext (el_handle e) \<noteq> c) (take i (ds_elements l)) @ drop i (ds_elements l)\<rparr>"
proof (induction i arbitrary: l)
  case (Suc i)
  then have t: "take (Suc i) (ds_elements l) = take i (ds_elements l) @ [ds_elements l ! i]"
    by (simp add: take_Suc_conv_app_nth)
  have d: "drop i (ds_elements l) = ds_elements l ! i # drop (Suc i) (ds_elements l)"
    using Suc.prems by (intro Cons_nth_drop_Suc [symmetric]) simp
  show ?case
    using Suc.prems by (simp add: Suc.IH RemoveElement_elements t d)
qed simp

text \<open>
  When a resource goes away all its registrations go, the others stay in their order, and
  its registration count falls by the number removed, which is the result.
\<close>

theorem unregister_resource_correct:
  assumes "ds_registry s = Some l" "r_registrationCount (res s p) \<noteq> 0" "r_handle (res s p) = h" "h \<noteq> VMCI_INVALID_HANDLE"
  shows "case VMCIDs_UnregisterResource (Some p) s of (r, s') \<Rightarrow>
    ds_elements (the (ds_registry s')) = filter (\<lambda>e. el_handle e \<noteq> h) (ds_elements l)
    \<and> r = int (length (filter (\<lambda>e. el_handle e = h) (ds_elements l)))
    \<and> r_registrationCount (res s' p)
        = r_registrationCount (res s p) - of_nat (length (filter (\<lambda>e. el_handle e = h) (ds_elements l)))"
  using assms
  by (simp add: VMCIDs_UnregisterResource_def DsListRemoveResource_def remove_resource_loop_correct)

theorem unregister_resource_correct_witness:
  "ds_elements (the (ds_registry (snd (VMCIDs_UnregisterResource (Some 10) (upd_res 10 (add_registrations 1) demo_ds))))) = []"
proof -
  let ?s = "upd_res 10 (add_registrations 1) demo_ds"
  have r: "res demo_ds 10 = demo_resource" by (simp add: res_def) (simp add: demo_ds_def demo_res_def)
  have "ds_registry ?s = Some demo_registry" by (simp add: demo_ds_def)
  from unregister_resource_correct [OF this, of 10 "VMCI_MAKE_HANDLE 2 20"] show ?thesis
    by (simp add: r split_beta) (simp add: demo_resource_def demo_registry_def)
qed

text \<open>
  When a context goes away, the registrations removed are those whose handle is in that
  context.  A registration that the context itself made for a handle of another context (an
  endpoint of the host, say) stays, although its owner is gone; and removed registrations are
  not taken off the counts of their resources.
\<close>

theorem remove_registrations_context:
  assumes "ds_registry s = Some l" "ds_isInitialized s" "c \<noteq> VMCI_INVALID_ID"
  shows "let s' = DsRemoveRegistrationsContext c s in
    ds_elements (the (ds_registry s')) = filter (\<lambda>e. hcontext (el_handle e) \<noteq> c) (ds_elements l)
    \<and> (\<forall>e \<in> set (ds_elements l). el_contextID e = c \<and> hcontext (el_handle e) \<noteq> c
          \<longrightarrow> e \<in> set (ds_elements (the (ds_registry s'))))
    \<and> resourceTable s' = resourceTable s"
  using assms by (simp add: DsRemoveRegistrationsContext_def remove_context_loop_eq)

text \<open>The registration of context 5 for the host endpoint 2:20 outlives context 5.\<close>

theorem remove_registrations_context_witness:
  "ds_elements (the (ds_registry (DsRemoveRegistrationsContext 5 demo_ds))) = ds_elements demo_registry"
proof -
  have "ds_registry demo_ds = Some demo_registry" "ds_isInitialized demo_ds" by (simp_all add: demo_ds_def)
  from remove_registrations_context [OF this, of 5] show ?thesis by (simp add: Let_def demo_registry_def)
qed

end
