(* ===== verification/QueuePair.thy ===== *)
theory QueuePair
  imports DiscoveryService
begin

text \<open>
  \<open>vmci-only/common/vmciQueuePair.c\<close>: the broker of queue pairs.  A queue pair is created by
  one context and attached to by at most one other; the creator (or, for a pair of the host,
  the attacher) names the files that back the two queues, and the pair is freed when both
  sides have detached.  The list of pairs is a list of pointers into \<open>qp_mem\<close>; \<open>qp_live\<close> are the
  kernel objects of the broker allocated and not yet freed (entries, queue headers, attach
  records), \<open>qp_pins\<close> the number of user pages pinned, and \<open>qp_out\<close> what was copied out to the
  callers.  Pinning of user memory is \<open>VMCIHost_GetUserMemory\<close> of \<open>linux/vmciKernelIf.c\<close>.

  A result \<open>None\<close> is a crash of the kernel: a null or uninitialised pointer is followed.
\<close>

abbreviation (input) VMCI_QPFLAG_ATTACH_ONLY :: u32 where "VMCI_QPFLAG_ATTACH_ONLY \<equiv> 1"
abbreviation (input) VMCI_QPFLAG_LOCAL :: u32 where "VMCI_QPFLAG_LOCAL \<equiv> 2"
abbreviation (input) VMCI_QP_ALL_FLAGS :: u32 where "VMCI_QP_ALL_FLAGS \<equiv> 3"
abbreviation (input) VMCI_PATH_MAX :: u64 where "VMCI_PATH_MAX \<equiv> 256"
abbreviation (input) PAGE_SIZE :: u64 where "PAGE_SIZE \<equiv> 4096"
abbreviation (input) VMCI_EVENT_QP_PEER_ATTACH :: u32 where "VMCI_EVENT_QP_PEER_ATTACH \<equiv> 3"
abbreviation (input) VMCI_EVENT_QP_PEER_DETACH :: u32 where "VMCI_EVENT_QP_PEER_DETACH \<equiv> 4"

record QueuePairPageStore =
  ps_user :: bool
  ps_producePageFile :: u64
  ps_consumePageFile :: u64
  ps_producePageFileSize :: u64
  ps_consumePageFileSize :: u64
  ps_producePageUVA :: u64
  ps_consumePageUVA :: u64

text \<open>
  An array of pages: not allocated, freed (the pointer is kept), or allocated with the given
  number of leading entries that name pinned pages (an error code of \<open>get_user_pages\<close>: none).
\<close>

datatype page_array = NoPages | FreedPages | Pages int

record PageStoreAttachInfo =
  ai_producePageFile :: "u8 list"
  ai_consumePageFile :: "u8 list"
  ai_numProducePages :: u64
  ai_numConsumePages :: u64
  ai_produceBuffer :: u64
  ai_consumeBuffer :: u64
  ai_producePages :: page_array
  ai_consumePages :: page_array

record QueueInfo =
  qi_size :: u64
  qi_pageFile :: "u8 list"

record QueuePairEntry =
  qe_handle :: VMCIHandle
  qe_peer :: VMCIId
  qe_flags :: u32
  qe_produceInfo :: QueueInfo
  qe_consumeInfo :: QueueInfo
  qe_createId :: VMCIId
  qe_attachId :: VMCIId
  qe_refCount :: u32
  qe_pageStoreSet :: bool
  qe_allowAttach :: bool
  qe_requireTrustedAttach :: bool
  qe_createdByTrusted :: bool
  qe_produceQ :: ptr
  qe_consumeQ :: ptr
  qe_attachInfo :: ptr
  qe_attach :: PageStoreAttachInfo \<comment> \<open>the record \<open>qe_attachInfo\<close> points to\<close>

record qp_state = ds_state +
  qp_list :: "ptr list"
  qp_mem :: "ptr \<Rightarrow> QueuePairEntry"
  qp_live :: "ptr set"
  qp_pins :: int
  qp_out :: "(u64 \<times> u8 list) list"

section \<open>The list of queue pairs\<close>

definition upd_qp :: "ptr \<Rightarrow> (QueuePairEntry \<Rightarrow> QueuePairEntry) \<Rightarrow> 'a qp_state_scheme \<Rightarrow> 'a qp_state_scheme" where
  "upd_qp p f s = s\<lparr>qp_mem := (qp_mem s)(p := f (qp_mem s p))\<rparr>"

definition QueuePairList_Init :: "'a qp_state_scheme \<Rightarrow> int \<times> 'a qp_state_scheme" where
  "QueuePairList_Init s = (VMCI_SUCCESS, s\<lparr>qp_list := []\<rparr>)"

definition QueuePairList_Exit :: "'a qp_state_scheme \<Rightarrow> 'a qp_state_scheme" where
  "QueuePairList_Exit s = s\<lparr>qp_list := []\<rparr>"

definition QueuePairList_FindEntry :: "VMCIHandle \<Rightarrow> 'a qp_state_scheme \<Rightarrow> ptr option" where
  "QueuePairList_FindEntry handle s = find (\<lambda>p. VMCI_HANDLE_EQUAL (qe_handle (qp_mem s p)) handle) (qp_list s)"

definition QueuePairList_AddEntry :: "ptr \<Rightarrow> 'a qp_state_scheme \<Rightarrow> 'a qp_state_scheme" where
  "QueuePairList_AddEntry p s = s\<lparr>qp_list := qp_list s @ [p]\<rparr>"

definition QueuePairList_RemoveEntry :: "ptr \<Rightarrow> 'a qp_state_scheme \<Rightarrow> 'a qp_state_scheme" where
  "QueuePairList_RemoveEntry p s = s\<lparr>qp_list := remove1 p (qp_list s)\<rparr>"

definition QueuePairList_GetHead :: "'a qp_state_scheme \<Rightarrow> ptr option" where
  "QueuePairList_GetHead s = (case qp_list s of [] \<Rightarrow> None | p # _ \<Rightarrow> Some p)"

definition QueuePairDenyConnection :: "VMCIId \<Rightarrow> VMCIId \<Rightarrow> bool" where
  "QueuePairDenyConnection contextId peerId = False"

definition QueuePair_Init :: "'a qp_state_scheme \<Rightarrow> int \<times> 'a qp_state_scheme" where
  "QueuePair_Init s = QueuePairList_Init s"

text \<open>The loop of \<open>QueuePair_Exit\<close>: only the entries themselves are freed.\<close>

fun exit_entries :: "ptr list \<Rightarrow> 'a qp_state_scheme \<Rightarrow> 'a qp_state_scheme" where
  "exit_entries [] s = s"
| "exit_entries (p # ps) s =
     exit_entries ps (QueuePairList_RemoveEntry p s\<lparr>qp_live := qp_live s - {p}\<rparr>)"

definition QueuePair_Exit :: "'a qp_state_scheme \<Rightarrow> 'a qp_state_scheme" where
  "QueuePair_Exit s = QueuePairList_Exit (exit_entries (qp_list s) s)"

section \<open>Pinning of user memory\<close>

text \<open>
  \<open>retval1\<close> and \<open>retval2\<close> are the results of \<open>get_user_pages\<close> for the two queues: the number
  of pages pinned, or a negative error code.  The comparison with the unsigned page counts
  is unsigned.  The third result is the change of the number of pinned pages.  When the
  second call fails, as many pages of the first queue are given back as there should be.
\<close>

definition VMCIHost_GetUserMemory ::
  "bool \<Rightarrow> bool \<Rightarrow> int \<Rightarrow> int \<Rightarrow> PageStoreAttachInfo \<Rightarrow> (int \<times> PageStoreAttachInfo \<times> int) option" where
  "VMCIHost_GetUserMemory avail1 avail2 retval1 retval2 attach =
     (if \<not> VMCI_AllocKernelMem avail1 (unat (ai_numProducePages attach * 8))
      then Some (VMCI_ERROR_NO_MEM, attach\<lparr>ai_producePages := NoPages\<rparr>, 0)
      else if \<not> VMCI_AllocKernelMem avail2 (unat (ai_numConsumePages attach * 8))
      then Some (VMCI_ERROR_NO_MEM, attach\<lparr>ai_producePages := FreedPages, ai_consumePages := NoPages\<rparr>, 0)
      else let freed = attach\<lparr>ai_producePages := FreedPages, ai_consumePages := FreedPages\<rparr>
      in if word_of_int retval1 < ai_numProducePages attach then Some (VMCI_ERROR_NO_MEM, freed, 0)
      else if word_of_int retval2 < ai_numConsumePages attach
      then if retval1 < int (unat (ai_numProducePages attach)) then None
           else Some (VMCI_ERROR_NO_MEM, freed, retval1 - int (unat (ai_numProducePages attach)))
      else Some (VMCI_SUCCESS, attach\<lparr>ai_producePages := Pages retval1, ai_consumePages := Pages retval2\<rparr>,
                 max 0 retval1 + max 0 retval2))"

text \<open>The pages given back, or \<open>None\<close>: an entry of the arrays that names no page is followed.\<close>

definition VMCIHost_ReleaseUserMemory :: "PageStoreAttachInfo \<Rightarrow> int option" where
  "VMCIHost_ReleaseUserMemory attach =
     (case (ai_producePages attach, ai_consumePages attach) of
        (Pages m, Pages n) \<Rightarrow>
          if int (unat (ai_numProducePages attach)) \<le> m \<and> int (unat (ai_numConsumePages attach)) \<le> n
          then Some (int (unat (ai_numProducePages attach)) + int (unat (ai_numConsumePages attach)))
          else None
      | _ \<Rightarrow> None)"

section \<open>Telling the peer\<close>

text \<open>The event datagram; \<open>new\<close> and \<open>dq\<close> are the allocations of its queueing.\<close>

definition qp_event :: "bool \<Rightarrow> VMCIHandle \<Rightarrow> VMCIId \<Rightarrow> VMCIId \<Rightarrow> VMCIDatagram" where
  "qp_event attach handle myId peerId =
     \<lparr>dg_dst = VMCI_MAKE_HANDLE peerId VMCI_EVENT_HANDLER,
      dg_src = VMCI_MAKE_HANDLE VMCI_HYPERVISOR_CONTEXT_ID VMCI_CONTEXT_RESOURCE_ID,
      dg_payloadSize = 24,
      dg_payload = le32 (if attach then VMCI_EVENT_QP_PEER_ATTACH else VMCI_EVENT_QP_PEER_DETACH)
        @ replicate 4 0 @ le32 (hcontext handle) @ le32 (hresource handle) @ le32 myId @ replicate 4 0\<rparr>"

definition QueuePairNotifyPeer ::
  "'a qp_state_scheme env \<Rightarrow> bool \<Rightarrow> bool \<Rightarrow> bool \<Rightarrow> VMCIHandle \<Rightarrow> VMCIId \<Rightarrow> VMCIId \<Rightarrow> 'a qp_state_scheme
    \<Rightarrow> int \<times> 'a qp_state_scheme" where
  "QueuePairNotifyPeer E new dq attach handle myId peerId s =
     (if VMCI_HANDLE_EQUAL handle VMCI_INVALID_HANDLE \<or> myId = VMCI_INVALID_ID \<or> peerId = VMCI_INVALID_ID
      then (VMCI_ERROR_INVALID_ARGS, s)
      else VMCIDatagram_Dispatch E new dq VMCI_HYPERVISOR_CONTEXT_ID (qp_event attach handle myId peerId) s)"

section \<open>Creating and attaching\<close>

text \<open>
  The answers of the allocator and of the copies to user memory that one call may meet, in
  the order of the code: the entry, the two queue headers, the attach record, the slot in
  the caller's array, the two allocations of the notification, the two copies.
\<close>

record qp_alloc =
  qa_entry :: "ptr option"
  qa_produceQ :: "ptr option"
  qa_consumeQ :: "ptr option"
  qa_attachInfo :: "ptr option"
  qa_array :: bool
  qa_new :: bool
  qa_dq :: bool
  qa_copy1 :: bool
  qa_copy2 :: bool

definition CEILING :: "u64 \<Rightarrow> u64 \<Rightarrow> u64" where
  "CEILING x y = (x + y - 1) div y"

definition new_attach :: "u64 \<Rightarrow> u64 \<Rightarrow> PageStoreAttachInfo" where
  "new_attach produceSize consumeSize =
     \<lparr>ai_producePageFile = replicate 256 0, ai_consumePageFile = replicate 256 0,
      ai_numProducePages = CEILING produceSize PAGE_SIZE + 1,
      ai_numConsumePages = CEILING consumeSize PAGE_SIZE + 1,
      ai_produceBuffer = 0, ai_consumeBuffer = 0, ai_producePages = NoPages, ai_consumePages = NoPages\<rparr>"

definition create_entry ::
  "qp_alloc \<Rightarrow> VMCIHandle \<Rightarrow> VMCIId \<Rightarrow> u32 \<Rightarrow> VMCIPrivilegeFlags \<Rightarrow> u64 \<Rightarrow> u64 \<Rightarrow> VMCIContext \<Rightarrow> VMCIId
    \<Rightarrow> 'a qp_state_scheme \<Rightarrow> int \<times> ptr option \<times> 'a qp_state_scheme" where
  "create_entry al handle peer flags privFlags produceSize consumeSize context contextId s =
     (if flags AND VMCI_QPFLAG_ATTACH_ONLY \<noteq> 0 then (VMCI_ERROR_NOT_FOUND, None, s)
      else if hcontext handle \<noteq> contextId \<and> hcontext handle \<noteq> peer then (VMCI_ERROR_NO_ACCESS, None, s)
      else if QueuePairDenyConnection contextId peer then (VMCI_ERROR_NO_ACCESS, None, s)
      else case (qa_entry al, qa_produceQ al, qa_consumeQ al, qa_attachInfo al) of
        (Some p, Some pq, Some cq, Some ai) \<Rightarrow>
          let e = \<lparr>qe_handle = handle, qe_peer = peer, qe_flags = flags,
                   qe_produceInfo = \<lparr>qi_size = produceSize, qi_pageFile = replicate 256 0\<rparr>,
                   qe_consumeInfo = \<lparr>qi_size = consumeSize, qi_pageFile = replicate 256 0\<rparr>,
                   qe_createId = contextId, qe_attachId = VMCI_INVALID_ID, qe_refCount = 1,
                   qe_pageStoreSet = False, qe_allowAttach = True,
                   qe_requireTrustedAttach = (cx_privFlags context AND VMCI_PRIVILEGE_FLAG_RESTRICTED \<noteq> 0),
                   qe_createdByTrusted = (privFlags AND VMCI_PRIVILEGE_FLAG_TRUSTED \<noteq> 0),
                   qe_produceQ = pq, qe_consumeQ = cq, qe_attachInfo = ai,
                   qe_attach = new_attach produceSize consumeSize\<rparr>
          in (VMCI_SUCCESS_QUEUEPAIR_CREATE, Some p,
              QueuePairList_AddEntry p (upd_qp p (\<lambda>_. e) (s\<lparr>qp_live := qp_live s \<union> {p, pq, cq, ai}\<rparr>)))
      | _ \<Rightarrow> (VMCI_ERROR_NO_MEM, None, s))"

text \<open>
  The checks of an attach that depend on the entry only, in the code's order, and the check
  that a pair with an endpoint in the host is used by a guest that supports such pairs.
\<close>

definition attach_error :: "VMCIPrivilegeFlags \<Rightarrow> VMCIContext \<Rightarrow> VMCIId \<Rightarrow> QueuePairEntry \<Rightarrow> int option" where
  "attach_error privFlags context contextId e =
     (if contextId = qe_createId e \<or> contextId = qe_attachId e then Some VMCI_ERROR_ALREADY_EXISTS
      else if \<not> qe_allowAttach e then Some VMCI_ERROR_UNAVAILABLE
      else if cx_privFlags context AND VMCI_PRIVILEGE_FLAG_RESTRICTED \<noteq> 0 \<and> \<not> qe_createdByTrusted e
      then Some VMCI_ERROR_NO_ACCESS
      else if qe_requireTrustedAttach e \<and> \<not> privFlags AND VMCI_PRIVILEGE_FLAG_TRUSTED \<noteq> 0
      then Some VMCI_ERROR_NO_ACCESS
      else if qe_peer e \<noteq> VMCI_INVALID_ID \<and> qe_peer e \<noteq> contextId then Some VMCI_ERROR_NO_ACCESS
      else None)"

definition host_qp_supported ::
  "'a qp_state_scheme env \<Rightarrow> ptr \<Rightarrow> VMCIId \<Rightarrow> QueuePairEntry \<Rightarrow> 'a qp_state_scheme
    \<Rightarrow> (bool \<times> 'a qp_state_scheme) option" where
  "host_qp_supported E cp contextId e s =
     (if qe_createId e = VMCI_HOST_CONTEXT_ID then Some (VMCIContext_SupportsHostQP s (Some cp), s)
      else if contextId = VMCI_HOST_CONTEXT_ID then
        (case VMCIContext_Get (qe_createId e) s of
           (None, s1) \<Rightarrow> None \<comment> \<open>\<open>VMCIContext_Release (NULL)\<close>\<close>
         | (Some q, s1) \<Rightarrow> Some (VMCIContext_SupportsHostQP s1 (Some q), VMCIContext_Release (env_free E) q s1))
      else Some (True, s))"

text \<open>The two file names copied to the caller of an attach; \<open>Some e\<close> is a refusal.\<close>

definition copy_page_files ::
  "qp_alloc \<Rightarrow> QueuePairPageStore option \<Rightarrow> QueuePairEntry \<Rightarrow> 'a qp_state_scheme
    \<Rightarrow> int option \<times> 'a qp_state_scheme" where
  "copy_page_files al pageStore e s =
     (case pageStore of None \<Rightarrow> (None, s)
      | Some ps \<Rightarrow>
          if \<not> qe_pageStoreSet e then (None, s)
          else if ps_producePageFileSize ps < VMCI_PATH_MAX then (Some VMCI_ERROR_NO_MEM, s)
          else if ps_consumePageFileSize ps < VMCI_PATH_MAX then (Some VMCI_ERROR_NO_MEM, s)
          else if ps_user ps \<and> \<not> qa_copy1 al then (Some VMCI_ERROR_GENERIC, s)
          else let s1 = s\<lparr>qp_out := qp_out s @ [(ps_producePageFile ps, qi_pageFile (qe_consumeInfo e))]\<rparr>
          in if ps_user ps \<and> \<not> qa_copy2 al then (Some VMCI_ERROR_GENERIC, s1)
          else (None, s1\<lparr>qp_out := qp_out s1 @ [(ps_consumePageFile ps, qi_pageFile (qe_produceInfo e))]\<rparr>))"

definition attach_entry ::
  "'a qp_state_scheme env \<Rightarrow> qp_alloc \<Rightarrow> VMCIHandle \<Rightarrow> u32 \<Rightarrow> VMCIPrivilegeFlags \<Rightarrow> u64 \<Rightarrow> u64
    \<Rightarrow> QueuePairPageStore option \<Rightarrow> ptr \<Rightarrow> VMCIId \<Rightarrow> ptr \<Rightarrow> 'a qp_state_scheme
    \<Rightarrow> (int \<times> 'a qp_state_scheme) option" where
  "attach_entry E al handle flags privFlags produceSize consumeSize pageStore cp contextId p s =
     (let e = qp_mem s p
      in case attach_error privFlags (ctx_mem s cp) contextId e of
           Some err \<Rightarrow> Some (err, s)
         | None \<Rightarrow>
      (case host_qp_supported E cp contextId e s of None \<Rightarrow> None
       | Some (supportsHostQP, s1) \<Rightarrow> Some (
           if \<not> supportsHostQP then (VMCI_ERROR_INVALID_RESOURCE, s1)
           else if qi_size (qe_produceInfo e) \<noteq> consumeSize \<or> qi_size (qe_consumeInfo e) \<noteq> produceSize
                   \<or> qe_flags e \<noteq> flags AND NOT VMCI_QPFLAG_ATTACH_ONLY
           then (VMCI_ERROR_QUEUEPAIR_MISMATCH, s1)
           else if QueuePairDenyConnection contextId (qe_createId e) then (VMCI_ERROR_NO_ACCESS, s1)
           else case copy_page_files al pageStore e s1 of
             (Some err, s2) \<Rightarrow> (err, s2)
           | (None, s2) \<Rightarrow>
               let (r, s3) = (if qe_createId e \<noteq> VMCI_HOST_CONTEXT_ID
                     then QueuePairNotifyPeer E (qa_new al) (qa_dq al) True handle contextId (qe_createId e) s2
                     else (VMCI_SUCCESS, s2))
               in if r < VMCI_SUCCESS then (r, s3)
                  else (if qe_createId e = VMCI_HOST_CONTEXT_ID
                        then VMCI_SUCCESS_QUEUEPAIR_CREATE else VMCI_SUCCESS_QUEUEPAIR_ATTACH,
                        upd_qp p (\<lambda>e. e\<lparr>qe_attachId := contextId, qe_refCount := qe_refCount e + 1,
                                        qe_allowAttach := False\<rparr>) s3))))"

definition page_store_incomplete :: "QueuePairPageStore option \<Rightarrow> bool" where
  "page_store_incomplete pageStore = (case pageStore of None \<Rightarrow> False
     | Some ps \<Rightarrow> ps_producePageFile ps = 0 \<or> ps_consumePageFile ps = 0
         \<or> ps_producePageFileSize ps = 0 \<or> ps_consumePageFileSize ps = 0)"

definition add_queuepair :: "bool \<Rightarrow> ptr \<Rightarrow> VMCIHandle \<Rightarrow> 'a qp_state_scheme \<Rightarrow> 'a qp_state_scheme" where
  "add_queuepair avail cp handle s = upd_ctx cp (\<lambda>c. c\<lparr>cx_queuePairArray :=
     VMCIHandleArray_AppendEntry avail (cx_queuePairArray c) handle\<rparr>) s"

definition remove_queuepair :: "ptr \<Rightarrow> VMCIHandle \<Rightarrow> 'a qp_state_scheme \<Rightarrow> 'a qp_state_scheme" where
  "remove_queuepair cp handle s = upd_ctx cp (\<lambda>c. c\<lparr>cx_queuePairArray :=
     snd (VMCIHandleArray_RemoveEntry (cx_queuePairArray c) handle)\<rparr>) s"

definition QueuePairAllocHost ::
  "'a qp_state_scheme env \<Rightarrow> qp_alloc \<Rightarrow> VMCIHandle \<Rightarrow> VMCIId \<Rightarrow> u32 \<Rightarrow> VMCIPrivilegeFlags \<Rightarrow> u64 \<Rightarrow> u64
    \<Rightarrow> QueuePairPageStore option \<Rightarrow> ptr option \<Rightarrow> 'a qp_state_scheme
    \<Rightarrow> (int \<times> ptr option \<times> 'a qp_state_scheme) option" where
  "QueuePairAllocHost E al handle peer flags privFlags produceSize consumeSize pageStore context s =
     (let contextId = VMCIContext_GetId s context
      in case context of
        None \<Rightarrow> Some (VMCI_ERROR_INVALID_ARGS, None, s)
      | Some cp \<Rightarrow>
          if VMCI_HANDLE_EQUAL handle VMCI_INVALID_HANDLE \<or> flags AND NOT VMCI_QP_ALL_FLAGS \<noteq> 0
             \<or> flags AND VMCI_QPFLAG_LOCAL \<noteq> 0 \<or> produceSize = 0 \<and> consumeSize = 0
             \<or> contextId = VMCI_INVALID_ID \<or> hcontext handle = VMCI_INVALID_ID
          then Some (VMCI_ERROR_INVALID_ARGS, None, s)
          else if page_store_incomplete pageStore then Some (VMCI_ERROR_INVALID_ARGS, None, s)
          else if VMCIHandleArray_HasEntry (cx_queuePairArray (ctx_mem s cp)) handle
          then Some (VMCI_ERROR_ALREADY_EXISTS, None, s)
          else case (case QueuePairList_FindEntry handle s of
                 None \<Rightarrow> Some (create_entry al handle peer flags privFlags produceSize consumeSize
                                 (ctx_mem s cp) contextId s)
               | Some p \<Rightarrow> map_option (\<lambda>(r, s1). (r, Some p, s1))
                   (attach_entry E al handle flags privFlags produceSize consumeSize pageStore cp contextId p s)) of
             None \<Rightarrow> None
           | Some (result, entry, s1) \<Rightarrow>
               Some (if VMCI_SUCCESS \<le> result then (result, entry, add_queuepair (qa_array al) cp handle s1)
                     else (result, None, s1)))"

definition QueuePair_Alloc ::
  "'a qp_state_scheme env \<Rightarrow> qp_alloc \<Rightarrow> VMCIHandle \<Rightarrow> VMCIId \<Rightarrow> u32 \<Rightarrow> VMCIPrivilegeFlags \<Rightarrow> u64 \<Rightarrow> u64
    \<Rightarrow> QueuePairPageStore option \<Rightarrow> ptr option \<Rightarrow> 'a qp_state_scheme \<Rightarrow> (int \<times> 'a qp_state_scheme) option" where
  "QueuePair_Alloc E al handle peer flags privFlags produceSize consumeSize pageStore context s =
     map_option (\<lambda>(r, _, s1). (r, s1))
       (QueuePairAllocHost E al handle peer flags privFlags produceSize consumeSize pageStore context s)"

section \<open>Naming the files and leaving\<close>

text \<open>
  The answers one call may meet: \<open>sp_read\<close> reads memory of the caller (the bytes, and whether
  the copy failed), then the four answers of the pinning and the two of the notification.
\<close>

record sp_env =
  sp_read :: "u64 \<Rightarrow> nat \<Rightarrow> u8 list \<times> bool"
  sp_avail1 :: bool
  sp_avail2 :: bool
  sp_retval1 :: int
  sp_retval2 :: int
  sp_new :: bool
  sp_dq :: bool

definition normalize :: "bool \<Rightarrow> QueuePairPageStore \<Rightarrow> QueuePairPageStore" where
  "normalize creator ps =
     (if creator then ps
      else ps\<lparr>ps_producePageFile := ps_consumePageFile ps, ps_consumePageFile := ps_producePageFile ps,
              ps_producePageFileSize := ps_consumePageFileSize ps,
              ps_consumePageFileSize := ps_producePageFileSize ps,
              ps_producePageUVA := ps_consumePageUVA ps, ps_consumePageUVA := ps_producePageUVA ps\<rparr>)"

definition set_files :: "u8 list \<Rightarrow> u8 list \<Rightarrow> QueuePairEntry \<Rightarrow> QueuePairEntry" where
  "set_files pf cf e = e\<lparr>qe_produceInfo := (qe_produceInfo e)\<lparr>qi_pageFile := pf\<rparr>,
                         qe_consumeInfo := (qe_consumeInfo e)\<lparr>qi_pageFile := cf\<rparr>\<rparr>"

text \<open>The names read into the entry, and whether a copy from user memory failed.\<close>

definition read_files :: "(u64 \<Rightarrow> nat \<Rightarrow> u8 list \<times> bool) \<Rightarrow> QueuePairPageStore \<Rightarrow> QueuePairEntry \<Rightarrow> bool \<times> QueuePairEntry" where
  "read_files rd ps e =
     (let (pb, pfail) = rd (ps_producePageFile ps) (unat (ps_producePageFileSize ps));
          (cb, cfail) = rd (ps_consumePageFile ps) (unat (ps_consumePageFileSize ps));
          pf = qi_pageFile (qe_produceInfo e); cf = qi_pageFile (qe_consumeInfo e)
      in if ps_user ps \<and> pfail then (True, set_files (write_at 0 pb pf) cf e)
         else (ps_user ps \<and> cfail, set_files (write_at 0 pb pf) (write_at 0 cb cf) e))"

definition attach_files :: "QueuePairPageStore \<Rightarrow> QueuePairEntry \<Rightarrow> QueuePairEntry" where
  "attach_files ps e = e\<lparr>qe_attach := (qe_attach e)
     \<lparr>ai_producePageFile := write_at 0 (take (unat (ps_producePageFileSize ps)) (qi_pageFile (qe_produceInfo e)))
        (ai_producePageFile (qe_attach e)),
      ai_consumePageFile := write_at 0 (take (unat (ps_consumePageFileSize ps)) (qi_pageFile (qe_consumeInfo e)))
        (ai_consumePageFile (qe_attach e)),
      ai_produceBuffer := ps_producePageUVA ps, ai_consumeBuffer := ps_consumePageUVA ps\<rparr>\<rparr>"

text \<open>The pinning for a caller that supports pairs with the host; \<open>None\<close> is a crash.\<close>

definition pin_files :: "sp_env \<Rightarrow> ptr \<Rightarrow> ptr \<Rightarrow> 'a qp_state_scheme \<Rightarrow> (int \<times> 'a qp_state_scheme) option" where
  "pin_files se cp p s =
     (if VMCIContext_SupportsHostQP s (Some cp) then
        (case VMCIHost_GetUserMemory (sp_avail1 se) (sp_avail2 se) (sp_retval1 se) (sp_retval2 se)
                (qe_attach (qp_mem s p)) of
           None \<Rightarrow> None
         | Some (result, a, pins) \<Rightarrow>
             Some (result, upd_qp p (\<lambda>e. e\<lparr>qe_attach := a\<rparr>) (s\<lparr>qp_pins := qp_pins s + pins\<rparr>)))
      else Some (VMCI_SUCCESS, s))"

definition QueuePair_SetPageStore ::
  "'a qp_state_scheme env \<Rightarrow> sp_env \<Rightarrow> VMCIHandle \<Rightarrow> QueuePairPageStore option \<Rightarrow> ptr option
    \<Rightarrow> 'a qp_state_scheme \<Rightarrow> (int \<times> 'a qp_state_scheme) option" where
  "QueuePair_SetPageStore E se handle pageStore context s =
     (let contextId = VMCIContext_GetId s context
      in case (pageStore, context) of
        (Some ps, Some cp) \<Rightarrow>
          if VMCI_HANDLE_EQUAL handle VMCI_INVALID_HANDLE
             \<or> ps_producePageFile ps = 0 \<or> ps_consumePageFile ps = 0
             \<or> ps_producePageFileSize ps = 0 \<or> ps_consumePageFile ps = 0
             \<or> contextId = VMCI_INVALID_ID
          then Some (VMCI_ERROR_INVALID_ARGS, s)
          else if \<not> VMCIHandleArray_HasEntry (cx_queuePairArray (ctx_mem s cp)) handle
          then Some (VMCI_ERROR_NOT_FOUND, s)
          else if VMCIContext_SupportsHostQP s context \<and> (ps_producePageUVA ps = 0 \<or> ps_consumePageUVA ps = 0)
          then Some (VMCI_ERROR_INVALID_ARGS, s)
          else (case QueuePairList_FindEntry handle s of
             None \<Rightarrow> Some (VMCI_ERROR_NOT_FOUND, s)
           | Some p \<Rightarrow>
               let e = qp_mem s p
               in if qe_createId e \<noteq> contextId
                     \<and> (qe_createId e \<noteq> VMCI_HOST_CONTEXT_ID \<or> qe_attachId e \<noteq> contextId)
                  then Some (VMCI_ERROR_QUEUEPAIR_NOTOWNER, s)
                  else if qe_pageStoreSet e then Some (VMCI_ERROR_UNAVAILABLE, s)
                  else let nps = normalize (qe_createId e = contextId) ps
                  in if VMCI_PATH_MAX < ps_producePageFileSize nps then Some (VMCI_ERROR_NO_MEM, s)
                  else if VMCI_PATH_MAX < ps_consumePageFileSize nps then Some (VMCI_ERROR_NO_MEM, s)
                  else let (fault, e1) = read_files (sp_read se) nps e
                  in if fault then Some (VMCI_ERROR_GENERIC, upd_qp p (\<lambda>_. e1) s)
                  else (case pin_files se cp p (upd_qp p (\<lambda>_. attach_files nps e1) s) of
                     None \<Rightarrow> None
                   | Some (r, s1) \<Rightarrow>
                       if r < VMCI_SUCCESS then Some (r, s1)
                       else let (r2, s2) = (if qe_createId e = VMCI_HOST_CONTEXT_ID
                              then QueuePairNotifyPeer E (sp_new se) (sp_dq se) True handle contextId (qe_createId e) s1
                              else (VMCI_SUCCESS, s1))
                       in if r2 < VMCI_SUCCESS then Some (r2, s2)
                          else Some (VMCI_SUCCESS, upd_qp p (\<lambda>e. e\<lparr>qe_pageStoreSet := True\<rparr>) s2)))
      | _ \<Rightarrow> Some (VMCI_ERROR_INVALID_ARGS, s))"

definition leave :: "VMCIId \<Rightarrow> QueuePairEntry \<Rightarrow> QueuePairEntry" where
  "leave contextId e = (if contextId = qe_createId e then e\<lparr>qe_createId := VMCI_INVALID_ID\<rparr>
                        else e\<lparr>qe_attachId := VMCI_INVALID_ID\<rparr>)\<lparr>qe_refCount := qe_refCount e - 1\<rparr>"

text \<open>What the last detach does with the entry; \<open>None\<close> is a crash.\<close>

definition free_entry :: "ptr \<Rightarrow> ptr \<Rightarrow> 'a qp_state_scheme \<Rightarrow> 'a qp_state_scheme option" where
  "free_entry cp p s =
     (let e = qp_mem s p; s1 = QueuePairList_RemoveEntry p s
      in case (if qe_pageStoreSet e \<and> VMCIContext_SupportsHostQP s (Some cp)
               then VMCIHost_ReleaseUserMemory (qe_attach e) else Some 0) of
           None \<Rightarrow> None
         | Some n \<Rightarrow> Some (s1\<lparr>qp_pins := qp_pins s1 - n,
                             qp_live := qp_live s1 - {qe_attachInfo e, qe_produceQ e, qe_consumeQ e, p}\<rparr>))"

definition QueuePair_Detach ::
  "'a qp_state_scheme env \<Rightarrow> bool \<Rightarrow> bool \<Rightarrow> VMCIHandle \<Rightarrow> ptr option \<Rightarrow> bool \<Rightarrow> 'a qp_state_scheme
    \<Rightarrow> (int \<times> 'a qp_state_scheme) option" where
  "QueuePair_Detach E new dq handle context detach s =
     (let contextId = VMCIContext_GetId s context
      in case context of
        None \<Rightarrow> Some (VMCI_ERROR_INVALID_ARGS, s)
      | Some cp \<Rightarrow>
          if VMCI_HANDLE_EQUAL handle VMCI_INVALID_HANDLE \<or> contextId = VMCI_INVALID_ID
          then Some (VMCI_ERROR_INVALID_ARGS, s)
          else if \<not> VMCIHandleArray_HasEntry (cx_queuePairArray (ctx_mem s cp)) handle
          then Some (VMCI_ERROR_NOT_FOUND, s)
          else (case QueuePairList_FindEntry handle s of
             None \<Rightarrow> Some (VMCI_ERROR_NOT_FOUND, s)
           | Some p \<Rightarrow>
               let e = qp_mem s p;
                   peerId = (if contextId = qe_createId e then qe_attachId e else qe_createId e)
               in if contextId \<noteq> qe_createId e \<and> contextId \<noteq> qe_attachId e
                  then Some (VMCI_ERROR_QUEUEPAIR_NOTATTACHED, s)
                  else if \<not> detach
                  then Some (if qe_refCount e = 1 \<or> peerId = VMCI_HOST_CONTEXT_ID
                             then VMCI_SUCCESS_LAST_DETACH else VMCI_SUCCESS, s)
                  else let s1 = upd_qp p (leave contextId) s
                  in if qe_refCount (qp_mem s1 p) = 0
                     then (case free_entry cp p s1 of None \<Rightarrow> None
                           | Some s2 \<Rightarrow> Some (VMCI_SUCCESS_LAST_DETACH, remove_queuepair cp handle s2))
                     else let s2 = snd (QueuePairNotifyPeer E new dq False handle contextId peerId s1)
                          in Some (if peerId = VMCI_HOST_CONTEXT_ID then VMCI_SUCCESS_LAST_DETACH else VMCI_SUCCESS,
                                   remove_queuepair cp handle s2)))"

section \<open>The interface for host endpoints\<close>

text \<open>
  \<open>handle\<close> is the value the caller's handle variable holds (\<open>None\<close>: a null pointer), \<open>outs\<close>
  whether the caller passes places for the two queues.  The results: the code, the handle,
  the queues, the state; \<open>None\<close> is a crash, or the panic when no resource id is left.
\<close>

definition VMCIQueuePair_AllocPriv ::
  "'a qp_state_scheme env \<Rightarrow> qp_alloc \<Rightarrow> VMCIHandle option \<Rightarrow> bool \<Rightarrow> u64 \<Rightarrow> u64 \<Rightarrow> VMCIId \<Rightarrow> u32
    \<Rightarrow> VMCIPrivilegeFlags \<Rightarrow> 'a qp_state_scheme
    \<Rightarrow> (int \<times> VMCIHandle option \<times> (ptr \<times> ptr) option \<times> 'a qp_state_scheme) option" where
  "VMCIQueuePair_AllocPriv E al handle outs produceSize consumeSize peer flags privFlags s =
     (case handle of None \<Rightarrow> Some (VMCI_ERROR_INVALID_ARGS, None, None, s)
      | Some h0 \<Rightarrow>
          if produceSize = 0 \<and> consumeSize = 0 \<or> \<not> outs then Some (VMCI_ERROR_INVALID_ARGS, handle, None, s)
          else case (if VMCI_HANDLE_EQUAL h0 VMCI_INVALID_HANDLE
                     then map_option (\<lambda>(r, s1). (VMCI_MAKE_HANDLE VMCI_HOST_CONTEXT_ID r, s1)) (VMCIResource_GetID s)
                     else Some (h0, s)) of
            None \<Rightarrow> None
          | Some (h, s1) \<Rightarrow>
              (case VMCIContext_Get VMCI_HOST_CONTEXT_ID s1 of
                 (None, s2) \<Rightarrow> None \<comment> \<open>\<open>VMCIContext_Release (NULL)\<close>\<close>
               | (Some cp, s2) \<Rightarrow>
                   (case QueuePairAllocHost E al h peer flags privFlags produceSize consumeSize None (Some cp) s2 of
                      None \<Rightarrow> None
                    | Some (result, Some p, s3) \<Rightarrow>
                        let e = qp_mem s3 p;
                            qs = (if qe_createId e = VMCI_HOST_CONTEXT_ID then (qe_produceQ e, qe_consumeQ e)
                                  else (qe_consumeQ e, qe_produceQ e))
                        in Some (VMCI_SUCCESS, Some h, Some qs, VMCIContext_Release (env_free E) cp s3)
                    | Some (result, None, s3) \<Rightarrow>
                        Some (result, Some h, None, VMCIContext_Release (env_free E) cp s3))))"

definition VMCIQueuePair_Alloc ::
  "'a qp_state_scheme env \<Rightarrow> qp_alloc \<Rightarrow> VMCIHandle option \<Rightarrow> bool \<Rightarrow> u64 \<Rightarrow> u64 \<Rightarrow> VMCIId \<Rightarrow> u32
    \<Rightarrow> 'a qp_state_scheme \<Rightarrow> (int \<times> VMCIHandle option \<times> (ptr \<times> ptr) option \<times> 'a qp_state_scheme) option" where
  "VMCIQueuePair_Alloc E al handle outs produceSize consumeSize peer flags s =
     VMCIQueuePair_AllocPriv E al handle outs produceSize consumeSize peer flags VMCI_NO_PRIVILEGE_FLAGS s"

definition VMCIQueuePair_Detach ::
  "'a qp_state_scheme env \<Rightarrow> bool \<Rightarrow> bool \<Rightarrow> VMCIHandle \<Rightarrow> 'a qp_state_scheme \<Rightarrow> (int \<times> 'a qp_state_scheme) option" where
  "VMCIQueuePair_Detach E new dq handle s =
     (case VMCIContext_Get VMCI_HOST_CONTEXT_ID s of
        (None, s1) \<Rightarrow> None
      | (Some cp, s1) \<Rightarrow> map_option (\<lambda>(r, s2). (r, VMCIContext_Release (env_free E) cp s2))
                          (QueuePair_Detach E new dq handle (Some cp) True s1))"

end
