(* ===== verification/QueuePairProps.thy ===== *)
theory QueuePairProps
  imports QueuePair
begin

text \<open>
  What the broker of queue pairs (theory \<open>QueuePair\<close>) keeps and promises: the invariant of its
  list, the rules of attaching, the ownership of the page store, and the way back from a
  creation to the state before.
\<close>

section \<open>Notifications are quiet\<close>

text \<open>
  A notification puts a datagram into the queue of the peer, or tells the subscribers in the
  host; it touches nothing the broker reads.
\<close>

definition same_ctx :: "VMCIContext \<Rightarrow> VMCIContext \<Rightarrow> bool" where
  "same_ctx c d \<longleftrightarrow> cx_cid c = cx_cid d \<and> cx_refCount c = cx_refCount d \<and> cx_privFlags c = cx_privFlags d
     \<and> cx_userVersion c = cx_userVersion d \<and> cx_queuePairArray c = cx_queuePairArray d"

definition quiet :: "'a qp_state_scheme \<Rightarrow> 'a qp_state_scheme \<Rightarrow> bool" where
  "quiet s s' \<longleftrightarrow> ctx_list s' = ctx_list s \<and> ctx_live s' = ctx_live s
     \<and> (\<forall>p. same_ctx (ctx_mem s' p) (ctx_mem s p))
     \<and> qp_list s' = qp_list s \<and> qp_mem s' = qp_mem s \<and> qp_live s' = qp_live s
     \<and> qp_pins s' = qp_pins s"

lemma same_ctx_refl [simp]: "same_ctx c c"
  by (simp add: same_ctx_def)

lemma quiet_refl [simp]: "quiet s s"
  by (simp add: quiet_def)

lemma quiet_trans: "quiet s t \<Longrightarrow> quiet t u \<Longrightarrow> quiet s u"
  by (auto simp: quiet_def same_ctx_def)

lemma upd_ctx_qp [simp]:
  "qp_list (upd_ctx p f s) = qp_list s" "qp_mem (upd_ctx p f s) = qp_mem s" "qp_live (upd_ctx p f s) = qp_live s"
  "qp_pins (upd_ctx p f s) = qp_pins s" "qp_out (upd_ctx p f s) = qp_out s"
  by (simp_all add: upd_ctx_def)

lemma quiet_upd_ctx: "(\<And>c. same_ctx (f c) c) \<Longrightarrow> quiet s (upd_ctx p f s)"
  by (simp add: quiet_def)

lemma enqueue_locked_same: "same_ctx (snd (enqueue_locked dg c)) c"
  by (cases "cx_notify c")
    (auto simp: same_ctx_def enqueue_locked_def Let_def VMCIHost_SignalCall_def VMCIContextSignalNotify_def)

lemma qp_event_simps [simp]:
  "dg_fits (qp_event a h m p)" "hcontext (dg_dst (qp_event a h m p)) = p" "hresource (dg_dst (qp_event a h m p)) = 0"
  "dg_src (qp_event a h m p) = VMCI_MAKE_HANDLE 0 0" "VMCI_DG_SIZE (qp_event a h m p) = 48"
  by (simp_all add: qp_event_def dg_fits_def VMCI_DG_SIZE_def)

lemma QueuePairNotifyPeer_quiet:
  assumes "dg_inv s"
  shows "quiet s (snd (QueuePairNotifyPeer E new dq a h m p s)) \<and> dg_inv (snd (QueuePairNotifyPeer E new dq a h m p s))"
proof -
  let ?dg = "qp_event a h m p"
  have cinv: "ctx_inv s" and einv: "event_inv (events s)" using assms by (simp_all add: dg_inv_def)
  have q: "quiet s (upd_ctx q (\<lambda>c. snd (enqueue_locked ?dg c)) s)" for q
    by (intro quiet_upd_ctx enqueue_locked_same)
  have i: "dg_inv (upd_ctx q (\<lambda>c. snd (enqueue_locked ?dg c)) s)" for q
    using cinv by (intro dg_inv_upd_ctx [OF assms] upd_ctx_fields_inv) (auto simp: enqueue_locked_fields enqueue_locked_inv)
  have host: "quiet s (snd (deliver_host E ?dg f s)) \<and> dg_inv (snd (deliver_host E ?dg f s))" for f
    using assms VMCIEvent_Dispatch_inv [OF einv] by (simp add: deliver_host_def split_beta quiet_def dg_inv_def ctx_inv_def)
  have ctx: "quiet s (snd (deliver_context E new dq 0 d ?dg f s)) \<and> dg_inv (snd (deliver_context E new dq 0 d ?dg f s))" for d f
    using assms q i cinv
    by (simp add: deliver_context_eq VMCIContext_EnqueueDatagram_eq split_beta split: option.split)
  show ?thesis
    using assms host ctx by (simp add: QueuePairNotifyPeer_def VMCIDatagram_Dispatch_eq split: option.split)
qed

lemma card_two_diff:
  "(a = b \<longrightarrow> a = i) \<Longrightarrow> card ({a, b} - {i}) = of_bool (a \<noteq> i) + of_bool (b \<noteq> i)"
  by (cases "a = i"; cases "b = i") (simp_all add: insert_Diff_if)

section \<open>The invariant\<close>

text \<open>
  An entry counts the sides it names, it allows an attach only while it has just its creator,
  and the memory it owns is its own.
\<close>

definition qe_ok :: "QueuePairEntry \<Rightarrow> bool" where
  [inv_defs]: "qe_ok e \<longleftrightarrow> qe_refCount e \<noteq> 0
     \<and> unat (qe_refCount e) = of_bool (qe_createId e \<noteq> VMCI_INVALID_ID) + of_bool (qe_attachId e \<noteq> VMCI_INVALID_ID)
     \<and> (qe_allowAttach e \<longrightarrow> qe_createId e \<noteq> VMCI_INVALID_ID \<and> qe_attachId e = VMCI_INVALID_ID)
     \<and> (qe_createId e = qe_attachId e \<longrightarrow> qe_createId e = VMCI_INVALID_ID)
     \<and> qe_flags e = 0 \<and> (qi_size (qe_produceInfo e) \<noteq> 0 \<or> qi_size (qe_consumeInfo e) \<noteq> 0)"

definition qe_objs :: "'a qp_state_scheme \<Rightarrow> ptr \<Rightarrow> ptr list" where
  "qe_objs s p = [p, qe_produceQ (qp_mem s p), qe_consumeQ (qp_mem s p), qe_attachInfo (qp_mem s p)]"

definition qp_inv :: "'a qp_state_scheme \<Rightarrow> bool" where
  [inv_defs]: "qp_inv s \<longleftrightarrow> distinct (map (\<lambda>p. qe_handle (qp_mem s p)) (qp_list s))
     \<and> distinct (concat (map (qe_objs s) (qp_list s)))
     \<and> set (concat (map (qe_objs s) (qp_list s))) \<subseteq> qp_live s
     \<and> (\<forall>p \<in> set (qp_list s). qe_ok (qp_mem s p))"

text \<open>The sides of a pair, and what the arrays of the contexts say about them.\<close>

definition member_of :: "'a qp_state_scheme \<Rightarrow> ptr \<Rightarrow> VMCIHandle \<Rightarrow> bool" where
  "member_of s cp h \<longleftrightarrow> h \<in> set (live (cx_queuePairArray (ctx_mem s cp)))"

definition attached :: "'a qp_state_scheme \<Rightarrow> VMCIId \<Rightarrow> VMCIHandle \<Rightarrow> bool" where
  "attached s cid h \<longleftrightarrow> cid \<noteq> VMCI_INVALID_ID \<and> (\<exists>p. QueuePairList_FindEntry h s = Some p
     \<and> (qe_createId (qp_mem s p) = cid \<or> qe_attachId (qp_mem s p) = cid))"

definition arrays_ok :: "'a qp_state_scheme \<Rightarrow> bool" where
  [inv_defs]: "arrays_ok s \<longleftrightarrow> (\<forall>cp \<in> ctx_live s. distinct (live (cx_queuePairArray (ctx_mem s cp)))
     \<and> (\<forall>h. member_of s cp h \<longrightarrow> attached s (cx_cid (ctx_mem s cp)) h))
   \<and> (\<forall>cp \<in> ctx_live s. \<forall>cq \<in> ctx_live s. \<forall>h. cp \<noteq> cq \<longrightarrow> cx_cid (ctx_mem s cp) = cx_cid (ctx_mem s cq)
        \<longrightarrow> member_of s cp h \<longrightarrow> \<not> member_of s cq h)"

lemma quiet_facts:
  assumes "quiet s s'"
  shows "qp_inv s' = qp_inv s" "arrays_ok s' = arrays_ok s" "QueuePairList_FindEntry h s' = QueuePairList_FindEntry h s"
    "member_of s' cp h = member_of s cp h" "attached s' cid h = attached s cid h"
    "qp_mem s' = qp_mem s" "qp_list s' = qp_list s" "qp_live s' = qp_live s" "ctx_live s' = ctx_live s"
    "qp_pins s' = qp_pins s" "ctx_list s' = ctx_list s"
    "cx_queuePairArray (ctx_mem s' cp) = cx_queuePairArray (ctx_mem s cp)" "cx_cid (ctx_mem s' cp) = cx_cid (ctx_mem s cp)"
proof -
  show f: "QueuePairList_FindEntry h s' = QueuePairList_FindEntry h s" for h
    using assms by (simp add: QueuePairList_FindEntry_def quiet_def)
  have o: "qe_objs s' = qe_objs s" using assms by (simp add: qe_objs_def quiet_def fun_eq_iff)
  show "qp_inv s' = qp_inv s" using assms o by (simp add: qp_inv_def quiet_def)
  show m: "member_of s' cp h = member_of s cp h" for cp h
    using assms by (simp add: member_of_def quiet_def same_ctx_def)
  show a: "attached s' cid h = attached s cid h" for cid h
    using assms by (simp add: attached_def f quiet_def)
  show "arrays_ok s' = arrays_ok s"
    using assms unfolding arrays_ok_def m a by (simp add: quiet_def same_ctx_def)
qed (use assms in \<open>simp_all add: quiet_def same_ctx_def\<close>)

lemma upd_qp_simps [simp]:
  "qp_list (upd_qp p f s) = qp_list s" "qp_live (upd_qp p f s) = qp_live s" "qp_pins (upd_qp p f s) = qp_pins s"
  "qp_mem (upd_qp p f s) = (qp_mem s)(p := f (qp_mem s p))"
  "ctx_list (upd_qp p f s) = ctx_list s" "ctx_live (upd_qp p f s) = ctx_live s" "ctx_mem (upd_qp p f s) = ctx_mem s"
  by (simp_all add: upd_qp_def)

lemma dg_inv_qp [simp]:
  "dg_inv (upd_qp p f s) = dg_inv s" "dg_inv (s\<lparr>qp_list := l\<rparr>) = dg_inv s" "dg_inv (s\<lparr>qp_live := v\<rparr>) = dg_inv s"
  "dg_inv (s\<lparr>qp_out := out\<rparr>) = dg_inv s" "dg_inv (s\<lparr>qp_pins := n\<rparr>) = dg_inv s"
  by (simp_all add: upd_qp_def dg_inv_def ctx_inv_def)

lemma dg_inv_queuepair [simp]:
  "dg_inv s \<Longrightarrow> dg_inv (add_queuepair avail cp h s)" "dg_inv s \<Longrightarrow> dg_inv (remove_queuepair cp h s)"
  unfolding add_queuepair_def remove_queuepair_def
  by (intro dg_inv_upd_ctx upd_ctx_fields_inv; simp add: cx_inv_arrays harr_ops_inv cx_inv_D dg_inv_def)+

section \<open>What each operation does to the list\<close>

lemma host_qp_supported_eq:
  assumes "dg_inv s" "host_qp_supported E cp contextId e s = Some (b, s')"
  shows "s' = s"
proof -
  have "ctx_inv s" using assms(1) by (simp add: dg_inv_def)
  with assms(2) show ?thesis
    by (auto simp: host_qp_supported_def VMCIContext_Get_eq release_after_get_id ctx_lookup_live
        split: if_splits option.splits)
qed

lemma copy_page_files_quiet: "quiet s (snd (copy_page_files al ps e s)) \<and> (dg_inv s \<longrightarrow> dg_inv (snd (copy_page_files al ps e s)))"
  by (auto simp: copy_page_files_def quiet_def Let_def split: option.split)

definition join :: "VMCIId \<Rightarrow> QueuePairEntry \<Rightarrow> QueuePairEntry" where
  "join contextId e = e\<lparr>qe_attachId := contextId, qe_refCount := qe_refCount e + 1, qe_allowAttach := False\<rparr>"

lemma attach_error_neg: "attach_error privFlags c contextId e = Some err \<Longrightarrow> err < 0"
  by (auto simp: attach_error_def split: if_splits)

lemma attach_entry_cases:
  assumes inv: "dg_inv s"
    and eq: "attach_entry E al h flags privFlags psz csz ps cp contextId p s = Some (r, s')"
  obtains (refused) "r < 0" "quiet s s'" "dg_inv s'"
  | (attached) t where "attach_error privFlags (ctx_mem s cp) contextId (qp_mem s p) = None"
      "qi_size (qe_produceInfo (qp_mem s p)) = csz" "qi_size (qe_consumeInfo (qp_mem s p)) = psz"
      "qe_flags (qp_mem s p) = flags AND NOT VMCI_QPFLAG_ATTACH_ONLY"
      "host_qp_supported E cp contextId (qp_mem s p) s = Some (True, s)"
      "quiet s t" "dg_inv t" "s' = upd_qp p (join contextId) t"
      "r = (if qe_createId (qp_mem s p) = VMCI_HOST_CONTEXT_ID then VMCI_SUCCESS_QUEUEPAIR_CREATE
            else VMCI_SUCCESS_QUEUEPAIR_ATTACH)"
proof (cases "attach_error privFlags (ctx_mem s cp) contextId (qp_mem s p)")
  case (Some err)
  with eq inv attach_error_neg [OF Some] refused show ?thesis by (auto simp: attach_entry_def)
next
  case None
  note ok = this
  let ?e = "qp_mem s p"
  obtain b where b: "host_qp_supported E cp contextId ?e s = Some (b, s)"
    using eq None inv by (auto simp: attach_entry_def Let_def split: option.splits dest: host_qp_supported_eq)
  obtain x s2 where x: "copy_page_files al ps ?e s = (x, s2)" by fastforce
  have s2: "quiet s s2" "dg_inv s2" using copy_page_files_quiet [of s al ps ?e] x inv by auto
  have xneg: "err < 0" if "x = Some err" for err
    using x that by (auto simp: copy_page_files_def Let_def split: option.splits if_splits)
  obtain r3 s3 where n: "(if qe_createId ?e \<noteq> VMCI_HOST_CONTEXT_ID
      then QueuePairNotifyPeer E (qa_new al) (qa_dq al) True h contextId (qe_createId ?e) s2
      else (VMCI_SUCCESS, s2)) = (r3, s3)" by fastforce
  have s3: "quiet s2 s3 \<and> dg_inv s3"
    using n s2 QueuePairNotifyPeer_quiet [OF s2(2), of E "qa_new al" "qa_dq al" True h contextId "qe_createId ?e"]
    by (auto split: if_splits)
  then have s3: "quiet s s3" "dg_inv s3" using s2 quiet_trans by blast+
  have "(if \<not> b then (VMCI_ERROR_INVALID_RESOURCE, s)
      else if qi_size (qe_produceInfo ?e) \<noteq> csz \<or> qi_size (qe_consumeInfo ?e) \<noteq> psz
        \<or> qe_flags ?e \<noteq> flags AND NOT VMCI_QPFLAG_ATTACH_ONLY then (VMCI_ERROR_QUEUEPAIR_MISMATCH, s)
      else case x of Some err \<Rightarrow> (err, s2)
      | None \<Rightarrow> if r3 < VMCI_SUCCESS then (r3, s3)
          else (if qe_createId ?e = VMCI_HOST_CONTEXT_ID then VMCI_SUCCESS_QUEUEPAIR_CREATE
                else VMCI_SUCCESS_QUEUEPAIR_ATTACH, upd_qp p (join contextId) s3)) = (r, s')"
    using eq unfolding attach_entry_def Let_def None b x n option.case prod.case QueuePairDenyConnection_def join_def
    by (auto split: if_splits option.splits)
  then show ?thesis
    using inv s2 s3 xneg b
    by (auto split: if_splits option.splits intro: refused attached [OF None _ _ _ _ s3])
qed

definition new_entry :: "VMCIHandle \<Rightarrow> VMCIId \<Rightarrow> VMCIPrivilegeFlags \<Rightarrow> u64 \<Rightarrow> u64 \<Rightarrow> VMCIContext \<Rightarrow> ptr \<Rightarrow> ptr \<Rightarrow> ptr
    \<Rightarrow> QueuePairEntry" where
  "new_entry handle peer privFlags produceSize consumeSize context pq cq ai =
     \<lparr>qe_handle = handle, qe_peer = peer, qe_flags = 0,
      qe_produceInfo = \<lparr>qi_size = produceSize, qi_pageFile = replicate 256 0\<rparr>,
      qe_consumeInfo = \<lparr>qi_size = consumeSize, qi_pageFile = replicate 256 0\<rparr>,
      qe_createId = cx_cid context, qe_attachId = VMCI_INVALID_ID, qe_refCount = 1,
      qe_pageStoreSet = False, qe_allowAttach = True,
      qe_requireTrustedAttach = restricted (cx_privFlags context), qe_createdByTrusted = trusted privFlags,
      qe_produceQ = pq, qe_consumeQ = cq, qe_attachInfo = ai, qe_attach = new_attach produceSize consumeSize\<rparr>"

definition insert_entry :: "ptr \<Rightarrow> QueuePairEntry \<Rightarrow> 'a qp_state_scheme \<Rightarrow> 'a qp_state_scheme" where
  "insert_entry p e s = QueuePairList_AddEntry p (upd_qp p (\<lambda>_. e)
     (s\<lparr>qp_live := qp_live s \<union> {p, qe_produceQ e, qe_consumeQ e, qe_attachInfo e}\<rparr>))"

lemma flags_zero:
  assumes "flags AND NOT VMCI_QP_ALL_FLAGS = 0" "flags AND VMCI_QPFLAG_LOCAL = 0" "flags AND VMCI_QPFLAG_ATTACH_ONLY = 0"
  shows "flags = 0"
proof -
  have "NOT VMCI_QP_ALL_FLAGS OR (VMCI_QPFLAG_LOCAL OR VMCI_QPFLAG_ATTACH_ONLY) = - 1" by simp
  then have "flags = flags AND (NOT VMCI_QP_ALL_FLAGS OR (VMCI_QPFLAG_LOCAL OR VMCI_QPFLAG_ATTACH_ONLY))" by simp
  also have "\<dots> = 0" using assms by (simp only: bit.conj_disj_distrib) simp
  finally show ?thesis .
qed

lemma create_entry_cases:
  assumes "create_entry al h peer flags privFlags psz csz c (cx_cid c) s = (r, x, s')"
    and "flags AND NOT VMCI_QP_ALL_FLAGS = 0" "flags AND VMCI_QPFLAG_LOCAL = 0"
  shows "r < 0 \<and> x = None \<and> s' = s
    \<or> (\<exists>p pq cq ai. qa_entry al = Some p \<and> qa_produceQ al = Some pq \<and> qa_consumeQ al = Some cq
        \<and> qa_attachInfo al = Some ai \<and> flags = 0 \<and> (hcontext h = cx_cid c \<or> hcontext h = peer)
        \<and> r = VMCI_SUCCESS_QUEUEPAIR_CREATE \<and> x = Some p
        \<and> s' = insert_entry p (new_entry h peer privFlags psz csz c pq cq ai) s)"
proof (cases "flags AND VMCI_QPFLAG_ATTACH_ONLY = 0")
  case True
  then have "flags = 0" by (intro flags_zero [OF assms(2,3)])
  with assms(1) show ?thesis
    by (auto simp: create_entry_def QueuePairDenyConnection_def Let_def insert_entry_def
        new_entry_def restricted_def trusted_def split: if_splits option.splits)
qed (use assms(1) in \<open>simp add: create_entry_def\<close>)

lemma alloc_cases [consumes 3, case_names refused created attached]:
  assumes inv: "dg_inv s" and cp: "cp \<in> ctx_live s"
    and eq: "QueuePairAllocHost E al h peer flags privFlags psz csz ps (Some cp) s = Some (r, x, s')"
  obtains "r < 0" "x = None" "quiet s s'" "dg_inv s'"
  | p pq cq ai where "QueuePairList_FindEntry h s = None" "qa_entry al = Some p" "qa_produceQ al = Some pq"
      "qa_consumeQ al = Some cq" "qa_attachInfo al = Some ai" "flags = 0" "psz \<noteq> 0 \<or> csz \<noteq> 0"
      "hcontext h = cx_cid (ctx_mem s cp) \<or> hcontext h = peer" "cx_cid (ctx_mem s cp) \<noteq> VMCI_INVALID_ID"
      "\<not> member_of s cp h" "r = VMCI_SUCCESS_QUEUEPAIR_CREATE" "x = Some p"
      "s' = add_queuepair (qa_array al) cp h
              (insert_entry p (new_entry h peer privFlags psz csz (ctx_mem s cp) pq cq ai) s)"
  | p t where "QueuePairList_FindEntry h s = Some p" "cx_cid (ctx_mem s cp) \<noteq> VMCI_INVALID_ID" "\<not> member_of s cp h"
      "attach_error privFlags (ctx_mem s cp) (cx_cid (ctx_mem s cp)) (qp_mem s p) = None"
      "qi_size (qe_produceInfo (qp_mem s p)) = csz" "qi_size (qe_consumeInfo (qp_mem s p)) = psz"
      "host_qp_supported E cp (cx_cid (ctx_mem s cp)) (qp_mem s p) s = Some (True, s)"
      "quiet s t" "dg_inv t" "s' = add_queuepair (qa_array al) cp h (upd_qp p (join (cx_cid (ctx_mem s cp))) t)"
      "r = (if qe_createId (qp_mem s p) = VMCI_HOST_CONTEXT_ID then VMCI_SUCCESS_QUEUEPAIR_CREATE
            else VMCI_SUCCESS_QUEUEPAIR_ATTACH)" "x = Some p"
proof -
  let ?c = "ctx_mem s cp"
  let ?cid = "cx_cid ?c"
  have harr: "harr_inv (cx_queuePairArray ?c)" using inv cp by (simp add: dg_inv_def ctx_inv_def cx_inv_def)
  show thesis
  proof (cases "h = VMCI_INVALID_HANDLE \<or> flags AND NOT VMCI_QP_ALL_FLAGS \<noteq> 0 \<or> flags AND VMCI_QPFLAG_LOCAL \<noteq> 0
      \<or> psz = 0 \<and> csz = 0 \<or> ?cid = VMCI_INVALID_ID \<or> hcontext h = VMCI_INVALID_ID \<or> page_store_incomplete ps
      \<or> member_of s cp h")
    case True
    with eq harr inv show thesis
      by (intro that(1)) (auto simp: QueuePairAllocHost_def Let_def VMCIContext_GetId_def member_of_def split: if_splits)
  next
    case False
    show thesis
    proof (cases "QueuePairList_FindEntry h s")
      case None
      obtain r1 x1 s1 where a: "create_entry al h peer flags privFlags psz csz ?c ?cid s = (r1, x1, s1)"
        by (cases "create_entry al h peer flags privFlags psz csz ?c ?cid s") auto
      have r: "(r, x, s') = (if 0 \<le> r1 then (r1, x1, add_queuepair (qa_array al) cp h s1) else (r1, None, s1))"
        using eq harr False None a
        by (auto simp: QueuePairAllocHost_def Let_def VMCIContext_GetId_def member_of_def split: if_splits)
      have "flags AND NOT VMCI_QP_ALL_FLAGS = 0" "flags AND VMCI_QPFLAG_LOCAL = 0" using False by blast+
      from create_entry_cases [OF a this] show thesis
      proof (elim disjE exE, goal_cases)
        case 1
        with r inv show thesis by (intro that(1)) auto
      next
        case (2 p pq cq ai)
        with r False None show thesis by (intro that(2) [of p pq cq ai]) auto
      qed
    next
      case (Some p)
      obtain r1 s1 where a: "attach_entry E al h flags privFlags psz csz ps cp ?cid p s = Some (r1, s1)"
        and r: "(r, x, s') = (if 0 \<le> r1 then (r1, Some p, add_queuepair (qa_array al) cp h s1) else (r1, None, s1))"
        using eq harr False Some
        by (auto simp: QueuePairAllocHost_def Let_def VMCIContext_GetId_def member_of_def
            split: if_splits option.splits)
      from inv a show thesis
      proof (cases rule: attach_entry_cases)
        case refused
        with r show thesis by (auto intro: that(1))
      next
        case (attached t)
        have "0 \<le> r1" by (simp add: attached(9))
        then have "r = r1" "x = Some p" "s' = add_queuepair (qa_array al) cp h s1" using r by simp_all
        with attached False Some show thesis by (intro that(3) [where p = p and t = t]) auto
      qed
    qed
  qed
qed

section \<open>How the changes act on the list\<close>

lemma FindEntry_D: "QueuePairList_FindEntry h s = Some p \<Longrightarrow> p \<in> set (qp_list s) \<and> qe_handle (qp_mem s p) = h"
  by (auto simp: QueuePairList_FindEntry_def dest: find_Some_D)

lemma FindEntry_listed:
  "qp_inv s \<Longrightarrow> p \<in> set (qp_list s) \<Longrightarrow> QueuePairList_FindEntry (qe_handle (qp_mem s p)) s = Some p"
  unfolding QueuePairList_FindEntry_def
  by (rule find_unique) (auto simp: qp_inv_def distinct_map dest: inj_onD)

lemma FindEntry_upd_qp:
  assumes "\<And>e. qe_handle (f e) = qe_handle e"
  shows "QueuePairList_FindEntry h (upd_qp p f s) = QueuePairList_FindEntry h s"
proof -
  have "(\<lambda>q. qe_handle (qp_mem (upd_qp p f s) q) = h) = (\<lambda>q. qe_handle (qp_mem s q) = h)" using assms by auto
  then show ?thesis by (simp add: QueuePairList_FindEntry_def)
qed

lemma FindEntry_cong:
  "qp_list s' = qp_list s \<Longrightarrow> qp_mem s' = qp_mem s \<Longrightarrow> QueuePairList_FindEntry h s' = QueuePairList_FindEntry h s"
  by (simp add: QueuePairList_FindEntry_def)

lemma upd_qp_inv:
  assumes inv: "qp_inv s" and f: "\<And>e. qe_handle (f e) = qe_handle e" "\<And>e. qe_produceQ (f e) = qe_produceQ e"
    "\<And>e. qe_consumeQ (f e) = qe_consumeQ e" "\<And>e. qe_attachInfo (f e) = qe_attachInfo e"
    and ok: "p \<in> set (qp_list s) \<Longrightarrow> qe_ok (qp_mem s p) \<Longrightarrow> qe_ok (f (qp_mem s p))"
  shows "qp_inv (upd_qp p f s)"
proof -
  have "qe_objs (upd_qp p f s) = qe_objs s" by (auto simp: qe_objs_def f fun_eq_iff)
  moreover have "(\<lambda>q. qe_handle (qp_mem (upd_qp p f s) q)) = (\<lambda>q. qe_handle (qp_mem s q))" using f(1) by auto
  ultimately show ?thesis using inv ok unfolding qp_inv_def by simp
qed

lemma insert_entry_simps [simp]:
  "qp_list (insert_entry p e s) = qp_list s @ [p]" "qp_mem (insert_entry p e s) = (qp_mem s)(p := e)"
  "qp_live (insert_entry p e s) = qp_live s \<union> {p, qe_produceQ e, qe_consumeQ e, qe_attachInfo e}"
  "qp_pins (insert_entry p e s) = qp_pins s"
  "ctx_list (insert_entry p e s) = ctx_list s" "ctx_live (insert_entry p e s) = ctx_live s"
  "ctx_mem (insert_entry p e s) = ctx_mem s"
  by (simp_all add: insert_entry_def QueuePairList_AddEntry_def)

lemma insert_entry_inv:
  assumes inv: "qp_inv s" and h: "QueuePairList_FindEntry (qe_handle e) s = None" and ok: "qe_ok e"
    and fresh: "distinct [p, qe_produceQ e, qe_consumeQ e, qe_attachInfo e]"
      "set [p, qe_produceQ e, qe_consumeQ e, qe_attachInfo e] \<inter> qp_live s = {}"
  shows "qp_inv (insert_entry p e s)"
proof -
  let ?s = "insert_entry p e s"
  have p: "p \<notin> set (qp_list s)"
    using inv fresh(2) by (auto simp: qp_inv_def qe_objs_def Let_def)
  have "map (qe_objs ?s) (qp_list s) = map (qe_objs s) (qp_list s)"
    and m: "map (\<lambda>q. qe_handle (qp_mem ?s q)) (qp_list s) = map (\<lambda>q. qe_handle (qp_mem s q)) (qp_list s)"
    using p by (auto simp: qe_objs_def)
  then have objs: "concat (map (qe_objs ?s) (qp_list ?s))
      = concat (map (qe_objs s) (qp_list s)) @ [p, qe_produceQ e, qe_consumeQ e, qe_attachInfo e]"
    by (simp add: qe_objs_def del: map_eq_conv)
  have "qe_handle e \<notin> set (map (\<lambda>q. qe_handle (qp_mem s q)) (qp_list s))"
    using h by (auto simp: QueuePairList_FindEntry_def find_None_iff)
  with m have hs: "distinct (map (\<lambda>q. qe_handle (qp_mem ?s q)) (qp_list ?s))" using inv by (simp add: qp_inv_def del: map_eq_conv)
  show ?thesis
    unfolding qp_inv_def objs using inv fresh ok hs p by (auto simp: qp_inv_def)
qed

lemma FindEntry_insert:
  assumes "QueuePairList_FindEntry (qe_handle e) s = None" "p \<notin> set (qp_list s)"
  shows "QueuePairList_FindEntry k (insert_entry p e s)
    = (if k = qe_handle e then Some p else QueuePairList_FindEntry k s)"
proof -
  have "find (\<lambda>q. qe_handle (((qp_mem s)(p := e)) q) = k) (xs @ [p])
      = (case find (\<lambda>q. qe_handle (qp_mem s q) = k) xs of None \<Rightarrow> if k = qe_handle e then Some p else None | Some q \<Rightarrow> Some q)"
    if "p \<notin> set xs" for xs
    using that by (induction xs) auto
  from this [OF assms(2)] assms(1) show ?thesis by (auto simp: QueuePairList_FindEntry_def split: option.split)
qed

lemma removed_entry_inv:
  assumes inv: "qp_inv s" and p: "p \<in> set (qp_list s)" and e: "qp_mem t = (qp_mem s)(p := e)"
    and l: "qp_list t = remove1 p (qp_list s)" "qp_live t = qp_live s - set (qe_objs s p)"
  shows "qp_inv t \<and> (\<forall>k. QueuePairList_FindEntry k t = (if k = qe_handle (qp_mem s p) then None else QueuePairList_FindEntry k s))"
proof -
  obtain xs ys where xs: "qp_list s = xs @ p # ys" "p \<notin> set xs" using p by (metis split_list_first)
  have ys: "p \<notin> set ys" using inv xs by (auto simp: qp_inv_def)
  have t: "qp_list t = xs @ ys" using l xs by (simp add: remove1_append)
  have same: "qe_objs t q = qe_objs s q" "qp_mem t q = qp_mem s q" if "q \<in> set (xs @ ys)" for q
    using that e xs(2) ys by (auto simp: qe_objs_def)
  then have m: "map (qe_objs t) (qp_list t) = map (qe_objs s) (xs @ ys)"
    "map (\<lambda>q. qe_handle (qp_mem t q)) (qp_list t) = map (\<lambda>q. qe_handle (qp_mem s q)) (xs @ ys)"
    unfolding t by (auto intro!: map_cong)
  have "qp_inv t"
    unfolding qp_inv_def m using inv xs l(2) t same by (auto simp: qp_inv_def)
  moreover have "QueuePairList_FindEntry k t = (if k = qe_handle (qp_mem s p) then None else QueuePairList_FindEntry k s)" for k
  proof (cases "QueuePairList_FindEntry k t")
    case None
    then have "\<forall>q \<in> set (xs @ ys). qe_handle (qp_mem s q) \<noteq> k"
      using t same by (auto simp: QueuePairList_FindEntry_def find_None_iff)
    then have "k \<noteq> qe_handle (qp_mem s p) \<Longrightarrow> QueuePairList_FindEntry k s = None"
      using xs by (auto simp: QueuePairList_FindEntry_def find_None_iff)
    then show ?thesis using None by simp
  next
    case (Some q)
    then have q: "q \<in> set (xs @ ys)" "qe_handle (qp_mem s q) = k" using FindEntry_D [OF Some] t same by auto
    then have "q \<in> set (qp_list s)" "q \<noteq> p" using xs ys by auto
    moreover from this have "qe_handle (qp_mem s p) \<noteq> k"
      using inv p q(2) by (auto simp: qp_inv_def distinct_map dest: inj_onD)
    ultimately show ?thesis using Some FindEntry_listed [OF inv \<open>q \<in> set (qp_list s)\<close>] q by auto
  qed
  ultimately show ?thesis by blast
qed

lemma attached_insert:
  assumes "QueuePairList_FindEntry (qe_handle e) s = None" "p \<notin> set (qp_list s)"
  shows "attached (insert_entry p e s) cid k = (if k = qe_handle e
      then cid \<noteq> VMCI_INVALID_ID \<and> (qe_createId e = cid \<or> qe_attachId e = cid) else attached s cid k)"
proof -
  have "q \<noteq> p" if "QueuePairList_FindEntry k s = Some q" for q using FindEntry_D [OF that] assms(2) by auto
  then show ?thesis by (auto simp: attached_def FindEntry_insert [OF assms])
qed

lemma attached_upd_qp:
  assumes "QueuePairList_FindEntry h s = Some p" "\<And>e. qe_handle (f e) = qe_handle e"
  shows "attached (upd_qp p f s) cid k = (if k = h then cid \<noteq> VMCI_INVALID_ID
      \<and> (qe_createId (f (qp_mem s p)) = cid \<or> qe_attachId (f (qp_mem s p)) = cid) else attached s cid k)"
proof -
  have "q \<noteq> p" if "QueuePairList_FindEntry k s = Some q" "k \<noteq> h" for q
    using FindEntry_D [OF that(1)] FindEntry_D [OF assms(1)] that(2) by auto
  then show ?thesis by (auto simp: attached_def FindEntry_upd_qp assms)
qed

text \<open>An array operation of one context; \<open>t\<close> and \<open>s\<close> have the same contexts.\<close>

lemma add_queuepair_simps [simp]:
  "qp_list (add_queuepair a cp h s) = qp_list s" "qp_mem (add_queuepair a cp h s) = qp_mem s"
  "qp_live (add_queuepair a cp h s) = qp_live s" "qp_pins (add_queuepair a cp h s) = qp_pins s"
  "ctx_live (add_queuepair a cp h s) = ctx_live s" "ctx_list (add_queuepair a cp h s) = ctx_list s"
  "cx_cid (ctx_mem (add_queuepair a cp h s) q) = cx_cid (ctx_mem s q)"
  "attached (add_queuepair a cp h s) = attached s" "qp_inv (add_queuepair a cp h s) = qp_inv s"
  "QueuePairList_FindEntry k (add_queuepair a cp h s) = QueuePairList_FindEntry k s"
  by (simp_all add: add_queuepair_def attached_def fun_eq_iff QueuePairList_FindEntry_def qp_inv_def qe_objs_def
      cong: map_cong)

lemma remove_queuepair_simps [simp]:
  "qp_list (remove_queuepair cp h s) = qp_list s" "qp_mem (remove_queuepair cp h s) = qp_mem s"
  "qp_live (remove_queuepair cp h s) = qp_live s" "qp_pins (remove_queuepair cp h s) = qp_pins s"
  "ctx_live (remove_queuepair cp h s) = ctx_live s" "ctx_list (remove_queuepair cp h s) = ctx_list s"
  "cx_cid (ctx_mem (remove_queuepair cp h s) q) = cx_cid (ctx_mem s q)"
  "attached (remove_queuepair cp h s) = attached s" "qp_inv (remove_queuepair cp h s) = qp_inv s"
  "QueuePairList_FindEntry k (remove_queuepair cp h s) = QueuePairList_FindEntry k s"
  by (simp_all add: remove_queuepair_def attached_def fun_eq_iff QueuePairList_FindEntry_def qp_inv_def qe_objs_def
      cong: map_cong)

definition same_arrays :: "'a qp_state_scheme \<Rightarrow> 'a qp_state_scheme \<Rightarrow> bool" where
  "same_arrays s t \<longleftrightarrow> ctx_live t = ctx_live s \<and> (\<forall>q. cx_queuePairArray (ctx_mem t q) = cx_queuePairArray (ctx_mem s q)
     \<and> cx_cid (ctx_mem t q) = cx_cid (ctx_mem s q))"

lemma arrays_add:
  assumes ok: "arrays_ok s" and same: "same_arrays s t" and dg: "dg_inv t" and cp: "cp \<in> ctx_live s"
    and new: "\<not> member_of s cp h" "\<not> attached s (cx_cid (ctx_mem s cp)) h"
    and att: "\<And>c k. attached t c k \<longleftrightarrow> attached s c k \<or> c = cx_cid (ctx_mem s cp) \<and> k = h"
  shows "arrays_ok (add_queuepair avail cp h t)"
proof -
  let ?t = "add_queuepair avail cp h t"
  have harr: "harr_inv (cx_queuePairArray (ctx_mem t cp))"
    using dg cp same by (simp add: dg_inv_def ctx_inv_def cx_inv_def same_arrays_def)
  have arr: "live (cx_queuePairArray (ctx_mem ?t q)) = (if q = cp \<and> append_stores avail (cx_queuePairArray (ctx_mem s cp))
      then live (cx_queuePairArray (ctx_mem s cp)) @ [h] else live (cx_queuePairArray (ctx_mem s q)))" for q
    using VMCIHandleArray_AppendEntry_correct [OF harr, of avail h] same
    by (simp add: add_queuepair_def same_arrays_def)
  then have mem: "member_of ?t q k \<longleftrightarrow> member_of s q k
      \<or> q = cp \<and> k = h \<and> append_stores avail (cx_queuePairArray (ctx_mem s cp))" for q k
    by (auto simp: member_of_def)
  have cid: "cx_cid (ctx_mem ?t q) = cx_cid (ctx_mem s q)" "ctx_live ?t = ctx_live s" for q
    using same by (simp_all add: same_arrays_def)
  have nm: "\<not> member_of s q h" if "q \<in> ctx_live s" "cx_cid (ctx_mem s q) = cx_cid (ctx_mem s cp)" for q
    using that ok new(2) unfolding arrays_ok_def by metis
  have "distinct (live (cx_queuePairArray (ctx_mem ?t q)))" if "q \<in> ctx_live s" for q
    using that ok cp new(1) by (simp add: arr arrays_ok_def member_of_def)
  moreover have "attached ?t (cx_cid (ctx_mem s q)) k"
    if "q \<in> ctx_live s" "member_of s q k \<or> q = cp \<and> k = h" for q k
    using that ok unfolding add_queuepair_simps att by (auto simp: arrays_ok_def)
  moreover have "\<not> member_of s q k" if "p \<in> ctx_live s" "q \<in> ctx_live s" "p \<noteq> q"
    "cx_cid (ctx_mem s p) = cx_cid (ctx_mem s q)" "member_of s p k \<or> p = cp \<and> k = h" for p q k
    using that ok nm unfolding arrays_ok_def by metis
  moreover have "q \<noteq> cp \<or> k \<noteq> h" if "p \<in> ctx_live s" "p \<noteq> q" "cx_cid (ctx_mem s p) = cx_cid (ctx_mem s q)"
    "member_of s p k \<or> p = cp \<and> k = h" for p q k
    using that nm by metis
  ultimately show ?thesis unfolding arrays_ok_def mem cid by blast
qed

lemma arrays_remove:
  assumes ok: "arrays_ok s" and same: "same_arrays s t" and dg: "dg_inv t" and cp: "cp \<in> ctx_live s"
    and old: "member_of s cp h"
    and att: "\<And>c k. attached t c k \<longleftrightarrow> attached s c k \<and> \<not> (c = cx_cid (ctx_mem s cp) \<and> k = h)"
  shows "arrays_ok (remove_queuepair cp h t)"
proof -
  let ?t = "remove_queuepair cp h t"
  have harr: "harr_inv (cx_queuePairArray (ctx_mem t cp))"
    using dg cp same by (simp add: dg_inv_def ctx_inv_def cx_inv_def same_arrays_def)
  let ?new = "snd (VMCIHandleArray_RemoveEntry (cx_queuePairArray (ctx_mem s cp)) h)"
  have eq: "mset (live ?new) = mset (live (cx_queuePairArray (ctx_mem s cp))) - {#h#}"
    using harr.del_law [OF harr surjective_pairing, of h] same by (simp add: same_arrays_def)
  have dist: "distinct (live (cx_queuePairArray (ctx_mem s cp)))" using ok cp by (simp add: arrays_ok_def)
  then have new: "distinct (live ?new)" "set (live ?new) = set (live (cx_queuePairArray (ctx_mem s cp))) - {h}"
    using eq by (metis distinct_remove1 mset_eq_imp_distinct_iff mset_remove1,
        metis mset_eq_setD mset_remove1 set_remove1_eq)
  have arr: "live (cx_queuePairArray (ctx_mem ?t q)) = (if q = cp then live ?new
      else live (cx_queuePairArray (ctx_mem s q)))" for q
    using same by (simp add: remove_queuepair_def same_arrays_def)
  then have mem: "member_of ?t q k \<longleftrightarrow> member_of s q k \<and> \<not> (q = cp \<and> k = h)" for q k
    using new(2) by (auto simp: member_of_def)
  have cid: "cx_cid (ctx_mem ?t q) = cx_cid (ctx_mem s q)" "ctx_live ?t = ctx_live s" for q
    using same by (simp_all add: same_arrays_def)
  have nm: "q = cp" if "q \<in> ctx_live s" "cx_cid (ctx_mem s q) = cx_cid (ctx_mem s cp)" "member_of s q h" for q
    using that ok old cp unfolding arrays_ok_def by metis
  have "distinct (live (cx_queuePairArray (ctx_mem ?t q)))" if "q \<in> ctx_live s" for q
    using that new(1) arr ok by (simp add: arrays_ok_def)
  moreover have "attached t (cx_cid (ctx_mem s q)) k"
    if "q \<in> ctx_live s" "member_of s q k" "\<not> (q = cp \<and> k = h)" for q k
    using that ok nm unfolding att by (auto simp: arrays_ok_def)
  ultimately show ?thesis
    unfolding arrays_ok_def mem cid using ok by (auto simp: arrays_ok_def)
qed

section \<open>Detaching and naming the files\<close>

lemma leave_fields [simp]:
  "qe_handle (leave cid e) = qe_handle e" "qe_produceQ (leave cid e) = qe_produceQ e"
  "qe_consumeQ (leave cid e) = qe_consumeQ e" "qe_attachInfo (leave cid e) = qe_attachInfo e"
  "qe_refCount (leave cid e) = qe_refCount e - 1" "qe_pageStoreSet (leave cid e) = qe_pageStoreSet e"
  "qe_attach (leave cid e) = qe_attach e"
  by (simp_all add: leave_def)

lemma qe_ok_cases [consumes 1, case_names one two]:
  assumes "qe_ok e"
  obtains "qe_refCount e = 1" "(qe_createId e \<noteq> VMCI_INVALID_ID) \<noteq> (qe_attachId e \<noteq> VMCI_INVALID_ID)"
  | "qe_refCount e = 2" "qe_createId e \<noteq> VMCI_INVALID_ID" "qe_attachId e \<noteq> VMCI_INVALID_ID"
proof -
  have n: "x = of_nat n" if "unat x = n" for x :: u32 and n using that by auto
  show thesis
    using assms that n [of "qe_refCount e"]
    by (cases "qe_createId e = VMCI_INVALID_ID"; cases "qe_attachId e = VMCI_INVALID_ID") (auto simp: qe_ok_def)
qed

lemma leave_ok:
  assumes "qe_ok e" "qe_refCount e \<noteq> 1" "cid = qe_createId e \<or> cid = qe_attachId e"
  shows "qe_ok (leave cid e)"
  using assms(1)
proof (cases rule: qe_ok_cases)
  case two
  with assms(1,3) show ?thesis by (auto simp: qe_ok_def leave_def)
qed (use assms(2) in simp)

lemma join_ok:
  assumes "qe_ok e" "cid \<noteq> VMCI_INVALID_ID" "attach_error pf c cid e = None"
  shows "qe_ok (join cid e)"
proof -
  have e: "qe_allowAttach e" "cid \<noteq> qe_createId e" "qe_createId e \<noteq> VMCI_INVALID_ID" "qe_attachId e = VMCI_INVALID_ID"
    using assms by (auto simp: attach_error_def qe_ok_def split: if_splits)
  from assms(1) e have "qe_refCount e = 1" by (cases rule: qe_ok_cases) auto
  with assms(1,2) e show ?thesis by (auto simp: qe_ok_def join_def)
qed

lemma detach_cases [consumes 4, case_names refused asked last left]:
  assumes dg: "dg_inv s" and inv: "qp_inv s" and cp: "cp \<in> ctx_live s"
    and eq: "QueuePair_Detach E new dq h (Some cp) detach s = Some (r, s')"
  obtains "r < 0" "s' = s"
  | p where "\<not> detach" "0 \<le> r" "s' = s" "QueuePairList_FindEntry h s = Some p" "member_of s cp h"
  | p t n where "detach" "r = VMCI_SUCCESS_LAST_DETACH" "QueuePairList_FindEntry h s = Some p" "member_of s cp h"
      "cx_cid (ctx_mem s cp) \<noteq> VMCI_INVALID_ID"
      "cx_cid (ctx_mem s cp) = qe_createId (qp_mem s p) \<or> cx_cid (ctx_mem s cp) = qe_attachId (qp_mem s p)"
      "qe_refCount (qp_mem s p) = 1" "s' = remove_queuepair cp h t"
      "qp_mem t = (qp_mem s)(p := leave (cx_cid (ctx_mem s cp)) (qp_mem s p))"
      "qp_list t = remove1 p (qp_list s)" "qp_live t = qp_live s - set (qe_objs s p)"
      "ctx_live t = ctx_live s" "ctx_mem t = ctx_mem s" "dg_inv t"
      "(if qe_pageStoreSet (qp_mem s p) \<and> VMCIContext_SupportsHostQP s (Some cp)
        then VMCIHost_ReleaseUserMemory (qe_attach (qp_mem s p)) else Some 0) = Some n" "qp_pins t = qp_pins s - n"
  | p t where "detach" "0 \<le> r" "QueuePairList_FindEntry h s = Some p" "member_of s cp h"
      "cx_cid (ctx_mem s cp) \<noteq> VMCI_INVALID_ID"
      "cx_cid (ctx_mem s cp) = qe_createId (qp_mem s p) \<or> cx_cid (ctx_mem s cp) = qe_attachId (qp_mem s p)"
      "qe_refCount (qp_mem s p) \<noteq> 1" "s' = remove_queuepair cp h t"
      "quiet (upd_qp p (leave (cx_cid (ctx_mem s cp))) s) t" "dg_inv t"
proof -
  let ?cid = "cx_cid (ctx_mem s cp)"
  have harr: "harr_inv (cx_queuePairArray (ctx_mem s cp))" using dg cp by (simp add: dg_inv_def ctx_inv_def cx_inv_def)
  show thesis
  proof (cases "h = VMCI_INVALID_HANDLE \<or> ?cid = VMCI_INVALID_ID \<or> \<not> member_of s cp h
      \<or> QueuePairList_FindEntry h s = None")
    case True
    with eq harr show thesis
      by (intro that(1)) (auto simp: QueuePair_Detach_def Let_def VMCIContext_GetId_def member_of_def
          split: if_splits option.splits)
  next
    case False
    then obtain p where p: "QueuePairList_FindEntry h s = Some p" by blast
    let ?e = "qp_mem s p"
    let ?peer = "if ?cid = qe_createId ?e then qe_attachId ?e else qe_createId ?e"
    let ?t = "snd (QueuePairNotifyPeer E new dq False h ?cid ?peer (upd_qp p (leave ?cid) s))"
    have e: "(if ?cid \<noteq> qe_createId ?e \<and> ?cid \<noteq> qe_attachId ?e then Some (VMCI_ERROR_QUEUEPAIR_NOTATTACHED, s)
        else if \<not> detach then Some (if qe_refCount ?e = 1 \<or> ?peer = VMCI_HOST_CONTEXT_ID
          then VMCI_SUCCESS_LAST_DETACH else VMCI_SUCCESS, s)
        else if qe_refCount ?e = 1
        then (case free_entry cp p (upd_qp p (leave ?cid) s) of None \<Rightarrow> None
              | Some s2 \<Rightarrow> Some (VMCI_SUCCESS_LAST_DETACH, remove_queuepair cp h s2))
        else Some (if ?peer = VMCI_HOST_CONTEXT_ID then VMCI_SUCCESS_LAST_DETACH else VMCI_SUCCESS,
                   remove_queuepair cp h ?t)) = Some (r, s')"
    proof -
      have g: "(VMCI_HANDLE_EQUAL h VMCI_INVALID_HANDLE \<or> ?cid = VMCI_INVALID_ID) = False"
        "(\<not> VMCIHandleArray_HasEntry (cx_queuePairArray (ctx_mem s cp)) h) = False"
        "(qe_refCount (qp_mem (upd_qp p (leave ?cid) s) p) = 0) = (qe_refCount ?e = 1)"
        using False harr by (auto simp: member_of_def right_minus_eq)
      from eq show ?thesis
        unfolding QueuePair_Detach_def Let_def VMCIContext_GetId_def option.case p g if_False .
    qed
    have t: "quiet (upd_qp p (leave ?cid) s) ?t \<and> dg_inv ?t"
      by (rule QueuePairNotifyPeer_quiet) (simp add: dg)
    from False p e show thesis
    proof (cases "?cid \<noteq> qe_createId ?e \<and> ?cid \<noteq> qe_attachId ?e \<or> \<not> detach")
      case True
      with e p False show thesis by (auto split: if_splits intro: that(1,2))
    next
      case att: False
      show thesis
      proof (cases "qe_refCount ?e = 1")
        case True
        with e att obtain s2 where s2: "free_entry cp p (upd_qp p (leave ?cid) s) = Some s2"
          "r = VMCI_SUCCESS_LAST_DETACH" "s' = remove_queuepair cp h s2"
          by (auto split: if_splits option.splits)
        from s2(1) obtain n where "(if qe_pageStoreSet ?e \<and> VMCIContext_SupportsHostQP s (Some cp)
            then VMCIHost_ReleaseUserMemory (qe_attach ?e) else Some 0) = Some n"
          "s2 = QueuePairList_RemoveEntry p (upd_qp p (leave ?cid) s)
             \<lparr>qp_pins := qp_pins s - n, qp_live := qp_live s - {qe_attachInfo ?e, qe_produceQ ?e, qe_consumeQ ?e, p}\<rparr>"
          by (auto simp: free_entry_def Let_def VMCIContext_SupportsHostQP_def QueuePairList_RemoveEntry_def
              split: option.splits if_splits)
        moreover from this have "dg_inv s2" using dg by (simp add: QueuePairList_RemoveEntry_def)
        ultimately show thesis
          using True att p False s2
          by (intro that(3) [where p = p and t = s2 and n = n])
            (auto simp: QueuePairList_RemoveEntry_def qe_objs_def insert_commute)
      next
        case two: False
        with e att have "s' = remove_queuepair cp h ?t" "0 \<le> r" by (auto split: if_splits)
        with two att p False t show thesis by (intro that(4) [where p = p and t = ?t]) auto
      qed
    qed
  qed
qed

definition same_side :: "QueuePairEntry \<Rightarrow> QueuePairEntry \<Rightarrow> bool" where
  "same_side a b \<longleftrightarrow> qe_handle a = qe_handle b \<and> qe_peer a = qe_peer b \<and> qe_flags a = qe_flags b
     \<and> qi_size (qe_produceInfo a) = qi_size (qe_produceInfo b) \<and> qi_size (qe_consumeInfo a) = qi_size (qe_consumeInfo b)
     \<and> qe_createId a = qe_createId b \<and> qe_attachId a = qe_attachId b \<and> qe_refCount a = qe_refCount b
     \<and> qe_allowAttach a = qe_allowAttach b \<and> qe_requireTrustedAttach a = qe_requireTrustedAttach b
     \<and> qe_createdByTrusted a = qe_createdByTrusted b \<and> qe_produceQ a = qe_produceQ b
     \<and> qe_consumeQ a = qe_consumeQ b \<and> qe_attachInfo a = qe_attachInfo b"

lemma quiet_upd_qp: "quiet s t \<Longrightarrow> quiet (upd_qp p f s) (upd_qp p f t)"
  by (simp add: quiet_def)

lemma read_files_same:
  assumes "read_files rd ps e = (fault, e1)"
  shows "same_side e1 e \<and> qe_pageStoreSet e1 = qe_pageStoreSet e \<and> qe_attach e1 = qe_attach e"
  using assms by (auto simp: read_files_def set_files_def same_side_def Let_def split: prod.splits if_splits)

lemma attach_files_same: "same_side (attach_files ps e) e \<and> qe_pageStoreSet (attach_files ps e) = qe_pageStoreSet e"
  by (simp add: attach_files_def same_side_def)

lemma same_side_trans: "same_side a b \<Longrightarrow> same_side b c \<Longrightarrow> same_side a c"
  by (simp add: same_side_def)

lemma pin_files_cases:
  assumes "pin_files se cp p s = Some (r, s1)"
  obtains n a where "s1 = upd_qp p (\<lambda>e. e\<lparr>qe_attach := a\<rparr>) (s\<lparr>qp_pins := n\<rparr>)"
    "\<not> VMCIContext_SupportsHostQP s (Some cp) \<longrightarrow> a = qe_attach (qp_mem s p)"
proof (cases "VMCIContext_SupportsHostQP s (Some cp)")
  case False
  with assms have "s1 = upd_qp p (\<lambda>e. e\<lparr>qe_attach := qe_attach (qp_mem s p)\<rparr>) (s\<lparr>qp_pins := qp_pins s\<rparr>)"
    by (simp add: pin_files_def upd_qp_def)
  then show thesis by (rule that) simp
qed (use assms that in \<open>auto simp: pin_files_def split: option.splits\<close>)

lemma set_page_store_cases [consumes 3, case_names refused stored]:
  assumes dg: "dg_inv s" and cp: "cp \<in> ctx_live s"
    and eq: "QueuePair_SetPageStore E se h ps (Some cp) s = Some (r, s')"
  obtains "r < 0" "s' = s"
  | p e n where "QueuePairList_FindEntry h s = Some p" "member_of s cp h" "same_side e (qp_mem s p)"
      "\<not> qe_pageStoreSet (qp_mem s p)" "qe_pageStoreSet e \<longleftrightarrow> r = VMCI_SUCCESS" "r \<le> 0"
      "cx_cid (ctx_mem s cp) = qe_createId (qp_mem s p)
        \<or> qe_createId (qp_mem s p) = VMCI_HOST_CONTEXT_ID \<and> cx_cid (ctx_mem s cp) = qe_attachId (qp_mem s p)"
      "quiet (upd_qp p (\<lambda>_. e) (s\<lparr>qp_pins := n\<rparr>)) s'" "dg_inv s'"
      "\<not> VMCIContext_SupportsHostQP s (Some cp)
        \<Longrightarrow> ai_producePages (qe_attach e) = ai_producePages (qe_attach (qp_mem s p))"
proof -
  let ?cid = "cx_cid (ctx_mem s cp)"
  have harr: "harr_inv (cx_queuePairArray (ctx_mem s cp))" using dg cp by (simp add: dg_inv_def ctx_inv_def cx_inv_def)
  note result = that
  have stored: thesis if p: "QueuePairList_FindEntry h s = Some p" "member_of s cp h"
    "\<not> (qe_createId (qp_mem s p) \<noteq> ?cid \<and> (qe_createId (qp_mem s p) \<noteq> VMCI_HOST_CONTEXT_ID \<or> qe_attachId (qp_mem s p) \<noteq> ?cid))"
    "\<not> qe_pageStoreSet (qp_mem s p)" "same_side e (qp_mem s p)" "qe_pageStoreSet e \<longleftrightarrow> r = VMCI_SUCCESS" "r \<le> 0"
    "quiet (upd_qp p (\<lambda>_. e) (s\<lparr>qp_pins := n\<rparr>)) s'" "dg_inv s'"
    "\<not> VMCIContext_SupportsHostQP s (Some cp)
      \<Longrightarrow> ai_producePages (qe_attach e) = ai_producePages (qe_attach (qp_mem s p))" for p e n
    using result(2) [where p = p and e = e and n = n] p by auto
  show thesis
  proof (cases "r < 0 \<and> s' = s")
    case False
    with eq harr obtain pst p where pst: "ps = Some pst" and p: "QueuePairList_FindEntry h s = Some p" "member_of s cp h"
      by (auto simp: QueuePair_SetPageStore_def Let_def VMCIContext_GetId_def member_of_def
          split: if_splits option.splits)
    let ?e = "qp_mem s p"
    let ?own = "\<not> (qe_createId ?e \<noteq> ?cid \<and> (qe_createId ?e \<noteq> VMCI_HOST_CONTEXT_ID \<or> qe_attachId ?e \<noteq> ?cid))"
    define nps where "nps = normalize (qe_createId ?e = ?cid) pst"
    obtain fault e1 where rd: "read_files (sp_read se) nps ?e = (fault, e1)" by fastforce
    have own: ?own and unset: "\<not> qe_pageStoreSet ?e"
      and rest: "(if fault then Some (VMCI_ERROR_GENERIC, upd_qp p (\<lambda>_. e1) s)
        else case pin_files se cp p (upd_qp p (\<lambda>_. attach_files nps e1) s) of None \<Rightarrow> None
         | Some (r, s1) \<Rightarrow> if r < VMCI_SUCCESS then Some (r, s1)
             else let (r2, s2) = (if qe_createId ?e = VMCI_HOST_CONTEXT_ID
                    then QueuePairNotifyPeer E (sp_new se) (sp_dq se) True h ?cid (qe_createId ?e) s1
                    else (VMCI_SUCCESS, s1))
             in if r2 < VMCI_SUCCESS then Some (r2, s2)
                else Some (VMCI_SUCCESS, upd_qp p (\<lambda>e. e\<lparr>qe_pageStoreSet := True\<rparr>) s2)) = Some (r, s')"
      using eq False
      unfolding QueuePair_SetPageStore_def VMCIContext_GetId_def Let_def pst p option.case prod.case
        nps_def [symmetric] rd by (auto split: if_splits)
    note sides = read_files_same [OF rd]
    show thesis
    proof (cases fault)
      case True
      then show thesis
        using rest dg sides p own unset by (intro stored [where p = p and e = e1 and n = "qp_pins s"]) auto
    next
      case nofault: False
      obtain r1 s1 where pin: "pin_files se cp p (upd_qp p (\<lambda>_. attach_files nps e1) s) = Some (r1, s1)"
        using rest nofault by (auto split: option.splits)
      obtain n a where "s1 = upd_qp p (\<lambda>e. e\<lparr>qe_attach := a\<rparr>) (upd_qp p (\<lambda>_. attach_files nps e1) s\<lparr>qp_pins := n\<rparr>)"
        and a: "\<not> VMCIContext_SupportsHostQP (upd_qp p (\<lambda>_. attach_files nps e1) s) (Some cp)
          \<longrightarrow> a = qe_attach (qp_mem (upd_qp p (\<lambda>_. attach_files nps e1) s) p)"
        by (rule pin_files_cases [OF pin])
      then have s1: "s1 = upd_qp p (\<lambda>_. (attach_files nps e1)\<lparr>qe_attach := a\<rparr>) (s\<lparr>qp_pins := n\<rparr>)"
        by (simp add: upd_qp_def)
      let ?e2 = "(attach_files nps e1)\<lparr>qe_attach := a\<rparr>"
      have e2: "same_side ?e2 ?e" "\<not> qe_pageStoreSet ?e2"
        using sides attach_files_same [of nps e1] unset by (auto simp: same_side_def)
      have e2a: "ai_producePages (qe_attach ?e2) = ai_producePages (qe_attach ?e)"
        if "\<not> VMCIContext_SupportsHostQP s (Some cp)"
        using a that sides by (simp add: VMCIContext_SupportsHostQP_def attach_files_def)
      obtain r2 s2 where nt: "(if qe_createId ?e = VMCI_HOST_CONTEXT_ID
          then QueuePairNotifyPeer E (sp_new se) (sp_dq se) True h ?cid (qe_createId ?e) s1
          else (VMCI_SUCCESS, s1)) = (r2, s2)" by fastforce
      have dg1: "dg_inv s1" using dg s1 by simp
      have s2: "quiet s1 s2 \<and> dg_inv s2"
        using nt dg1 QueuePairNotifyPeer_quiet [OF dg1, of E "sp_new se" "sp_dq se" True h ?cid "qe_createId ?e"]
        by (auto split: if_splits)
      have "r1 < 0 \<and> r = r1 \<and> s' = s1 \<or> r2 < 0 \<and> r = r2 \<and> s' = s2
          \<or> r = VMCI_SUCCESS \<and> s' = upd_qp p (\<lambda>e. e\<lparr>qe_pageStoreSet := True\<rparr>) s2"
        using rest nofault unfolding pin option.case prod.case nt Let_def by (auto split: if_splits)
      then show thesis
      proof (elim disjE conjE)
        assume "r1 < 0" "r = r1" "s' = s1"
        then show thesis
          using p own unset e2 e2a dg1 s1 by (intro stored [where p = p and e = ?e2 and n = n]) auto
      next
        assume "r2 < 0" "r = r2" "s' = s2"
        then show thesis
          using p own unset e2 e2a s1 s2 by (intro stored [where p = p and e = ?e2 and n = n]) auto
      next
        assume r: "r = VMCI_SUCCESS" "s' = upd_qp p (\<lambda>e. e\<lparr>qe_pageStoreSet := True\<rparr>) s2"
        let ?e3 = "?e2\<lparr>qe_pageStoreSet := True\<rparr>"
        have "quiet (upd_qp p (\<lambda>e. e\<lparr>qe_pageStoreSet := True\<rparr>) s1) s'"
          using s2 r quiet_upd_qp by blast
        moreover have "upd_qp p (\<lambda>e. e\<lparr>qe_pageStoreSet := True\<rparr>) s1 = upd_qp p (\<lambda>_. ?e3) (s\<lparr>qp_pins := n\<rparr>)"
          unfolding s1 by (simp add: upd_qp_def)
        ultimately show thesis
          using p own unset e2 e2a s2 r by (intro stored [where p = p and e = ?e3 and n = n]) (auto simp: same_side_def)
      qed
    qed
  qed (use result(1) in blast)
qed

section \<open>Reachable states\<close>

text \<open>
  The allocator hands out addresses that are different from each other and from those in
  use.  The steps of the broker are its three operations, by any context that is alive and
  with any answers of the environment; \<open>other\<close> is a step of another part of the driver, which
  leaves the broker and the arrays of the contexts alone, may free contexts and may create
  contexts whose array is empty.
\<close>

definition alloc_addrs :: "qp_alloc \<Rightarrow> ptr list" where
  "alloc_addrs al = concat (map (case_option [] (\<lambda>p. [p]))
     [qa_entry al, qa_produceQ al, qa_consumeQ al, qa_attachInfo al])"

definition fresh_alloc :: "qp_alloc \<Rightarrow> 'a qp_state_scheme \<Rightarrow> bool" where
  "fresh_alloc al s \<longleftrightarrow> distinct (alloc_addrs al) \<and> set (alloc_addrs al) \<inter> qp_live s = {}"

inductive qp_step :: "'a qp_state_scheme env \<Rightarrow> 'a qp_state_scheme \<Rightarrow> 'a qp_state_scheme \<Rightarrow> bool"
  for E :: "'a qp_state_scheme env" where
  alloc: "cp \<in> ctx_live s \<Longrightarrow> fresh_alloc al s
    \<Longrightarrow> QueuePair_Alloc E al h peer flags privFlags psz csz ps (Some cp) s = Some (r, s') \<Longrightarrow> qp_step E s s'"
| store: "cp \<in> ctx_live s \<Longrightarrow> QueuePair_SetPageStore E se h pst (Some cp) s = Some (r, s') \<Longrightarrow> qp_step E s s'"
| detach: "cp \<in> ctx_live s \<Longrightarrow> QueuePair_Detach E new dq h (Some cp) d s = Some (r, s') \<Longrightarrow> qp_step E s s'"
| other: "dg_inv s' \<Longrightarrow> qp_list s' = qp_list s \<Longrightarrow> qp_mem s' = qp_mem s \<Longrightarrow> qp_live s' = qp_live s
    \<Longrightarrow> (\<And>cp. cp \<in> ctx_live s' \<Longrightarrow> live (cx_queuePairArray (ctx_mem s' cp)) = []
           \<or> cp \<in> ctx_live s \<and> cx_cid (ctx_mem s' cp) = cx_cid (ctx_mem s cp)
             \<and> cx_queuePairArray (ctx_mem s' cp) = cx_queuePairArray (ctx_mem s cp))
    \<Longrightarrow> qp_step E s s'"

inductive qp_reachable :: "'a qp_state_scheme env \<Rightarrow> 'a qp_state_scheme \<Rightarrow> bool"
  for E :: "'a qp_state_scheme env" where
  init: "dg_inv s \<Longrightarrow> qp_list s = [] \<Longrightarrow> (\<And>cp. cp \<in> ctx_live s \<Longrightarrow> live (cx_queuePairArray (ctx_mem s cp)) = [])
    \<Longrightarrow> qp_reachable E s"
| step: "qp_reachable E s \<Longrightarrow> qp_step E s s' \<Longrightarrow> qp_reachable E s'"

definition broker_inv :: "'a qp_state_scheme \<Rightarrow> bool" where
  [inv_defs]: "broker_inv s \<longleftrightarrow> dg_inv s \<and> qp_inv s \<and> arrays_ok s"

lemma QueuePair_Alloc_Host:
  "QueuePair_Alloc E al h peer flags pf psz csz ps c s = Some (r, s') \<longleftrightarrow>
     (\<exists>x. QueuePairAllocHost E al h peer flags pf psz csz ps c s = Some (r, x, s'))"
  by (auto simp: QueuePair_Alloc_def)

lemma alloc_broker:
  assumes inv: "broker_inv s" and cp: "cp \<in> ctx_live s" and fresh: "fresh_alloc al s"
    and eq: "QueuePairAllocHost E al h peer flags privFlags psz csz ps (Some cp) s = Some (r, x, s')"
  shows "broker_inv s' \<and> (\<forall>c k. attached s' c k \<longleftrightarrow>
     attached s c k \<or> 0 \<le> r \<and> c = cx_cid (ctx_mem s cp) \<and> k = h) \<and> (0 \<le> r \<longrightarrow> \<not> attached s (cx_cid (ctx_mem s cp)) h)"
proof -
  let ?cid = "cx_cid (ctx_mem s cp)"
  have dg: "dg_inv s" and qp: "qp_inv s" and arr: "arrays_ok s" using inv by (simp_all add: broker_inv_def)
  from dg cp eq show ?thesis
  proof (cases rule: alloc_cases)
    case refused
    with inv show ?thesis by (auto simp: broker_inv_def quiet_facts)
  next
    case (created p pq cq ai)
    define e where "e = new_entry h peer privFlags psz csz (ctx_mem s cp) pq cq ai"
    have e: "qe_handle e = h" "qe_createId e = ?cid" "qe_attachId e = VMCI_INVALID_ID"
      "[p, qe_produceQ e, qe_consumeQ e, qe_attachInfo e] = alloc_addrs al"
      using created by (simp_all add: e_def new_entry_def alloc_addrs_def)
    have ok: "qe_ok e" using created by (auto simp: qe_ok_def e_def new_entry_def)
    have none: "QueuePairList_FindEntry (qe_handle e) s = None" using created e by simp
    have "p \<in> set (alloc_addrs al)" using created by (simp add: alloc_addrs_def)
    then have p: "p \<notin> set (qp_list s)" using fresh qp by (auto simp: fresh_alloc_def qp_inv_def qe_objs_def)
    have qp': "qp_inv (insert_entry p e s)"
      using fresh by (intro insert_entry_inv [OF qp none ok]) (simp_all only: e(4) fresh_alloc_def)
    have na: "\<not> attached s c h" for c using created by (simp add: attached_def)
    have att: "attached (insert_entry p e s) c k \<longleftrightarrow> attached s c k \<or> c = ?cid \<and> k = h" for c k
      using na [of c] created e by (auto simp: attached_insert [OF none p])
    have dg': "dg_inv (insert_entry p e s)"
      using dg by (simp add: insert_entry_def QueuePairList_AddEntry_def)
    have "arrays_ok (add_queuepair (qa_array al) cp h (insert_entry p e s))"
      using created na by (intro arrays_add [OF arr _ dg' cp _ _ att]) (simp_all add: same_arrays_def)
    with qp' dg' att created na show ?thesis by (simp add: broker_inv_def e_def)
  next
    case (attached p t)
    let ?t = "upd_qp p (join ?cid) t"
    have t: "qp_inv t" "QueuePairList_FindEntry h t = Some p" "qp_mem t = qp_mem s" "attached t = attached s"
      using attached qp by (simp_all add: quiet_facts fun_eq_iff)
    have qp': "qp_inv ?t"
      using attached t by (intro upd_qp_inv) (auto simp: join_def [abs_def] intro!: join_ok [unfolded join_def])
    have err: "?cid \<noteq> qe_createId (qp_mem s p)" "?cid \<noteq> qe_attachId (qp_mem s p)" "qe_allowAttach (qp_mem s p)"
      using attached(4) by (auto simp: attach_error_def split: if_splits)
    have "qe_ok (qp_mem s p)" using FindEntry_D [OF attached(1)] qp by (auto simp: qp_inv_def)
    then have "qe_attachId (qp_mem s p) = VMCI_INVALID_ID" using err by (simp add: qe_ok_def)
    then have at: "QueuePairProps.attached s c h \<longleftrightarrow> c \<noteq> VMCI_INVALID_ID \<and> c = qe_createId (qp_mem s p)" for c
      using attached(1) by (auto simp: attached_def)
    have att: "QueuePairProps.attached ?t c k \<longleftrightarrow> QueuePairProps.attached s c k \<or> c = ?cid \<and> k = h" for c k
      using attached(2) at [of c] t by (auto simp: attached_upd_qp join_def)
    have "arrays_ok (add_queuepair (qa_array al) cp h ?t)"
      using attached at err by (intro arrays_add [OF arr _ _ cp _ _ att]) (simp_all add: same_arrays_def quiet_facts)
    with qp' att attached at err show ?thesis by (simp add: broker_inv_def)
  qed
qed

lemma store_broker:
  assumes inv: "broker_inv s" and cp: "cp \<in> ctx_live s"
    and eq: "QueuePair_SetPageStore E se h ps (Some cp) s = Some (r, s')"
  shows "broker_inv s' \<and> attached s' = attached s"
proof -
  have dg: "dg_inv s" and qp: "qp_inv s" and arr: "arrays_ok s" using inv by (simp_all add: broker_inv_def)
  from dg cp eq show ?thesis
  proof (cases rule: set_page_store_cases)
    case (stored p e n)
    let ?t = "upd_qp p (\<lambda>_. e) (s\<lparr>qp_pins := n\<rparr>)"
    have e: "qe_handle e = qe_handle (qp_mem s p)" "qe_objs ?t = qe_objs s" "qe_ok e = qe_ok (qp_mem s p)"
      using stored(3) by (auto simp: same_side_def qe_objs_def fun_eq_iff qe_ok_def)
    have hs: "(\<lambda>q. qe_handle (qp_mem ?t q)) = (\<lambda>q. qe_handle (qp_mem s q))" using e(1) by auto
    have qp': "qp_inv ?t" using qp e unfolding qp_inv_def hs by simp
    have "QueuePairList_FindEntry k ?t = QueuePairList_FindEntry k s" for k
      using fun_cong [OF hs] by (simp add: QueuePairList_FindEntry_def)
    then have att: "attached ?t = attached s" using stored(3) by (auto simp: attached_def fun_eq_iff same_side_def)
    have mem: "member_of ?t = member_of s" by (simp add: member_of_def fun_eq_iff)
    have "arrays_ok ?t" using arr unfolding arrays_ok_def mem att by simp
    with qp' stored(8,9) att show ?thesis by (auto simp: broker_inv_def quiet_facts fun_eq_iff)
  qed (use inv in simp)
qed

lemma detach_broker:
  assumes inv: "broker_inv s" and cp: "cp \<in> ctx_live s"
    and eq: "QueuePair_Detach E new dq h (Some cp) d s = Some (r, s')"
  shows "broker_inv s' \<and> (\<forall>c k. attached s' c k \<longleftrightarrow>
     attached s c k \<and> \<not> (d \<and> 0 \<le> r \<and> c = cx_cid (ctx_mem s cp) \<and> k = h))"
proof -
  let ?cid = "cx_cid (ctx_mem s cp)"
  have dg: "dg_inv s" and qp: "qp_inv s" and arr: "arrays_ok s" using inv by (simp_all add: broker_inv_def)
  from dg qp cp eq show ?thesis
  proof (cases rule: detach_cases)
    case (last p t n)
    note p = FindEntry_D [OF last(3)]
    have t: "qp_inv t" "\<And>k. QueuePairList_FindEntry k t = (if k = h then None else QueuePairList_FindEntry k s)"
      using removed_entry_inv [OF qp _ last(9,10,11)] p by auto
    have "qe_ok (qp_mem s p)" using p qp by (simp add: qp_inv_def)
    then have one: "(qe_createId (qp_mem s p) \<noteq> VMCI_INVALID_ID) \<noteq> (qe_attachId (qp_mem s p) \<noteq> VMCI_INVALID_ID)"
      using last(7) by (cases rule: qe_ok_cases) auto
    have att: "attached t c k \<longleftrightarrow> attached s c k \<and> \<not> (c = ?cid \<and> k = h)" for c k
    proof (cases "k = h")
      case True
      with last(3,5,6) one show ?thesis by (auto simp: attached_def t(2))
    next
      case False
      have "q \<noteq> p" if "QueuePairList_FindEntry k s = Some q" for q
        using FindEntry_D [OF that] p False by auto
      with False show ?thesis by (auto simp: attached_def t(2) last(9))
    qed
    have "arrays_ok (remove_queuepair cp h t)"
      using last by (intro arrays_remove [OF arr _ _ cp _ att]) (simp_all add: same_arrays_def)
    with t(1) att last show ?thesis by (auto simp: broker_inv_def)
  next
    case (left p t)
    note p = FindEntry_D [OF left(3)]
    let ?t = "upd_qp p (leave ?cid) s"
    have ok: "qe_ok (qp_mem s p)" using p qp by (simp add: qp_inv_def)
    then have "qe_createId (qp_mem s p) \<noteq> VMCI_INVALID_ID \<and> qe_attachId (qp_mem s p) \<noteq> VMCI_INVALID_ID"
      using left(7) by (cases rule: qe_ok_cases) auto
    with ok have two: "qe_createId (qp_mem s p) \<noteq> VMCI_INVALID_ID" "qe_attachId (qp_mem s p) \<noteq> VMCI_INVALID_ID"
      "qe_createId (qp_mem s p) \<noteq> qe_attachId (qp_mem s p)"
      by (auto simp: qe_ok_def)
    have qp': "qp_inv ?t" using left ok by (intro upd_qp_inv [OF qp]) (auto intro: leave_ok)
    have "attached ?t c k \<longleftrightarrow> attached s c k \<and> \<not> (c = ?cid \<and> k = h)" for c k
      using left(3,5,6) two by (auto simp: attached_upd_qp [OF left(3)] leave_def) (auto simp: attached_def)
    then have att: "attached t c k \<longleftrightarrow> attached s c k \<and> \<not> (c = ?cid \<and> k = h)" for c k
      using left(9) by (simp add: quiet_facts)
    have "arrays_ok (remove_queuepair cp h t)"
      using left by (intro arrays_remove [OF arr _ _ cp _ att]) (simp_all add: same_arrays_def quiet_facts)
    with qp' att left show ?thesis by (auto simp: broker_inv_def quiet_facts)
  qed (use inv in auto)
qed

lemma broker_step:
  assumes "qp_step E s s'" "broker_inv s"
  shows "broker_inv s'"
  using assms
proof (induction rule: qp_step.induct)
  case (alloc cp s al h peer flags privFlags psz csz ps r s')
  then obtain x where "QueuePairAllocHost E al h peer flags privFlags psz csz ps (Some cp) s = Some (r, x, s')"
    by (auto simp: QueuePair_Alloc_Host)
  with alloc alloc_broker show ?case by blast
next
  case (other s' s)
  have o: "qe_objs s' = qe_objs s" using other by (simp add: qe_objs_def fun_eq_iff)
  have a: "attached s' = attached s" using other by (simp add: attached_def QueuePairList_FindEntry_def fun_eq_iff)
  have qp: "qp_inv s'" using other o by (simp add: qp_inv_def broker_inv_def)
  have ok: "arrays_ok s" using other by (simp add: broker_inv_def)
  have m: "cp \<in> ctx_live s \<and> member_of s cp h \<and> cx_cid (ctx_mem s' cp) = cx_cid (ctx_mem s cp)"
    if "cp \<in> ctx_live s'" "member_of s' cp h" for cp h
    using other(5) [OF that(1)] that(2) by (auto simp: member_of_def)
  have d: "distinct (live (cx_queuePairArray (ctx_mem s' cp)))" if "cp \<in> ctx_live s'" for cp
    using other(5) [OF that] ok by (auto simp: arrays_ok_def)
  have "arrays_ok s'"
    using ok m d unfolding arrays_ok_def a by metis
  with qp other show ?case by (simp add: broker_inv_def)
qed (use store_broker detach_broker in blast)+

lemma broker_reachable: "qp_reachable E s \<Longrightarrow> broker_inv s"
proof (induction rule: qp_reachable.induct)
  case (init s)
  then show ?case by (simp add: broker_inv_def qp_inv_def arrays_ok_def member_of_def)
qed (rule broker_step)

section \<open>Properties\<close>

text \<open>
  Two virtual machines: id 5 at address 3, of a version that does not support pairs with the
  host, and id 6 at address 4, of one that does; no queue pairs yet.
\<close>

definition demo_vm :: "VMCIId \<Rightarrow> int \<Rightarrow> VMCIContext" where
  "demo_vm cid version = new_context cid 0 version demo_array demo_array demo_array demo_array"

definition demo_qp :: qp_state where
  "demo_qp = \<lparr>ctx_list = [3, 4], ctx_mem = (\<lambda>_. demo_vm 6 589824)(3 := demo_vm 5 524288), ctx_live = {3, 4},
     resourceTable = resourceTable demo_dgs, resourceID_counter = 1024, cl_mem = cl_mem demo_dgs,
     cl_live = {30}, events = events demo_dgs, wellKnownTable = wellKnownTable demo_dgs, wk_live = {40},
     dgp_mem = dgp_mem demo_dgs, dgp_live = {}, obj_live = {10}, ds_registry = Some demo_registry,
     ds_apiHandle = VMCI_DS_HANDLE, ds_groupHandle = VMCI_INVALID_HANDLE, ds_isInitialized = True,
     qp_list = [], qp_mem = (\<lambda>_. new_entry VMCI_INVALID_HANDLE 0 0 0 0 (demo_vm 5 0) 0 0 0), qp_live = {},
     qp_pins = 0, qp_out = []\<rparr>"

definition demo_alloc :: qp_alloc where
  "demo_alloc = \<lparr>qa_entry = Some 100, qa_produceQ = Some 101, qa_consumeQ = Some 102, qa_attachInfo = Some 103,
     qa_array = True, qa_new = True, qa_dq = True, qa_copy1 = True, qa_copy2 = True\<rparr>"

lemma demo_qp_inv: "dg_inv demo_qp"
proof -
  have "ctx_inv demo_qp"
    by (simp add: demo_qp_def demo_vm_def ctx_inv_def new_context_def cx_inv_def dq_inv_def harr_inv_def demo_array_def)
  with demo_dgs_inv show ?thesis by (simp add: demo_qp_def dg_inv_def)
qed

lemma demo_qp_reachable: "qp_reachable E demo_qp"
  by (rule qp_reachable.init [OF demo_qp_inv])
    (auto simp: demo_qp_def demo_vm_def new_context_def demo_array_def live_def)

lemma demo_qp_facts:
  "3 \<in> ctx_live demo_qp" "fresh_alloc demo_alloc demo_qp" "cx_cid (ctx_mem demo_qp 3) = 5"
  "QueuePairList_FindEntry h demo_qp = None"
  by (simp_all add: demo_qp_def demo_alloc_def fresh_alloc_def alloc_addrs_def demo_vm_def new_context_def
      QueuePairList_FindEntry_def)

lemma demo_vm_sel [simp]:
  "cx_cid (demo_vm c v) = c" "cx_userVersion (demo_vm c v) = v" "cx_queuePairArray (demo_vm c v) = demo_array"
  "cx_privFlags (demo_vm c v) = 0"
  by (simp_all add: demo_vm_def new_context_def)

lemma demo_qp_sel [simp]:
  "qp_list demo_qp = []" "ctx_live demo_qp = {3, 4}" "ctx_mem demo_qp 4 = demo_vm 6 589824"
  "ctx_mem demo_qp 3 = demo_vm 5 524288" "qp_live demo_qp = {}"
  by (simp_all add: demo_qp_def)

abbreviation (input) demo_create :: "(int \<times> ptr option \<times> qp_state) option" where
  "demo_create \<equiv> QueuePairAllocHost demo_env demo_alloc (VMCI_MAKE_HANDLE 5 9) 6 0 0 4096 8192 None (Some 3) demo_qp"

lemma demo_create_eq: "demo_create = Some (VMCI_SUCCESS_QUEUEPAIR_CREATE, Some 100,
    add_queuepair True 3 (VMCI_MAKE_HANDLE 5 9)
      (insert_entry 100 (new_entry (VMCI_MAKE_HANDLE 5 9) 6 0 4096 8192 (demo_vm 5 524288) 101 102 103) demo_qp))"
proof -
  have "harr_inv demo_array" "live demo_array = []" by (simp_all add: harr_inv_def demo_array_def live_def)
  moreover have "cx_queuePairArray (ctx_mem demo_qp 3) = demo_array" "ctx_mem demo_qp 3 = demo_vm 5 524288"
    by (simp_all add: demo_qp_def demo_vm_def new_context_def)
  moreover have "cx_cid (demo_vm 5 524288) = 5" "cx_privFlags (demo_vm 5 524288) = 0"
    "cx_queuePairArray (demo_vm 5 524288) = demo_array"
    by (simp_all add: demo_vm_def new_context_def)
  ultimately show ?thesis
    by (simp add: QueuePairAllocHost_def VMCIContext_GetId_def page_store_incomplete_def demo_qp_facts create_entry_def
        demo_alloc_def QueuePairDenyConnection_def insert_entry_def new_entry_def)
qed

text \<open>
  C12: In every state the broker can reach, with any contexts calling in any order and any
  failures of the environment, a queue pair is found under its handle, its reference count is
  the number of contexts attached to it, which is one or two, and it owns memory that is
  allocated; and a context whose array names a pair is attached to it.
\<close>

theorem queuepair_broker_invariant:
  assumes "qp_reachable E s"
  shows "(\<forall>p \<in> set (qp_list s). QueuePairList_FindEntry (qe_handle (qp_mem s p)) s = Some p
      \<and> unat (qe_refCount (qp_mem s p)) = card {c. attached s c (qe_handle (qp_mem s p))}
      \<and> (qe_refCount (qp_mem s p) = 1 \<or> qe_refCount (qp_mem s p) = 2)
      \<and> set (qe_objs s p) \<subseteq> qp_live s)
    \<and> (\<forall>cp \<in> ctx_live s. \<forall>h. VMCIHandleArray_HasEntry (cx_queuePairArray (ctx_mem s cp)) h
        \<longrightarrow> attached s (cx_cid (ctx_mem s cp)) h)"
proof -
  have inv: "dg_inv s" "qp_inv s" "arrays_ok s" using broker_reachable [OF assms] by (simp_all add: broker_inv_def)
  have "unat (qe_refCount (qp_mem s p)) = card {c. attached s c (qe_handle (qp_mem s p))}
      \<and> (qe_refCount (qp_mem s p) = 1 \<or> qe_refCount (qp_mem s p) = 2)
      \<and> QueuePairList_FindEntry (qe_handle (qp_mem s p)) s = Some p" if "p \<in> set (qp_list s)" for p
  proof -
    let ?e = "qp_mem s p"
    have f: "QueuePairList_FindEntry (qe_handle ?e) s = Some p" using FindEntry_listed [OF inv(2) that] .
    have "{c. attached s c (qe_handle ?e)} = {qe_createId ?e, qe_attachId ?e} - {VMCI_INVALID_ID}"
      using f by (auto simp: attached_def)
    moreover have ok: "qe_ok ?e" using inv(2) that by (simp add: qp_inv_def)
    ultimately have "unat (qe_refCount ?e) = card {c. attached s c (qe_handle ?e)}"
      by (simp add: qe_ok_def card_two_diff)
    moreover from ok have "qe_refCount ?e = 1 \<or> qe_refCount ?e = 2" by (cases rule: qe_ok_cases) simp_all
    ultimately show ?thesis using f by blast
  qed
  moreover have "harr_inv (cx_queuePairArray (ctx_mem s cp))" if "cp \<in> ctx_live s" for cp
    using inv(1) that by (simp add: dg_inv_def ctx_inv_def cx_inv_def)
  ultimately show ?thesis using inv(2,3) by (auto simp: qp_inv_def arrays_ok_def member_of_def)
qed

theorem queuepair_broker_invariant_witness:
  "case demo_create of None \<Rightarrow> False | Some (r, x, s) \<Rightarrow>
     card {c. attached s c (VMCI_MAKE_HANDLE 5 9)} = 1 \<and> {100, 101, 102, 103} \<subseteq> qp_live s"
proof -
  let ?e = "new_entry (VMCI_MAKE_HANDLE 5 9) 6 0 4096 8192 (demo_vm 5 524288) 101 102 103"
  let ?s = "add_queuepair True 3 (VMCI_MAKE_HANDLE 5 9) (insert_entry 100 ?e demo_qp)"
  have "qp_step demo_env demo_qp ?s"
    using qp_step.alloc [OF demo_qp_facts(1,2)] demo_create_eq unfolding QueuePair_Alloc_Host by blast
  then have "qp_reachable demo_env ?s" by (rule qp_reachable.step [OF demo_qp_reachable])
  moreover have "100 \<in> set (qp_list ?s)" "qe_handle (qp_mem ?s 100) = VMCI_MAKE_HANDLE 5 9"
    "qe_refCount (qp_mem ?s 100) = 1" "qe_objs ?s 100 = [100, 101, 102, 103]"
    by (simp_all add: new_entry_def qe_objs_def)
  ultimately show ?thesis
    using queuepair_broker_invariant [where E = demo_env and s = ?s] unfolding demo_create_eq by fastforce
qed

text \<open>
  C13: A call that creates or attaches gives exactly its context a side of the pair, a failing
  call gives nobody one.  Creating needs the owner of the handle as creator or named peer.
  Attaching needs a pair that was never attached to before, the caller to be the peer named by
  the creator, queue sizes that are the creator's crossed over, a trusted creator when the
  caller is restricted, a trusted caller when the creator was restricted, and support for
  pairs of the host when the creator is the host; afterwards nobody else can attach.
\<close>

theorem queuepair_attach_rules:
  assumes inv: "broker_inv s" and cp: "cp \<in> ctx_live s" and fresh: "fresh_alloc al s"
    and eq: "QueuePair_Alloc E al h peer flags privFlags psz csz ps (Some cp) s = Some (r, s')"
  defines "cid \<equiv> cx_cid (ctx_mem s cp)"
  shows "(\<forall>c k. attached s' c k \<longleftrightarrow> attached s c k \<or> 0 \<le> r \<and> c = cid \<and> k = h)
    \<and> (0 \<le> r \<longrightarrow> \<not> attached s cid h \<and> (case QueuePairList_FindEntry h s of
         None \<Rightarrow> r = VMCI_SUCCESS_QUEUEPAIR_CREATE \<and> flags = 0 \<and> (hcontext h = cid \<or> hcontext h = peer)
       | Some p \<Rightarrow> qe_allowAttach (qp_mem s p) \<and> (qe_peer (qp_mem s p) = VMCI_INVALID_ID \<or> qe_peer (qp_mem s p) = cid)
           \<and> qi_size (qe_produceInfo (qp_mem s p)) = csz \<and> qi_size (qe_consumeInfo (qp_mem s p)) = psz
           \<and> (restricted (cx_privFlags (ctx_mem s cp)) \<longrightarrow> qe_createdByTrusted (qp_mem s p))
           \<and> (qe_requireTrustedAttach (qp_mem s p) \<longrightarrow> trusted privFlags)
           \<and> (qe_createId (qp_mem s p) = VMCI_HOST_CONTEXT_ID \<longrightarrow> VMCIContext_SupportsHostQP s (Some cp))
           \<and> \<not> qe_allowAttach (qp_mem s' p)))"
proof -
  obtain x where x: "QueuePairAllocHost E al h peer flags privFlags psz csz ps (Some cp) s = Some (r, x, s')"
    using eq by (auto simp: QueuePair_Alloc_Host)
  note att = alloc_broker [OF inv cp fresh x]
  have dg: "dg_inv s" using inv by (simp add: broker_inv_def)
  from dg cp x show ?thesis
  proof (cases rule: alloc_cases)
    case (attached p t)
    then show ?thesis
      using att by (auto simp: cid_def attach_error_def host_qp_supported_def restricted_def trusted_def join_def
          split: if_splits)
  qed (use att in \<open>auto simp: cid_def\<close>)
qed

theorem queuepair_attach_rules_witness:
  "case demo_create of None \<Rightarrow> False | Some (r, x, s) \<Rightarrow> attached s 5 (VMCI_MAKE_HANDLE 5 9)"
proof -
  have "broker_inv demo_qp" using broker_reachable [OF demo_qp_reachable] .
  then show ?thesis
    using queuepair_attach_rules [OF _ demo_qp_facts(1,2)] demo_create_eq demo_qp_facts(3)
    unfolding QueuePair_Alloc_Host by fastforce
qed

lemma detach_created:
  assumes dg: "dg_inv s1" and cp: "cp \<in> ctx_live s1" and mem: "member_of s1 cp h" and h: "h \<noteq> VMCI_INVALID_HANDLE"
    and p: "QueuePairList_FindEntry h s1 = Some p" and e: "qe_createId (qp_mem s1 p) = cx_cid (ctx_mem s1 cp)"
      "qe_refCount (qp_mem s1 p) = 1" "\<not> qe_pageStoreSet (qp_mem s1 p)"
  shows "\<exists>s2. QueuePair_Detach E new dq h (Some cp) True s1 = Some (VMCI_SUCCESS_LAST_DETACH, s2)"
proof -
  have "harr_inv (cx_queuePairArray (ctx_mem s1 cp))" "cx_cid (ctx_mem s1 cp) \<noteq> VMCI_INVALID_ID"
    using dg cp by (simp_all add: dg_inv_def ctx_inv_def cx_inv_def)
  with assms show ?thesis
    by (simp add: QueuePair_Detach_def VMCIContext_GetId_def member_of_def free_entry_def Let_def)
qed



lemma CEILING_unat: "unat (CEILING x PAGE_SIZE) = unat (x + 4095) div 4096"
proof -
  have "x + PAGE_SIZE - 1 = x + 4095" "unat PAGE_SIZE = 4096" by simp_all
  then show ?thesis by (simp only: CEILING_def unat_div)
qed

lemma CEILING_pages:
  fixes x :: u64
  shows "if unat x \<le> 2 ^ 64 - 4096
    then unat x \<le> unat (CEILING x PAGE_SIZE) * 4096 \<and> unat (CEILING x PAGE_SIZE) * 4096 < unat x + 4096
    else CEILING x PAGE_SIZE = 0"
proof (cases "unat x \<le> 2 ^ 64 - 4096")
  case True
  then have "unat (x + 4095) = unat x + 4095" by (simp add: unat_word_ariths)
  then have "unat (CEILING x PAGE_SIZE) = (unat x + 4095) div 4096" by (simp only: CEILING_unat)
  with True show ?thesis by simp linarith
next
  case False
  then have big: "2 ^ 64 \<le> unat x + 4095" by simp
  have lt: "unat x < 2 ^ LENGTH(64)" by (rule unsigned_less)
  have "unat (x + 4095) = (unat x + 4095) mod 2 ^ 64" by (simp add: unat_word_ariths)
  also have "\<dots> = unat x + 4095 - 2 ^ 64"
    using big lt by (subst le_mod_geq) simp_all
  finally have "unat (x + 4095) < 4096" using lt by simp
  then have "unat (CEILING x PAGE_SIZE) = 0" by (simp only: CEILING_unat div_less)
  with False show ?thesis by (simp add: unat_eq_zero)
qed

text \<open>
  A pair gets enough pages, and less than one too many, for its queues and their headers,
  unless a size is within a page of \<open>2 ^ 64\<close>: such a size is accepted too, and gets the page of
  the header only.
\<close>

theorem queue_pages_cover:
  "let n = unat (ai_numProducePages (new_attach produceSize consumeSize))
   in if unat produceSize \<le> 2 ^ 64 - 4096
      then unat produceSize + 4096 \<le> n * 4096 \<and> n * 4096 < unat produceSize + 2 * 4096
      else n = 1"
proof (cases "unat produceSize \<le> 2 ^ 64 - 4096")
  case True
  let ?c = "CEILING produceSize PAGE_SIZE"
  have lt: "unat produceSize < 2 ^ LENGTH(64)" by (rule unsigned_less)
  have c: "unat produceSize \<le> unat ?c * 4096" "unat ?c * 4096 < unat produceSize + 4096"
    using CEILING_pages [of produceSize] True by simp_all
  with lt have "unat ?c * 4096 < 2 ^ 64 + 4096" by simp
  then have "Suc (unat ?c) < 2 ^ 64" by simp
  then have "unat (?c + 1) = Suc (unat ?c)" by (simp add: unat_word_ariths)
  with c True show ?thesis by (simp add: new_attach_def)
next
  case False
  then have "CEILING produceSize PAGE_SIZE = 0" using CEILING_pages [of produceSize] by simp
  with False show ?thesis by (simp add: new_attach_def)
qed

lemma neg_not_less:
  fixes n :: u64
  assumes "- 4095 \<le> r" "r < 0" "unat n \<le> 2 ^ 25"
  shows "\<not> word_of_int r < n"
proof
  assume "word_of_int r < n"
  then have "r mod 2 ^ LENGTH(64) < uint n" by (simp only: word_less_def uint_word_of_int)
  also have "uint n = int (unat n)" by (simp only: uint_nat)
  also have "\<dots> \<le> int (2 ^ 25)" using assms(3) by (simp only: of_nat_le_iff)
  finally have "r mod 2 ^ LENGTH(64) < 2 ^ 25" by simp
  moreover have "r mod 2 ^ LENGTH(64) = (r + 2 ^ LENGTH(64)) mod 2 ^ LENGTH(64)" by (simp only: mod_add_self2)
  moreover have "(r + 2 ^ LENGTH(64)) mod 2 ^ LENGTH(64) = r + 2 ^ LENGTH(64)"
    using assms(1,2) by (intro mod_pos_pos_trivial) simp_all
  ultimately show False using assms(1) by simp
qed

text \<open>
  C15: When \<open>get_user_pages\<close> fails with an error code for both queues, the code takes the
  negative number for a large count: it reports success, with arrays that name no page.
  Proper counts are told apart from short ones.
\<close>

theorem get_user_pages_error_accepted:
  assumes "unat (ai_numProducePages a) \<le> 2 ^ 22" "unat (ai_numConsumePages a) \<le> 2 ^ 22"
    and "- 4095 \<le> err1" "err1 < 0" "- 4095 \<le> err2" "err2 < 0"
  shows "case VMCIHost_GetUserMemory True True err1 err2 a of None \<Rightarrow> False
    | Some (r, a', pins) \<Rightarrow> r = VMCI_SUCCESS \<and> pins = 0 \<and> VMCIHost_ReleaseUserMemory a' = None"
proof -
  have big: "unat (n * 8) = unat n * 8" if "unat n \<le> 2 ^ 22" for n :: u64
    using that by (simp add: unat_word_ariths)
  have "VMCIHost_GetUserMemory True True err1 err2 a
      = Some (VMCI_SUCCESS, a\<lparr>ai_producePages := Pages err1, ai_consumePages := Pages err2\<rparr>, 0)"
    using assms big neg_not_less [of err1 "ai_numProducePages a"] neg_not_less [of err2 "ai_numConsumePages a"]
    by (simp add: VMCIHost_GetUserMemory_def VMCI_AllocKernelMem_def KMALLOC_MAX_SIZE_def)
  moreover have "\<not> int (unat (ai_numProducePages a)) \<le> err1" using assms(4) by linarith
  ultimately show ?thesis by (simp add: VMCIHost_ReleaseUserMemory_def)
qed

theorem get_user_pages_error_accepted_witness:
  "case VMCIHost_GetUserMemory True True (-14) (-14) (new_attach 4096 8192) of
     Some (r, a, n) \<Rightarrow> r = VMCI_SUCCESS \<and> VMCIHost_ReleaseUserMemory a = None | None \<Rightarrow> False"
proof -
  have n: "ai_numProducePages (new_attach 4096 8192) = 2" "ai_numConsumePages (new_attach 4096 8192) = 3"
    by (simp_all add: new_attach_def CEILING_def)
  show ?thesis
    using get_user_pages_error_accepted [of "new_attach 4096 8192" "-14" "-14"] by (auto simp: n split: option.splits)
qed

text \<open>
  C16: A pair whose files were named by a context without support for host pairs has no
  pinned pages.  When a context with such support is the last to leave it, the driver releases
  the pages that are not there and the kernel crashes.
\<close>

theorem unpinned_release_crashes:
  assumes named: "dg_inv s" "cq \<in> ctx_live s" "QueuePairList_FindEntry h s = Some p"
      "\<not> VMCIContext_SupportsHostQP s (Some cq)" "ai_producePages (qe_attach (qp_mem s p)) = NoPages"
      "QueuePair_SetPageStore E se h ps (Some cq) s = Some (VMCI_SUCCESS, s1)"
    and later: "broker_inv s2" "cp \<in> ctx_live s2" "QueuePairList_FindEntry h s2 = Some p" "h \<noteq> VMCI_INVALID_HANDLE"
      "qe_attach (qp_mem s2 p) = qe_attach (qp_mem s1 p)" "qe_pageStoreSet (qp_mem s2 p)" "qe_refCount (qp_mem s2 p) = 1"
      "member_of s2 cp h" "VMCIContext_SupportsHostQP s2 (Some cp)"
  shows "QueuePair_Detach E new dq h (Some cp) True s2 = None"
proof -
  from named(1,2,6) have "ai_producePages (qe_attach (qp_mem s1 p)) = NoPages"
  proof (cases rule: set_page_store_cases)
    case (stored p' e n)
    with named(3-5) show ?thesis by (auto simp: quiet_def)
  qed simp
  then have none: "VMCIHost_ReleaseUserMemory (qe_attach (qp_mem s2 p)) = None"
    using later(5) by (simp add: VMCIHost_ReleaseUserMemory_def)
  have dg: "dg_inv s2" and arr: "arrays_ok s2" using later(1) by (simp_all add: broker_inv_def)
  have "attached s2 (cx_cid (ctx_mem s2 cp)) h" using arr later(2,8) by (simp add: arrays_ok_def)
  moreover have "harr_inv (cx_queuePairArray (ctx_mem s2 cp))"
    using dg later(2) by (simp add: dg_inv_def ctx_inv_def cx_inv_def)
  ultimately show ?thesis
    using later none by (auto simp: QueuePair_Detach_def VMCIContext_GetId_def member_of_def attached_def free_entry_def Let_def
        VMCIContext_SupportsHostQP_def)
qed

text \<open>The machine 5 creates the pair 5:9 and names its files; later the machine 6 is the only one left.\<close>

definition demo_store :: QueuePairPageStore where
  "demo_store = \<lparr>ps_user = True, ps_producePageFile = 70, ps_consumePageFile = 80, ps_producePageFileSize = 4,
     ps_consumePageFileSize = 4, ps_producePageUVA = 0, ps_consumePageUVA = 0\<rparr>"

definition demo_sp :: sp_env where
  "demo_sp = \<lparr>sp_read = (\<lambda>_ n. (replicate n 65, False)), sp_avail1 = True, sp_avail2 = True, sp_retval1 = 0,
     sp_retval2 = 0, sp_new = True, sp_dq = True\<rparr>"

definition demo_left :: "PageStoreAttachInfo \<Rightarrow> QueuePairEntry" where
  "demo_left a = (new_entry (VMCI_MAKE_HANDLE 5 9) 6 0 4096 8192 (demo_vm 5 524288) 101 102 103)
     \<lparr>qe_createId := VMCI_INVALID_ID, qe_attachId := 6, qe_allowAttach := False, qe_pageStoreSet := True, qe_attach := a\<rparr>"

lemma demo_array_facts: "harr_inv demo_array" "live demo_array = []"
  by (simp_all add: harr_inv_def demo_array_def live_def)

lemma demo_append: "live (VMCIHandleArray_AppendEntry True demo_array h) = [h]"
  "harr_inv (VMCIHandleArray_AppendEntry True demo_array h)"
  using VMCIHandleArray_AppendEntry_correct [OF demo_array_facts(1), of True h] demo_array_facts(2)
  by (simp_all add: append_stores_def demo_array_def)

lemma store_works:
  assumes "dg_inv s" "cp \<in> ctx_live s" "\<not> VMCIContext_SupportsHostQP s (Some cp)" "member_of s cp h" "h \<noteq> VMCI_INVALID_HANDLE"
    and "QueuePairList_FindEntry h s = Some p" "qe_createId (qp_mem s p) = cx_cid (ctx_mem s cp)"
      "cx_cid (ctx_mem s cp) \<noteq> VMCI_HOST_CONTEXT_ID" "\<not> qe_pageStoreSet (qp_mem s p)"
    and "ps_producePageFile ps \<noteq> 0" "ps_consumePageFile ps \<noteq> 0" "ps_producePageFileSize ps \<noteq> 0"
      "ps_producePageFileSize ps \<le> VMCI_PATH_MAX" "ps_consumePageFileSize ps \<le> VMCI_PATH_MAX"
    and rd: "\<And>va n. \<not> snd (sp_read se va n)"
  shows "\<exists>s1. QueuePair_SetPageStore E se h (Some ps) (Some cp) s = Some (VMCI_SUCCESS, s1)"
proof -
  have "harr_inv (cx_queuePairArray (ctx_mem s cp))" "cx_cid (ctx_mem s cp) \<noteq> VMCI_INVALID_ID"
    using assms(1,2) by (simp_all add: dg_inv_def ctx_inv_def cx_inv_def)
  moreover have "\<exists>e. read_files (sp_read se) ps (qp_mem s p) = (False, e)"
    using rd by (simp add: read_files_def split_beta Let_def)
  ultimately show ?thesis
    using assms(3-14)
    by (auto simp: QueuePair_SetPageStore_def VMCIContext_GetId_def normalize_def pin_files_def member_of_def Let_def
        VMCIContext_SupportsHostQP_def not_le)
qed

lemma demo_left_sel [simp]:
  "qe_handle (demo_left a) = VMCI_MAKE_HANDLE 5 9" "qe_createId (demo_left a) = VMCI_INVALID_ID"
  "qe_attachId (demo_left a) = 6" "qe_attach (demo_left a) = a" "qe_pageStoreSet (demo_left a)"
  "qe_refCount (demo_left a) = 1"
  by (simp_all add: demo_left_def new_entry_def)

lemma demo_left_inv:
  fixes a :: PageStoreAttachInfo
  defines "s \<equiv> add_queuepair True 4 (VMCI_MAKE_HANDLE 5 9) (insert_entry 100 (demo_left a) demo_qp)"
  shows "broker_inv s"
proof -
  let ?h = "VMCI_MAKE_HANDLE 5 9"
  let ?t = "insert_entry 100 (demo_left a) demo_qp"
  have demo: "broker_inv demo_qp" using broker_reachable [OF demo_qp_reachable] .
  have n: "QueuePairList_FindEntry (qe_handle (demo_left a)) demo_qp = None" using demo_qp_facts(4) .
  have l: "100 \<notin> set (qp_list demo_qp)" by (simp add: demo_qp_def)
  have e: "qe_ok (demo_left a)" by (simp add: qe_ok_def demo_left_def new_entry_def)
  have qp: "qp_inv ?t"
    using demo by (intro insert_entry_inv [OF _ n e]) (simp_all add: broker_inv_def demo_left_def new_entry_def demo_qp_def)
  have dg: "dg_inv ?t" using demo_qp_inv by (simp add: insert_entry_def QueuePairList_AddEntry_def)
  have none: "\<not> attached demo_qp c k" for c k by (simp add: attached_def demo_qp_facts)
  have c4: "cx_cid (ctx_mem demo_qp 4) = 6" "4 \<in> ctx_live demo_qp" "\<not> member_of demo_qp 4 ?h"
    by (simp_all add: demo_qp_def demo_vm_def new_context_def member_of_def demo_array_def live_def)
  have "attached ?t c k \<longleftrightarrow> attached demo_qp c k \<or> c = cx_cid (ctx_mem demo_qp 4) \<and> k = ?h" for c k
    by (auto simp: attached_insert [OF n l] none c4)
  from arrays_add [OF _ _ dg c4(2,3) none this] have "arrays_ok s"
    using demo by (simp add: s_def broker_inv_def same_arrays_def)
  with qp dg show ?thesis by (simp add: s_def broker_inv_def)
qed

theorem unpinned_release_crashes_witness:
  "case demo_create of None \<Rightarrow> False | Some (r0, x, s) \<Rightarrow>
   case QueuePair_SetPageStore demo_env demo_sp (VMCI_MAKE_HANDLE 5 9) (Some demo_store) (Some 3) s of None \<Rightarrow> False
   | Some (r, s1) \<Rightarrow> QueuePair_Detach demo_env True True (VMCI_MAKE_HANDLE 5 9) (Some 4) True
       (add_queuepair True 4 (VMCI_MAKE_HANDLE 5 9) (insert_entry 100 (demo_left (qe_attach (qp_mem s1 100))) demo_qp)) = None"
proof -
  let ?h = "VMCI_MAKE_HANDLE 5 9"
  let ?e = "new_entry ?h 6 0 4096 8192 (demo_vm 5 524288) 101 102 103"
  let ?s = "add_queuepair True 3 ?h (insert_entry 100 ?e demo_qp)"
  have "qp_step demo_env demo_qp ?s"
    using qp_step.alloc [OF demo_qp_facts(1,2)] demo_create_eq unfolding QueuePair_Alloc_Host by blast
  then have inv: "dg_inv ?s" using broker_step broker_reachable [OF demo_qp_reachable] by (auto simp: broker_inv_def)
  have c3: "cx_queuePairArray (ctx_mem ?s 3) = VMCIHandleArray_AppendEntry True demo_array ?h"
    "cx_cid (ctx_mem ?s 3) = 5" "\<not> VMCIContext_SupportsHostQP ?s (Some 3)"
    by (simp_all add: add_queuepair_def demo_qp_def demo_vm_def new_context_def VMCIContext_SupportsHostQP_def)
  have f: "QueuePairList_FindEntry ?h ?s = Some 100"
    using FindEntry_insert [of ?e demo_qp 100 ?h] demo_qp_facts(4) by (simp add: new_entry_def demo_qp_def)
  have e: "qp_mem ?s 100 = ?e" by simp
  have l3: "3 \<in> ctx_live ?s" "member_of ?s 3 ?h" "?h \<noteq> VMCI_INVALID_HANDLE"
    using demo_append [of ?h] by (simp_all add: demo_qp_facts member_of_def c3)
  have "\<exists>s1. QueuePair_SetPageStore demo_env demo_sp ?h (Some demo_store) (Some 3) ?s = Some (VMCI_SUCCESS, s1)"
    by (rule store_works [OF inv l3(1) c3(3) l3(2,3) f])
      (simp_all add: demo_qp_facts new_entry_def demo_vm_def new_context_def demo_store_def demo_sp_def)
  then obtain s1 where s1: "QueuePair_SetPageStore demo_env demo_sp ?h (Some demo_store) (Some 3) ?s = Some (VMCI_SUCCESS, s1)"
    by blast
  let ?s2 = "add_queuepair True 4 ?h (insert_entry 100 (demo_left (qe_attach (qp_mem s1 100))) demo_qp)"
  have "QueuePairList_FindEntry ?h ?s2 = Some 100"
    using FindEntry_insert [of "demo_left (qe_attach (qp_mem s1 100))" demo_qp 100 ?h] demo_qp_facts(4) by simp
  moreover have "4 \<in> ctx_live ?s2" "member_of ?s2 4 ?h" "VMCIContext_SupportsHostQP ?s2 (Some 4)"
    "qp_mem ?s2 100 = demo_left (qe_attach (qp_mem s1 100))"
    using demo_append [of ?h] by (simp_all add: add_queuepair_def member_of_def VMCIContext_SupportsHostQP_def)
  ultimately have two: "4 \<in> ctx_live ?s2" "QueuePairList_FindEntry ?h ?s2 = Some 100" "member_of ?s2 4 ?h"
    "VMCIContext_SupportsHostQP ?s2 (Some 4)" "qp_mem ?s2 100 = demo_left (qe_attach (qp_mem s1 100))"
    by blast+
  have "ai_producePages (qe_attach (qp_mem ?s 100)) = NoPages"
    unfolding e by (simp add: new_entry_def new_attach_def)
  then have "QueuePair_Detach demo_env True True ?h (Some 4) True ?s2 = None"
    using unpinned_release_crashes [OF inv l3(1) f c3(3) _ s1 demo_left_inv two(1,2) l3(3)] two(3-5) by simp
  then show ?thesis using s1 by (simp add: demo_create_eq)
qed

end
