(* ===== verification/QueueRing.thy ===== *)
theory QueueRing
  imports QueuePair
begin

text \<open>
  The rings of a queue pair: \<open>vmci-only/include/vmci_queue_pair.h\<close> and the page-wise copies
  of \<open>vmci-only/linux/vmciKernelIf.c\<close>.  A queue has a header, shared with the peer, and
  pages for its bytes.  The bytes go from the producer's queue \<open>produceQueue\<close>, whose header holds
  the tail, to the consumer, whose own queue holds the head.  Offsets are 64 bit words.

  A result \<open>None\<close> is a crash of the kernel: a header that is not mapped, or a page that is not
  there, is followed.
\<close>

record VMCIQueueHeader =
  qh_handle :: VMCIHandle
  qh_producerTail :: u64
  qh_consumerHead :: u64

record VMCIQueue =
  vq_header :: "VMCIQueueHeader option" \<comment> \<open>\<open>None\<close>: the queue is not mapped\<close>
  vq_page :: "u8 list list"

abbreviation (input) VMCI_ERROR_INVALID_SIZE :: int where "VMCI_ERROR_INVALID_SIZE \<equiv> -24"
abbreviation (input) MAX_INT64 :: u64 where "MAX_INT64 \<equiv> 0x7fffffffffffffff"

section \<open>The pointers\<close>

definition AddPointer :: "u64 \<Rightarrow> u64 \<Rightarrow> u64 \<Rightarrow> u64" where
  "AddPointer var add sz =
     (let newVal = var; newVal = (if sz - add \<le> newVal then newVal - sz else newVal) in newVal + add)"

definition VMCIQueue_ProducerTail :: "VMCIQueue \<Rightarrow> u64 option" where
  "VMCIQueue_ProducerTail q = map_option qh_producerTail (vq_header q)"

definition VMCIQueue_ConsumerHead :: "VMCIQueue \<Rightarrow> u64 option" where
  "VMCIQueue_ConsumerHead q = map_option qh_consumerHead (vq_header q)"

definition VMCIQueue_AddProducerTail :: "VMCIQueue \<Rightarrow> u64 \<Rightarrow> u64 \<Rightarrow> VMCIQueue option" where
  "VMCIQueue_AddProducerTail q add queueSize = map_option (\<lambda>h. q\<lparr>vq_header :=
     Some (h\<lparr>qh_producerTail := AddPointer (qh_producerTail h) add queueSize\<rparr>)\<rparr>) (vq_header q)"

definition VMCIQueue_AddConsumerHead :: "VMCIQueue \<Rightarrow> u64 \<Rightarrow> u64 \<Rightarrow> VMCIQueue option" where
  "VMCIQueue_AddConsumerHead q add queueSize = map_option (\<lambda>h. q\<lparr>vq_header :=
     Some (h\<lparr>qh_consumerHead := AddPointer (qh_consumerHead h) add queueSize\<rparr>)\<rparr>) (vq_header q)"

definition VMCIQueue_GetPointers :: "VMCIQueue \<Rightarrow> VMCIQueue \<Rightarrow> (u64 \<times> u64) option" where
  "VMCIQueue_GetPointers produceQ consumeQ =
     (case (VMCIQueue_ProducerTail produceQ, VMCIQueue_ConsumerHead consumeQ) of
        (Some tail, Some head) \<Rightarrow> Some (tail, head) | _ \<Rightarrow> None)"

definition VMCIQueue_ResetPointers :: "VMCIQueue \<Rightarrow> VMCIQueue option" where
  "VMCIQueue_ResetPointers q = map_option (\<lambda>h. q\<lparr>vq_header :=
     Some (h\<lparr>qh_producerTail := 0, qh_consumerHead := 0\<rparr>)\<rparr>) (vq_header q)"

definition VMCIQueue_Init :: "VMCIHandle \<Rightarrow> VMCIQueue \<Rightarrow> VMCIQueue option" where
  "VMCIQueue_Init handle queue =
     (case vq_header queue of None \<Rightarrow> Some queue
      | Some h \<Rightarrow> VMCIQueue_ResetPointers (queue\<lparr>vq_header := Some (h\<lparr>qh_handle := handle\<rparr>)\<rparr>))"

section \<open>Free space\<close>

text \<open>The result code and \<open>freeSpace\<close>.\<close>

definition VMCIQueueFreeSpaceInt :: "VMCIQueue \<Rightarrow> VMCIQueue \<Rightarrow> u64 \<Rightarrow> (int \<times> u64) option" where
  "VMCIQueueFreeSpaceInt produceQueue consumeQueue produceQSize =
     (if vq_header produceQueue = None \<and> vq_header consumeQueue = None
      then Some (VMCI_ERROR_QUEUEPAIR_NOTATTACHED, 0)
      else case VMCIQueue_GetPointers produceQueue consumeQueue of None \<Rightarrow> None
      | Some (tail, head) \<Rightarrow> Some (
          if produceQSize \<le> tail \<or> produceQSize \<le> head then (VMCI_ERROR_INVALID_SIZE, 0)
          else if head \<le> tail then (VMCI_SUCCESS, produceQSize - (tail - head) - 1)
          else (VMCI_SUCCESS, head - tail - 1)))"

definition VMCIQueue_FreeSpace :: "VMCIQueue \<Rightarrow> VMCIQueue \<Rightarrow> u64 \<Rightarrow> int option" where
  "VMCIQueue_FreeSpace produceQueue consumeQueue produceQSize =
     (case VMCIQueueFreeSpaceInt produceQueue consumeQueue produceQSize of None \<Rightarrow> None
      | Some (retval, freeSpace) \<Rightarrow> Some (if retval \<noteq> VMCI_SUCCESS then retval else sint (min freeSpace MAX_INT64)))"

definition VMCIQueue_BufReady :: "VMCIQueue \<Rightarrow> VMCIQueue \<Rightarrow> u64 \<Rightarrow> int option" where
  "VMCIQueue_BufReady consumeQueue produceQueue consumeQSize =
     (if vq_header produceQueue = None \<and> vq_header consumeQueue = None
      then Some VMCI_ERROR_QUEUEPAIR_NODATA
      else case VMCIQueueFreeSpaceInt consumeQueue produceQueue consumeQSize of None \<Rightarrow> None
      | Some (retval, freeSpace) \<Rightarrow>
          Some (if retval \<noteq> VMCI_SUCCESS then retval
                else sint (min (consumeQSize - freeSpace - 1) MAX_INT64)))"

section \<open>Copying by pages\<close>

text \<open>
  The sources of a copy: \<open>rd n k\<close> are the next \<open>k\<close> bytes after the first \<open>n\<close> of the buffer or
  iovec, as many as could be read, with an error code (0 for a plain buffer).  \<open>wr n bs\<close> is the
  error code of storing \<open>bs\<close> there.
\<close>

type_synonym reader = "nat \<Rightarrow> nat \<Rightarrow> u8 list \<times> int"
type_synonym writer = "nat \<Rightarrow> u8 list \<Rightarrow> int"

definition page_chunk :: "u64 \<Rightarrow> u64 \<Rightarrow> u64 \<Rightarrow> u64" where
  "page_chunk queueOffset sz bytesCopied =
     (let pageOffset = (queueOffset + bytesCopied) AND (PAGE_SIZE - 1)
      in if PAGE_SIZE - pageOffset < sz - bytesCopied then PAGE_SIZE - pageOffset else sz - bytesCopied)"

lemma page_chunk_bounds:
  assumes "bytesCopied < sz"
  shows "0 < page_chunk queueOffset sz bytesCopied" "page_chunk queueOffset sz bytesCopied \<le> sz - bytesCopied"
proof -
  let ?o = "(queueOffset + bytesCopied) AND (PAGE_SIZE - 1)"
  have "?o \<le> PAGE_SIZE - 1" by (rule word_and_le1)
  then have "?o \<noteq> PAGE_SIZE" by auto
  then have "0 < PAGE_SIZE - ?o" by (simp add: word_gt_0)
  moreover have "0 < sz - bytesCopied" using assms by (simp add: word_gt_0)
  ultimately show "0 < page_chunk queueOffset sz bytesCopied"
    and "page_chunk queueOffset sz bytesCopied \<le> sz - bytesCopied"
    by (simp_all add: page_chunk_def Let_def less_imp_le)
qed

function to_queue :: "reader \<Rightarrow> u64 \<Rightarrow> u64 \<Rightarrow> u64 \<Rightarrow> u8 list list \<Rightarrow> (int \<times> u8 list list) option" where
  "to_queue rd queueOffset sz bytesCopied pages =
     (if sz \<le> bytesCopied then Some (0, pages)
      else let pageIndex = unat ((queueOffset + bytesCopied) div PAGE_SIZE);
               pageOffset = unat ((queueOffset + bytesCopied) AND (PAGE_SIZE - 1));
               toCopy = page_chunk queueOffset sz bytesCopied
      in if length pages \<le> pageIndex then None
         else let (bs, err) = rd (unat bytesCopied) (unat toCopy);
                  pages' = pages[pageIndex := write_at pageOffset bs (pages ! pageIndex)]
         in if err \<noteq> 0 then Some (err, pages')
            else to_queue rd queueOffset sz (bytesCopied + toCopy) pages')"
  by pat_completeness auto

lemma chunk_progress:
  assumes "bytesCopied < sz"
  shows "unat (bytesCopied + page_chunk queueOffset sz bytesCopied)
      = unat bytesCopied + unat (page_chunk queueOffset sz bytesCopied)"
    and "unat bytesCopied + unat (page_chunk queueOffset sz bytesCopied) \<le> unat sz"
    and "0 < unat (page_chunk queueOffset sz bytesCopied)"
proof -
  let ?c = "page_chunk queueOffset sz bytesCopied"
  have "unat ?c \<le> unat (sz - bytesCopied)"
    using page_chunk_bounds(2) [OF assms] by (simp add: word_le_nat_alt)
  also have "\<dots> = unat sz - unat bytesCopied" using assms by (simp add: unat_sub less_imp_le)
  finally show le: "unat bytesCopied + unat ?c \<le> unat sz" using assms by (simp add: word_less_nat_alt)
  have "unat sz < 2 ^ LENGTH(64)" by (rule unsigned_less)
  with le show "unat (bytesCopied + ?c) = unat bytesCopied + unat ?c" by (simp add: unat_word_ariths)
  show "0 < unat ?c" using page_chunk_bounds(1) [OF assms] by (simp add: word_less_nat_alt)
qed

termination to_queue
proof (relation "measure (\<lambda>(rd, queueOffset, sz, bytesCopied, pages). unat sz - unat bytesCopied)", goal_cases)
  case (2 rd queueOffset sz bytesCopied pages)
  then have "bytesCopied < sz" by simp
  from chunk_progress [OF this, of queueOffset] 2 show ?case by auto
qed simp

text \<open>The bytes delivered so far are \<open>out\<close>.\<close>

function from_queue :: "writer \<Rightarrow> u64 \<Rightarrow> u64 \<Rightarrow> u64 \<Rightarrow> u8 list list \<Rightarrow> u8 list \<Rightarrow> (int \<times> u8 list) option" where
  "from_queue wr queueOffset sz bytesCopied pages out =
     (if sz \<le> bytesCopied then Some (0, out)
      else let pageIndex = unat ((queueOffset + bytesCopied) div PAGE_SIZE);
               pageOffset = unat ((queueOffset + bytesCopied) AND (PAGE_SIZE - 1));
               toCopy = page_chunk queueOffset sz bytesCopied
      in if length pages \<le> pageIndex then None
         else let bs = take (unat toCopy) (drop pageOffset (pages ! pageIndex));
                  err = wr (unat bytesCopied) bs
         in if err \<noteq> 0 then Some (err, out)
            else from_queue wr queueOffset sz (bytesCopied + toCopy) pages (out @ bs))"
  by pat_completeness auto

termination from_queue
proof (relation "measure (\<lambda>(wr, queueOffset, sz, bytesCopied, pages, out). unat sz - unat bytesCopied)", goal_cases)
  case (2 wr queueOffset sz bytesCopied pages out)
  then have "bytesCopied < sz" by simp
  from chunk_progress [OF this, of queueOffset] 2 show ?case by auto
qed simp

declare to_queue.simps [simp del] from_queue.simps [simp del]

definition VMCIMemcpyToQueue :: "VMCIQueue \<Rightarrow> u64 \<Rightarrow> reader \<Rightarrow> u64 \<Rightarrow> u64 \<Rightarrow> (int \<times> VMCIQueue) option" where
  "VMCIMemcpyToQueue queue queueOffset src srcOffset sz =
     map_option (\<lambda>(r, pages). (r, queue\<lparr>vq_page := pages\<rparr>))
       (to_queue (\<lambda>n k. src (unat srcOffset + n) k) queueOffset sz 0 (vq_page queue))"

definition VMCIMemcpyFromQueue :: "writer \<Rightarrow> u64 \<Rightarrow> VMCIQueue \<Rightarrow> u64 \<Rightarrow> u64 \<Rightarrow> (int \<times> u8 list) option" where
  "VMCIMemcpyFromQueue dest destOffset queue queueOffset sz =
     from_queue (\<lambda>n bs. dest (unat destOffset + n) bs) queueOffset sz 0 (vq_page queue) []"

section \<open>Enqueueing and dequeueing\<close>

text \<open>
  The results of the copies are not looked at.  A \<open>ssize_t\<close> result; the sizes of rings are
  below \<open>2 ^ 63\<close>.
\<close>

definition Enqueue_copy :: "VMCIQueue \<Rightarrow> u64 \<Rightarrow> u64 \<Rightarrow> reader \<Rightarrow> u64 \<Rightarrow> VMCIQueue option" where
  "Enqueue_copy q tail written buf produceQSize =
     (if tail + written < produceQSize then map_option snd (VMCIMemcpyToQueue q tail buf 0 written)
      else let tmp = produceQSize - tail
      in case VMCIMemcpyToQueue q tail buf 0 tmp of None \<Rightarrow> None
         | Some (_, q1) \<Rightarrow> map_option snd (VMCIMemcpyToQueue q1 0 buf tmp (written - tmp)))"

definition VMCIQueue_Enqueue :: "VMCIQueue \<Rightarrow> VMCIQueue \<Rightarrow> u64 \<Rightarrow> reader \<Rightarrow> u64 \<Rightarrow> (int \<times> VMCIQueue) option" where
  "VMCIQueue_Enqueue produceQueue consumeQueue produceQSize buf bufSize =
     (if vq_header produceQueue = None \<and> vq_header consumeQueue = None
      then Some (VMCI_ERROR_QUEUEPAIR_NOTATTACHED, produceQueue)
      else case VMCIQueue_FreeSpace produceQueue consumeQueue produceQSize of None \<Rightarrow> None
      | Some freeSpace \<Rightarrow>
          if freeSpace = 0 then Some (VMCI_ERROR_QUEUEPAIR_NOSPACE, produceQueue)
          else if freeSpace < 0 then Some (freeSpace, produceQueue)
          else let written = min (word_of_int freeSpace) bufSize
          in case VMCIQueue_ProducerTail produceQueue of None \<Rightarrow> None
          | Some tail \<Rightarrow>
              (case Enqueue_copy produceQueue tail written buf produceQSize of None \<Rightarrow> None
               | Some q1 \<Rightarrow> map_option (\<lambda>q2. (sint written, q2)) (VMCIQueue_AddProducerTail q1 written produceQSize)))"

definition Dequeue_copy :: "VMCIQueue \<Rightarrow> u64 \<Rightarrow> u64 \<Rightarrow> writer \<Rightarrow> u64 \<Rightarrow> u8 list option" where
  "Dequeue_copy q head written buf consumeQSize =
     (if head + written < consumeQSize then map_option snd (VMCIMemcpyFromQueue buf 0 q head written)
      else let tmp = consumeQSize - head
      in case VMCIMemcpyFromQueue buf 0 q head tmp of None \<Rightarrow> None
         | Some (_, out1) \<Rightarrow> map_option (\<lambda>(_, out2). out1 @ out2) (VMCIMemcpyFromQueue buf tmp q 0 (written - tmp)))"

text \<open>The result, the bytes stored in the buffer, and the caller's queue with the new head.\<close>

definition dequeue_int :: "VMCIQueue \<Rightarrow> VMCIQueue \<Rightarrow> u64 \<Rightarrow> writer \<Rightarrow> u64 \<Rightarrow> bool \<Rightarrow> (int \<times> u8 list \<times> VMCIQueue) option" where
  "dequeue_int produceQueue consumeQueue consumeQSize buf bufSize updateConsumer =
     (if vq_header produceQueue = None \<and> vq_header consumeQueue = None
      then Some (VMCI_ERROR_QUEUEPAIR_NODATA, [], produceQueue)
      else case VMCIQueue_BufReady consumeQueue produceQueue consumeQSize of None \<Rightarrow> None
      | Some bufReady \<Rightarrow>
          if bufReady = 0 then Some (VMCI_ERROR_QUEUEPAIR_NODATA, [], produceQueue)
          else if bufReady < 0 then Some (bufReady, [], produceQueue)
          else let written = min (word_of_int bufReady) bufSize
          in case VMCIQueue_ConsumerHead produceQueue of None \<Rightarrow> None
          | Some head \<Rightarrow>
              (case Dequeue_copy consumeQueue head written buf consumeQSize of None \<Rightarrow> None
               | Some out \<Rightarrow>
                   if updateConsumer
                   then map_option (\<lambda>q. (sint written, out, q)) (VMCIQueue_AddConsumerHead produceQueue written consumeQSize)
                   else Some (sint written, out, produceQueue)))"

definition VMCIQueue_Dequeue :: "VMCIQueue \<Rightarrow> VMCIQueue \<Rightarrow> u64 \<Rightarrow> writer \<Rightarrow> u64 \<Rightarrow> (int \<times> u8 list \<times> VMCIQueue) option" where
  "VMCIQueue_Dequeue produceQueue consumeQueue consumeQSize buf bufSize =
     dequeue_int produceQueue consumeQueue consumeQSize buf bufSize True"

definition VMCIQueue_Peek :: "VMCIQueue \<Rightarrow> VMCIQueue \<Rightarrow> u64 \<Rightarrow> writer \<Rightarrow> u64 \<Rightarrow> (int \<times> u8 list \<times> VMCIQueue) option" where
  "VMCIQueue_Peek produceQueue consumeQueue consumeQSize buf bufSize =
     dequeue_int produceQueue consumeQueue consumeQSize buf bufSize False"

section \<open>Pages are one flat buffer\<close>

definition pages_ok :: "u8 list list \<Rightarrow> bool" where
  "pages_ok pages \<longleftrightarrow> (\<forall>p \<in> set pages. length p = 4096)"

lemma pages_length: "pages_ok pages \<Longrightarrow> length (concat pages) = 4096 * length pages"
  by (induction pages) (auto simp: pages_ok_def)

lemma pages_take: "pages_ok pages \<Longrightarrow> pages_ok (take i pages)" "pages_ok pages \<Longrightarrow> pages_ok (drop i pages)"
  by (auto simp: pages_ok_def dest: in_set_takeD in_set_dropD)

lemma write_at_app:
  "length xs = i \<Longrightarrow> j + length bs \<le> length ys \<Longrightarrow> xs @ write_at j bs ys @ zs = write_at (i + j) bs (xs @ ys @ zs)"
  by (simp add: write_at_def)

lemma concat_page:
  assumes ok: "pages_ok pages" and i: "i < length pages"
  shows "concat pages = concat (take i pages) @ pages ! i @ concat (drop (Suc i) pages)"
    and "length (concat (take i pages)) = 4096 * i" and "length (pages ! i) = 4096"
proof -
  show "concat pages = concat (take i pages) @ pages ! i @ concat (drop (Suc i) pages)"
    using arg_cong [OF id_take_nth_drop [OF i], of concat] by simp
  show "length (concat (take i pages)) = 4096 * i" using pages_length [OF pages_take(1) [OF ok]] i by simp
  show "length (pages ! i) = 4096" using ok i by (auto simp: pages_ok_def)
qed

lemma concat_write:
  assumes ok: "pages_ok pages" and i: "i < length pages" and j: "j + length bs \<le> 4096"
  shows "concat (pages[i := write_at j bs (pages ! i)]) = write_at (4096 * i + j) bs (concat pages)"
    and "pages_ok (pages[i := write_at j bs (pages ! i)])"
proof -
  have "concat (pages[i := write_at j bs (pages ! i)])
      = concat (take i pages) @ write_at j bs (pages ! i) @ concat (drop (Suc i) pages)"
    using i by (simp add: upd_conv_take_nth_drop)
  also have "\<dots> = write_at (4096 * i + j) bs (concat pages)"
    unfolding concat_page(1) [OF ok i] using j concat_page(2,3) [OF ok i] by (intro write_at_app) simp_all
  finally show "concat (pages[i := write_at j bs (pages ! i)]) = write_at (4096 * i + j) bs (concat pages)" .
  show "pages_ok (pages[i := write_at j bs (pages ! i)])"
    using ok j concat_page(3) [OF ok i] by (auto simp: pages_ok_def dest: set_update_subset_insert [THEN subsetD])
qed

lemma write_at_write_at:
  "length xs = c \<Longrightarrow> i + c + length ys \<le> length b
    \<Longrightarrow> write_at (i + c) ys (write_at i xs b) = write_at i (xs @ ys) b"
  by (simp add: write_at_def min_def ac_simps)

lemma read_page:
  assumes ok: "pages_ok pages" and i: "i < length pages" and j: "j + n \<le> 4096"
  shows "take n (drop j (pages ! i)) = take n (drop (4096 * i + j) (concat pages))"
  unfolding concat_page(1) [OF ok i] using j concat_page(2,3) [OF ok i] by simp

lemma page_offset: "unat (x AND (PAGE_SIZE - 1)) = unat x mod 4096" for x :: u64
proof -
  have "PAGE_SIZE - 1 = (mask 12 :: u64)" by (simp add: mask_eq_exp_minus_1)
  then have "unat (x AND (PAGE_SIZE - 1)) = unat (take_bit 12 x)" by (simp only: take_bit_eq_mask)
  also have "\<dots> = take_bit 12 (unat x)" by (simp only: unsigned_take_bit_eq)
  also have "\<dots> = unat x mod 4096" by (simp add: take_bit_eq_mod)
  finally show ?thesis .
qed

lemma page_index: "unat (x div PAGE_SIZE) = unat x div 4096" for x :: u64
proof -
  have "unat PAGE_SIZE = 4096" by simp
  then show ?thesis by (simp only: unat_div)
qed

lemma unat_plus_small: "unat x + unat y < 2 ^ 64 \<Longrightarrow> unat (x + y) = unat x + unat y" for x y :: u64
  by (simp add: unat_word_ariths)

lemma unat64_less: "unat x < 2 ^ 64" for x :: u64
proof -
  have "unat x < 2 ^ LENGTH(64)" by (rule unsigned_less)
  then show ?thesis by simp
qed

lemma chunk_in_page:
  assumes "bytesCopied < sz" "unat queueOffset + unat sz < 2 ^ 64"
  shows "unat (queueOffset + bytesCopied) mod 4096 + unat (page_chunk queueOffset sz bytesCopied) \<le> 4096"
proof -
  let ?o = "(queueOffset + bytesCopied) AND (PAGE_SIZE - 1)"
  have m: "unat ?o = unat (queueOffset + bytesCopied) mod 4096" by (rule page_offset)
  have "unat ?o < 4096" unfolding m by simp
  then have "?o \<le> PAGE_SIZE" by (simp add: word_le_nat_alt)
  then have "unat (PAGE_SIZE - ?o) = 4096 - unat ?o" by (subst unat_sub) simp_all
  moreover have "page_chunk queueOffset sz bytesCopied \<le> PAGE_SIZE - ?o"
    by (simp add: page_chunk_def Let_def not_less)
  ultimately have "unat (page_chunk queueOffset sz bytesCopied) \<le> 4096 - unat ?o" by (simp only: word_le_nat_alt)
  with \<open>unat ?o < 4096\<close> show ?thesis unfolding m [symmetric] by simp
qed

lemma to_queue_flat:
  assumes "pages_ok pages" "unat queueOffset + unat sz \<le> 4096 * length pages" "unat queueOffset + unat sz < 2 ^ 64"
    and "length src = unat sz" "\<And>n k. n + k \<le> unat sz \<Longrightarrow> rd n k = (take k (drop n src), 0)" "bytesCopied \<le> sz"
  shows "\<exists>pages'. to_queue rd queueOffset sz bytesCopied pages = Some (0, pages') \<and> pages_ok pages'
    \<and> length pages' = length pages
    \<and> concat pages' = write_at (unat queueOffset + unat bytesCopied) (drop (unat bytesCopied) src) (concat pages)"
  using assms
proof (induction rd queueOffset sz bytesCopied pages rule: to_queue.induct)
  case (1 rd queueOffset sz bytesCopied pages)
  show ?case
  proof (cases "sz \<le> bytesCopied")
    case True
    with 1(7) have "bytesCopied = sz" by simp
    with 1 show ?thesis by (subst to_queue.simps) (simp add: write_at_def)
  next
    case False
    let ?c = "page_chunk queueOffset sz bytesCopied"
    let ?i = "unat ((queueOffset + bytesCopied) div PAGE_SIZE)"
    let ?j = "unat ((queueOffset + bytesCopied) AND (PAGE_SIZE - 1))"
    let ?bs = "take (unat ?c) (drop (unat bytesCopied) src)"
    let ?p = "pages[?i := write_at ?j ?bs (pages ! ?i)]"
    have lt: "bytesCopied < sz" using False by simp
    note pr = chunk_progress [OF lt, of queueOffset]
    have "unat bytesCopied < unat sz" using lt by (simp add: word_less_nat_alt)
    then have off: "unat (queueOffset + bytesCopied) = unat queueOffset + unat bytesCopied"
      using 1(4) by (intro unat_plus_small) linarith
    have ij: "4096 * ?i + ?j = unat queueOffset + unat bytesCopied"
      unfolding page_index page_offset off by (simp add: mult.commute)
    have len: "length ?bs = unat ?c" using pr(2) 1(5) by simp
    have i: "?i < length pages" using ij \<open>unat bytesCopied < unat sz\<close> 1(3) by linarith
    have j: "?j + length ?bs \<le> 4096" unfolding len page_offset by (rule chunk_in_page [OF lt 1(4)])
    note cw = concat_write [OF 1(2) i j]
    have rd: "rd (unat bytesCopied) (unat ?c) = (?bs, 0)" by (rule 1(6) [OF pr(2)])
    have step: "to_queue rd queueOffset sz bytesCopied pages = to_queue rd queueOffset sz (bytesCopied + ?c) ?p"
      using False i rd by (subst to_queue.simps) (simp add: Let_def)
    have "bytesCopied + ?c \<le> sz" using pr(1,2) by (simp add: word_le_nat_alt)
    then obtain pages' where IH: "to_queue rd queueOffset sz (bytesCopied + ?c) ?p = Some (0, pages')" "pages_ok pages'"
      "length pages' = length ?p"
      "concat pages' = write_at (unat queueOffset + unat (bytesCopied + ?c)) (drop (unat (bytesCopied + ?c)) src) (concat ?p)"
      using 1(1) [OF False refl refl refl _ rd [symmetric] refl refl] i cw(2) 1(3-6) by auto
    have "concat pages' = write_at (unat queueOffset + unat bytesCopied) (drop (unat bytesCopied) src) (concat pages)"
    proof -
      let ?m = "unat queueOffset + unat bytesCopied"
      have "drop (unat bytesCopied) src = ?bs @ drop (unat ?c) (drop (unat bytesCopied) src)"
        by (simp only: append_take_drop_id)
      also have "drop (unat ?c) (drop (unat bytesCopied) src) = drop (unat bytesCopied + unat ?c) src"
        by (simp add: add.commute)
      finally have split: "drop (unat bytesCopied) src = ?bs @ drop (unat bytesCopied + unat ?c) src" .
      have "?m + unat ?c + length (drop (unat bytesCopied + unat ?c) src) \<le> length (concat pages)"
        unfolding pages_length [OF 1(2)] using 1(3,5) pr(2) by simp
      from write_at_write_at [OF len this] show ?thesis
        unfolding IH(4) cw(1) ij pr(1) by (simp only: split [symmetric] add.assoc [symmetric])
    qed
    with step IH show ?thesis by simp
  qed
qed

lemma from_queue_flat:
  assumes "pages_ok pages" "unat queueOffset + unat sz \<le> 4096 * length pages" "unat queueOffset + unat sz < 2 ^ 64"
    and "\<And>n bs. wr n bs = 0" "bytesCopied \<le> sz"
  shows "from_queue wr queueOffset sz bytesCopied pages out = Some (0, out @
    take (unat sz - unat bytesCopied) (drop (unat queueOffset + unat bytesCopied) (concat pages)))"
  using assms
proof (induction wr queueOffset sz bytesCopied pages out rule: from_queue.induct)
  case (1 wr queueOffset sz bytesCopied pages out)
  show ?case
  proof (cases "sz \<le> bytesCopied")
    case True
    with 1(6) have "bytesCopied = sz" by simp
    then show ?thesis by (subst from_queue.simps) simp
  next
    case False
    let ?c = "page_chunk queueOffset sz bytesCopied"
    let ?i = "unat ((queueOffset + bytesCopied) div PAGE_SIZE)"
    let ?j = "unat ((queueOffset + bytesCopied) AND (PAGE_SIZE - 1))"
    let ?m = "unat queueOffset + unat bytesCopied"
    let ?bs = "take (unat ?c) (drop ?j (pages ! ?i))"
    have lt: "bytesCopied < sz" using False by simp
    note pr = chunk_progress [OF lt, of queueOffset]
    have less: "unat bytesCopied < unat sz" using lt by (simp add: word_less_nat_alt)
    then have off: "unat (queueOffset + bytesCopied) = ?m" using 1(4) by (intro unat_plus_small) linarith
    have ij: "4096 * ?i + ?j = ?m" unfolding page_index page_offset off by (simp add: mult.commute)
    have i: "?i < length pages" using ij less 1(3) by linarith
    have j: "?j + unat ?c \<le> 4096" unfolding page_offset by (rule chunk_in_page [OF lt 1(4)])
    have bs: "?bs = take (unat ?c) (drop ?m (concat pages))" unfolding read_page [OF 1(2) i j] ij ..
    have step: "from_queue wr queueOffset sz bytesCopied pages out
        = from_queue wr queueOffset sz (bytesCopied + ?c) pages (out @ ?bs)"
      using False i 1(5) by (subst from_queue.simps) (simp add: Let_def)
    have le: "bytesCopied + ?c \<le> sz" using pr(1,2) by (simp add: word_le_nat_alt)
    have IH: "from_queue wr queueOffset sz (bytesCopied + ?c) pages (out @ ?bs) = Some (0, (out @ ?bs) @
        take (unat sz - unat (bytesCopied + ?c)) (drop (unat queueOffset + unat (bytesCopied + ?c)) (concat pages)))"
      by (rule 1(1) [OF False refl refl refl _ refl refl]) (use i 1(2-5) le in simp_all)
    have "take (unat ?c) (drop ?m (concat pages)) @
        take (unat sz - (unat bytesCopied + unat ?c)) (drop (?m + unat ?c) (concat pages))
      = take (unat ?c + (unat sz - (unat bytesCopied + unat ?c))) (drop ?m (concat pages))"
      by (simp add: take_add add.commute)
    also have "unat ?c + (unat sz - (unat bytesCopied + unat ?c)) = unat sz - unat bytesCopied" using pr(2) by simp
    finally show ?thesis unfolding step IH unfolding bs pr(1) by (simp only: append_assoc add.assoc)
  qed
qed

section \<open>The ring holds a sequence of bytes\<close>

text \<open>The buffer source and sink of the plain (not iovec) variants.\<close>

definition buf_read :: "u8 list \<Rightarrow> reader" where
  "buf_read bs n k = (take k (drop n bs), 0)"

definition buf_write :: writer where
  "buf_write n bs = 0"

text \<open>Byte \<open>d\<close> after position \<open>i\<close> of a ring, and the bytes between its two pointers.\<close>

definition ring_nth :: "nat \<Rightarrow> nat \<Rightarrow> u8 list \<Rightarrow> nat \<Rightarrow> u8" where
  "ring_nth sz i flat d = flat ! ((i + d) mod sz)"

definition ring_contents :: "nat \<Rightarrow> nat \<Rightarrow> nat \<Rightarrow> u8 list \<Rightarrow> u8 list" where
  "ring_contents sz head tail flat = map (ring_nth sz head flat) [0 ..< (tail + sz - head) mod sz]"

definition ring_write :: "nat \<Rightarrow> nat \<Rightarrow> u8 list \<Rightarrow> u8 list \<Rightarrow> u8 list" where
  "ring_write sz tail bs flat =
     (if tail + length bs < sz then write_at tail bs flat
      else write_at 0 (drop (sz - tail) bs) (write_at tail (take (sz - tail) bs) flat))"

lemma ring_write_nth:
  assumes "tail < sz" "sz \<le> length flat" "length bs \<le> sz" "d < sz"
  shows "ring_nth sz tail (ring_write sz tail bs flat) d = (if d < length bs then bs ! d else ring_nth sz tail flat d)"
proof (cases "tail + length bs < sz")
  case True
  then show ?thesis
    using assms by (auto simp: ring_nth_def ring_write_def nth_write_at mod_if)
next
  case False
  let ?b = "write_at tail (take (sz - tail) bs) flat"
  have len: "length (take (sz - tail) bs) = sz - tail" "length (drop (sz - tail) bs) = length bs - (sz - tail)"
    using False assms by auto
  have b: "length ?b = length flat" using len assms by (intro length_write_at) simp
  have w: "ring_write sz tail bs flat ! j = (if j < length bs - (sz - tail) then bs ! (sz - tail + j)
      else if tail \<le> j \<and> j < sz then bs ! (j - tail) else flat ! j)" if "j < sz" for j
    using False assms that len by (simp add: ring_write_def nth_write_at b)
  have "(tail + d) mod sz = (if tail + d < sz then tail + d else tail + d - sz)" "(tail + d) mod sz < sz"
    using assms by (simp_all add: mod_if)
  with w [of "(tail + d) mod sz"] False assms show ?thesis by (auto simp: ring_nth_def)
qed

lemma ring_read:
  assumes "head < sz" "sz \<le> length flat" "n \<le> sz"
  shows "(if head + n < sz then take n (drop head flat)
      else take (sz - head) (drop head flat) @ take (n - (sz - head)) flat) = map (ring_nth sz head flat) [0 ..< n]"
proof (rule nth_equalityI)
  fix d assume "d < length (if head + n < sz then take n (drop head flat)
      else take (sz - head) (drop head flat) @ take (n - (sz - head)) flat)"
  then have d: "d < n" using assms by (auto split: if_splits)
  then have "(head + d) mod sz = (if head + d < sz then head + d else head + d - sz)" using assms by (simp add: mod_if)
  with d assms show "(if head + n < sz then take n (drop head flat)
      else take (sz - head) (drop head flat) @ take (n - (sz - head)) flat) ! d
    = map (ring_nth sz head flat) [0 ..< n] ! d"
    by (auto simp: ring_nth_def nth_append add.commute)
qed (use assms in auto)

lemma ring_dist:
  assumes "head < sz" "tail < (sz :: nat)"
  shows "(head + (tail + sz - head) mod sz) mod sz = tail" "(tail + sz - head) mod sz < sz"
  using assms by (simp_all add: mod_add_right_eq)

lemma ring_after_write:
  fixes sz :: nat
  assumes "head < sz" "tail < sz" "sz \<le> length flat" "(tail + sz - head) mod sz + length bs < sz"
  shows "ring_contents sz head ((tail + length bs) mod sz) (ring_write sz tail bs flat) = ring_contents sz head tail flat @ bs"
proof -
  define l where "l = (tail + sz - head) mod sz"
  let ?n = "length bs" and ?w = "ring_write sz tail bs flat"
  have room: "l + ?n < sz" and dist: "(head + l) mod sz = tail"
    using assms(4) ring_dist(1) [OF assms(1,2)] by (simp_all add: l_def)
  have shift: "x + sz - head = x + (sz - head)" for x using assms(1) by simp
  have "((tail + ?n) mod sz + sz - head) mod sz = (tail + ?n + (sz - head)) mod sz"
    unfolding shift by (rule mod_add_left_eq)
  also have "(tail + ?n + (sz - head)) mod sz = (tail + sz - head + ?n) mod sz" unfolding shift by (simp only: ac_simps)
  also have "\<dots> = (l + ?n) mod sz" unfolding l_def by (rule mod_add_left_eq [symmetric])
  also have "\<dots> = l + ?n" using room by simp
  finally have len: "((tail + ?n) mod sz + sz - head) mod sz = l + ?n" .
  have from_tail: "ring_nth sz head f k = ring_nth sz tail f ((k + sz - l) mod sz)" if "k < sz" for f k
  proof -
    have "(tail + (k + sz - l) mod sz) mod sz = ((head + l) mod sz + (k + sz - l)) mod sz"
      unfolding dist by (rule mod_add_right_eq)
    also have "\<dots> = (head + l + (k + sz - l)) mod sz" by (rule mod_add_left_eq)
    also have "head + l + (k + sz - l) = head + k + sz" using room by simp
    finally show ?thesis by (simp add: ring_nth_def)
  qed
  have "ring_nth sz head ?w k = (if k < l then ring_nth sz head flat k else bs ! (k - l))" if "k < l + ?n" for k
  proof -
    have k: "k < sz" using that room by simp
    have d: "(k + sz - l) mod sz = (if k < l then k + sz - l else k - l)"
      using k room by (simp add: mod_if)
    have "ring_nth sz head ?w k = (if (k + sz - l) mod sz < ?n then bs ! ((k + sz - l) mod sz)
        else ring_nth sz tail flat ((k + sz - l) mod sz))"
      unfolding from_tail [OF k] using assms room by (intro ring_write_nth) simp_all
    also have "ring_nth sz tail flat ((k + sz - l) mod sz) = ring_nth sz head flat k" using from_tail [OF k] by simp
    finally show ?thesis unfolding d using that room by auto
  qed
  then show ?thesis unfolding ring_contents_def len l_def [symmetric] by (auto intro!: nth_equalityI simp: nth_append)
qed

lemma ring_after_read:
  fixes sz :: nat
  assumes "head < sz" "tail < sz" "n \<le> (tail + sz - head) mod sz"
  shows "ring_contents sz head tail flat
    = map (ring_nth sz head flat) [0 ..< n] @ ring_contents sz ((head + n) mod sz) tail flat"
proof -
  let ?l = "(tail + sz - head) mod sz"
  let ?h = "(head + n) mod sz"
  have lt: "?l < sz" using assms by simp
  have "(?h + (?l - n)) mod sz = (head + n + (?l - n)) mod sz" by (rule mod_add_left_eq)
  then have "(?h + (?l - n)) mod sz = (head + ?l) mod sz" using assms(3) by simp
  then have t: "tail = (?h + (?l - n)) mod sz" using ring_dist(1) [OF assms(1,2)] by simp
  have "(tail + sz - ?h) mod sz = ?l - n"
  proof -
    have "(tail + sz - ?h) mod sz = (?h + (?l - n) + sz - ?h) mod sz"
      using lt assms(1) by (metis Nat.add_diff_assoc less_imp_le mod_add_left_eq mod_less_divisor t gr_implies_not0 neq0_conv)
    then show ?thesis using lt by simp
  qed
  then have "ring_contents sz ?h tail flat = map (\<lambda>k. ring_nth sz head flat (n + k)) [0 ..< ?l - n]"
    by (simp add: ring_contents_def ring_nth_def mod_add_left_eq add.assoc)
  also have "\<dots> = map (ring_nth sz head flat) [n ..< ?l]"
    using assms(3) by (intro nth_equalityI) auto
  finally have "ring_contents sz ?h tail flat = map (ring_nth sz head flat) [n ..< ?l]" .
  moreover have "[0 ..< ?l] = [0 ..< n] @ [n ..< ?l]" using upt_add_eq_append [of 0 n "?l - n"] assms(3) by simp
  ultimately show ?thesis unfolding ring_contents_def [of sz head] by (simp only: map_append)
qed

text \<open>
  A ring of \<open>sz\<close> bytes: \<open>p\<close> is the producer's queue with the bytes and the tail, \<open>c\<close> the
  consumer's with the head.
\<close>

definition ring_inv :: "u64 \<Rightarrow> VMCIQueue \<times> VMCIQueue \<Rightarrow> bool" where
  "ring_inv sz pc = (case pc of (p, c) \<Rightarrow>
     (case (vq_header p, vq_header c) of
        (Some hp, Some hc) \<Rightarrow> qh_producerTail hp < sz \<and> qh_consumerHead hc < sz
          \<and> pages_ok (vq_page p) \<and> unat sz \<le> 4096 * length (vq_page p) \<and> unat sz < 2 ^ 63
      | _ \<Rightarrow> False))"

definition ring_bytes :: "u64 \<Rightarrow> VMCIQueue \<times> VMCIQueue \<Rightarrow> u8 list" where
  "ring_bytes sz pc = (case pc of (p, c) \<Rightarrow>
     (case (vq_header p, vq_header c) of
        (Some hp, Some hc) \<Rightarrow>
          ring_contents (unat sz) (unat (qh_consumerHead hc)) (unat (qh_producerTail hp)) (concat (vq_page p))
      | _ \<Rightarrow> []))"

lemma AddPointer_mod:
  fixes var add sz :: u64
  assumes "var < sz" "add \<le> sz" "unat sz < 2 ^ 63"
  shows "unat (AddPointer var add sz) = (unat var + unat add) mod unat sz"
proof -
  have v: "unat var < unat sz" and a: "unat add \<le> unat sz" using assms by (simp_all add: word_less_nat_alt word_le_nat_alt)
  have sub: "unat (sz - add) = unat sz - unat add" using assms(2) by (simp add: unat_sub)
  show ?thesis
  proof (cases "sz - add \<le> var")
    case True
    then have ge: "unat sz \<le> unat var + unat add" using sub a by (simp add: word_le_nat_alt)
    have "var - sz + add = (var + add) - sz" by simp
    also have "unat (var + add) = unat var + unat add" using v a assms(3) by (intro unat_plus_small) simp
    then have "unat ((var + add) - sz) = unat var + unat add - unat sz"
      using ge by (subst unat_sub) (simp_all add: word_le_nat_alt)
    finally have "unat (AddPointer var add sz) = unat var + unat add - unat sz" using True by (simp add: AddPointer_def)
    also have "\<dots> = (unat var + unat add) mod unat sz" using ge v a by (simp add: mod_if [of "unat var + unat add"])
    finally show ?thesis .
  next
    case False
    then have lt: "unat var + unat add < unat sz" using sub a by (simp add: word_le_nat_alt not_le)
    then have "unat (var + add) = unat var + unat add" using assms(3) by (intro unat_plus_small) simp
    with False lt show ?thesis by (simp add: AddPointer_def)
  qed
qed

section \<open>The operations on the sequence\<close>

lemma ring_inv_D:
  assumes "ring_inv sz (p, c)"
  obtains hp hc where "vq_header p = Some hp" "vq_header c = Some hc" "qh_producerTail hp < sz" "qh_consumerHead hc < sz"
    "pages_ok (vq_page p)" "unat sz \<le> 4096 * length (vq_page p)" "unat sz < 2 ^ 63"
    "ring_bytes sz (p, c) = ring_contents (unat sz) (unat (qh_consumerHead hc)) (unat (qh_producerTail hp)) (concat (vq_page p))"
    "length (ring_bytes sz (p, c)) = (unat (qh_producerTail hp) + unat sz - unat (qh_consumerHead hc)) mod unat sz"
    "length (ring_bytes sz (p, c)) < unat sz"
proof -
  obtain hp hc where h: "vq_header p = Some hp" "vq_header c = Some hc" "qh_producerTail hp < sz" "qh_consumerHead hc < sz"
    "pages_ok (vq_page p)" "unat sz \<le> 4096 * length (vq_page p)" "unat sz < 2 ^ 63"
    using assms by (auto simp: ring_inv_def split: option.splits)
  then have b: "ring_bytes sz (p, c)
      = ring_contents (unat sz) (unat (qh_consumerHead hc)) (unat (qh_producerTail hp)) (concat (vq_page p))"
    by (simp add: ring_bytes_def)
  moreover have "0 < unat sz" using h(3) by (auto simp: word_less_nat_alt)
  ultimately show thesis by (intro that [OF h b]) (simp_all add: ring_contents_def)
qed

lemma sint64_small: "sint x = int (unat x)" if "unat x < 2 ^ 63" for x :: u64
proof -
  have "int (unat x) < 2 ^ 63"
    using that of_nat_less_iff [of "unat x" "2 ^ 63", where ?'a = int]
    by (simp del: of_nat_unat of_nat_less_iff)
  moreover have "- (2 ^ 63) \<le> int (unat x)" by (rule order_trans [of _ 0]) simp_all
  ultimately have "signed_take_bit 63 (int (unat x)) = int (unat x)"
    by (intro signed_take_bit_int_eq_self)
  then show ?thesis by (simp add: sint_uint)
qed

lemma FreeSpaceInt_eq:
  assumes "ring_inv sz (p, c)"
  shows "\<exists>n. VMCIQueueFreeSpaceInt p c sz = Some (VMCI_SUCCESS, n) \<and> unat n = unat sz - 1 - length (ring_bytes sz (p, c))"
proof -
  obtain hp hc where h: "vq_header p = Some hp" "vq_header c = Some hc" "qh_producerTail hp < sz" "qh_consumerHead hc < sz"
    "unat sz < 2 ^ 63"
    "length (ring_bytes sz (p, c)) = (unat (qh_producerTail hp) + unat sz - unat (qh_consumerHead hc)) mod unat sz"
    using ring_inv_D [OF assms] by metis
  let ?t = "qh_producerTail hp" and ?h = "qh_consumerHead hc"
  have lt: "unat ?t < unat sz" "unat ?h < unat sz" using h by (simp_all add: word_less_nat_alt)
  show ?thesis
  proof (cases "?h \<le> ?t")
    case True
    then have l: "length (ring_bytes sz (p, c)) = unat ?t - unat ?h"
      using h(6) lt by (simp add: word_le_nat_alt mod_if)
    have d: "unat (?t - ?h) = unat ?t - unat ?h" using True by (simp add: unat_sub)
    then have e: "unat (sz - (?t - ?h)) = unat sz - (unat ?t - unat ?h)"
      using lt by (subst unat_sub) (simp_all add: word_le_nat_alt)
    have "unat (sz - (?t - ?h) - 1) = unat sz - (unat ?t - unat ?h) - 1"
      using lt e by (subst unat_minus_one) auto
    then show ?thesis using True h(1-4) l by (auto simp: VMCIQueueFreeSpaceInt_def VMCIQueue_GetPointers_def
        VMCIQueue_ProducerTail_def VMCIQueue_ConsumerHead_def not_le)
  next
    case False
    then have less: "unat ?t < unat ?h" by (simp add: word_le_nat_alt)
    then have l: "length (ring_bytes sz (p, c)) = unat ?t + unat sz - unat ?h" using h(6) lt by (simp add: mod_if)
    have "unat (?h - ?t) = unat ?h - unat ?t" using False by (simp add: unat_sub)
    then have "unat (?h - ?t - 1) = unat ?h - unat ?t - 1" using less by (subst unat_minus_one) auto
    then show ?thesis using False h(1-4) l less lt by (auto simp: VMCIQueueFreeSpaceInt_def VMCIQueue_GetPointers_def
        VMCIQueue_ProducerTail_def VMCIQueue_ConsumerHead_def not_le)
  qed
qed

lemma small_min: "unat x < 2 ^ 63 \<Longrightarrow> sint (min x MAX_INT64) = int (unat x)" for x :: u64
proof -
  assume x: "unat x < 2 ^ 63"
  then have "x \<le> MAX_INT64" by (simp add: word_le_nat_alt)
  with x show ?thesis by (simp add: min_def sint64_small)
qed

lemma FreeSpace_eq:
  assumes "ring_inv sz (p, c)"
  shows "VMCIQueue_FreeSpace p c sz = Some (int (unat sz - 1 - length (ring_bytes sz (p, c))))"
proof -
  obtain n where n: "VMCIQueueFreeSpaceInt p c sz = Some (VMCI_SUCCESS, n)"
    "unat n = unat sz - 1 - length (ring_bytes sz (p, c))" using FreeSpaceInt_eq [OF assms] by blast
  obtain "unat sz < 2 ^ 63" using ring_inv_D [OF assms] by metis
  then have "unat n < 2 ^ 63" using n(2) by linarith
  with n show ?thesis by (simp add: VMCIQueue_FreeSpace_def small_min)
qed

lemma BufReady_eq:
  assumes "ring_inv sz (p, c)"
  shows "VMCIQueue_BufReady p c sz = Some (int (length (ring_bytes sz (p, c))))"
proof -
  let ?l = "length (ring_bytes sz (p, c))"
  obtain n where n: "VMCIQueueFreeSpaceInt p c sz = Some (VMCI_SUCCESS, n)" "unat n = unat sz - 1 - ?l"
    using FreeSpaceInt_eq [OF assms] by blast
  obtain hp where h: "vq_header p = Some hp" "unat sz < 2 ^ 63" "?l < unat sz" using ring_inv_D [OF assms] by metis
  have "unat (sz - n) = unat sz - unat n" using n(2) by (intro unat_sub) (simp add: word_le_nat_alt)
  then have e: "unat (sz - n) = Suc ?l" using n(2) h(3) by simp
  then have "unat (sz - n - 1) = ?l" by (subst unat_minus_one) auto
  moreover from this have "unat (sz - n - 1) < 2 ^ 63" using h by linarith
  ultimately show ?thesis using n h by (simp add: VMCIQueue_BufReady_def small_min)
qed

lemma read_split: "m + j \<le> n \<Longrightarrow> take j (drop m (take n (drop k bs))) = take j (drop (k + m) bs)"
  by (simp add: drop_take min_def add.commute)

lemma to_queue_buf:
  assumes "pages_ok (vq_page q)" "unat off + unat n \<le> 4096 * length (vq_page q)" "unat off + unat n < 2 ^ 64"
    and "unat k + unat n \<le> length bs"
  shows "\<exists>pages. VMCIMemcpyToQueue q off (buf_read bs) k n = Some (0, q\<lparr>vq_page := pages\<rparr>) \<and> pages_ok pages
    \<and> length pages = length (vq_page q)
    \<and> concat pages = write_at (unat off) (take (unat n) (drop (unat k) bs)) (concat (vq_page q))"
proof -
  let ?src = "take (unat n) (drop (unat k) bs)"
  have "\<exists>pages'. to_queue (\<lambda>m j. buf_read bs (unat k + m) j) off n 0 (vq_page q) = Some (0, pages') \<and> pages_ok pages'
    \<and> length pages' = length (vq_page q)
    \<and> concat pages' = write_at (unat off + unat (0 :: u64)) (drop (unat (0 :: u64)) ?src) (concat (vq_page q))"
    using assms by (intro to_queue_flat) (simp_all add: buf_read_def read_split)
  then show ?thesis by (auto simp: VMCIMemcpyToQueue_def)
qed

lemma Enqueue_copy_eq:
  assumes ok: "pages_ok (vq_page q)" "unat sz \<le> 4096 * length (vq_page q)" "unat sz < 2 ^ 63"
    and n: "unat t < unat sz" "unat n < unat sz" "unat n \<le> length bs"
  shows "\<exists>pages. Enqueue_copy q t n (buf_read bs) sz = Some (q\<lparr>vq_page := pages\<rparr>) \<and> pages_ok pages
    \<and> length pages = length (vq_page q) \<and> concat pages = ring_write (unat sz) (unat t) (take (unat n) bs) (concat (vq_page q))"
proof -
  have tn: "unat (t + n) = unat t + unat n" using n ok(3) by (intro unat_plus_small) simp
  show ?thesis
  proof (cases "t + n < sz")
    case True
    then have lt: "unat t + unat n < unat sz" using tn by (simp add: word_less_nat_alt)
    have "\<exists>pages. VMCIMemcpyToQueue q t (buf_read bs) 0 n = Some (0, q\<lparr>vq_page := pages\<rparr>) \<and> pages_ok pages
      \<and> length pages = length (vq_page q)
      \<and> concat pages = write_at (unat t) (take (unat n) (drop (unat (0 :: u64)) bs)) (concat (vq_page q))"
      using lt n ok by (intro to_queue_buf) auto
    with True lt n show ?thesis by (auto simp: Enqueue_copy_def ring_write_def)
  next
    case False
    then have ge: "unat sz \<le> unat t + unat n" using tn by (simp add: word_less_nat_alt)
    let ?k = "sz - t"
    have k: "unat ?k = unat sz - unat t" using n(1) by (intro unat_sub) (simp add: word_le_nat_alt)
    have m: "unat (n - ?k) = unat n - (unat sz - unat t)" using ge k by (subst unat_sub) (auto simp: word_le_nat_alt)
    have "\<exists>pages. VMCIMemcpyToQueue q t (buf_read bs) 0 ?k = Some (0, q\<lparr>vq_page := pages\<rparr>) \<and> pages_ok pages
      \<and> length pages = length (vq_page q)
      \<and> concat pages = write_at (unat t) (take (unat ?k) (drop (unat (0 :: u64)) bs)) (concat (vq_page q))"
      using k n ok ge by (intro to_queue_buf) auto
    then obtain ps where ps: "VMCIMemcpyToQueue q t (buf_read bs) 0 ?k = Some (0, q\<lparr>vq_page := ps\<rparr>)" "pages_ok ps"
      "length ps = length (vq_page q)" "concat ps = write_at (unat t) (take (unat ?k) bs) (concat (vq_page q))" by auto
    have "\<exists>pages. VMCIMemcpyToQueue (q\<lparr>vq_page := ps\<rparr>) 0 (buf_read bs) ?k (n - ?k) = Some (0, (q\<lparr>vq_page := ps\<rparr>)\<lparr>vq_page := pages\<rparr>)
      \<and> pages_ok pages \<and> length pages = length (vq_page (q\<lparr>vq_page := ps\<rparr>))
      \<and> concat pages = write_at (unat (0 :: u64)) (take (unat (n - ?k)) (drop (unat ?k) bs)) (concat (vq_page (q\<lparr>vq_page := ps\<rparr>)))"
      using ps k m n ok ge by (intro to_queue_buf) auto
    then obtain qs where qs: "VMCIMemcpyToQueue (q\<lparr>vq_page := ps\<rparr>) 0 (buf_read bs) ?k (n - ?k) = Some (0, q\<lparr>vq_page := qs\<rparr>)"
      "pages_ok qs" "length qs = length ps" "concat qs = write_at 0 (take (unat (n - ?k)) (drop (unat ?k) bs)) (concat ps)"
      by auto
    have "take (unat (n - ?k)) (drop (unat ?k) bs) = drop (unat sz - unat t) (take (unat n) bs)"
      "take (unat ?k) bs = take (unat sz - unat t) (take (unat n) bs)"
      unfolding m k using ge n by (auto simp: drop_take min_def)
    with False ps qs ge n show ?thesis by (auto simp: Enqueue_copy_def Let_def ring_write_def)
  qed
qed

lemma min_unat: "unat (min (word_of_int (int k)) n) = min k (unat n)" if "k < 2 ^ 63" for n :: u64
proof -
  have "unat (word_of_int (int k) :: u64) = k" using that by (simp add: unsigned_of_nat take_bit_nat_eq_self)
  then show ?thesis by (simp add: min_def word_le_nat_alt)
qed

lemma Enqueue_result:
  fixes bufSize :: u64
  assumes inv: "ring_inv sz (p, c)" and hp: "vq_header p = Some hp"
  defines "room \<equiv> unat sz - 1 - length (ring_bytes sz (p, c))"
  defines "n \<equiv> min (word_of_int (int room)) bufSize"
  defines "tail \<equiv> AddPointer (qh_producerTail hp) n sz"
  assumes room: "room \<noteq> 0" and copy: "Enqueue_copy p (qh_producerTail hp) n rd sz = Some (p\<lparr>vq_page := ps\<rparr>)"
  shows "VMCIQueue_Enqueue p c sz rd bufSize = Some (int (min room (unat bufSize)),
      p\<lparr>vq_page := ps, vq_header := Some (hp\<lparr>qh_producerTail := tail\<rparr>)\<rparr>)"
    and "unat n = min room (unat bufSize)"
    and "unat tail = (unat (qh_producerTail hp) + unat n) mod unat sz" and "tail < sz"
proof -
  obtain len: "length (ring_bytes sz (p, c)) < unat sz" and sz: "unat sz < 2 ^ 63"
    using ring_inv_D [OF inv] by metis
  have t: "qh_producerTail hp < sz" using inv hp by (auto simp: ring_inv_def split: option.splits)
  note fs = FreeSpace_eq [OF inv, folded room_def]
  have rl: "room < unat sz" using len by (simp add: room_def)
  show n: "unat n = min room (unat bufSize)" unfolding n_def using rl sz by (subst min_unat) auto
  then have "unat n < unat sz" using rl by simp
  then show add: "unat tail = (unat (qh_producerTail hp) + unat n) mod unat sz"
    unfolding tail_def using t sz by (intro AddPointer_mod) (simp_all add: word_le_nat_alt)
  then show "tail < sz" using rl by (simp add: word_less_nat_alt)
  have "sint n = int (unat n)" using n rl sz by (intro sint64_small) linarith
  then have sn: "sint n = int (min room (unat bufSize))" by (simp only: n)
  have nn: "min (word_of_nat room) bufSize = n" by (simp add: n_def)
  show "VMCIQueue_Enqueue p c sz rd bufSize = Some (int (min room (unat bufSize)),
      p\<lparr>vq_page := ps, vq_header := Some (hp\<lparr>qh_producerTail := tail\<rparr>)\<rparr>)"
    using room fs hp copy sn
    by (simp add: VMCIQueue_Enqueue_def VMCIQueue_ProducerTail_def VMCIQueue_AddProducerTail_def Let_def
        nn tail_def [symmetric])
qed

lemma Enqueue_correct:
  assumes inv: "ring_inv sz (p, c)" and bs: "length bs = unat bufSize"
  defines "room \<equiv> unat sz - 1 - length (ring_bytes sz (p, c))"
  shows "if room = 0 then VMCIQueue_Enqueue p c sz (buf_read bs) bufSize = Some (VMCI_ERROR_QUEUEPAIR_NOSPACE, p)
    else \<exists>p'. VMCIQueue_Enqueue p c sz (buf_read bs) bufSize = Some (int (min room (length bs)), p')
      \<and> ring_inv sz (p', c) \<and> ring_bytes sz (p', c) = ring_bytes sz (p, c) @ take room bs"
proof -
  obtain hp hc where h: "vq_header p = Some hp" "vq_header c = Some hc" "qh_producerTail hp < sz" "qh_consumerHead hc < sz"
    "pages_ok (vq_page p)" "unat sz \<le> 4096 * length (vq_page p)" "unat sz < 2 ^ 63"
    "ring_bytes sz (p, c) = ring_contents (unat sz) (unat (qh_consumerHead hc)) (unat (qh_producerTail hp)) (concat (vq_page p))"
    "length (ring_bytes sz (p, c)) = (unat (qh_producerTail hp) + unat sz - unat (qh_consumerHead hc)) mod unat sz"
    "length (ring_bytes sz (p, c)) < unat sz"
    using ring_inv_D [OF inv] by blast
  note fs = FreeSpace_eq [OF inv, folded room_def]
  show ?thesis
  proof (cases "room = 0")
    case True
    with fs h show ?thesis by (simp add: VMCIQueue_Enqueue_def)
  next
    case False
    let ?t = "qh_producerTail hp" and ?n = "min (word_of_int (int room)) bufSize :: u64"
    have rl: "room < unat sz" "room + length (ring_bytes sz (p, c)) < unat sz" using h(10) by (simp_all add: room_def)
    have n: "unat ?n = min room (length bs)" using rl h(7) bs by (subst min_unat) auto
    have tn: "unat ?t < unat sz" "unat ?n < unat sz" "unat ?n \<le> length bs" using h(3) rl n by (simp_all add: word_less_nat_alt)
    obtain ps where ps: "Enqueue_copy p ?t ?n (buf_read bs) sz = Some (p\<lparr>vq_page := ps\<rparr>)" "pages_ok ps"
      "length ps = length (vq_page p)" "concat ps = ring_write (unat sz) (unat ?t) (take (unat ?n) bs) (concat (vq_page p))"
      using Enqueue_copy_eq [OF h(5,6,7) tn] by blast
    let ?hp = "hp\<lparr>qh_producerTail := AddPointer ?t ?n sz\<rparr>"
    let ?p = "p\<lparr>vq_page := ps, vq_header := Some ?hp\<rparr>"
    note er = Enqueue_result [OF inv h(1), folded room_def, OF False ps(1)]
    note r = er(1) [folded bs] and add = er(3) and lt = er(4)
    have i: "ring_inv sz (?p, c)" using h ps lt by (simp add: ring_inv_def)
    have tk: "take (unat ?n) bs = take room bs" unfolding n by (simp add: min_def)
    have "ring_contents (unat sz) (unat (qh_consumerHead hc)) ((unat ?t + length (take (unat ?n) bs)) mod unat sz)
        (ring_write (unat sz) (unat ?t) (take (unat ?n) bs) (concat (vq_page p)))
      = ring_bytes sz (p, c) @ take (unat ?n) bs"
      unfolding h(8)
    proof (rule ring_after_write)
      show "(unat ?t + unat sz - unat (qh_consumerHead hc)) mod unat sz + length (take (unat ?n) bs) < unat sz"
        unfolding h(9) [symmetric] using rl n by auto
    qed (use h tn pages_length [OF h(5)] in \<open>simp_all add: word_less_nat_alt\<close>)
    then have "ring_bytes sz (?p, c) = ring_bytes sz (p, c) @ take room bs"
      using h(2) ps(4) add n tk by (simp add: ring_bytes_def)
    with False r i show ?thesis by auto
  qed
qed

lemma from_queue_buf:
  assumes "pages_ok (vq_page q)" "unat off + unat n \<le> 4096 * length (vq_page q)" "unat off + unat n < 2 ^ 64"
  shows "VMCIMemcpyFromQueue buf_write k q off n = Some (0, take (unat n) (drop (unat off) (concat (vq_page q))))"
  using from_queue_flat [OF assms, where wr = "\<lambda>m. buf_write (unat k + m)" and bytesCopied = 0 and out = "[]"]
  by (simp add: VMCIMemcpyFromQueue_def buf_write_def [abs_def])

lemma Dequeue_copy_eq:
  assumes ok: "pages_ok (vq_page q)" "unat sz \<le> 4096 * length (vq_page q)" "unat sz < 2 ^ 63"
    and n: "unat hx < unat sz" "unat n < unat sz"
  shows "Dequeue_copy q hx n buf_write sz = Some (map (ring_nth (unat sz) (unat hx) (concat (vq_page q))) [0 ..< unat n])"
proof -
  have tn: "unat (hx + n) = unat hx + unat n" using n ok(3) by (intro unat_plus_small) simp
  have len: "unat sz \<le> length (concat (vq_page q))" using ok pages_length [OF ok(1)] by simp
  note rr = ring_read [OF n(1) len less_imp_le [OF n(2)]]
  show ?thesis
  proof (cases "hx + n < sz")
    case True
    then have lt: "unat hx + unat n < unat sz" using tn by (simp add: word_less_nat_alt)
    then have "VMCIMemcpyFromQueue buf_write 0 q hx n = Some (0, take (unat n) (drop (unat hx) (concat (vq_page q))))"
      using ok by (intro from_queue_buf) auto
    with True lt rr show ?thesis by (simp add: Dequeue_copy_def)
  next
    case False
    then have ge: "unat sz \<le> unat hx + unat n" using tn by (simp add: word_less_nat_alt)
    let ?k = "sz - hx"
    have k: "unat ?k = unat sz - unat hx" using n(1) by (intro unat_sub) (simp add: word_le_nat_alt)
    have m: "unat (n - ?k) = unat n - (unat sz - unat hx)" using ge k by (subst unat_sub) (auto simp: word_le_nat_alt)
    have "VMCIMemcpyFromQueue buf_write 0 q hx ?k = Some (0, take (unat ?k) (drop (unat hx) (concat (vq_page q))))"
      using k n ok by (intro from_queue_buf) auto
    moreover have "VMCIMemcpyFromQueue buf_write ?k q 0 (n - ?k)
        = Some (0, take (unat (n - ?k)) (drop (unat (0 :: u64)) (concat (vq_page q))))"
      using m n ok by (intro from_queue_buf) auto
    ultimately show ?thesis using False ge rr k m by (simp add: Dequeue_copy_def Let_def)
  qed
qed

lemma split_take:
  assumes "xs = as @ bs" "length as = min (length xs) m"
  shows "as = take m xs" "bs = drop m xs"
  using assms by (auto simp: min_def split: if_splits)

lemma dequeue_correct:
  assumes inv: "ring_inv sz (p, c)"
  defines "bytes \<equiv> ring_bytes sz (p, c)"
  shows "if bytes = [] then dequeue_int c p sz buf_write bufSize upd = Some (VMCI_ERROR_QUEUEPAIR_NODATA, [], c)
    else \<exists>c'. dequeue_int c p sz buf_write bufSize upd
        = Some (int (min (length bytes) (unat bufSize)), take (unat bufSize) bytes, c')
      \<and> (if upd then ring_inv sz (p, c') \<and> ring_bytes sz (p, c') = drop (unat bufSize) bytes else c' = c)"
proof -
  obtain hp hc where h: "vq_header p = Some hp" "vq_header c = Some hc" "qh_producerTail hp < sz" "qh_consumerHead hc < sz"
    "pages_ok (vq_page p)" "unat sz \<le> 4096 * length (vq_page p)" "unat sz < 2 ^ 63"
    "bytes = ring_contents (unat sz) (unat (qh_consumerHead hc)) (unat (qh_producerTail hp)) (concat (vq_page p))"
    "length bytes = (unat (qh_producerTail hp) + unat sz - unat (qh_consumerHead hc)) mod unat sz"
    "length bytes < unat sz"
    using ring_inv_D [OF inv] unfolding bytes_def by blast
  note br = BufReady_eq [OF inv, folded bytes_def]
  show ?thesis
  proof (cases "bytes = []")
    case True
    with br h show ?thesis by (simp add: dequeue_int_def)
  next
    case False
    let ?h = "qh_consumerHead hc" and ?n = "min (word_of_int (int (length bytes))) bufSize :: u64"
    let ?flat = "concat (vq_page p)"
    have n: "unat ?n = min (length bytes) (unat bufSize)" using h(7,10) by (intro min_unat) linarith
    have hn: "unat ?h < unat sz" "unat ?n < unat sz" using h(4,10) n by (simp_all add: word_less_nat_alt)
    let ?hc = "hc\<lparr>qh_consumerHead := AddPointer ?h ?n sz\<rparr>"
    let ?c = "if upd then c\<lparr>vq_header := Some ?hc\<rparr> else c"
    have split: "bytes = map (ring_nth (unat sz) (unat ?h) ?flat) [0 ..< unat ?n]
        @ ring_contents (unat sz) ((unat ?h + unat ?n) mod unat sz) (unat (qh_producerTail hp)) ?flat"
    proof (rule trans [OF h(8) ring_after_read [OF hn(1)]])
      show "unat (qh_producerTail hp) < unat sz" using h(3) by (simp add: word_less_nat_alt)
      show "unat ?n \<le> (unat (qh_producerTail hp) + unat sz - unat ?h) mod unat sz"
        unfolding h(9) [symmetric] n by simp
    qed
    have out: "map (ring_nth (unat sz) (unat ?h) ?flat) [0 ..< unat ?n] = take (unat bufSize) bytes"
      "ring_contents (unat sz) ((unat ?h + unat ?n) mod unat sz) (unat (qh_producerTail hp)) ?flat = drop (unat bufSize) bytes"
      by (rule split_take [OF split]; simp only: length_map length_upt n diff_zero)+
    have add: "unat (AddPointer ?h ?n sz) = (unat ?h + unat ?n) mod unat sz"
      using h(4,7) hn(2) by (intro AddPointer_mod) (simp_all add: word_le_nat_alt)
    then have lt: "AddPointer ?h ?n sz < sz" using hn(1) by (simp add: word_less_nat_alt)
    have "sint ?n = int (unat ?n)" using n h(7,10) by (intro sint64_small) linarith
    then have sn: "sint ?n = int (min (length bytes) (unat bufSize))" by (simp only: n)
    have r: "dequeue_int c p sz buf_write bufSize upd = Some (int (min (length bytes) (unat bufSize)), take (unat bufSize) bytes, ?c)"
      using False br h(2) Dequeue_copy_eq [OF h(5-7) hn] sn out(1)
      by (simp add: dequeue_int_def VMCIQueue_ConsumerHead_def VMCIQueue_AddConsumerHead_def Let_def)
    have "ring_inv sz (p, c\<lparr>vq_header := Some ?hc\<rparr>)" using h lt by (simp add: ring_inv_def)
    moreover have "ring_bytes sz (p, c\<lparr>vq_header := Some ?hc\<rparr>) = drop (unat bufSize) bytes"
      using h(1) out(2) add by (simp add: ring_bytes_def)
    ultimately show ?thesis using False r by auto
  qed
qed

section \<open>The interface of a byte stream\<close>

text \<open>
  What the two sides of a ring rely on: a put appends a prefix of its bytes, and a nonempty one
  unless the stream is full; a get takes a prefix of what is there.  \<open>r\<close> is the result code,
  the number of bytes or an error.
\<close>

datatype 'b stream_op = Put "'b list" | Get u64

fun stream_run :: "('b list \<Rightarrow> 's \<Rightarrow> (int \<times> 's) option) \<Rightarrow> (u64 \<Rightarrow> 's \<Rightarrow> (int \<times> 'b list \<times> 's) option)
    \<Rightarrow> 'b stream_op list \<Rightarrow> 's \<Rightarrow> ('b list \<times> 'b list \<times> 's) option" where
  "stream_run put get [] s = Some ([], [], s)"
| "stream_run put get (Put bs # ops) s =
     (case put bs s of None \<Rightarrow> None
      | Some (r, s1) \<Rightarrow> map_option (\<lambda>(i, o', t). (take (nat r) bs @ i, o', t)) (stream_run put get ops s1))"
| "stream_run put get (Get n # ops) s =
     (case get n s of None \<Rightarrow> None
      | Some (r, out, s1) \<Rightarrow> map_option (\<lambda>(i, o', t). (i, out @ o', t)) (stream_run put get ops s1))"

definition puts_fit :: "'b stream_op list \<Rightarrow> bool" where
  "puts_fit ops \<longleftrightarrow> (\<forall>bs. Put bs \<in> set ops \<longrightarrow> length bs < 2 ^ 64)"

locale byte_stream =
  fixes inv :: "'s \<Rightarrow> bool" and bytes :: "'s \<Rightarrow> 'b list" and cap :: nat
    and put :: "'b list \<Rightarrow> 's \<Rightarrow> (int \<times> 's) option" and get :: "u64 \<Rightarrow> 's \<Rightarrow> (int \<times> 'b list \<times> 's) option"
  assumes bounded: "inv s \<Longrightarrow> length (bytes s) \<le> cap"
    and put_law: "inv s \<Longrightarrow> length bs < 2 ^ 64 \<Longrightarrow> \<exists>r s'. put bs s = Some (r, s') \<and> inv s'
      \<and> bytes s' = bytes s @ take (nat r) bs
      \<and> (r > 0 \<longleftrightarrow> bs \<noteq> [] \<and> length (bytes s) < cap)"
    and get_law: "inv s \<Longrightarrow> \<exists>r s'. get n s = Some (r, take (unat n) (bytes s), s') \<and> inv s'
      \<and> bytes s' = drop (unat n) (bytes s) \<and> (bytes s = [] \<longrightarrow> r < 0)"
begin

lemma stream:
  assumes "inv s" "puts_fit ops"
  shows "\<exists>i o' t. stream_run put get ops s = Some (i, o', t) \<and> inv t \<and> bytes s @ i = o' @ bytes t"
  using assms
proof (induction ops arbitrary: s)
  case (Cons op ops)
  then have fit: "puts_fit ops" by (simp add: puts_fit_def)
  show ?case
  proof (cases op)
    case (Put bs)
    with Cons.prems have "length bs < 2 ^ 64" by (simp add: puts_fit_def)
    then obtain r s1 where "put bs s = Some (r, s1)" "inv s1" "bytes s1 = bytes s @ take (nat r) bs"
      using put_law [OF Cons.prems(1)] by blast
    with Cons.IH [OF this(2) fit] Put show ?thesis by auto
  next
    case (Get n)
    obtain r s1 where s1: "get n s = Some (r, take (unat n) (bytes s), s1)" "inv s1" "bytes s1 = drop (unat n) (bytes s)"
      using get_law [OF Cons.prems(1)] by blast
    then obtain i o' t where IH: "stream_run put get ops s1 = Some (i, o', t)" "inv t" "bytes s1 @ i = o' @ bytes t"
      using Cons.IH [OF s1(2) fit] by blast
    have "bytes s @ i = (take (unat n) (bytes s) @ o') @ bytes t"
      using IH(3) s1(3) by (metis append_assoc append_take_drop_id)
    with Get s1(1) IH show ?thesis by simp
  qed
qed simp

lemma drained:
  assumes "inv s" "n \<noteq> 0" "length (bytes s) \<le> k"
  shows "\<exists>t. stream_run put get (replicate k (Get n)) s = Some ([], bytes s, t) \<and> inv t \<and> bytes t = []"
  using assms
proof (induction k arbitrary: s)
  case (Suc k)
  obtain r s1 where s1: "get n s = Some (r, take (unat n) (bytes s), s1)" "inv s1" "bytes s1 = drop (unat n) (bytes s)"
    using get_law [OF Suc.prems(1)] by blast
  have "0 < unat n" using Suc.prems(2) by (simp add: unat_gt_0)
  then have "length (bytes s1) \<le> k" using s1(3) Suc.prems(3) by simp
  from Suc.IH [OF s1(2) Suc.prems(2) this] s1 show ?case by auto
qed simp

lemma accepts_when_empty: "inv s \<Longrightarrow> bytes s = [] \<Longrightarrow> 0 < cap \<Longrightarrow> bs \<noteq> [] \<Longrightarrow> length bs < 2 ^ 64
    \<Longrightarrow> \<exists>r s'. put bs s = Some (r, s') \<and> 0 < r"
  using put_law [of s bs] by auto

end

definition ring_put :: "u64 \<Rightarrow> u8 list \<Rightarrow> VMCIQueue \<times> VMCIQueue \<Rightarrow> (int \<times> VMCIQueue \<times> VMCIQueue) option" where
  "ring_put sz bs = (\<lambda>(p, c). map_option (\<lambda>(r, p'). (r, (p', c)))
     (VMCIQueue_Enqueue p c sz (buf_read bs) (of_nat (length bs))))"

definition ring_get :: "u64 \<Rightarrow> u64 \<Rightarrow> VMCIQueue \<times> VMCIQueue \<Rightarrow> (int \<times> u8 list \<times> VMCIQueue \<times> VMCIQueue) option" where
  "ring_get sz n = (\<lambda>(p, c). map_option (\<lambda>(r, out, c'). (r, out, (p, c')))
     (VMCIQueue_Dequeue c p sz buf_write n))"

interpretation ring: byte_stream "ring_inv sz" "ring_bytes sz" "unat sz - 1" "ring_put sz" "ring_get sz" for sz
proof unfold_locales
  show "length (ring_bytes sz s) \<le> unat sz - 1" if inv: "ring_inv sz s" for s
  proof -
    obtain p c where s: "s = (p, c)" by fastforce
    obtain "length (ring_bytes sz (p, c)) < unat sz" using ring_inv_D inv unfolding s by metis
    then show ?thesis unfolding s by linarith
  qed
next
  fix s and bs :: "u8 list"
  assume inv: "ring_inv sz s" and len: "length bs < (2 :: nat) ^ 64"
  obtain p c where s: "s = (p, c)" by fastforce
  obtain lt: "length (ring_bytes sz (p, c)) < unat sz" using ring_inv_D inv unfolding s by metis
  have n: "length bs = unat (of_nat (length bs) :: u64)"
    using len by (simp add: unsigned_of_nat take_bit_nat_eq_self)
  let ?room = "unat sz - 1 - length (ring_bytes sz (p, c))"
  note eq = Enqueue_correct [OF inv [unfolded s] n]
  show "\<exists>r s'. ring_put sz bs s = Some (r, s') \<and> ring_inv sz s' \<and> ring_bytes sz s' = ring_bytes sz s @ take (nat r) bs
    \<and> (0 < r \<longleftrightarrow> bs \<noteq> [] \<and> length (ring_bytes sz s) < unat sz - 1)"
  proof (cases "?room = 0")
    case True
    with eq inv show ?thesis by (auto simp: s ring_put_def)
  next
    case False
    with eq obtain p' where p': "VMCIQueue_Enqueue p c sz (buf_read bs) (of_nat (length bs)) = Some (int (min ?room (length bs)), p')"
      "ring_inv sz (p', c)" "ring_bytes sz (p', c) = ring_bytes sz (p, c) @ take ?room bs" by auto
    moreover have "take ?room bs = take (min ?room (length bs)) bs" by (simp add: min_def)
    ultimately show ?thesis using False by (auto simp: s ring_put_def)
  qed
next
  fix s n
  assume inv: "ring_inv sz s"
  obtain p c where s: "s = (p, c)" by fastforce
  show "\<exists>r s'. ring_get sz n s = Some (r, take (unat n) (ring_bytes sz s), s') \<and> ring_inv sz s'
    \<and> ring_bytes sz s' = drop (unat n) (ring_bytes sz s) \<and> (ring_bytes sz s = [] \<longrightarrow> r < 0)"
    using dequeue_correct [OF inv [unfolded s], of n True] inv
    by (cases "ring_bytes sz (p, c) = []") (auto simp: s ring_get_def VMCIQueue_Dequeue_def)
qed

section \<open>Properties\<close>

text \<open>A ring of 5 bytes on one page: the tail has wrapped, and three bytes are there.\<close>

definition demo_ring :: "VMCIQueue \<times> VMCIQueue" where
  "demo_ring = (\<lparr>vq_header = Some \<lparr>qh_handle = VMCI_MAKE_HANDLE 5 9, qh_producerTail = 1, qh_consumerHead = 0\<rparr>,
       vq_page = [[30, 0, 0, 10, 20] @ replicate 4091 0]\<rparr>,
     \<lparr>vq_header = Some \<lparr>qh_handle = VMCI_MAKE_HANDLE 5 9, qh_producerTail = 0, qh_consumerHead = 3\<rparr>, vq_page = []\<rparr>)"

lemma demo_ring_facts: "ring_inv 5 demo_ring" "ring_bytes 5 demo_ring = [10, 20, 30]"
  by (simp_all add: demo_ring_def ring_inv_def pages_ok_def ring_bytes_def ring_contents_def ring_nth_def upt_rec)

text \<open>
  C17: Whatever producer and consumer do, the bytes delivered are the bytes accepted, in order,
  none lost and none twice; what was accepted and not yet delivered is in the ring, which never
  holds more than one byte less than its size.
\<close>

theorem ring_refines_stream:
  assumes "ring_inv sz s" "puts_fit ops"
  shows "\<exists>i o' t. stream_run (ring_put sz) (ring_get sz) ops s = Some (i, o', t) \<and> ring_inv sz t
    \<and> ring_bytes sz s @ i = o' @ ring_bytes sz t \<and> length (ring_bytes sz t) \<le> unat sz - 1"
  using ring.stream [OF assms] ring.bounded by blast

theorem ring_refines_stream_witness:
  "\<exists>i o' t. stream_run (ring_put 5) (ring_get 5) [Put [1, 2, 3], Get 2, Put [4]] demo_ring = Some (i, o', t)
    \<and> [10, 20, 30] @ i = o' @ ring_bytes 5 t"
  using ring_refines_stream [OF demo_ring_facts(1), of "[Put [1, 2, 3], Get 2, Put [4]]"] demo_ring_facts(2)
  by (auto simp: puts_fit_def)

text \<open>
  C18: A consumer that keeps asking gets everything: as many requests as there are bytes in the
  ring, of any nonzero size, empty it; and then the producer's next bytes are accepted again.
\<close>

theorem ring_drains:
  assumes "ring_inv sz s" "n \<noteq> 0" "1 < sz" "bs \<noteq> []" "length bs < 2 ^ 64"
  shows "\<exists>t. stream_run (ring_put sz) (ring_get sz) (replicate (length (ring_bytes sz s)) (Get n)) s
      = Some ([], ring_bytes sz s, t) \<and> ring_bytes sz t = [] \<and> (\<exists>r u. ring_put sz bs t = Some (r, u) \<and> 0 < r)"
proof -
  obtain t where t: "stream_run (ring_put sz) (ring_get sz) (replicate (length (ring_bytes sz s)) (Get n)) s
      = Some ([], ring_bytes sz s, t)" "ring_inv sz t" "ring_bytes sz t = []"
    using ring.drained [OF assms(1,2) order_refl] by blast
  have "0 < unat sz - 1" using assms(3) by (simp add: word_less_nat_alt)
  with ring.accepts_when_empty [OF t(2,3) _ assms(4,5)] t show ?thesis by blast
qed

theorem ring_drains_witness:
  "\<exists>t. stream_run (ring_put 5) (ring_get 5) [Get 2, Get 2, Get 2] demo_ring = Some ([], [10, 20, 30], t)
    \<and> ring_bytes 5 t = []"
  using ring_drains [OF demo_ring_facts(1), of 2 "[1]"] demo_ring_facts(2) by auto

text \<open>
  C19: The copies that go page by page are copies of one flat buffer: what is stored at an offset
  of the queue replaces those bytes of the pages laid end to end, and only those, and is read
  back as it was stored.
\<close>

theorem queue_copy_equivalence:
  assumes "pages_ok (vq_page q)" "unat off + unat n \<le> 4096 * length (vq_page q)" "unat off + unat n < 2 ^ 64"
    and "unat k + unat n \<le> length bs"
  defines "src \<equiv> take (unat n) (drop (unat k) bs)"
  shows "\<exists>pages. VMCIMemcpyToQueue q off (buf_read bs) k n = Some (0, q\<lparr>vq_page := pages\<rparr>)
    \<and> concat pages = write_at (unat off) src (concat (vq_page q))
    \<and> VMCIMemcpyFromQueue buf_write k q off n = Some (0, take (unat n) (drop (unat off) (concat (vq_page q))))
    \<and> VMCIMemcpyFromQueue buf_write k (q\<lparr>vq_page := pages\<rparr>) off n = Some (0, src)"
proof -
  obtain pages where to: "VMCIMemcpyToQueue q off (buf_read bs) k n = Some (0, q\<lparr>vq_page := pages\<rparr>)"
    "pages_ok pages" "length pages = length (vq_page q)" "concat pages = write_at (unat off) src (concat (vq_page q))"
    using to_queue_buf [OF assms(1-4)] unfolding src_def by blast
  have "length src = unat n" using assms(4) by (simp add: src_def)
  moreover have "unat off + unat n \<le> length (concat (vq_page q))" using assms(1,2) by (simp only: pages_length)
  ultimately have "take (unat n) (drop (unat off) (concat pages)) = src"
    unfolding to(4) by (simp add: write_at_def)
  with to from_queue_buf [OF assms(1-3)] from_queue_buf [where q = "q\<lparr>vq_page := pages\<rparr>" and off = off and n = n and k = k] assms(2,3)
  show ?thesis by auto
qed

definition demo_pages :: VMCIQueue where
  "demo_pages = \<lparr>vq_header = None, vq_page = [replicate 4096 0, replicate 4096 7]\<rparr>"

theorem queue_copy_equivalence_witness:
  "\<exists>pages. VMCIMemcpyToQueue demo_pages 4094 (buf_read [9, 1, 2, 3, 4]) 1 4 = Some (0, demo_pages\<lparr>vq_page := pages\<rparr>)
    \<and> concat pages = write_at 4094 [1, 2, 3, 4] (replicate 4096 0 @ replicate 4096 7)
    \<and> VMCIMemcpyFromQueue buf_write 1 (demo_pages\<lparr>vq_page := pages\<rparr>) 4094 4 = Some (0, [1, 2, 3, 4])"
  using queue_copy_equivalence [of demo_pages 4094 4 1 "[9, 1, 2, 3, 4]"]
  by (auto simp: demo_pages_def pages_ok_def)

lemma to_queue_fault:
  assumes "unat queueOffset < 4096 * length pages" "err \<noteq> 0"
  shows "\<exists>r. to_queue (\<lambda>n k. ([], err)) queueOffset n 0 pages = Some (r, pages)"
proof (cases "n = 0")
  case True
  then show ?thesis by (subst to_queue.simps) simp
next
  case False
  have "unat (queueOffset div PAGE_SIZE) < length pages" unfolding page_index using assms(1) by linarith
  with False assms(2) show ?thesis by (subst to_queue.simps) (simp add: Let_def write_at_def)
qed

lemma Enqueue_copy_fault:
  assumes "t < sz" "unat sz \<le> 4096 * length (vq_page q)" "err \<noteq> 0"
  shows "Enqueue_copy q t n (\<lambda>n k. ([], err)) sz = Some q"
proof -
  have "unat t < unat sz" using assms(1) by (simp add: word_less_nat_alt)
  then have lt: "unat t < 4096 * length (vq_page q)" using assms(2) by linarith
  then have lt0: "unat (0 :: u64) < 4096 * length (vq_page q)" by (simp only: unsigned_0)
  have copy: "\<exists>r. VMCIMemcpyToQueue q off (\<lambda>n k. ([], err)) k m = Some (r, q)"
    if "unat off < 4096 * length (vq_page q)" for off k m
    using to_queue_fault [OF that assms(3), of m] by (auto simp: VMCIMemcpyToQueue_def)
  show ?thesis
    using copy [OF lt, of 0 n] copy [OF lt, of 0 "sz - t"] copy [OF lt0, of "sz - t" "n - (sz - t)"]
    by (auto simp: Enqueue_copy_def Let_def)
qed

text \<open>What becomes readable when the tail moves by \<open>n\<close> over pages that have not changed.\<close>

lemma ring_stale:
  fixes sz :: nat
  assumes lt: "head < sz" "tail < sz" and fit: "(tail + sz - head) mod sz + n < sz" and len: "sz \<le> length flat"
  shows "\<exists>stale. length stale = n \<and> set stale \<subseteq> set flat
    \<and> ring_contents sz head ((tail + n) mod sz) flat = ring_contents sz head tail flat @ stale"
proof -
  let ?l = "(tail + sz - head) mod sz" and ?t = "(tail + n) mod sz"
  have "(?t + sz - head) mod sz = ((tail + n) mod sz + (sz - head)) mod sz" using lt by simp
  also have "\<dots> = (tail + n + (sz - head)) mod sz" by (rule mod_add_left_eq)
  also have "tail + n + (sz - head) = tail + sz - head + n" using lt by linarith
  also have "(tail + sz - head + n) mod sz = (?l + n) mod sz" by (rule mod_add_left_eq [symmetric])
  also have "\<dots> = ?l + n" using fit by (rule mod_less)
  finally have l: "(?t + sz - head) mod sz = ?l + n" .
  let ?stale = "map (ring_nth sz head flat) [?l ..< ?l + n]"
  have "ring_contents sz head ?t flat = ring_contents sz head tail flat @ ?stale"
    unfolding ring_contents_def l upt_add_eq_append [OF le0] by (rule map_append)
  moreover have "ring_nth sz head flat d \<in> set flat" for d
    unfolding ring_nth_def using lt len by (intro nth_mem order_less_le_trans [OF mod_less_divisor]) auto
  ultimately show ?thesis by (intro exI [of _ ?stale]) auto
qed

text \<open>
  C20: A producer whose buffer cannot be read is told that its bytes were sent: the fault of the
  copy is dropped, the tail moves, and the consumer receives whatever the pages held before.
\<close>

theorem enqueue_ignores_fault:
  fixes bufSize :: u64
  assumes inv: "ring_inv sz (p, c)" and err: "err \<noteq> 0"
  defines "room \<equiv> unat sz - 1 - length (ring_bytes sz (p, c))"
  assumes sent: "sent = min room (unat bufSize)" "0 < sent"
  shows "\<exists>p' stale. VMCIQueue_Enqueue p c sz (\<lambda>n k. ([], err)) bufSize = Some (int sent, p')
    \<and> vq_page p' = vq_page p \<and> length stale = sent \<and> set stale \<subseteq> set (concat (vq_page p))
    \<and> ring_inv sz (p', c) \<and> ring_bytes sz (p', c) = ring_bytes sz (p, c) @ stale"
proof -
  obtain hp hc where h: "vq_header p = Some hp" "vq_header c = Some hc" "qh_producerTail hp < sz" "qh_consumerHead hc < sz"
    "pages_ok (vq_page p)" "unat sz \<le> 4096 * length (vq_page p)" "unat sz < 2 ^ 63"
    "ring_bytes sz (p, c) = ring_contents (unat sz) (unat (qh_consumerHead hc)) (unat (qh_producerTail hp)) (concat (vq_page p))"
    "length (ring_bytes sz (p, c)) = (unat (qh_producerTail hp) + unat sz - unat (qh_consumerHead hc)) mod unat sz"
    "length (ring_bytes sz (p, c)) < unat sz"
    using ring_inv_D [OF inv] by blast
  have room: "room \<noteq> 0" using sent by auto
  let ?n = "min (word_of_int (int room)) bufSize" and ?t = "qh_producerTail hp"
  have "Enqueue_copy p ?t ?n (\<lambda>n k. ([], err)) sz = Some (p\<lparr>vq_page := vq_page p\<rparr>)"
    using Enqueue_copy_fault [OF h(3,6) err] by simp
  note er = Enqueue_result [OF inv h(1), folded room_def, OF room this]
  let ?p = "p\<lparr>vq_page := vq_page p, vq_header := Some (hp\<lparr>qh_producerTail := AddPointer ?t ?n sz\<rparr>)\<rparr>"
  have fit: "(unat ?t + unat sz - unat (qh_consumerHead hc)) mod unat sz + unat ?n < unat sz"
    unfolding h(9) [symmetric] er(2) using room h(10) unfolding room_def by linarith
  have lt: "unat (qh_consumerHead hc) < unat sz" "unat ?t < unat sz" "unat sz \<le> length (concat (vq_page p))"
    using h(3,4,6) pages_length [OF h(5)] by (simp_all add: word_less_nat_alt)
  obtain stale where stale: "length stale = unat ?n" "set stale \<subseteq> set (concat (vq_page p))"
    "ring_contents (unat sz) (unat (qh_consumerHead hc)) ((unat ?t + unat ?n) mod unat sz) (concat (vq_page p))
      = ring_bytes sz (p, c) @ stale"
    using ring_stale [OF lt(1,2) fit lt(3)] unfolding h(8) by blast
  have "ring_inv sz (?p, c)" using h er(4) by (simp add: ring_inv_def)
  moreover have "ring_bytes sz (?p, c) = ring_bytes sz (p, c) @ stale"
    using h(2) stale(3) er(3) by (simp add: ring_bytes_def)
  moreover have "vq_page ?p = vq_page p" by simp
  ultimately show ?thesis using er(1) stale(1,2) unfolding sent(1) er(2) by blast
qed

theorem enqueue_ignores_fault_witness:
  "\<exists>p' stale. VMCIQueue_Enqueue (fst demo_ring) (snd demo_ring) 5 (\<lambda>n k. ([], -14)) 9 = Some (1, p')
    \<and> vq_page p' = vq_page (fst demo_ring) \<and> length stale = 1
    \<and> ring_bytes 5 (p', snd demo_ring) = [10, 20, 30] @ stale"
proof -
  have inv: "ring_inv 5 (fst demo_ring, snd demo_ring)" using demo_ring_facts(1) by simp
  have room: "(1 :: nat) = min (unat (5 :: u64) - 1 - length (ring_bytes 5 (fst demo_ring, snd demo_ring))) (unat (9 :: u64))"
    using demo_ring_facts(2) by simp
  from enqueue_ignores_fault [OF inv _ room, of "-14"] show ?thesis
    by (simp only: prod.collapse demo_ring_facts(2)) fastforce
qed

end
