(* ===== verification/ContextTeardown.thy ===== *)
theory ContextTeardown
  imports QueuePairProps
begin

text \<open>
  The end of a context, and its restoration from a checkpoint: the parts of
  \<open>vmci-only/common/vmciContext.c\<close> that call datagrams, groups and queue pairs.
  \<open>VMCIContextFreeContext\<close> runs when the last reference is given back, after the context has
  left the list; \<open>env_free\<close> of the theory \<open>Datagram\<close> stands for it in the operations it calls
  itself, and the theorems show that none of them ever runs it again.
\<close>

abbreviation (input) VMCI_EVENT_CTX_REMOVED :: u32 where "VMCI_EVENT_CTX_REMOVED \<equiv> 1"

section \<open>Telling the subscribers\<close>

text \<open>
  The answers of the allocator during a teardown: the array of subscribers, its growth for a
  subscriber, the two allocations of an event to a handle and of the detach from a pair.
\<close>

record teardown_alloc =
  td_array :: bool
  td_grow :: "ptr \<Rightarrow> bool"
  td_event :: "VMCIHandle \<Rightarrow> bool \<times> bool"
  td_detach :: "VMCIHandle \<Rightarrow> bool \<times> bool"

definition ctx_removed_event :: "VMCIHandle \<Rightarrow> VMCIId \<Rightarrow> VMCIDatagram" where
  "ctx_removed_event dst contextID =
     \<lparr>dg_dst = dst, dg_src = VMCI_MAKE_HANDLE VMCI_HYPERVISOR_CONTEXT_ID VMCI_CONTEXT_RESOURCE_ID,
      dg_payloadSize = 16,
      dg_payload = le32 VMCI_EVENT_CTX_REMOVED @ replicate 4 0 @ le32 contextID @ replicate 4 0\<rparr>"

definition subscribed :: "VMCIId \<Rightarrow> VMCIPrivilegeFlags \<Rightarrow> VMCIContext \<Rightarrow> bool" where
  "subscribed contextID privFlags subCtx \<longleftrightarrow>
     VMCIHandleArray_HasEntry (cx_notifierArray subCtx) (VMCI_MAKE_HANDLE contextID VMCI_EVENT_HANDLER)
     \<and> \<not> VMCIDenyInteraction privFlags (cx_privFlags subCtx)"

fun collect_subscribers :: "teardown_alloc \<Rightarrow> VMCIId \<Rightarrow> VMCIPrivilegeFlags \<Rightarrow> (ptr \<Rightarrow> VMCIContext) \<Rightarrow> ptr list
    \<Rightarrow> VMCIHandleArray \<Rightarrow> VMCIHandleArray" where
  "collect_subscribers al contextID privFlags mem [] a = a"
| "collect_subscribers al contextID privFlags mem (q # qs) a =
     collect_subscribers al contextID privFlags mem qs
       (if subscribed contextID privFlags (mem q)
        then VMCIHandleArray_AppendEntry (td_grow al q) a (VMCI_MAKE_HANDLE (cx_cid (mem q)) VMCI_EVENT_HANDLER)
        else a)"

fun fire_all :: "'a qp_state_scheme env \<Rightarrow> teardown_alloc \<Rightarrow> VMCIId \<Rightarrow> VMCIHandle list
    \<Rightarrow> 'a qp_state_scheme \<Rightarrow> 'a qp_state_scheme" where
  "fire_all E al contextID [] s = s"
| "fire_all E al contextID (h # hs) s = fire_all E al contextID hs
     (snd (VMCIDatagram_Dispatch E (fst (td_event al h)) (snd (td_event al h)) VMCI_HYPERVISOR_CONTEXT_ID
       (ctx_removed_event h contextID) s))"

definition VMCIContextFireNotification ::
  "'a qp_state_scheme env \<Rightarrow> teardown_alloc \<Rightarrow> VMCIId \<Rightarrow> VMCIPrivilegeFlags \<Rightarrow> 'a qp_state_scheme
    \<Rightarrow> int \<times> 'a qp_state_scheme" where
  "VMCIContextFireNotification E al contextID privFlags s =
     (case VMCIHandleArray_Create (td_array al) 0 of None \<Rightarrow> (VMCI_ERROR_NO_MEM, s)
      | Some a0 \<Rightarrow>
          let a = collect_subscribers al contextID privFlags (ctx_mem s) (ctx_list s) a0;
              hs = map (\<lambda>i. VMCIHandleArray_GetEntry a (of_nat i)) [0 ..< unat (VMCIHandleArray_GetSize a)]
          in (VMCI_SUCCESS, fire_all E al contextID hs s))"

section \<open>Freeing a context\<close>

text \<open>The three loops over the arrays of the context; \<open>None\<close> if one does not end or crashes.\<close>

partial_function (option) drop_well_known ::
  "'a qp_state_scheme env \<Rightarrow> ptr \<Rightarrow> 'a qp_state_scheme \<Rightarrow> 'a qp_state_scheme option" where
  "drop_well_known E p s =
     (let r = VMCIHandleArray_RemoveTail (cx_wellKnownArray (ctx_mem s p));
          s1 = upd_ctx p (\<lambda>c. c\<lparr>cx_wellKnownArray := snd r\<rparr>) s
      in if VMCI_HANDLE_EQUAL (fst r) VMCI_INVALID_HANDLE then Some s1
         else drop_well_known E p
           (snd (VMCIDatagramRemoveWellKnownMap E (hresource (fst r)) (cx_cid (ctx_mem s1 p)) s1)))"

partial_function (option) drop_queue_pairs ::
  "'a qp_state_scheme env \<Rightarrow> teardown_alloc \<Rightarrow> ptr \<Rightarrow> 'a qp_state_scheme \<Rightarrow> 'a qp_state_scheme option" where
  "drop_queue_pairs E al p s =
     (let h = VMCIHandleArray_GetEntry (cx_queuePairArray (ctx_mem s p)) 0
      in if VMCI_HANDLE_EQUAL h VMCI_INVALID_HANDLE then Some s
         else case QueuePair_Detach E (fst (td_detach al h)) (snd (td_detach al h)) h (Some p) True s of
           None \<Rightarrow> None
         | Some (r, s1) \<Rightarrow>
             drop_queue_pairs E al p (if r < VMCI_SUCCESS then remove_queuepair p h s1 else s1))"

partial_function (option) drop_groups ::
  "'a qp_state_scheme env \<Rightarrow> ptr \<Rightarrow> 'a qp_state_scheme \<Rightarrow> 'a qp_state_scheme option" where
  "drop_groups E p s =
     (let r = VMCIHandleArray_RemoveTail (cx_groupArray (ctx_mem s p));
          s1 = upd_ctx p (\<lambda>c. c\<lparr>cx_groupArray := snd r\<rparr>) s
      in if VMCI_HANDLE_EQUAL (fst r) VMCI_INVALID_HANDLE then Some s1
         else drop_groups E p (snd (VMCIGroup_RemoveMember E (fst r)
           (VMCI_MAKE_HANDLE (cx_cid (ctx_mem s1 p)) VMCI_CONTEXT_RESOURCE_ID) s1)))"

definition VMCIUnsetNotify :: "VMCIContext \<Rightarrow> VMCIContext" where
  "VMCIUnsetNotify c = c\<lparr>cx_notify := None\<rparr>"

definition VMCIContextFreeContext ::
  "'a qp_state_scheme env \<Rightarrow> teardown_alloc \<Rightarrow> ptr \<Rightarrow> 'a qp_state_scheme \<Rightarrow> 'a qp_state_scheme option" where
  "VMCIContextFreeContext E al p s =
     (let s1 = snd (VMCIContextFireNotification E al (cx_cid (ctx_mem s p)) (cx_privFlags (ctx_mem s p)) s)
      in case drop_well_known E p s1 of None \<Rightarrow> None
         | Some s2 \<Rightarrow> (case drop_queue_pairs E al p s2 of None \<Rightarrow> None
         | Some s3 \<Rightarrow> (case drop_groups E p s3 of None \<Rightarrow> None
         | Some s4 \<Rightarrow> Some (upd_ctx p (\<lambda>c. VMCIUnsetNotify (c\<lparr>cx_datagramQueue := []\<rparr>)) s4
             \<lparr>ctx_live := ctx_live s4 - {p}\<rparr>))))"

section \<open>Restoring a checkpoint\<close>

text \<open>
  \<open>al i\<close>: for the \<open>i\<close>-th id, the address allocated for a mapping and whether the array can
  grow; \<open>i\<close> counts up to the number \<open>n\<close> of ids in the buffer.
\<close>

fun set_cpt_ids :: "'a dg_state_scheme env \<Rightarrow> (nat \<Rightarrow> ptr option \<times> bool) \<Rightarrow> VMCIId \<Rightarrow> u32 \<Rightarrow> VMCIId list \<Rightarrow> nat
    \<Rightarrow> 'a dg_state_scheme \<Rightarrow> int \<times> 'a dg_state_scheme" where
  "set_cpt_ids E al contextID cptType [] i s = (VMCI_SUCCESS, s)"
| "set_cpt_ids E al contextID cptType (currentID # ids) i s =
     (let (result, s1) = (if cptType = VMCI_NOTIFICATION_CPT_STATE
            then VMCIContext_AddNotification (env_free E) (snd (al i)) contextID currentID s
            else let (f, s1) = VMCIContext_GetPrivFlagsInt (env_free E) contextID s
                 in VMCIDatagramRequestWellKnownMap E (fst (al i)) (snd (al i)) currentID contextID f s1)
      in if result = VMCI_SUCCESS then set_cpt_ids E al contextID cptType ids (Suc i) s1 else (result, s1))"

definition VMCIContext_SetCheckpointState ::
  "'a dg_state_scheme env \<Rightarrow> (nat \<Rightarrow> ptr option \<times> bool) \<Rightarrow> VMCIId \<Rightarrow> u32 \<Rightarrow> u32 \<Rightarrow> u8 list
    \<Rightarrow> 'a dg_state_scheme \<Rightarrow> int \<times> 'a dg_state_scheme" where
  "VMCIContext_SetCheckpointState E al contextID cptType bufSize cptBuf s =
     (if cptType \<noteq> VMCI_NOTIFICATION_CPT_STATE \<and> cptType \<noteq> VMCI_WELLKNOWN_CPT_STATE
      then (VMCI_ERROR_INVALID_ARGS, s)
      else set_cpt_ids E al contextID cptType
             (map (\<lambda>i. rd32 cptBuf (4 * i)) [0 ..< unat (bufSize div 4)]) 0 s)"

section \<open>Events touch queues only\<close>

definition same_arrays_all :: "VMCIContext \<Rightarrow> VMCIContext \<Rightarrow> bool" where
  "same_arrays_all c d \<longleftrightarrow> same_ctx c d \<and> cx_wellKnownArray c = cx_wellKnownArray d
     \<and> cx_groupArray c = cx_groupArray d \<and> cx_notifierArray c = cx_notifierArray d"

definition notified :: "'a dg_state_scheme \<Rightarrow> 'a dg_state_scheme \<Rightarrow> bool" where
  "notified s t \<longleftrightarrow> (\<exists>m ev. t = s\<lparr>ctx_mem := m, events := ev\<rparr> \<and> (\<forall>q. same_arrays_all (m q) (ctx_mem s q)))"

lemma same_arrays_all_refl [simp]: "same_arrays_all c c"
  by (simp add: same_arrays_all_def)

lemma notified_refl [simp]: "notified s s"
  unfolding notified_def by (intro exI [of _ "ctx_mem s"] exI [of _ "events s"]) simp

lemma notified_trans:
  assumes "notified s t" "notified t u"
  shows "notified s u"
proof -
  obtain m ev where t: "t = s\<lparr>ctx_mem := m, events := ev\<rparr>" "\<And>q. same_arrays_all (m q) (ctx_mem s q)"
    using assms(1) by (auto simp: notified_def)
  obtain m' ev' where u: "u = t\<lparr>ctx_mem := m', events := ev'\<rparr>" "\<And>q. same_arrays_all (m' q) (ctx_mem t q)"
    using assms(2) by (auto simp: notified_def)
  have "same_arrays_all (m' q) (ctx_mem s q)" for q
    using t(2) [of q] u(2) [of q] by (simp add: t(1) same_arrays_all_def same_ctx_def)
  moreover have "u = s\<lparr>ctx_mem := m', events := ev'\<rparr>" unfolding u(1) t(1) by simp
  ultimately show ?thesis unfolding notified_def by blast
qed

lemma notified_events: "notified s (s\<lparr>events := ev\<rparr>)"
  unfolding notified_def by (intro exI [of _ "ctx_mem s"] exI [of _ ev]) simp

lemma notified_upd_ctx: "(\<And>c. same_arrays_all (f c) c) \<Longrightarrow> notified s (upd_ctx q f s)"
  unfolding notified_def
  by (intro exI [of _ "(ctx_mem s)(q := f (ctx_mem s q))"] exI [of _ "events s"]) (simp add: upd_ctx_def)

lemma notified_frame:
  assumes "notified s t"
  shows "ctx_list t = ctx_list s" "ctx_live t = ctx_live s" "same_arrays_all (ctx_mem t q) (ctx_mem s q)"
    "resourceTable t = resourceTable s" "cl_mem t = cl_mem s" "cl_live t = cl_live s"
    "wellKnownTable t = wellKnownTable s" "wk_live t = wk_live s" "dg_state.more t = dg_state.more s"
  using assms by (auto simp: notified_def)

lemma notified_quiet:
  fixes s t :: "'a qp_state_scheme"
  assumes "notified s t"
  shows "quiet s t"
  using assms by (auto simp: notified_def quiet_def same_arrays_all_def)

lemma enqueue_locked_arrays: "same_arrays_all (snd (enqueue_locked dg c)) c"
  by (simp add: same_arrays_all_def enqueue_locked_same enqueue_locked_fields)

text \<open>A datagram of the hypervisor for an event handler.\<close>

lemma dispatch_event:
  fixes s :: "'a dg_state_scheme"
  assumes inv: "dg_inv s" and fits: "dg_fits dg"
    and src: "hcontext (dg_src dg) = VMCI_HYPERVISOR_CONTEXT_ID" and dst: "hresource (dg_dst dg) = VMCI_EVENT_HANDLER"
  shows "notified s (snd (VMCIDatagram_Dispatch E new dq VMCI_HYPERVISOR_CONTEXT_ID dg s))
    \<and> dg_inv (snd (VMCIDatagram_Dispatch E new dq VMCI_HYPERVISOR_CONTEXT_ID dg s))"
proof -
  have cinv: "ctx_inv s" and einv: "event_inv (events s)" using inv by (simp_all add: dg_inv_def)
  have q: "notified s (upd_ctx q (\<lambda>c. snd (enqueue_locked dg c)) s)" for q
    by (intro notified_upd_ctx enqueue_locked_arrays)
  have i: "dg_inv (upd_ctx q (\<lambda>c. snd (enqueue_locked dg c)) s)" for q
    using cinv fits by (intro dg_inv_upd_ctx [OF inv] upd_ctx_fields_inv) (auto simp: enqueue_locked_fields enqueue_locked_inv)
  have host: "notified s (snd (deliver_host E dg f s)) \<and> dg_inv (snd (deliver_host E dg f s))" for f
    using inv VMCIEvent_Dispatch_inv [OF einv] src dst
    by (simp add: deliver_host_def split_beta notified_events dg_inv_def ctx_inv_def)
  have ctx: "notified s (snd (deliver_context E new dq 0 d dg f s)) \<and> dg_inv (snd (deliver_context E new dq 0 d dg f s))" for d f
    using inv q i cinv
    by (simp add: deliver_context_eq VMCIContext_EnqueueDatagram_eq split_beta split: option.split)
  show ?thesis
    using inv host ctx by (simp add: VMCIDatagram_Dispatch_eq split: option.split)
qed

lemma ctx_removed_event_simps [simp]:
  "dg_fits (ctx_removed_event h c)" "dg_dst (ctx_removed_event h c) = h"
  "dg_src (ctx_removed_event h c) = VMCI_MAKE_HANDLE 0 0" "VMCI_DG_SIZE (ctx_removed_event h c) = 40"
  by (simp_all add: ctx_removed_event_def dg_fits_def VMCI_DG_SIZE_def)

lemma fire_all_quiet:
  fixes s :: "'a qp_state_scheme"
  assumes "dg_inv s" "\<And>h. h \<in> set hs \<Longrightarrow> hresource h = VMCI_EVENT_HANDLER"
  shows "notified s (fire_all E al c hs s) \<and> dg_inv (fire_all E al c hs s)"
  using assms
proof (induction hs arbitrary: s)
  case (Cons h hs)
  let ?t = "snd (VMCIDatagram_Dispatch E (fst (td_event al h)) (snd (td_event al h)) 0 (ctx_removed_event h c) s)"
  have "notified s ?t \<and> dg_inv ?t" using Cons.prems by (intro dispatch_event) simp_all
  with Cons.IH [of ?t] Cons.prems(2) notified_trans show ?case by auto
qed simp

section \<open>Who is told\<close>

lemma collect_subscribers_correct:
  assumes "harr_inv a" "\<And>h. h \<in> set (live a) \<Longrightarrow> hresource h = VMCI_EVENT_HANDLER"
  shows "harr_inv (collect_subscribers al c pf mem qs a)
    \<and> (\<forall>h \<in> set (live (collect_subscribers al c pf mem qs a)). hresource h = VMCI_EVENT_HANDLER)"
  using assms
proof (induction qs arbitrary: a)
  case (Cons q qs)
  let ?b = "VMCIHandleArray_AppendEntry (td_grow al q) a (VMCI_MAKE_HANDLE (cx_cid (mem q)) VMCI_EVENT_HANDLER)"
  have "harr_inv ?b \<and> set (live ?b) \<subseteq> insert (VMCI_MAKE_HANDLE (cx_cid (mem q)) VMCI_EVENT_HANDLER) (set (live a))"
    using VMCIHandleArray_AppendEntry_correct [OF Cons.prems(1)] by auto
  then have b: "harr_inv ?b" "\<And>h. h \<in> set (live ?b) \<Longrightarrow> hresource h = VMCI_EVENT_HANDLER"
    using Cons.prems(2) by (blast, fastforce)
  show ?case
  proof (cases "subscribed c pf (mem q)")
    case True
    with Cons.IH [OF b] show ?thesis by simp
  next
    case False
    with Cons.IH [OF Cons.prems] show ?thesis by simp
  qed
qed simp

lemma append_room:
  fixes h :: VMCIHandle
  assumes inv: "harr_inv a" and cap: "unat (capacity a) \<le> max 4 (2 * length (live a))" and small: "length (live a) < 2 ^ 19"
  defines "b \<equiv> VMCIHandleArray_AppendEntry True a h"
  shows "harr_inv b" "live b = live a @ [h]" "unat (capacity b) \<le> max 4 (2 * length (live b))"
proof -
  have "append_stores True a"
    using cap small by (auto simp: append_stores_def VMCI_AllocKernelMem_def KMALLOC_MAX_SIZE_def)
  with VMCIHandleArray_AppendEntry_correct [OF inv, of True h]
  show b: "harr_inv b" "live b = live a @ [h]" unfolding b_def by simp_all
  have sz: "length (live a) = unat (asize a)" using inv by simp
  show "unat (capacity b) \<le> max 4 (2 * length (live b))"
  proof (cases "capacity a \<le> asize a")
    case True
    then have full: "unat (capacity a) = length (live a)"
      using inv sz by (simp add: harr_inv_def word_le_nat_alt)
    have "unat (capacity a * 2) = 2 * unat (capacity a)" using full small by (intro grow_size) simp
    then have "unat (capacity b) \<le> 2 * length (live a)"
      using full by (simp add: b_def VMCIHandleArray_AppendEntry_def Let_def store_entry_def)
    then show ?thesis unfolding b(2) by simp
  next
    case False
    then have "capacity b = capacity a" by (simp add: b_def VMCIHandleArray_AppendEntry_def store_entry_def)
    then show ?thesis using cap unfolding b(2) by simp
  qed
qed

lemma collect_subscribers_all:
  assumes "harr_inv a" "unat (capacity a) \<le> max 4 (2 * length (live a))" "length (live a) + length qs < 2 ^ 19"
    and "\<And>q. q \<in> set qs \<Longrightarrow> td_grow al q"
  shows "live (collect_subscribers al c pf mem qs a) = live a
    @ map (\<lambda>q. VMCI_MAKE_HANDLE (cx_cid (mem q)) VMCI_EVENT_HANDLER) (filter (\<lambda>q. subscribed c pf (mem q)) qs)"
  using assms
proof (induction qs arbitrary: a)
  case (Cons q qs)
  show ?case
  proof (cases "subscribed c pf (mem q)")
    case True
    let ?h = "VMCI_MAKE_HANDLE (cx_cid (mem q)) VMCI_EVENT_HANDLER"
    have "length (live a) < 2 ^ 19" using Cons.prems(3) by simp
    note b = append_room [OF Cons.prems(1,2) this, where h = ?h]
    have g: "td_grow al q = True" using Cons.prems(4) by simp
    have "length (live (VMCIHandleArray_AppendEntry True a ?h)) + length qs < 2 ^ 19"
      unfolding b(2) using Cons.prems(3) by simp
    from Cons.IH [OF b(1,3) this] Cons.prems(4) True b(2) g show ?thesis by simp
  qed (use Cons in simp)
qed simp

lemma FireNotification_eq:
  assumes "VMCIHandleArray_Create (td_array al) 0 = Some a0"
  shows "VMCIContextFireNotification E al c pf s
    = (VMCI_SUCCESS, fire_all E al c (live (collect_subscribers al c pf (ctx_mem s) (ctx_list s) a0)) s)"
proof -
  have "harr_inv a0" "live a0 = []" using assms by (auto intro: VMCIHandleArray_Create_inv)
  then have "harr_inv (collect_subscribers al c pf (ctx_mem s) (ctx_list s) a0)" using collect_subscribers_correct [of a0] by simp
  from VMCIHandleArray_ids [OF this, where f = "\<lambda>h. h"] show ?thesis
    using assms by (simp add: VMCIContextFireNotification_def Let_def VMCIHandleArray_GetSize_def)
qed

lemma FireNotification_quiet:
  fixes s :: "'a qp_state_scheme"
  assumes "dg_inv s"
  shows "notified s (snd (VMCIContextFireNotification E al c pf s)) \<and> dg_inv (snd (VMCIContextFireNotification E al c pf s))"
proof (cases "VMCIHandleArray_Create (td_array al) 0")
  case None
  with assms show ?thesis by (simp add: VMCIContextFireNotification_def)
next
  case (Some a0)
  then have a0: "harr_inv a0" "live a0 = []" by (auto intro: VMCIHandleArray_Create_inv)
  show ?thesis
    unfolding FireNotification_eq [OF Some] snd_conv
    using collect_subscribers_correct [OF a0(1)] a0(2) by (intro fire_all_quiet [OF assms]) simp
qed

text \<open>An event for a virtual machine on the list is put into its queue.\<close>

lemma event_queued:
  fixes s :: "'a dg_state_scheme"
  assumes inv: "dg_inv s" and q: "q \<in> set (ctx_list s)" and vm: "cx_cid (ctx_mem s q) \<notin> {1, 2}"
  shows "snd (VMCIDatagram_Dispatch E True True VMCI_HYPERVISOR_CONTEXT_ID
      (ctx_removed_event (VMCI_MAKE_HANDLE (cx_cid (ctx_mem s q)) VMCI_EVENT_HANDLER) c) s)
    = upd_ctx q (\<lambda>x. snd (enqueue_locked (ctx_removed_event (VMCI_MAKE_HANDLE (cx_cid (ctx_mem s q)) VMCI_EVENT_HANDLER) c) x)) s"
proof -
  let ?d = "cx_cid (ctx_mem s q)"
  let ?dg = "ctx_removed_event (VMCI_MAKE_HANDLE ?d VMCI_EVENT_HANDLER) c"
  have cinv: "ctx_inv s" using inv by (simp add: dg_inv_def)
  have look: "ctx_lookup s ?d = Some q" by (rule ctx_lookup_listed [OF cinv q])
  have route: "route s ?dg = Some ?d" using vm by (simp add: route_def)
  have may: "may_send s VMCI_HYPERVISOR_CONTEXT_ID ?d ?dg"
    by (simp add: may_send_def source_error_def src_privs_def VMCIDenyInteraction_def)
  have "VMCI_AllocKernelMem True (unat (VMCI_DG_SIZE ?dg))"
    by (simp add: VMCI_AllocKernelMem_def KMALLOC_MAX_SIZE_def)
  with dispatch_context_eq(1) [OF inv _ route _ may, of E True True] vm look cinv show ?thesis
    by (simp add: VMCIContext_EnqueueDatagram_eq split_beta)
qed

definition told :: "VMCIId \<Rightarrow> VMCIContext \<Rightarrow> VMCIContext" where
  "told contextID c = snd (enqueue_locked
     (ctx_removed_event (VMCI_MAKE_HANDLE (cx_cid c) VMCI_EVENT_HANDLER) contextID) c)"

lemma told_fields [simp]: "cx_cid (told contextID c) = cx_cid c"
  by (simp add: told_def enqueue_locked_fields)

lemma fire_all_queued:
  fixes s :: "'a qp_state_scheme"
  assumes "dg_inv s" "set qs \<subseteq> set (ctx_list s)" "distinct qs"
    and "\<And>q. q \<in> set qs \<Longrightarrow> cx_cid (ctx_mem s q) \<notin> {1, 2}" "\<And>h. td_event al h = (True, True)"
  shows "fire_all E al c (map (\<lambda>q. VMCI_MAKE_HANDLE (cx_cid (ctx_mem s q)) VMCI_EVENT_HANDLER) qs) s
    = s\<lparr>ctx_mem := \<lambda>q. if q \<in> set qs then told c (ctx_mem s q) else ctx_mem s q\<rparr>"
  using assms
proof (induction qs arbitrary: s)
  case (Cons q qs)
  let ?dg = "ctx_removed_event (VMCI_MAKE_HANDLE (cx_cid (ctx_mem s q)) VMCI_EVENT_HANDLER) c"
  let ?t = "snd (VMCIDatagram_Dispatch E True True VMCI_HYPERVISOR_CONTEXT_ID ?dg s)"
  have vm: "q \<in> set (ctx_list s)" "cx_cid (ctx_mem s q) \<notin> {1, 2}" using Cons.prems by simp_all
  have eq: "?t = upd_ctx q (told c) s"
    using event_queued [OF Cons.prems(1) vm, of E c] by (simp add: upd_ctx_def told_def)
  have dg: "dg_inv ?t"
    using dispatch_event [OF Cons.prems(1), of ?dg E True True] by simp
  have cid: "(\<lambda>q. VMCI_MAKE_HANDLE (cx_cid (ctx_mem ?t q)) VMCI_EVENT_HANDLER)
      = (\<lambda>q. VMCI_MAKE_HANDLE (cx_cid (ctx_mem s q)) VMCI_EVENT_HANDLER)" "ctx_list ?t = ctx_list s"
    unfolding eq by auto
  have mem: "ctx_mem ?t r = ctx_mem s r" if "r \<in> set qs" for r using that Cons.prems(3) unfolding eq by auto
  have "fire_all E al c (map (\<lambda>q. VMCI_MAKE_HANDLE (cx_cid (ctx_mem s q)) VMCI_EVENT_HANDLER) (q # qs)) s
      = fire_all E al c (map (\<lambda>q. VMCI_MAKE_HANDLE (cx_cid (ctx_mem ?t q)) VMCI_EVENT_HANDLER) qs) ?t"
    unfolding cid(1) using Cons.prems(5) by simp
  also have "\<dots> = ?t\<lparr>ctx_mem := \<lambda>r. if r \<in> set qs then told c (ctx_mem ?t r) else ctx_mem ?t r\<rparr>"
    using Cons.prems mem by (intro Cons.IH [OF dg]) (auto simp: cid(2))
  also have "\<dots> = s\<lparr>ctx_mem := \<lambda>r. if r \<in> set (q # qs) then told c (ctx_mem s r) else ctx_mem s r\<rparr>"
    using Cons.prems(3) unfolding eq by (auto simp: upd_ctx_def intro!: arg_cong [of _ _ "\<lambda>m. s\<lparr>ctx_mem := m\<rparr>"])
  finally show ?case .
qed simp

text \<open>Context 6 has asked to be told when context 5 goes, and may be told.\<close>

definition demo_subscriber :: qp_state where
  "demo_subscriber = upd_ctx 4 (\<lambda>c. c\<lparr>cx_notifierArray :=
     VMCIHandleArray_AppendEntry True demo_array (VMCI_MAKE_HANDLE 5 VMCI_EVENT_HANDLER)\<rparr>) demo_qp"

lemma demo_subscriber_inv: "dg_inv demo_subscriber"
proof -
  have "ctx_inv demo_qp" using demo_qp_inv by (simp add: dg_inv_def)
  then have "ctx_inv demo_subscriber"
    unfolding demo_subscriber_def
    by (rule upd_ctx_fields_inv) (auto intro!: cx_inv_arrays harr_ops_inv simp: demo_array_facts)
  then show ?thesis unfolding demo_subscriber_def by (rule dg_inv_upd_ctx [OF demo_qp_inv])
qed

text \<open>
  Who is owed the event: a context whose subscriptions hold the handle of the dying context, where
  a restricted party meets a trusted one.
\<close>

definition owed_event :: "VMCIId \<Rightarrow> VMCIPrivilegeFlags \<Rightarrow> VMCIContext \<Rightarrow> bool" where
  "owed_event contextID pf x \<longleftrightarrow>
     VMCI_MAKE_HANDLE contextID VMCI_EVENT_HANDLER \<in> set (live (cx_notifierArray x))
     \<and> (restricted pf \<longrightarrow> trusted (cx_privFlags x)) \<and> (restricted (cx_privFlags x) \<longrightarrow> trusted pf)"

lemma subscribed_owed:
  fixes s :: "'a dg_state_scheme"
  assumes inv: "dg_inv s" and q: "q \<in> set (ctx_list s)"
  shows "subscribed c pf (ctx_mem s q) \<longleftrightarrow> owed_event c pf (ctx_mem s q)"
proof -
  have "ctx_inv s" using inv by (simp add: dg_inv_def)
  then have "cx_inv (ctx_mem s q)" using q unfolding ctx_inv_def by blast
  then have "harr_inv (cx_notifierArray (ctx_mem s q))" by (simp add: cx_inv_def)
  then show ?thesis by (auto simp: subscribed_def owed_event_def VMCIDenyInteraction_iff)
qed

text \<open>
  C21: When a context goes, every virtual machine that asked to be told, and that may interact
  with it, has the event put at the end of its queue if the queue accepts it, once; nothing
  else changes.
\<close>

theorem context_removal_notified:
  fixes s :: "'a qp_state_scheme"
  assumes inv: "dg_inv s" and vms: "\<And>q. q \<in> set (ctx_list s) \<Longrightarrow> owed_event c pf (ctx_mem s q) \<Longrightarrow> cx_cid (ctx_mem s q) \<notin> {1, 2}"
    and few: "length (ctx_list s) < 2 ^ 19"
    and mem: "td_array al" "\<And>q. td_grow al q" "\<And>h. td_event al h = (True, True)"
  shows "VMCIContextFireNotification E al c pf s = (VMCI_SUCCESS, s\<lparr>ctx_mem :=
    \<lambda>q. if q \<in> set (ctx_list s) \<and> owed_event c pf (ctx_mem s q) then told c (ctx_mem s q) else ctx_mem s q\<rparr>)"
proof -
  let ?fire = "\<lambda>q. q \<in> set (ctx_list s) \<and> owed_event c pf (ctx_mem s q)"
  have owed: "q \<in> set (ctx_list s) \<and> subscribed c pf (ctx_mem s q) \<longleftrightarrow> ?fire q" for q
    using subscribed_owed [OF inv] by blast
  obtain a0 where a0: "VMCIHandleArray_Create (td_array al) 0 = Some a0"
    using mem(1) VMCIHandleArray_Create_default [of "td_array al"] by auto
  have inv0: "harr_inv a0" "live a0 = []" using a0 by (auto intro: VMCIHandleArray_Create_inv)
  have "capacity a0 = 4" using a0 by (auto simp: VMCIHandleArray_Create_def split: if_splits)
  then have l: "live (collect_subscribers al c pf (ctx_mem s) (ctx_list s) a0)
      = map (\<lambda>q. VMCI_MAKE_HANDLE (cx_cid (ctx_mem s q)) VMCI_EVENT_HANDLER)
          (filter (\<lambda>q. subscribed c pf (ctx_mem s q)) (ctx_list s))"
    using few mem inv0 by (subst collect_subscribers_all) simp_all
  have "distinct (ctx_list s)" using inv by (simp add: dg_inv_def ctx_inv_def distinct_map)
  then have "fire_all E al c (map (\<lambda>q. VMCI_MAKE_HANDLE (cx_cid (ctx_mem s q)) VMCI_EVENT_HANDLER)
      (filter (\<lambda>q. subscribed c pf (ctx_mem s q)) (ctx_list s))) s
    = s\<lparr>ctx_mem := \<lambda>q. if q \<in> set (filter (\<lambda>q. subscribed c pf (ctx_mem s q)) (ctx_list s))
        then told c (ctx_mem s q) else ctx_mem s q\<rparr>"
    using vms owed mem by (intro fire_all_queued [OF inv]) auto
  then show ?thesis unfolding FireNotification_eq [OF a0] l by (simp add: owed)
qed

theorem context_removal_notified_witness:
  "fst (VMCIContextFireNotification demo_env
      \<lparr>td_array = True, td_grow = (\<lambda>_. True), td_event = (\<lambda>_. (True, True)), td_detach = (\<lambda>_. (True, True))\<rparr> 5 0 demo_subscriber)
    = VMCI_SUCCESS
   \<and> queued (ctx_mem (snd (VMCIContextFireNotification demo_env
      \<lparr>td_array = True, td_grow = (\<lambda>_. True), td_event = (\<lambda>_. (True, True)), td_detach = (\<lambda>_. (True, True))\<rparr> 5 0 demo_subscriber)) 4)
    = [ctx_removed_event (VMCI_MAKE_HANDLE 6 VMCI_EVENT_HANDLER) 5]"
proof -
  let ?al = "\<lparr>td_array = True, td_grow = (\<lambda>_. True), td_event = (\<lambda>_. (True, True)), td_detach = (\<lambda>_. (True, True))\<rparr>"
  have l: "ctx_list demo_subscriber = [3, 4]" by (simp add: demo_subscriber_def) (simp add: demo_qp_def)
  have sub: "owed_event 5 0 (ctx_mem demo_subscriber 4)" "\<not> owed_event 5 0 (ctx_mem demo_subscriber 3)"
    "cx_cid (ctx_mem demo_subscriber 4) = 6"
    "told 5 (ctx_mem demo_subscriber 4) = snd (enqueue_locked (ctx_removed_event (VMCI_MAKE_HANDLE 6 0) 5) (ctx_mem demo_subscriber 4))"
    by (simp_all add: demo_subscriber_def told_def owed_event_def live_def restricted_def trusted_def demo_array_def
        take_Suc_conv_app_nth
        VMCIHandleArray_AppendEntry_def store_entry_def new_context_def demo_vm_def)
  have "VMCIContextFireNotification demo_env ?al 5 0 demo_subscriber = (VMCI_SUCCESS, demo_subscriber\<lparr>ctx_mem :=
    \<lambda>q. if q \<in> set (ctx_list demo_subscriber) \<and> owed_event 5 0 (ctx_mem demo_subscriber q)
        then told 5 (ctx_mem demo_subscriber q) else ctx_mem demo_subscriber q\<rparr>)"
    using sub by (intro context_removal_notified [OF demo_subscriber_inv]) (auto simp: l)
  then show ?thesis
    using sub by (simp add: l) (simp add: demo_subscriber_def demo_vm_def new_context_def enqueue_locked_def Let_def
        queued_def VMCIHost_SignalCall_def VMCIContextSignalNotify_def)
qed

section \<open>The well-known ids of a context\<close>

text \<open>What the loop over the well-known ids changes, and leaves alone, in one step.\<close>

definition wk_frame :: "'a dg_state_scheme \<Rightarrow> 'a dg_state_scheme \<Rightarrow> bool" where
  "wk_frame s t \<longleftrightarrow> (\<exists>tb L m. t = s\<lparr>wellKnownTable := tb, wk_live := L, ctx_mem := m\<rparr>
     \<and> (\<forall>q. \<exists>a. m q = (ctx_mem s q)\<lparr>cx_wellKnownArray := a\<rparr>))"

lemma wk_frameI:
  assumes "t = s\<lparr>wellKnownTable := tb, wk_live := L, ctx_mem := m\<rparr>"
    and "\<And>q. \<exists>a. m q = (ctx_mem s q)\<lparr>cx_wellKnownArray := a\<rparr>"
  shows "wk_frame s t"
  unfolding wk_frame_def using assms by blast

lemma wk_frame_refl [simp]: "wk_frame s s"
proof (rule wk_frameI)
  show "s = s\<lparr>wellKnownTable := wellKnownTable s, wk_live := wk_live s, ctx_mem := ctx_mem s\<rparr>" by simp
  show "\<exists>a. ctx_mem s q = (ctx_mem s q)\<lparr>cx_wellKnownArray := a\<rparr>" for q
    by (rule exI [of _ "cx_wellKnownArray (ctx_mem s q)"]) simp
qed

lemma wk_frame_trans:
  assumes "wk_frame s t" "wk_frame t u"
  shows "wk_frame s u"
proof -
  obtain tb L m where t: "t = s\<lparr>wellKnownTable := tb, wk_live := L, ctx_mem := m\<rparr>"
    "\<And>q. \<exists>a. m q = (ctx_mem s q)\<lparr>cx_wellKnownArray := a\<rparr>" using assms(1) by (auto simp: wk_frame_def)
  obtain tb' L' m' where u: "u = t\<lparr>wellKnownTable := tb', wk_live := L', ctx_mem := m'\<rparr>"
    "\<And>q. \<exists>a. m' q = (ctx_mem t q)\<lparr>cx_wellKnownArray := a\<rparr>" using assms(2) by (auto simp: wk_frame_def)
  show ?thesis
  proof (rule wk_frameI)
    show "u = s\<lparr>wellKnownTable := tb', wk_live := L', ctx_mem := m'\<rparr>" unfolding u(1) t(1) by simp
    fix q
    obtain a b where ab: "m q = (ctx_mem s q)\<lparr>cx_wellKnownArray := a\<rparr>" "m' q = (ctx_mem t q)\<lparr>cx_wellKnownArray := b\<rparr>"
      using t(2) [of q] u(2) [of q] by blast
    then have "m' q = (ctx_mem s q)\<lparr>cx_wellKnownArray := b\<rparr>" unfolding t(1) by simp
    then show "\<exists>a. m' q = (ctx_mem s q)\<lparr>cx_wellKnownArray := a\<rparr>" ..
  qed
qed

lemma wk_frame_upd: "wk_frame s (upd_ctx q (\<lambda>c. c\<lparr>cx_wellKnownArray := f c\<rparr>) s)"
proof (rule wk_frameI)
  let ?m = "(ctx_mem s)(q := (ctx_mem s q)\<lparr>cx_wellKnownArray := f (ctx_mem s q)\<rparr>)"
  show "upd_ctx q (\<lambda>c. c\<lparr>cx_wellKnownArray := f c\<rparr>) s
      = s\<lparr>wellKnownTable := wellKnownTable s, wk_live := wk_live s, ctx_mem := ?m\<rparr>"
    by (simp add: upd_ctx_def)
  show "\<exists>a. ?m r = (ctx_mem s r)\<lparr>cx_wellKnownArray := a\<rparr>" for r
    by (cases "r = q") (auto intro: exI [of _ "cx_wellKnownArray (ctx_mem s r)"])
qed

lemma wk_frame_table: "wk_frame s (s\<lparr>wellKnownTable := tb, wk_live := L\<rparr>)"
proof (rule wk_frameI)
  show "s\<lparr>wellKnownTable := tb, wk_live := L\<rparr> = s\<lparr>wellKnownTable := tb, wk_live := L, ctx_mem := ctx_mem s\<rparr>" by simp
  show "\<exists>a. ctx_mem s q = (ctx_mem s q)\<lparr>cx_wellKnownArray := a\<rparr>" for q
    by (rule exI [of _ "cx_wellKnownArray (ctx_mem s q)"]) simp
qed

lemma wk_frame_D:
  fixes s t :: "'a qp_state_scheme"
  assumes "wk_frame s t"
  shows "quiet s t" "resourceTable t = resourceTable s" "cl_mem t = cl_mem s" "cl_live t = cl_live s"
    "events t = events s" "cx_groupArray (ctx_mem t q) = cx_groupArray (ctx_mem s q)"
    "cx_notifierArray (ctx_mem t q) = cx_notifierArray (ctx_mem s q)"
    "cx_datagramQueue (ctx_mem t q) = cx_datagramQueue (ctx_mem s q)"
proof -
  obtain tb L m where t: "t = s\<lparr>wellKnownTable := tb, wk_live := L, ctx_mem := m\<rparr>"
    "\<And>q. \<exists>a. m q = (ctx_mem s q)\<lparr>cx_wellKnownArray := a\<rparr>" using assms by (auto simp: wk_frame_def)
  have "same_ctx (m q) (ctx_mem s q)" for q using t(2) [of q] by (auto simp: same_ctx_def)
  then show "quiet s t" unfolding t(1) by (simp add: quiet_def)
  show "cx_groupArray (ctx_mem t q) = cx_groupArray (ctx_mem s q)"
    "cx_notifierArray (ctx_mem t q) = cx_notifierArray (ctx_mem s q)"
    "cx_datagramQueue (ctx_mem t q) = cx_datagramQueue (ctx_mem s q)"
    using t(2) [of q] unfolding t(1) by auto
  show "resourceTable t = resourceTable s" "cl_mem t = cl_mem s" "cl_live t = cl_live s" "events t = events s"
    unfolding t(1) by simp_all
qed

lemma wk_contextID_table [simp]:
  fixes t :: "wk_mapping VMCIHashTable"
  shows "wk_contextID (ht_mem (snd (VMCIHashTable_RemoveEntry t e)) q) = wk_contextID (ht_mem t q)"
  "wk_contextID (ht_mem (snd (VMCIHashTable_ReleaseEntry t e)) q) = wk_contextID (ht_mem t q)"
proof -
  have u: "ht_mem (snd (HashTableUnlinkEntry t e)) = ht_mem t" for t :: "wk_mapping VMCIHashTable"
    by (simp add: HashTableUnlinkEntry_def Let_def split: option.split)
  show "wk_contextID (ht_mem (snd (VMCIHashTable_RemoveEntry t e)) q) = wk_contextID (ht_mem t q)"
    using u [of t] by (simp add: VMCIHashTable_RemoveEntry_def Let_def split_beta)
  show "wk_contextID (ht_mem (snd (VMCIHashTable_ReleaseEntry t e)) q) = wk_contextID (ht_mem t q)"
    by (simp add: VMCIHashTable_ReleaseEntry_def VMCIHashTableReleaseEntryLocked_def Let_def u)
qed

text \<open>Looking an entry up, taking it out and giving the reference back leaves just the table without it.\<close>

lemma ht_get_remove_release:
  assumes inv: "ht_inv tb" and look: "ht_lookup tb h = Some p"
  defines "tb2 \<equiv> snd (VMCIHashTable_RemoveEntry (ht_set_ref p (ht_ref tb p + 1) tb) p)"
  defines "tb3 \<equiv> snd (VMCIHashTable_ReleaseEntry tb2 p)"
  shows "ht_inv tb3" "ht_lookup tb3 = (ht_lookup tb)(h := None)"
proof -
  note D = ht_lookup_Some_D [OF look]
  let ?t1 = "ht_set_ref p (ht_ref tb p + 1) tb"
  have inv1: "ht_inv ?t1" by (rule ht_inv_get [OF inv])
  have l1: "linked ?t1 p" using D(3) by simp
  have t2: "ht_inv tb2" "ht_lookup tb2 = (ht_lookup tb)(h := None)" "ht_ref tb2 p = ht_ref tb p" "ht_handle tb2 p = h"
    using VMCIHashTable_RemoveEntry_correct [OF inv1, of p] l1 D(1) unfolding tb2_def by (auto simp: split_beta)
  have gone: "ht_lookup tb2 (ht_handle tb2 p) = None" using t2 by simp
  show "ht_inv tb3" "ht_lookup tb3 = (ht_lookup tb)(h := None)"
  proof -
    have "ht_inv tb3 \<and> ht_lookup tb3 = (ht_lookup tb)(h := None)"
    proof (cases "ht_ref tb2 p = 1")
      case True
      from VMCIHashTable_ReleaseEntry_last [OF t2(1) True] gone t2(2,4) show ?thesis
        unfolding tb3_def by (auto simp: split_beta)
    next
      case False
      have "\<not> linked tb2 p" using gone by (simp add: linked_def)
      then have "ht_inv (ht_set_ref p (ht_ref tb2 p - 1) tb2)" by (intro ht_set_ref_inv [OF t2(1)]) simp
      with t2 VMCIHashTable_ReleaseEntry_eq [OF False] show ?thesis
        unfolding tb3_def by simp
    qed
    then show "ht_inv tb3" "ht_lookup tb3 = (ht_lookup tb)(h := None)" by simp_all
  qed
qed

lemma RemoveWellKnown_frame:
  fixes s :: "'a dg_state_scheme" and wk c :: VMCIId and f :: "ptr \<Rightarrow> 'a dg_state_scheme \<Rightarrow> 'a dg_state_scheme"
  assumes "ctx_inv s"
  defines "t \<equiv> snd (VMCIContext_RemoveWellKnown f c wk s)"
  shows "wk_frame s t" "ctx_inv t" "q \<notin> set (ctx_list s) \<Longrightarrow> ctx_mem t q = ctx_mem s q"
    "wellKnownTable t = wellKnownTable s" "wk_live t = wk_live s" "resourceTable t = resourceTable s" "events t = events s"
proof -
  show "ctx_inv t" unfolding t_def by (rule VMCIContext_ops_inv [OF assms(1)])
  show "wk_frame s t" "q \<notin> set (ctx_list s) \<Longrightarrow> ctx_mem t q = ctx_mem s q"
    "wellKnownTable t = wellKnownTable s" "wk_live t = wk_live s" "resourceTable t = resourceTable s" "events t = events s"
    unfolding t_def
    by (auto simp: VMCIContext_RemoveWellKnown_eq [OF assms(1)] Let_def wk_frame_upd dest: ctx_lookup_D split: option.split)
      (simp_all add: upd_ctx_def)
qed

lemma remove_wk_correct:
  fixes s :: "'a dg_state_scheme" and wk c :: VMCIId and E :: "'a dg_state_scheme env"
  assumes inv: "dg_inv s"
  defines "t \<equiv> snd (VMCIDatagramRemoveWellKnownMap E wk c s)"
  shows "wk_frame s t \<and> dg_inv t \<and> (\<forall>q. q \<notin> set (ctx_list s) \<longrightarrow> ctx_mem t q = ctx_mem s q)
    \<and> (\<forall>k. wk_owner t k = (if k = wk \<and> wk_owner s k = Some c then None else wk_owner s k))"
proof -
  let ?tb = "wellKnownTable s"
  have winv: "ht_inv ?tb" and cinv: "ctx_inv s" using inv by (simp_all add: dg_inv_def)
  show ?thesis
  proof (cases "ht_lookup ?tb (wk_handle wk)")
    case None
    then have "t = s" by (simp add: t_def VMCIDatagramRemoveWellKnownMap_def DatagramGetWellKnownMap_eq)
    with None inv show ?thesis by (auto simp: wk_owner_def)
  next
    case (Some p)
    let ?t1 = "ht_set_ref p (ht_ref ?tb p + 1) ?tb"
    let ?s1 = "s\<lparr>wellKnownTable := ?t1\<rparr>"
    show ?thesis
    proof (cases "c = wk_contextID (wk_map s p)")
      case False
      then have "t = s"
        using Some wk_get_release [OF winv Some]
        by (simp add: t_def VMCIDatagramRemoveWellKnownMap_def DatagramGetWellKnownMap_eq)
      with Some False inv show ?thesis by (auto simp: wk_owner_def)
    next
      case True
      define tb2 where "tb2 = snd (VMCIHashTable_RemoveEntry ?t1 p)"
      define s3 where "s3 = snd (VMCIContext_RemoveWellKnown (env_free E) c wk (?s1\<lparr>wellKnownTable := tb2\<rparr>))"
      define tb3 where "tb3 = snd (VMCIHashTable_ReleaseEntry tb2 p)"
      have c2: "ctx_inv (?s1\<lparr>wellKnownTable := tb2\<rparr>)" using cinv by simp
      note fr = RemoveWellKnown_frame [OF c2, where f = "env_free E" and c = c and wk = wk, folded s3_def]
      have tb3: "ht_inv tb3" "ht_lookup tb3 = (ht_lookup ?tb)(wk_handle wk := None)"
        using ht_get_remove_release [OF winv Some] unfolding tb2_def tb3_def by simp_all
      obtain L where t: "t = s3\<lparr>wellKnownTable := tb3, wk_live := L\<rparr>"
      proof
        show "t = s3\<lparr>wellKnownTable := tb3, wk_live :=
            if fst (VMCIHashTable_ReleaseEntry tb2 p) = VMCI_SUCCESS_ENTRY_DEAD then wk_live s3 - {p} else wk_live s3\<rparr>"
          using True Some fr(4) unfolding t_def s3_def tb2_def tb3_def
          by (simp add: VMCIDatagramRemoveWellKnownMap_def DatagramGetWellKnownMap_eq DatagramReleaseWellKnownMap_def
              Let_def split_beta)
      qed
      have id: "wk_contextID (ht_mem tb3 r) = wk_contextID (ht_mem ?tb r)" for r
        unfolding tb3_def tb2_def by simp
      have "wk_frame s (?s1\<lparr>wellKnownTable := tb2\<rparr>)" using wk_frame_table [where s = s and tb = tb2 and L = "wk_live s"] by simp
      then have "wk_frame s t" unfolding t using fr(1) wk_frame_table wk_frame_trans by blast
      moreover have "dg_inv t" using inv fr(2,6,7) tb3(1) unfolding t by (simp add: dg_inv_def)
      moreover have "ctx_mem t q = ctx_mem s q" if "q \<notin> set (ctx_list s)" for q
        using fr(3) [of q] that unfolding t by simp
      moreover have "wk_owner t k = (if k = wk \<and> wk_owner s k = Some c then None else wk_owner s k)" for k
        using True Some unfolding t by (auto simp: wk_owner_def tb3(2) wk_map_def id wk_handle_def)
      ultimately show ?thesis by blast
    qed
  qed
qed

lemma drop_well_known_correct:
  fixes s :: "'a qp_state_scheme" and E :: "'a qp_state_scheme env"
  assumes "dg_inv s" "p \<in> ctx_live s" "p \<notin> set (ctx_list s)"
    and "VMCI_INVALID_HANDLE \<notin> set (live (cx_wellKnownArray (ctx_mem s p)))"
  shows "\<exists>t. drop_well_known E p s = Some t \<and> wk_frame s t \<and> dg_inv t
    \<and> (\<forall>k. wk_owner t k = (if wk_owner s k = Some (cx_cid (ctx_mem s p))
             \<and> k \<in> hresource ` set (live (cx_wellKnownArray (ctx_mem s p))) then None else wk_owner s k))"
  using assms
proof (induction "length (live (cx_wellKnownArray (ctx_mem s p)))" arbitrary: s)
  case 0
  let ?r = "VMCIHandleArray_RemoveTail (cx_wellKnownArray (ctx_mem s p))"
  let ?s1 = "upd_ctx p (\<lambda>c. c\<lparr>cx_wellKnownArray := snd ?r\<rparr>) s"
  have inv: "ctx_inv s" and harr: "harr_inv (cx_wellKnownArray (ctx_mem s p))"
    using 0(2,3) by (simp_all add: dg_inv_def ctx_inv_def cx_inv_def)
  have r: "fst ?r = VMCI_INVALID_HANDLE" "harr_inv (snd ?r)"
    using VMCIHandleArray_RemoveTail_correct [OF harr surjective_pairing] 0(1) by simp_all
  have "dg_inv ?s1" using inv r(2) by (intro dg_inv_upd_ctx [OF 0(2)] upd_ctx_inv cx_inv_arrays) (auto simp: ctx_inv_def)
  then show ?case
    using 0(1) r wk_frame_upd [of s p "\<lambda>_. snd ?r"] by (subst drop_well_known.simps) (simp add: Let_def wk_owner_def wk_map_def)
next
  case (Suc n)
  let ?c = "cx_cid (ctx_mem s p)" and ?a = "cx_wellKnownArray (ctx_mem s p)"
  let ?r = "VMCIHandleArray_RemoveTail ?a"
  let ?s1 = "upd_ctx p (\<lambda>c. c\<lparr>cx_wellKnownArray := snd ?r\<rparr>) s"
  have inv: "ctx_inv s" and harr: "harr_inv ?a"
    using Suc.prems(1,2) by (simp_all add: dg_inv_def ctx_inv_def cx_inv_def)
  have ne: "live ?a \<noteq> []" using Suc.hyps(2) by auto
  have r: "fst ?r = last (live ?a)" "live (snd ?r) = butlast (live ?a)" "harr_inv (snd ?r)"
    using VMCIHandleArray_RemoveTail_correct [OF harr surjective_pairing] ne by simp_all
  have h: "fst ?r \<noteq> VMCI_INVALID_HANDLE" using r(1) ne Suc.prems(4) last_in_set by metis
  have dg1: "dg_inv ?s1" using inv r(3) by (intro dg_inv_upd_ctx [OF Suc.prems(1)] upd_ctx_inv cx_inv_arrays) (auto simp: ctx_inv_def)
  define u where "u = snd (VMCIDatagramRemoveWellKnownMap E (hresource (fst ?r)) ?c ?s1)"
  have u: "wk_frame ?s1 u" "dg_inv u" "\<And>q. q \<notin> set (ctx_list s) \<Longrightarrow> ctx_mem u q = ctx_mem ?s1 q"
    "\<And>k. wk_owner u k = (if k = hresource (fst ?r) \<and> wk_owner ?s1 k = Some ?c then None else wk_owner ?s1 k)"
    using remove_wk_correct [OF dg1, of E "hresource (fst ?r)" ?c] unfolding u_def by simp_all
  have own: "wk_owner ?s1 k = wk_owner s k" for k by (simp add: wk_owner_def wk_map_def)
  have q: "ctx_live u = ctx_live s" "ctx_list u = ctx_list s" using wk_frame_D(1) [OF u(1)] by (simp_all add: quiet_def)
  have up: "ctx_mem u p = (ctx_mem s p)\<lparr>cx_wellKnownArray := snd ?r\<rparr>" using u(3) [OF Suc.prems(3)] by simp
  have len: "n = length (live (cx_wellKnownArray (ctx_mem u p)))" using Suc.hyps(2) unfolding up by (simp add: r(2))
  have bl: "set (butlast (live ?a)) \<subseteq> set (live ?a)" by (auto dest: in_set_butlastD)
  have valid: "VMCI_INVALID_HANDLE \<notin> set (live (cx_wellKnownArray (ctx_mem u p)))"
    using Suc.prems(4) bl unfolding up by (auto simp: r(2))
  have "p \<in> ctx_live u" "p \<notin> set (ctx_list u)" using Suc.prems q by simp_all
  from Suc.hyps(1) [OF len u(2) this valid] obtain t where t: "drop_well_known E p u = Some t" "wk_frame u t" "dg_inv t"
    "\<And>k. wk_owner t k = (if wk_owner u k = Some ?c \<and> k \<in> hresource ` set (butlast (live ?a)) then None else wk_owner u k)"
    unfolding up by (auto simp: r(2))
  have step: "drop_well_known E p s = drop_well_known E p u"
    using h unfolding u_def by (subst drop_well_known.simps) (simp add: Let_def)
  have ins: "set (live ?a) = insert (fst ?r) (set (butlast (live ?a)))"
    unfolding r(1) using ne by (metis append_butlast_last_id list.simps(15) rotate1.simps(2) set_rotate1)
  have "wk_owner t k = (if wk_owner s k = Some ?c \<and> k \<in> hresource ` set (live ?a) then None else wk_owner s k)" for k
    unfolding t(4) u(4) own ins by auto
  moreover have "wk_frame s t" using wk_frame_upd [of s p "\<lambda>_. snd ?r"] u(1) t(2) wk_frame_trans by blast
  ultimately show ?case using t(1,3) step by auto
qed

section \<open>The queue pairs of a context\<close>

definition same_tables :: "'a dg_state_scheme \<Rightarrow> 'a dg_state_scheme \<Rightarrow> bool" where
  "same_tables s t \<longleftrightarrow> wellKnownTable t = wellKnownTable s \<and> resourceTable t = resourceTable s
     \<and> cl_mem t = cl_mem s \<and> cl_live t = cl_live s \<and> ctx_list t = ctx_list s \<and> ctx_live t = ctx_live s
     \<and> (\<forall>q. cx_cid (ctx_mem t q) = cx_cid (ctx_mem s q) \<and> cx_userVersion (ctx_mem t q) = cx_userVersion (ctx_mem s q)
          \<and> cx_groupArray (ctx_mem t q) = cx_groupArray (ctx_mem s q))"

lemma same_tables_refl [simp]: "same_tables s s"
  by (simp add: same_tables_def)

lemma same_tables_trans: "same_tables s t \<Longrightarrow> same_tables t u \<Longrightarrow> same_tables s u"
  by (simp add: same_tables_def)

lemma notified_tables: "notified s t \<Longrightarrow> same_tables s t"
  using notified_frame [of s t] by (simp add: same_tables_def same_arrays_all_def same_ctx_def)

lemma NotifyPeer_tables:
  fixes s :: "'a qp_state_scheme"
  assumes "dg_inv s"
  shows "same_tables s (snd (QueuePairNotifyPeer E new dq a h m p s))"
proof -
  have "notified s (snd (VMCIDatagram_Dispatch E new dq 0 (qp_event a h m p) s))"
    using dispatch_event [OF assms, of "qp_event a h m p"] by simp
  then show ?thesis by (simp add: QueuePairNotifyPeer_def notified_tables)
qed

lemma same_tables_qp:
  "same_tables s (upd_qp p f t) = same_tables s t" "same_tables (upd_qp p f s) t = same_tables s t"
  "same_tables s (remove_queuepair cp h t) = same_tables s t"
  "same_tables s (t\<lparr>qp_pins := n\<rparr>) = same_tables s t" "same_tables s (t\<lparr>qp_live := L\<rparr>) = same_tables s t"
  "same_tables s (QueuePairList_RemoveEntry p t) = same_tables s t"
  by (auto simp: same_tables_def upd_qp_def remove_queuepair_def QueuePairList_RemoveEntry_def upd_ctx_def)

definition releasable :: "'a qp_state_scheme \<Rightarrow> ptr \<Rightarrow> bool" where
  "releasable s cp \<longleftrightarrow> (VMCIContext_SupportsHostQP s (Some cp) \<longrightarrow> (\<forall>p \<in> set (qp_list s).
     qe_pageStoreSet (qp_mem s p) \<longrightarrow> VMCIHost_ReleaseUserMemory (qe_attach (qp_mem s p)) \<noteq> None))"

text \<open>The last detach from a pair crashes only on memory that was not pinned.\<close>

lemma Detach_defined:
  assumes dg: "dg_inv s" and rel: "releasable s cp"
  shows "QueuePair_Detach E new dq h (Some cp) d s \<noteq> None"
proof
  assume none: "QueuePair_Detach E new dq h (Some cp) d s = None"
  then obtain p where p: "QueuePairList_FindEntry h s = Some p"
    "free_entry cp p (upd_qp p (leave (cx_cid (ctx_mem s cp))) s) = None"
    by (auto simp: QueuePair_Detach_def Let_def VMCIContext_GetId_def split: if_splits option.splits)
  have "p \<in> set (qp_list s)" using FindEntry_D [OF p(1)] by simp
  with p(2) rel show False
    by (auto simp: free_entry_def Let_def releasable_def VMCIContext_SupportsHostQP_def split: if_splits option.splits)
qed

lemma Detach_tables:
  fixes s :: "'a qp_state_scheme"
  assumes dg: "dg_inv s" and eq: "QueuePair_Detach E new dq h (Some cp) d s = Some (r, s')"
  shows "same_tables s s'"
proof -
  have n: "same_tables s (snd (QueuePairNotifyPeer E new dq a h m q (upd_qp p f s)))" for a m q p f
  proof -
    have "dg_inv (upd_qp p f s)" using dg by simp
    from NotifyPeer_tables [OF this] show ?thesis by (simp add: same_tables_qp)
  qed
  have f: "same_tables s t" if "free_entry cp p (upd_qp p g s) = Some t" for p g t
    using that by (auto simp: free_entry_def Let_def same_tables_qp split: option.splits if_splits)
  from eq show ?thesis
    using n f by (auto simp: QueuePair_Detach_def Let_def VMCIContext_GetId_def same_tables_qp
        split: if_splits option.splits)
qed

text \<open>One round of the loop.\<close>

lemma detach_round:
  fixes s :: "'a qp_state_scheme"
  assumes inv: "broker_inv s" and cp: "cp \<in> ctx_live s" and rel: "releasable s cp"
    and h: "h \<noteq> VMCI_INVALID_HANDLE" "member_of s cp h"
  obtains r s' where "QueuePair_Detach E new dq h (Some cp) True s = Some (r, s')" "0 \<le> r" "broker_inv s'"
    "same_tables s s'" "releasable s' cp"
    "mset (live (cx_queuePairArray (ctx_mem s' cp))) = mset (live (cx_queuePairArray (ctx_mem s cp))) - {#h#}"
    "\<forall>c k. attached s' c k \<longleftrightarrow> attached s c k \<and> \<not> (c = cx_cid (ctx_mem s cp) \<and> k = h)"
proof -
  have dg: "dg_inv s" and qp: "qp_inv s" and arr: "arrays_ok s" using inv by (simp_all add: broker_inv_def)
  have harr: "harr_inv (cx_queuePairArray (ctx_mem s cp))" using dg cp by (simp add: dg_inv_def ctx_inv_def cx_inv_def)
  obtain r s' where eq: "QueuePair_Detach E new dq h (Some cp) True s = Some (r, s')"
    using Detach_defined [OF dg rel, of E new dq h True] by fastforce
  have "attached s (cx_cid (ctx_mem s cp)) h" using arr cp h(2) by (simp add: arrays_ok_def)
  then obtain p where p: "cx_cid (ctx_mem s cp) \<noteq> VMCI_INVALID_ID" "QueuePairList_FindEntry h s = Some p"
    "qe_createId (qp_mem s p) = cx_cid (ctx_mem s cp) \<or> qe_attachId (qp_mem s p) = cx_cid (ctx_mem s cp)"
    by (auto simp: attached_def)
  have r: "0 \<le> r"
    using eq p h harr by (auto simp: QueuePair_Detach_def Let_def VMCIContext_GetId_def member_of_def
        split: if_splits option.splits)
  have tab: "same_tables s s'" by (rule Detach_tables [OF dg eq])
  have br: "broker_inv s'" "\<And>c k. attached s' c k \<longleftrightarrow> attached s c k \<and> \<not> (c = cx_cid (ctx_mem s cp) \<and> k = h)"
    using detach_broker [OF inv cp eq] r by auto
  have sup: "VMCIContext_SupportsHostQP s' (Some cp) = VMCIContext_SupportsHostQP s (Some cp)"
    using tab by (simp add: VMCIContext_SupportsHostQP_def same_tables_def)
  have "releasable s' cp \<and> cx_queuePairArray (ctx_mem s' cp)
      = snd (VMCIHandleArray_RemoveEntry (cx_queuePairArray (ctx_mem s cp)) h)"
    using dg qp cp eq
  proof (cases rule: detach_cases)
    case (last p t n)
    have "set (qp_list s') \<subseteq> set (qp_list s)" using last by (simp add: set_remove1_subset)
    with last rel sup show ?thesis by (auto simp: releasable_def remove_queuepair_def)
  next
    case (left p t)
    then show ?thesis using rel sup by (auto simp: releasable_def remove_queuepair_def quiet_facts)
  qed (use r in auto)
  then have m: "mset (live (cx_queuePairArray (ctx_mem s' cp))) = mset (live (cx_queuePairArray (ctx_mem s cp))) - {#h#}"
    and rel': "releasable s' cp"
    using harr.del_law [OF harr surjective_pairing, of h] by simp_all
  from br(2) have "\<forall>c k. attached s' c k \<longleftrightarrow> attached s c k \<and> \<not> (c = cx_cid (ctx_mem s cp) \<and> k = h)" by blast
  then show thesis by (rule that [OF eq r br(1) tab rel' m])
qed

lemma drop_queue_pairs_correct:
  fixes s :: "'a qp_state_scheme"
  assumes "broker_inv s" "p \<in> ctx_live s" "releasable s p"
    and "VMCI_INVALID_HANDLE \<notin> set (live (cx_queuePairArray (ctx_mem s p)))"
  shows "\<exists>t. drop_queue_pairs E al p s = Some t \<and> same_tables s t \<and> broker_inv t
    \<and> (\<forall>h. \<not> member_of t p h)
    \<and> (\<forall>c k. attached t c k \<longleftrightarrow> attached s c k \<and> \<not> (c = cx_cid (ctx_mem s p) \<and> member_of s p k))"
  using assms
proof (induction "length (live (cx_queuePairArray (ctx_mem s p)))" arbitrary: s)
  case 0
  have "live (cx_queuePairArray (ctx_mem s p)) = []" using 0(1) by (metis length_0_conv)
  moreover have "harr_inv (cx_queuePairArray (ctx_mem s p))"
    using 0(2,3) by (simp add: broker_inv_def dg_inv_def ctx_inv_def cx_inv_def)
  ultimately show ?case using 0(2)
    by (subst drop_queue_pairs.simps) (simp add: Let_def VMCIHandleArray_GetEntry_correct member_of_def)
next
  case (Suc n)
  let ?a = "cx_queuePairArray (ctx_mem s p)"
  have harr: "harr_inv ?a"
    using Suc.prems(1,2) by (simp add: broker_inv_def dg_inv_def ctx_inv_def cx_inv_def)
  define h where "h = VMCIHandleArray_GetEntry ?a 0"
  have ne: "live ?a \<noteq> []" using Suc.hyps(2) by auto
  then have "h = live ?a ! 0" using VMCIHandleArray_GetEntry_correct [OF harr, of 0] by (simp add: h_def)
  then have hin: "h \<in> set (live ?a)" using ne by simp
  then have hv: "h \<noteq> VMCI_INVALID_HANDLE" and hm: "member_of s p h" using Suc.prems(4) by (auto simp: member_of_def)
  obtain r u where u: "QueuePair_Detach E (fst (td_detach al h)) (snd (td_detach al h)) h (Some p) True s = Some (r, u)"
    "0 \<le> r" "broker_inv u" "same_tables s u" "releasable u p"
    "mset (live (cx_queuePairArray (ctx_mem u p))) = mset (live ?a) - {#h#}"
    "\<forall>c k. attached u c k \<longleftrightarrow> attached s c k \<and> \<not> (c = cx_cid (ctx_mem s p) \<and> k = h)"
    by (rule detach_round [OF Suc.prems(1-3) hv hm, of E "fst (td_detach al h)" "snd (td_detach al h)"])
  have dist: "distinct (live ?a)" using Suc.prems(1,2) by (simp add: broker_inv_def arrays_ok_def)
  have set_u: "set (live (cx_queuePairArray (ctx_mem u p))) = set (live ?a) - {h}"
    using u(6) dist by (metis mset_eq_setD mset_remove1 set_remove1_eq)
  have "size (mset (live (cx_queuePairArray (ctx_mem u p)))) = size (mset (live ?a)) - 1"
    unfolding u(6) using hin by (simp add: size_Diff_singleton)
  then have len: "n = length (live (cx_queuePairArray (ctx_mem u p)))" using Suc.hyps(2) by simp
  have p: "p \<in> ctx_live u" "cx_cid (ctx_mem u p) = cx_cid (ctx_mem s p)"
    using u(4) Suc.prems(2) by (simp_all add: same_tables_def)
  have v: "VMCI_INVALID_HANDLE \<notin> set (live (cx_queuePairArray (ctx_mem u p)))" using set_u Suc.prems(4) by blast
  obtain t where t: "drop_queue_pairs E al p u = Some t" "same_tables u t" "broker_inv t" "\<And>h. \<not> member_of t p h"
    "\<And>c k. attached t c k \<longleftrightarrow> attached u c k \<and> \<not> (c = cx_cid (ctx_mem u p) \<and> member_of u p k)"
    using Suc.hyps(1) [OF len u(3) p(1) u(5) v] by blast
  have step: "drop_queue_pairs E al p s = drop_queue_pairs E al p u"
    using hv u(1,2) by (subst drop_queue_pairs.simps) (simp add: Let_def h_def [symmetric])
  have "attached t c k \<longleftrightarrow> attached s c k \<and> \<not> (c = cx_cid (ctx_mem s p) \<and> member_of s p k)" for c k
    unfolding t(5) p(2) using u(7) set_u hin by (auto simp: member_of_def)
  with t step u(4) same_tables_trans show ?case by auto
qed

section \<open>The groups of a context\<close>

text \<open>Clients belong to one resource.\<close>

definition res_sep :: "'a dg_state_scheme \<Rightarrow> bool" where
  [inv_defs]: "res_sep s \<longleftrightarrow> res_ok s \<and> (\<forall>p q. linked (resourceTable s) p \<longrightarrow> linked (resourceTable s) q \<longrightarrow> p \<noteq> q
     \<longrightarrow> set (r_clients (res s p)) \<inter> set (r_clients (res s q)) = {})"

lemma res_sep_members:
  assumes "res_sep s"
  shows "res_sep (upd_res p (set_members a) s)"
proof -
  have "linked (resourceTable (upd_res p (set_members a) s)) = linked (resourceTable s)" by (rule upd_res_table) simp
  moreover have "res_ok (upd_res p (set_members a) s)" using assms by (intro res_ok_upd) (auto simp: res_sep_def)
  ultimately show ?thesis using assms by (simp add: res_sep_def)
qed

lemma drop_client_table:
  "linked (resourceTable (drop_client p c s)) = linked (resourceTable s)"
  "ht_handle (resourceTable (drop_client p c s)) = ht_handle (resourceTable s)"
  "res_lookup (drop_client p c s) = res_lookup s"
  by (rule res_lookup_cong; simp add: drop_client_mem)+

lemma res_sep_drop:
  assumes sep: "res_sep s" and p: "linked (resourceTable s) p" and c: "c \<in> set (r_clients (res s p))"
  shows "res_sep (drop_client p c s)"
proof -
  have ok: "res_ok s" using sep by (simp add: res_sep_def)
  have inv: "ht_inv (resourceTable s)" using ok by (simp add: res_ok_def)
  have ref: "he_refCount (res (drop_client p c s) q) = he_refCount (res s q)" for q by (simp add: drop_client_mem)
  have ht: "ht_inv (resourceTable (drop_client p c s))"
    by (rule ht_inv_cong [OF inv drop_client_mem(2,3) drop_client_table(2)])
      (use linked_ref [OF inv] in \<open>simp add: ht_ref_res ref\<close>)
  have mem: "cl_mem (drop_client p c s) x = cl_mem s x" if "x \<noteq> c" for x
    using that by (simp add: drop_client_def upd_client_def)
  have "clients_ok (drop_client p c s) q" if q: "linked (resourceTable s) q" for q
  proof (cases "q = p")
    case True
    with ok p show ?thesis by (simp add: clients_ok_drop res_ok_def)
  next
    case False
    then have "c \<notin> set (r_clients (res s q))" using sep p q c by (auto simp: res_sep_def)
    then have "cl_mem (drop_client p c s) x = cl_mem s x" if "x \<in> set (r_clients (res s q))" for x
      using mem that by metis
    moreover have "set (r_clients (res s q)) \<inter> cl_live s \<subseteq> cl_live (drop_client p c s)"
      using \<open>c \<notin> set (r_clients (res s q))\<close> by auto
    moreover have "clients_ok s q" using ok q by (simp add: res_ok_def)
    ultimately show ?thesis using False
      by (intro clients_ok_cong [of s q "drop_client p c s"]) (simp_all add: drop_client_mem)
  qed
  moreover have "set (r_clients (res (drop_client p c s) q)) \<subseteq> set (r_clients (res s q))" for q
    by (simp add: drop_client_mem set_remove1_subset)
  ultimately show ?thesis
    using sep ht unfolding res_sep_def res_ok_def drop_client_table by blast
qed

definition group_frame :: "'a dg_state_scheme \<Rightarrow> 'a dg_state_scheme \<Rightarrow> bool" where
  "group_frame s t \<longleftrightarrow> ctx_list t = ctx_list s \<and> ctx_mem t = ctx_mem s \<and> ctx_live t = ctx_live s
     \<and> wellKnownTable t = wellKnownTable s \<and> events t = events s \<and> dg_state.more t = dg_state.more s"

lemma group_frame_refl [simp]: "group_frame s s"
  by (simp add: group_frame_def)

lemma group_frame_trans: "group_frame s t \<Longrightarrow> group_frame t u \<Longrightarrow> group_frame s u"
  by (simp add: group_frame_def)

lemma group_frame_ops [simp]:
  "group_frame s (upd_res p f t) = group_frame s t" "group_frame s (drop_client p c t) = group_frame s t"
  by (simp_all add: group_frame_def upd_res_def drop_client_def upd_client_def)

text \<open>A group does not have the member any more; its handle and type are what they were.\<close>

definition is_member :: "'a dg_state_scheme \<Rightarrow> VMCIHandle \<Rightarrow> VMCIHandle \<Rightarrow> bool" where
  "is_member s gh mh \<longleftrightarrow> (\<exists>p. res_lookup s gh VMCI_RESOURCE_TYPE_GROUP = Some p \<and> mh \<in> set (live (memberArray s p)))"

definition groups_ok :: "'a dg_state_scheme \<Rightarrow> bool" where
  [inv_defs]: "groups_ok s \<longleftrightarrow> (\<forall>gh p. res_lookup s gh VMCI_RESOURCE_TYPE_GROUP = Some p
     \<longrightarrow> (\<exists>a. r_object (res s p) = Group a) \<and> harr_inv (memberArray s p) \<and> distinct (live (memberArray s p)))"

lemma remove_member_correct:
  fixes s :: "'a dg_state_scheme" and E :: "'a dg_state_scheme env" and gh mh :: VMCIHandle
  assumes sep: "res_sep s" and grp: "groups_ok s" and mh: "mh \<noteq> VMCI_INVALID_HANDLE"
  defines "t \<equiv> snd (VMCIGroup_RemoveMember E gh mh s)"
  shows "group_frame s t \<and> res_sep t \<and> groups_ok t
    \<and> (\<forall>g m. is_member t g m \<longleftrightarrow> is_member s g m \<and> \<not> (g = gh \<and> m = mh))"
proof -
  have ok: "res_ok s" using sep by (simp add: res_sep_def)
  show ?thesis
  proof (cases "res_lookup s gh VMCI_RESOURCE_TYPE_GROUP")
    case None
    then have "t = s" unfolding t_def by (simp add: VMCIGroup_RemoveMember_eq [OF ok] mh)
    with None sep grp show ?thesis by (auto simp: is_member_def)
  next
    case (Some p)
    note look = res_lookup_D [OF Some]
    let ?old = "memberArray s p"
    define a where "a = snd (VMCIHandleArray_RemoveEntry ?old mh)"
    define s1 where "s1 = upd_res p (set_members a) s"
    have old: "harr_inv ?old" "distinct (live ?old)" "\<exists>b. r_object (res s p) = Group b"
      using grp Some by (auto simp: groups_ok_def)
    have a: "harr_inv a" "mset (live a) = mset (live ?old) - {#mh#}"
      using harr.del_law [OF old(1) surjective_pairing, of mh] by (simp_all add: a_def)
    then have a2: "distinct (live a)" "set (live a) = set (live ?old) - {mh}"
      using old(2) by (metis distinct_remove1 mset_eq_imp_distinct_iff mset_remove1,
        metis mset_eq_setD mset_remove1 set_remove1_eq)
    have sep1: "res_sep s1" unfolding s1_def by (rule res_sep_members [OF sep])
    have look1: "res_lookup s1 = res_lookup s" unfolding s1_def by (rule res_lookup_upd) simp_all
    have l1: "linked (resourceTable s1) p"
      using res_lookup_D(2) [of s1 gh VMCI_RESOURCE_TYPE_GROUP p] Some unfolding look1 by blast
    have mem1: "memberArray s1 q = (if q = p then a else memberArray s q)"
      "r_object (res s1 q) = (if q = p then Group a else r_object (res s q))" for q
      using old(3) by (auto simp: s1_def memberArray_def set_members_def)
    have t: "t = s1 \<or> (\<exists>c. client_lookup s p mh = Some c \<and> t = drop_client p c s1)"
      unfolding t_def s1_def a_def by (simp add: VMCIGroup_RemoveMember_eq [OF ok] mh Some Let_def split: option.split)
    have cl: "c \<in> set (r_clients (res s1 p))" if "client_lookup s p mh = Some c" for c
      using client_lookup_D [OF that] by (simp add: s1_def)
    have fr1: "group_frame s s1" by (simp add: s1_def)
    have t2all: "group_frame s t \<and> res_sep t \<and> res_lookup t = res_lookup s \<and> (\<forall>q. r_object (res t q) = r_object (res s1 q))"
      using t
    proof (elim disjE exE conjE)
      assume "t = s1"
      with fr1 sep1 look1 show ?thesis by simp
    next
      fix c assume c: "client_lookup s p mh = Some c" "t = drop_client p c s1"
      have "res_sep t" unfolding c(2) by (rule res_sep_drop [OF sep1 l1 cl [OF c(1)]])
      then show ?thesis using fr1 look1 unfolding c(2) by (simp add: drop_client_table drop_client_mem)
    qed
    then have t2: "group_frame s t" "res_sep t" "res_lookup t = res_lookup s" "memberArray t q = memberArray s1 q"
      "r_object (res t q) = r_object (res s1 q)" for q
      by (simp_all add: memberArray_def)
    have inj: "q = p \<longleftrightarrow> g = gh" if "res_lookup s g VMCI_RESOURCE_TYPE_GROUP = Some q" for g q
    proof
      show "q = p \<Longrightarrow> g = gh" using res_lookup_D(3) [OF that] look(3) by simp
      show "g = gh \<Longrightarrow> q = p" using that Some by simp
    qed
    have "(\<exists>b. r_object (res t q) = Group b) \<and> harr_inv (memberArray t q) \<and> distinct (live (memberArray t q))"
      if "res_lookup s g VMCI_RESOURCE_TYPE_GROUP = Some q" for g q
    proof (cases "q = p")
      case True
      then show ?thesis using a(1) a2(1) by (simp add: t2(4,5) mem1)
    next
      case False
      then show ?thesis using grp that by (simp add: t2(4,5) mem1 groups_ok_def)
    qed
    then have "groups_ok t" unfolding groups_ok_def t2(3) by blast
    moreover have "is_member t g m \<longleftrightarrow> is_member s g m \<and> \<not> (g = gh \<and> m = mh)" for g m
    proof (cases "res_lookup s g VMCI_RESOURCE_TYPE_GROUP")
      case None
      then show ?thesis by (simp add: is_member_def t2(3))
    next
      case (Some q)
      with inj [OF Some] a2(2) show ?thesis by (cases "q = p") (simp_all add: is_member_def t2(3,4) mem1(1))
    qed
    ultimately show ?thesis using t2 by blast
  qed
qed

lemma group_frame_inv:
  fixes s t :: "'a dg_state_scheme"
  assumes "group_frame s t" "dg_inv s" "res_sep t"
  shows "dg_inv t"
  using assms by (auto simp: group_frame_def dg_inv_def ctx_inv_def res_sep_def res_ok_def)

text \<open>Like \<open>group_frame\<close>, with the group arrays of the contexts free.\<close>

definition groups_frame :: "'a dg_state_scheme \<Rightarrow> 'a dg_state_scheme \<Rightarrow> bool" where
  "groups_frame s t \<longleftrightarrow> ctx_list t = ctx_list s \<and> ctx_live t = ctx_live s
     \<and> wellKnownTable t = wellKnownTable s \<and> events t = events s \<and> dg_state.more t = dg_state.more s
     \<and> (\<forall>q g. (ctx_mem t q)\<lparr>cx_groupArray := g\<rparr> = (ctx_mem s q)\<lparr>cx_groupArray := g\<rparr>)"

lemma groups_frame_trans: "groups_frame s t \<Longrightarrow> groups_frame t u \<Longrightarrow> groups_frame s u"
  by (simp add: groups_frame_def)

lemma groups_frame_ops:
  "groups_frame s (upd_ctx q (\<lambda>c. c\<lparr>cx_groupArray := a\<rparr>) s)" "group_frame s t \<Longrightarrow> groups_frame s t"
  by (simp_all add: groups_frame_def group_frame_def) (simp add: upd_ctx_def)

lemma groups_frame_ctx:
  assumes "groups_frame s t"
  shows "cx_cid (ctx_mem t q) = cx_cid (ctx_mem s q)" "cx_refCount (ctx_mem t q) = cx_refCount (ctx_mem s q)"
    "cx_privFlags (ctx_mem t q) = cx_privFlags (ctx_mem s q)" "cx_userVersion (ctx_mem t q) = cx_userVersion (ctx_mem s q)"
    "cx_queuePairArray (ctx_mem t q) = cx_queuePairArray (ctx_mem s q)"
proof -
  have e: "(ctx_mem t q)\<lparr>cx_groupArray := demo_array\<rparr> = (ctx_mem s q)\<lparr>cx_groupArray := demo_array\<rparr>"
    using assms by (simp add: groups_frame_def)
  show "cx_cid (ctx_mem t q) = cx_cid (ctx_mem s q)" using arg_cong [OF e, of cx_cid] by simp
  show "cx_refCount (ctx_mem t q) = cx_refCount (ctx_mem s q)" using arg_cong [OF e, of cx_refCount] by simp
  show "cx_privFlags (ctx_mem t q) = cx_privFlags (ctx_mem s q)" using arg_cong [OF e, of cx_privFlags] by simp
  show "cx_userVersion (ctx_mem t q) = cx_userVersion (ctx_mem s q)" using arg_cong [OF e, of cx_userVersion] by simp
  show "cx_queuePairArray (ctx_mem t q) = cx_queuePairArray (ctx_mem s q)"
    using arg_cong [OF e, of cx_queuePairArray] by simp
qed

lemma groups_frame_quiet:
  fixes s t :: "'a qp_state_scheme"
  assumes "groups_frame s t"
  shows "quiet s t"
proof -
  have m: "dg_state.more t = dg_state.more s" using assms by (simp add: groups_frame_def)
  have "qp_list t = qp_list s \<and> qp_mem t = qp_mem s \<and> qp_live t = qp_live s \<and> qp_pins t = qp_pins s"
    using m by (cases s; cases t) simp
  with assms groups_frame_ctx [OF assms] show ?thesis by (simp add: quiet_def same_ctx_def groups_frame_def)
qed

lemma upd_ctx_groups [simp]:
  "res_lookup (upd_ctx q f s) = res_lookup s" "memberArray (upd_ctx q f s) = memberArray s"
  "res (upd_ctx q f s) = res s" "res_sep (upd_ctx q f s) = res_sep s" "groups_ok (upd_ctx q f s) = groups_ok s"
  "is_member (upd_ctx q f s) = is_member s"
proof -
  show r: "res (upd_ctx q f s) = res s" by (simp add: upd_ctx_def res_def fun_eq_iff)
  show l: "res_lookup (upd_ctx q f s) = res_lookup s" by (simp add: res_lookup_def fun_eq_iff r split: option.split)
  show m: "memberArray (upd_ctx q f s) = memberArray s" by (simp add: memberArray_def r fun_eq_iff)
  have c: "clients_ok (upd_ctx q f s) = clients_ok s" by (simp add: clients_ok_def r fun_eq_iff) (simp add: upd_ctx_def)
  show "res_sep (upd_ctx q f s) = res_sep s" by (simp add: res_sep_def res_ok_def c r)
  show "groups_ok (upd_ctx q f s) = groups_ok s" by (simp add: groups_ok_def l m r)
  show "is_member (upd_ctx q f s) = is_member s" by (simp add: is_member_def l m fun_eq_iff)
qed

lemma drop_groups_correct:
  fixes s :: "'a qp_state_scheme" and E :: "'a qp_state_scheme env"
  assumes "dg_inv s" "res_sep s" "groups_ok s" "p \<in> ctx_live s"
    and "VMCI_INVALID_HANDLE \<notin> set (live (cx_groupArray (ctx_mem s p)))"
  shows "\<exists>t. drop_groups E p s = Some t \<and> groups_frame s t \<and> dg_inv t \<and> res_sep t \<and> groups_ok t
    \<and> (\<forall>g k. is_member t g k \<longleftrightarrow> is_member s g k \<and> \<not> (g \<in> set (live (cx_groupArray (ctx_mem s p)))
         \<and> k = VMCI_MAKE_HANDLE (cx_cid (ctx_mem s p)) VMCI_CONTEXT_RESOURCE_ID))"
  using assms
proof (induction "length (live (cx_groupArray (ctx_mem s p)))" arbitrary: s)
  case 0
  let ?r = "VMCIHandleArray_RemoveTail (cx_groupArray (ctx_mem s p))"
  let ?s1 = "upd_ctx p (\<lambda>c. c\<lparr>cx_groupArray := snd ?r\<rparr>) s"
  have inv: "ctx_inv s" and harr: "harr_inv (cx_groupArray (ctx_mem s p))"
    using 0(2,5) by (simp_all add: dg_inv_def ctx_inv_def cx_inv_def)
  have nil: "live (cx_groupArray (ctx_mem s p)) = []" using 0(1) by (metis length_0_conv)
  have r: "fst ?r = VMCI_INVALID_HANDLE" "harr_inv (snd ?r)"
    using VMCIHandleArray_RemoveTail_correct [OF harr surjective_pairing] nil by simp_all
  have "dg_inv ?s1" using inv r(2) by (intro dg_inv_upd_ctx [OF 0(2)] upd_ctx_inv cx_inv_arrays) (auto simp: ctx_inv_def)
  then show ?case
    using nil r 0(3,4) groups_frame_ops(1) [of s p] by (subst drop_groups.simps) (simp add: Let_def)
next
  case (Suc n)
  let ?a = "cx_groupArray (ctx_mem s p)"
  let ?mh = "VMCI_MAKE_HANDLE (cx_cid (ctx_mem s p)) VMCI_CONTEXT_RESOURCE_ID"
  let ?r = "VMCIHandleArray_RemoveTail ?a"
  let ?s1 = "upd_ctx p (\<lambda>c. c\<lparr>cx_groupArray := snd ?r\<rparr>) s"
  have inv: "ctx_inv s" and harr: "harr_inv ?a"
    using Suc.prems(1,4) by (simp_all add: dg_inv_def ctx_inv_def cx_inv_def)
  have ne: "live ?a \<noteq> []" using Suc.hyps(2) by auto
  have r: "fst ?r = last (live ?a)" "live (snd ?r) = butlast (live ?a)" "harr_inv (snd ?r)"
    using VMCIHandleArray_RemoveTail_correct [OF harr surjective_pairing] ne by simp_all
  have h: "fst ?r \<noteq> VMCI_INVALID_HANDLE" using r(1) ne Suc.prems(5) last_in_set by metis
  have dg1: "dg_inv ?s1" using inv r(3) by (intro dg_inv_upd_ctx [OF Suc.prems(1)] upd_ctx_inv cx_inv_arrays) (auto simp: ctx_inv_def)
  have sep1: "res_sep ?s1" "groups_ok ?s1" using Suc.prems(2,3) by simp_all
  define u where "u = snd (VMCIGroup_RemoveMember E (fst ?r) ?mh ?s1)"
  have u: "group_frame ?s1 u" "res_sep u" "groups_ok u"
    "\<forall>g m. is_member u g m \<longleftrightarrow> is_member s g m \<and> \<not> (g = fst ?r \<and> m = ?mh)"
    using remove_member_correct [OF sep1, of ?mh E "fst ?r"] unfolding u_def by simp_all
  have dgu: "dg_inv u" by (rule group_frame_inv [OF u(1) dg1 u(2)])
  have up: "ctx_mem u p = (ctx_mem s p)\<lparr>cx_groupArray := snd ?r\<rparr>" "ctx_live u = ctx_live s"
    using u(1) by (simp_all add: group_frame_def)
  have len: "n = length (live (cx_groupArray (ctx_mem u p)))" using Suc.hyps(2) unfolding up by (simp add: r(2))
  have valid: "VMCI_INVALID_HANDLE \<notin> set (live (cx_groupArray (ctx_mem u p)))"
    using Suc.prems(5) unfolding up by (auto simp: r(2) dest: in_set_butlastD)
  have p: "p \<in> ctx_live u" using Suc.prems(4) up by simp
  obtain t where t: "drop_groups E p u = Some t" "groups_frame u t" "dg_inv t" "res_sep t" "groups_ok t"
    "\<forall>g k. is_member t g k \<longleftrightarrow> is_member u g k \<and> \<not> (g \<in> set (butlast (live ?a)) \<and> k = ?mh)"
    using Suc.hyps(1) [OF len dgu u(2,3) p valid] unfolding up by (auto simp: r(2))
  have step: "drop_groups E p s = drop_groups E p u"
    using h unfolding u_def by (subst drop_groups.simps) (simp add: Let_def)
  have ins: "set (live ?a) = insert (fst ?r) (set (butlast (live ?a)))"
    unfolding r(1) using ne by (metis append_butlast_last_id list.simps(15) rotate1.simps(2) set_rotate1)
  have "is_member t g k \<longleftrightarrow> is_member s g k \<and> \<not> (g \<in> set (live ?a) \<and> k = ?mh)" for g k
    using t(6) u(4) unfolding ins by blast
  moreover have "groups_frame s t"
    using groups_frame_ops(1) [of s p "snd ?r"] groups_frame_ops(2) [OF u(1)] t(2) groups_frame_trans by blast
  ultimately show ?case using t step by auto
qed

section \<open>The whole teardown\<close>

lemma same_resources:
  assumes "resourceTable t = resourceTable s" "cl_mem t = cl_mem s" "cl_live t = cl_live s"
  shows "res_sep t = res_sep s" "groups_ok t = groups_ok s" "is_member t = is_member s"
proof -
  have r: "res t = res s" using assms(1) by (simp add: res_def fun_eq_iff)
  have l: "res_lookup t = res_lookup s" by (simp add: res_lookup_def fun_eq_iff r assms(1) split: option.split)
  have m: "memberArray t = memberArray s" by (simp add: memberArray_def r fun_eq_iff)
  have c: "clients_ok t = clients_ok s" by (simp add: clients_ok_def r assms fun_eq_iff)
  show "res_sep t = res_sep s" by (simp add: res_sep_def res_ok_def c r assms)
  show "groups_ok t = groups_ok s" by (simp add: groups_ok_def l m r)
  show "is_member t = is_member s" by (simp add: is_member_def l m fun_eq_iff)
qed

definition arrays_valid :: "VMCIContext \<Rightarrow> bool" where
  "arrays_valid c \<longleftrightarrow> VMCI_INVALID_HANDLE \<notin> set (live (cx_wellKnownArray c))
     \<union> set (live (cx_queuePairArray c)) \<union> set (live (cx_groupArray c))"

lemma wk_owner_cong: "wellKnownTable t = wellKnownTable s \<Longrightarrow> wk_owner t = wk_owner s"
  by (simp add: wk_owner_def wk_map_def fun_eq_iff)

lemma releasable_quiet:
  assumes "quiet s t"
  shows "releasable t p = releasable s p"
  using assms by (simp add: releasable_def VMCIContext_SupportsHostQP_def quiet_def same_ctx_def)

lemma broker_quiet: "broker_inv s \<Longrightarrow> quiet s t \<Longrightarrow> dg_inv t \<Longrightarrow> broker_inv t"
  by (simp add: broker_inv_def quiet_facts)

lemma arrays_ok_subset:
  assumes "arrays_ok s" "ctx_live t \<subseteq> ctx_live s" "attached t = attached s"
    "\<And>q. cx_queuePairArray (ctx_mem t q) = cx_queuePairArray (ctx_mem s q)"
    "\<And>q. cx_cid (ctx_mem t q) = cx_cid (ctx_mem s q)"
  shows "arrays_ok t"
proof -
  have m: "member_of t = member_of s" using assms(4) by (simp add: member_of_def fun_eq_iff)
  show ?thesis using assms(1,2) unfolding arrays_ok_def m assms(3-5) by blast
qed

lemma free_context_correct:
  fixes s :: "'a qp_state_scheme" and E :: "'a qp_state_scheme env"
  assumes inv: "broker_inv s" "res_sep s" "groups_ok s" and p: "p \<in> ctx_live s" "p \<notin> set (ctx_list s)"
    and rel: "releasable s p" and valid: "arrays_valid (ctx_mem s p)"
  defines "c \<equiv> ctx_mem s p"
  shows "\<exists>t. VMCIContextFreeContext E al p s = Some t \<and> broker_inv t \<and> ctx_list t = ctx_list s \<and> ctx_live t = ctx_live s - {p}
    \<and> (\<forall>i k. attached t i k \<longleftrightarrow> attached s i k \<and> \<not> (i = cx_cid c \<and> member_of s p k))
    \<and> (\<forall>k. wk_owner t k = (if wk_owner s k = Some (cx_cid c) \<and> k \<in> hresource ` set (live (cx_wellKnownArray c))
          then None else wk_owner s k))
    \<and> (\<forall>g m. is_member t g m \<longleftrightarrow> is_member s g m \<and> \<not> (g \<in> set (live (cx_groupArray c))
          \<and> m = VMCI_MAKE_HANDLE (cx_cid c) VMCI_CONTEXT_RESOURCE_ID))"
proof -
  let ?s1 = "snd (VMCIContextFireNotification E al (cx_cid c) (cx_privFlags c) s)"
  have dg: "dg_inv s" using inv(1) by (simp add: broker_inv_def)
  have n1: "notified s ?s1" and dg1: "dg_inv ?s1" using FireNotification_quiet [OF dg] by blast+
  note f1 = notified_frame [OF n1] and q1 = notified_quiet [OF n1]
  have c1: "cx_cid (ctx_mem ?s1 p) = cx_cid c" "cx_wellKnownArray (ctx_mem ?s1 p) = cx_wellKnownArray c"
    "cx_groupArray (ctx_mem ?s1 p) = cx_groupArray c"
    using f1(3) [of p] by (simp_all add: c_def same_arrays_all_def same_ctx_def)
  have p1: "p \<in> ctx_live ?s1" "p \<notin> set (ctx_list ?s1)" using p f1(1,2) by simp_all
  have v1: "VMCI_INVALID_HANDLE \<notin> set (live (cx_wellKnownArray (ctx_mem ?s1 p)))"
    using valid unfolding c1 by (simp add: arrays_valid_def c_def)
  obtain s2 where s2: "drop_well_known E p ?s1 = Some s2" "wk_frame ?s1 s2" "dg_inv s2"
    "\<forall>k. wk_owner s2 k = (if wk_owner s k = Some (cx_cid c) \<and> k \<in> hresource ` set (live (cx_wellKnownArray c))
       then None else wk_owner s k)"
    using drop_well_known_correct [OF dg1 p1 v1, of E] unfolding c1 wk_owner_cong [OF f1(7)] by blast
  note f2 = wk_frame_D [OF s2(2)]
  have q2: "quiet s s2" using quiet_trans [OF q1 f2(1)] .
  have b2: "broker_inv s2" by (rule broker_quiet [OF inv(1) q2 s2(3)])
  have p2: "p \<in> ctx_live s2" and r2: "releasable s2 p" using p rel q2 by (simp_all add: quiet_facts releasable_quiet)
  have c2: "cx_cid (ctx_mem s2 p) = cx_cid c" "cx_queuePairArray (ctx_mem s2 p) = cx_queuePairArray c"
    "cx_groupArray (ctx_mem s2 p) = cx_groupArray c"
    using q2 f2(6) c1(3) by (simp_all add: quiet_facts c_def)
  have v2: "VMCI_INVALID_HANDLE \<notin> set (live (cx_queuePairArray (ctx_mem s2 p)))"
    using valid unfolding c2 by (simp add: arrays_valid_def c_def)
  obtain s3 where s3: "drop_queue_pairs E al p s2 = Some s3" "same_tables s2 s3" "broker_inv s3"
    "\<forall>i k. attached s3 i k \<longleftrightarrow> attached s i k \<and> \<not> (i = cx_cid c \<and> member_of s p k)"
    using drop_queue_pairs_correct [OF b2 p2 r2 v2, of E al] unfolding c2 quiet_facts(4,5) [OF q2] by blast
  have res: "res_sep s3" "groups_ok s3" "is_member s3 = is_member s"
    using s3(2) inv(2,3) f1(4-6) f2(2-4) same_resources [of s3 s] by (simp_all add: same_tables_def)
  have dg3: "dg_inv s3" using s3(3) by (simp add: broker_inv_def)
  have p3: "p \<in> ctx_live s3" and c3: "cx_cid (ctx_mem s3 p) = cx_cid c" "cx_groupArray (ctx_mem s3 p) = cx_groupArray c"
    using s3(2) p2 c2 by (simp_all add: same_tables_def)
  have v3: "VMCI_INVALID_HANDLE \<notin> set (live (cx_groupArray (ctx_mem s3 p)))"
    using valid unfolding c3 by (simp add: arrays_valid_def c_def)
  obtain s4 where s4: "drop_groups E p s3 = Some s4" "groups_frame s3 s4" "dg_inv s4"
    "\<forall>g m. is_member s4 g m \<longleftrightarrow> is_member s g m \<and> \<not> (g \<in> set (live (cx_groupArray c))
       \<and> m = VMCI_MAKE_HANDLE (cx_cid c) VMCI_CONTEXT_RESOURCE_ID)"
    using drop_groups_correct [OF dg3 res(1,2) p3 v3, of E] unfolding c3 res(3) by blast
  have q4: "quiet s3 s4" by (rule groups_frame_quiet [OF s4(2)])
  have b4: "broker_inv s4" by (rule broker_quiet [OF s3(3) q4 s4(3)])
  have l4: "ctx_list s4 = ctx_list s" "ctx_live s4 = ctx_live s"
    using q4 q2 s3(2) by (simp_all add: quiet_facts same_tables_def)
  let ?u = "upd_ctx p (\<lambda>c. VMCIUnsetNotify (c\<lparr>cx_datagramQueue := []\<rparr>)) s4"
  let ?t = "?u\<lparr>ctx_live := ctx_live s4 - {p}\<rparr>"
  have free: "VMCIContextFreeContext E al p s = Some ?t"
    using s2(1) s3(1) s4(1) by (simp add: VMCIContextFreeContext_def Let_def c_def)
  have u: "cx_cid (ctx_mem ?t q) = cx_cid (ctx_mem s4 q)" "cx_queuePairArray (ctx_mem ?t q) = cx_queuePairArray (ctx_mem s4 q)"
    "ctx_mem ?t q = (if q = p then VMCIUnsetNotify ((ctx_mem s4 p)\<lparr>cx_datagramQueue := []\<rparr>) else ctx_mem s4 q)" for q
    by (simp_all add: VMCIUnsetNotify_def)
  have att: "attached ?t = attached s4" by (simp add: attached_def QueuePairList_FindEntry_def fun_eq_iff)
  have "ctx_inv ?t"
    using s4(3) p(2) l4 unfolding dg_inv_def ctx_inv_def u(1) by (auto simp: u(3))
  then have "dg_inv ?t" using s4(3) by (simp add: dg_inv_def)
  moreover have "qp_inv ?t" using b4 by (simp add: broker_inv_def qp_inv_def qe_objs_def cong: map_cong)
  moreover have "arrays_ok ?t"
  proof (rule arrays_ok_subset [OF _ _ att u(2,1)])
    show "arrays_ok s4" using b4 by (simp add: broker_inv_def)
    show "ctx_live ?t \<subseteq> ctx_live s4" by auto
  qed
  ultimately have b: "broker_inv ?t" by (simp add: broker_inv_def)
  have m: "is_member ?t = is_member s4"
    by (rule same_resources) (simp_all add: upd_ctx_def)
  have w: "wk_owner ?t = wk_owner s2"
    using s4(2) s3(2) by (intro wk_owner_cong) (simp add: groups_frame_def same_tables_def)
  have a: "attached ?t = attached s3" unfolding att by (intro ext quiet_facts(5) [OF q4])
  have l: "ctx_list ?t = ctx_list s" "ctx_live ?t = ctx_live s - {p}" using l4 by simp_all
  show ?thesis
    using s2(4) s3(4) s4(4) by (intro exI [of _ ?t] conjI free b l) (simp_all only: a m w simp_thms)
qed

text \<open>The state in which a context is freed: off the list, with count 0.\<close>

definition leaving :: "ptr \<Rightarrow> 'a ctx_state_scheme \<Rightarrow> 'a ctx_state_scheme" where
  "leaving p s = upd_ctx p (\<lambda>c. c\<lparr>cx_refCount := 0\<rparr>) (s\<lparr>ctx_list := remove1 p (ctx_list s)\<rparr>)"

lemma leaving_simps [simp]:
  "ctx_list (leaving p s) = remove1 p (ctx_list s)" "ctx_live (leaving p s) = ctx_live s"
  "ctx_mem (leaving p s) q = (if q = p then (ctx_mem s p)\<lparr>cx_refCount := 0\<rparr> else ctx_mem s q)"
  by (simp_all add: leaving_def)

lemma leaving_qp [simp]:
  "attached (leaving p s) = attached s" "member_of (leaving p s) = member_of s" "releasable (leaving p s) q = releasable s q"
  "wk_owner (leaving p s) = wk_owner s" "is_member (leaving p s) = is_member s"
  "res_sep (leaving p s) = res_sep s" "groups_ok (leaving p s) = groups_ok s"
proof -
  have t: "resourceTable (leaving p s) = resourceTable s" "cl_mem (leaving p s) = cl_mem s" "cl_live (leaving p s) = cl_live s"
    "wellKnownTable (leaving p s) = wellKnownTable s" "qp_list (leaving p s) = qp_list s" "qp_mem (leaving p s) = qp_mem s"
    by (simp_all add: leaving_def upd_ctx_def)
  show "res_sep (leaving p s) = res_sep s" "groups_ok (leaving p s) = groups_ok s" "is_member (leaving p s) = is_member s"
    by (rule same_resources; simp only: t)+
  show "wk_owner (leaving p s) = wk_owner s" by (rule wk_owner_cong [OF t(4)])
  show "attached (leaving p s) = attached s" by (simp add: attached_def QueuePairList_FindEntry_def t fun_eq_iff)
  show "member_of (leaving p s) = member_of s" by (simp add: member_of_def fun_eq_iff)
  show "releasable (leaving p s) q = releasable s q" by (simp add: releasable_def VMCIContext_SupportsHostQP_def t)
qed

lemma leaving_inv:
  assumes "broker_inv s" "p \<in> set (ctx_list s)"
  shows "broker_inv (leaving p s)" "p \<notin> set (ctx_list (leaving p s))"
proof -
  have dg: "dg_inv s" using assms(1) by (simp add: broker_inv_def)
  have d: "distinct (ctx_list s)" using dg by (simp add: dg_inv_def ctx_inv_def distinct_map)
  then show "p \<notin> set (ctx_list (leaving p s))" by simp
  have cid: "cx_cid (ctx_mem (leaving p s) q) = cx_cid (ctx_mem s q)" for q by simp
  have ci: "ctx_inv s" using dg by (simp add: dg_inv_def)
  have sub: "set (remove1 p (ctx_list s)) = set (ctx_list s) - {p}" using d by simp
  have "distinct (map (\<lambda>q. cx_cid (ctx_mem s q)) (remove1 p (ctx_list s)))"
    using ci d by (simp add: ctx_inv_def distinct_map inj_on_diff)
  moreover have "cx_inv (ctx_mem (leaving p s) q) = cx_inv (ctx_mem s q)" for q by simp
  moreover have "cx_refCount (ctx_mem (leaving p s) q) \<noteq> 0" if "q \<in> set (ctx_list s) - {p}" for q
    using that ci by (simp add: ctx_inv_def)
  moreover have "set (ctx_list s) - {p} \<subseteq> ctx_live s" using ci by (auto simp: ctx_inv_def)
  moreover have "\<forall>q \<in> ctx_live s. cx_inv (ctx_mem s q)" using ci by (simp add: ctx_inv_def)
  ultimately have "ctx_inv (leaving p s)"
    unfolding ctx_inv_def cid leaving_simps(1,2) sub by (simp only: simp_thms ball_simps) blast
  then have "dg_inv (leaving p s)" using dg by (simp add: dg_inv_def leaving_def)
  moreover have "qp_inv (leaving p s)"
    using assms(1) by (simp add: broker_inv_def leaving_def qp_inv_def qe_objs_def cong: map_cong)
  moreover have "arrays_ok (leaving p s)"
    by (rule arrays_ok_subset [of s]) (use assms(1) in \<open>simp_all add: broker_inv_def\<close>)
  ultimately show "broker_inv (leaving p s)" by (simp add: broker_inv_def)
qed


text \<open>Context 5 owns the well-known id 1025.\<close>

definition demo_leaver :: qp_state where
  "demo_leaver = upd_ctx 3 (\<lambda>c. c\<lparr>cx_wellKnownArray := VMCIHandleArray_AppendEntry True demo_array (wk_handle 1025)\<rparr>) demo_qp"

lemma demo_leaver_inv: "broker_inv demo_leaver" "res_sep demo_leaver" "groups_ok demo_leaver"
proof -
  have "ctx_inv demo_qp" using demo_qp_inv by (simp add: dg_inv_def)
  then have "ctx_inv demo_leaver"
    unfolding demo_leaver_def
    by (rule upd_ctx_fields_inv) (auto intro!: cx_inv_arrays harr_ops_inv simp: demo_array_facts)
  then have "dg_inv demo_leaver" unfolding demo_leaver_def by (rule dg_inv_upd_ctx [OF demo_qp_inv])
  moreover have "quiet demo_qp demo_leaver" unfolding demo_leaver_def by (rule quiet_upd_ctx) (simp add: same_ctx_def)
  ultimately show "broker_inv demo_leaver"
    using broker_quiet [OF broker_reachable [OF demo_qp_reachable]] by blast
  have r: "res demo_qp = res demo_res" "cl_mem demo_qp = cl_mem demo_res" "cl_live demo_qp = {30}"
    "resourceTable demo_qp = resourceTable demo_res"
    by (simp_all add: demo_qp_def demo_dgs_def res_def fun_eq_iff)
  have one: "linked (resourceTable demo_res) q \<longleftrightarrow> q = 10" for q
    by (auto simp: linked_def demo_res_def ht_lookup_def ht_idx_def VMCI_Hash_def ht_handle_def)
  have "clients_ok demo_qp q" for q using demo_res_facts(2) [of q] by (simp add: clients_ok_def r) (simp add: demo_res_def)
  then have "res_sep demo_qp" using demo_res_facts(1) by (simp add: res_sep_def res_ok_def r one)
  then show "res_sep demo_leaver" by (simp add: demo_leaver_def)
  have ty: "r_type (res demo_res q) = VMCI_RESOURCE_TYPE_DATAGRAM" for q
    by (simp add: demo_res_def res_def demo_resource_def)
  have "res_lookup demo_qp g VMCI_RESOURCE_TYPE_GROUP = None" for g
    by (simp add: res_lookup_def r(1) ty split: option.split)
  then show "groups_ok demo_leaver" by (simp add: demo_leaver_def groups_ok_def)
qed


end
