(* ===== verification/PhysTrack.thy ===== *)
theory PhysTrack
  imports Prelude
begin

text \<open>
  The tracker of physical pages of \<open>vmmon-only/common/phystrack.c\<close>: a three level directory
  of bitmaps (256 directories of 512 bitmaps of 32768 bits), one bit per page number, in the
  layout of the 64-bit Linux build.  A missing directory is \<open>None\<close>.  A panic is the value
  \<open>None\<close> of the operation; the answers of the page allocator are arguments.  The section on the
  abstraction reads a tracker as a set of page numbers; the locale \<open>page_set\<close> is the interface
  that the users of the trackers rely on.
\<close>

type_synonym MPN = u32

definition INVALID_MPN :: MPN where
  "INVALID_MPN = - 1"

definition BYTES_PER_ENTRY :: nat where "BYTES_PER_ENTRY = 4096"
definition PHYSTRACK_L3_ENTRIES :: nat where "PHYSTRACK_L3_ENTRIES = 32768"
definition PHYSTRACK_L2_ENTRIES :: nat where "PHYSTRACK_L2_ENTRIES = 512"
definition PHYSTRACK_L1_ENTRIES :: nat where "PHYSTRACK_L1_ENTRIES = 256"

lemmas phys_sizes = BYTES_PER_ENTRY_def PHYSTRACK_L3_ENTRIES_def PHYSTRACK_L2_ENTRIES_def PHYSTRACK_L1_ENTRIES_def

type_synonym PhysTrackerL3 = "u8 list"
type_synonym PhysTrackerL2 = "PhysTrackerL3 option list"

record PhysTracker =
  numVMs :: int
  pt_dir :: "PhysTrackerL2 option list"

definition PHYSTRACK_MPN2IDX :: "MPN \<Rightarrow> nat \<times> nat \<times> nat" where
  "PHYSTRACK_MPN2IDX mpn =
     (let p2 = unat mpn div PHYSTRACK_L3_ENTRIES
      in (p2 div PHYSTRACK_L2_ENTRIES, p2 mod PHYSTRACK_L2_ENTRIES, unat mpn mod PHYSTRACK_L3_ENTRIES))"

definition PHYSTRACK_GETL3POS :: "nat \<Rightarrow> nat \<times> u8" where
  "PHYSTRACK_GETL3POS p3 = (p3 div 8, push_bit (p3 mod 8) 1)"

definition zero_L3 :: PhysTrackerL3 where
  "zero_L3 = replicate BYTES_PER_ENTRY 0"

definition zero_L2 :: PhysTrackerL2 where
  "zero_L2 = replicate PHYSTRACK_L2_ENTRIES None"

definition zero_tracker :: PhysTracker where
  "zero_tracker = \<lparr>numVMs = 0, pt_dir = replicate PHYSTRACK_L1_ENTRIES None\<rparr>"

text \<open>The directory with the bitmap in place, and the bitmap.\<close>

definition PhysTrackAllocL3 :: "bool \<Rightarrow> PhysTrackerL2 \<Rightarrow> nat \<Rightarrow> (PhysTrackerL3 \<times> PhysTrackerL2) option" where
  "PhysTrackAllocL3 avail dir2 p2 =
     (case dir2 ! p2 of Some dir3 \<Rightarrow> Some (dir3, dir2)
      | None \<Rightarrow> if \<not> avail then None else Some (zero_L3, dir2[p2 := Some zero_L3]))"

definition PhysTrackFreeL3 :: "PhysTrackerL2 \<Rightarrow> nat \<Rightarrow> PhysTrackerL2" where
  "PhysTrackFreeL3 dir2 p2 = dir2[p2 := None]"

definition bit_tracked :: "PhysTrackerL3 \<Rightarrow> nat \<Rightarrow> bool" where
  "bit_tracked dir3 p3 \<longleftrightarrow> (let (pos, bit) = PHYSTRACK_GETL3POS p3 in dir3 ! pos AND bit \<noteq> 0)"

definition PhysTrack_Add :: "bool \<Rightarrow> bool \<Rightarrow> MPN \<Rightarrow> PhysTracker \<Rightarrow> PhysTracker option" where
  "PhysTrack_Add avail2 avail3 mpn tracker =
     (let (p1, p2, p3) = PHYSTRACK_MPN2IDX mpn; (pos, bit) = PHYSTRACK_GETL3POS p3
      in case (case pt_dir tracker ! p1 of Some dir2 \<Rightarrow> Some dir2
               | None \<Rightarrow> if avail2 then Some zero_L2 else None) of
           None \<Rightarrow> None
         | Some dir2 \<Rightarrow> (case PhysTrackAllocL3 avail3 dir2 p2 of
             None \<Rightarrow> None
           | Some (dir3, dir2') \<Rightarrow>
               if dir3 ! pos AND bit \<noteq> 0 then None
               else Some (tracker\<lparr>pt_dir := (pt_dir tracker)[p1 :=
                      Some (dir2'[p2 := Some (dir3[pos := dir3 ! pos OR bit])])]\<rparr>)))"

definition PhysTrack_Remove :: "MPN \<Rightarrow> PhysTracker \<Rightarrow> PhysTracker option" where
  "PhysTrack_Remove mpn tracker =
     (let (p1, p2, p3) = PHYSTRACK_MPN2IDX mpn; (pos, bit) = PHYSTRACK_GETL3POS p3
      in case pt_dir tracker ! p1 of None \<Rightarrow> None
         | Some dir2 \<Rightarrow> (case dir2 ! p2 of None \<Rightarrow> None
           | Some dir3 \<Rightarrow>
               if dir3 ! pos AND bit = 0 then None
               else Some (tracker\<lparr>pt_dir := (pt_dir tracker)[p1 :=
                      Some (dir2[p2 := Some (dir3[pos := dir3 ! pos AND NOT bit])])]\<rparr>)))"

definition PhysTrack_Test :: "PhysTracker \<Rightarrow> MPN \<Rightarrow> bool" where
  "PhysTrack_Test tracker mpn =
     (let (p1, p2, p3) = PHYSTRACK_MPN2IDX mpn
      in if PHYSTRACK_L1_ENTRIES \<le> p1 then False
         else case pt_dir tracker ! p1 of None \<Rightarrow> False
         | Some dir2 \<Rightarrow> (case dir2 ! p2 of None \<Rightarrow> False
           | Some dir3 \<Rightarrow> (let (pos, bit) = PHYSTRACK_GETL3POS p3 in dir3 ! pos AND bit \<noteq> 0)))"

text \<open>The three loops of \<open>PhysTrack_GetNext\<close>; the indices left when one stops early are returned.\<close>

function next_L3 :: "PhysTrackerL3 \<Rightarrow> nat \<Rightarrow> nat option" where
  "next_L3 dir3 p3 =
     (if PHYSTRACK_L3_ENTRIES \<le> p3 then None
      else let (pos, bit) = PHYSTRACK_GETL3POS p3
           in if dir3 ! pos AND bit \<noteq> 0 then Some p3 else next_L3 dir3 (Suc p3))"
  by pat_completeness auto
termination by (relation "measure (\<lambda>(_, p3). PHYSTRACK_L3_ENTRIES - p3)") auto

function next_L2 :: "PhysTrackerL2 \<Rightarrow> nat \<Rightarrow> nat \<Rightarrow> (nat \<times> nat) option" where
  "next_L2 dir2 p2 p3 =
     (if PHYSTRACK_L2_ENTRIES \<le> p2 then None
      else case dir2 ! p2 of None \<Rightarrow> next_L2 dir2 (Suc p2) 0
      | Some dir3 \<Rightarrow> (case next_L3 dir3 p3 of Some p3' \<Rightarrow> Some (p2, p3')
        | None \<Rightarrow> next_L2 dir2 (Suc p2) 0))"
  by pat_completeness auto
termination by (relation "measure (\<lambda>(_, p2, _). PHYSTRACK_L2_ENTRIES - p2)") auto

function next_L1 :: "PhysTrackerL2 option list \<Rightarrow> nat \<Rightarrow> nat \<Rightarrow> nat \<Rightarrow> (nat \<times> nat \<times> nat) option" where
  "next_L1 dir p1 p2 p3 =
     (if PHYSTRACK_L1_ENTRIES \<le> p1 then None
      else case dir ! p1 of None \<Rightarrow> next_L1 dir (Suc p1) 0 0
      | Some dir2 \<Rightarrow> (case next_L2 dir2 p2 p3 of Some (p2', p3') \<Rightarrow> Some (p1, p2', p3')
        | None \<Rightarrow> next_L1 dir (Suc p1) 0 0))"
  by pat_completeness auto
termination by (relation "measure (\<lambda>(_, p1, _, _). PHYSTRACK_L1_ENTRIES - p1)") auto

declare next_L3.simps [simp del] next_L2.simps [simp del] next_L1.simps [simp del]

definition PhysTrack_GetNext :: "PhysTracker \<Rightarrow> MPN \<Rightarrow> MPN" where
  "PhysTrack_GetNext tracker mpn =
     (let (p1, p2, p3) = PHYSTRACK_MPN2IDX (mpn + 1)
      in case next_L1 (pt_dir tracker) p1 p2 p3 of None \<Rightarrow> INVALID_MPN
         | Some (q1, q2, q3) \<Rightarrow>
             of_nat ((q1 * PHYSTRACK_L2_ENTRIES + q2) * PHYSTRACK_L3_ENTRIES + q3))"

subsection \<open>The trackers in memory\<close>

record phys_state =
  physTracker :: "ptr option"
  pt_mem :: "ptr \<Rightarrow> PhysTracker"
  pt_live :: "ptr set"

definition upd_pt :: "ptr \<Rightarrow> (PhysTracker \<Rightarrow> PhysTracker) \<Rightarrow> 'a phys_state_scheme \<Rightarrow> 'a phys_state_scheme" where
  "upd_pt p f s = s\<lparr>pt_mem := (pt_mem s)(p := f (pt_mem s p))\<rparr>"

definition PhysTrack_Alloc :: "ptr option \<Rightarrow> 'a phys_state_scheme \<Rightarrow> ptr option \<times> 'a phys_state_scheme" where
  "PhysTrack_Alloc new s =
     (case new of None \<Rightarrow> (None, s)
      | Some p \<Rightarrow> (Some p, s\<lparr>pt_mem := (pt_mem s)(p := zero_tracker\<lparr>numVMs := 1\<rparr>), pt_live := insert p (pt_live s)\<rparr>))"

definition PhysTrack_Init :: "ptr option \<Rightarrow> 'a phys_state_scheme \<Rightarrow> ptr option \<times> 'a phys_state_scheme" where
  "PhysTrack_Init new s =
     (let s1 = (if physTracker s \<noteq> None then s
                else case new of None \<Rightarrow> s
                | Some p \<Rightarrow> s\<lparr>physTracker := Some p, pt_mem := (pt_mem s)(p := zero_tracker), pt_live := insert p (pt_live s)\<rparr>)
      in case physTracker s1 of None \<Rightarrow> (None, s1)
         | Some p \<Rightarrow> (Some p, upd_pt p (\<lambda>t. t\<lparr>numVMs := numVMs t + 1\<rparr>) s1))"

text \<open>Whether the loops of \<open>PhysTrack_Cleanup\<close> come upon a page that is still tracked.\<close>

definition still_locked :: "PhysTracker \<Rightarrow> bool" where
  "still_locked t = list_ex (\<lambda>d2. case d2 of None \<Rightarrow> False | Some dir2 \<Rightarrow>
     list_ex (\<lambda>d3. case d3 of None \<Rightarrow> False | Some dir3 \<Rightarrow> list_ex (\<lambda>b. b \<noteq> 0) dir3) dir2) (pt_dir t)"

definition PhysTrack_Cleanup :: "ptr \<Rightarrow> 'a phys_state_scheme \<Rightarrow> 'a phys_state_scheme option" where
  "PhysTrack_Cleanup p s =
     (let s1 = upd_pt p (\<lambda>t. t\<lparr>numVMs := numVMs t - 1\<rparr>) s
      in if numVMs (pt_mem s1 p) \<noteq> 0 then Some s1
         else if still_locked (pt_mem s1 p) then None
         else Some (s1\<lparr>pt_live := pt_live s1 - {p},
                physTracker := (if physTracker s1 = Some p then None else physTracker s1)\<rparr>))"


subsection \<open>A tracker as a set of pages\<close>

definition L2_bit :: "PhysTrackerL2 \<Rightarrow> nat \<Rightarrow> bool" where
  "L2_bit dir2 i \<longleftrightarrow> (case dir2 ! (i div PHYSTRACK_L3_ENTRIES) of None \<Rightarrow> False
     | Some dir3 \<Rightarrow> bit_tracked dir3 (i mod PHYSTRACK_L3_ENTRIES))"

definition L1_bit :: "PhysTrackerL2 option list \<Rightarrow> nat \<Rightarrow> bool" where
  "L1_bit dir i \<longleftrightarrow> (case dir ! (i div (PHYSTRACK_L2_ENTRIES * PHYSTRACK_L3_ENTRIES)) of None \<Rightarrow> False
     | Some dir2 \<Rightarrow> L2_bit dir2 (i mod (PHYSTRACK_L2_ENTRIES * PHYSTRACK_L3_ENTRIES)))"

definition tracked :: "PhysTracker \<Rightarrow> MPN set" where
  "tracked t = {m. L1_bit (pt_dir t) (unat m)}"

definition L3_ok :: "PhysTrackerL3 \<Rightarrow> bool" where
  "L3_ok dir3 \<longleftrightarrow> length dir3 = BYTES_PER_ENTRY"

definition L2_ok :: "PhysTrackerL2 \<Rightarrow> bool" where
  "L2_ok dir2 \<longleftrightarrow> length dir2 = PHYSTRACK_L2_ENTRIES \<and> (\<forall>d. Some d \<in> set dir2 \<longrightarrow> L3_ok d)"

definition pt_ok :: "PhysTracker \<Rightarrow> bool" where
  [inv_defs]: "pt_ok t \<longleftrightarrow> length (pt_dir t) = PHYSTRACK_L1_ENTRIES \<and> (\<forall>d. Some d \<in> set (pt_dir t) \<longrightarrow> L2_ok d)"

lemma bit_tracked_iff: "bit_tracked d i \<longleftrightarrow> bit (d ! (i div 8)) (i mod 8)"
proof -
  have "d ! (i div 8) AND push_bit (i mod 8) 1 = 0 \<longleftrightarrow> \<not> bit (d ! (i div 8)) (i mod 8)"
    by (simp add: and_exp_eq_0_iff_not_bit push_bit_of_1)
  then show ?thesis by (simp add: bit_tracked_def PHYSTRACK_GETL3POS_def)
qed

lemma bit_tracked_fold: "PHYSTRACK_GETL3POS p3 = (pos, b) \<Longrightarrow> d ! pos AND b \<noteq> 0 \<longleftrightarrow> bit_tracked d p3"
  by (simp add: bit_tracked_def)

lemma zero_L3 [simp]: "L3_ok zero_L3" "i < PHYSTRACK_L3_ENTRIES \<Longrightarrow> \<not> bit_tracked zero_L3 i"
  by (simp_all add: L3_ok_def zero_L3_def bit_tracked_iff phys_sizes)

lemma zero_L2 [simp]: "L2_ok zero_L2" "i < PHYSTRACK_L2_ENTRIES * PHYSTRACK_L3_ENTRIES \<Longrightarrow> \<not> L2_bit zero_L2 i"
  by (simp_all add: L2_ok_def zero_L2_def L2_bit_def phys_sizes less_mult_imp_div_less)

lemma MPN2IDX:
  assumes "PHYSTRACK_MPN2IDX m = (p1, p2, p3)"
  shows "p1 < PHYSTRACK_L1_ENTRIES" "p2 < PHYSTRACK_L2_ENTRIES" "p3 < PHYSTRACK_L3_ENTRIES"
    and "unat m = (p1 * PHYSTRACK_L2_ENTRIES + p2) * PHYSTRACK_L3_ENTRIES + p3"
proof -
  have e: "p1 = unat m div 32768 div 512" "p2 = unat m div 32768 mod 512" "p3 = unat m mod 32768"
    using assms by (simp_all add: PHYSTRACK_MPN2IDX_def Let_def phys_sizes)
  have "unat m < 256 * 512 * 32768" using unat32_less [of m] by simp
  then have "unat m div 32768 < 256 * 512" by (simp add: less_mult_imp_div_less)
  then show "p1 < PHYSTRACK_L1_ENTRIES" by (simp add: e phys_sizes less_mult_imp_div_less del: div_mult2_eq)
  show "p2 < PHYSTRACK_L2_ENTRIES" "p3 < PHYSTRACK_L3_ENTRIES" by (simp_all add: e phys_sizes)
  have "p1 * 512 + p2 = unat m div 32768" by (simp add: e)
  then show "unat m = (p1 * PHYSTRACK_L2_ENTRIES + p2) * PHYSTRACK_L3_ENTRIES + p3"
    by (simp add: e phys_sizes del: div_mult2_eq)
qed

text \<open>Positions are pairs of a directory and an offset.\<close>

lemma pos_div_mod:
  fixes a b n :: nat
  assumes "b < n" shows "(a * n + b) div n = a" "(a * n + b) mod n = b"
  using assms by simp_all

lemma MPN2IDX_pos:
  assumes "PHYSTRACK_MPN2IDX m = (p1, p2, p3)"
  shows "unat m div (PHYSTRACK_L2_ENTRIES * PHYSTRACK_L3_ENTRIES) = p1"
    "unat m mod (PHYSTRACK_L2_ENTRIES * PHYSTRACK_L3_ENTRIES) = p2 * PHYSTRACK_L3_ENTRIES + p3"
proof -
  note p = MPN2IDX [OF assms]
  have "unat m = p1 * (PHYSTRACK_L2_ENTRIES * PHYSTRACK_L3_ENTRIES) + (p2 * PHYSTRACK_L3_ENTRIES + p3)"
    by (simp add: p(4) algebra_simps)
  moreover have "p2 * PHYSTRACK_L3_ENTRIES + p3 < PHYSTRACK_L2_ENTRIES * PHYSTRACK_L3_ENTRIES"
    using p(2,3) by (simp add: phys_sizes)
  ultimately show "unat m div (PHYSTRACK_L2_ENTRIES * PHYSTRACK_L3_ENTRIES) = p1"
    "unat m mod (PHYSTRACK_L2_ENTRIES * PHYSTRACK_L3_ENTRIES) = p2 * PHYSTRACK_L3_ENTRIES + p3"
    by (simp_all add: pos_div_mod)
qed

lemma tracked_iff:
  assumes "PHYSTRACK_MPN2IDX m = (p1, p2, p3)"
  shows "m \<in> tracked t \<longleftrightarrow> (\<exists>d2 d3. pt_dir t ! p1 = Some d2 \<and> d2 ! p2 = Some d3 \<and> bit_tracked d3 p3)"
  using MPN2IDX(3) [OF assms]
  by (simp add: tracked_def L1_bit_def L2_bit_def MPN2IDX_pos [OF assms] pos_div_mod split: option.split)

lemma Test_iff [simp]: "PhysTrack_Test t m \<longleftrightarrow> m \<in> tracked t"
proof -
  obtain p1 p2 p3 where i: "PHYSTRACK_MPN2IDX m = (p1, p2, p3)" by (rule prod_cases3)
  have "\<not> PHYSTRACK_L1_ENTRIES \<le> p1" using MPN2IDX(1) [OF i] by simp
  then show ?thesis
    by (simp add: tracked_iff [OF i] PhysTrack_Test_def i bit_tracked_def split: option.split)
qed


text \<open>Replacing one bitmap changes the bit of one page.\<close>

lemma bit_tracked_set:
  assumes "L3_ok d" "p3 < PHYSTRACK_L3_ENTRIES" "PHYSTRACK_GETL3POS p3 = (pos, b)"
  shows "bit_tracked (d[pos := d ! pos OR b]) i \<longleftrightarrow> (if i = p3 then True else bit_tracked d i)"
    and "bit_tracked (d[pos := d ! pos AND NOT b]) i \<longleftrightarrow> (if i = p3 then False else bit_tracked d i)"
proof -
  have b: "pos = p3 div 8" "b = push_bit (p3 mod 8) 1" using assms(3) by (simp_all add: PHYSTRACK_GETL3POS_def)
  have l: "p3 div 8 < length d" using assms(1,2) by (simp add: L3_ok_def phys_sizes less_mult_imp_div_less)
  have same: "i = p3 \<longleftrightarrow> i div 8 = p3 div 8 \<and> i mod 8 = p3 mod 8" by (metis div_mult_mod_eq)
  have bit: "bit b n \<longleftrightarrow> n = p3 mod 8" for n
    by (auto simp: b push_bit_of_1 bit_exp_iff)
  have n8: "bit (NOT b) (i mod 8) \<longleftrightarrow> i mod 8 \<noteq> p3 mod 8"
    by (simp add: bit_not_iff bit)
  show "bit_tracked (d[pos := d ! pos OR b]) i \<longleftrightarrow> (if i = p3 then True else bit_tracked d i)"
    using l by (simp add: bit_tracked_iff nth_list_update b(1) bit_or_iff bit same)
  show "bit_tracked (d[pos := d ! pos AND NOT b]) i \<longleftrightarrow> (if i = p3 then False else bit_tracked d i)"
    using l n8 by (auto simp: bit_tracked_iff nth_list_update b(1) bit_and_iff same)
qed

lemma update_bitmap:
  assumes ok: "pt_ok t" and i: "PHYSTRACK_MPN2IDX m = (p1, p2, p3)"
    and d2: "pt_dir t ! p1 = Some d2 \<or> pt_dir t ! p1 = None \<and> d2 = zero_L2"
    and d3: "d2 ! p2 = Some d3 \<or> d2 ! p2 = None \<and> d3 = zero_L3"
    and new: "\<And>j. bit_tracked d3' j \<longleftrightarrow> (if j = p3 then v else bit_tracked d3 j)" "L3_ok d3'"
  defines "t' \<equiv> t\<lparr>pt_dir := (pt_dir t)[p1 := Some (d2[p2 := Some d3'])]\<rparr>"
  shows "pt_ok t' \<and> tracked t' = (if v then insert m (tracked t) else tracked t - {m})"
proof
  note p = MPN2IDX [OF i]
  have l1: "p1 < length (pt_dir t)" using ok p(1) by (simp add: pt_ok_def)
  have d2ok: "L2_ok d2" using d2 ok l1 by (auto simp: pt_ok_def) (metis nth_mem)
  have l2: "p2 < length d2" using d2ok p(2) by (simp add: L2_ok_def)
  have "L2_ok (d2[p2 := Some d3'])"
    using d2ok new(2) by (auto simp: L2_ok_def dest!: set_update_subset_insert [THEN subsetD])
  then show "pt_ok t'"
    using ok by (auto simp: pt_ok_def t'_def dest!: set_update_subset_insert [THEN subsetD])
  show "tracked t' = (if v then insert m (tracked t) else tracked t - {m})"
  proof (rule set_eqI)
    fix x
    obtain q1 q2 q3 where j: "PHYSTRACK_MPN2IDX x = (q1, q2, q3)" by (rule prod_cases3)
    note q = MPN2IDX [OF j]
    have eq: "x = m \<longleftrightarrow> q1 = p1 \<and> q2 = p2 \<and> q3 = p3"
    proof
      assume "q1 = p1 \<and> q2 = p2 \<and> q3 = p3"
      then have "unat x = unat m" using p(4) q(4) by simp
      then show "x = m" by (simp add: unsigned_word_eqI)
    qed (use i j in auto)
    have z: "\<not> bit_tracked zero_L3 q3" using q(3) by simp
    have n: "zero_L2 ! q2 = None" using q(2) by (simp add: zero_L2_def)
    consider (other) "q1 \<noteq> p1" | (dir) "q1 = p1" "q2 \<noteq> p2" | (map) "q1 = p1" "q2 = p2" by blast
    then show "x \<in> tracked t' \<longleftrightarrow> x \<in> (if v then insert m (tracked t) else tracked t - {m})"
    proof cases
      case other
      then show ?thesis by (simp add: tracked_iff [OF j] t'_def eq)
    next
      case dir
      have "x \<in> tracked t' \<longleftrightarrow> (\<exists>d3. d2 ! q2 = Some d3 \<and> bit_tracked d3 q3)"
        using dir l1 by (simp add: tracked_iff [OF j] t'_def)
      also have "\<dots> \<longleftrightarrow> x \<in> tracked t" using d2 n dir by (auto simp: tracked_iff [OF j])
      finally show ?thesis using dir by (simp add: eq)
    next
      case map
      have "x \<in> tracked t' \<longleftrightarrow> bit_tracked d3' q3"
        using map l1 l2 by (simp add: tracked_iff [OF j] t'_def)
      moreover have "x \<in> tracked t \<longleftrightarrow> bit_tracked d3 q3"
        using d2 d3 n z map by (auto simp: tracked_iff [OF j])
      ultimately show ?thesis using map by (simp add: eq new(1))
    qed
  qed
qed

text \<open>The operations on the set.\<close>

lemma PhysTrack_Add_set:
  assumes ok: "pt_ok t"
  shows "PhysTrack_Add True True m t = None \<longleftrightarrow> m \<in> tracked t"
    and "PhysTrack_Add a2 a3 m t = Some t' \<Longrightarrow> pt_ok t' \<and> tracked t' = insert m (tracked t) \<and> m \<notin> tracked t
      \<and> numVMs t' = numVMs t"
proof -
  obtain p1 p2 p3 where i: "PHYSTRACK_MPN2IDX m = (p1, p2, p3)" by (rule prod_cases3)
  obtain pos b where b: "PHYSTRACK_GETL3POS p3 = (pos, b)" by fastforce
  note p = MPN2IDX [OF i]
  let ?A = "\<lambda>a2. case pt_dir t ! p1 of Some dir2 \<Rightarrow> Some dir2 | None \<Rightarrow> if a2 then Some zero_L2 else None"
  have z2: "zero_L2 ! p2 = None" using p(2) by (simp add: zero_L2_def)
  have z3: "\<not> bit_tracked zero_L3 p3" using p(3) by simp
  show "PhysTrack_Add True True m t = None \<longleftrightarrow> m \<in> tracked t"
    using z2 z3 by (auto simp: PhysTrack_Add_def i b tracked_iff [OF i] PhysTrackAllocL3_def
        bit_tracked_fold [OF b] split: option.splits)
  assume "PhysTrack_Add a2 a3 m t = Some t'"
  then obtain d2 d3 d2' where d: "?A a2 = Some d2" "PhysTrackAllocL3 a3 d2 p2 = Some (d3, d2')"
    and nb: "\<not> bit_tracked d3 p3"
    and t': "t' = t\<lparr>pt_dir := (pt_dir t)[p1 := Some (d2'[p2 := Some (d3[pos := d3 ! pos OR b])])]\<rparr>"
    by (auto simp: PhysTrack_Add_def i b bit_tracked_fold [OF b] split: option.split_asm if_split_asm)
  have d2: "pt_dir t ! p1 = Some d2 \<or> pt_dir t ! p1 = None \<and> d2 = zero_L2"
    using d(1) by (auto split: option.splits if_splits)
  have d3: "d2 ! p2 = Some d3 \<or> d2 ! p2 = None \<and> d3 = zero_L3" and d2': "d2'[p2 := x] = d2[p2 := x]" for x
    using d(2) by (auto simp: PhysTrackAllocL3_def split: option.splits if_splits)
  have l1: "p1 < length (pt_dir t)" using ok p(1) by (simp add: pt_ok_def)
  have d2ok: "L2_ok d2" using d2 ok l1 by (auto simp: pt_ok_def) (metis nth_mem)
  then have d3ok: "L3_ok d3" using d3 p(2) by (auto simp: L2_ok_def) (metis nth_mem)
  have "m \<notin> tracked t" using d2 d3 nb z2 by (auto simp: tracked_iff [OF i])
  moreover have "pt_ok t' \<and> tracked t' = (if True then insert m (tracked t) else tracked t - {m})"
    unfolding t' d2'
    by (rule update_bitmap [OF ok i d2 d3]) (use bit_tracked_set(1) [OF d3ok p(3) b] d3ok in \<open>simp_all add: L3_ok_def\<close>)
  ultimately show "pt_ok t' \<and> tracked t' = insert m (tracked t) \<and> m \<notin> tracked t \<and> numVMs t' = numVMs t"
    by (simp add: t')
qed

lemma PhysTrack_Remove_set:
  assumes ok: "pt_ok t"
  shows "PhysTrack_Remove m t = None \<longleftrightarrow> m \<notin> tracked t"
    and "PhysTrack_Remove m t = Some t' \<Longrightarrow> pt_ok t' \<and> tracked t' = tracked t - {m} \<and> m \<in> tracked t
      \<and> numVMs t' = numVMs t"
proof -
  obtain p1 p2 p3 where i: "PHYSTRACK_MPN2IDX m = (p1, p2, p3)" by (rule prod_cases3)
  obtain pos b where b: "PHYSTRACK_GETL3POS p3 = (pos, b)" by fastforce
  note p = MPN2IDX [OF i]
  have nb: "d ! pos AND b = 0 \<longleftrightarrow> \<not> bit_tracked d p3" for d using bit_tracked_fold [OF b] by blast
  show "PhysTrack_Remove m t = None \<longleftrightarrow> m \<notin> tracked t"
    by (simp add: PhysTrack_Remove_def i b tracked_iff [OF i] nb split: option.splits)
  assume "PhysTrack_Remove m t = Some t'"
  then obtain d2 d3 where d: "pt_dir t ! p1 = Some d2" "d2 ! p2 = Some d3" and bt: "bit_tracked d3 p3"
    and t': "t' = t\<lparr>pt_dir := (pt_dir t)[p1 := Some (d2[p2 := Some (d3[pos := d3 ! pos AND NOT b])])]\<rparr>"
    by (auto simp: PhysTrack_Remove_def i b nb split: option.splits if_splits)
  have l1: "p1 < length (pt_dir t)" using ok p(1) by (simp add: pt_ok_def)
  have "L2_ok d2" using d ok l1 by (auto simp: pt_ok_def) (metis nth_mem)
  then have d3ok: "L3_ok d3" using d p(2) by (auto simp: L2_ok_def) (metis nth_mem)
  have "m \<in> tracked t" using d bt by (simp add: tracked_iff [OF i])
  moreover have "pt_ok t' \<and> tracked t' = (if False then insert m (tracked t) else tracked t - {m})"
    unfolding t'
    by (rule update_bitmap [OF ok i]) (use d bit_tracked_set(2) [OF d3ok p(3) b] d3ok in \<open>simp_all add: L3_ok_def\<close>)
  ultimately show "pt_ok t' \<and> tracked t' = tracked t - {m} \<and> m \<in> tracked t \<and> numVMs t' = numVMs t"
    by (simp add: t')
qed


subsection \<open>The next tracked page\<close>

text \<open>\<open>r\<close> is the first position from \<open>lo\<close> on, and below \<open>hi\<close>, with the property.\<close>

definition first_from :: "(nat \<Rightarrow> bool) \<Rightarrow> nat \<Rightarrow> nat \<Rightarrow> nat option \<Rightarrow> bool" where
  "first_from P lo hi r \<longleftrightarrow> (case r of
     None \<Rightarrow> (\<forall>i. lo \<le> i \<longrightarrow> i < hi \<longrightarrow> \<not> P i)
   | Some q \<Rightarrow> lo \<le> q \<and> q < hi \<and> P q \<and> (\<forall>i. lo \<le> i \<longrightarrow> i < q \<longrightarrow> \<not> P i))"

lemma first_from_step:
  assumes "lo < hi" "\<not> P lo" "first_from P (Suc lo) hi r"
  shows "first_from P lo hi r"
proof -
  have "\<not> P i" if "lo \<le> i" "i < n" "\<And>j. Suc lo \<le> j \<Longrightarrow> j < n \<Longrightarrow> \<not> P j" for i n
    using that assms(2) by (cases "i = lo") auto
  then show ?thesis using assms(3) by (cases r) (auto simp: first_from_def)
qed

text \<open>Searching one block of \<open>N\<close> positions, and then the blocks that follow.\<close>

lemma first_from_block:
  assumes Q: "\<And>i. i < N \<Longrightarrow> P (p * N + i) \<longleftrightarrow> Q i" and b: "b < N"
    and inner: "first_from Q b N r" and rest: "r = None \<Longrightarrow> first_from P (Suc p * N) hi rest" and hi: "Suc p * N \<le> hi"
  shows "first_from P (p * N + b) hi (case r of Some q \<Rightarrow> Some (p * N + q) | None \<Rightarrow> rest)"
proof (cases r)
  case (Some q)
  then have q: "b \<le> q" "q < N" "Q q" "\<And>i. b \<le> i \<Longrightarrow> i < q \<Longrightarrow> \<not> Q i" using inner by (simp_all add: first_from_def)
  have "\<not> P i" if "p * N + b \<le> i" "i < p * N + q" for i
  proof -
    have "P (p * N + (i - p * N)) \<longleftrightarrow> Q (i - p * N)" using that q(2) by (intro Q) simp
    moreover have "\<not> Q (i - p * N)" using that by (intro q(4)) auto
    ultimately show ?thesis using that by simp
  qed
  moreover have "p * N + q < hi" using q(2) hi by simp
  ultimately show ?thesis using Some q(1,3) Q [OF q(2)] by (simp add: first_from_def)
next
  case None
  then have n: "\<not> Q i" if "b \<le> i" "i < N" for i using inner that by (simp add: first_from_def)
  have "\<not> P i" if "p * N + b \<le> i" "i < Suc p * N" for i
  proof -
    have "P (p * N + (i - p * N)) \<longleftrightarrow> Q (i - p * N)" using that by (intro Q) simp
    moreover have "\<not> Q (i - p * N)" using that by (intro n) auto
    ultimately show ?thesis using that by simp
  qed
  then have low: "\<not> P i" if "p * N + b \<le> i" "i < n" "\<And>j. Suc p * N \<le> j \<Longrightarrow> j < n \<Longrightarrow> \<not> P j" for i n
    using that by (cases "i < Suc p * N") auto
  show ?thesis
  proof (cases rest)
    case None
    then have "\<not> P j" if "Suc p * N \<le> j" "j < hi" for j using rest \<open>r = None\<close> that by (simp add: first_from_def)
    then show ?thesis using low [of _ hi] \<open>r = None\<close> None by (simp add: first_from_def)
  next
    case (Some q)
    then have q: "Suc p * N \<le> q" "q < hi" "P q" "\<And>j. Suc p * N \<le> j \<Longrightarrow> j < q \<Longrightarrow> \<not> P j"
      using rest \<open>r = None\<close> by (simp_all add: first_from_def)
    then show ?thesis using low [of _ q] \<open>r = None\<close> Some b by (simp add: first_from_def)
  qed
qed

lemma next_L3_first: "first_from (bit_tracked d) p PHYSTRACK_L3_ENTRIES (next_L3 d p)"
proof (induction d p rule: next_L3.induct)
  case (1 d p)
  obtain pos b where b: "PHYSTRACK_GETL3POS p = (pos, b)" by fastforce
  have nb: "d ! pos AND b = 0 \<longleftrightarrow> \<not> bit_tracked d p" using bit_tracked_fold [OF b] by blast
  show ?case
  proof (cases "p < PHYSTRACK_L3_ENTRIES \<and> \<not> bit_tracked d p")
    case True
    then have "next_L3 d p = next_L3 d (Suc p)"
      by (subst next_L3.simps) (simp add: b nb)
    moreover have "first_from (bit_tracked d) (Suc p) PHYSTRACK_L3_ENTRIES (next_L3 d (Suc p))"
      using True by (intro "1.IH" [OF _ b [symmetric] refl]) (simp_all add: nb)
    ultimately show ?thesis using True by (auto intro: first_from_step)
  next
    case False
    then have "next_L3 d p = (if PHYSTRACK_L3_ENTRIES \<le> p then None else Some p)"
      by (subst next_L3.simps) (auto simp: b nb)
    then show ?thesis using False by (auto simp: first_from_def)
  qed
qed

lemma first_from_empty: "hi \<le> lo \<Longrightarrow> first_from P lo hi None"
  by (simp add: first_from_def)

abbreviation L2_bits :: nat where "L2_bits \<equiv> PHYSTRACK_L2_ENTRIES * PHYSTRACK_L3_ENTRIES"
abbreviation L1_bits :: nat where "L1_bits \<equiv> PHYSTRACK_L1_ENTRIES * L2_bits"
abbreviation idx2 :: "nat \<times> nat \<Rightarrow> nat" where "idx2 \<equiv> \<lambda>(a, b). a * PHYSTRACK_L3_ENTRIES + b"
abbreviation idx1 :: "nat \<times> nat \<times> nat \<Rightarrow> nat" where "idx1 \<equiv> \<lambda>(a, b, c). a * L2_bits + (b * PHYSTRACK_L3_ENTRIES + c)"

lemma next_L2_first:
  "p3 < PHYSTRACK_L3_ENTRIES \<Longrightarrow>
     first_from (L2_bit d2) (p2 * PHYSTRACK_L3_ENTRIES + p3) L2_bits (map_option idx2 (next_L2 d2 p2 p3))"
proof (induction d2 p2 p3 rule: next_L2.induct)
  case (1 d2 p2 p3)
  show ?case
  proof (cases "PHYSTRACK_L2_ENTRIES \<le> p2")
    case True
    then have "L2_bits \<le> p2 * PHYSTRACK_L3_ENTRIES + p3" by (intro trans_le_add1 mult_le_mono1)
    moreover have "next_L2 d2 p2 p3 = None" using True by (subst next_L2.simps) simp
    ultimately show ?thesis by (simp add: first_from_empty)
  next
    case False
    define r where "r = (case d2 ! p2 of None \<Rightarrow> None | Some d3 \<Rightarrow> next_L3 d3 p3)"
    define Q where "Q = (\<lambda>i. case d2 ! p2 of None \<Rightarrow> False | Some d3 \<Rightarrow> bit_tracked d3 i)"
    have step: "map_option idx2 (next_L2 d2 p2 p3) = (case r of Some q \<Rightarrow> Some (p2 * PHYSTRACK_L3_ENTRIES + q)
        | None \<Rightarrow> map_option idx2 (next_L2 d2 (Suc p2) 0))"
      using False by (subst next_L2.simps) (simp add: r_def split: option.split)
    show ?thesis unfolding step
    proof (rule first_from_block)
      show "L2_bit d2 (p2 * PHYSTRACK_L3_ENTRIES + i) \<longleftrightarrow> Q i" if "i < PHYSTRACK_L3_ENTRIES" for i
        using that by (cases "d2 ! p2") (simp_all add: L2_bit_def pos_div_mod Q_def)
      show "first_from Q p3 PHYSTRACK_L3_ENTRIES r"
        using next_L3_first by (cases "d2 ! p2") (simp add: Q_def r_def first_from_def, simp add: Q_def r_def)
      show "Suc p2 * PHYSTRACK_L3_ENTRIES \<le> L2_bits" using False by (intro mult_le_mono1) simp
      show "first_from (L2_bit d2) (Suc p2 * PHYSTRACK_L3_ENTRIES) L2_bits (map_option idx2 (next_L2 d2 (Suc p2) 0))"
        if "r = None"
        using "1.IH" False that by (cases "d2 ! p2") (simp_all add: r_def phys_sizes)
    qed (use 1 in simp)
  qed
qed

lemma next_L1_first:
  "p2 < PHYSTRACK_L2_ENTRIES \<Longrightarrow> p3 < PHYSTRACK_L3_ENTRIES \<Longrightarrow>
     first_from (L1_bit d) (idx1 (p1, p2, p3)) L1_bits (map_option idx1 (next_L1 d p1 p2 p3))"
proof (induction d p1 p2 p3 rule: next_L1.induct)
  case (1 d p1 p2 p3)
  show ?case
  proof (cases "PHYSTRACK_L1_ENTRIES \<le> p1")
    case True
    then have "L1_bits \<le> idx1 (p1, p2, p3)" by (auto intro: trans_le_add1 mult_le_mono1)
    moreover have "next_L1 d p1 p2 p3 = None" using True by (subst next_L1.simps) simp
    ultimately show ?thesis by (simp add: first_from_empty)
  next
    case False
    define r where "r = (case d ! p1 of None \<Rightarrow> None | Some d2 \<Rightarrow> map_option idx2 (next_L2 d2 p2 p3))"
    define Q where "Q = (\<lambda>i. case d ! p1 of None \<Rightarrow> False | Some d2 \<Rightarrow> L2_bit d2 i)"
    have step: "map_option idx1 (next_L1 d p1 p2 p3) = (case r of Some q \<Rightarrow> Some (p1 * L2_bits + q)
        | None \<Rightarrow> map_option idx1 (next_L1 d (Suc p1) 0 0))"
      using False by (subst next_L1.simps) (auto simp: r_def split: option.split)
    have b: "p2 * PHYSTRACK_L3_ENTRIES + p3 < L2_bits" using "1.prems" by (simp add: phys_sizes)
    have "first_from (L1_bit d) (p1 * L2_bits + (p2 * PHYSTRACK_L3_ENTRIES + p3)) L1_bits
        (map_option idx1 (next_L1 d p1 p2 p3))"
      unfolding step
    proof (rule first_from_block)
      show "L1_bit d (p1 * L2_bits + i) \<longleftrightarrow> Q i" if "i < L2_bits" for i
        using that by (cases "d ! p1") (simp_all add: L1_bit_def pos_div_mod Q_def)
      show "first_from Q (p2 * PHYSTRACK_L3_ENTRIES + p3) L2_bits r"
        using next_L2_first "1.prems"(2)
        by (cases "d ! p1") (simp add: Q_def r_def first_from_def, simp add: Q_def r_def)
      show "Suc p1 * L2_bits \<le> L1_bits" using False by (intro mult_le_mono1) simp
      show "first_from (L1_bit d) (Suc p1 * L2_bits) L1_bits (map_option idx1 (next_L1 d (Suc p1) 0 0))"
        if "r = None"
        using "1.IH" False that by (cases "d ! p1") (simp_all add: r_def phys_sizes)
    qed (use b in simp)
    then show ?thesis by simp
  qed
qed

text \<open>The next page is the least tracked page above; the pages after the last wrap to the first.\<close>

lemma GetNext_first:
  "(if \<exists>x \<in> tracked t. m + 1 \<le> x then PhysTrack_GetNext t m \<in> tracked t \<and> m + 1 \<le> PhysTrack_GetNext t m
      \<and> (\<forall>x \<in> tracked t. m + 1 \<le> x \<longrightarrow> PhysTrack_GetNext t m \<le> x)
    else PhysTrack_GetNext t m = INVALID_MPN)"
proof -
  obtain p1 p2 p3 where i: "PHYSTRACK_MPN2IDX (m + 1) = (p1, p2, p3)" by (rule prod_cases3)
  note p = MPN2IDX [OF i]
  have u: "unat (m + 1) = idx1 (p1, p2, p3)" unfolding p(4) by (simp add: algebra_simps)
  have f: "first_from (L1_bit (pt_dir t)) (unat (m + 1)) L1_bits (map_option idx1 (next_L1 (pt_dir t) p1 p2 p3))"
    unfolding u by (rule next_L1_first [OF p(2,3)])
  have bits: "L1_bits = 2 ^ 32" by (simp add: phys_sizes)
  show ?thesis
  proof (cases "next_L1 (pt_dir t) p1 p2 p3")
    case None
    then have "\<not> (\<exists>x \<in> tracked t. m + 1 \<le> x)"
      using f unat32_less by (auto simp: first_from_def tracked_def bits word_le_nat_alt)
    moreover have "PhysTrack_GetNext t m = INVALID_MPN" using None by (simp add: PhysTrack_GetNext_def i)
    ultimately show ?thesis by simp
  next
    case (Some q)
    obtain q1 q2 q3 where q: "q = (q1, q2, q3)" by (rule prod_cases3)
    define n where "n = idx1 q"
    have g: "PhysTrack_GetNext t m = of_nat n"
      unfolding PhysTrack_GetNext_def i n_def q using Some
      by (simp add: q distrib_right mult.assoc add.assoc del: of_nat_add of_nat_mult)
    have f': "unat (m + 1) \<le> n" "n < 2 ^ 32" "L1_bit (pt_dir t) n" "\<And>k. unat (m + 1) \<le> k \<Longrightarrow> k < n \<Longrightarrow> \<not> L1_bit (pt_dir t) k"
      using f Some by (simp_all add: first_from_def n_def bits)
    have un: "unat (of_nat n :: u32) = n" using f'(2) by (simp add: unsigned_of_nat take_bit_nat_eq_self)
    have "of_nat n \<in> tracked t" "m + 1 \<le> of_nat n" using f' by (simp_all add: tracked_def un word_le_nat_alt)
    moreover have "of_nat n \<le> x" if "x \<in> tracked t" "m + 1 \<le> x" for x
      using f'(4) [of "unat x"] that by (force simp: tracked_def un word_le_nat_alt)
    ultimately show ?thesis unfolding g by auto
  qed
qed


lemma zero_tracker [simp]: "pt_ok zero_tracker" "tracked zero_tracker = {}"
proof -
  show "pt_ok zero_tracker" by (simp add: pt_ok_def zero_tracker_def)
  show "tracked zero_tracker = {}"
  proof (rule equals0I)
    fix m
    obtain p1 p2 p3 where i: "PHYSTRACK_MPN2IDX m = (p1, p2, p3)" by (rule prod_cases3)
    assume "m \<in> tracked zero_tracker"
    then show False using MPN2IDX(1) [OF i] by (simp add: tracked_iff [OF i] zero_tracker_def)
  qed
qed

lemma numVMs_frame [simp]: "tracked (t\<lparr>numVMs := n\<rparr>) = tracked t" "pt_ok (t\<lparr>numVMs := n\<rparr>) = pt_ok t"
  by (simp_all add: tracked_def pt_ok_def)

text \<open>The check of the cleanup finds exactly the pages that are tracked.\<close>

lemma still_locked_iff:
  assumes ok: "pt_ok t"
  shows "still_locked t \<longleftrightarrow> tracked t \<noteq> {}"
proof
  assume "tracked t \<noteq> {}"
  then obtain m where m: "m \<in> tracked t" by blast
  obtain p1 p2 p3 where i: "PHYSTRACK_MPN2IDX m = (p1, p2, p3)" by (rule prod_cases3)
  note p = MPN2IDX [OF i]
  obtain d2 d3 where d: "pt_dir t ! p1 = Some d2" "d2 ! p2 = Some d3" "bit_tracked d3 p3"
    using m by (auto simp: tracked_iff [OF i])
  have 1: "Some d2 \<in> set (pt_dir t)" using ok p(1) d(1) by (metis nth_mem pt_ok_def)
  then have l2: "L2_ok d2" using ok by (simp add: pt_ok_def)
  then have 2: "Some d3 \<in> set d2" using p(2) d(2) by (metis nth_mem L2_ok_def)
  then have "p3 div 8 < length d3" using l2 p(3) by (simp add: L2_ok_def L3_ok_def phys_sizes less_mult_imp_div_less)
  then have 3: "d3 ! (p3 div 8) \<in> set d3" by simp
  have "d3 ! (p3 div 8) \<noteq> 0" using d(3) by (auto simp: bit_tracked_iff)
  then show "still_locked t" using 1 2 3 by (force simp: still_locked_def list_ex_iff)
next
  assume "still_locked t"
  then obtain d2 d3 b where d: "Some d2 \<in> set (pt_dir t)" "Some d3 \<in> set d2" "b \<in> set d3" "b \<noteq> 0"
    by (auto simp: still_locked_def list_ex_iff split: option.splits)
  obtain n where n: "n < 8" "bit b n" using d(4) by (auto simp: bit_eq_iff dest: bit_imp_le_length)
  have l2: "L2_ok d2" using d(1) ok by (simp add: pt_ok_def)
  obtain p1 where p1: "p1 < PHYSTRACK_L1_ENTRIES" "pt_dir t ! p1 = Some d2"
    using d(1) ok by (auto simp: in_set_conv_nth pt_ok_def)
  obtain p2 where p2: "p2 < PHYSTRACK_L2_ENTRIES" "d2 ! p2 = Some d3"
    using d(2) l2 by (auto simp: in_set_conv_nth L2_ok_def)
  obtain k where k: "k < BYTES_PER_ENTRY" "d3 ! k = b"
    using d(2,3) l2 by (auto simp: in_set_conv_nth L2_ok_def L3_ok_def)
  have p3: "k * 8 + n < PHYSTRACK_L3_ENTRIES" using k(1) n(1) by (simp add: phys_sizes)
  define i where "i = (p1 * PHYSTRACK_L2_ENTRIES + p2) * PHYSTRACK_L3_ENTRIES + (k * 8 + n)"
  have "i < 2 ^ 32" using p1(1) p2(1) p3 by (simp add: i_def phys_sizes)
  then have u: "unat (of_nat i :: u32) = i" by (simp add: unsigned_of_nat take_bit_nat_eq_self)
  have "PHYSTRACK_MPN2IDX (of_nat i) = (p1, p2, k * 8 + n)"
    unfolding PHYSTRACK_MPN2IDX_def Let_def u unfolding i_def using p2(1) p3 by (simp add: pos_div_mod)
  then have "of_nat i \<in> tracked t"
    using p1 p2 k n by (simp add: tracked_iff bit_tracked_iff pos_div_mod)
  then show "tracked t \<noteq> {}" by blast
qed

subsection \<open>The interface of a page tracker\<close>

text \<open>The loop \<open>for (mpn = 0; INVALID_MPN != (mpn = PhysTrack_GetNext (pt, mpn));)\<close> of the users.\<close>

partial_function (option) for_each_page ::
  "('s \<Rightarrow> MPN \<Rightarrow> MPN) \<Rightarrow> (MPN \<Rightarrow> 's \<Rightarrow> 's option) \<Rightarrow> MPN \<Rightarrow> 's \<Rightarrow> 's option" where
  "for_each_page get_next body mpn s =
     (let m = get_next s mpn
      in if m = INVALID_MPN then Some s
         else case body m s of None \<Rightarrow> None | Some s' \<Rightarrow> for_each_page get_next body m s')"

definition is_next :: "MPN set \<Rightarrow> MPN \<Rightarrow> MPN \<Rightarrow> bool" where
  "is_next S m n \<longleftrightarrow> (if \<exists>x \<in> S. m + 1 \<le> x then n \<in> S \<and> m + 1 \<le> n \<and> (\<forall>x \<in> S. m + 1 \<le> x \<longrightarrow> n \<le> x)
    else n = INVALID_MPN)"

locale page_set =
  fixes inv :: "'s \<Rightarrow> bool" and pages :: "'s \<Rightarrow> MPN set" and get_next :: "'s \<Rightarrow> MPN \<Rightarrow> MPN"
    and body :: "MPN \<Rightarrow> 's \<Rightarrow> 's option"
  assumes get_next: "inv s \<Longrightarrow> is_next (pages s) m (get_next s m)"
    and body: "inv s \<Longrightarrow> m \<in> pages s \<Longrightarrow> \<exists>s'. body m s = Some s' \<and> inv s' \<and> pages s' = pages s - {m}"
begin

lemma for_each_page_drains:
  assumes "inv s" "m \<noteq> INVALID_MPN"
  shows "\<exists>s'. for_each_page get_next body m s = Some s' \<and> inv s'
    \<and> pages s' = {x \<in> pages s. x \<le> m \<or> x = INVALID_MPN}"
  using assms
proof (induction "card {x \<in> pages s. m < x}" arbitrary: s m rule: less_induct)
  case less
  have inc: "m + 1 \<le> x \<longleftrightarrow> m < x" for x
  proof -
    have "m < - 1" using less.prems(2) by (simp add: INVALID_MPN_def word_order.not_eq_extremum)
    then show ?thesis by (simp add: word_le_nat_alt word_less_nat_alt unat_inc_less Suc_le_eq)
  qed
  let ?n = "get_next s m"
  show ?case
  proof (cases "?n = INVALID_MPN")
    case True
    have top: "x = INVALID_MPN" if "INVALID_MPN \<le> x" for x
      using that unfolding INVALID_MPN_def by (rule word_order.extremum_uniqueI)
    have "\<forall>x \<in> pages s. m < x \<longrightarrow> INVALID_MPN \<le> x"
      using get_next [OF less.prems(1), of m] unfolding is_next_def inc True by (metis (full_types))
    then have "x \<le> m \<or> x = INVALID_MPN" if "x \<in> pages s" for x
      using that top not_le by blast
    then have "pages s = {x \<in> pages s. x \<le> m \<or> x = INVALID_MPN}" by blast
    moreover have "for_each_page get_next body m s = Some s"
      by (subst for_each_page.simps) (simp add: True)
    ultimately show ?thesis using less.prems(1) by metis
  next
    case False
    then have n: "?n \<in> pages s" "m < ?n" "\<And>x. x \<in> pages s \<Longrightarrow> m < x \<Longrightarrow> ?n \<le> x"
      using get_next [OF less.prems(1), of m] False unfolding is_next_def inc by (metis (full_types))+
    obtain s' where s': "body ?n s = Some s'" "inv s'" "pages s' = pages s - {?n}"
      using body [OF less.prems(1) n(1)] by blast
    have "card {x \<in> pages s'. ?n < x} < card {x \<in> pages s. m < x}"
    proof (rule psubset_card_mono)
      show "finite {x \<in> pages s. m < x}" by simp
      show "{x \<in> pages s'. ?n < x} \<subset> {x \<in> pages s. m < x}" using n s'(3) by auto
    qed
    then obtain t where t: "for_each_page get_next body ?n s' = Some t" "inv t"
        "pages t = {x \<in> pages s'. x \<le> ?n \<or> x = INVALID_MPN}"
      using less.hyps [OF _ s'(2) False] by blast
    have "for_each_page get_next body m s = Some t"
      by (subst for_each_page.simps) (simp add: False s'(1) t(1))
    moreover have "pages t = {x \<in> pages s. x \<le> m \<or> x = INVALID_MPN}"
    proof (rule set_eqI)
      fix x
      have "x \<le> ?n \<and> x \<noteq> ?n \<longleftrightarrow> x \<le> m" if "x \<in> pages s"
        using n(2) n(3) [OF that] by (meson leD le_less_linear less_imp_le order.trans order.strict_iff_order)
      then show "x \<in> pages t \<longleftrightarrow> x \<in> {x \<in> pages s. x \<le> m \<or> x = INVALID_MPN}"
        unfolding t(3) s'(3) mem_Collect_eq Diff_iff using False by blast
    qed
    ultimately show ?thesis using t(2) by blast
  qed
qed

end

lemma Remove_pages:
  assumes "pt_ok t" "m \<in> tracked t"
  shows "\<exists>t'. PhysTrack_Remove m t = Some t' \<and> pt_ok t' \<and> tracked t' = tracked t - {m}"
proof -
  obtain t' where "PhysTrack_Remove m t = Some t'" using PhysTrack_Remove_set(1) [OF assms(1)] assms(2) by blast
  then show ?thesis using PhysTrack_Remove_set(2) [OF assms(1)] by blast
qed

lemma GetNext_pages: "is_next (tracked t) m (PhysTrack_GetNext t m)"
  unfolding is_next_def by (rule GetNext_first)

interpretation tracker: page_set pt_ok tracked PhysTrack_GetNext PhysTrack_Remove
  by unfold_locales (rule GetNext_pages, rule Remove_pages)

subsection \<open>A tracker refines a set\<close>

datatype page_op = Track MPN | Untrack MPN

fun phys_op :: "page_op \<Rightarrow> PhysTracker \<Rightarrow> PhysTracker option" where
  "phys_op (Track m) t = PhysTrack_Add True True m t"
| "phys_op (Untrack m) t = PhysTrack_Remove m t"

fun set_op :: "page_op \<Rightarrow> MPN set \<Rightarrow> MPN set option" where
  "set_op (Track m) S = (if m \<in> S then None else Some (insert m S))"
| "set_op (Untrack m) S = (if m \<in> S then Some (S - {m}) else None)"

fun run_page_ops :: "(page_op \<Rightarrow> 's \<Rightarrow> 's option) \<Rightarrow> page_op list \<Rightarrow> 's \<Rightarrow> 's option" where
  "run_page_ops f [] s = Some s"
| "run_page_ops f (x # xs) s = Option.bind (f x s) (run_page_ops f xs)"

definition represents :: "PhysTracker \<Rightarrow> MPN set \<Rightarrow> bool" where
  "represents t S \<longleftrightarrow> pt_ok t \<and> tracked t = S"

lemma phys_op_represents:
  assumes "represents t S"
  shows "rel_option represents (phys_op x t) (set_op x S)"
proof (cases x)
  case (Track m)
  then show ?thesis
    using PhysTrack_Add_set [of t] assms
    by (cases "PhysTrack_Add True True m t") (auto simp: represents_def)
next
  case (Untrack m)
  then show ?thesis
    using PhysTrack_Remove_set [of t] assms
    by (cases "PhysTrack_Remove m t") (auto simp: represents_def)
qed

lemma run_represents:
  "represents t S \<Longrightarrow> rel_option represents (run_page_ops phys_op xs t) (run_page_ops set_op xs S)"
proof (induction xs arbitrary: t S)
  case (Cons x xs)
  from phys_op_represents [OF Cons.prems, of x] show ?case
    by (cases rule: option.rel_cases) (auto intro: Cons.IH)
qed simp


subsection \<open>Sharing of a tracker\<close>

lemma PhysTrack_Cleanup_shared:
  assumes "pt_ok (pt_mem s p)" "numVMs (pt_mem s p) \<noteq> 1"
  shows "PhysTrack_Cleanup p s = Some (upd_pt p (\<lambda>t. t\<lparr>numVMs := numVMs t - 1\<rparr>) s)"
  using assms by (simp add: PhysTrack_Cleanup_def upd_pt_def)

lemma PhysTrack_Cleanup_last:
  assumes "pt_ok (pt_mem s p)" "numVMs (pt_mem s p) = 1"
  shows "PhysTrack_Cleanup p s = (if tracked (pt_mem s p) \<noteq> {} then None
    else Some (upd_pt p (\<lambda>t. t\<lparr>numVMs := 0\<rparr>) s\<lparr>pt_live := pt_live s - {p},
      physTracker := (if physTracker s = Some p then None else physTracker s)\<rparr>))"
  using assms by (simp add: PhysTrack_Cleanup_def upd_pt_def still_locked_iff Let_def)

end
