(* ===== verification/MemTrack.thy ===== *)
theory MemTrack
  imports PhysTrack
begin

text \<open>
  The tracker of pinned virtual pages of \<open>vmmon-only/common/memtrack.c\<close> in the release build
  for 64-bit Linux: entries are handed out in order from a three level directory (13 directories
  of 512 pages of 170 entries), and a chained hash table finds them by virtual page.  The address
  of an entry is its place in the directories.  The page allocator's answers are arguments.
\<close>

type_synonym VPN64 = u64
type_synonym entry_ptr = "nat \<times> nat \<times> nat"

definition MEMTRACK_DIR3_ENTRIES :: nat where "MEMTRACK_DIR3_ENTRIES = 4096 div 24"
definition MEMTRACK_DIR2_ENTRIES :: nat where "MEMTRACK_DIR2_ENTRIES = 4096 div 8"
definition MEMTRACK_MAX_TRACKED :: nat where "MEMTRACK_MAX_TRACKED = 4096 * 2 ^ (20 - 12)"

definition MEMTRACK_DIR1_ENTRIES :: nat where
  "MEMTRACK_DIR1_ENTRIES =
     (MEMTRACK_MAX_TRACKED + (MEMTRACK_DIR2_ENTRIES * MEMTRACK_DIR3_ENTRIES - 1))
     div (MEMTRACK_DIR2_ENTRIES * MEMTRACK_DIR3_ENTRIES)"

definition MEMTRACK_HT_SIZE :: nat where "MEMTRACK_HT_SIZE = 16384"
definition MEMTRACK_HT_ENTRIES :: nat where "MEMTRACK_HT_ENTRIES = 4096 div 8"
definition MEMTRACK_HT_PAGES :: nat where "MEMTRACK_HT_PAGES = MEMTRACK_HT_SIZE div MEMTRACK_HT_ENTRIES"

lemma mt_sizes:
  "MEMTRACK_DIR3_ENTRIES = 170" "MEMTRACK_DIR2_ENTRIES = 512" "MEMTRACK_DIR1_ENTRIES = 13"
  "MEMTRACK_HT_SIZE = 16384" "MEMTRACK_HT_ENTRIES = 512" "MEMTRACK_HT_PAGES = 32"
  by (simp_all add: MEMTRACK_DIR3_ENTRIES_def MEMTRACK_DIR2_ENTRIES_def MEMTRACK_DIR1_ENTRIES_def
      MEMTRACK_MAX_TRACKED_def MEMTRACK_HT_SIZE_def MEMTRACK_HT_ENTRIES_def MEMTRACK_HT_PAGES_def)

record MemTrackEntry =
  me_vpn :: VPN64
  me_mpn :: MPN
  me_vpnChain :: "entry_ptr option"

type_synonym MemTrackDir3 = "MemTrackEntry list"
type_synonym MemTrackDir2 = "MemTrackDir3 option list"
type_synonym MemTrackDir1 = "MemTrackDir2 option list"
type_synonym MemTrackHT = "entry_ptr option list list"

record MemTrack =
  numPages :: u32
  mt_dir1 :: MemTrackDir1
  vpnHashTable :: MemTrackHT

definition zero_Dir3 :: MemTrackDir3 where
  "zero_Dir3 = replicate MEMTRACK_DIR3_ENTRIES \<lparr>me_vpn = 0, me_mpn = 0, me_vpnChain = None\<rparr>"

definition zero_Dir2 :: MemTrackDir2 where
  "zero_Dir2 = replicate MEMTRACK_DIR2_ENTRIES None"

definition MEMTRACK_IDX2DIR :: "nat \<Rightarrow> entry_ptr" where
  "MEMTRACK_IDX2DIR idx =
     (idx div (MEMTRACK_DIR2_ENTRIES * MEMTRACK_DIR3_ENTRIES),
      (idx div MEMTRACK_DIR3_ENTRIES) mod MEMTRACK_DIR2_ENTRIES,
      idx mod MEMTRACK_DIR3_ENTRIES)"

definition MEMTRACK_GETENTRY :: "MemTrackDir1 \<Rightarrow> entry_ptr \<Rightarrow> MemTrackEntry" where
  "MEMTRACK_GETENTRY dir1 p = (case p of (p1, p2, p3) \<Rightarrow> the (the (dir1 ! p1) ! p2) ! p3)"

definition set_entry :: "entry_ptr \<Rightarrow> MemTrackEntry \<Rightarrow> MemTrackDir1 \<Rightarrow> MemTrackDir1" where
  "set_entry p e dir1 = (case p of (p1, p2, p3) \<Rightarrow>
     dir1[p1 := Some ((the (dir1 ! p1))[p2 := Some ((the (the (dir1 ! p1) ! p2))[p3 := e])])])"

text \<open>\<open>None\<close>: no memory for the directory.\<close>

definition MemTrackAllocDir :: "bool \<Rightarrow> 'd \<Rightarrow> 'd option list \<Rightarrow> nat \<Rightarrow> ('d \<times> 'd option list) option" where
  "MemTrackAllocDir avail zero dir pos =
     (case dir ! pos of Some d \<Rightarrow> Some (d, dir)
      | None \<Rightarrow> if avail then Some (zero, dir[pos := Some zero]) else None)"

definition MEMTRACK_HASHKEY :: "u64 \<Rightarrow> nat \<times> nat" where
  "MEMTRACK_HASHKEY key =
     (let hash = unat key mod MEMTRACK_HT_SIZE in (hash div MEMTRACK_HT_ENTRIES, hash mod MEMTRACK_HT_ENTRIES))"

definition MemTrackHTLookup :: "MemTrackHT \<Rightarrow> u64 \<Rightarrow> entry_ptr option" where
  "MemTrackHTLookup ht key = (let (page, pos) = MEMTRACK_HASHKEY key in ht ! page ! pos)"

text \<open>The table with the entry in front, and the chain pointer for the entry.\<close>

definition MemTrackHTInsert :: "MemTrackHT \<Rightarrow> entry_ptr \<Rightarrow> u64 \<Rightarrow> entry_ptr option \<times> MemTrackHT" where
  "MemTrackHTInsert ht ent key =
     (let (page, pos) = MEMTRACK_HASHKEY key
      in (MemTrackHTLookup ht key, ht[page := (ht ! page)[pos := Some ent]]))"

text \<open>The number of pages that \<open>MemTrackCleanup\<close> frees; its loops stop at the first null pointer.\<close>

fun cleanup_Dir2 :: "MemTrackDir2 \<Rightarrow> nat" where
  "cleanup_Dir2 [] = 0"
| "cleanup_Dir2 (None # ds) = 0"
| "cleanup_Dir2 (Some d # ds) = Suc (cleanup_Dir2 ds)"

fun cleanup_Dir1 :: "MemTrackDir1 \<Rightarrow> nat" where
  "cleanup_Dir1 [] = 0"
| "cleanup_Dir1 (None # ds) = 0"
| "cleanup_Dir1 (Some d # ds) = cleanup_Dir2 d + Suc (cleanup_Dir1 ds)"

definition MemTrackCleanup :: "MemTrack \<Rightarrow> nat" where
  "MemTrackCleanup mt = cleanup_Dir1 (mt_dir1 mt) + length (vpnHashTable mt)"

definition MemTrack_Init :: "bool \<Rightarrow> (nat \<Rightarrow> bool) \<Rightarrow> MemTrack option" where
  "MemTrack_Init avail page_avail =
     (if avail \<and> list_all page_avail [0 ..< MEMTRACK_HT_PAGES]
      then Some \<lparr>numPages = 0, mt_dir1 = replicate MEMTRACK_DIR1_ENTRIES None,
             vpnHashTable = replicate MEMTRACK_HT_PAGES (replicate MEMTRACK_HT_ENTRIES None)\<rparr>
      else None)"

definition MemTrack_Add :: "bool \<Rightarrow> bool \<Rightarrow> VPN64 \<Rightarrow> MPN \<Rightarrow> MemTrack \<Rightarrow> entry_ptr option \<times> MemTrack" where
  "MemTrack_Add avail2 avail3 vpn mpn mt =
     (let idx = unat (numPages mt); (p1, p2, p3) = MEMTRACK_IDX2DIR idx
      in if MEMTRACK_DIR1_ENTRIES \<le> p1 \<or> MEMTRACK_DIR2_ENTRIES \<le> p2 \<or> MEMTRACK_DIR3_ENTRIES \<le> p3
         then (None, mt)
         else case MemTrackAllocDir avail2 zero_Dir2 (mt_dir1 mt) p1 of
           None \<Rightarrow> (None, mt)
         | Some (dir2, dir1) \<Rightarrow> (case MemTrackAllocDir avail3 zero_Dir3 dir2 p2 of
             None \<Rightarrow> (None, mt\<lparr>mt_dir1 := dir1\<rparr>)
           | Some (dir3, dir2') \<Rightarrow>
               let (chain, ht) = MemTrackHTInsert (vpnHashTable mt) (p1, p2, p3) vpn;
                   dir1' = set_entry (p1, p2, p3) \<lparr>me_vpn = vpn, me_mpn = mpn, me_vpnChain = chain\<rparr>
                             (dir1[p1 := Some dir2'])
               in (Some (p1, p2, p3), \<lparr>numPages = numPages mt + 1, mt_dir1 = dir1', vpnHashTable = ht\<rparr>)))"

text \<open>The outer \<open>None\<close> is a chain that does not end.\<close>

partial_function (option) chain_lookup :: "MemTrackDir1 \<Rightarrow> VPN64 \<Rightarrow> entry_ptr option \<Rightarrow> entry_ptr option option" where
  "chain_lookup dir1 vpn next =
     (case next of None \<Rightarrow> Some None
      | Some p \<Rightarrow> if me_vpn (MEMTRACK_GETENTRY dir1 p) = vpn then Some (Some p)
                  else chain_lookup dir1 vpn (me_vpnChain (MEMTRACK_GETENTRY dir1 p)))"

definition MemTrack_LookupVPN :: "MemTrack \<Rightarrow> VPN64 \<Rightarrow> entry_ptr option option" where
  "MemTrack_LookupVPN mt vpn = chain_lookup (mt_dir1 mt) vpn (MemTrackHTLookup (vpnHashTable mt) vpn)"

text \<open>The callback may write the entry and change the state of its owner, or panic.\<close>

fun cleanup_entries :: "(MemTrackEntry \<Rightarrow> 's \<Rightarrow> (MemTrackEntry \<times> 's) option) \<Rightarrow> nat list \<Rightarrow> MemTrackDir1 \<Rightarrow> 's
    \<Rightarrow> (MemTrackDir1 \<times> 's) option" where
  "cleanup_entries cb [] dir1 s = Some (dir1, s)"
| "cleanup_entries cb (idx # is) dir1 s =
     (case cb (MEMTRACK_GETENTRY dir1 (MEMTRACK_IDX2DIR idx)) s of None \<Rightarrow> None
      | Some (e, s') \<Rightarrow> cleanup_entries cb is (set_entry (MEMTRACK_IDX2DIR idx) e dir1) s')"

text \<open>The number of pages tracked, the number of pages of memory freed, and the owner's state.\<close>

definition MemTrack_Cleanup :: "MemTrack \<Rightarrow> (MemTrackEntry \<Rightarrow> 's \<Rightarrow> (MemTrackEntry \<times> 's) option) \<Rightarrow> 's
    \<Rightarrow> (u32 \<times> nat \<times> 's) option" where
  "MemTrack_Cleanup mt cb s =
     (case cleanup_entries cb [0 ..< unat (numPages mt)] (mt_dir1 mt) s of None \<Rightarrow> None
      | Some (dir1, s') \<Rightarrow> Some (numPages mt, MemTrackCleanup (mt\<lparr>mt_dir1 := dir1\<rparr>), s'))"


subsection \<open>Entries by index\<close>

lemma IDX2DIR:
  assumes "MEMTRACK_IDX2DIR i = (p1, p2, p3)"
  shows "p2 < MEMTRACK_DIR2_ENTRIES" "p3 < MEMTRACK_DIR3_ENTRIES"
    and "i = (p1 * MEMTRACK_DIR2_ENTRIES + p2) * MEMTRACK_DIR3_ENTRIES + p3"
proof -
  have e: "p1 = i div MEMTRACK_DIR3_ENTRIES div MEMTRACK_DIR2_ENTRIES" "p2 = i div MEMTRACK_DIR3_ENTRIES mod MEMTRACK_DIR2_ENTRIES"
    "p3 = i mod MEMTRACK_DIR3_ENTRIES"
    using assms by (auto simp: MEMTRACK_IDX2DIR_def div_mult2_eq [symmetric] mult.commute)
  then show "p2 < MEMTRACK_DIR2_ENTRIES" "p3 < MEMTRACK_DIR3_ENTRIES" by (simp_all add: mt_sizes)
  have "p1 * MEMTRACK_DIR2_ENTRIES + p2 = i div MEMTRACK_DIR3_ENTRIES" by (simp only: e div_mult_mod_eq)
  then show "i = (p1 * MEMTRACK_DIR2_ENTRIES + p2) * MEMTRACK_DIR3_ENTRIES + p3"
    by (simp only: e(3) div_mult_mod_eq)
qed

definition max_entries :: nat where
  "max_entries = MEMTRACK_DIR1_ENTRIES * MEMTRACK_DIR2_ENTRIES * MEMTRACK_DIR3_ENTRIES"

lemma IDX2DIR_bound: "MEMTRACK_IDX2DIR i = (p1, p2, p3) \<Longrightarrow> p1 < MEMTRACK_DIR1_ENTRIES \<longleftrightarrow> i < max_entries"
  using IDX2DIR [of i p1 p2 p3] by (auto simp: max_entries_def mt_sizes)

lemma IDX2DIR_inj: "MEMTRACK_IDX2DIR i = MEMTRACK_IDX2DIR j \<longleftrightarrow> i = j"
proof
  assume e: "MEMTRACK_IDX2DIR i = MEMTRACK_IDX2DIR j"
  obtain p1 p2 p3 where p: "MEMTRACK_IDX2DIR i = (p1, p2, p3)" by (rule prod_cases3)
  show "i = j" using IDX2DIR(3) [OF p] IDX2DIR(3) [of j p1 p2 p3] e p by simp
qed simp

definition has_entry :: "MemTrackDir1 \<Rightarrow> nat \<Rightarrow> bool" where
  "has_entry dir1 i \<longleftrightarrow> (case MEMTRACK_IDX2DIR i of (p1, p2, p3) \<Rightarrow>
     \<exists>d2 d3. dir1 ! p1 = Some d2 \<and> d2 ! p2 = Some d3)"

abbreviation entry :: "MemTrackDir1 \<Rightarrow> nat \<Rightarrow> MemTrackEntry" where
  "entry dir1 i \<equiv> MEMTRACK_GETENTRY dir1 (MEMTRACK_IDX2DIR i)"

definition dirs_ok :: "MemTrackDir1 \<Rightarrow> bool" where
  "dirs_ok dir1 \<longleftrightarrow> length dir1 = MEMTRACK_DIR1_ENTRIES
     \<and> (\<forall>d2. Some d2 \<in> set dir1 \<longrightarrow> length d2 = MEMTRACK_DIR2_ENTRIES
         \<and> (\<forall>d3. Some d3 \<in> set d2 \<longrightarrow> length d3 = MEMTRACK_DIR3_ENTRIES))"

lemma dirs_okD:
  assumes "dirs_ok dir1" "i < max_entries" "MEMTRACK_IDX2DIR i = (p1, p2, p3)"
  shows "p1 < length dir1" "dir1 ! p1 = Some d2 \<Longrightarrow> length d2 = MEMTRACK_DIR2_ENTRIES"
    "dir1 ! p1 = Some d2 \<Longrightarrow> d2 ! p2 = Some d3 \<Longrightarrow> length d3 = MEMTRACK_DIR3_ENTRIES"
proof -
  show l: "p1 < length dir1" using assms IDX2DIR_bound by (simp add: dirs_ok_def)
  show l2: "length d2 = MEMTRACK_DIR2_ENTRIES" if "dir1 ! p1 = Some d2"
    using assms(1) l that by (metis dirs_ok_def nth_mem)
  show "length d3 = MEMTRACK_DIR3_ENTRIES" if "dir1 ! p1 = Some d2" "d2 ! p2 = Some d3"
    using assms(1) l l2 that IDX2DIR(1) [OF assms(3)] by (metis dirs_ok_def nth_mem)
qed

text \<open>Writing an entry changes that entry only.\<close>

lemma set_entry:
  assumes ok: "dirs_ok dir1" and i: "i < max_entries" "has_entry dir1 i"
  shows "dirs_ok (set_entry (MEMTRACK_IDX2DIR i) e dir1)"
    and "has_entry (set_entry (MEMTRACK_IDX2DIR i) e dir1) j = has_entry dir1 j"
    and "has_entry dir1 j \<Longrightarrow> entry (set_entry (MEMTRACK_IDX2DIR i) e dir1) j = (if i = j then e else entry dir1 j)"
    and "map (map_option (map (\<lambda>d. d \<noteq> None))) (set_entry (MEMTRACK_IDX2DIR i) e dir1)
       = map (map_option (map (\<lambda>d. d \<noteq> None))) dir1"
proof -
  obtain p1 p2 p3 where p: "MEMTRACK_IDX2DIR i = (p1, p2, p3)" by (rule prod_cases3)
  obtain q1 q2 q3 where q: "MEMTRACK_IDX2DIR j = (q1, q2, q3)" by (rule prod_cases3)
  obtain d2 d3 where d: "dir1 ! p1 = Some d2" "d2 ! p2 = Some d3" using i(2) by (auto simp: has_entry_def p)
  note l = dirs_okD(1) [OF ok i(1) p] dirs_okD(2,3) [OF ok i(1) p d(1)] note l3 = l(3) [OF d(2)]
  note b = IDX2DIR(1,2) [OF p]
  have s: "set_entry (MEMTRACK_IDX2DIR i) e dir1 = dir1[p1 := Some (d2[p2 := Some (d3[p3 := e])])]"
    by (simp add: set_entry_def p d)
  have d2in: "Some d2 \<in> set dir1" "Some d3 \<in> set d2" using l(1,2) d b by (metis nth_mem)+
  show "dirs_ok (set_entry (MEMTRACK_IDX2DIR i) e dir1)"
    using ok d2in unfolding s dirs_ok_def by (auto dest!: set_update_subset_insert [THEN subsetD])
  show "has_entry (set_entry (MEMTRACK_IDX2DIR i) e dir1) j = has_entry dir1 j"
    using l b d by (auto simp: s has_entry_def q nth_list_update)
  have "i = j \<longleftrightarrow> p1 = q1 \<and> p2 = q2 \<and> p3 = q3" using IDX2DIR_inj [of i j] p q by auto
  then show "entry (set_entry (MEMTRACK_IDX2DIR i) e dir1) j = (if i = j then e else entry dir1 j)" if "has_entry dir1 j"
    using that l l3 b d by (auto simp: s has_entry_def q MEMTRACK_GETENTRY_def nth_list_update)
  have "map (\<lambda>d. d \<noteq> None) (d2[p2 := Some (d3[p3 := e])]) = map (\<lambda>d. d \<noteq> None) d2"
    using d(2) by (simp add: map_update list_update_same_conv l b)
  then show "map (map_option (map (\<lambda>d. d \<noteq> None))) (set_entry (MEMTRACK_IDX2DIR i) e dir1)
       = map (map_option (map (\<lambda>d. d \<noteq> None))) dir1"
    using d(1) l by (simp add: s map_update list_update_same_conv)
qed


subsection \<open>Invariant\<close>

definition bucket :: "u64 \<Rightarrow> nat" where
  "bucket key = unat key mod MEMTRACK_HT_SIZE"

fun chained :: "MemTrackDir1 \<Rightarrow> entry_ptr option \<Rightarrow> nat list \<Rightarrow> bool" where
  "chained dir1 next [] \<longleftrightarrow> next = None"
| "chained dir1 next (i # is) \<longleftrightarrow> next = Some (MEMTRACK_IDX2DIR i) \<and> chained dir1 (me_vpnChain (entry dir1 i)) is"

definition ht_slot :: "MemTrackHT \<Rightarrow> nat \<Rightarrow> entry_ptr option" where
  "ht_slot ht h = ht ! (h div MEMTRACK_HT_ENTRIES) ! (h mod MEMTRACK_HT_ENTRIES)"

definition ht_ok :: "MemTrackHT \<Rightarrow> bool" where
  "ht_ok ht \<longleftrightarrow> length ht = MEMTRACK_HT_PAGES \<and> (\<forall>pg \<in> set ht. length pg = MEMTRACK_HT_ENTRIES)"

text \<open>The indices of the entries of a bucket, the newest first.\<close>

definition bucket_entries :: "MemTrackDir1 \<Rightarrow> nat \<Rightarrow> nat \<Rightarrow> nat list" where
  "bucket_entries dir1 n h = rev (filter (\<lambda>i. bucket (me_vpn (entry dir1 i)) = h) [0 ..< n])"

text \<open>No null pointer in front of a pointer.\<close>

definition packed :: "bool list \<Rightarrow> bool" where
  "packed bs \<longleftrightarrow> (\<forall>i j. i < j \<longrightarrow> j < length bs \<longrightarrow> bs ! j \<longrightarrow> bs ! i)"

definition shape :: "MemTrackDir1 \<Rightarrow> bool list option list" where
  "shape dir1 = map (map_option (map (\<lambda>d. d \<noteq> None))) dir1"

definition shape_ok :: "bool list option list \<Rightarrow> bool" where
  "shape_ok sh \<longleftrightarrow> packed (map (\<lambda>d. d \<noteq> None) sh) \<and> (\<forall>bs. Some bs \<in> set sh \<longrightarrow> packed bs)"

definition mt_ok :: "MemTrack \<Rightarrow> bool" where
  [inv_defs]: "mt_ok mt \<longleftrightarrow> dirs_ok (mt_dir1 mt) \<and> ht_ok (vpnHashTable mt) \<and> shape_ok (shape (mt_dir1 mt))
     \<and> unat (numPages mt) \<le> max_entries \<and> (\<forall>i < unat (numPages mt). has_entry (mt_dir1 mt) i)
     \<and> (\<forall>h < MEMTRACK_HT_SIZE. chained (mt_dir1 mt) (ht_slot (vpnHashTable mt) h)
          (bucket_entries (mt_dir1 mt) (unat (numPages mt)) h))"

text \<open>The pairs of virtual and machine page in the order in which they were added.\<close>

definition mt_pairs :: "MemTrack \<Rightarrow> (VPN64 \<times> MPN) list" where
  "mt_pairs mt = map (\<lambda>i. (me_vpn (entry (mt_dir1 mt) i), me_mpn (entry (mt_dir1 mt) i))) [0 ..< unat (numPages mt)]"

lemma ht_slot_lookup: "MemTrackHTLookup ht key = ht_slot ht (bucket key)"
  by (simp add: MemTrackHTLookup_def MEMTRACK_HASHKEY_def ht_slot_def bucket_def Let_def)

lemma bucket_less [simp]: "bucket key < MEMTRACK_HT_SIZE"
  by (simp add: bucket_def mt_sizes)

lemma HTInsert:
  assumes "ht_ok ht" "MemTrackHTInsert ht p key = (c, ht')"
  shows "c = ht_slot ht (bucket key)" "ht_ok ht'"
    and "h < MEMTRACK_HT_SIZE \<Longrightarrow> ht_slot ht' h = (if h = bucket key then Some p else ht_slot ht h)"
proof -
  let ?g = "bucket key div MEMTRACK_HT_ENTRIES" and ?o = "bucket key mod MEMTRACK_HT_ENTRIES"
  have ht': "ht' = ht[?g := (ht ! ?g)[?o := Some p]]"
    using assms(2) by (simp add: MemTrackHTInsert_def MEMTRACK_HASHKEY_def bucket_def Let_def)
  have g: "?g < length ht" using assms(1) bucket_less [of key] by (auto simp: ht_ok_def mt_sizes)
  then have pg: "length (ht ! ?g) = MEMTRACK_HT_ENTRIES" using assms(1) by (simp add: ht_ok_def)
  show "c = ht_slot ht (bucket key)"
    using assms(2) by (auto simp: MemTrackHTInsert_def ht_slot_lookup split: prod.splits)
  show "ht_ok ht'"
    using assms(1) pg by (auto simp: ht' ht_ok_def dest!: set_update_subset_insert [THEN subsetD])
  have "h = bucket key \<longleftrightarrow> h div MEMTRACK_HT_ENTRIES = ?g \<and> h mod MEMTRACK_HT_ENTRIES = ?o"
    by (metis div_mult_mod_eq)
  moreover have "?o < MEMTRACK_HT_ENTRIES" by (simp add: mt_sizes)
  ultimately show "ht_slot ht' h = (if h = bucket key then Some p else ht_slot ht h)"
    using g pg by (auto simp: ht' ht_slot_def nth_list_update)
qed

lemma chained_cong:
  "(\<And>i. i \<in> set is \<Longrightarrow> me_vpnChain (entry d' i) = me_vpnChain (entry d i)) \<Longrightarrow> chained d' next is = chained d next is"
  by (induction "is" arbitrary: "next") auto

lemma chain_lookup_find:
  "chained dir1 next is \<Longrightarrow> chain_lookup dir1 vpn next
     = Some (map_option MEMTRACK_IDX2DIR (find (\<lambda>i. me_vpn (entry dir1 i) = vpn) is))"
proof (induction "is" arbitrary: "next")
  case Nil then show ?case by (subst chain_lookup.simps) simp
next
  case (Cons i "is") then show ?case by (subst chain_lookup.simps) auto
qed

lemma find_filter: "(\<And>x. P x \<Longrightarrow> Q x) \<Longrightarrow> find P (filter Q xs) = find P xs"
  by (induction xs) auto

text \<open>A lookup finds the newest entry for the page.\<close>

lemma MemTrack_LookupVPN_find:
  assumes "mt_ok mt"
  shows "MemTrack_LookupVPN mt v = Some (map_option MEMTRACK_IDX2DIR
    (find (\<lambda>i. me_vpn (entry (mt_dir1 mt) i) = v) (rev [0 ..< unat (numPages mt)])))"
proof -
  have "chained (mt_dir1 mt) (ht_slot (vpnHashTable mt) (bucket v))
      (bucket_entries (mt_dir1 mt) (unat (numPages mt)) (bucket v))"
    using assms by (simp add: mt_ok_def)
  note l = chain_lookup_find [OF this, of v]
  have "find (\<lambda>i. me_vpn (entry (mt_dir1 mt) i) = v) (bucket_entries (mt_dir1 mt) (unat (numPages mt)) (bucket v))
      = find (\<lambda>i. me_vpn (entry (mt_dir1 mt) i) = v) (rev [0 ..< unat (numPages mt)])"
    unfolding bucket_entries_def rev_filter by (rule find_filter) simp
  with l show ?thesis by (simp add: MemTrack_LookupVPN_def ht_slot_lookup)
qed


subsection \<open>Adding an entry\<close>

lemma AllocDir:
  assumes "MemTrackAllocDir av z dir pos = Some (d, dir')" "pos < length dir"
  shows "dir' = dir[pos := Some d]" "dir ! pos = Some d \<or> dir ! pos = None \<and> d = z"
proof -
  have "dir ! pos = Some d \<Longrightarrow> dir[pos := Some d] = dir" by (metis list_update_id)
  then show "dir' = dir[pos := Some d]" "dir ! pos = Some d \<or> dir ! pos = None \<and> d = z"
    using assms by (auto simp: MemTrackAllocDir_def split: option.splits if_splits)
qed

lemma packed_update:
  assumes "packed bs" "\<And>j. j < p \<Longrightarrow> bs ! j"
  shows "packed (bs[p := True])"
  unfolding packed_def
proof (intro allI impI)
  fix i j assume a: "i < j" "j < length (bs[p := True])" "bs[p := True] ! j"
  show "bs[p := True] ! i"
  proof (cases "i = p")
    case True with a show ?thesis by simp
  next
    case False
    then have "bs ! i"
      using a assms(2) [of i] assms(1) by (cases "j = p") (auto simp: packed_def)
    then show ?thesis using False by simp
  qed
qed

lemma packed_zero: "packed (map (\<lambda>d. d \<noteq> None) zero_Dir2)"
  by (simp add: packed_def zero_Dir2_def)

text \<open>The directories on the way to entry \<open>n\<close> are put in place; the entries before it stay.\<close>

lemma grow_dirs:
  assumes ok: "dirs_ok dir1" and sh: "shape_ok (shape dir1)" and all: "\<forall>i < n. has_entry dir1 i"
    and n: "n < max_entries" "MEMTRACK_IDX2DIR n = (p1, p2, p3)"
    and d2: "dir1 ! p1 = Some d2 \<or> dir1 ! p1 = None \<and> d2 = zero_Dir2"
    and d2': "d2' = d2 \<or> (\<exists>d3. d2' = d2[p2 := Some d3] \<and> (d2 ! p2 = Some d3 \<or> d2 ! p2 = None \<and> d3 = zero_Dir3))"
  shows "dirs_ok (dir1[p1 := Some d2'])" "shape_ok (shape (dir1[p1 := Some d2']))"
    and "has_entry dir1 i \<Longrightarrow> has_entry (dir1[p1 := Some d2']) i \<and> entry (dir1[p1 := Some d2']) i = entry dir1 i"
    and "d2' ! p2 = Some d3 \<Longrightarrow> has_entry (dir1[p1 := Some d2']) n"
proof -
  note b = IDX2DIR [OF n(2)]
  have l: "p1 < length dir1" by (rule dirs_okD(1) [OF ok n])
  have len2: "length d2 = MEMTRACK_DIR2_ENTRIES"
    using d2 dirs_okD(2) [OF ok n] by (auto simp: zero_Dir2_def)
  have in2: "Some d3 \<in> set d2 \<Longrightarrow> length d3 = MEMTRACK_DIR3_ENTRIES" for d3
    using d2 ok l by (auto simp: zero_Dir2_def dirs_ok_def) (metis nth_mem)
  have len2': "length d2' = MEMTRACK_DIR2_ENTRIES" using d2' len2 by auto
  have in2': "length d3 = MEMTRACK_DIR3_ENTRIES" if "Some d3 \<in> set d2'" for d3
  proof -
    have "Some d3 \<in> set d2 \<or> d3 = zero_Dir3"
      using that d2' b(1) len2 by (auto dest!: set_update_subset_insert [THEN subsetD]) (metis nth_mem)+
    then show ?thesis using in2 by (auto simp: zero_Dir3_def)
  qed
  show "dirs_ok (dir1[p1 := Some d2'])"
    using ok len2' in2' by (auto simp: dirs_ok_def dest!: set_update_subset_insert [THEN subsetD])
  have keep: "d2 ! j = Some d3 \<Longrightarrow> d2' ! j = Some d3" for j d3
    using d2' b(1) len2 by (auto simp: nth_list_update)
  show "has_entry (dir1[p1 := Some d2']) i \<and> entry (dir1[p1 := Some d2']) i = entry dir1 i" if h: "has_entry dir1 i"
  proof -
    obtain q1 q2 q3 where q: "MEMTRACK_IDX2DIR i = (q1, q2, q3)" by (rule prod_cases3)
    obtain e2 e3 where e: "dir1 ! q1 = Some e2" "e2 ! q2 = Some e3" using h by (auto simp: has_entry_def q)
    show ?thesis
    proof (cases "q1 = p1")
      case True
      then have "e2 = d2" using d2 e(1) by auto
      then show ?thesis using e keep l True by (simp add: has_entry_def q MEMTRACK_GETENTRY_def)
    next
      case False
      then show ?thesis using e by (simp add: has_entry_def q MEMTRACK_GETENTRY_def)
    qed
  qed
  show "has_entry (dir1[p1 := Some d2']) n" if "d2' ! p2 = Some d3"
    using that l by (simp add: has_entry_def n(2))
  have before: "j < p1 \<Longrightarrow> dir1 ! j \<noteq> None" for j
  proof -
    assume j: "j < p1"
    have "MEMTRACK_IDX2DIR (j * (MEMTRACK_DIR2_ENTRIES * MEMTRACK_DIR3_ENTRIES)) = (j, 0, 0)"
      by (simp add: MEMTRACK_IDX2DIR_def mt_sizes)
    moreover have "j * (MEMTRACK_DIR2_ENTRIES * MEMTRACK_DIR3_ENTRIES) < n"
      using j b(3) by (simp add: mt_sizes)
    ultimately show ?thesis using all by (fastforce simp: has_entry_def)
  qed
  have before2: "j < p2 \<Longrightarrow> d2 ! j \<noteq> None" for j
  proof -
    assume j: "j < p2"
    let ?k = "(p1 * MEMTRACK_DIR2_ENTRIES + j) * MEMTRACK_DIR3_ENTRIES"
    have "MEMTRACK_IDX2DIR ?k = (p1, j, 0)"
      using j b(1) by (simp add: MEMTRACK_IDX2DIR_def mt_sizes div_mult2_eq [symmetric])
    moreover have "?k < n" using j b(3) by (simp add: mt_sizes)
    ultimately have "\<exists>e2 e3. dir1 ! p1 = Some e2 \<and> e2 ! j = Some e3" using all by (fastforce simp: has_entry_def)
    then show ?thesis using d2 by auto
  qed
  have pk2: "packed (map (\<lambda>d. d \<noteq> None) d2)"
  proof (cases "dir1 ! p1")
    case None
    then show ?thesis using d2 packed_zero by simp
  next
    case (Some e2)
    then have "Some d2 \<in> set dir1" using d2 l nth_mem [of p1 dir1] by simp
    then have "Some (map (\<lambda>d. d \<noteq> None) d2) \<in> set (shape dir1)"
      unfolding shape_def set_map by (rule rev_image_eqI) simp
    then show ?thesis using sh by (simp add: shape_ok_def)
  qed
  have "packed ((map (\<lambda>d. d \<noteq> None) d2)[p2 := True])"
    using pk2 before2 b(1) len2 by (intro packed_update) auto
  then have pk2': "packed (map (\<lambda>d. d \<noteq> None) d2')" using d2' pk2 by (auto simp: map_update)
  have "packed ((map (\<lambda>d. d \<noteq> None) dir1)[p1 := True])"
    using sh before l by (intro packed_update) (auto simp: shape_ok_def shape_def comp_def)
  then show "shape_ok (shape (dir1[p1 := Some d2']))"
    using sh pk2' by (auto simp: shape_ok_def shape_def comp_def map_update
        dest!: set_update_subset_insert [THEN subsetD])
qed


lemma bucket_entries_cong:
  "(\<And>i. i < n \<Longrightarrow> me_vpn (entry d' i) = me_vpn (entry d i)) \<Longrightarrow> bucket_entries d' n h = bucket_entries d n h"
  unfolding bucket_entries_def by (intro arg_cong [where f = rev] filter_cong) auto

lemma mt_ok_dirs:
  assumes "mt_ok mt" "dirs_ok d'" "shape_ok (shape d')"
    and same: "\<And>i. i < unat (numPages mt) \<Longrightarrow> has_entry d' i \<and> me_vpn (entry d' i) = me_vpn (entry (mt_dir1 mt) i)
      \<and> me_vpnChain (entry d' i) = me_vpnChain (entry (mt_dir1 mt) i)"
  shows "mt_ok (mt\<lparr>mt_dir1 := d'\<rparr>)"
proof -
  have b: "bucket_entries d' (unat (numPages mt)) h = bucket_entries (mt_dir1 mt) (unat (numPages mt)) h" for h
    using same by (intro bucket_entries_cong) simp
  have "chained d' nx (bucket_entries (mt_dir1 mt) (unat (numPages mt)) h)
      = chained (mt_dir1 mt) nx (bucket_entries (mt_dir1 mt) (unat (numPages mt)) h)" for nx h
    by (rule chained_cong) (use same in \<open>auto simp: bucket_entries_def\<close>)
  then show ?thesis using assms(1-3) same by (simp add: mt_ok_def b)
qed

lemma MemTrack_Init_ok:
  assumes "MemTrack_Init av pav = Some mt"
  shows "mt_ok mt" "mt_pairs mt = []"
proof -
  have mt: "mt = \<lparr>numPages = 0, mt_dir1 = replicate MEMTRACK_DIR1_ENTRIES None,
      vpnHashTable = replicate MEMTRACK_HT_PAGES (replicate MEMTRACK_HT_ENTRIES None)\<rparr>"
    using assms by (simp add: MemTrack_Init_def split: if_splits)
  have "ht_slot (vpnHashTable mt) h = None" if "h < MEMTRACK_HT_SIZE" for h
    using that by (simp add: mt ht_slot_def mt_sizes less_mult_imp_div_less)
  then show "mt_ok mt"
    by (simp add: mt_ok_def mt dirs_ok_def ht_ok_def shape_ok_def shape_def packed_def bucket_entries_def)
  show "mt_pairs mt = []" by (simp add: mt_pairs_def mt)
qed

lemma MemTrack_Add_correct:
  assumes ok: "mt_ok mt" and add: "MemTrack_Add a2 a3 v m mt = (r, mt')"
  defines "n \<equiv> unat (numPages mt)"
  shows "mt_ok mt'"
    and "r \<noteq> None \<Longrightarrow> r = Some (MEMTRACK_IDX2DIR n) \<and> n < max_entries \<and> unat (numPages mt') = Suc n
      \<and> (\<forall>i < n. entry (mt_dir1 mt') i = entry (mt_dir1 mt) i) \<and> me_vpn (entry (mt_dir1 mt') n) = v
      \<and> me_mpn (entry (mt_dir1 mt') n) = m"
    and "r = None \<Longrightarrow> (n = max_entries \<or> \<not> a2 \<or> \<not> a3) \<and> numPages mt' = numPages mt
      \<and> vpnHashTable mt' = vpnHashTable mt \<and> (\<forall>i < n. entry (mt_dir1 mt') i = entry (mt_dir1 mt) i)"
    and "n = max_entries \<Longrightarrow> r = None"
proof -
  let ?D = "mt_dir1 mt"
  obtain p1 p2 p3 where p: "MEMTRACK_IDX2DIR n = (p1, p2, p3)" by (rule prod_cases3)
  note b = IDX2DIR(1,2) [OF p] IDX2DIR_bound [OF p]
  have D: "dirs_ok ?D" "shape_ok (shape ?D)" "ht_ok (vpnHashTable mt)" "n \<le> max_entries" "\<forall>i < n. has_entry ?D i"
    using ok by (simp_all add: mt_ok_def n_def)
  have goal: "mt_ok mt' \<and> (r \<noteq> None \<longrightarrow> r = Some (MEMTRACK_IDX2DIR n) \<and> n < max_entries \<and> unat (numPages mt') = Suc n
        \<and> (\<forall>i < n. entry (mt_dir1 mt') i = entry ?D i) \<and> me_vpn (entry (mt_dir1 mt') n) = v
        \<and> me_mpn (entry (mt_dir1 mt') n) = m)
      \<and> (r = None \<longrightarrow> (n = max_entries \<or> \<not> a2 \<or> \<not> a3) \<and> numPages mt' = numPages mt
        \<and> vpnHashTable mt' = vpnHashTable mt \<and> (\<forall>i < n. entry (mt_dir1 mt') i = entry ?D i))
      \<and> (n = max_entries \<longrightarrow> r = None)"
  proof (cases "n < max_entries")
    case False
    then have "(r, mt') = (None, mt)" using add b by (simp add: MemTrack_Add_def n_def [symmetric] p not_less)
    then show ?thesis using ok False D(4) by simp
  next
    case n: True
    then have p1: "p1 < MEMTRACK_DIR1_ENTRIES" and l: "p1 < length ?D" using b(3) D(1) by (auto simp: dirs_ok_def)
    show ?thesis
    proof (cases "MemTrackAllocDir a2 zero_Dir2 ?D p1")
      case None
      then have "(r, mt') = (None, mt)" using add b p1 by (simp add: MemTrack_Add_def n_def [symmetric] p)
      moreover have "\<not> a2" using None by (auto simp: MemTrackAllocDir_def split: option.splits)
      ultimately show ?thesis using ok n by simp
    next
      case (Some x)
      obtain d2 dir1 where x: "x = (d2, dir1)" by (cases x)
      note A = AllocDir [OF Some [unfolded x] l]
      note G = grow_dirs [OF D(1,2,5) n p A(2)]
      have len2: "p2 < length d2"
        using A(2) dirs_okD(2) [OF D(1) n p] b(1) by (auto simp: zero_Dir2_def)
      show ?thesis
      proof (cases "MemTrackAllocDir a3 zero_Dir3 d2 p2")
        case None
        then have e: "(r, mt') = (None, mt\<lparr>mt_dir1 := dir1\<rparr>)"
          using add b p1 Some x by (simp add: MemTrack_Add_def n_def [symmetric] p)
        note g = G(1-3) [of d2, folded A(1)]
        have "mt_ok (mt\<lparr>mt_dir1 := dir1\<rparr>)"
          using g D(5) by (intro mt_ok_dirs [OF ok]) (auto simp: n_def)
        moreover have "\<not> a3" using None by (auto simp: MemTrackAllocDir_def split: option.splits)
        ultimately show ?thesis using e n g D(5) by simp
      next
        case (Some y)
        obtain d3 d2' where y: "y = (d3, d2')" by (cases y)
        note A' = AllocDir [OF Some [unfolded y] len2]
        have "d2' = d2 \<or> (\<exists>d3. d2' = d2[p2 := Some d3] \<and> (d2 ! p2 = Some d3 \<or> d2 ! p2 = None \<and> d3 = zero_Dir3))"
          using A' by blast
        note g = G(1-3) [OF this] G(4) [OF this, of d3]
        define D2 where "D2 = ?D[p1 := Some d2']"
        have D2: "dirs_ok D2" "shape_ok (shape D2)" "has_entry D2 n" "i < n \<Longrightarrow> has_entry D2 i \<and> entry D2 i = entry ?D i" for i
          using g A' len2 D(5) by (auto simp: D2_def)
        obtain c ht where I: "MemTrackHTInsert (vpnHashTable mt) (MEMTRACK_IDX2DIR n) v = (c, ht)" by fastforce
        define E where "E = set_entry (MEMTRACK_IDX2DIR n) \<lparr>me_vpn = v, me_mpn = m, me_vpnChain = c\<rparr> D2"
        have dir1: "dir1[p1 := Some d2'] = D2" using A(1) by (simp add: D2_def)
        have e: "r = Some (MEMTRACK_IDX2DIR n)" "mt' = \<lparr>numPages = numPages mt + 1, mt_dir1 = E, vpnHashTable = ht\<rparr>"
          using add b p1 Some x y I \<open>MemTrackAllocDir a2 zero_Dir2 ?D p1 = Some x\<close>
          by (auto simp: MemTrack_Add_def n_def [symmetric] p dir1 E_def)
        note S = set_entry [OF D2(1) n D2(3), where e = "\<lparr>me_vpn = v, me_mpn = m, me_vpnChain = c\<rparr>", folded E_def]
        note J = HTInsert [OF D(3) I]
        have new: "entry E n = \<lparr>me_vpn = v, me_mpn = m, me_vpnChain = c\<rparr>" using S(3) [OF D2(3)] by simp
        have old: "has_entry E i" "entry E i = entry ?D i" if "i < n" for i
          using S(2) [of i] S(3) [of i] D2(4) [OF that] that by auto
        have "numPages mt < numPages mt + 1 \<or> unat (numPages mt + 1) = Suc n"
          using n by (simp add: n_def unat_word_ariths max_entries_def mt_sizes unsigned_1)
        then have num: "unat (numPages mt + 1) = Suc n"
          using n by (simp add: n_def unat_word_ariths max_entries_def mt_sizes unsigned_1)
        have bk: "bucket_entries E (Suc n) h = (if bucket v = h then n # bucket_entries ?D n h else bucket_entries ?D n h)" for h
        proof -
          have "filter (\<lambda>i. bucket (me_vpn (entry E i)) = h) [0 ..< n] = filter (\<lambda>i. bucket (me_vpn (entry ?D i)) = h) [0 ..< n]"
            using old by (intro filter_cong) auto
          then show ?thesis by (simp add: bucket_entries_def new)
        qed
        have ch: "chained E nx (bucket_entries ?D n h) = chained ?D nx (bucket_entries ?D n h)" for nx h
          by (rule chained_cong) (use old in \<open>auto simp: bucket_entries_def\<close>)
        have "chained E (ht_slot ht h) (bucket_entries E (Suc n) h)" if h: "h < MEMTRACK_HT_SIZE" for h
        proof -
          have "chained ?D (ht_slot (vpnHashTable mt) h) (bucket_entries ?D n h)"
            using ok h by (simp add: mt_ok_def n_def)
          then show ?thesis using J(1,3) h by (auto simp: bk ch new)
        qed
        moreover have "shape_ok (shape E)" using S(4) D2(2) by (simp add: shape_def)
        ultimately have "mt_ok mt'"
          using S(1) S(2) J(2) n old D2(3) by (auto simp: e mt_ok_def num less_Suc_eq)
        then show ?thesis using e n num old new by simp
      qed
    qed
  qed
  show "mt_ok mt'"
    and "r \<noteq> None \<Longrightarrow> r = Some (MEMTRACK_IDX2DIR n) \<and> n < max_entries \<and> unat (numPages mt') = Suc n
      \<and> (\<forall>i < n. entry (mt_dir1 mt') i = entry (mt_dir1 mt) i) \<and> me_vpn (entry (mt_dir1 mt') n) = v
      \<and> me_mpn (entry (mt_dir1 mt') n) = m"
    and "r = None \<Longrightarrow> (n = max_entries \<or> \<not> a2 \<or> \<not> a3) \<and> numPages mt' = numPages mt
      \<and> vpnHashTable mt' = vpnHashTable mt \<and> (\<forall>i < n. entry (mt_dir1 mt') i = entry (mt_dir1 mt) i)"
    and "n = max_entries \<Longrightarrow> r = None"
    using goal by blast+
qed


lemma mt_pairs_Add:
  assumes ok: "mt_ok mt" and add: "MemTrack_Add a2 a3 v m mt = (r, mt')"
  shows "mt_pairs mt' = (if r = None then mt_pairs mt else mt_pairs mt @ [(v, m)])"
proof (cases "r = None")
  case True
  then show ?thesis using MemTrack_Add_correct(3) [OF ok add] by (simp add: mt_pairs_def)
next
  case False
  then show ?thesis using MemTrack_Add_correct(2) [OF ok add] by (auto simp: mt_pairs_def)
qed

lemma length_mt_pairs [simp]: "length (mt_pairs mt) = unat (numPages mt)"
  by (simp add: mt_pairs_def)

text \<open>Writing the machine page of an entry.\<close>

definition set_mpn :: "entry_ptr \<Rightarrow> MPN \<Rightarrow> MemTrack \<Rightarrow> MemTrack" where
  "set_mpn p m mt = mt\<lparr>mt_dir1 := set_entry p ((MEMTRACK_GETENTRY (mt_dir1 mt) p)\<lparr>me_mpn := m\<rparr>) (mt_dir1 mt)\<rparr>"

lemma set_mpn_correct:
  assumes ok: "mt_ok mt" and i: "i < unat (numPages mt)"
  shows "mt_ok (set_mpn (MEMTRACK_IDX2DIR i) m mt)"
    and "mt_pairs (set_mpn (MEMTRACK_IDX2DIR i) m mt) = (mt_pairs mt)[i := (fst (mt_pairs mt ! i), m)]"
proof -
  let ?e = "(entry (mt_dir1 mt) i)\<lparr>me_mpn := m\<rparr>"
  have i': "i < max_entries" "has_entry (mt_dir1 mt) i" "dirs_ok (mt_dir1 mt)" using ok i by (auto simp: mt_ok_def)
  note S = set_entry [OF i'(3,1,2), where e = ?e]
  have has: "has_entry (mt_dir1 mt) j" if "j < unat (numPages mt)" for j using ok that by (simp add: mt_ok_def)
  have "shape_ok (shape (set_entry (MEMTRACK_IDX2DIR i) ?e (mt_dir1 mt)))"
    using ok S(4) by (simp add: shape_def mt_ok_def)
  then show "mt_ok (set_mpn (MEMTRACK_IDX2DIR i) m mt)"
    unfolding set_mpn_def using S(1-3) has by (intro mt_ok_dirs [OF ok]) auto
  show "mt_pairs (set_mpn (MEMTRACK_IDX2DIR i) m mt) = (mt_pairs mt)[i := (fst (mt_pairs mt ! i), m)]"
    using S(3) has i by (intro nth_equalityI) (auto simp: set_mpn_def mt_pairs_def nth_list_update)
qed

lemma find_rev_pairs:
  "find (\<lambda>x. fst x = v) (rev (map f [0 ..< n])) = map_option f (find (\<lambda>i. fst (f i) = v) (rev [0 ..< n]))"
  by (induction n) auto

text \<open>A lookup in terms of the pairs: the place of the newest pair of the page.\<close>

lemma LookupVPN_pairs:
  assumes "mt_ok mt"
  obtains (none) "MemTrack_LookupVPN mt v = Some None" "find (\<lambda>x. fst x = v) (rev (mt_pairs mt)) = None"
    | (found) i where "MemTrack_LookupVPN mt v = Some (Some (MEMTRACK_IDX2DIR i))" "i < unat (numPages mt)"
        "find (\<lambda>x. fst x = v) (rev (mt_pairs mt)) = Some (mt_pairs mt ! i)" "fst (mt_pairs mt ! i) = v"
        "\<forall>j. i < j \<longrightarrow> j < unat (numPages mt) \<longrightarrow> fst (mt_pairs mt ! j) \<noteq> v"
        "MEMTRACK_GETENTRY (mt_dir1 mt) (MEMTRACK_IDX2DIR i) = entry (mt_dir1 mt) i"
        "me_mpn (entry (mt_dir1 mt) i) = snd (mt_pairs mt ! i)"
proof -
  let ?n = "unat (numPages mt)"
  let ?P = "\<lambda>i. me_vpn (entry (mt_dir1 mt) i) = v"
  have f: "find (\<lambda>x. fst x = v) (rev (mt_pairs mt))
      = map_option (\<lambda>i. (me_vpn (entry (mt_dir1 mt) i), me_mpn (entry (mt_dir1 mt) i))) (find ?P (rev [0 ..< ?n]))"
    unfolding mt_pairs_def by (simp add: find_rev_pairs)
  show thesis
  proof (cases "find ?P (rev [0 ..< ?n])")
    case None
    then show ?thesis using MemTrack_LookupVPN_find [OF assms, of v] f none by simp
  next
    case (Some i)
    then obtain k where k: "k < ?n" "?P (rev [0 ..< ?n] ! k)" "i = rev [0 ..< ?n] ! k"
        "\<forall>j < k. \<not> ?P (rev [0 ..< ?n] ! j)"
      by (auto simp: find_Some_iff)
    then have i: "i = ?n - Suc k" "i < ?n" by (simp_all add: rev_nth)
    have later: "\<not> ?P j" if "i < j" "j < ?n" for j
    proof -
      have "?n - Suc j < k" using that i k(1) by linarith
      then have "\<not> ?P (rev [0 ..< ?n] ! (?n - Suc j))" using k(4) by blast
      then show ?thesis using that by (simp add: rev_nth)
    qed
    have pair: "mt_pairs mt ! j = (me_vpn (entry (mt_dir1 mt) j), me_mpn (entry (mt_dir1 mt) j))" if "j < ?n" for j
      using that by (simp add: mt_pairs_def)
    show ?thesis
      by (rule found [of i])
         (use MemTrack_LookupVPN_find [OF assms, of v] f Some i k(2,3) pair later in \<open>simp_all\<close>)
  qed
qed

subsection \<open>Cleaning up\<close>

definition pages_held :: "MemTrack \<Rightarrow> nat" where
  "pages_held mt = length (vpnHashTable mt) + length (filter (\<lambda>d. d \<noteq> None) (mt_dir1 mt))
     + (\<Sum>d2 \<leftarrow> mt_dir1 mt. case d2 of None \<Rightarrow> 0 | Some d \<Rightarrow> length (filter (\<lambda>d3. d3 \<noteq> None) d))"

lemma packed_Cons: "packed (b # bs) \<longleftrightarrow> packed bs \<and> (\<not> b \<longrightarrow> True \<notin> set bs)"
proof
  assume p: "packed (b # bs)"
  have "packed bs" unfolding packed_def using p [unfolded packed_def, rule_format, of "Suc i" "Suc j" for i j] by auto
  moreover have "b" if t: "True \<in> set bs"
  proof -
    obtain j where "j < length bs" "bs ! j" using t by (auto simp: in_set_conv_nth)
    then show b using p [unfolded packed_def, rule_format, of 0 "Suc j"] by simp
  qed
  ultimately show "packed bs \<and> (\<not> b \<longrightarrow> True \<notin> set bs)" by blast
next
  assume p: "packed bs \<and> (\<not> b \<longrightarrow> True \<notin> set bs)"
  show "packed (b # bs)" unfolding packed_def
  proof (intro allI impI)
    fix i j assume a: "i < j" "j < length (b # bs)" "(b # bs) ! j"
    then obtain j' where j: "j = Suc j'" by (cases j) auto
    then have "True \<in> set bs" using a by (auto simp: in_set_conv_nth)
    then show "(b # bs) ! i" using p a j by (cases i) (auto simp: packed_def)
  qed
qed

lemma cleanup_Dir2_count:
  "packed (map (\<lambda>d. d \<noteq> None) ds) \<Longrightarrow> cleanup_Dir2 ds = length (filter (\<lambda>d. d \<noteq> None) ds)"
proof (induction ds)
  case (Cons d ds)
  then show ?case by (cases d) (auto simp: packed_Cons filter_empty_conv)
qed simp

lemma cleanup_Dir1_count:
  "packed (map (\<lambda>d. d \<noteq> None) ds) \<Longrightarrow> (\<And>d. Some d \<in> set ds \<Longrightarrow> packed (map (\<lambda>d. d \<noteq> None) d)) \<Longrightarrow>
     cleanup_Dir1 ds = length (filter (\<lambda>d. d \<noteq> None) ds)
       + (\<Sum>d2 \<leftarrow> ds. case d2 of None \<Rightarrow> 0 | Some d \<Rightarrow> length (filter (\<lambda>d3. d3 \<noteq> None) d))"
proof (induction ds)
  case (Cons d ds)
  show ?case
  proof (cases d)
    case None
    then have n: "\<forall>d \<in> set ds. d = None" using Cons.prems(1) by (auto simp: packed_Cons)
    then have "(\<Sum>d2 \<leftarrow> ds. case d2 of None \<Rightarrow> 0 | Some d \<Rightarrow> length (filter (\<lambda>d3. d3 \<noteq> None) d)) = 0"
      using n by (auto simp: sum_list_eq_0_iff split: option.split)
    then show ?thesis using None n by (simp add: filter_empty_conv)
  next
    case (Some e)
    then show ?thesis using Cons.IH Cons.prems by (simp add: packed_Cons cleanup_Dir2_count)
  qed
qed simp

lemma MemTrackCleanup_all:
  assumes "shape_ok (shape (mt_dir1 mt))"
  shows "MemTrackCleanup mt = pages_held mt"
proof -
  have "packed (map (\<lambda>d. d \<noteq> None) d)" if "Some d \<in> set (mt_dir1 mt)" for d
  proof -
    have "Some (map (\<lambda>d. d \<noteq> None) d) \<in> set (shape (mt_dir1 mt))"
      unfolding shape_def set_map using that by (rule rev_image_eqI) simp
    then show ?thesis using assms by (simp add: shape_ok_def)
  qed
  moreover have "packed (map (\<lambda>d. d \<noteq> None) (mt_dir1 mt))"
    using assms by (simp add: shape_ok_def shape_def comp_def)
  ultimately show ?thesis by (simp add: MemTrackCleanup_def pages_held_def cleanup_Dir1_count)
qed


text \<open>The callback in turn on the entries, each as it was when the cleanup began.\<close>

fun run_cb :: "('e \<Rightarrow> 's \<Rightarrow> ('e \<times> 's) option) \<Rightarrow> 'e list \<Rightarrow> 's \<Rightarrow> 's option" where
  "run_cb cb [] s = Some s"
| "run_cb cb (e # es) s = (case cb e s of None \<Rightarrow> None | Some (e', s') \<Rightarrow> run_cb cb es s')"

lemma cleanup_entries_run:
  assumes "dirs_ok dir1" "\<forall>i \<in> set is. i < max_entries \<and> has_entry dir1 i" "distinct is"
  shows "case cleanup_entries cb is dir1 s of None \<Rightarrow> run_cb cb (map (entry dir1) is) s = None
    | Some (d', s') \<Rightarrow> run_cb cb (map (entry dir1) is) s = Some s' \<and> shape d' = shape dir1"
  using assms
proof (induction "is" arbitrary: dir1 s)
  case (Cons i "is")
  show ?case
  proof (cases "cb (entry dir1 i) s")
    case None then show ?thesis by simp
  next
    case (Some x)
    obtain e s' where x: "x = (e, s')" by (cases x)
    let ?d = "set_entry (MEMTRACK_IDX2DIR i) e dir1"
    have i: "i < max_entries" "has_entry dir1 i" using Cons.prems by auto
    note S = set_entry [OF Cons.prems(1) i, where e = e]
    have m: "map (entry ?d) is = map (entry dir1) is" using S(3) Cons.prems by (intro map_cong) auto
    have sh: "shape ?d = shape dir1" using S(4) by (simp add: shape_def)
    have "case cleanup_entries cb is ?d s' of None \<Rightarrow> run_cb cb (map (entry ?d) is) s' = None
      | Some (d', t) \<Rightarrow> run_cb cb (map (entry ?d) is) s' = Some t \<and> shape d' = shape ?d"
      using S(1,2) Cons.prems by (intro Cons.IH) simp_all
    then show ?thesis unfolding m sh by (simp add: Some x split: option.splits prod.splits)
  qed
qed simp

lemma MemTrack_Cleanup_run:
  assumes "mt_ok mt"
  shows "MemTrack_Cleanup mt cb s = map_option (\<lambda>s'. (numPages mt, pages_held mt, s'))
    (run_cb cb (map (entry (mt_dir1 mt)) [0 ..< unat (numPages mt)]) s)"
proof -
  let ?is = "[0 ..< unat (numPages mt)]"
  have "dirs_ok (mt_dir1 mt)" "\<forall>i \<in> set ?is. i < max_entries \<and> has_entry (mt_dir1 mt) i" "distinct ?is"
    using assms by (auto simp: mt_ok_def)
  note r = cleanup_entries_run [OF this, of cb s]
  show ?thesis
  proof (cases "cleanup_entries cb ?is (mt_dir1 mt) s")
    case None
    then show ?thesis using r by (simp add: MemTrack_Cleanup_def)
  next
    case (Some x)
    obtain d' s' where x: "x = (d', s')" by (cases x)
    have sh: "shape d' = shape (mt_dir1 mt)" using r Some x by simp
    have "MemTrackCleanup (mt\<lparr>mt_dir1 := d'\<rparr>) = pages_held (mt\<lparr>mt_dir1 := d'\<rparr>)"
      by (rule MemTrackCleanup_all) (use assms sh in \<open>simp add: mt_ok_def\<close>)
    also have "\<dots> = pages_held mt"
    proof -
      let ?c = "\<lambda>sh. length (filter (\<lambda>d. d \<noteq> None) sh)
        + (\<Sum>d2 \<leftarrow> sh. case d2 of None \<Rightarrow> 0 | Some bs \<Rightarrow> length (filter id bs))"
      have c: "?c (shape d) = length (filter (\<lambda>d. d \<noteq> None) d)
        + (\<Sum>d2 \<leftarrow> d. case d2 of None \<Rightarrow> 0 | Some d \<Rightarrow> length (filter (\<lambda>d3. d3 \<noteq> None) d))" for d :: MemTrackDir1
        by (induction d) (auto simp: shape_def filter_map comp_def split: option.split)
      have "pages_held m = length (vpnHashTable m) + ?c (shape (mt_dir1 m))" for m :: MemTrack
        unfolding pages_held_def by (simp only: c add.assoc)
      then show ?thesis using sh by simp
    qed
    finally show ?thesis using r Some x by (simp add: MemTrack_Cleanup_def)
  qed
qed

subsection \<open>Over the life of a tracker\<close>

fun add_pages :: "(bool \<times> bool \<times> VPN64 \<times> MPN) list \<Rightarrow> MemTrack \<Rightarrow> (VPN64 \<times> MPN) list \<times> MemTrack" where
  "add_pages [] mt = ([], mt)"
| "add_pages ((a2, a3, v, m) # xs) mt =
     (let (r, mt1) = MemTrack_Add a2 a3 v m mt; (ps, mt2) = add_pages xs mt1
      in (if r = None then ps else (v, m) # ps, mt2))"

lemma add_pages_ok:
  "mt_ok mt \<Longrightarrow> add_pages xs mt = (ps, mt') \<Longrightarrow> mt_ok mt' \<and> mt_pairs mt' = mt_pairs mt @ ps"
proof (induction xs arbitrary: mt ps mt')
  case (Cons x xs)
  obtain a2 a3 v m where x: "x = (a2, a3, v, m)" by (rule prod_cases4)
  obtain r mt1 where a: "MemTrack_Add a2 a3 v m mt = (r, mt1)" by fastforce
  obtain ps' mt2 where b: "add_pages xs mt1 = (ps', mt2)" by fastforce
  have "mt_ok mt1" by (rule MemTrack_Add_correct(1) [OF Cons.prems(1) a])
  from Cons.IH [OF this b] mt_pairs_Add [OF Cons.prems(1) a] show ?case
    using Cons.prems(2) by (auto simp: x a b split: if_splits)
qed simp

lemma add_pages_all:
  assumes "mt_ok mt" "\<forall>x \<in> set xs. fst x \<and> fst (snd x)" "add_pages xs mt = (ps, mt')"
  shows "ps = take (max_entries - unat (numPages mt)) (map (\<lambda>x. snd (snd x)) xs)"
  using assms
proof (induction xs arbitrary: mt ps mt')
  case (Cons x xs)
  obtain a2 a3 v m where x: "x = (a2, a3, v, m)" by (rule prod_cases4)
  obtain r mt1 where a: "MemTrack_Add a2 a3 v m mt = (r, mt1)" by fastforce
  obtain ps' mt2 where b: "add_pages xs mt1 = (ps', mt2)" by fastforce
  note A = MemTrack_Add_correct [OF Cons.prems(1) a]
  have IH: "ps' = take (max_entries - unat (numPages mt1)) (map (\<lambda>x. snd (snd x)) xs)"
    using Cons.IH [OF A(1) _ b] Cons.prems(2) by simp
  have aa: "a2" "a3" using Cons.prems(2) x by auto
  show ?case
  proof (cases "unat (numPages mt) < max_entries")
    case True
    have "r \<noteq> None"
    proof
      assume "r = None"
      then show False using A(3) aa True by simp
    qed
    moreover have "max_entries - unat (numPages mt) = Suc (max_entries - unat (numPages mt1))"
      using A(2) \<open>r \<noteq> None\<close> by auto
    ultimately show ?thesis using Cons.prems(3) IH by (auto simp: x a b)
  next
    case False
    then have n: "unat (numPages mt) = max_entries" using Cons.prems(1) by (simp add: mt_ok_def)
    then have "r = None" by (rule A(4))
    moreover have "numPages mt1 = numPages mt" using A(3) \<open>r = None\<close> by simp
    ultimately show ?thesis using Cons.prems(3) IH n by (simp add: x a b)
  qed
qed simp

text \<open>
  C24: Whatever pages are added, a lookup ends and finds the machine page that was added last for
  the virtual page, if any; and while there is memory exactly the first 1131520 pages are
  accepted (more than the 4 GB the tracker is meant for).
\<close>

theorem memtrack_lookup_newest:
  assumes "MemTrack_Init av pav = Some mt0" "add_pages xs mt0 = (ps, mt)"
  shows "(\<exists>r. MemTrack_LookupVPN mt v = Some r
      \<and> map_option (\<lambda>p. (me_vpn (MEMTRACK_GETENTRY (mt_dir1 mt) p), me_mpn (MEMTRACK_GETENTRY (mt_dir1 mt) p))) r
        = find (\<lambda>x. fst x = v) (rev ps))
    \<and> ((\<forall>x \<in> set xs. fst x \<and> fst (snd x)) \<longrightarrow> ps = take 1131520 (map (\<lambda>x. snd (snd x)) xs))"
proof (intro conjI impI)
  note I = MemTrack_Init_ok [OF assms(1)]
  have ok: "mt_ok mt" and pairs: "mt_pairs mt = ps" using add_pages_ok [OF I(1) assms(2)] I(2) by auto
  show "\<exists>r. MemTrack_LookupVPN mt v = Some r
      \<and> map_option (\<lambda>p. (me_vpn (MEMTRACK_GETENTRY (mt_dir1 mt) p), me_mpn (MEMTRACK_GETENTRY (mt_dir1 mt) p))) r
        = find (\<lambda>x. fst x = v) (rev ps)"
  proof (rule LookupVPN_pairs [OF ok, of v])
    fix i assume "MemTrack_LookupVPN mt v = Some (Some (MEMTRACK_IDX2DIR i))" "i < unat (numPages mt)"
      "find (\<lambda>x. fst x = v) (rev (mt_pairs mt)) = Some (mt_pairs mt ! i)"
    then show ?thesis
      by (cases "MEMTRACK_IDX2DIR i") (simp add: pairs [symmetric], simp add: mt_pairs_def)
  qed (simp add: pairs)
  have "unat (numPages mt0) = 0" using I(2) length_mt_pairs [of mt0] by simp
  moreover have "max_entries = 1131520" by (simp add: max_entries_def mt_sizes)
  moreover assume "\<forall>x \<in> set xs. fst x \<and> fst (snd x)"
  ultimately show "ps = take 1131520 (map (\<lambda>x. snd (snd x)) xs)"
    using add_pages_all [OF I(1) _ assms(2)] by simp
qed

theorem memtrack_lookup_newest_witness:
  "\<exists>mt. MemTrack_Init True (\<lambda>_. True) \<noteq> None
     \<and> add_pages [(True, True, 5, 77), (True, True, 5, 78)] (the (MemTrack_Init True (\<lambda>_. True))) = ([(5, 77), (5, 78)], mt)"
proof -
  obtain mt0 where i: "MemTrack_Init True (\<lambda>_. True) = Some mt0" by (simp add: MemTrack_Init_def list_all_iff)
  obtain ps mt where a: "add_pages [(True, True, 5, 77), (True, True, 5, 78)] mt0 = (ps, mt)" by fastforce
  have "ps = [(5, 77), (5, 78)]" using memtrack_lookup_newest [OF i a] by simp
  then show ?thesis using i a by simp
qed

text \<open>
  C25: The cleanup of a tracker hands every entry to the callback, once and in the order in which
  the pages were added, and frees every page of memory of the tracker, even after additions
  that failed for lack of memory.
\<close>

theorem memtrack_cleanup_complete:
  assumes "MemTrack_Init av pav = Some mt0" "add_pages xs mt0 = (ps, mt)"
  shows "MemTrack_Cleanup mt (\<lambda>e log. Some (f e, log @ [(me_vpn e, me_mpn e)])) []
    = Some (of_nat (length ps), pages_held mt, ps)"
proof -
  note I = MemTrack_Init_ok [OF assms(1)]
  have ok: "mt_ok mt" and pairs: "mt_pairs mt = ps" using add_pages_ok [OF I(1) assms(2)] I(2) by auto
  have r: "run_cb (\<lambda>e log. Some (f e, log @ [(me_vpn e, me_mpn e)])) es log
      = Some (log @ map (\<lambda>e. (me_vpn e, me_mpn e)) es)" for es log
    by (induction es arbitrary: log) auto
  have "map (\<lambda>e. (me_vpn e, me_mpn e)) (map (entry (mt_dir1 mt)) [0 ..< unat (numPages mt)]) = ps"
    by (simp add: pairs [symmetric] mt_pairs_def)
  moreover have "numPages mt = of_nat (length ps)" by (simp add: pairs [symmetric])
  ultimately show ?thesis by (simp add: MemTrack_Cleanup_run [OF ok] r)
qed

theorem memtrack_cleanup_complete_witness:
  "\<exists>mt. MemTrack_Cleanup mt (\<lambda>e log. Some (e, log @ [(me_vpn e, me_mpn e)])) [] = Some (1, pages_held mt, [(5, 77)])"
proof -
  obtain mt0 where i: "MemTrack_Init True (\<lambda>_. True) = Some mt0" by (simp add: MemTrack_Init_def list_all_iff)
  obtain ps mt where a: "add_pages [(True, True, 5, 77)] mt0 = (ps, mt)" by fastforce
  have "unat (numPages mt0) = 0" using MemTrack_Init_ok(2) [OF i] length_mt_pairs [of mt0] by simp
  then have "ps = [(5, 77)]"
    using add_pages_all [OF MemTrack_Init_ok(1) [OF i] _ a] by (simp add: max_entries_def mt_sizes)
  then show ?thesis using memtrack_cleanup_complete [OF i a, of "\<lambda>e. e"] by auto
qed

end
