(* ===== verification/HostPages.thy ===== *)
theory HostPages
  imports MemTrack
begin

text \<open>
  Locking and allocating the memory of virtual machines, \<open>vmmon-only/linux/hostif.c\<close>: pages of
  user memory are pinned under their virtual page (in the memory tracker and in the tracker that
  all machines share) or under their page number (in a tracker of the machine), and pages
  allocated for a machine are kept in a second tracker of the machine.  The state holds the
  machines, the trackers and, for every page, the number of references the driver holds.  A panic,
  a use of a null pointer and a \<open>put_page\<close> of a page without references are the value \<open>None\<close>.
  The kernel's answers (pages, memory, copies from and to user space) are arguments.
\<close>

record VMMemMgmtInfo =
  mi_minAllocation :: u32
  mi_maxAllocation :: u32
  mi_shares :: u32
  mi_nonpaged :: u32
  mi_paged :: u32
  mi_mainMemSize :: u32
  mi_locked :: u32
  mi_shared :: u32
  mi_perVMOverhead :: u32
  mi_breaksAvg :: u32
  mi_sharedPctAvg :: u8
  mi_usedPct :: u8
  mi_admitted :: bool
  mi_hugePageBytes :: u64

record VMHost =
  vh_physTracker :: "ptr option"
  vh_lockedPages :: "ptr option"
  vh_AWEPages :: "ptr option"
  vh_swapBacked :: bool
  vh_usingMlock :: bool

record VMDriver =
  vm_userID :: int
  vm_vmhost :: "VMHost option"
  vm_memtracker :: "MemTrack option"
  vm_memInfo :: VMMemMgmtInfo
  vm_fastClockRate :: u32

text \<open>A machine when \<open>Vmx86_CreateVM\<close> has cleared it.\<close>

definition zero_memInfo :: VMMemMgmtInfo where
  "zero_memInfo = \<lparr>mi_minAllocation = 0, mi_maxAllocation = 0, mi_shares = 0, mi_nonpaged = 0, mi_paged = 0,
     mi_mainMemSize = 0, mi_locked = 0, mi_shared = 0, mi_perVMOverhead = 0, mi_breaksAvg = 0,
     mi_sharedPctAvg = 0, mi_usedPct = 0, mi_admitted = False, mi_hugePageBytes = 0\<rparr>"

definition zero_VMDriver :: VMDriver where
  "zero_VMDriver = \<lparr>vm_userID = 0, vm_vmhost = None, vm_memtracker = None, vm_memInfo = zero_memInfo, vm_fastClockRate = 0\<rparr>"

record host_state = phys_state +
  vm_mem :: "ptr \<Rightarrow> VMDriver"
  page_refs :: "MPN \<Rightarrow> nat"

definition PAGE_LOCK_FAILED :: u32 where "PAGE_LOCK_FAILED = - 10001"
definition PAGE_LOCK_LIMIT_EXCEEDED :: u32 where "PAGE_LOCK_LIMIT_EXCEEDED = - 10002"
definition PAGE_LOCK_ALREADY_LOCKED :: u32 where "PAGE_LOCK_ALREADY_LOCKED = - 10011"
definition PAGE_LOCK_MEMTRACKER_ERROR :: u32 where "PAGE_LOCK_MEMTRACKER_ERROR = - 10012"
definition PAGE_LOCK_PHYSTRACKER_ERROR :: u32 where "PAGE_LOCK_PHYSTRACKER_ERROR = - 10013"
definition PAGE_UNLOCK_NO_ERROR :: u32 where "PAGE_UNLOCK_NO_ERROR = 0"
definition PAGE_UNLOCK_NOT_TRACKED :: u32 where "PAGE_UNLOCK_NOT_TRACKED = - 10100"
definition PAGE_UNLOCK_NO_MPN :: u32 where "PAGE_UNLOCK_NO_MPN = - 10101"
definition EINVAL :: int where "EINVAL = 22"
definition ENOMEM :: int where "ENOMEM = 12"
definition EFAULT :: int where "EFAULT = 14"

definition VA_2_VPN :: "u64 \<Rightarrow> VPN64" where
  "VA_2_VPN va = drop_bit 12 va"

definition upd_vm :: "ptr \<Rightarrow> (VMDriver \<Rightarrow> VMDriver) \<Rightarrow> 'a host_state_scheme \<Rightarrow> 'a host_state_scheme" where
  "upd_vm v f s = s\<lparr>vm_mem := (vm_mem s)(v := f (vm_mem s v))\<rparr>"

definition upd_vmhost :: "ptr \<Rightarrow> (VMHost \<Rightarrow> VMHost) \<Rightarrow> 'a host_state_scheme \<Rightarrow> 'a host_state_scheme" where
  "upd_vmhost v f = upd_vm v (\<lambda>vm. vm\<lparr>vm_vmhost := map_option f (vm_vmhost vm)\<rparr>)"

definition get_page :: "MPN \<Rightarrow> 'a host_state_scheme \<Rightarrow> 'a host_state_scheme" where
  "get_page m s = s\<lparr>page_refs := (page_refs s)(m := Suc (page_refs s m))\<rparr>"

definition put_page :: "MPN \<Rightarrow> 'a host_state_scheme \<Rightarrow> 'a host_state_scheme option" where
  "put_page m s = (if page_refs s m = 0 then None else Some (s\<lparr>page_refs := (page_refs s)(m := page_refs s m - 1)\<rparr>))"

text \<open>The operations on the tracker at an address.\<close>

definition track_page :: "bool \<Rightarrow> bool \<Rightarrow> ptr \<Rightarrow> MPN \<Rightarrow> 'a host_state_scheme \<Rightarrow> 'a host_state_scheme option" where
  "track_page a2 a3 p m s = map_option (\<lambda>t. upd_pt p (\<lambda>_. t) s) (PhysTrack_Add a2 a3 m (pt_mem s p))"

definition untrack_page :: "ptr \<Rightarrow> MPN \<Rightarrow> 'a host_state_scheme \<Rightarrow> 'a host_state_scheme option" where
  "untrack_page p m s = map_option (\<lambda>t. upd_pt p (\<lambda>_. t) s) (PhysTrack_Remove m (pt_mem s p))"

definition physTracker_of :: "'a host_state_scheme \<Rightarrow> ptr \<Rightarrow> ptr option" where
  "physTracker_of s v = Option.bind (vm_vmhost (vm_mem s v)) vh_physTracker"

definition lockedPages_of :: "'a host_state_scheme \<Rightarrow> ptr \<Rightarrow> ptr option" where
  "lockedPages_of s v = Option.bind (vm_vmhost (vm_mem s v)) vh_lockedPages"

definition AWEPages_of :: "'a host_state_scheme \<Rightarrow> ptr \<Rightarrow> ptr option" where
  "AWEPages_of s v = Option.bind (vm_vmhost (vm_mem s v)) vh_AWEPages"

definition HOST_UNLOCK_PFN :: "ptr \<Rightarrow> MPN \<Rightarrow> 'a host_state_scheme \<Rightarrow> 'a host_state_scheme option" where
  "HOST_UNLOCK_PFN v pfn s = (case physTracker_of s v of None \<Rightarrow> None
     | Some p \<Rightarrow> Option.bind (untrack_page p pfn s) (put_page pfn))"

definition HOST_UNLOCK_PFN_BYMPN :: "ptr \<Rightarrow> MPN \<Rightarrow> 'a host_state_scheme \<Rightarrow> 'a host_state_scheme option" where
  "HOST_UNLOCK_PFN_BYMPN v pfn s = (case lockedPages_of s v of None \<Rightarrow> None
     | Some p \<Rightarrow> Option.bind (untrack_page p pfn s) (put_page pfn))"

definition HOST_ISTRACKED_PFN :: "ptr \<Rightarrow> MPN \<Rightarrow> 'a host_state_scheme \<Rightarrow> bool option" where
  "HOST_ISTRACKED_PFN v pfn s = map_option (\<lambda>p. PhysTrack_Test (pt_mem s p) pfn) (physTracker_of s v)"

section \<open>Setting up and tearing down\<close>

definition HostIFHostMemInit :: "ptr option \<Rightarrow> ptr option \<Rightarrow> ptr \<Rightarrow> 'a host_state_scheme \<Rightarrow> bool \<times> 'a host_state_scheme" where
  "HostIFHostMemInit newL newA v s =
     (case PhysTrack_Alloc newL s of
        (None, s1) \<Rightarrow> (False, s1)
      | (Some l, s1) \<Rightarrow>
          let s2 = upd_vmhost v (\<lambda>h. h\<lparr>vh_lockedPages := Some l\<rparr>) s1
          in (case PhysTrack_Alloc newA s2 of
                (None, s3) \<Rightarrow> (False, s3)
              | (Some a, s3) \<Rightarrow> (True, upd_vmhost v (\<lambda>h. h\<lparr>vh_AWEPages := Some a\<rparr>) s3)))"

text \<open>The tracker of virtual pages, whether the host part is allocated, and the trackers of pages.\<close>

definition HostIF_Init ::
  "MemTrack option \<Rightarrow> bool \<Rightarrow> ptr option \<Rightarrow> ptr option \<Rightarrow> ptr option \<Rightarrow> ptr \<Rightarrow> 'a host_state_scheme
     \<Rightarrow> bool \<times> 'a host_state_scheme" where
  "HostIF_Init mt vmh newP newL newA v s =
     (let s1 = upd_vm v (\<lambda>vm. vm\<lparr>vm_memtracker := mt\<rparr>) s
      in if mt = None then (False, s1)
         else if \<not> vmh then (False, s1)
         else let s2 = upd_vm v (\<lambda>vm. vm\<lparr>vm_vmhost :=
                Some \<lparr>vh_physTracker = None, vh_lockedPages = None, vh_AWEPages = None,
                  vh_swapBacked = False, vh_usingMlock = False\<rparr>\<rparr>) s1
         in (case PhysTrack_Init newP s2 of
               (None, s3) \<Rightarrow> (False, s3)
             | (Some p, s3) \<Rightarrow>
                 HostIFHostMemInit newL newA v (upd_vmhost v (\<lambda>h. h\<lparr>vh_physTracker := Some p\<rparr>) s3)))"

text \<open>One turn of a loop over the pages of a tracker: the page is removed and given back.\<close>

definition release_tracked :: "ptr \<Rightarrow> MPN \<Rightarrow> 'a host_state_scheme \<Rightarrow> 'a host_state_scheme option" where
  "release_tracked p m s = Option.bind (untrack_page p m s) (put_page m)"

definition drain_tracker :: "ptr \<Rightarrow> 'a host_state_scheme \<Rightarrow> 'a host_state_scheme option" where
  "drain_tracker p s = Option.bind
     (for_each_page (\<lambda>s m. PhysTrack_GetNext (pt_mem s p) m) (release_tracked p) 0 s)
     (PhysTrack_Cleanup p)"

definition HostIFHostMemCleanup :: "ptr \<Rightarrow> 'a host_state_scheme \<Rightarrow> 'a host_state_scheme option" where
  "HostIFHostMemCleanup v s =
     (if vm_vmhost (vm_mem s v) = None then Some s
      else Option.bind
        (case lockedPages_of s v of None \<Rightarrow> Some s
         | Some l \<Rightarrow> map_option (upd_vmhost v (\<lambda>h. h\<lparr>vh_lockedPages := None\<rparr>)) (drain_tracker l s))
        (\<lambda>s1. case AWEPages_of s1 v of None \<Rightarrow> Some s1
         | Some a \<Rightarrow> map_option (upd_vmhost v (\<lambda>h. h\<lparr>vh_AWEPages := None\<rparr>)) (drain_tracker a s1)))"

definition UnlockEntry :: "ptr \<Rightarrow> MemTrackEntry \<Rightarrow> 'a host_state_scheme \<Rightarrow> (MemTrackEntry \<times> 'a host_state_scheme) option" where
  "UnlockEntry v e s =
     (if me_mpn e = 0 then Some (e, s)
      else case HOST_ISTRACKED_PFN v (me_mpn e) s of None \<Rightarrow> None
      | Some True \<Rightarrow> map_option (\<lambda>s1. (e\<lparr>me_mpn := 0\<rparr>, s1)) (HOST_UNLOCK_PFN v (me_mpn e) s)
      | Some False \<Rightarrow> Some (e\<lparr>me_mpn := 0\<rparr>, s))"

definition HostIF_FreeAllResources :: "ptr \<Rightarrow> 'a host_state_scheme \<Rightarrow> 'a host_state_scheme option" where
  "HostIF_FreeAllResources v s =
     Option.bind (HostIFHostMemCleanup v s) (\<lambda>s1.
     Option.bind
       (case vm_memtracker (vm_mem s1 v) of None \<Rightarrow> Some s1
        | Some mt \<Rightarrow> map_option (\<lambda>(_, _, s2). upd_vm v (\<lambda>vm. vm\<lparr>vm_memtracker := None\<rparr>) s2)
            (MemTrack_Cleanup mt (UnlockEntry v) s1)) (\<lambda>s2.
     if vm_vmhost (vm_mem s2 v) = None then Some s2
     else map_option (upd_vm v (\<lambda>vm. vm\<lparr>vm_vmhost := None\<rparr>))
       (case physTracker_of s2 v of None \<Rightarrow> Some s2
        | Some p \<Rightarrow> map_option (upd_vmhost v (\<lambda>h. h\<lparr>vh_physTracker := None\<rparr>)) (PhysTrack_Cleanup p s2))))"

section \<open>Locking user memory\<close>

definition HostIFGetUserPage :: "MPN option \<Rightarrow> 'a host_state_scheme \<Rightarrow> (MPN \<times> 'a host_state_scheme) option" where
  "HostIFGetUserPage page s = map_option (\<lambda>m. (m, get_page m s)) page"

record lock_alloc =
  la_mt2 :: bool
  la_mt3 :: bool
  la_pt2 :: bool
  la_pt3 :: bool

definition HostIF_LockPage ::
  "lock_alloc \<Rightarrow> MPN option \<Rightarrow> ptr \<Rightarrow> u64 \<Rightarrow> bool \<Rightarrow> 'a host_state_scheme \<Rightarrow> (MPN \<times> 'a host_state_scheme) option" where
  "HostIF_LockPage al page v uAddr allowMultiple s =
     (case vm_memtracker (vm_mem s v) of None \<Rightarrow> None
      | Some mt \<Rightarrow>
     (let vpn = VA_2_VPN uAddr
      in case (if allowMultiple then Some None else MemTrack_LookupVPN mt vpn) of None \<Rightarrow> None
      | Some entryPtr \<Rightarrow>
     (if (case entryPtr of None \<Rightarrow> False | Some e \<Rightarrow> me_mpn (MEMTRACK_GETENTRY (mt_dir1 mt) e) \<noteq> 0)
      then Some (PAGE_LOCK_ALREADY_LOCKED, s)
      else case HostIFGetUserPage page s of None \<Rightarrow> Some (PAGE_LOCK_FAILED, s)
      | Some (mpn, s1) \<Rightarrow>
     (case HOST_ISTRACKED_PFN v mpn s1 of None \<Rightarrow> None
      | Some True \<Rightarrow> map_option (Pair PAGE_LOCK_PHYSTRACKER_ERROR) (put_page mpn s1)
      | Some False \<Rightarrow>
          if allowMultiple then
            (case lockedPages_of s1 v of None \<Rightarrow> None
             | Some l \<Rightarrow>
                 if PhysTrack_Test (pt_mem s1 l) mpn
                 then map_option (Pair PAGE_LOCK_ALREADY_LOCKED) (put_page mpn s1)
                 else map_option (Pair mpn) (track_page (la_pt2 al) (la_pt3 al) l mpn s1))
          else
            let (r, mt') = (case entryPtr of
                  None \<Rightarrow> MemTrack_Add (la_mt2 al) (la_mt3 al) vpn mpn mt
                | Some e \<Rightarrow> (Some e, set_mpn e mpn mt));
                s2 = upd_vm v (\<lambda>vm. vm\<lparr>vm_memtracker := Some mt'\<rparr>) s1
            in if r = None then map_option (Pair PAGE_LOCK_MEMTRACKER_ERROR) (HOST_UNLOCK_PFN v mpn s2)
               else (case physTracker_of s2 v of None \<Rightarrow> None
                     | Some p \<Rightarrow> map_option (Pair mpn) (track_page (la_pt2 al) (la_pt3 al) p mpn s2))))))"

definition HostIF_IsLockedByMPN :: "ptr \<Rightarrow> MPN \<Rightarrow> 'a host_state_scheme \<Rightarrow> bool option" where
  "HostIF_IsLockedByMPN v mpn s = map_option (\<lambda>l. PhysTrack_Test (pt_mem s l) mpn) (lockedPages_of s v)"

definition HostIF_UnlockPage :: "ptr \<Rightarrow> u64 \<Rightarrow> 'a host_state_scheme \<Rightarrow> (u32 \<times> 'a host_state_scheme) option" where
  "HostIF_UnlockPage v uAddr s =
     (case vm_memtracker (vm_mem s v) of None \<Rightarrow> None
      | Some mt \<Rightarrow> (case MemTrack_LookupVPN mt (VA_2_VPN uAddr) of None \<Rightarrow> None
        | Some None \<Rightarrow> Some (PAGE_UNLOCK_NOT_TRACKED, s)
        | Some (Some e) \<Rightarrow>
            let mpn = me_mpn (MEMTRACK_GETENTRY (mt_dir1 mt) e)
            in if mpn = 0 then Some (PAGE_UNLOCK_NO_MPN, s)
               else map_option (\<lambda>s1. (PAGE_UNLOCK_NO_ERROR, upd_vm v (\<lambda>vm. vm\<lparr>vm_memtracker := Some (set_mpn e 0 mt)\<rparr>) s1))
                      (HOST_UNLOCK_PFN v mpn s)))"

definition HostIF_UnlockPageByMPN :: "ptr \<Rightarrow> MPN \<Rightarrow> 'a host_state_scheme \<Rightarrow> (u32 \<times> 'a host_state_scheme) option" where
  "HostIF_UnlockPageByMPN v mpn s =
     (case lockedPages_of s v of None \<Rightarrow> None
      | Some l \<Rightarrow> if \<not> PhysTrack_Test (pt_mem s l) mpn then Some (PAGE_UNLOCK_NO_MPN, s)
                  else map_option (Pair PAGE_UNLOCK_NO_ERROR) (HOST_UNLOCK_PFN_BYMPN v mpn s))"


text \<open>
  \<open>va2mpn\<close> is the answer of the page table walk before, and \<open>va2mpn'\<close> after the page was touched.
\<close>

definition HostIF_LookupUserMPN :: "MPN \<Rightarrow> MPN \<Rightarrow> ptr option \<Rightarrow> u64 \<Rightarrow> 'a host_state_scheme \<Rightarrow> MPN option" where
  "HostIF_LookupUserMPN va2mpn va2mpn' vm uAddr s =
     (if va2mpn \<noteq> INVALID_MPN then Some va2mpn
      else case vm of None \<Rightarrow> Some (va2mpn - 40)
      | Some v \<Rightarrow> (case vm_memtracker (vm_mem s v) of None \<Rightarrow> None
        | Some mt \<Rightarrow> (case MemTrack_LookupVPN mt (VA_2_VPN uAddr) of None \<Rightarrow> None
          | Some None \<Rightarrow> Some (va2mpn - 10)
          | Some (Some e) \<Rightarrow>
              let mpn = me_mpn (MEMTRACK_GETENTRY (mt_dir1 mt) e)
              in if mpn = 0 then Some (va2mpn - 20)
                 else case HOST_ISTRACKED_PFN v mpn s of None \<Rightarrow> None
                 | Some False \<Rightarrow> Some (va2mpn - 30)
                 | Some True \<Rightarrow> Some (if va2mpn' = mpn then va2mpn'
                     else if va2mpn' \<noteq> INVALID_MPN then INVALID_MPN else mpn))))"

section \<open>Allocating pages\<close>

text \<open>
  The pages that the kernel allocates in turn (\<open>None\<close>: no memory, which ends the list) with
  whether the number could be copied to the buffer, and the allocator's answers for the tracker.
  The result is the number of turns, the error, and the numbers written.
\<close>

fun alloc_locked_loop ::
  "(MPN option \<times> bool \<times> bool \<times> bool) list \<Rightarrow> ptr \<Rightarrow> nat \<Rightarrow> nat \<Rightarrow> MPN list \<Rightarrow> 'a host_state_scheme
     \<Rightarrow> (nat \<times> int \<times> MPN list \<times> 'a host_state_scheme) option" where
  "alloc_locked_loop [] a n cnt out s = Some (cnt, (if cnt < n then - ENOMEM else 0), out, s)"
| "alloc_locked_loop ((page, copied, a2, a3) # ps) a n cnt out s =
     (if n \<le> cnt then Some (cnt, 0, out, s)
      else case page of None \<Rightarrow> Some (cnt, - ENOMEM, out, s)
      | Some mpn \<Rightarrow>
          let s1 = get_page mpn s
          in if \<not> copied then map_option (\<lambda>s2. (cnt, - EFAULT, out, s2)) (put_page mpn s1)
             else Option.bind (track_page a2 a3 a mpn s1)
                    (alloc_locked_loop ps a n (Suc cnt) (out @ [mpn])))"

definition HostIF_AllocLockedPages ::
  "(MPN option \<times> bool \<times> bool \<times> bool) list \<Rightarrow> ptr \<Rightarrow> u32 \<Rightarrow> 'a host_state_scheme
     \<Rightarrow> (int \<times> MPN list \<times> 'a host_state_scheme) option" where
  "HostIF_AllocLockedPages ps v nPages s =
     (case AWEPages_of s v of None \<Rightarrow> Some (- EINVAL, [], s)
      | Some a \<Rightarrow> map_option (\<lambda>(cnt, err, out, s1). (if cnt \<noteq> 0 then sint (of_nat cnt :: u32) else err, out, s1))
          (alloc_locked_loop ps a (unat nPages) 0 [] s))"

fun free_locked_loop :: "ptr \<Rightarrow> MPN list \<Rightarrow> 'a host_state_scheme \<Rightarrow> 'a host_state_scheme option" where
  "free_locked_loop a [] s = Some s"
| "free_locked_loop a (m # ms) s = Option.bind (untrack_page a m s) (\<lambda>s1. Option.bind (put_page m s1) (free_locked_loop a ms))"

text \<open>\<open>buf\<close>: the first \<open>numPages\<close> numbers of the buffer, if it can be read.\<close>

definition HostIF_FreeLockedPages ::
  "ptr \<Rightarrow> MPN list option \<Rightarrow> u32 \<Rightarrow> bool \<Rightarrow> 'a host_state_scheme \<Rightarrow> (int \<times> 'a host_state_scheme) option" where
  "HostIF_FreeLockedPages v buf nPages kernelMPNBuffer s =
     (case AWEPages_of s v of None \<Rightarrow> Some (- EINVAL, s)
      | Some a \<Rightarrow>
          if \<not> kernelMPNBuffer \<and> 64 < nPages then Some (- EINVAL, s)
          else (case buf of None \<Rightarrow> (if kernelMPNBuffer then None else Some (- EINVAL, s))
            | Some pmpn \<Rightarrow>
                if \<not> list_all (PhysTrack_Test (pt_mem s a)) pmpn then Some (- EINVAL, s)
                else map_option (Pair 0) (free_locked_loop a pmpn s)))"

definition HostIF_IsAnonPage :: "ptr \<Rightarrow> MPN \<Rightarrow> 'a host_state_scheme \<Rightarrow> bool" where
  "HostIF_IsAnonPage v mpn s = (case AWEPages_of s v of None \<Rightarrow> False | Some a \<Rightarrow> PhysTrack_Test (pt_mem s a) mpn)"

text \<open>\<open>copied i\<close>: the \<open>i\<close>-th number could be copied to the user.\<close>

fun page_list_loop :: "(nat \<Rightarrow> bool) \<Rightarrow> PhysTracker \<Rightarrow> nat \<Rightarrow> nat \<Rightarrow> MPN \<Rightarrow> MPN list \<Rightarrow> int \<times> MPN list" where
  "page_list_loop copied t 0 count mpn out = (int count, out)"
| "page_list_loop copied t (Suc n) count mpn out =
     (let m = PhysTrack_GetNext t mpn
      in if m = INVALID_MPN then (int count, out)
         else if \<not> copied count then (- EFAULT, out)
         else page_list_loop copied t n (Suc count) m (out @ [m]))"

definition HostIF_GetLockedPageList :: "(nat \<Rightarrow> bool) \<Rightarrow> ptr \<Rightarrow> u32 \<Rightarrow> 'a host_state_scheme \<Rightarrow> int \<times> MPN list" where
  "HostIF_GetLockedPageList copied v nPages s =
     (case AWEPages_of s v of None \<Rightarrow> (0, [])
      | Some a \<Rightarrow> page_list_loop copied (pt_mem s a) (unat nPages) 0 0 [])"

end
