(* ===== verification/HostPagesProps.thy ===== *)
theory HostPagesProps
  imports HostPages
begin

text \<open>
  Correctness of the page locking of \<open>HostPages\<close>: the accounting invariant (the trackers and the
  references of the driver agree, page by page), that every operation keeps it, the teardown of a
  machine, and the cases in which the code panics.
\<close>

subsection \<open>The pages a machine holds\<close>

datatype hold = Pinned | Locked | AWE

lemma hold_UNIV: "UNIV = {Pinned, Locked, AWE}"
  by (auto intro: hold.exhaust)

instance hold :: finite
  by standard (simp add: hold_UNIV)

definition pages_at :: "'a phys_state_scheme \<Rightarrow> ptr option \<Rightarrow> MPN set" where
  "pages_at s p = (case p of None \<Rightarrow> {} | Some a \<Rightarrow> tracked (pt_mem s a))"

definition pinned_in :: "MemTrack option \<Rightarrow> MPN set" where
  "pinned_in mt = (case mt of None \<Rightarrow> {} | Some t \<Rightarrow> {m \<in> snd ` set (mt_pairs t). m \<noteq> 0})"

fun own_pt :: "'a host_state_scheme \<Rightarrow> ptr \<Rightarrow> hold \<Rightarrow> ptr option" where
  "own_pt s v Pinned = None"
| "own_pt s v Locked = lockedPages_of s v"
| "own_pt s v AWE = AWEPages_of s v"

definition held :: "'a host_state_scheme \<Rightarrow> ptr \<Rightarrow> hold \<Rightarrow> MPN set" where
  "held s v k = (if k = Pinned then pinned_in (vm_memtracker (vm_mem s v)) else pages_at s (own_pt s v k))"

definition holders :: "ptr set \<Rightarrow> 'a host_state_scheme \<Rightarrow> MPN \<Rightarrow> (ptr \<times> hold) set" where
  "holders V s m = {x \<in> V \<times> UNIV. m \<in> held s (fst x) (snd x)}"

definition mt_unique :: "MemTrack \<Rightarrow> bool" where
  "mt_unique mt \<longleftrightarrow> mt_ok mt \<and> distinct (map fst (mt_pairs mt)) \<and> distinct (filter (\<lambda>m. m \<noteq> 0) (map snd (mt_pairs mt)))"

definition pt_at :: "'a phys_state_scheme \<Rightarrow> ptr \<Rightarrow> bool" where
  "pt_at s p \<longleftrightarrow> p \<in> pt_live s \<and> pt_ok (pt_mem s p)"

definition host_wf :: "ptr set \<Rightarrow> 'a host_state_scheme \<Rightarrow> bool" where
  [inv_defs]: "host_wf V s \<longleftrightarrow> finite V
     \<and> (\<forall>v \<in> V. \<forall>mt. vm_memtracker (vm_mem s v) = Some mt \<longrightarrow> mt_unique mt)
     \<and> (\<forall>v \<in> V. \<forall>w \<in> V. v \<noteq> w \<longrightarrow> held s v Pinned \<inter> held s w Pinned = {})
     \<and> (\<forall>v \<in> V. \<forall>k p. own_pt s v k = Some p \<longrightarrow> pt_at s p \<and> numVMs (pt_mem s p) = 1 \<and> physTracker s \<noteq> Some p
          \<and> (\<forall>w \<in> V. \<forall>j. own_pt s w j = Some p \<longrightarrow> w = v \<and> j = k))
     \<and> (\<forall>v \<in> V. (physTracker_of s v \<noteq> None \<longrightarrow> physTracker_of s v = physTracker s)
          \<and> (held s v Pinned \<noteq> {} \<longrightarrow> physTracker_of s v \<noteq> None))
     \<and> (\<forall>p. physTracker s = Some p \<longrightarrow> pt_at s p \<and> tracked (pt_mem s p) = (\<Union>v \<in> V. held s v Pinned)
          \<and> numVMs (pt_mem s p) = int (card {v \<in> V. physTracker_of s v \<noteq> None}) \<and> 0 < numVMs (pt_mem s p))"

definition host_inv :: "ptr set \<Rightarrow> 'a host_state_scheme \<Rightarrow> bool" where
  [inv_defs]: "host_inv V s \<longleftrightarrow> host_wf V s \<and> (\<forall>m. page_refs s m = card (holders V s m))"

subsection \<open>Frames\<close>

lemma upd_vm_simps [simp]:
  "vm_mem (upd_vm v f s) w = (if w = v then f (vm_mem s v) else vm_mem s w)"
  "pt_mem (upd_vm v f s) = pt_mem s" "pt_live (upd_vm v f s) = pt_live s"
  "physTracker (upd_vm v f s) = physTracker s" "page_refs (upd_vm v f s) = page_refs s"
  by (simp_all add: upd_vm_def)

lemma upd_pt_simps [simp]:
  "pt_mem (upd_pt p f s) q = (if q = p then f (pt_mem s p) else pt_mem s q)"
  "pt_live (upd_pt p f s) = pt_live s" "physTracker (upd_pt p f s) = physTracker s"
  by (simp_all add: upd_pt_def)

lemma upd_pt_host [simp]:
  "vm_mem (upd_pt p f s) = vm_mem s" "page_refs (upd_pt p f s) = page_refs s"
  by (simp_all add: upd_pt_def)

lemma of_frame [simp]:
  "lockedPages_of (upd_pt p f s) v = lockedPages_of s v" "AWEPages_of (upd_pt p f s) v = AWEPages_of s v"
  "physTracker_of (upd_pt p f s) v = physTracker_of s v" "own_pt (upd_pt p f s) v k = own_pt s v k"
  "lockedPages_of (s\<lparr>page_refs := r\<rparr>) v = lockedPages_of s v" "AWEPages_of (s\<lparr>page_refs := r\<rparr>) v = AWEPages_of s v"
  "physTracker_of (s\<lparr>page_refs := r\<rparr>) v = physTracker_of s v" "own_pt (s\<lparr>page_refs := r\<rparr>) v k = own_pt s v k"
  by (cases k; simp add: lockedPages_of_def AWEPages_of_def physTracker_of_def)+

lemma refs_frame [simp]:
  "held (s\<lparr>page_refs := r\<rparr>) v k = held s v k" "holders V (s\<lparr>page_refs := r\<rparr>) m = holders V s m"
  "host_wf V (s\<lparr>page_refs := r\<rparr>) = host_wf V s"
proof -
  show h: "held (s\<lparr>page_refs := r\<rparr>) v k = held s v k" for v k
    by (simp add: held_def pages_at_def split: option.split)
  show "holders V (s\<lparr>page_refs := r\<rparr>) m = holders V s m" by (simp add: holders_def h)
  show "host_wf V (s\<lparr>page_refs := r\<rparr>) = host_wf V s" by (simp add: host_wf_def h pt_at_def)
qed

lemma finite_holders: "finite V \<Longrightarrow> finite (holders V s m)"
  by (rule finite_subset [of _ "V \<times> UNIV"]) (auto simp: holders_def)

text \<open>One place gains or loses one page.\<close>

definition changed :: "ptr set \<Rightarrow> 'a host_state_scheme \<Rightarrow> 'a host_state_scheme \<Rightarrow> ptr \<Rightarrow> hold \<Rightarrow> MPN set \<Rightarrow> bool" where
  "changed V s t v k S \<longleftrightarrow> (\<forall>w \<in> V. \<forall>j. held t w j = (if w = v \<and> j = k then S else held s w j))"

lemma changed_holders:
  assumes "changed V s t v k S"
  shows "x \<in> holders V t m \<longleftrightarrow> (if x = (v, k) then v \<in> V \<and> m \<in> S else x \<in> holders V s m)"
  using assms by (cases x) (auto simp: holders_def changed_def)

lemma holders_iff: "(v, k) \<in> holders V s m \<longleftrightarrow> v \<in> V \<and> m \<in> held s v k"
  by (simp add: holders_def)

lemma holders_gain:
  assumes "changed V s t v k (insert m (held s v k))" "m \<notin> held s v k" "v \<in> V" "finite V"
  shows "card (holders V t m') = (if m' = m then Suc (card (holders V s m)) else card (holders V s m'))"
proof (cases "m' = m")
  case True
  have "holders V t m = insert (v, k) (holders V s m)"
    using assms(2,3) by (intro set_eqI) (auto simp: changed_holders [OF assms(1)] holders_iff)
  moreover have "(v, k) \<notin> holders V s m" using assms(2) by (simp add: holders_def)
  ultimately show ?thesis using True finite_holders [OF assms(4), of s m] by simp
next
  case False
  have "holders V t m' = holders V s m'"
    using False by (intro set_eqI) (auto simp: changed_holders [OF assms(1)] holders_iff)
  then show ?thesis using False by simp
qed

lemma holders_loss:
  assumes "changed V s t v k (held s v k - {m})" "m \<in> held s v k" "v \<in> V" "finite V"
  shows "card (holders V t m') = (if m' = m then card (holders V s m) - 1 else card (holders V s m'))"
    and "0 < card (holders V s m)"
proof -
  have in_s: "(v, k) \<in> holders V s m" using assms(2,3) by (simp add: holders_def)
  show "0 < card (holders V s m)" using in_s finite_holders [OF assms(4)] by (auto simp: card_gt_0_iff)
  show "card (holders V t m') = (if m' = m then card (holders V s m) - 1 else card (holders V s m'))"
  proof (cases "m' = m")
    case True
    have "holders V t m = holders V s m - {(v, k)}"
      by (intro set_eqI) (auto simp: changed_holders [OF assms(1)] holders_iff)
    then show ?thesis using True in_s by simp
  next
    case False
    have "holders V t m' = holders V s m'"
      using False by (intro set_eqI) (auto simp: changed_holders [OF assms(1)] holders_iff)
    then show ?thesis using False by simp
  qed
qed

lemma gain_inv:
  assumes inv: "host_inv V s" and wf: "host_wf V t" and c: "changed V s t v k (insert m (held s v k))"
    and m: "m \<notin> held s v k" and v: "v \<in> V" and refs: "page_refs t = (page_refs s)(m := Suc (page_refs s m))"
  shows "host_inv V t"
proof -
  have "finite V" using inv by (simp add: host_inv_def host_wf_def)
  then show ?thesis using inv wf holders_gain [OF c m v] refs unfolding host_inv_def by simp
qed

lemma loss_inv:
  assumes inv: "host_inv V s" and wf: "host_wf V t" and c: "changed V s t v k (held s v k - {m})"
    and m: "m \<in> held s v k" and v: "v \<in> V" and refs: "page_refs t = (page_refs s)(m := page_refs s m - 1)"
  shows "host_inv V t"
proof -
  have "finite V" using inv by (simp add: host_inv_def host_wf_def)
  then show ?thesis using inv wf holders_loss(1) [OF c m v] refs unfolding host_inv_def by simp
qed

subsection \<open>The trackers of one machine\<close>

lemma own_pt_inv:
  assumes "host_wf V s" "v \<in> V" "own_pt s v k = Some p"
  shows "pt_at s p" "numVMs (pt_mem s p) = 1" "physTracker s \<noteq> Some p" "k \<noteq> Pinned" "held s v k = tracked (pt_mem s p)"
proof -
  show "pt_at s p" "numVMs (pt_mem s p) = 1" "physTracker s \<noteq> Some p" using assms by (auto simp: host_wf_def)
  show k: "k \<noteq> Pinned" using assms(3) by auto
  show "held s v k = tracked (pt_mem s p)" using k assms(3) by (simp add: held_def pages_at_def)
qed

lemma host_wf_same:
  assumes wf: "host_wf V s" and v: "vm_mem t = vm_mem s" and at: "pt_at t = pt_at s"
    and n: "\<And>q. numVMs (pt_mem t q) = numVMs (pt_mem s q)" and phys: "physTracker t = physTracker s"
    and P: "\<And>q. physTracker s = Some q \<Longrightarrow> tracked (pt_mem t q) = tracked (pt_mem s q)"
  shows "host_wf V t"
proof -
  have pin: "held t w Pinned = held s w Pinned" for w by (simp add: held_def v)
  have o: "own_pt t w j = own_pt s w j" "physTracker_of t w = physTracker_of s w" for w j
    by (cases j) (simp_all add: v lockedPages_of_def AWEPages_of_def physTracker_of_def)
  have L: "(physTracker s = Some q \<longrightarrow> A \<and> tracked (pt_mem t q) = B \<and> C)
      = (physTracker s = Some q \<longrightarrow> A \<and> tracked (pt_mem s q) = B \<and> C)" for A B C q
    using P [of q] by auto
  show ?thesis using wf unfolding host_wf_def pin o at n v phys L .
qed

lemma own_update:
  assumes wf: "host_wf V s" and v: "v \<in> V" "own_pt s v k = Some p" and t: "pt_ok t" "numVMs t = numVMs (pt_mem s p)"
  shows "host_wf V (upd_pt p (\<lambda>_. t) s)"
    and "w \<in> V \<Longrightarrow> held (upd_pt p (\<lambda>_. t) s) w j = (if w = v \<and> j = k then tracked t else held s w j)"
proof -
  note o = own_pt_inv [OF wf v]
  show "host_wf V (upd_pt p (\<lambda>_. t) s)"
  proof (rule host_wf_same [OF wf])
    show "pt_at (upd_pt p (\<lambda>_. t) s) = pt_at s" using o(1) t(1) by (auto simp: pt_at_def fun_eq_iff)
  qed (use o(3) t(2) in auto)
  assume w: "w \<in> V"
  have "own_pt s w j = Some p \<Longrightarrow> w = v \<and> j = k" using wf v w by (auto simp: host_wf_def)
  then show "held (upd_pt p (\<lambda>_. t) s) w j = (if w = v \<and> j = k then tracked t else held s w j)"
    using o(4) v(2) by (cases "own_pt s w j") (auto simp: held_def pages_at_def)
qed


lemma host_wf_disjoint:
  "host_wf V s \<Longrightarrow> v \<in> V \<Longrightarrow> w \<in> V \<Longrightarrow> v \<noteq> w \<Longrightarrow> held s v Pinned \<inter> held s w Pinned = {}"
  unfolding host_wf_def by blast

lemma host_wf_users:
  "host_wf V s \<Longrightarrow> \<forall>v \<in> V. (physTracker_of s v \<noteq> None \<longrightarrow> physTracker_of s v = physTracker s)
      \<and> (held s v Pinned \<noteq> {} \<longrightarrow> physTracker_of s v \<noteq> None)"
  unfolding host_wf_def by (elim conjE) assumption

lemma host_wf_shared:
  "host_wf V s \<Longrightarrow> \<forall>p. physTracker s = Some p \<longrightarrow> pt_at s p \<and> tracked (pt_mem s p) = (\<Union>v \<in> V. held s v Pinned)
        \<and> numVMs (pt_mem s p) = int (card {v \<in> V. physTracker_of s v \<noteq> None}) \<and> 0 < numVMs (pt_mem s p)"
  unfolding host_wf_def by (elim conjE) assumption

text \<open>The memory tracker of a machine and the shared tracker change together.\<close>

lemma pin_update:
  assumes wf: "host_wf V s" and v: "v \<in> V" and P: "physTracker_of s v = Some P"
    and mt': "mt_unique mt'" and t': "pt_ok t'" "numVMs t' = numVMs (pt_mem s P)"
      "tracked t' = (\<Union>w \<in> V - {v}. held s w Pinned) \<union> pinned_in (Some mt')"
    and disj: "\<And>w. w \<in> V \<Longrightarrow> w \<noteq> v \<Longrightarrow> pinned_in (Some mt') \<inter> held s w Pinned = {}"
    and s': "vm_mem s' = (vm_mem s)(v := (vm_mem s v)\<lparr>vm_memtracker := Some mt'\<rparr>)" "pt_mem s' = (pt_mem s)(P := t')"
      "pt_live s' = pt_live s" "physTracker s' = physTracker s"
  shows "host_wf V s'"
    and "changed V s s' v Pinned (pinned_in (Some mt'))"
proof -
  have phys: "physTracker s = Some P" using wf v P by (auto simp: host_wf_def)
  have own_P: "own_pt s w j \<noteq> Some P" if "w \<in> V" for w j using own_pt_inv(3) [OF wf that, of j P] phys by auto
  have o: "own_pt s' w j = own_pt s w j" "physTracker_of s' w = physTracker_of s w" for w j
    by (cases j) (simp_all add: s'(1) lockedPages_of_def AWEPages_of_def physTracker_of_def)
  have h: "held s' w j = (if w = v \<and> j = Pinned then pinned_in (Some mt') else held s w j)" if "w \<in> V" for w j
    using own_P [OF that, of j] by (cases "own_pt s w j") (auto simp: held_def pages_at_def o s')
  then show "changed V s s' v Pinned (pinned_in (Some mt'))" by (simp add: changed_def)
  have at: "pt_at s' q = pt_at s q" for q
    using wf phys t'(1) by (auto simp: pt_at_def s' host_wf_def)
  have n: "numVMs (pt_mem s' q) = numVMs (pt_mem s q)" for q using t'(2) by (simp add: s'(2))
  have un: "(\<Union>w \<in> V. held s' w Pinned) = tracked t'"
    using v h by (auto simp: t'(3))
  show "host_wf V s'" unfolding host_wf_def o at n
  proof (intro conjI)
    show "finite V" using wf by (simp add: host_wf_def)
    show "\<forall>w \<in> V. \<forall>mt. vm_memtracker (vm_mem s' w) = Some mt \<longrightarrow> mt_unique mt"
      using wf mt' by (auto simp: host_wf_def s'(1))
    show "\<forall>w \<in> V. \<forall>x \<in> V. w \<noteq> x \<longrightarrow> held s' w Pinned \<inter> held s' x Pinned = {}"
    proof (intro ballI impI)
      fix w x assume wx: "w \<in> V" "x \<in> V" "w \<noteq> x"
      note d = host_wf_disjoint [OF wf wx] disj [OF wx(1)] disj [OF wx(2)]
      show "held s' w Pinned \<inter> held s' x Pinned = {}"
        unfolding h [OF wx(1)] h [OF wx(2)] using d wx(3) by (auto split: if_splits)
    qed
    show "\<forall>w \<in> V. \<forall>k p. own_pt s w k = Some p \<longrightarrow> pt_at s p \<and> numVMs (pt_mem s p) = 1 \<and> physTracker s' \<noteq> Some p
        \<and> (\<forall>x \<in> V. \<forall>j. own_pt s x j = Some p \<longrightarrow> x = w \<and> j = k)"
      using wf unfolding s'(4) host_wf_def by (elim conjE) assumption
    show "\<forall>w \<in> V. (physTracker_of s w \<noteq> None \<longrightarrow> physTracker_of s w = physTracker s')
        \<and> (held s' w Pinned \<noteq> {} \<longrightarrow> physTracker_of s w \<noteq> None)"
      using wf P h unfolding s'(4) by (auto simp: host_wf_def)
    have old: "numVMs (pt_mem s P) = int (card {w \<in> V. physTracker_of s w \<noteq> None})" "0 < numVMs (pt_mem s P)" "pt_at s P"
      using wf phys by (auto simp: host_wf_def)
    show "\<forall>p. physTracker s' = Some p \<longrightarrow> pt_at s p \<and> tracked (pt_mem s' p) = (\<Union>w \<in> V. held s' w Pinned)
        \<and> numVMs (pt_mem s p) = int (card {w \<in> V. physTracker_of s w \<noteq> None}) \<and> 0 < numVMs (pt_mem s p)"
      using old phys un by (simp add: s')
  qed
qed

subsection \<open>One page more, one page less\<close>

lemma track_own:
  assumes inv: "host_inv V s" and v: "v \<in> V" "own_pt s v k = Some p"
    and t: "track_page a2 a3 p m (get_page m s) = Some t"
  shows "host_inv V t" "changed V s t v k (insert m (held s v k))" "m \<notin> held s v k"
proof -
  have wf: "host_wf V s" using inv by (simp add: host_inv_def)
  note o = own_pt_inv [OF wf v]
  have ok: "pt_ok (pt_mem s p)" using o(1) by (simp add: pt_at_def)
  obtain x where x: "PhysTrack_Add a2 a3 m (pt_mem s p) = Some x" "t = upd_pt p (\<lambda>_. x) (get_page m s)"
    using t by (auto simp: track_page_def get_page_def)
  note A = PhysTrack_Add_set(2) [OF ok x(1)]
  have wf': "host_wf V (get_page m s)" and v': "own_pt (get_page m s) v k = Some p" and h': "held (get_page m s) = held s"
    using wf v by (simp_all add: get_page_def fun_eq_iff)
  have pm: "pt_mem (get_page m s) = pt_mem s" by (simp add: get_page_def)
  note U = own_update [OF wf' v(1) v', of x, folded x(2)]
  have tw: "host_wf V t" by (rule U(1)) (use A in \<open>simp_all add: pm\<close>)
  show c: "changed V s t v k (insert m (held s v k))"
    using U(2) A by (simp add: changed_def pm h' o(5))
  show m: "m \<notin> held s v k" using A by (simp add: o(5))
  show "host_inv V t"
    by (rule gain_inv [OF inv tw c m v(1)]) (simp add: x(2) get_page_def)
qed

lemma release_own:
  assumes inv: "host_inv V s" and v: "v \<in> V" "own_pt s v k = Some p" and m: "m \<in> held s v k"
  shows "\<exists>t. release_tracked p m s = Some t \<and> host_inv V t \<and> changed V s t v k (held s v k - {m})
    \<and> (\<exists>x r. t = upd_pt p (\<lambda>_. x) s\<lparr>page_refs := r\<rparr> \<and> numVMs x = 1)"
proof -
  have wf: "host_wf V s" using inv by (simp add: host_inv_def)
  note o = own_pt_inv [OF wf v]
  have ok: "pt_ok (pt_mem s p)" using o(1) by (simp add: pt_at_def)
  obtain x where x: "PhysTrack_Remove m (pt_mem s p) = Some x"
    using PhysTrack_Remove_set(1) [OF ok, of m] m o(5) by auto
  note R = PhysTrack_Remove_set(2) [OF ok x]
  note U = own_update [OF wf v, of x]
  let ?u = "upd_pt p (\<lambda>_. x) s"
  let ?t = "?u\<lparr>page_refs := (page_refs s)(m := page_refs s m - 1)\<rparr>"
  have fin: "finite V" using wf by (simp add: host_wf_def)
  have c: "changed V s ?t v k (held s v k - {m})"
    using U(2) R by (simp add: changed_def o(5))
  have "0 < page_refs s m" using inv holders_loss(2) [OF c m v(1) fin] by (simp add: host_inv_def)
  then have "release_tracked p m s = Some ?t"
    by (simp add: release_tracked_def untrack_page_def x put_page_def)
  moreover have "host_inv V ?t"
    by (rule loss_inv [OF inv _ c m v(1)]) (use U(1) R in simp_all)
  ultimately show ?thesis using c R o(2) by auto
qed


subsection \<open>The memory tracker\<close>

lemma pinned_split:
  assumes "i < length ps"
  shows "{m \<in> snd ` set (ps[i := (a, x)]). m \<noteq> 0} = {m \<in> snd ` set (take i ps @ drop (Suc i) ps). m \<noteq> 0} \<union> (if x = 0 then {} else {x})"
    and "filter (\<lambda>m. m \<noteq> 0) (map snd (ps[i := (a, x)]))
      = filter (\<lambda>m. m \<noteq> 0) (map snd (take i ps)) @ (if x = 0 then [] else [x]) @ filter (\<lambda>m. m \<noteq> 0) (map snd (drop (Suc i) ps))"
  using assms by (auto simp: upd_conv_take_nth_drop)

lemma set_mpn_unique:
  assumes u: "mt_unique mt" and i: "i < unat (numPages mt)" and e: "mt_pairs mt ! i = (a, x)"
  shows "x = 0 \<Longrightarrow> m \<noteq> 0 \<Longrightarrow> m \<notin> pinned_in (Some mt) \<Longrightarrow>
      mt_unique (set_mpn (MEMTRACK_IDX2DIR i) m mt)
      \<and> pinned_in (Some (set_mpn (MEMTRACK_IDX2DIR i) m mt)) = insert m (pinned_in (Some mt))"
    and "x \<noteq> 0 \<Longrightarrow> mt_unique (set_mpn (MEMTRACK_IDX2DIR i) 0 mt)
      \<and> pinned_in (Some (set_mpn (MEMTRACK_IDX2DIR i) 0 mt)) = pinned_in (Some mt) - {x}"
proof -
  have ok: "mt_ok mt" using u by (simp add: mt_unique_def)
  note S = set_mpn_correct [OF ok i]
  have l: "i < length (mt_pairs mt)" using i by simp
  have same: "(mt_pairs mt)[i := (a, x)] = mt_pairs mt" using e by (metis list_update_id)
  have f: "map fst ((mt_pairs mt)[i := (fst (mt_pairs mt ! i), y)]) = map fst (mt_pairs mt)" for y
    by (simp add: map_update) (metis fst_conv list_update_id map_update)
  let ?r = "take i (mt_pairs mt) @ drop (Suc i) (mt_pairs mt)"
  let ?F = "\<lambda>xs. filter (\<lambda>m. m \<noteq> (0 :: MPN)) (map snd xs)"
  have P: "{m \<in> snd ` set (mt_pairs mt). m \<noteq> 0} = {m \<in> snd ` set ?r. m \<noteq> 0} \<union> (if x = 0 then {} else {x})"
    and D: "?F (mt_pairs mt) = ?F (take i (mt_pairs mt)) @ (if x = 0 then [] else [x]) @ ?F (drop (Suc i) (mt_pairs mt))"
    using pinned_split [OF l, of a x] by (simp_all only: same)
  have dis: "distinct (?F (mt_pairs mt))" "distinct (map fst (mt_pairs mt))" using u by (simp_all add: mt_unique_def)
  have st: "set (?F ys) = {m \<in> snd ` set ys. m \<noteq> 0}" for ys :: "(VPN64 \<times> MPN) list" by auto
  show "mt_unique (set_mpn (MEMTRACK_IDX2DIR i) m mt)
      \<and> pinned_in (Some (set_mpn (MEMTRACK_IDX2DIR i) m mt)) = insert m (pinned_in (Some mt))"
    if "x = 0" "m \<noteq> 0" "m \<notin> pinned_in (Some mt)"
  proof
    have n: "m \<notin> {m \<in> snd ` set ?r. m \<noteq> 0}" using that P by (simp add: pinned_in_def)
    have "distinct (?F ((mt_pairs mt)[i := (a, m)]))"
      using dis(1) D that n by (auto simp: pinned_split(2) [OF l] simp del: filter_map map_map)
    then show "mt_unique (set_mpn (MEMTRACK_IDX2DIR i) m mt)"
      using S f dis(2) e by (simp add: mt_unique_def)
    show "pinned_in (Some (set_mpn (MEMTRACK_IDX2DIR i) m mt)) = insert m (pinned_in (Some mt))"
      using that P by (simp add: pinned_in_def S(2) e pinned_split(1) [OF l])
  qed
  show "mt_unique (set_mpn (MEMTRACK_IDX2DIR i) 0 mt)
      \<and> pinned_in (Some (set_mpn (MEMTRACK_IDX2DIR i) 0 mt)) = pinned_in (Some mt) - {x}"
    if "x \<noteq> 0"
  proof
    have "distinct (?F ((mt_pairs mt)[i := (a, 0)]))"
      using dis(1) D that by (auto simp: pinned_split(2) [OF l] simp del: filter_map map_map)
    then show "mt_unique (set_mpn (MEMTRACK_IDX2DIR i) 0 mt)"
      using S f dis(2) e by (simp add: mt_unique_def)
    have "x \<notin> {m \<in> snd ` set ?r. m \<noteq> 0}"
      using dis(1) D that st [of "take i (mt_pairs mt)"] st [of "drop (Suc i) (mt_pairs mt)"] by auto
    then show "pinned_in (Some (set_mpn (MEMTRACK_IDX2DIR i) 0 mt)) = pinned_in (Some mt) - {x}"
      using that P by (auto simp: pinned_in_def S(2) e pinned_split(1) [OF l])
  qed
qed

lemma Add_unique:
  assumes u: "mt_unique mt" and add: "MemTrack_Add a2 a3 v m mt = (Some e, mt')"
    and new: "find (\<lambda>x. fst x = v) (rev (mt_pairs mt)) = None" and m: "m \<noteq> 0" "m \<notin> pinned_in (Some mt)"
  shows "mt_unique mt'" "pinned_in (Some mt') = insert m (pinned_in (Some mt))"
proof -
  have ok: "mt_ok mt" using u by (simp add: mt_unique_def)
  have ps: "mt_pairs mt' = mt_pairs mt @ [(v, m)]" using mt_pairs_Add [OF ok add] by simp
  have "v \<notin> fst ` set (mt_pairs mt)" using new by (auto simp: find_None_iff)
  moreover have "m \<notin> snd ` set (mt_pairs mt)" using m by (auto simp: pinned_in_def)
  ultimately show "mt_unique mt'"
    using u MemTrack_Add_correct(1) [OF ok add] m(1) by (auto simp: mt_unique_def ps)
  show "pinned_in (Some mt') = insert m (pinned_in (Some mt))"
    using m(1) by (auto simp: pinned_in_def ps)
qed


subsection \<open>Locking and unlocking a page\<close>

lemma put_get_page [simp]: "put_page m (get_page m s) = Some s"
  by (simp add: put_page_def get_page_def)

lemma get_page_frame [simp]:
  "vm_mem (get_page m s) = vm_mem s" "pt_mem (get_page m s) = pt_mem s" "pt_live (get_page m s) = pt_live s"
  "physTracker (get_page m s) = physTracker s"
  "physTracker_of (get_page m s) v = physTracker_of s v" "lockedPages_of (get_page m s) v = lockedPages_of s v"
  "AWEPages_of (get_page m s) v = AWEPages_of s v"
  by (simp_all add: get_page_def)

text \<open>The page number locked under a virtual page, 0 if none.\<close>

definition locked_at :: "'a host_state_scheme \<Rightarrow> ptr \<Rightarrow> VPN64 \<Rightarrow> MPN" where
  "locked_at s v vpn = (case vm_memtracker (vm_mem s v) of None \<Rightarrow> 0
     | Some mt \<Rightarrow> (case find (\<lambda>x. fst x = vpn) (rev (mt_pairs mt)) of None \<Rightarrow> 0 | Some x \<Rightarrow> snd x))"

definition all_memory :: lock_alloc where
  "all_memory = \<lparr>la_mt2 = True, la_mt3 = True, la_pt2 = True, la_pt3 = True\<rparr>"

lemma all_memory [simp]: "la_mt2 all_memory" "la_mt3 all_memory" "la_pt2 all_memory" "la_pt3 all_memory"
  by (simp_all add: all_memory_def)

lemma phys_tracked:
  assumes "host_wf V s" "v \<in> V" "physTracker_of s v = Some P"
  shows "physTracker s = Some P" "pt_at s P" "pt_ok (pt_mem s P)" "tracked (pt_mem s P) = (\<Union>w \<in> V. held s w Pinned)"
proof -
  show p: "physTracker s = Some P" using assms by (auto simp: host_wf_def)
  show "pt_at s P" "tracked (pt_mem s P) = (\<Union>w \<in> V. held s w Pinned)" using assms(1) p by (simp_all add: host_wf_def)
  then show "pt_ok (pt_mem s P)" by (simp add: pt_at_def)
qed

lemma locked_at_cases:
  assumes "mt_ok mt" "vm_memtracker (vm_mem s v) = Some mt"
  obtains (none) "MemTrack_LookupVPN mt vpn = Some None" "locked_at s v vpn = 0"
      "find (\<lambda>x. fst x = vpn) (rev (mt_pairs mt)) = None"
    | (found) i where "MemTrack_LookupVPN mt vpn = Some (Some (MEMTRACK_IDX2DIR i))" "i < unat (numPages mt)"
      "mt_pairs mt ! i = (vpn, locked_at s v vpn)"
      "me_mpn (MEMTRACK_GETENTRY (mt_dir1 mt) (MEMTRACK_IDX2DIR i)) = locked_at s v vpn"
proof (rule LookupVPN_pairs [OF assms(1), of vpn])
  assume "MemTrack_LookupVPN mt vpn = Some None" "find (\<lambda>x. fst x = vpn) (rev (mt_pairs mt)) = None"
  then show thesis using assms(2) by (intro none) (simp_all add: locked_at_def)
next
  fix i assume i: "MemTrack_LookupVPN mt vpn = Some (Some (MEMTRACK_IDX2DIR i))" "i < unat (numPages mt)"
    "find (\<lambda>x. fst x = vpn) (rev (mt_pairs mt)) = Some (mt_pairs mt ! i)" "fst (mt_pairs mt ! i) = vpn"
    "me_mpn (entry (mt_dir1 mt) i) = snd (mt_pairs mt ! i)"
  then have "locked_at s v vpn = snd (mt_pairs mt ! i)" using assms(2) by (simp add: locked_at_def)
  then show thesis using i by (intro found [of i]) (auto simp: prod_eq_iff)
qed

lemma find_updated_pair:
  assumes u: "mt_unique mt" and i: "i < unat (numPages mt)" "fst (mt_pairs mt ! i) = vpn"
  shows "find (\<lambda>x. fst x = vpn) (rev ((mt_pairs mt)[i := (vpn, m)])) = Some (vpn, m)"
proof (rule find_unique)
  show "(vpn, m) \<in> set (rev ((mt_pairs mt)[i := (vpn, m)]))"
    using i(1) by (simp add: set_update_memI)
  fix y assume y: "y \<in> set (rev ((mt_pairs mt)[i := (vpn, m)]))" "fst y = vpn"
  then obtain j where j: "j < length (mt_pairs mt)" "y = (mt_pairs mt)[i := (vpn, m)] ! j" by (auto simp: in_set_conv_nth)
  have "j = i"
  proof (rule ccontr)
    assume "j \<noteq> i"
    then have "fst (mt_pairs mt ! j) = fst (mt_pairs mt ! i)" using j y(2) i(2) by simp
    then show False using u j(1) i(1) \<open>j \<noteq> i\<close> nth_eq_iff_index_eq [of "map fst (mt_pairs mt)" j i]
      by (simp add: mt_unique_def)
  qed
  then show "y = (vpn, m)" using j i(1) by simp
qed simp

text \<open>The new pair in the trackers: the machine's tracker \<open>mt'\<close> and the shared tracker.\<close>

lemma pin_inv:
  assumes inv: "host_inv V s" and v: "v \<in> V" "vm_memtracker (vm_mem s v) = Some mt" and P: "physTracker_of s v = Some P"
    and mt': "mt_unique mt'" "pinned_in (Some mt') = insert m (pinned_in (Some mt))"
    and m: "m \<notin> (\<Union>w \<in> V. held s w Pinned)"
    and t: "track_page a2 a3 P m (upd_vm v (\<lambda>vm. vm\<lparr>vm_memtracker := Some mt'\<rparr>) (get_page m s)) = Some t"
  shows "host_inv V t" "changed V s t v Pinned (insert m (held s v Pinned))"
proof -
  have wf: "host_wf V s" using inv by (simp add: host_inv_def)
  note ph = phys_tracked [OF wf v(1) P]
  obtain x where x: "PhysTrack_Add a2 a3 m (pt_mem s P) = Some x"
      "t = upd_pt P (\<lambda>_. x) (upd_vm v (\<lambda>vm. vm\<lparr>vm_memtracker := Some mt'\<rparr>) (get_page m s))"
    using t by (auto simp: track_page_def)
  note A = PhysTrack_Add_set(2) [OF ph(3) x(1)]
  have hp: "held s v Pinned = pinned_in (Some mt)" by (simp add: held_def v(2))
  have "tracked x = (\<Union>w \<in> V - {v}. held s w Pinned) \<union> pinned_in (Some mt')"
    using A ph(4) v(1) hp by (auto simp: mt'(2))
  moreover have "pinned_in (Some mt') \<inter> held s w Pinned = {}" if "w \<in> V" "w \<noteq> v" for w
    using host_wf_disjoint [OF wf v(1) that(1)] that m hp by (auto simp: mt'(2))
  moreover have "vm_mem t = (vm_mem s)(v := (vm_mem s v)\<lparr>vm_memtracker := Some mt'\<rparr>)" "pt_mem t = (pt_mem s)(P := x)"
      "pt_live t = pt_live s" "physTracker t = physTracker s"
    by (auto simp: x(2) fun_eq_iff)
  moreover have "pt_ok x" "numVMs x = numVMs (pt_mem s P)" using A by simp_all
  ultimately have U: "host_wf V t" "changed V s t v Pinned (pinned_in (Some mt'))"
    by (simp_all add: pin_update [OF wf v(1) P mt'(1)])
  then show c: "changed V s t v Pinned (insert m (held s v Pinned))" by (simp add: mt'(2) hp)
  show "host_inv V t"
    by (rule gain_inv [OF inv U(1) c _ v(1)]) (use m v(1) in \<open>auto simp: x(2) get_page_def\<close>)
qed

lemma LockPage_pinned:
  fixes uAddr :: u64
  assumes inv: "host_inv V s" and v: "v \<in> V" "vm_memtracker (vm_mem s v) = Some mt" and P: "physTracker_of s v = Some P"
  defines "vpn \<equiv> VA_2_VPN uAddr"
  shows "locked_at s v vpn \<noteq> 0 \<Longrightarrow> HostIF_LockPage al page v uAddr False s = Some (PAGE_LOCK_ALREADY_LOCKED, s)"
    and "locked_at s v vpn = 0 \<Longrightarrow> page = None \<Longrightarrow> HostIF_LockPage al page v uAddr False s = Some (PAGE_LOCK_FAILED, s)"
    and "locked_at s v vpn = 0 \<Longrightarrow> page = Some m \<Longrightarrow> m \<in> (\<Union>w \<in> V. held s w Pinned)
      \<Longrightarrow> HostIF_LockPage al page v uAddr False s = Some (PAGE_LOCK_PHYSTRACKER_ERROR, s)"
    and "locked_at s v vpn = 0 \<Longrightarrow> page = Some m \<Longrightarrow> m \<noteq> 0 \<Longrightarrow> m \<notin> (\<Union>w \<in> V. held s w Pinned)
      \<Longrightarrow> unat (numPages mt) < max_entries
      \<Longrightarrow> \<exists>t. HostIF_LockPage all_memory page v uAddr False s = Some (m, t) \<and> host_inv V t
         \<and> changed V s t v Pinned (insert m (held s v Pinned)) \<and> locked_at t v vpn = m"
proof -
  have wf: "host_wf V s" using inv by (simp add: host_inv_def)
  have u: "mt_unique mt" using wf v by (simp add: host_wf_def)
  then have ok: "mt_ok mt" by (simp add: mt_unique_def)
  note ph = phys_tracked [OF wf v(1) P]
  have istr: "HOST_ISTRACKED_PFN v m (get_page m s) = Some (m \<in> (\<Union>w \<in> V. held s w Pinned))" for m
    by (simp add: HOST_ISTRACKED_PFN_def P ph(4))
  have look: "\<exists>e. MemTrack_LookupVPN mt vpn = Some e
      \<and> (case e of None \<Rightarrow> False | Some e \<Rightarrow> me_mpn (MEMTRACK_GETENTRY (mt_dir1 mt) e) \<noteq> 0) = (locked_at s v vpn \<noteq> 0)"
    by (rule locked_at_cases [OF ok v(2), of vpn]) auto
  show "HostIF_LockPage al page v uAddr False s = Some (PAGE_LOCK_ALREADY_LOCKED, s)" if "locked_at s v vpn \<noteq> 0"
    using look that by (auto simp: HostIF_LockPage_def v(2) vpn_def [symmetric] Let_def)
  show "HostIF_LockPage al page v uAddr False s = Some (PAGE_LOCK_FAILED, s)" if "locked_at s v vpn = 0" "page = None"
    using look that by (auto simp: HostIF_LockPage_def v(2) vpn_def [symmetric] Let_def HostIFGetUserPage_def)
  show "HostIF_LockPage al page v uAddr False s = Some (PAGE_LOCK_PHYSTRACKER_ERROR, s)"
    if "locked_at s v vpn = 0" "page = Some m" "m \<in> (\<Union>w \<in> V. held s w Pinned)"
  proof -
    have "HOST_ISTRACKED_PFN v m (get_page m s) = Some True" using istr that(3) by simp
    then show ?thesis
      using look that(1,2) by (auto simp: HostIF_LockPage_def v(2) vpn_def [symmetric] Let_def HostIFGetUserPage_def)
  qed
  assume z: "locked_at s v vpn = 0" and pg: "page = Some m" and m: "m \<noteq> 0" "m \<notin> (\<Union>w \<in> V. held s w Pinned)"
    and room: "unat (numPages mt) < max_entries"
  have hp: "held s v Pinned = pinned_in (Some mt)" by (simp add: held_def v(2))
  then have m': "m \<notin> pinned_in (Some mt)" using m(2) v(1) by auto
  have notr: "HOST_ISTRACKED_PFN v m (get_page m s) = Some False" using istr m(2) by simp
  obtain ent r mt' where e: "MemTrack_LookupVPN mt vpn = Some ent"
      "case ent of None \<Rightarrow> False | Some e \<Rightarrow> me_mpn (MEMTRACK_GETENTRY (mt_dir1 mt) e) \<noteq> 0 \<equiv> False"
    and r: "(case ent of None \<Rightarrow> MemTrack_Add (la_mt2 all_memory) (la_mt3 all_memory) vpn m mt | Some e \<Rightarrow> (Some e, set_mpn e m mt)) = (r, mt')" "r \<noteq> None"
    and mt': "mt_unique mt'" "pinned_in (Some mt') = insert m (pinned_in (Some mt))"
      "find (\<lambda>x. fst x = vpn) (rev (mt_pairs mt')) = Some (vpn, m)"
  proof (rule locked_at_cases [OF ok v(2), of vpn])
    assume n: "MemTrack_LookupVPN mt vpn = Some None" "find (\<lambda>x. fst x = vpn) (rev (mt_pairs mt)) = None"
    obtain r mt' where a: "MemTrack_Add True True vpn m mt = (r, mt')" by fastforce
    have "r \<noteq> None"
    proof
      assume "r = None"
      then show False using MemTrack_Add_correct(3) [OF ok a] room by simp
    qed
    then obtain x where x: "r = Some x" by blast
    note U = Add_unique [OF u a [unfolded x] n(2) m(1) m']
    have "mt_pairs mt' = mt_pairs mt @ [(vpn, m)]" using mt_pairs_Add [OF ok a] x by simp
    then show thesis using U a x n by (intro that [of None r mt']) simp_all
  next
    fix i assume i: "MemTrack_LookupVPN mt vpn = Some (Some (MEMTRACK_IDX2DIR i))" "i < unat (numPages mt)"
      "mt_pairs mt ! i = (vpn, locked_at s v vpn)"
      "me_mpn (MEMTRACK_GETENTRY (mt_dir1 mt) (MEMTRACK_IDX2DIR i)) = locked_at s v vpn"
    have e: "mt_pairs mt ! i = (vpn, 0)" using i(3) z by simp
    note U = set_mpn_unique(1) [OF u i(2) e refl m(1) m']
    have "find (\<lambda>x. fst x = vpn) (rev ((mt_pairs mt)[i := (vpn, m)])) = Some (vpn, m)"
      by (rule find_updated_pair [OF u i(2)]) (simp add: e)
    then show thesis using U i e z set_mpn_correct(2) [OF ok i(2), of m]
      by (intro that [of "Some (MEMTRACK_IDX2DIR i)" "Some (MEMTRACK_IDX2DIR i)" "set_mpn (MEMTRACK_IDX2DIR i) m mt"]) simp_all
  qed
  let ?s = "upd_vm v (\<lambda>vm. vm\<lparr>vm_memtracker := Some mt'\<rparr>) (get_page m s)"
  have "PhysTrack_Add True True m (pt_mem s P) \<noteq> None"
    using PhysTrack_Add_set(1) [OF ph(3), of m] m(2) ph(4) by simp
  then obtain t where t: "track_page True True P m ?s = Some t" by (auto simp: track_page_def)
  have "physTracker_of ?s v = Some P" using P by (simp add: physTracker_of_def)
  then have "HostIF_LockPage all_memory page v uAddr False s = Some (m, t)"
    using e r t notr
    by (simp add: HostIF_LockPage_def v(2) vpn_def [symmetric] pg HostIFGetUserPage_def Let_def del: split_paired_Ex) auto
  moreover have "locked_at t v vpn = m"
    using t mt'(3) by (auto simp: locked_at_def track_page_def)
  ultimately show "\<exists>t. HostIF_LockPage all_memory page v uAddr False s = Some (m, t) \<and> host_inv V t
       \<and> changed V s t v Pinned (insert m (held s v Pinned)) \<and> locked_at t v vpn = m"
    using pin_inv [OF inv v P mt'(1,2) m(2) t] by blast
qed


lemma changed_cong:
  "changed V s t v k S \<Longrightarrow> (\<And>w j. held t' w j = held t w j) \<Longrightarrow> changed V s t' v k S"
  by (simp add: changed_def)

lemma UnlockPage_pinned:
  fixes uAddr :: u64
  assumes inv: "host_inv V s" and v: "v \<in> V" "vm_memtracker (vm_mem s v) = Some mt" and P: "physTracker_of s v = Some P"
  defines "vpn \<equiv> VA_2_VPN uAddr"
  shows "locked_at s v vpn = 0 \<Longrightarrow> \<exists>r. HostIF_UnlockPage v uAddr s = Some (r, s) \<and> r \<noteq> PAGE_UNLOCK_NO_ERROR"
    and "locked_at s v vpn \<noteq> 0 \<Longrightarrow> \<exists>t. HostIF_UnlockPage v uAddr s = Some (PAGE_UNLOCK_NO_ERROR, t) \<and> host_inv V t
       \<and> changed V s t v Pinned (held s v Pinned - {locked_at s v vpn}) \<and> locked_at s v vpn \<in> held s v Pinned
       \<and> locked_at t v vpn = 0"
proof -
  have wf: "host_wf V s" using inv by (simp add: host_inv_def)
  have u: "mt_unique mt" using wf v by (simp add: host_wf_def)
  then have ok: "mt_ok mt" by (simp add: mt_unique_def)
  note ph = phys_tracked [OF wf v(1) P]
  have hp: "held s v Pinned = pinned_in (Some mt)" by (simp add: held_def v(2))
  show "\<exists>r. HostIF_UnlockPage v uAddr s = Some (r, s) \<and> r \<noteq> PAGE_UNLOCK_NO_ERROR" if "locked_at s v vpn = 0"
    by (rule locked_at_cases [OF ok v(2), of vpn])
       (use that in \<open>auto simp: HostIF_UnlockPage_def v(2) vpn_def [symmetric] PAGE_UNLOCK_NO_ERROR_def
          PAGE_UNLOCK_NOT_TRACKED_def PAGE_UNLOCK_NO_MPN_def\<close>)
  define m where "m = locked_at s v vpn"
  assume "locked_at s v vpn \<noteq> 0"
  then have m0: "m \<noteq> 0" by (simp add: m_def)
  obtain i where i: "MemTrack_LookupVPN mt vpn = Some (Some (MEMTRACK_IDX2DIR i))" "i < unat (numPages mt)"
      "mt_pairs mt ! i = (vpn, m)" "me_mpn (MEMTRACK_GETENTRY (mt_dir1 mt) (MEMTRACK_IDX2DIR i)) = m"
    by (rule locked_at_cases [OF ok v(2), of vpn]) (use m0 in \<open>auto simp: m_def\<close>)
  define mt' where "mt' = set_mpn (MEMTRACK_IDX2DIR i) 0 mt"
  have mt': "mt_unique mt'" "pinned_in (Some mt') = pinned_in (Some mt) - {m}"
    using set_mpn_unique(2) [OF u i(2,3) m0] by (simp_all add: mt'_def)
  have mem: "m \<in> held s v Pinned"
  proof -
    have "mt_pairs mt ! i \<in> set (mt_pairs mt)" using i(2) nth_mem [of i "mt_pairs mt"] by simp
    then have "(vpn, m) \<in> set (mt_pairs mt)" by (simp only: i(3))
    then show ?thesis using m0 by (force simp: hp pinned_in_def)
  qed
  then have "m \<in> tracked (pt_mem s P)" using ph(4) v(1) by auto
  then obtain x where x: "PhysTrack_Remove m (pt_mem s P) = Some x"
    using PhysTrack_Remove_set(1) [OF ph(3), of m] by auto
  note R = PhysTrack_Remove_set(2) [OF ph(3) x]
  define t where "t = upd_vm v (\<lambda>vm. vm\<lparr>vm_memtracker := Some mt'\<rparr>)
    (upd_pt P (\<lambda>_. x) s\<lparr>page_refs := (page_refs s)(m := page_refs s m - 1)\<rparr>)"
  have f: "vm_mem t = (vm_mem s)(v := (vm_mem s v)\<lparr>vm_memtracker := Some mt'\<rparr>)" "pt_mem t = (pt_mem s)(P := x)"
      "pt_live t = pt_live s" "physTracker t = physTracker s" "page_refs t = (page_refs s)(m := page_refs s m - 1)"
    by (auto simp: t_def fun_eq_iff)
  have other: "m \<notin> held s w Pinned" if "w \<in> V" "w \<noteq> v" for w
    using host_wf_disjoint [OF wf v(1) that(1)] that(2) mem by auto
  have tr: "tracked x = (\<Union>w \<in> V - {v}. held s w Pinned) \<union> pinned_in (Some mt')"
    using R ph(4) v(1) other by (auto simp: mt'(2) hp)
  have disj: "pinned_in (Some mt') \<inter> held s w Pinned = {}" if "w \<in> V" "w \<noteq> v" for w
    using host_wf_disjoint [OF wf v(1) that(1)] that(2) hp by (auto simp: mt'(2))
  have U: "host_wf V t" "changed V s t v Pinned (pinned_in (Some mt'))"
    by (simp_all add: pin_update [OF wf v(1) P mt'(1) _ _ tr disj f(1-4)] R)
  have c: "changed V s t v Pinned (held s v Pinned - {m})" using U(2) by (simp add: mt'(2) hp)
  have fin: "finite V" using wf by (simp add: host_wf_def)
  have "0 < page_refs s m" using inv holders_loss(2) [OF c mem v(1) fin] by (simp add: host_inv_def)
  then have "HOST_UNLOCK_PFN v m s = Some (upd_pt P (\<lambda>_. x) s\<lparr>page_refs := (page_refs s)(m := page_refs s m - 1)\<rparr>)"
    by (simp add: HOST_UNLOCK_PFN_def P untrack_page_def x put_page_def)
  then have "HostIF_UnlockPage v uAddr s = Some (PAGE_UNLOCK_NO_ERROR, t)"
    using i m0 by (simp add: HostIF_UnlockPage_def v(2) vpn_def [symmetric] Let_def t_def mt'_def)
  moreover have "host_inv V t" by (rule loss_inv [OF inv U(1) c mem v(1) f(5)])
  moreover have "locked_at t v vpn = 0"
  proof -
    have p': "mt_pairs mt' = (mt_pairs mt)[i := (vpn, 0)]"
      using set_mpn_correct(2) [OF ok i(2), of 0] i(3) by (simp add: mt'_def)
    have "find (\<lambda>x. fst x = vpn) (rev (mt_pairs mt')) = Some (vpn, 0)"
      unfolding p' by (rule find_updated_pair [OF u i(2)]) (simp add: i(3))
    then show ?thesis by (simp add: locked_at_def f(1))
  qed
  ultimately show "\<exists>t. HostIF_UnlockPage v uAddr s = Some (PAGE_UNLOCK_NO_ERROR, t) \<and> host_inv V t
       \<and> changed V s t v Pinned (held s v Pinned - {locked_at s v vpn}) \<and> locked_at s v vpn \<in> held s v Pinned
       \<and> locked_at t v vpn = 0"
    using c mem by (auto simp: m_def)
qed


text \<open>Locking by page number, and the pages allocated for a machine.\<close>

lemma LockPage_bympn:
  fixes uAddr :: u64
  assumes inv: "host_inv V s" and v: "v \<in> V" "vm_memtracker (vm_mem s v) = Some mt" and P: "physTracker_of s v = Some P"
    and L: "lockedPages_of s v = Some L"
  shows "HostIF_LockPage al None v uAddr True s = Some (PAGE_LOCK_FAILED, s)"
    and "m \<in> (\<Union>w \<in> V. held s w Pinned) \<Longrightarrow> HostIF_LockPage al (Some m) v uAddr True s = Some (PAGE_LOCK_PHYSTRACKER_ERROR, s)"
    and "m \<notin> (\<Union>w \<in> V. held s w Pinned) \<Longrightarrow> m \<in> held s v Locked
      \<Longrightarrow> HostIF_LockPage al (Some m) v uAddr True s = Some (PAGE_LOCK_ALREADY_LOCKED, s)"
    and "m \<notin> (\<Union>w \<in> V. held s w Pinned) \<Longrightarrow> m \<notin> held s v Locked
      \<Longrightarrow> \<exists>t. HostIF_LockPage all_memory (Some m) v uAddr True s = Some (m, t) \<and> host_inv V t
         \<and> changed V s t v Locked (insert m (held s v Locked))"
proof -
  have wf: "host_wf V s" using inv by (simp add: host_inv_def)
  note ph = phys_tracked [OF wf v(1) P]
  have L': "own_pt s v Locked = Some L" using L by simp
  note o = own_pt_inv [OF wf v(1) L']
  have istr: "HOST_ISTRACKED_PFN v m (get_page m s) = Some (m \<in> (\<Union>w \<in> V. held s w Pinned))"
    by (simp add: HOST_ISTRACKED_PFN_def P ph(4))
  show "HostIF_LockPage al None v uAddr True s = Some (PAGE_LOCK_FAILED, s)"
    by (simp add: HostIF_LockPage_def v(2) HostIFGetUserPage_def Let_def)
  show "HostIF_LockPage al (Some m) v uAddr True s = Some (PAGE_LOCK_PHYSTRACKER_ERROR, s)"
    if "m \<in> (\<Union>w \<in> V. held s w Pinned)"
  proof -
    have "HOST_ISTRACKED_PFN v m (get_page m s) = Some True" using istr that by simp
    then show ?thesis by (simp add: HostIF_LockPage_def v(2) HostIFGetUserPage_def Let_def)
  qed
  assume n: "m \<notin> (\<Union>w \<in> V. held s w Pinned)"
  then have f: "HOST_ISTRACKED_PFN v m (get_page m s) = Some False" using istr by simp
  show "HostIF_LockPage al (Some m) v uAddr True s = Some (PAGE_LOCK_ALREADY_LOCKED, s)" if "m \<in> held s v Locked"
    using that f by (simp add: HostIF_LockPage_def v(2) HostIFGetUserPage_def Let_def L o(5))
  assume m: "m \<notin> held s v Locked"
  have "pt_ok (pt_mem s L)" using o(1) by (simp add: pt_at_def)
  then have "PhysTrack_Add True True m (pt_mem s L) \<noteq> None"
    using PhysTrack_Add_set(1) [of "pt_mem s L" m] m o(5) by simp
  then obtain t where t: "track_page True True L m (get_page m s) = Some t" by (auto simp: track_page_def)
  have "HostIF_LockPage all_memory (Some m) v uAddr True s = Some (m, t)"
    using m f t by (simp add: HostIF_LockPage_def v(2) HostIFGetUserPage_def Let_def L o(5))
  then show "\<exists>t. HostIF_LockPage all_memory (Some m) v uAddr True s = Some (m, t) \<and> host_inv V t
         \<and> changed V s t v Locked (insert m (held s v Locked))"
    using track_own [OF inv v(1) L' t] by blast
qed

lemma UnlockPageByMPN_held:
  assumes inv: "host_inv V s" and v: "v \<in> V" and L: "lockedPages_of s v = Some L"
  shows "m \<notin> held s v Locked \<Longrightarrow> HostIF_UnlockPageByMPN v m s = Some (PAGE_UNLOCK_NO_MPN, s)"
    and "m \<in> held s v Locked \<Longrightarrow> \<exists>t. HostIF_UnlockPageByMPN v m s = Some (PAGE_UNLOCK_NO_ERROR, t) \<and> host_inv V t
      \<and> changed V s t v Locked (held s v Locked - {m})"
proof -
  have wf: "host_wf V s" using inv by (simp add: host_inv_def)
  have L': "own_pt s v Locked = Some L" using L by simp
  note o = own_pt_inv [OF wf v(1) L']
  show "HostIF_UnlockPageByMPN v m s = Some (PAGE_UNLOCK_NO_MPN, s)" if "m \<notin> held s v Locked"
    using that by (simp add: HostIF_UnlockPageByMPN_def L o(5))
  assume m: "m \<in> held s v Locked"
  then show "\<exists>t. HostIF_UnlockPageByMPN v m s = Some (PAGE_UNLOCK_NO_ERROR, t) \<and> host_inv V t
      \<and> changed V s t v Locked (held s v Locked - {m})"
    using release_own [OF inv v L' m]
    by (auto simp: HostIF_UnlockPageByMPN_def HOST_UNLOCK_PFN_BYMPN_def release_tracked_def L o(5))
qed


subsection \<open>Pages allocated for a machine\<close>

lemma changed_trans:
  "changed V s t v k S \<Longrightarrow> changed V t u v k T \<Longrightarrow> changed V s u v k T"
  by (simp add: changed_def)

lemma changed_held: "changed V s t v k S \<Longrightarrow> v \<in> V \<Longrightarrow> held t v k = S"
  by (simp add: changed_def)

lemma changed_refl: "changed V s s v k (held s v k)"
  by (simp add: changed_def)

lemma release_frame:
  assumes "t = upd_pt p f s\<lparr>page_refs := r\<rparr>"
  shows "own_pt t w k = own_pt s w k" "vm_mem t = vm_mem s" "physTracker t = physTracker s" "pt_live t = pt_live s"
  unfolding assms by (cases k; simp)+

lemma release_tracked_absent:
  assumes inv: "host_inv V s" and v: "v \<in> V" "own_pt s v k = Some p" and m: "m \<notin> held s v k"
  shows "untrack_page p m s = None"
proof -
  have wf: "host_wf V s" using inv by (simp add: host_inv_def)
  note o = own_pt_inv [OF wf v]
  have "PhysTrack_Remove m (pt_mem s p) = None"
    using PhysTrack_Remove_set(1) [of "pt_mem s p" m] o(1,5) m by (simp add: pt_at_def)
  then show ?thesis by (simp add: untrack_page_def)
qed

lemma free_locked_step:
  "free_locked_loop a (m # ms) s = Option.bind (release_tracked a m s) (free_locked_loop a ms)"
  by (cases "untrack_page a m s") (simp_all add: release_tracked_def)

lemma free_locked_distinct:
  "host_inv V s \<Longrightarrow> v \<in> V \<Longrightarrow> own_pt s v k = Some p \<Longrightarrow> distinct ms \<Longrightarrow> set ms \<subseteq> held s v k
    \<Longrightarrow> \<exists>t. free_locked_loop p ms s = Some t \<and> host_inv V t \<and> changed V s t v k (held s v k - set ms)"
proof (induction ms arbitrary: s)
  case Nil then show ?case by (simp add: changed_refl)
next
  case (Cons m ms)
  obtain t where t: "release_tracked p m s = Some t" "host_inv V t" "changed V s t v k (held s v k - {m})"
      "own_pt t v k = Some p"
    using release_own [OF Cons.prems(1-3), of m] Cons.prems release_frame(1) by auto
  have "held t v k = held s v k - {m}" by (rule changed_held [OF t(3) Cons.prems(2)])
  moreover from this have "set ms \<subseteq> held t v k" using Cons.prems(4,5) by auto
  then obtain u where "free_locked_loop p ms t = Some u" "host_inv V u" "changed V t u v k (held t v k - set ms)"
    using Cons.IH [OF t(2) Cons.prems(2) t(4)] Cons.prems(4) by auto
  moreover have "A - {m} - set ms = A - set (m # ms)" for A by auto
  ultimately show ?case using t changed_trans [OF t(3)]
    by (simp add: free_locked_step del: free_locked_loop.simps(2))
qed

lemma free_locked_absent:
  "host_inv V s \<Longrightarrow> v \<in> V \<Longrightarrow> own_pt s v k = Some p \<Longrightarrow> \<not> set ms \<subseteq> held s v k \<Longrightarrow> free_locked_loop p ms s = None"
proof (induction ms arbitrary: s)
  case (Cons m ms)
  show ?case
  proof (cases "m \<in> held s v k")
    case True
    obtain t where t: "release_tracked p m s = Some t" "host_inv V t" "changed V s t v k (held s v k - {m})"
        "own_pt t v k = Some p"
      using release_own [OF Cons.prems(1-3) True] Cons.prems(3) release_frame(1) by auto
    have "held t v k = held s v k - {m}" by (rule changed_held [OF t(3) Cons.prems(2)])
    then have "\<not> set ms \<subseteq> held t v k" using Cons.prems(4) True by auto
    then show ?thesis using Cons.IH [OF t(2) Cons.prems(2) t(4)] t(1)
      by (simp add: free_locked_step del: free_locked_loop.simps(2))
  next
    case False
    then show ?thesis using release_tracked_absent [OF Cons.prems(1-3)] by simp
  qed
qed simp

lemma free_locked_duplicate:
  "host_inv V s \<Longrightarrow> v \<in> V \<Longrightarrow> own_pt s v k = Some p \<Longrightarrow> set ms \<subseteq> held s v k \<Longrightarrow> \<not> distinct ms
    \<Longrightarrow> free_locked_loop p ms s = None"
proof (induction ms arbitrary: s)
  case (Cons m ms)
  obtain t where t: "release_tracked p m s = Some t" "host_inv V t" "changed V s t v k (held s v k - {m})"
      "own_pt t v k = Some p"
    using release_own [OF Cons.prems(1-3), of m] Cons.prems(3,4) release_frame(1) by auto
  have h: "held t v k = held s v k - {m}" by (rule changed_held [OF t(3) Cons.prems(2)])
  have "free_locked_loop p ms t = None"
  proof (cases "m \<in> set ms")
    case True
    then show ?thesis using free_locked_absent [OF t(2) Cons.prems(2) t(4)] h by auto
  next
    case False
    then show ?thesis using Cons.IH [OF t(2) Cons.prems(2) t(4)] Cons.prems(4,5) h by auto
  qed
  then show ?case using t(1) by (simp add: free_locked_step del: free_locked_loop.simps(2))
qed simp

lemma FreeLockedPages_run:
  assumes inv: "host_inv V s" and v: "v \<in> V" "AWEPages_of s v = Some a" and n: "kernelBuf \<or> n \<le> 64"
  shows "\<not> set ms \<subseteq> held s v AWE \<Longrightarrow> HostIF_FreeLockedPages v (Some ms) n kernelBuf s = Some (- EINVAL, s)"
    and "set ms \<subseteq> held s v AWE \<Longrightarrow> distinct ms \<Longrightarrow> \<exists>t. HostIF_FreeLockedPages v (Some ms) n kernelBuf s = Some (0, t)
      \<and> host_inv V t \<and> changed V s t v AWE (held s v AWE - set ms)"
    and "set ms \<subseteq> held s v AWE \<Longrightarrow> \<not> distinct ms \<Longrightarrow> HostIF_FreeLockedPages v (Some ms) n kernelBuf s = None"
proof -
  have wf: "host_wf V s" using inv by (simp add: host_inv_def)
  have A: "own_pt s v AWE = Some a" using v(2) by simp
  note o = own_pt_inv [OF wf v(1) A]
  have nn: "\<not> (\<not> kernelBuf \<and> 64 < n)" using n by auto
  have t: "list_all (PhysTrack_Test (pt_mem s a)) ms \<longleftrightarrow> set ms \<subseteq> held s v AWE"
    by (auto simp: list_all_iff o(5))
  show "\<not> set ms \<subseteq> held s v AWE \<Longrightarrow> HostIF_FreeLockedPages v (Some ms) n kernelBuf s = Some (- EINVAL, s)"
    using nn by (simp add: HostIF_FreeLockedPages_def v(2) t)
  show "set ms \<subseteq> held s v AWE \<Longrightarrow> distinct ms \<Longrightarrow> \<exists>t. HostIF_FreeLockedPages v (Some ms) n kernelBuf s = Some (0, t)
      \<and> host_inv V t \<and> changed V s t v AWE (held s v AWE - set ms)"
    using nn free_locked_distinct [OF inv v(1) A, of ms] by (auto simp: HostIF_FreeLockedPages_def v(2) t)
  show "set ms \<subseteq> held s v AWE \<Longrightarrow> \<not> distinct ms \<Longrightarrow> HostIF_FreeLockedPages v (Some ms) n kernelBuf s = None"
    using nn free_locked_duplicate [OF inv v(1) A, of ms] by (simp add: HostIF_FreeLockedPages_def v(2) t)
qed

lemma alloc_locked_loop_inv:
  "host_inv V s \<Longrightarrow> v \<in> V \<Longrightarrow> AWEPages_of s v = Some a \<Longrightarrow> cnt \<le> n
    \<Longrightarrow> \<forall>(pg, c, a2, a3) \<in> set ps. a2 \<and> a3 \<Longrightarrow> distinct (List.map_filter fst ps)
    \<Longrightarrow> \<forall>m \<in> set (List.map_filter fst ps). m \<notin> held s v AWE
    \<Longrightarrow> \<exists>t new err. alloc_locked_loop ps a n cnt out s = Some (cnt + length new, err, out @ new, t) \<and> host_inv V t
      \<and> changed V s t v AWE (held s v AWE \<union> set new) \<and> distinct new \<and> set new \<inter> held s v AWE = {}
      \<and> cnt + length new \<le> n \<and> err \<le> 0 \<and> (new = [] \<and> cnt < n \<longrightarrow> err < 0)"
proof (induction ps arbitrary: s cnt out)
  case Nil
  then show ?case by (intro exI [of _ s] exI [of _ "[]"]) (auto simp: changed_refl ENOMEM_def)
next
  case (Cons x ps)
  obtain pg c a2 a3 where x: "x = (pg, c, a2, a3)" by (rule prod_cases4)
  have a: "a2" "a3" using Cons.prems(5) by (auto simp: x)
  show ?case
  proof (cases "n \<le> cnt")
    case True
    then show ?thesis using Cons.prems(1,4)
      by (intro exI [of _ s] exI [of _ "[]"]) (auto simp: x changed_refl)
  next
    case lt: False
    show ?thesis
    proof (cases pg)
      case None
      then show ?thesis using lt Cons.prems(1)
        by (intro exI [of _ s] exI [of _ "[]"]) (auto simp: x changed_refl ENOMEM_def)
    next
      case (Some m)
      show ?thesis
      proof (cases c)
        case False
        then show ?thesis using lt Cons.prems(1) Some
          by (intro exI [of _ s] exI [of _ "[]"]) (auto simp: x changed_refl EFAULT_def)
      next
        case True
        have wf: "host_wf V s" using Cons.prems(1) by (simp add: host_inv_def)
        have A: "own_pt s v AWE = Some a" using Cons.prems(3) by simp
        note o = own_pt_inv [OF wf Cons.prems(2) A]
        have m: "m \<notin> held s v AWE" using Cons.prems(7) by (simp add: x Some map_filter_simps)
        have "PhysTrack_Add True True m (pt_mem s a) \<noteq> None"
          using PhysTrack_Add_set(1) [of "pt_mem s a" m] m o(1,5) by (simp add: pt_at_def)
        then obtain t where t: "track_page True True a m (get_page m s) = Some t" by (auto simp: track_page_def)
        note T = track_own [OF Cons.prems(1,2) A t]
        have at: "AWEPages_of t v = Some a" using t Cons.prems(3) by (auto simp: track_page_def)
        have ht: "held t v AWE = insert m (held s v AWE)" by (rule changed_held [OF T(2) Cons.prems(2)])
        have d: "distinct (List.map_filter fst ps)" "m \<notin> set (List.map_filter fst ps)"
          using Cons.prems(6) by (simp_all add: x Some map_filter_simps)
        have "\<forall>k \<in> set (List.map_filter fst ps). k \<notin> held t v AWE"
          using Cons.prems(7) d(2) by (auto simp: x Some ht map_filter_simps)
        then obtain u new err where u: "alloc_locked_loop ps a n (Suc cnt) (out @ [m]) t
              = Some (Suc cnt + length new, err, (out @ [m]) @ new, u)" "host_inv V u"
            "changed V t u v AWE (held t v AWE \<union> set new)" "distinct new" "set new \<inter> held t v AWE = {}"
            "Suc cnt + length new \<le> n" "err \<le> 0"
          using Cons.IH [OF T(1) Cons.prems(2) at _ _ d(1), of "Suc cnt" "out @ [m]"] lt Cons.prems(5) by auto
        have "changed V s u v AWE (held s v AWE \<union> set (m # new))"
          using changed_trans [OF T(2) u(3)] by (simp add: ht)
        then show ?thesis using u m lt True
          by (intro exI [of _ u] exI [of _ "m # new"] exI [of _ err]) (auto simp: x Some a t ht)
      qed
    qed
  qed
qed

text \<open>
  The page numbers are fresh: the kernel does not hand out a page that somebody still uses.
  The machine is charged for exactly the pages whose numbers were written to the buffer.
\<close>

lemma AllocLockedPages_inv:
  assumes inv: "host_inv V s" and v: "v \<in> V" "AWEPages_of s v = Some a"
    and mem: "\<forall>(pg, c, a2, a3) \<in> set ps. a2 \<and> a3" and fresh: "distinct (List.map_filter fst ps)"
      "\<forall>m \<in> set (List.map_filter fst ps). page_refs s m = 0"
    and n: "unat n < 2 ^ 31"
  shows "\<exists>t new r. HostIF_AllocLockedPages ps v n s = Some (r, new, t) \<and> host_inv V t
    \<and> changed V s t v AWE (held s v AWE \<union> set new) \<and> distinct new \<and> set new \<inter> held s v AWE = {}
    \<and> length new \<le> unat n \<and> (if new = [] then r \<le> 0 \<and> (n \<noteq> 0 \<longrightarrow> r < 0) else r = int (length new))"
proof -
  have fin: "finite V" using inv by (simp add: host_inv_def host_wf_def)
  have "m \<notin> held s v AWE" if "m \<in> set (List.map_filter fst ps)" for m
  proof
    assume "m \<in> held s v AWE"
    then have "(v, AWE) \<in> holders V s m" using v(1) by (simp add: holders_iff)
    then have "0 < page_refs s m" using inv finite_holders [OF fin, of s m] by (auto simp: host_inv_def card_gt_0_iff)
    then show False using fresh(2) that by auto
  qed
  then obtain t new err where t: "alloc_locked_loop ps a (unat n) 0 [] s = Some (length new, err, new, t)" "host_inv V t"
      "changed V s t v AWE (held s v AWE \<union> set new)" "distinct new" "set new \<inter> held s v AWE = {}" "length new \<le> unat n"
      "err \<le> 0" "new = [] \<and> 0 < unat n \<longrightarrow> err < 0"
    using alloc_locked_loop_inv [OF inv v _ mem fresh(1), of 0 "unat n" "[]"] by auto
  have "sint (of_nat (length new) :: u32) = int (length new)"
  proof -
    have "unat (of_nat (length new) :: u32) = length new"
      using t(6) n by (simp add: unsigned_of_nat take_bit_nat_eq_self)
    then show ?thesis using sint_small [of "of_nat (length new)"] t(6) n by simp
  qed
  moreover have "n \<noteq> 0 \<longrightarrow> 0 < unat n" by (simp add: unat_gt_0)
  ultimately show ?thesis using t by (auto simp: HostIF_AllocLockedPages_def v(2))
qed

subsection \<open>A new machine\<close>

definition blank_vm :: "VMDriver \<Rightarrow> bool" where
  "blank_vm d \<longleftrightarrow> vm_vmhost d = None \<and> vm_memtracker d = None"

lemma blank_held:
  assumes "blank_vm (vm_mem s v)"
  shows "held s v k = {}" "own_pt s v k = None" "physTracker_of s v = None"
proof -
  show "own_pt s v k = None"
    using assms by (cases k) (simp_all add: blank_vm_def lockedPages_of_def AWEPages_of_def)
  then show "held s v k = {}" using assms by (simp add: held_def pages_at_def pinned_in_def blank_vm_def)
  show "physTracker_of s v = None" using assms by (simp add: blank_vm_def physTracker_of_def)
qed

lemma host_wf_insert:
  assumes wf: "host_wf V s" and b: "blank_vm (vm_mem s v)"
  shows "host_wf (insert v V) s"
proof -
  note h = blank_held [OF b]
  have c: "{w \<in> insert v V. physTracker_of s w \<noteq> None} = {w \<in> V. physTracker_of s w \<noteq> None}" using h(3) by auto
  have u: "(\<Union>w \<in> insert v V. held s w Pinned) = (\<Union>w \<in> V. held s w Pinned)" using h(1) by auto
  show ?thesis unfolding host_wf_def c u
  proof (intro conjI)
    show "\<forall>p. physTracker s = Some p \<longrightarrow> pt_at s p \<and> tracked (pt_mem s p) = (\<Union>v \<in> V. held s v Pinned)
        \<and> numVMs (pt_mem s p) = int (card {v \<in> V. physTracker_of s v \<noteq> None}) \<and> 0 < numVMs (pt_mem s p)"
      using wf unfolding host_wf_def by (elim conjE) assumption
  qed (use wf b h in \<open>simp_all add: host_wf_def blank_vm_def\<close>)
qed

lemma host_inv_insert:
  assumes "host_inv V s" "blank_vm (vm_mem s v)"
  shows "host_inv (insert v V) s"
proof -
  have "holders (insert v V) s m = holders V s m" for m
    using blank_held(1) [OF assms(2)] by (auto simp: holders_def)
  then show ?thesis using assms host_wf_insert [of V s v] by (simp add: host_inv_def)
qed


text \<open>A step of the setup: the machine changes, what it and the others hold does not.\<close>

lemma host_wf_setup:
  assumes wf: "host_wf V s" and v: "v \<in> V" and vm: "vm_mem t = (vm_mem s)(v := d)" and phys: "physTracker t = physTracker s"
    and live: "pt_live s \<subseteq> pt_live t" and old: "\<And>p. p \<in> pt_live s \<Longrightarrow> pt_mem t p = pt_mem s p"
    and mt: "vm_memtracker d = vm_memtracker (vm_mem s v)
        \<or> (\<exists>mt. vm_memtracker (vm_mem s v) = None \<and> vm_memtracker d = Some mt \<and> mt_unique mt \<and> mt_pairs mt = [])"
    and P: "physTracker_of t v = physTracker_of s v"
    and own: "\<And>k p. own_pt t v k = Some p \<Longrightarrow> own_pt s v k = Some p
        \<or> (own_pt s v k = None \<and> p \<notin> pt_live s \<and> p \<in> pt_live t \<and> pt_ok (pt_mem t p) \<and> numVMs (pt_mem t p) = 1
           \<and> tracked (pt_mem t p) = {} \<and> (\<forall>j. own_pt t v j = Some p \<longrightarrow> j = k))"
    and keep: "\<And>k p. own_pt s v k = Some p \<Longrightarrow> own_pt t v k = Some p"
  shows "host_wf V t" "\<forall>w \<in> V. held t w k = held s w k"
proof -
  have o: "own_pt t w j = own_pt s w j" "physTracker_of t w = physTracker_of s w" if "w \<noteq> v" for w j
    using that by (cases j; simp add: vm lockedPages_of_def AWEPages_of_def physTracker_of_def)+
  have o2: "physTracker_of t w = physTracker_of s w" for w using o(2) [of w] P by (cases "w = v") auto
  have inl: "p \<in> pt_live s" if "w \<in> V" "own_pt s w j = Some p" for w j p
    using own_pt_inv(1) [OF wf that] by (simp add: pt_at_def)
  have at: "pt_at s p \<Longrightarrow> pt_at t p" for p using live old by (auto simp: pt_at_def)
  have own1: "own_pt s v k = Some p \<or> tracked (pt_mem t p) = {}" if "own_pt t v k = Some p" for k p
    using own [OF that] by blast
  have h: "held t w j = held s w j" if "w \<in> V" for w j
  proof (cases "own_pt t w j")
    case None
    then have n: "own_pt s w j = None" using keep o(1) [of w j] by (cases "w = v"; cases "own_pt s w j") auto
    show ?thesis using None n mt by (cases "w = v") (auto simp: held_def pages_at_def pinned_in_def vm)
  next
    case (Some p)
    then have k: "j \<noteq> Pinned" by auto
    show ?thesis
    proof (cases "own_pt s w j")
      case None
      then have "tracked (pt_mem t p) = {}" using own1 [of j p] Some o(1) [of w j] by (cases "w = v") auto
      then show ?thesis using None Some k by (simp add: held_def pages_at_def)
    next
      case (Some q)
      then have "q = p" using keep o(1) [of w j] \<open>own_pt t w j = Some p\<close> by (cases "w = v") auto
      then show ?thesis using Some \<open>own_pt t w j = Some p\<close> k old inl [OF that Some] by (simp add: held_def pages_at_def)
    qed
  qed
  then show "\<forall>w \<in> V. held t w k = held s w k" by blast
  have sh: "physTracker s = Some p \<Longrightarrow> pt_mem t p = pt_mem s p \<and> pt_at t p" for p
    using wf old at by (auto simp: host_wf_def pt_at_def)
  show "host_wf V t" unfolding host_wf_def o2 phys
  proof (intro conjI)
    show "finite V" using wf by (simp add: host_wf_def)
    show "\<forall>w \<in> V. \<forall>mt. vm_memtracker (vm_mem t w) = Some mt \<longrightarrow> mt_unique mt"
      using wf mt v by (auto simp: host_wf_def vm)
    show "\<forall>w \<in> V. \<forall>x \<in> V. w \<noteq> x \<longrightarrow> held t w Pinned \<inter> held t x Pinned = {}"
      using host_wf_disjoint [OF wf] h by simp
    show "\<forall>w \<in> V. (physTracker_of s w \<noteq> None \<longrightarrow> physTracker_of s w = physTracker s)
        \<and> (held t w Pinned \<noteq> {} \<longrightarrow> physTracker_of s w \<noteq> None)"
      using wf h by (simp add: host_wf_def)
    have u: "(\<Union>w \<in> V. held t w Pinned) = (\<Union>w \<in> V. held s w Pinned)" using h by simp
    have w6: "\<forall>p. physTracker s = Some p \<longrightarrow> pt_at s p \<and> tracked (pt_mem s p) = (\<Union>v \<in> V. held s v Pinned)
        \<and> numVMs (pt_mem s p) = int (card {v \<in> V. physTracker_of s v \<noteq> None}) \<and> 0 < numVMs (pt_mem s p)"
      using wf unfolding host_wf_def by (elim conjE) assumption
    show "\<forall>p. physTracker s = Some p \<longrightarrow> pt_at t p \<and> tracked (pt_mem t p) = (\<Union>w \<in> V. held t w Pinned)
        \<and> numVMs (pt_mem t p) = int (card {w \<in> V. physTracker_of s w \<noteq> None}) \<and> 0 < numVMs (pt_mem t p)"
    proof (intro allI impI)
      fix p assume p: "physTracker s = Some p"
      show "pt_at t p \<and> tracked (pt_mem t p) = (\<Union>w \<in> V. held t w Pinned)
        \<and> numVMs (pt_mem t p) = int (card {w \<in> V. physTracker_of s w \<noteq> None}) \<and> 0 < numVMs (pt_mem t p)"
        using w6 [rule_format, OF p] sh [OF p] unfolding u by simp
    qed
    have w4: "\<forall>v \<in> V. \<forall>k p. own_pt s v k = Some p \<longrightarrow> pt_at s p \<and> numVMs (pt_mem s p) = 1 \<and> physTracker s \<noteq> Some p
        \<and> (\<forall>w \<in> V. \<forall>j. own_pt s w j = Some p \<longrightarrow> w = v \<and> j = k)"
      using wf unfolding host_wf_def by (elim conjE) assumption
    have uniq: "w \<in> V \<Longrightarrow> x \<in> V \<Longrightarrow> own_pt s w k = Some p \<Longrightarrow> own_pt s x j = Some p \<Longrightarrow> x = w \<and> j = k" for w x k j p
      using w4 by blast
    have split: "own_pt s w k = Some p \<or> (w = v \<and> p \<notin> pt_live s \<and> p \<in> pt_live t \<and> pt_ok (pt_mem t p)
        \<and> numVMs (pt_mem t p) = 1 \<and> (\<forall>j. own_pt t v j = Some p \<longrightarrow> j = k))"
      if "w \<in> V" "own_pt t w k = Some p" for w k p
    proof (cases "w = v")
      case True
      then show ?thesis using own [of k p] that(2) by blast
    next
      case False
      then show ?thesis using o(1) that(2) by simp
    qed
    show "\<forall>w \<in> V. \<forall>k p. own_pt t w k = Some p \<longrightarrow> pt_at t p \<and> numVMs (pt_mem t p) = 1 \<and> physTracker s \<noteq> Some p
        \<and> (\<forall>x \<in> V. \<forall>j. own_pt t x j = Some p \<longrightarrow> x = w \<and> j = k)"
    proof (intro ballI allI impI)
      fix w k p assume w: "w \<in> V" and p: "own_pt t w k = Some p"
      show "pt_at t p \<and> numVMs (pt_mem t p) = 1 \<and> physTracker s \<noteq> Some p
        \<and> (\<forall>x \<in> V. \<forall>j. own_pt t x j = Some p \<longrightarrow> x = w \<and> j = k)"
        using split [OF w p]
      proof
        assume e: "own_pt s w k = Some p"
        note i = own_pt_inv [OF wf w e]
        have l: "p \<in> pt_live s" by (rule inl [OF w e])
        have "x = w \<and> j = k" if "x \<in> V" "own_pt t x j = Some p" for x j
          using split [OF that] uniq [OF w that(1) e] l by blast
        then show ?thesis using i(1-3) at old [OF l] by auto
      next
        assume e: "w = v \<and> p \<notin> pt_live s \<and> p \<in> pt_live t \<and> pt_ok (pt_mem t p) \<and> numVMs (pt_mem t p) = 1
          \<and> (\<forall>j. own_pt t v j = Some p \<longrightarrow> j = k)"
        have "physTracker s \<noteq> Some p" using wf e by (auto simp: host_wf_def pt_at_def)
        moreover have "x = w \<and> j = k" if "x \<in> V" "own_pt t x j = Some p" for x j
          using split [OF that] inl [OF that(1)] e that(2) by blast
        ultimately show ?thesis using e by (simp add: pt_at_def)
      qed
    qed
  qed
qed


lemma upd_vmhost_of:
  assumes "vm_vmhost (vm_mem s v) = Some h"
  shows "vm_mem (upd_vmhost v f s) = (vm_mem s)(v := (vm_mem s v)\<lparr>vm_vmhost := Some (f h)\<rparr>)"
    "pt_mem (upd_vmhost v f s) = pt_mem s" "pt_live (upd_vmhost v f s) = pt_live s"
    "physTracker (upd_vmhost v f s) = physTracker s" "page_refs (upd_vmhost v f s) = page_refs s"
  using assms by (auto simp: upd_vmhost_def fun_eq_iff)

lemma numVMs_zero: "numVMs zero_tracker = 0"
  by (simp add: zero_tracker_def)

text \<open>The machine joins the users of the shared tracker.\<close>

lemma phys_init_wf:
  assumes wf: "host_wf V s" and v: "v \<in> V" "vm_vmhost (vm_mem s v) = Some h" "vh_physTracker h = None"
    and i: "PhysTrack_Init newP s = (Some p, s1)" and fresh: "\<forall>q. newP = Some q \<longrightarrow> q \<notin> pt_live s"
  defines "t \<equiv> upd_vmhost v (\<lambda>h. h\<lparr>vh_physTracker := Some p\<rparr>) s1"
  shows "host_wf V t" "\<forall>w \<in> V. held t w k = held s w k" "page_refs t = page_refs s"
    "vm_mem t = (vm_mem s)(v := (vm_mem s v)\<lparr>vm_vmhost := Some (h\<lparr>vh_physTracker := Some p\<rparr>)\<rparr>)"
    "pt_live s \<subseteq> pt_live t" "pt_live t \<subseteq> pt_live s \<union> (set_option newP)"
proof -
  define base where "base = (case physTracker s of Some q \<Rightarrow> pt_mem s q | None \<Rightarrow> zero_tracker)"
  have s1: "vm_mem s1 = vm_mem s" "page_refs s1 = page_refs s" "physTracker s1 = Some p"
      "pt_mem s1 = (pt_mem s)(p := base\<lparr>numVMs := numVMs base + 1\<rparr>)"
      "pt_live s1 = (if physTracker s = None then insert p (pt_live s) else pt_live s)"
      "physTracker s = None \<or> physTracker s = Some p" "physTracker s = None \<Longrightarrow> newP = Some p"
    using i by (auto simp: PhysTrack_Init_def base_def upd_pt_def Let_def fun_eq_iff split: option.splits if_splits)
  have vs: "vm_vmhost (vm_mem s1 v) = Some h" using v(2) by (simp add: s1)
  note f = upd_vmhost_of [OF vs, of "\<lambda>h. h\<lparr>vh_physTracker := Some p\<rparr>", folded t_def, unfolded s1(1-5)]
  show vm: "vm_mem t = (vm_mem s)(v := (vm_mem s v)\<lparr>vm_vmhost := Some (h\<lparr>vh_physTracker := Some p\<rparr>)\<rparr>)"
    "page_refs t = page_refs s" by (fact f)+
  show "pt_live s \<subseteq> pt_live t" "pt_live t \<subseteq> pt_live s \<union> (set_option newP)" using f(3) s1(7) by auto
  have o: "own_pt t w j = own_pt s w j" for w j
    by (cases j) (auto simp: vm(1) v(2) lockedPages_of_def AWEPages_of_def)
  have ph: "physTracker_of t w = (if w = v then Some p else physTracker_of s w)" for w
    by (simp add: physTracker_of_def vm(1))
  have ph0: "physTracker_of s v = None" by (simp add: physTracker_of_def v)
  have w4: "\<forall>v \<in> V. \<forall>k p. own_pt s v k = Some p \<longrightarrow> pt_at s p \<and> numVMs (pt_mem s p) = 1 \<and> physTracker s \<noteq> Some p
        \<and> (\<forall>w \<in> V. \<forall>j. own_pt s w j = Some p \<longrightarrow> w = v \<and> j = k)"
    using wf unfolding host_wf_def by (elim conjE) assumption
  have w5: "\<forall>v \<in> V. (physTracker_of s v \<noteq> None \<longrightarrow> physTracker_of s v = physTracker s)
      \<and> (held s v Pinned \<noteq> {} \<longrightarrow> physTracker_of s v \<noteq> None)"
    using wf unfolding host_wf_def by (elim conjE) assumption
  have w6: "\<forall>p. physTracker s = Some p \<longrightarrow> pt_at s p \<and> tracked (pt_mem s p) = (\<Union>v \<in> V. held s v Pinned)
        \<and> numVMs (pt_mem s p) = int (card {v \<in> V. physTracker_of s v \<noteq> None}) \<and> 0 < numVMs (pt_mem s p)"
    using wf unfolding host_wf_def by (elim conjE) assumption
  have np: "own_pt s w j \<noteq> Some p" if "w \<in> V" for w j
  proof
    assume a: "own_pt s w j = Some p"
    have "pt_at s p" "physTracker s \<noteq> Some p" using w4 that a by blast+
    then show False using s1(6,7) fresh by (auto simp: pt_at_def)
  qed
  have h: "held t w j = held s w j" if "w \<in> V" for w j
    using np [OF that, of j] by (cases "own_pt s w j") (auto simp: held_def pages_at_def o f(1,2))
  then show "\<forall>w \<in> V. held t w k = held s w k" by blast
  have none: "held s w Pinned = {}" if "physTracker s = None" "w \<in> V" for w
    using w5 that by force
  have fin: "finite V" using wf by (simp add: host_wf_def)
  have users: "{w \<in> V. physTracker_of t w \<noteq> None} = insert v {w \<in> V. physTracker_of s w \<noteq> None}"
    using v(1) by (auto simp: ph)
  have count: "int (card {w \<in> V. physTracker_of t w \<noteq> None}) = int (card {w \<in> V. physTracker_of s w \<noteq> None}) + 1"
    unfolding users using fin ph0 by simp
  have zero: "card {w \<in> V. physTracker_of s w \<noteq> None} = 0" if "physTracker s = None"
    using w5 that by (auto simp: card_eq_0_iff)
  have base: "pt_ok base" "tracked base = (\<Union>w \<in> V. held s w Pinned)"
      "numVMs base = int (card {w \<in> V. physTracker_of s w \<noteq> None})"
    using w6 none zero by (auto simp: base_def numVMs_zero pt_at_def split: option.splits)
  show "host_wf V t" unfolding host_wf_def
  proof (intro conjI)
    show "finite V" by (rule fin)
    show "\<forall>w \<in> V. \<forall>mt. vm_memtracker (vm_mem t w) = Some mt \<longrightarrow> mt_unique mt"
      using wf by (auto simp: host_wf_def vm(1) split: if_splits)
    show "\<forall>w \<in> V. \<forall>x \<in> V. w \<noteq> x \<longrightarrow> held t w Pinned \<inter> held t x Pinned = {}"
      using host_wf_disjoint [OF wf] h by simp
    show "\<forall>w \<in> V. \<forall>k q. own_pt t w k = Some q \<longrightarrow> pt_at t q \<and> numVMs (pt_mem t q) = 1 \<and> physTracker t \<noteq> Some q
        \<and> (\<forall>x \<in> V. \<forall>j. own_pt t x j = Some q \<longrightarrow> x = w \<and> j = k)"
    proof (intro ballI allI impI)
      fix w k q assume w: "w \<in> V" and q: "own_pt t w k = Some q"
      have ne: "q \<noteq> p" using np [OF w, of k] q by (simp add: o)
      have q': "own_pt s w k = Some q" using q by (simp add: o)
      have a: "pt_at s q" "numVMs (pt_mem s q) = 1" "\<forall>x \<in> V. \<forall>j. own_pt s x j = Some q \<longrightarrow> x = w \<and> j = k"
        using w4 w q' by blast+
      show "pt_at t q \<and> numVMs (pt_mem t q) = 1 \<and> physTracker t \<noteq> Some q
        \<and> (\<forall>x \<in> V. \<forall>j. own_pt t x j = Some q \<longrightarrow> x = w \<and> j = k)"
        using a ne unfolding o by (auto simp: pt_at_def f(2-4))
    qed
    show "\<forall>w \<in> V. (physTracker_of t w \<noteq> None \<longrightarrow> physTracker_of t w = physTracker t)
        \<and> (held t w Pinned \<noteq> {} \<longrightarrow> physTracker_of t w \<noteq> None)"
    proof
      fix w assume w: "w \<in> V"
      then show "(physTracker_of t w \<noteq> None \<longrightarrow> physTracker_of t w = physTracker t)
        \<and> (held t w Pinned \<noteq> {} \<longrightarrow> physTracker_of t w \<noteq> None)"
        using w5 [rule_format, OF w] s1(6) h [OF w] by (auto simp: ph f(4))
    qed
    show "\<forall>q. physTracker t = Some q \<longrightarrow> pt_at t q \<and> tracked (pt_mem t q) = (\<Union>w \<in> V. held t w Pinned)
        \<and> numVMs (pt_mem t q) = int (card {w \<in> V. physTracker_of t w \<noteq> None}) \<and> 0 < numVMs (pt_mem t q)"
    proof (intro allI impI)
      fix q assume "physTracker t = Some q"
      then have q: "q = p" by (simp add: f(4))
      have "p \<in> pt_live t" using w6 s1(6) by (auto simp: f(3) pt_at_def)
      then show "pt_at t q \<and> tracked (pt_mem t q) = (\<Union>w \<in> V. held t w Pinned)
        \<and> numVMs (pt_mem t q) = int (card {w \<in> V. physTracker_of t w \<noteq> None}) \<and> 0 < numVMs (pt_mem t q)"
        unfolding count using base h by (simp add: q pt_at_def f(2))
    qed
  qed
qed


text \<open>A new tracker for the machine.\<close>

lemma PhysTrack_Alloc_simps:
  "PhysTrack_Alloc (Some p) s = (Some p, s\<lparr>pt_mem := (pt_mem s)(p := zero_tracker\<lparr>numVMs := 1\<rparr>), pt_live := insert p (pt_live s)\<rparr>)"
  "PhysTrack_Alloc None s = (None, s)"
  by (simp_all add: PhysTrack_Alloc_def)

lemma alloc_own_wf:
  assumes wf: "host_wf V s" and v: "v \<in> V" "vm_vmhost (vm_mem s v) = Some h"
    and fresh: "p \<notin> pt_live s" and k: "own_pt s v k = None"
    and f: "k = Locked \<and> f = (\<lambda>h. h\<lparr>vh_lockedPages := Some p\<rparr>) \<or> k = AWE \<and> f = (\<lambda>h. h\<lparr>vh_AWEPages := Some p\<rparr>)"
  defines "t \<equiv> upd_vmhost v f (snd (PhysTrack_Alloc (Some p) s))"
  shows "host_wf V t" "\<forall>w \<in> V. held t w j = held s w j" "page_refs t = page_refs s" "own_pt t v k = Some p"
    "j \<noteq> k \<Longrightarrow> own_pt t v j = own_pt s v j" "physTracker_of t v = physTracker_of s v"
    "vm_memtracker (vm_mem t v) = vm_memtracker (vm_mem s v)" "vm_vmhost (vm_mem t v) = Some (f h)"
    "pt_live t = insert p (pt_live s)" "\<forall>w. w \<noteq> v \<longrightarrow> vm_mem t w = vm_mem s w"
proof -
  let ?s = "snd (PhysTrack_Alloc (Some p) s)"
  have vs: "vm_vmhost (vm_mem ?s v) = Some h" using v(2) by (simp add: PhysTrack_Alloc_simps)
  note g = upd_vmhost_of [OF vs, of f, folded t_def]
  have vm: "vm_mem t = (vm_mem s)(v := (vm_mem s v)\<lparr>vm_vmhost := Some (f h)\<rparr>)" "page_refs t = page_refs s"
    "pt_mem t = (pt_mem s)(p := zero_tracker\<lparr>numVMs := 1\<rparr>)" "pt_live t = insert p (pt_live s)"
    "physTracker t = physTracker s"
    by (simp_all add: g PhysTrack_Alloc_simps)
  show "page_refs t = page_refs s" "pt_live t = insert p (pt_live s)" "vm_vmhost (vm_mem t v) = Some (f h)"
    "vm_memtracker (vm_mem t v) = vm_memtracker (vm_mem s v)" "\<forall>w. w \<noteq> v \<longrightarrow> vm_mem t w = vm_mem s w"
    by (simp_all add: vm)
  show ok: "own_pt t v k = Some p"
    using f by (auto simp: lockedPages_of_def AWEPages_of_def vm(1))
  have oj: "own_pt t v j = own_pt s v j" if "j \<noteq> k" for j
    using f that v(2) by (cases j) (auto simp: lockedPages_of_def AWEPages_of_def vm(1))
  then show "j \<noteq> k \<Longrightarrow> own_pt t v j = own_pt s v j" .
  show P: "physTracker_of t v = physTracker_of s v"
    using f v(2) by (auto simp: physTracker_of_def vm(1))
  have inl: "q \<in> pt_live s" if "own_pt s v j = Some q" for j q
    using own_pt_inv(1) [OF wf v(1) that] by (simp add: pt_at_def)
  have own: "own_pt s v i = Some q \<or> (own_pt s v i = None \<and> q \<notin> pt_live s \<and> q \<in> pt_live t \<and> pt_ok (pt_mem t q)
      \<and> numVMs (pt_mem t q) = 1 \<and> tracked (pt_mem t q) = {} \<and> (\<forall>j. own_pt t v j = Some q \<longrightarrow> j = i))"
    if "own_pt t v i = Some q" for i q
  proof (cases "i = k")
    case True
    then have q: "q = p" using ok that by simp
    have "j = k" if "own_pt t v j = Some p" for j
      using oj [of j] inl [of j p] fresh that by (cases "j = k") auto
    then show ?thesis using True q k fresh by (simp add: vm(3,4))
  next
    case False
    then show ?thesis using oj that by simp
  qed
  have keep: "own_pt t v i = Some q" if "own_pt s v i = Some q" for i q
    using that oj [of i] k by (cases "i = k") auto
  have rest: "pt_live s \<subseteq> pt_live t" "\<And>q. q \<in> pt_live s \<Longrightarrow> pt_mem t q = pt_mem s q"
    "vm_memtracker ((vm_mem s v)\<lparr>vm_vmhost := Some (f h)\<rparr>) = vm_memtracker (vm_mem s v)"
    using fresh by (auto simp: vm(3,4))
  show "host_wf V t"
    by (rule host_wf_setup(1) [OF wf v(1) vm(1) vm(5) rest(1,2) disjI1 [OF rest(3)] P own keep])
  show "\<forall>w \<in> V. held t w j = held s w j"
    by (rule host_wf_setup(2) [OF wf v(1) vm(1) vm(5) rest(1,2) disjI1 [OF rest(3)] P own keep])
qed

lemma HostIF_Init_inv:
  assumes inv: "host_inv V s" and b: "blank_vm (vm_mem s v)" and mt: "mt = Some m" "mt_ok m" "mt_pairs m = []"
    and fresh: "distinct [p, l, a]" "\<forall>q \<in> {p, l, a}. q \<notin> pt_live s"
  shows "\<exists>t. HostIF_Init mt True (Some p) (Some l) (Some a) v s = (True, t) \<and> host_inv (insert v V) t
    \<and> (\<forall>k. held t v k = {}) \<and> (\<forall>w \<in> V. w \<noteq> v \<longrightarrow> (\<forall>k. held t w k = held s w k)) \<and> vm_memtracker (vm_mem t v) = Some m
    \<and> physTracker_of t v \<noteq> None \<and> lockedPages_of t v = Some l \<and> AWEPages_of t v = Some a
    \<and> (\<forall>w. w \<noteq> v \<longrightarrow> vm_mem t w = vm_mem s w)"
proof -
  let ?V = "insert v V"
  have inv0: "host_inv ?V s" by (rule host_inv_insert [OF inv b])
  then have wf0: "host_wf ?V s" by (simp add: host_inv_def)
  have vV: "v \<in> ?V" by simp
  note bh = blank_held [OF b]
  have mu: "mt_unique m" using mt by (simp add: mt_unique_def)
  define h0 where "h0 = \<lparr>vh_physTracker = None, vh_lockedPages = None, vh_AWEPages = None, vh_swapBacked = False, vh_usingMlock = False\<rparr>"
  define s2 where "s2 = upd_vm v (\<lambda>vm. vm\<lparr>vm_vmhost := Some h0\<rparr>) (upd_vm v (\<lambda>vm. vm\<lparr>vm_memtracker := Some m\<rparr>) s)"
  have s2: "vm_mem s2 = (vm_mem s)(v := (vm_mem s v)\<lparr>vm_memtracker := Some m, vm_vmhost := Some h0\<rparr>)"
      "pt_mem s2 = pt_mem s" "pt_live s2 = pt_live s" "physTracker s2 = physTracker s" "page_refs s2 = page_refs s"
    by (auto simp: s2_def fun_eq_iff)
  have n2: "own_pt s2 v k = None" "physTracker_of s2 v = None" for k
    by (cases k; simp add: s2(1) lockedPages_of_def AWEPages_of_def physTracker_of_def h0_def)+
  have w2: "host_wf ?V s2" "\<forall>w \<in> ?V. held s2 w k = held s w k" for k
    using mu mt(3) b by (rule_tac host_wf_setup [OF wf0 vV s2(1) s2(4)]; simp add: s2 n2 bh blank_vm_def)+
  obtain s3 q where i: "PhysTrack_Init (Some p) s2 = (Some q, s3)"
    by (cases "physTracker s2") (auto simp: PhysTrack_Init_def upd_pt_def Let_def)
  define s4 where "s4 = upd_vmhost v (\<lambda>h. h\<lparr>vh_physTracker := Some q\<rparr>) s3"
  have v2: "vm_vmhost (vm_mem s2 v) = Some h0" "vh_physTracker h0 = None" by (simp_all add: s2 h0_def)
  have fr2: "\<forall>q'. Some p = Some q' \<longrightarrow> q' \<notin> pt_live s2" using fresh by (simp add: s2)
  note I = phys_init_wf [OF w2(1) vV v2 i fr2, folded s4_def]
  have v4: "vm_vmhost (vm_mem s4 v) = Some (h0\<lparr>vh_physTracker := Some q\<rparr>)" by (simp add: I(4))
  have n4: "own_pt s4 v k = None" for k
    by (cases k) (simp_all add: I(4) lockedPages_of_def AWEPages_of_def h0_def)
  have fl: "l \<notin> pt_live s4" using I(6) fresh by (auto simp: s2)
  define s5 where "s5 = upd_vmhost v (\<lambda>h. h\<lparr>vh_lockedPages := Some l\<rparr>) (snd (PhysTrack_Alloc (Some l) s4))"
  have fL: "Locked = Locked \<and> (\<lambda>h. h\<lparr>vh_lockedPages := Some l\<rparr>) = (\<lambda>h. h\<lparr>vh_lockedPages := Some l\<rparr>)
      \<or> Locked = AWE \<and> (\<lambda>h. h\<lparr>vh_lockedPages := Some l\<rparr>) = (\<lambda>h. h\<lparr>vh_AWEPages := Some l\<rparr>)" by simp
  note L = alloc_own_wf [OF I(1) vV v4 fl n4 fL, folded s5_def]
  have fa: "a \<notin> pt_live s5" using I(6) fresh by (auto simp: s2 L(9))
  have n5: "own_pt s5 v AWE = None" using L(5) [of AWE] n4 [of AWE] by simp
  define t where "t = upd_vmhost v (\<lambda>h. h\<lparr>vh_AWEPages := Some a\<rparr>) (snd (PhysTrack_Alloc (Some a) s5))"
  have fA: "AWE = Locked \<and> (\<lambda>h. h\<lparr>vh_AWEPages := Some a\<rparr>) = (\<lambda>h. h\<lparr>vh_lockedPages := Some a\<rparr>)
      \<or> AWE = AWE \<and> (\<lambda>h. h\<lparr>vh_AWEPages := Some a\<rparr>) = (\<lambda>h. h\<lparr>vh_AWEPages := Some a\<rparr>)" by simp
  note A = alloc_own_wf [OF L(1) vV L(8) fa n5 fA, folded t_def]
  have held: "held t w k = held s w k" if "w \<in> ?V" for w k
    using A(2) [rule_format, OF that] L(2) [rule_format, OF that] I(2) [rule_format, OF that] w2(2) [rule_format, OF that] by simp
  have run: "HostIF_Init mt True (Some p) (Some l) (Some a) v s = (True, t)"
    using i by (simp add: HostIF_Init_def mt(1) s2_def [symmetric] h0_def [symmetric] HostIFHostMemInit_def
        PhysTrack_Alloc_def s4_def [symmetric] s5_def t_def Let_def)
  have "holders ?V t m = holders ?V s m" for m using held by (auto simp: holders_def)
  then have "host_inv ?V t"
    using inv0 A(1) by (simp add: host_inv_def A(3) L(3) I(3) s2(5))
  moreover have "physTracker_of t v \<noteq> None"
    by (simp add: A(6) L(6)) (simp add: physTracker_of_def v4)
  moreover have "lockedPages_of t v = Some l" using A(5) [of Locked] L(4) by simp
  moreover have "AWEPages_of t v = Some a" using A(4) by simp
  moreover have "vm_memtracker (vm_mem t v) = Some m" by (simp add: A(7) L(7) I(4) s2(1))
  moreover have "\<forall>w. w \<noteq> v \<longrightarrow> vm_mem t w = vm_mem s w" using A(10) L(10) by (simp add: I(4) s2(1))
  ultimately show ?thesis using run held bh(1) by auto
qed

end
