(* ===== verification/HostTeardown.thy ===== *)
theory HostTeardown
  imports HostPagesProps
begin

text \<open>
  The teardown of a machine, \<open>HostIF_FreeAllResources\<close>: every page it holds is given back, its
  trackers and, with the last machine, the shared tracker are freed, and nothing of another machine
  changes.
\<close>

subsection \<open>Teardown\<close>

text \<open>The loop that empties a tracker of the machine keeps the invariant and all other pages.\<close>

definition draining :: "ptr set \<Rightarrow> ptr \<Rightarrow> hold \<Rightarrow> ptr \<Rightarrow> 'a host_state_scheme \<Rightarrow> 'a host_state_scheme \<Rightarrow> bool" where
  "draining V v k p s0 s \<longleftrightarrow> host_inv V s \<and> v \<in> V \<and> own_pt s v k = Some p \<and> vm_mem s = vm_mem s0
     \<and> physTracker s = physTracker s0 \<and> pt_live s = pt_live s0
     \<and> (\<forall>w \<in> V. \<forall>j. (w, j) \<noteq> (v, k) \<longrightarrow> held s w j = held s0 w j)"

lemma draining_step:
  assumes d: "draining V v k p s0 s" and m: "m \<in> tracked (pt_mem s p)"
  shows "\<exists>t. release_tracked p m s = Some t \<and> draining V v k p s0 t \<and> tracked (pt_mem t p) = tracked (pt_mem s p) - {m}"
proof -
  have inv: "host_inv V s" and v: "v \<in> V" and own: "own_pt s v k = Some p" using d by (simp_all add: draining_def)
  note o = own_pt_inv [OF _ v own]
  have h: "held s v k = tracked (pt_mem s p)" using inv by (intro o(5)) (simp add: host_inv_def)
  obtain t where t: "release_tracked p m s = Some t" "host_inv V t" "changed V s t v k (held s v k - {m})"
      "\<exists>x r. t = upd_pt p (\<lambda>_. x) s\<lparr>page_refs := r\<rparr> \<and> numVMs x = 1"
    using release_own [OF inv v own] m h by blast
  then have f: "own_pt t v k = Some p" "vm_mem t = vm_mem s" "physTracker t = physTracker s" "pt_live t = pt_live s"
    using own release_frame by auto
  have "held t v k = tracked (pt_mem t p)" using t(2) f(1) v by (intro own_pt_inv(5)) (simp_all add: host_inv_def)
  moreover have "held t v k = held s v k - {m}" by (rule changed_held [OF t(3) v])
  ultimately have "tracked (pt_mem t p) = tracked (pt_mem s p) - {m}" using h by simp
  moreover have "draining V v k p s0 t"
    using d t(2,3) f by (auto simp: draining_def changed_def)
  ultimately show ?thesis using t(1) by blast
qed

interpretation drain: page_set "draining V v k p s0" "\<lambda>s. tracked (pt_mem s p)"
    "\<lambda>s m. PhysTrack_GetNext (pt_mem s p) m" "release_tracked p" for V v k p s0
  by unfold_locales (rule GetNext_pages, rule draining_step)

definition drop_field :: "hold \<Rightarrow> VMHost \<Rightarrow> VMHost" where
  "drop_field k h = (if k = Locked then h\<lparr>vh_lockedPages := None\<rparr> else h\<lparr>vh_AWEPages := None\<rparr>)"

lemma drop_own:
  assumes inv: "host_inv V s" and v: "v \<in> V" "own_pt s v k = Some p" and empty: "held s v k = {}"
    and h: "vm_vmhost (vm_mem s v) = Some h"
  defines "t \<equiv> upd_vmhost v (drop_field k) (upd_pt p (\<lambda>t. t\<lparr>numVMs := 0\<rparr>) s\<lparr>pt_live := pt_live s - {p}, physTracker := physTracker s\<rparr>)"
  shows "host_inv V t" "held t w j = held s w j \<or> w \<notin> V" "own_pt t v j = (if j = k then None else own_pt s v j)"
    "physTracker_of t v = physTracker_of s v" "vm_memtracker (vm_mem t v) = vm_memtracker (vm_mem s v)"
    "w \<noteq> v \<Longrightarrow> vm_mem t w = vm_mem s w" "pt_live t = pt_live s - {p}"
    "vm_vmhost (vm_mem t v) \<noteq> None" "physTracker t = physTracker s"
proof -
  have wf: "host_wf V s" using inv by (simp add: host_inv_def)
  note o = own_pt_inv [OF wf v]
  have t: "vm_mem t = (vm_mem s)(v := (vm_mem s v)\<lparr>vm_vmhost := Some (drop_field k h)\<rparr>)"
      "pt_mem t = (pt_mem s)(p := (pt_mem s p)\<lparr>numVMs := 0\<rparr>)" "pt_live t = pt_live s - {p}"
      "physTracker t = physTracker s" "page_refs t = page_refs s"
    using h by (auto simp: t_def upd_vmhost_def upd_vm_def upd_pt_def fun_eq_iff)
  then show "pt_live t = pt_live s - {p}" "physTracker t = physTracker s" "vm_vmhost (vm_mem t v) \<noteq> None"
    "vm_memtracker (vm_mem t v) = vm_memtracker (vm_mem s v)" "w \<noteq> v \<Longrightarrow> vm_mem t w = vm_mem s w"
    by simp_all
  have k: "k = Locked \<or> k = AWE" using o(4) by (cases k) auto
  show ov: "own_pt t v j = (if j = k then None else own_pt s v j)" for j
    using k h by (cases j) (auto simp: t(1) drop_field_def lockedPages_of_def AWEPages_of_def)
  have ow: "own_pt t w j = own_pt s w j" if "w \<noteq> v" for w j
    using that by (cases j) (simp_all add: t(1) lockedPages_of_def AWEPages_of_def)
  have ph: "physTracker_of t w = physTracker_of s w" for w
    using h by (auto simp: t(1) drop_field_def physTracker_of_def)
  then show "physTracker_of t v = physTracker_of s v" .
  have w4: "\<forall>v \<in> V. \<forall>k p. own_pt s v k = Some p \<longrightarrow> pt_at s p \<and> numVMs (pt_mem s p) = 1 \<and> physTracker s \<noteq> Some p
        \<and> (\<forall>w \<in> V. \<forall>j. own_pt s w j = Some p \<longrightarrow> w = v \<and> j = k)"
    using wf unfolding host_wf_def by (elim conjE) assumption
  have w6: "\<forall>p. physTracker s = Some p \<longrightarrow> pt_at s p \<and> tracked (pt_mem s p) = (\<Union>v \<in> V. held s v Pinned)
        \<and> numVMs (pt_mem s p) = int (card {v \<in> V. physTracker_of s v \<noteq> None}) \<and> 0 < numVMs (pt_mem s p)"
    using wf unfolding host_wf_def by (elim conjE) assumption
  have sub: "own_pt s w j = Some q \<and> q \<noteq> p" if "w \<in> V" "own_pt t w j = Some q" for w j q
  proof -
    have e: "own_pt s w j = Some q" "\<not> (w = v \<and> j = k)"
      using that ov [of j] ow [of w j] by (cases "w = v"; cases "j = k"; simp)+
    have "q \<noteq> p"
    proof
      assume "q = p"
      then have "w = v \<and> j = k" using w4 v that(1) e(1) by blast
      then show False using e(2) by blast
    qed
    then show ?thesis using e(1) by blast
  qed
  have h_same: "held t w j = held s w j" if "w \<in> V" for w j
  proof (cases "w = v \<and> j = k")
    case True
    then show ?thesis using empty ov [of k] o(4) by (simp add: held_def pages_at_def)
  next
    case False
    then have e: "own_pt t w j = own_pt s w j" using ov [of j] ow [of w j] by (cases "w = v") auto
    show ?thesis
      using sub [OF that, of j] e by (cases "own_pt s w j") (auto simp: held_def pages_at_def t)
  qed
  then show "held t w j = held s w j \<or> w \<notin> V" by blast
  have u: "(\<Union>w \<in> V. held t w Pinned) = (\<Union>w \<in> V. held s w Pinned)" using h_same by simp
  have "host_wf V t" unfolding host_wf_def ph t(4) u
  proof (intro conjI)
    show "finite V" using wf by (simp add: host_wf_def)
    show "\<forall>w \<in> V. \<forall>mt. vm_memtracker (vm_mem t w) = Some mt \<longrightarrow> mt_unique mt"
      using wf by (auto simp: host_wf_def t(1) split: if_splits)
    show "\<forall>w \<in> V. \<forall>x \<in> V. w \<noteq> x \<longrightarrow> held t w Pinned \<inter> held t x Pinned = {}"
      using host_wf_disjoint [OF wf] h_same by simp
    show "\<forall>w \<in> V. (physTracker_of s w \<noteq> None \<longrightarrow> physTracker_of s w = physTracker s)
        \<and> (held t w Pinned \<noteq> {} \<longrightarrow> physTracker_of s w \<noteq> None)"
      using wf h_same by (simp add: host_wf_def)
    show "\<forall>w \<in> V. \<forall>j q. own_pt t w j = Some q \<longrightarrow> pt_at t q \<and> numVMs (pt_mem t q) = 1 \<and> physTracker s \<noteq> Some q
        \<and> (\<forall>x \<in> V. \<forall>i. own_pt t x i = Some q \<longrightarrow> x = w \<and> i = j)"
    proof (intro ballI allI impI)
      fix w j q assume w: "w \<in> V" "own_pt t w j = Some q"
      have q: "own_pt s w j = Some q" "q \<noteq> p" using sub [OF w] by blast+
      have a: "pt_at s q" "numVMs (pt_mem s q) = 1" "physTracker s \<noteq> Some q"
          "\<forall>x \<in> V. \<forall>i. own_pt s x i = Some q \<longrightarrow> x = w \<and> i = j" using w4 w(1) q(1) by blast+
      have "x = w \<and> i = j" if "x \<in> V" "own_pt t x i = Some q" for x i
        using a(4) sub [OF that] that(1) by blast
      then show "pt_at t q \<and> numVMs (pt_mem t q) = 1 \<and> physTracker s \<noteq> Some q
        \<and> (\<forall>x \<in> V. \<forall>i. own_pt t x i = Some q \<longrightarrow> x = w \<and> i = j)"
        using a(1-3) q(2) by (auto simp: pt_at_def t)
    qed
    show "\<forall>q. physTracker s = Some q \<longrightarrow> pt_at t q \<and> tracked (pt_mem t q) = (\<Union>w \<in> V. held s w Pinned)
        \<and> numVMs (pt_mem t q) = int (card {w \<in> V. physTracker_of s w \<noteq> None}) \<and> 0 < numVMs (pt_mem t q)"
    proof (intro allI impI)
      fix q assume q: "physTracker s = Some q"
      then have "q \<noteq> p" using o(3) by auto
      then show "pt_at t q \<and> tracked (pt_mem t q) = (\<Union>w \<in> V. held s w Pinned)
        \<and> numVMs (pt_mem t q) = int (card {w \<in> V. physTracker_of s w \<noteq> None}) \<and> 0 < numVMs (pt_mem t q)"
        using w6 [rule_format, OF q] by (simp add: pt_at_def t)
    qed
  qed
  moreover have "holders V t m = holders V s m" for m using h_same by (auto simp: holders_def)
  ultimately show "host_inv V t" using inv by (simp add: host_inv_def t(5))
qed


lemma vmhost_of_own: "own_pt s v k = Some p \<Longrightarrow> vm_vmhost (vm_mem s v) \<noteq> None"
  by (cases k; cases "vm_vmhost (vm_mem s v)") (simp_all add: lockedPages_of_def AWEPages_of_def)

lemma drain_own:
  assumes inv: "host_inv V s" and v: "v \<in> V" "own_pt s v k = Some p"
    and ends: "0 \<notin> held s v k" "INVALID_MPN \<notin> held s v k"
  shows "\<exists>t u. drain_tracker p s = Some u \<and> t = upd_vmhost v (drop_field k) u \<and> host_inv V t
    \<and> (\<forall>w \<in> V. \<forall>j. held t w j = (if w = v \<and> j = k then {} else held s w j))
    \<and> (\<forall>j. own_pt t v j = (if j = k then None else own_pt s v j)) \<and> physTracker_of t v = physTracker_of s v
    \<and> vm_memtracker (vm_mem t v) = vm_memtracker (vm_mem s v) \<and> (\<forall>w. w \<noteq> v \<longrightarrow> vm_mem t w = vm_mem s w)
    \<and> pt_live t = pt_live s - {p} \<and> vm_vmhost (vm_mem t v) \<noteq> None \<and> physTracker t = physTracker s"
proof -
  have wf: "host_wf V s" using inv by (simp add: host_inv_def)
  note o = own_pt_inv [OF wf v]
  have d0: "draining V v k p s s" using inv v by (simp add: draining_def)
  have "(0 :: MPN) \<noteq> INVALID_MPN" by (simp add: INVALID_MPN_def)
  from drain.for_each_page_drains [OF d0 this] obtain s1 where
      s1: "for_each_page (\<lambda>s m. PhysTrack_GetNext (pt_mem s p) m) (release_tracked p) 0 s = Some s1"
        "draining V v k p s s1" "tracked (pt_mem s1 p) = {x \<in> tracked (pt_mem s p). x \<le> 0 \<or> x = INVALID_MPN}"
    by blast
  have inv1: "host_inv V s1" and own1: "own_pt s1 v k = Some p" and keep: "vm_mem s1 = vm_mem s" "physTracker s1 = physTracker s"
      "pt_live s1 = pt_live s" "\<forall>w \<in> V. \<forall>j. (w, j) \<noteq> (v, k) \<longrightarrow> held s1 w j = held s w j"
    using s1(2) by (simp_all add: draining_def)
  have wf1: "host_wf V s1" using inv1 by (simp add: host_inv_def)
  note o1 = own_pt_inv [OF wf1 v(1) own1]
  have "tracked (pt_mem s1 p) = {}" using s1(3) ends o(5) by auto
  then have e: "held s1 v k = {}" "tracked (pt_mem s1 p) = {}" using o1(5) by simp_all
  have ok1: "pt_ok (pt_mem s1 p)" using o1(1) by (simp add: pt_at_def)
  have "PhysTrack_Cleanup p s1 = Some (upd_pt p (\<lambda>t. t\<lparr>numVMs := 0\<rparr>) s1\<lparr>pt_live := pt_live s1 - {p}, physTracker := physTracker s1\<rparr>)"
    using PhysTrack_Cleanup_last [OF ok1 o1(2)] e(2) o1(3) by simp
  then have run: "drain_tracker p s = Some (upd_pt p (\<lambda>t. t\<lparr>numVMs := 0\<rparr>) s1\<lparr>pt_live := pt_live s1 - {p}, physTracker := physTracker s1\<rparr>)"
    by (simp add: drain_tracker_def s1(1))
  obtain h where h: "vm_vmhost (vm_mem s1 v) = Some h" using vmhost_of_own [OF own1] by blast
  let ?t = "upd_vmhost v (drop_field k) (upd_pt p (\<lambda>t. t\<lparr>numVMs := 0\<rparr>) s1\<lparr>pt_live := pt_live s1 - {p}, physTracker := physTracker s1\<rparr>)"
  note D = drop_own [OF inv1 v(1) own1 e(1) h]
  have held: "held ?t w j = (if w = v \<and> j = k then {} else held s w j)" if "w \<in> V" for w j
    using D(2) [of w j] that keep(4) e(1) by auto
  have same: "own_pt s1 v j = own_pt s v j" "physTracker_of s1 v = physTracker_of s v" for j
    by (cases j; simp add: keep(1) lockedPages_of_def AWEPages_of_def physTracker_of_def)+
  show ?thesis
  proof (intro exI conjI allI ballI impI)
    show "drain_tracker p s = Some (upd_pt p (\<lambda>t. t\<lparr>numVMs := 0\<rparr>) s1\<lparr>pt_live := pt_live s1 - {p}, physTracker := physTracker s1\<rparr>)"
      by (rule run)
    show "?t = ?t" by (rule refl)
    show "host_inv V ?t" by (rule D(1))
    show "held ?t w j = (if w = v \<and> j = k then {} else held s w j)" if "w \<in> V" for w j by (rule held [OF that])
    show "own_pt ?t v j = (if j = k then None else own_pt s v j)" for j by (simp only: D(3) same)
    show "physTracker_of ?t v = physTracker_of s v" by (simp only: D(4) same)
    show "vm_memtracker (vm_mem ?t v) = vm_memtracker (vm_mem s v)" using D(5) by (simp only: keep(1))
    show "vm_mem ?t w = vm_mem s w" if "w \<noteq> v" for w using D(6) [OF that] by (simp only: keep)
    show "pt_live ?t = pt_live s - {p}" using D(7) by (simp add: keep(3))
    show "vm_vmhost (vm_mem ?t v) \<noteq> None" by (rule D(8))
    show "physTracker ?t = physTracker s" using D(9) by (simp add: keep(2))
  qed
qed

text \<open>The callback on the entries of the memory tracker.\<close>

abbreviation nonzero :: "MemTrackEntry list \<Rightarrow> MPN list" where
  "nonzero es \<equiv> filter (\<lambda>m. m \<noteq> 0) (map me_mpn es)"

lemma run_UnlockEntry:
  "physTracker_of s v = Some P \<Longrightarrow> pt_ok (pt_mem s P) \<Longrightarrow> set (nonzero es) \<subseteq> tracked (pt_mem s P)
     \<Longrightarrow> \<forall>m \<in> set (nonzero es). 0 < page_refs s m \<Longrightarrow> distinct (nonzero es)
     \<Longrightarrow> \<exists>x. run_cb (UnlockEntry v) es s
        = Some (upd_pt P (\<lambda>_. x) s\<lparr>page_refs := \<lambda>m. page_refs s m - of_bool (m \<in> set (nonzero es))\<rparr>)
       \<and> pt_ok x \<and> tracked x = tracked (pt_mem s P) - set (nonzero es) \<and> numVMs x = numVMs (pt_mem s P)"
proof (induction es arbitrary: s)
  case Nil
  have "upd_pt P (\<lambda>_. pt_mem s P) s\<lparr>page_refs := page_refs s\<rparr> = s" by (simp add: upd_pt_def)
  then show ?case using Nil by (intro exI [of _ "pt_mem s P"]) simp
next
  case (Cons e es)
  show ?case
  proof (cases "me_mpn e = 0")
    case True
    then show ?thesis using Cons by (simp add: UnlockEntry_def)
  next
    case False
    let ?m = "me_mpn e"
    have m: "?m \<in> tracked (pt_mem s P)" "0 < page_refs s ?m" "?m \<notin> set (nonzero es)"
      using Cons.prems(3-5) False by auto
    obtain x where x: "PhysTrack_Remove ?m (pt_mem s P) = Some x"
      using PhysTrack_Remove_set(1) [OF Cons.prems(2), of ?m] m(1) by auto
    note R = PhysTrack_Remove_set(2) [OF Cons.prems(2) x]
    define s1 where "s1 = upd_pt P (\<lambda>_. x) s\<lparr>page_refs := (page_refs s)(?m := page_refs s ?m - 1)\<rparr>"
    have step: "UnlockEntry v e s = Some (e\<lparr>me_mpn := 0\<rparr>, s1)"
      using False m x Cons.prems(1)
      by (simp add: UnlockEntry_def HOST_ISTRACKED_PFN_def HOST_UNLOCK_PFN_def untrack_page_def put_page_def s1_def)
    have s1: "physTracker_of s1 v = Some P" "pt_mem s1 P = x" "page_refs s1 = (page_refs s)(?m := page_refs s ?m - 1)"
      using Cons.prems(1) by (simp_all add: s1_def)
    define N where "N = set (nonzero es)"
    have N: "N \<subseteq> tracked (pt_mem s P)" "\<forall>k \<in> N. 0 < page_refs s k" "?m \<notin> N"
    proof -
      have ne: "nonzero (e # es) = ?m # nonzero es" using False by simp
      show "N \<subseteq> tracked (pt_mem s P)" "\<forall>k \<in> N. 0 < page_refs s k" "?m \<notin> N"
        using Cons.prems(3,4) m(3) unfolding ne N_def by simp_all
    qed
    have "N \<subseteq> tracked (pt_mem s1 P)" using N(1,3) R by (auto simp: s1(2))
    moreover have "\<forall>k \<in> N. 0 < page_refs s1 k" using N(2,3) by (auto simp: s1(3))
    moreover have "distinct (nonzero es)" using Cons.prems(5) by (simp split: if_splits)
    ultimately obtain y where y: "run_cb (UnlockEntry v) es s1
          = Some (upd_pt P (\<lambda>_. y) s1\<lparr>page_refs := \<lambda>m. page_refs s1 m - of_bool (m \<in> set (nonzero es))\<rparr>)"
        "pt_ok y" "tracked y = tracked (pt_mem s1 P) - set (nonzero es)" "numVMs y = numVMs (pt_mem s1 P)"
      using Cons.IH [OF s1(1)] R unfolding s1(2) N_def by blast
    have "(\<lambda>k. page_refs s1 k - of_bool (k \<in> set (nonzero es))) = (\<lambda>k. page_refs s k - of_bool (k \<in> set (nonzero (e # es))))"
      using m(3) False by (auto simp: s1(3) fun_eq_iff)
    moreover have "upd_pt P (\<lambda>_. y) s1\<lparr>page_refs := g\<rparr> = upd_pt P (\<lambda>_. y) s\<lparr>page_refs := g\<rparr>" for g
      by (simp add: s1_def upd_pt_def)
    ultimately have "run_cb (UnlockEntry v) (e # es) s
        = Some (upd_pt P (\<lambda>_. y) s\<lparr>page_refs := \<lambda>k. page_refs s k - of_bool (k \<in> set (nonzero (e # es)))\<rparr>)"
      using y(1) by (simp only: run_cb.simps step option.case prod.case)
    then show ?thesis using y(2-4) R False by (intro exI [of _ y]) (auto simp: s1(2))
  qed
qed

lemma run_UnlockEntry_none:
  "nonzero es = [] \<Longrightarrow> run_cb (UnlockEntry v) es s = Some s"
  by (induction es) (auto simp: UnlockEntry_def split: if_splits)


lemma holders_remove:
  assumes "\<And>k. held s v k = (if k = Pinned then S else {})" "v \<in> V"
    "\<And>w k. w \<in> V \<Longrightarrow> w \<noteq> v \<Longrightarrow> held t w k = held s w k" "finite V"
  shows "card (holders (V - {v}) t m) = card (holders V s m) - of_bool (m \<in> S)"
    "m \<in> S \<Longrightarrow> 0 < card (holders V s m)"
proof -
  have "x \<in> holders (V - {v}) t m \<longleftrightarrow> x \<in> holders V s m - {(v, Pinned)}" for x
  proof (cases x)
    case (Pair w k)
    show ?thesis
    proof (cases "w = v")
      case True
      then show ?thesis using assms(1) [of k] by (cases k) (simp_all add: Pair holders_iff)
    next
      case False
      then show ?thesis using assms(3) [of w k] by (cases "w \<in> V") (simp_all add: Pair holders_iff)
    qed
  qed
  then have "holders (V - {v}) t m = holders V s m - {(v, Pinned)}" by (rule set_eqI)
  moreover have "(v, Pinned) \<in> holders V s m \<longleftrightarrow> m \<in> S" using assms(1) [of Pinned] assms(2) by (simp add: holders_iff)
  ultimately show "card (holders (V - {v}) t m) = card (holders V s m) - of_bool (m \<in> S)"
    and "m \<in> S \<Longrightarrow> 0 < card (holders V s m)"
    using finite_holders [OF assms(4), of s m] by (auto simp: card_gt_0_iff)
qed

lemma others_left:
  assumes "finite U" "v \<in> U" "U \<noteq> {v}"
  shows "(\<exists>w \<in> U. w \<noteq> v) \<and> card U \<noteq> 1 \<and> card (U - {v}) = card U - 1 \<and> 0 < card (U - {v})"
proof -
  obtain w where w: "w \<in> U" "w \<noteq> v" using assms(2,3) by blast
  moreover have "card U \<noteq> 1" using w assms(2) by (metis card_1_singletonE singletonD)
  moreover have "0 < card (U - {v})" using w assms(1) by (auto simp: card_gt_0_iff)
  ultimately show ?thesis using assms(1,2) by auto
qed

text \<open>The machine's host part is dropped, and it leaves the users of the shared tracker.\<close>

lemma host_wf_leave:
  assumes wf: "host_wf V s" and own: "\<And>k. own_pt s v k = None"
    and vm: "\<And>w. w \<noteq> v \<Longrightarrow> vm_mem t w = vm_mem s w"
    and pm: "\<And>q. physTracker s \<noteq> Some q \<Longrightarrow> pt_mem t q = pt_mem s q \<and> (q \<in> pt_live s \<longrightarrow> q \<in> pt_live t)"
    and sh: "physTracker t = None \<and> (\<forall>w \<in> V - {v}. physTracker_of s w = None)
      \<or> physTracker t = physTracker s \<and> (\<forall>P. physTracker s = Some P \<longrightarrow> pt_at t P
          \<and> tracked (pt_mem t P) = (\<Union>w \<in> V - {v}. held s w Pinned)
          \<and> numVMs (pt_mem t P) = int (card {w \<in> V - {v}. physTracker_of s w \<noteq> None}) \<and> 0 < numVMs (pt_mem t P))"
  shows "host_wf (V - {v}) t" "\<forall>w \<in> V - {v}. \<forall>k. held t w k = held s w k"
proof -
  have w4: "\<forall>v \<in> V. \<forall>k p. own_pt s v k = Some p \<longrightarrow> pt_at s p \<and> numVMs (pt_mem s p) = 1 \<and> physTracker s \<noteq> Some p
        \<and> (\<forall>w \<in> V. \<forall>j. own_pt s w j = Some p \<longrightarrow> w = v \<and> j = k)"
    using wf unfolding host_wf_def by (elim conjE) assumption
  have w2: "\<forall>v \<in> V. \<forall>mt. vm_memtracker (vm_mem s v) = Some mt \<longrightarrow> mt_unique mt"
    using wf unfolding host_wf_def by (elim conjE) assumption
  have ow: "own_pt t w k = own_pt s w k" "physTracker_of t w = physTracker_of s w" if "w \<in> V - {v}" for w k
    using vm that by (cases k; simp add: lockedPages_of_def AWEPages_of_def physTracker_of_def)+
  have held: "held t w k = held s w k" if w: "w \<in> V - {v}" for w k
  proof (cases "own_pt s w k")
    case None
    then show ?thesis using vm w ow [OF w] by (simp add: held_def pages_at_def)
  next
    case (Some q)
    then have "physTracker s \<noteq> Some q" using w4 w by blast
    then show ?thesis using pm [of q] vm w ow [OF w] Some by (simp add: held_def pages_at_def)
  qed
  then show "\<forall>w \<in> V - {v}. \<forall>k. held t w k = held s w k" by blast
  have u: "(\<Union>w \<in> V - {v}. held t w Pinned) = (\<Union>w \<in> V - {v}. held s w Pinned)" using held by simp
  have c: "{w \<in> V - {v}. physTracker_of t w \<noteq> None} = {w \<in> V - {v}. physTracker_of s w \<noteq> None}" using ow by auto
  show "host_wf (V - {v}) t" unfolding host_wf_def u c
  proof (intro conjI)
    show "finite (V - {v})" using wf by (simp add: host_wf_def)
    show "\<forall>w \<in> V - {v}. \<forall>mt. vm_memtracker (vm_mem t w) = Some mt \<longrightarrow> mt_unique mt"
      using w2 by (auto simp: vm)
    show "\<forall>w \<in> V - {v}. \<forall>x \<in> V - {v}. w \<noteq> x \<longrightarrow> held t w Pinned \<inter> held t x Pinned = {}"
      using host_wf_disjoint [OF wf] held by simp
    show "\<forall>w \<in> V - {v}. \<forall>k q. own_pt t w k = Some q \<longrightarrow> pt_at t q \<and> numVMs (pt_mem t q) = 1 \<and> physTracker t \<noteq> Some q
        \<and> (\<forall>x \<in> V - {v}. \<forall>j. own_pt t x j = Some q \<longrightarrow> x = w \<and> j = k)"
    proof (intro ballI allI impI)
      fix w k q assume w: "w \<in> V - {v}" "own_pt t w k = Some q"
      then have q: "own_pt s w k = Some q" using ow by simp
      have a: "pt_at s q" "numVMs (pt_mem s q) = 1" "physTracker s \<noteq> Some q"
        "\<forall>x \<in> V. \<forall>j. own_pt s x j = Some q \<longrightarrow> x = w \<and> j = k" using w4 w(1) q by blast+
      have "pt_at t q" "numVMs (pt_mem t q) = 1" using a(1,2) pm [OF a(3)] by (simp_all add: pt_at_def)
      moreover have "physTracker t \<noteq> Some q" using sh a(3) by auto
      moreover have "x = w \<and> j = k" if "x \<in> V - {v}" "own_pt t x j = Some q" for x j
        using a(4) that(1) that(2) [unfolded ow(1) [OF that(1)]] by blast
      ultimately show "pt_at t q \<and> numVMs (pt_mem t q) = 1 \<and> physTracker t \<noteq> Some q
        \<and> (\<forall>x \<in> V - {v}. \<forall>j. own_pt t x j = Some q \<longrightarrow> x = w \<and> j = k)" by blast
    qed
    show "\<forall>w \<in> V - {v}. (physTracker_of t w \<noteq> None \<longrightarrow> physTracker_of t w = physTracker t)
        \<and> (held t w Pinned \<noteq> {} \<longrightarrow> physTracker_of t w \<noteq> None)"
    proof
      fix w assume w: "w \<in> V - {v}"
      have "physTracker_of s w \<noteq> None \<longrightarrow> physTracker_of s w = physTracker s"
        "held s w Pinned \<noteq> {} \<longrightarrow> physTracker_of s w \<noteq> None" using wf w by (simp_all add: host_wf_def)
      then show "(physTracker_of t w \<noteq> None \<longrightarrow> physTracker_of t w = physTracker t)
        \<and> (held t w Pinned \<noteq> {} \<longrightarrow> physTracker_of t w \<noteq> None)"
        using sh w unfolding ow(2) [OF w] held [OF w] by auto
    qed
    show "\<forall>p. physTracker t = Some p \<longrightarrow> pt_at t p \<and> tracked (pt_mem t p) = (\<Union>w \<in> V - {v}. held s w Pinned)
        \<and> numVMs (pt_mem t p) = int (card {w \<in> V - {v}. physTracker_of s w \<noteq> None}) \<and> 0 < numVMs (pt_mem t p)"
      using sh by auto
  qed
qed

text \<open>The pages of the memory tracker are given back.\<close>

lemma unpin_all:
  assumes inv: "host_inv V s" and v: "v \<in> V" and own: "\<And>k. own_pt s v k = None"
  defines "S \<equiv> held s v Pinned"
    and "r \<equiv> (case vm_memtracker (vm_mem s v) of None \<Rightarrow> Some s
        | Some mt \<Rightarrow> map_option (\<lambda>(_, _, s2). upd_vm v (\<lambda>vm. vm\<lparr>vm_memtracker := None\<rparr>) s2) (MemTrack_Cleanup mt (UnlockEntry v) s))"
  shows "\<exists>s2 base. r = Some s2 \<and> vm_mem s2 = (vm_mem s)(v := (vm_mem s v)\<lparr>vm_memtracker := None\<rparr>)
    \<and> pt_live s2 = pt_live s \<and> physTracker s2 = physTracker s \<and> page_refs s2 = (\<lambda>m. page_refs s m - of_bool (m \<in> S))
    \<and> pt_mem s2 = (case physTracker s of None \<Rightarrow> pt_mem s | Some P \<Rightarrow> (pt_mem s)(P := base))
    \<and> (\<forall>P. physTracker s = Some P \<longrightarrow> pt_ok base \<and> tracked base = (\<Union>w \<in> V - {v}. held s w Pinned)
          \<and> numVMs base = int (card {v \<in> V. physTracker_of s v \<noteq> None}))"
proof -
  have wf: "host_wf V s" using inv by (simp add: host_inv_def)
  have fin: "finite V" using wf by (simp add: host_wf_def)
  note w5 = host_wf_users [OF wf] and w6 = host_wf_shared [OF wf]
  have hv: "held s v k = (if k = Pinned then S else {})" for k
    using own [of k] by (cases k) (simp_all add: S_def held_def pages_at_def)
  have refs: "m \<in> S \<Longrightarrow> 0 < page_refs s m" for m
    using inv holders_remove(2) [OF hv v _ fin, of s m] by (simp add: host_inv_def)
  show ?thesis
  proof (cases "S = {}")
    case True
    have "r = Some (upd_vm v (\<lambda>vm. vm\<lparr>vm_memtracker := None\<rparr>) s)"
    proof (cases "vm_memtracker (vm_mem s v)")
      case None
      have "upd_vm v (\<lambda>vm. vm\<lparr>vm_memtracker := None\<rparr>) s = s"
        using None by (cases "vm_mem s v") (auto simp: upd_vm_def fun_eq_iff intro!: host_state.equality)
      then show ?thesis using None by (simp add: r_def)
    next
      case (Some mt)
      then have ok: "mt_ok mt" using wf v by (auto simp: host_wf_def mt_unique_def)
      have "nonzero (map (entry (mt_dir1 mt)) [0 ..< unat (numPages mt)]) = []"
        using True Some by (auto simp: S_def held_def pinned_in_def mt_pairs_def filter_empty_conv image_iff)
      then show ?thesis using Some by (simp add: r_def MemTrack_Cleanup_run [OF ok] run_UnlockEntry_none)
    qed
    moreover have "(\<Union>w \<in> V. held s w Pinned) = (\<Union>w \<in> V - {v}. held s w Pinned)"
      using True by (auto simp: S_def)
    moreover have "pt_mem s = (case physTracker s of None \<Rightarrow> pt_mem s | Some P \<Rightarrow> (pt_mem s)(P := pt_mem s (the (physTracker s))))"
      by (simp split: option.split)
    moreover have "pt_ok (pt_mem s (the (physTracker s))) \<and> tracked (pt_mem s (the (physTracker s))) = (\<Union>w \<in> V. held s w Pinned)
          \<and> numVMs (pt_mem s (the (physTracker s))) = int (card {v \<in> V. physTracker_of s v \<noteq> None})"
        if "physTracker s = Some P" for P
      using w6 [rule_format, OF that] that by (simp add: pt_at_def)
    moreover have "(\<lambda>m. page_refs s m - of_bool (m \<in> S)) = page_refs s" using True by simp
    ultimately show ?thesis
      by (intro exI [of _ "upd_vm v (\<lambda>vm. vm\<lparr>vm_memtracker := None\<rparr>) s"] exI [of _ "pt_mem s (the (physTracker s))"])
         (simp add: upd_vm_def)
  next
    case False
    then obtain P where P: "physTracker_of s v = Some P" using w5 v by (auto simp: S_def)
    note ph = phys_tracked [OF wf v P]
    obtain mt where mt: "vm_memtracker (vm_mem s v) = Some mt"
      using False by (cases "vm_memtracker (vm_mem s v)") (simp_all add: S_def held_def pinned_in_def)
    have u: "mt_unique mt" using wf v mt by (simp add: host_wf_def)
    then have ok: "mt_ok mt" by (simp add: mt_unique_def)
    let ?es = "map (entry (mt_dir1 mt)) [0 ..< unat (numPages mt)]"
    have mp: "map me_mpn ?es = map snd (mt_pairs mt)" by (simp add: mt_pairs_def comp_def)
    have nz: "set (nonzero ?es) = S" "distinct (nonzero ?es)"
      using u unfolding mp by (auto simp: S_def held_def mt pinned_in_def mt_unique_def)
    have sub: "set (nonzero ?es) \<subseteq> tracked (pt_mem s P)"
      unfolding nz(1) using ph(4) v by (auto simp: S_def)
    have pos: "\<forall>m \<in> set (nonzero ?es). 0 < page_refs s m" unfolding nz(1) using refs by blast
    obtain x where x: "run_cb (UnlockEntry v) ?es s
          = Some (upd_pt P (\<lambda>_. x) s\<lparr>page_refs := \<lambda>m. page_refs s m - of_bool (m \<in> set (nonzero ?es))\<rparr>)"
        "pt_ok x" "tracked x = tracked (pt_mem s P) - set (nonzero ?es)" "numVMs x = numVMs (pt_mem s P)"
      using run_UnlockEntry [OF P ph(3) sub pos nz(2)] by blast
    have run: "r = Some (upd_vm v (\<lambda>vm. vm\<lparr>vm_memtracker := None\<rparr>)
        (upd_pt P (\<lambda>_. x) s\<lparr>page_refs := \<lambda>m. page_refs s m - of_bool (m \<in> set (nonzero ?es))\<rparr>))"
      unfolding r_def mt option.case MemTrack_Cleanup_run [OF ok] x(1) by simp
    have "tracked x = (\<Union>w \<in> V - {v}. held s w Pinned)"
    proof -
      have "S \<inter> held s w Pinned = {}" if "w \<in> V" "w \<noteq> v" for w
        using host_wf_disjoint [OF wf v that(1)] that(2) by (auto simp: S_def)
      then show ?thesis unfolding x(3) nz(1) ph(4) using v by (auto simp: S_def)
    qed
    moreover have "numVMs x = int (card {v \<in> V. physTracker_of s v \<noteq> None})"
      using w6 [rule_format, OF ph(1)] x(4) by simp
    ultimately show ?thesis using x(2) ph(1) unfolding run [unfolded nz(1)]
      by (intro exI [of _ x] exI conjI) (rule refl | simp add: fun_eq_iff)+
  qed
qed

text \<open>The last part of the teardown: the memory tracker, the shared tracker, the host part.\<close>

lemma free_pinned:
  assumes inv: "host_inv V s" and v: "v \<in> V" and own: "\<And>k. own_pt s v k = None" and vh: "vm_vmhost (vm_mem s v) \<noteq> None"
  defines "r \<equiv> (case vm_memtracker (vm_mem s v) of None \<Rightarrow> Some s
        | Some mt \<Rightarrow> map_option (\<lambda>(_, _, s2). upd_vm v (\<lambda>vm. vm\<lparr>vm_memtracker := None\<rparr>) s2) (MemTrack_Cleanup mt (UnlockEntry v) s))"
  shows "\<exists>s2 t. r = Some s2 \<and> vm_vmhost (vm_mem s2 v) \<noteq> None \<and> physTracker_of s2 v = physTracker_of s v
    \<and> map_option (upd_vm v (\<lambda>vm. vm\<lparr>vm_vmhost := None\<rparr>))
       (case physTracker_of s2 v of None \<Rightarrow> Some s2
        | Some p \<Rightarrow> map_option (upd_vmhost v (\<lambda>h. h\<lparr>vh_physTracker := None\<rparr>)) (PhysTrack_Cleanup p s2)) = Some t
    \<and> host_inv (V - {v}) t \<and> (\<forall>w \<in> V - {v}. \<forall>k. held t w k = held s w k) \<and> blank_vm (vm_mem t v)
    \<and> (\<forall>w. w \<noteq> v \<longrightarrow> vm_mem t w = vm_mem s w)
    \<and> (if physTracker_of s v \<noteq> None \<and> (\<forall>w \<in> V - {v}. physTracker_of s w = None)
       then physTracker t = None \<and> pt_live t = pt_live s - set_option (physTracker s)
       else physTracker t = physTracker s \<and> pt_live t = pt_live s)"
proof -
  have wf: "host_wf V s" using inv by (simp add: host_inv_def)
  have fin: "finite V" using wf by (simp add: host_wf_def)
  define S where "S = held s v Pinned"
  have hv: "held s v k = (if k = Pinned then S else {})" for k
    using own [of k] by (cases k) (simp_all add: S_def held_def pages_at_def)
  note w5 = host_wf_users [OF wf] and w6 = host_wf_shared [OF wf]
  obtain s2 base where s2: "r = Some s2" "vm_mem s2 = (vm_mem s)(v := (vm_mem s v)\<lparr>vm_memtracker := None\<rparr>)"
      "pt_live s2 = pt_live s" "physTracker s2 = physTracker s" "page_refs s2 = (\<lambda>m. page_refs s m - of_bool (m \<in> S))"
      "pt_mem s2 = (case physTracker s of None \<Rightarrow> pt_mem s | Some P \<Rightarrow> (pt_mem s)(P := base))"
      "\<forall>P. physTracker s = Some P \<longrightarrow> pt_ok base \<and> tracked base = (\<Union>w \<in> V - {v}. held s w Pinned)
          \<and> numVMs base = int (card {v \<in> V. physTracker_of s v \<noteq> None})"
    using unpin_all [OF inv v own] unfolding r_def S_def by blast
  have vh2: "vm_vmhost (vm_mem s2 v) = vm_vmhost (vm_mem s v)" by (simp add: s2(2))
  have ph2: "physTracker_of s2 w = physTracker_of s w" for w by (simp add: physTracker_of_def s2(2))
  obtain h where h: "vm_vmhost (vm_mem s2 v) = Some h" using vh vh2 by auto
  have held2: "(\<lambda>m. page_refs s m - of_bool (m \<in> S)) m = card (holders (V - {v}) t m)"
    if "\<forall>w \<in> V - {v}. \<forall>k. held t w k = held s w k" for t m
    using inv holders_remove(1) [OF hv v _ fin, of t m] that by (simp add: host_inv_def)
  have others: "(\<Union>w \<in> V - {v}. held s w Pinned) = {}" if "\<forall>w \<in> V - {v}. physTracker_of s w = None"
    using w5 that by auto
  show ?thesis
  proof (cases "physTracker_of s v")
    case None
    let ?t = "upd_vm v (\<lambda>vm. vm\<lparr>vm_vmhost := None\<rparr>) s2"
    have c: "{w \<in> V. physTracker_of s w \<noteq> None} = {w \<in> V - {v}. physTracker_of s w \<noteq> None}" using None by auto
    have sh: "pt_at s2 P \<and> tracked (pt_mem s2 P) = (\<Union>w \<in> V - {v}. held s w Pinned)
          \<and> numVMs (pt_mem s2 P) = int (card {w \<in> V - {v}. physTracker_of s w \<noteq> None}) \<and> 0 < numVMs (pt_mem s2 P)"
      if "physTracker s = Some P" for P
      using w6 [rule_format, OF that] s2(7) [rule_format, OF that] unfolding c pt_at_def
      by (simp add: s2(3,6) that del: not_None_eq)
    have wf': "host_wf (V - {v}) ?t" "\<forall>w \<in> V - {v}. \<forall>k. held ?t w k = held s w k"
      using sh by (rule_tac host_wf_leave [OF wf own]; simp add: s2(2,3,4,6) pt_at_def split: option.split)+
    have "host_inv (V - {v}) ?t" using wf' held2 [OF wf'(2)] by (simp add: host_inv_def s2(5))
    then show ?thesis using wf'(2) None s2(1) vh vh2
      by (intro exI [of _ s2] exI [of _ ?t]) (simp add: ph2 blank_vm_def s2(2,3,4))
  next
    case (Some P)
    have P: "physTracker s = Some P" using w5 v Some by simp
    let ?U = "{w \<in> V. physTracker_of s w \<noteq> None}"
    have U: "finite ?U" "v \<in> ?U" using fin v Some by simp_all
    have c: "{w \<in> V - {v}. physTracker_of s w \<noteq> None} = ?U - {v}" by auto
    have b: "pt_ok base" "tracked base = (\<Union>w \<in> V - {v}. held s w Pinned)" "numVMs base = int (card ?U)"
      "pt_mem s2 P = base" using s2(6,7) P by auto
    have live: "P \<in> pt_live s" using w6 P by (simp add: pt_at_def)
    show ?thesis
    proof (cases "?U = {v}")
      case True
      then have none: "\<forall>w \<in> V - {v}. physTracker_of s w = None" by auto
      have one: "card ?U = 1" by (subst True) simp
      have C: "PhysTrack_Cleanup P s2 = Some (upd_pt P (\<lambda>t. t\<lparr>numVMs := 0\<rparr>) s2\<lparr>pt_live := pt_live s2 - {P}, physTracker := None\<rparr>)"
        using PhysTrack_Cleanup_last [of s2 P] b one others [OF none] by (simp add: s2(4) P)
      let ?t = "upd_vm v (\<lambda>vm. vm\<lparr>vm_vmhost := None\<rparr>) (upd_vmhost v (\<lambda>h. h\<lparr>vh_physTracker := None\<rparr>)
          (upd_pt P (\<lambda>t. t\<lparr>numVMs := 0\<rparr>) s2\<lparr>pt_live := pt_live s2 - {P}, physTracker := None\<rparr>))"
      have wf': "host_wf (V - {v}) ?t" "\<forall>w \<in> V - {v}. \<forall>k. held ?t w k = held s w k"
        using none P by (rule_tac host_wf_leave [OF wf own]; simp add: s2(2,3,4,6) upd_vmhost_def)+
      have "host_inv (V - {v}) ?t" using wf' held2 [OF wf'(2)] by (simp add: host_inv_def s2(5) upd_vmhost_def)
      then show ?thesis using wf'(2) Some none s2(1) vh vh2 C P
        by (intro exI [of _ s2] exI [of _ ?t]) (simp add: ph2 blank_vm_def s2(2,3,4) upd_vmhost_def)
    next
      case False
      then have more: "\<not> (\<forall>w \<in> V - {v}. physTracker_of s w = None)" "card ?U \<noteq> 1" "card (?U - {v}) = card ?U - 1" "0 < card (?U - {v})"
        using others_left [OF U False] by auto
      have e: "(\<forall>w \<in> V - {v}. physTracker_of s w = None) = False" using more(1) by blast
      have C: "PhysTrack_Cleanup P s2 = Some (upd_pt P (\<lambda>t. t\<lparr>numVMs := numVMs t - 1\<rparr>) s2)"
        using PhysTrack_Cleanup_shared [of s2 P] b more(2) by simp
      let ?t = "upd_vm v (\<lambda>vm. vm\<lparr>vm_vmhost := None\<rparr>) (upd_vmhost v (\<lambda>h. h\<lparr>vh_physTracker := None\<rparr>)
          (upd_pt P (\<lambda>t. t\<lparr>numVMs := numVMs t - 1\<rparr>) s2))"
      have n: "numVMs base - 1 = int (card (?U - {v}))" using b(3) more(3,4) by simp
      have ok: "pt_ok (base\<lparr>numVMs := n\<rparr>)" "tracked (base\<lparr>numVMs := n\<rparr>) = tracked base" for n
        using b(1) by (simp_all add: pt_ok_def tracked_def)
      have sh: "physTracker ?t = physTracker s \<and> (\<forall>P. physTracker s = Some P \<longrightarrow> pt_at ?t P
          \<and> tracked (pt_mem ?t P) = (\<Union>w \<in> V - {v}. held s w Pinned)
          \<and> numVMs (pt_mem ?t P) = int (card {w \<in> V - {v}. physTracker_of s w \<noteq> None}) \<and> 0 < numVMs (pt_mem ?t P))"
        unfolding c using P more(4) b n live ok
        by (simp add: s2(3,4) upd_vmhost_def pt_at_def del: not_None_eq)
      have wf': "host_wf (V - {v}) ?t" "\<forall>w \<in> V - {v}. \<forall>k. held ?t w k = held s w k"
        using P by (rule_tac host_wf_leave [OF wf own _ _ disjI2 [OF sh]]; simp add: s2(2,3,4,6) upd_vmhost_def)+
      have "host_inv (V - {v}) ?t" using wf' held2 [OF wf'(2)] by (simp add: host_inv_def s2(5) upd_vmhost_def)
      then show ?thesis using wf'(2) Some s2(1) vh vh2 C
        by (intro exI [of _ s2] exI [of _ ?t]) (simp add: ph2 blank_vm_def s2(2,3,4) upd_vmhost_def e)
    qed
  qed
qed

lemma drop_field_simps:
  "drop_field Locked = (\<lambda>h. h\<lparr>vh_lockedPages := None\<rparr>)" "drop_field AWE = (\<lambda>h. h\<lparr>vh_AWEPages := None\<rparr>)"
  by (simp_all add: drop_field_def fun_eq_iff)

lemma drain_step:
  assumes inv: "host_inv V s" and v: "v \<in> V" and k: "k \<noteq> Pinned" and h: "vm_vmhost (vm_mem s v) \<noteq> None"
    and ends: "0 \<notin> held s v k" "INVALID_MPN \<notin> held s v k"
  shows "\<exists>t. (case own_pt s v k of None \<Rightarrow> Some s | Some p \<Rightarrow> map_option (upd_vmhost v (drop_field k)) (drain_tracker p s)) = Some t
    \<and> host_inv V t \<and> (\<forall>w \<in> V. \<forall>j. held t w j = (if w = v \<and> j = k then {} else held s w j))
    \<and> (\<forall>j. own_pt t v j = (if j = k then None else own_pt s v j)) \<and> physTracker_of t v = physTracker_of s v
    \<and> (\<forall>w. w \<noteq> v \<longrightarrow> vm_mem t w = vm_mem s w) \<and> pt_live t = pt_live s - set_option (own_pt s v k)
    \<and> vm_vmhost (vm_mem t v) \<noteq> None \<and> physTracker t = physTracker s"
proof (cases "own_pt s v k")
  case None
  then have "held s v k = {}" using k by (simp add: held_def pages_at_def)
  then show ?thesis using None inv h by (intro exI [of _ s]) auto
next
  case (Some p)
  show ?thesis using drain_own [OF inv v Some ends]
  proof (elim exE conjE, goal_cases)
    case (1 t u)
    then show ?case using Some by (intro exI [of _ t]) simp
  qed
qed

lemma HostMemCleanup_run:
  assumes inv: "host_inv V s" and v: "v \<in> V" and h: "vm_vmhost (vm_mem s v) \<noteq> None"
    and ends: "0 \<notin> held s v Locked \<union> held s v AWE" "INVALID_MPN \<notin> held s v Locked \<union> held s v AWE"
  shows "\<exists>t. HostIFHostMemCleanup v s = Some t \<and> host_inv V t \<and> vm_vmhost (vm_mem t v) \<noteq> None
    \<and> (\<forall>w \<in> V. w \<noteq> v \<longrightarrow> (\<forall>k. held t w k = held s w k)) \<and> (\<forall>k. own_pt t v k = None)
    \<and> physTracker_of t v = physTracker_of s v \<and> physTracker t = physTracker s
    \<and> (\<forall>w. w \<noteq> v \<longrightarrow> vm_mem t w = vm_mem s w)
    \<and> pt_live t = pt_live s - set_option (lockedPages_of s v) - set_option (AWEPages_of s v)"
proof -
  have e: "0 \<notin> held s v Locked" "INVALID_MPN \<notin> held s v Locked" using ends by simp_all
  obtain t where t: "(case own_pt s v Locked of None \<Rightarrow> Some s
        | Some p \<Rightarrow> map_option (upd_vmhost v (drop_field Locked)) (drain_tracker p s)) = Some t" "host_inv V t"
      "\<forall>w \<in> V. \<forall>j. held t w j = (if w = v \<and> j = Locked then {} else held s w j)"
      "\<forall>j. own_pt t v j = (if j = Locked then None else own_pt s v j)" "physTracker_of t v = physTracker_of s v"
      "\<forall>w. w \<noteq> v \<longrightarrow> vm_mem t w = vm_mem s w" "pt_live t = pt_live s - set_option (own_pt s v Locked)"
      "vm_vmhost (vm_mem t v) \<noteq> None" "physTracker t = physTracker s"
    using drain_step [OF inv v hold.distinct(2) h e] by blast
  have e2: "0 \<notin> held t v AWE" "INVALID_MPN \<notin> held t v AWE" using ends t(3) v by simp_all
  obtain u where u: "(case own_pt t v AWE of None \<Rightarrow> Some t
        | Some p \<Rightarrow> map_option (upd_vmhost v (drop_field AWE)) (drain_tracker p t)) = Some u" "host_inv V u"
      "\<forall>w \<in> V. \<forall>j. held u w j = (if w = v \<and> j = AWE then {} else held t w j)"
      "\<forall>j. own_pt u v j = (if j = AWE then None else own_pt t v j)" "physTracker_of u v = physTracker_of t v"
      "\<forall>w. w \<noteq> v \<longrightarrow> vm_mem u w = vm_mem t w" "pt_live u = pt_live t - set_option (own_pt t v AWE)"
      "vm_vmhost (vm_mem u v) \<noteq> None" "physTracker u = physTracker t"
    using drain_step [OF t(2) v hold.distinct(4) t(8) e2] by blast
  have run: "HostIFHostMemCleanup v s = Some u"
    using h by (simp only: HostIFHostMemCleanup_def t(1) [unfolded own_pt.simps drop_field_simps]
        u(1) [unfolded own_pt.simps drop_field_simps] if_False bind.simps)
  have none: "own_pt u v k = None" for k using t(4) [rule_format, of k] u(4) [rule_format, of k] by (cases k) simp_all
  have a: "own_pt t v AWE = own_pt s v AWE" by (subst t(4) [rule_format, of AWE]) simp
  show ?thesis using run u(2,8) none t(3,5,6,7,9) u(3,5,6,7,9) a v by (intro exI [of _ u]) simp
qed

lemma FreeAllResources_run:
  assumes inv: "host_inv V s" and v: "v \<in> V" and h: "vm_vmhost (vm_mem s v) \<noteq> None"
    and ends: "0 \<notin> held s v Locked \<union> held s v AWE" "INVALID_MPN \<notin> held s v Locked \<union> held s v AWE"
  shows "\<exists>t. HostIF_FreeAllResources v s = Some t \<and> host_inv (V - {v}) t \<and> blank_vm (vm_mem t v)
    \<and> (\<forall>w. w \<noteq> v \<longrightarrow> vm_mem t w = vm_mem s w) \<and> (\<forall>w \<in> V - {v}. \<forall>k. held t w k = held s w k)
    \<and> pt_live t = pt_live s - set_option (lockedPages_of s v) - set_option (AWEPages_of s v)
        - (if physTracker_of s v \<noteq> None \<and> (\<forall>w \<in> V - {v}. physTracker_of s w = None) then set_option (physTracker s) else {})"
proof -
  obtain s1 where s1: "HostIFHostMemCleanup v s = Some s1" "host_inv V s1" "vm_vmhost (vm_mem s1 v) \<noteq> None"
      "\<forall>w \<in> V. w \<noteq> v \<longrightarrow> (\<forall>k. held s1 w k = held s w k)" "\<forall>k. own_pt s1 v k = None"
      "physTracker_of s1 v = physTracker_of s v" "physTracker s1 = physTracker s" "\<forall>w. w \<noteq> v \<longrightarrow> vm_mem s1 w = vm_mem s w"
      "pt_live s1 = pt_live s - set_option (lockedPages_of s v) - set_option (AWEPages_of s v)"
    using HostMemCleanup_run [OF inv v h ends] by blast
  have pt: "physTracker_of s1 w = physTracker_of s w" if "w \<noteq> v" for w
    using s1(8) that by (simp add: physTracker_of_def)
  then have all: "(\<forall>w \<in> V - {v}. physTracker_of s1 w = None) \<longleftrightarrow> (\<forall>w \<in> V - {v}. physTracker_of s w = None)" by simp
  from free_pinned [OF s1(2) v s1(5) [rule_format] s1(3)] obtain s2 t where
      t: "(case vm_memtracker (vm_mem s1 v) of None \<Rightarrow> Some s1
        | Some mt \<Rightarrow> map_option (\<lambda>(_, _, s2). upd_vm v (\<lambda>vm. vm\<lparr>vm_memtracker := None\<rparr>) s2) (MemTrack_Cleanup mt (UnlockEntry v) s1)) = Some s2"
      "vm_vmhost (vm_mem s2 v) \<noteq> None"
      "map_option (upd_vm v (\<lambda>vm. vm\<lparr>vm_vmhost := None\<rparr>))
       (case physTracker_of s2 v of None \<Rightarrow> Some s2
        | Some p \<Rightarrow> map_option (upd_vmhost v (\<lambda>h. h\<lparr>vh_physTracker := None\<rparr>)) (PhysTrack_Cleanup p s2)) = Some t"
      "host_inv (V - {v}) t" "\<forall>w \<in> V - {v}. \<forall>k. held t w k = held s1 w k" "blank_vm (vm_mem t v)"
      "\<forall>w. w \<noteq> v \<longrightarrow> vm_mem t w = vm_mem s1 w"
      "if physTracker_of s1 v \<noteq> None \<and> (\<forall>w \<in> V - {v}. physTracker_of s1 w = None)
       then physTracker t = None \<and> pt_live t = pt_live s1 - set_option (physTracker s1)
       else physTracker t = physTracker s1 \<and> pt_live t = pt_live s1"
    by blast
  have run: "HostIF_FreeAllResources v s = Some t"
    using t(2,3) by (simp only: HostIF_FreeAllResources_def s1(1) t(1) bind.simps if_False)
  have live: "pt_live t = pt_live s - set_option (lockedPages_of s v) - set_option (AWEPages_of s v)
        - (if physTracker_of s v \<noteq> None \<and> (\<forall>w \<in> V - {v}. physTracker_of s w = None) then set_option (physTracker s) else {})"
    using t(8) unfolding all s1(6,7) s1(9) [symmetric] by (simp split: if_splits)
  show ?thesis using run t(4,5,6,7) s1(4,8) live by (intro exI [of _ t]) simp
qed

text \<open>The driver before the first machine, and a machine in it.\<close>

definition no_machines :: host_state where
  "no_machines = \<lparr>physTracker = None, pt_mem = \<lambda>_. zero_tracker, pt_live = {}, vm_mem = \<lambda>_. zero_VMDriver, page_refs = \<lambda>_. 0\<rparr>"

lemma no_machines_inv: "host_inv {} no_machines"
  by (simp add: host_inv_def host_wf_def no_machines_def holders_def)

lemma one_machine:
  obtains mt and s :: host_state where "MemTrack_Init True (\<lambda>_. True) = Some mt" "unat (numPages mt) = 0"
    "HostIF_Init (MemTrack_Init True (\<lambda>_. True)) True (Some 11) (Some 12) (Some 13) 1 no_machines = (True, s)"
    "host_inv {1} s" "\<forall>k. held s 1 k = {}" "vm_memtracker (vm_mem s 1) = Some mt" "physTracker_of s 1 \<noteq> None"
    "lockedPages_of s 1 = Some 12" "AWEPages_of s 1 = Some 13"
proof -
  obtain mt where i: "MemTrack_Init True (\<lambda>_. True) = Some mt" by (simp add: MemTrack_Init_def list_all_iff)
  note I = MemTrack_Init_ok [OF i]
  have b: "blank_vm (vm_mem no_machines 1)" by (simp add: blank_vm_def no_machines_def zero_VMDriver_def)
  have f: "distinct [11, 12, 13 :: ptr]" "\<forall>q \<in> {11, 12, 13}. q \<notin> pt_live no_machines" by (simp_all add: no_machines_def)
  have "unat (numPages mt) = 0" using I(2) length_mt_pairs [of mt] by simp
  with HostIF_Init_inv [OF no_machines_inv b i I f] i show thesis by (auto intro: that)
qed

lemma locked_at_empty: "held s v Pinned = {} \<Longrightarrow> locked_at s v vpn = 0"
proof (cases "vm_memtracker (vm_mem s v)")
  case (Some mt)
  assume "held s v Pinned = {}"
  then have z: "\<forall>x \<in> set (mt_pairs mt). snd x = 0" using Some by (auto simp: held_def pinned_in_def)
  show ?thesis
  proof (cases "find (\<lambda>x. fst x = vpn) (rev (mt_pairs mt))")
    case (Some x)
    then have "x \<in> set (rev (mt_pairs mt))" unfolding find_Some_iff by (metis nth_mem)
    then show ?thesis using z Some \<open>vm_memtracker (vm_mem s v) = Some mt\<close> by (simp add: locked_at_def)
  qed (simp add: locked_at_def Some)
qed (simp add: locked_at_def)

text \<open>A machine that has locked a page, by address, and another by number.\<close>

lemma machine_with_page:
  obtains s :: host_state and v where "host_inv {v} s" "held s v Pinned = {77}" "held s v Locked = {}" "held s v AWE = {}"
    "vm_vmhost (vm_mem s v) \<noteq> None" "physTracker_of s v \<noteq> None"
proof -
  obtain mt and s :: host_state where s: "MemTrack_Init True (\<lambda>_. True) = Some mt" "unat (numPages mt) = 0" "host_inv {1} s"
      "\<forall>k. held s 1 k = {}" "vm_memtracker (vm_mem s 1) = Some mt" "physTracker_of s 1 \<noteq> None"
    using one_machine by metis
  obtain P where P: "physTracker_of s 1 = Some P" using s(6) by auto
  have v: "(1 :: ptr) \<in> {1}" by simp
  have "\<exists>t. HostIF_LockPage all_memory (Some 77) 1 4096 False s = Some (77, t) \<and> host_inv {1} t
         \<and> changed {1} s t 1 Pinned (insert 77 (held s 1 Pinned)) \<and> locked_at t 1 (VA_2_VPN 4096) = 77"
    using s(2,4) by (intro LockPage_pinned(4) [OF s(3) v s(5) P]) (simp_all add: locked_at_empty max_entries_def mt_sizes)
  then obtain t where t: "host_inv {1} t" "changed {1} s t 1 Pinned (insert 77 (held s 1 Pinned))" by blast
  have h: "held t 1 k = (if k = Pinned then {77} else {})" for k using t(2) s(4) by (auto simp: changed_def)
  have ph: "physTracker_of t 1 \<noteq> None"
    using host_wf_users [of "{1}" t] t(1) h [of Pinned] by (simp add: host_inv_def)
  moreover have "vm_vmhost (vm_mem t 1) \<noteq> None" using ph by (cases "vm_vmhost (vm_mem t 1)") (simp_all add: physTracker_of_def)
  ultimately show thesis using t(1) h by (intro that [of 1 t]) simp_all
qed

end
