(* ===== verification/HostLocking.thy ===== *)
theory HostLocking
  imports HostTeardown
begin

text \<open>
  The properties of the page locking of \<open>HostPages\<close>: the locking and unlocking of a page, the
  cases in which the code panics, the teardown of a machine, and the accounting of the driver over
  any sequence of its operations, as a step relation on the machines and the state.
\<close>

subsection \<open>Locking a page\<close>

lemma put_page_frame: "put_page m s = Some t \<Longrightarrow> vm_mem t = vm_mem s"
  by (auto simp: put_page_def split: if_splits)

lemma track_page_frame: "track_page a b p m s = Some t \<Longrightarrow> vm_mem t = vm_mem s"
  by (auto simp: track_page_def)

lemma untrack_page_frame: "untrack_page p m s = Some t \<Longrightarrow> vm_mem t = vm_mem s"
  by (auto simp: untrack_page_def)

lemma LockPage_new:
  fixes uAddr :: u64
  assumes inv: "host_inv V s" and v: "v \<in> V" "vm_memtracker (vm_mem s v) = Some mt" and P: "physTracker_of s v = Some P"
    and z: "locked_at s v (VA_2_VPN uAddr) = 0" and m: "m \<noteq> 0" "m \<notin> (\<Union>w \<in> V. held s w Pinned)"
  shows "(case HostIF_LockPage al (Some m) v uAddr False s of
        None \<Rightarrow> True | Some (r, t) \<Rightarrow> r = m \<and> host_inv V t \<and> changed V s t v Pinned (insert m (held s v Pinned)))"
    and "MemTrack_LookupVPN mt (VA_2_VPN uAddr) = Some None
      \<Longrightarrow> fst (MemTrack_Add (la_mt2 al) (la_mt3 al) (VA_2_VPN uAddr) m mt) = None
      \<Longrightarrow> HostIF_LockPage al (Some m) v uAddr False s = None"
proof -
  define vpn where "vpn = VA_2_VPN uAddr"
  have wf: "host_wf V s" using inv by (simp add: host_inv_def)
  have u: "mt_unique mt" using wf v by (simp add: host_wf_def)
  then have ok: "mt_ok mt" by (simp add: mt_unique_def)
  note ph = phys_tracked [OF wf v(1) P]
  have hp: "held s v Pinned = pinned_in (Some mt)" by (simp add: held_def v(2))
  then have m': "m \<notin> pinned_in (Some mt)" using m(2) v(1) by auto
  have notr: "HOST_ISTRACKED_PFN v m (get_page m s) = Some False" using m(2) by (simp add: HOST_ISTRACKED_PFN_def P ph(4))
  define s2 where "s2 mt' = upd_vm v (\<lambda>vm. vm\<lparr>vm_memtracker := Some mt'\<rparr>) (get_page m s)" for mt'
  have p2: "physTracker_of (s2 mt') v = Some P" for mt' using P by (simp add: physTracker_of_def s2_def)
  have nounlock: "HOST_UNLOCK_PFN v m (s2 mt') = None" for mt'
  proof -
    have "PhysTrack_Remove m (pt_mem s P) = None" using PhysTrack_Remove_set(1) [OF ph(3), of m] m(2) ph(4) by simp
    then show ?thesis by (simp add: HOST_UNLOCK_PFN_def p2 untrack_page_def) (simp add: s2_def)
  qed
  have run: "HostIF_LockPage al (Some m) v uAddr False s
      = (if r = None then None else map_option (Pair m) (track_page (la_pt2 al) (la_pt3 al) P m (s2 mt')))"
    if "MemTrack_LookupVPN mt vpn = Some ent" "\<forall>e. ent = Some e \<longrightarrow> me_mpn (MEMTRACK_GETENTRY (mt_dir1 mt) e) = 0"
      "(case ent of None \<Rightarrow> MemTrack_Add (la_mt2 al) (la_mt3 al) vpn m mt | Some e \<Rightarrow> (Some e, set_mpn e m mt)) = (r, mt')"
    for ent r mt'
    using that notr nounlock [of mt'] p2 [of mt'] unfolding s2_def
    by (cases ent; clarsimp simp: HostIF_LockPage_def v(2) vpn_def [symmetric] HostIFGetUserPage_def Let_def)
  have pinned: "case map_option (Pair m) (track_page (la_pt2 al) (la_pt3 al) P m (s2 mt')) of
        None \<Rightarrow> True | Some (r, t) \<Rightarrow> r = m \<and> host_inv V t \<and> changed V s t v Pinned (insert m (held s v Pinned))"
    if "mt_unique mt'" "pinned_in (Some mt') = insert m (pinned_in (Some mt))" for mt'
    using pin_inv [OF inv v P that m(2), folded s2_def]
    by (cases "track_page (la_pt2 al) (la_pt3 al) P m (s2 mt')") simp_all
  show "(case HostIF_LockPage al (Some m) v uAddr False s of
        None \<Rightarrow> True | Some (r, t) \<Rightarrow> r = m \<and> host_inv V t \<and> changed V s t v Pinned (insert m (held s v Pinned)))"
  proof (rule locked_at_cases [OF ok v(2), of vpn])
    assume n: "MemTrack_LookupVPN mt vpn = Some None" "find (\<lambda>x. fst x = vpn) (rev (mt_pairs mt)) = None"
    obtain r mt' where a: "MemTrack_Add (la_mt2 al) (la_mt3 al) vpn m mt = (r, mt')" by fastforce
    have e: "HostIF_LockPage al (Some m) v uAddr False s
      = (if r = None then None else map_option (Pair m) (track_page (la_pt2 al) (la_pt3 al) P m (s2 mt')))"
      using run [OF n(1)] a by simp
    show ?thesis
    proof (cases r)
      case (Some x)
      show ?thesis using pinned [OF Add_unique [OF u a [unfolded Some] n(2) m(1) m']] unfolding e Some by simp
    qed (simp add: e)
  next
    fix i assume i: "MemTrack_LookupVPN mt vpn = Some (Some (MEMTRACK_IDX2DIR i))" "i < unat (numPages mt)"
      "mt_pairs mt ! i = (vpn, locked_at s v vpn)"
      "me_mpn (MEMTRACK_GETENTRY (mt_dir1 mt) (MEMTRACK_IDX2DIR i)) = locked_at s v vpn"
    have z': "locked_at s v vpn = 0" using z by (simp add: vpn_def)
    have e: "mt_pairs mt ! i = (vpn, 0)" using i(3) z' by simp
    have "HostIF_LockPage al (Some m) v uAddr False s
      = map_option (Pair m) (track_page (la_pt2 al) (la_pt3 al) P m (s2 (set_mpn (MEMTRACK_IDX2DIR i) m mt)))"
      using run [OF i(1)] i(4) z' by simp
    then show ?thesis using set_mpn_unique(1) [OF u i(2) e refl m(1) m'] pinned by simp
  qed
  show "HostIF_LockPage al (Some m) v uAddr False s = None"
    if "MemTrack_LookupVPN mt (VA_2_VPN uAddr) = Some None"
      "fst (MemTrack_Add (la_mt2 al) (la_mt3 al) (VA_2_VPN uAddr) m mt) = None"
  proof -
    obtain r mt' where a: "MemTrack_Add (la_mt2 al) (la_mt3 al) vpn m mt = (r, mt')" by fastforce
    then have "r = None" using that(2) by (simp add: vpn_def)
    then show ?thesis using run [of None r mt'] that(1) a by (simp add: vpn_def)
  qed
qed

lemma LockPage_frame:
  assumes "HostIF_LockPage al page v uAddr multiple s = Some (r, t)"
  shows "vm_vmhost (vm_mem t w) = vm_vmhost (vm_mem s w)"
    "vm_memtracker (vm_mem t w) = None \<longleftrightarrow> vm_memtracker (vm_mem s w) = None"
  using assms
  by (auto simp: HostIF_LockPage_def HostIFGetUserPage_def Let_def HOST_UNLOCK_PFN_def get_page_def bind_eq_Some_conv
      dest!: put_page_frame track_page_frame untrack_page_frame split: option.splits if_splits prod.splits bool.splits)

lemma UnlockPage_frame:
  assumes "HostIF_UnlockPage v uAddr s = Some (r, t)"
  shows "vm_vmhost (vm_mem t w) = vm_vmhost (vm_mem s w)"
    "vm_memtracker (vm_mem t w) = None \<longleftrightarrow> vm_memtracker (vm_mem s w) = None"
  using assms
  by (auto simp: HostIF_UnlockPage_def Let_def HOST_UNLOCK_PFN_def bind_eq_Some_conv
      dest!: put_page_frame untrack_page_frame split: option.splits if_splits)

lemma UnlockPageByMPN_frame:
  assumes "HostIF_UnlockPageByMPN v m s = Some (r, t)"
  shows "vm_mem t = vm_mem s"
  using assms
  by (auto simp: HostIF_UnlockPageByMPN_def HOST_UNLOCK_PFN_BYMPN_def bind_eq_Some_conv
      dest!: put_page_frame untrack_page_frame split: option.splits if_splits)

lemma alloc_locked_frame:
  "alloc_locked_loop ps a n cnt out s = Some (c, e, out', t) \<Longrightarrow> vm_mem t = vm_mem s"
proof (induction ps arbitrary: cnt out s)
  case (Cons x ps)
  obtain pg c2 a2 a3 where x: "x = (pg, c2, a2, a3)" by (rule prod_cases4)
  show ?case using Cons.prems
    by (auto simp: x Let_def bind_eq_Some_conv get_page_def
      dest!: put_page_frame track_page_frame Cons.IH split: option.splits if_splits)
qed (simp split: if_splits)

lemma AllocLockedPages_frame:
  "HostIF_AllocLockedPages ps v n s = Some (r, out, t) \<Longrightarrow> vm_mem t = vm_mem s"
  by (auto simp: HostIF_AllocLockedPages_def dest!: alloc_locked_frame split: option.splits)

lemma free_locked_frame: "free_locked_loop a ms s = Some t \<Longrightarrow> vm_mem t = vm_mem s"
  by (induction ms arbitrary: s) (auto simp: bind_eq_Some_conv dest!: put_page_frame untrack_page_frame)

lemma FreeLockedPages_frame:
  "HostIF_FreeLockedPages v buf n k s = Some (r, t) \<Longrightarrow> vm_mem t = vm_mem s"
  by (auto simp: HostIF_FreeLockedPages_def dest!: free_locked_frame split: option.splits if_splits)

text \<open>
  C27: Locking the user page at an address and unlocking it again is an exact round trip of the
  driver's accounting.  When the virtual page is not locked and the machine page is not pinned by
  any machine, the lock succeeds and pins it (also under the numbers returned by the kernel), a second
  lock of the address is refused, and after the unlock every machine holds the pages it held
  before, with the same references.
\<close>

theorem lock_unlock_roundtrip:
  assumes inv: "host_inv V s" and v: "v \<in> V" "vm_memtracker (vm_mem s v) = Some mt" and P: "physTracker_of s v = Some P"
    and z: "locked_at s v (VA_2_VPN uAddr) = 0" and m: "m \<noteq> 0" "m \<notin> (\<Union>w \<in> V. held s w Pinned)"
    and room: "unat (numPages mt) < 1131520"
  shows "\<exists>t u. HostIF_LockPage all_memory (Some m) v uAddr False s = Some (m, t) \<and> host_inv V t
    \<and> m \<in> held t v Pinned \<and> HostIF_LockPage al page v uAddr False t = Some (PAGE_LOCK_ALREADY_LOCKED, t)
    \<and> HostIF_UnlockPage v uAddr t = Some (PAGE_UNLOCK_NO_ERROR, u) \<and> host_inv V u
    \<and> (\<forall>w \<in> V. \<forall>k. held u w k = held s w k) \<and> page_refs u = page_refs s"
proof -
  have "unat (numPages mt) < max_entries" using room by (simp add: max_entries_def mt_sizes)
  then obtain t where t: "HostIF_LockPage all_memory (Some m) v uAddr False s = Some (m, t)" "host_inv V t"
      "changed V s t v Pinned (insert m (held s v Pinned))" "locked_at t v (VA_2_VPN uAddr) = m"
    using LockPage_pinned(4) [OF inv v P z refl m] by blast
  have ht: "held t v Pinned = insert m (held s v Pinned)" by (rule changed_held [OF t(3) v(1)])
  note fr = LockPage_frame [OF t(1)]
  obtain mt' where mt': "vm_memtracker (vm_mem t v) = Some mt'" using fr(2) [of v] v(2) by (cases "vm_memtracker (vm_mem t v)") auto
  have P': "physTracker_of t v = Some P" using P by (simp add: physTracker_of_def fr(1))
  obtain u where u: "HostIF_UnlockPage v uAddr t = Some (PAGE_UNLOCK_NO_ERROR, u)" "host_inv V u"
      "changed V t u v Pinned (held t v Pinned - {locked_at t v (VA_2_VPN uAddr)})"
    using UnlockPage_pinned(2) [OF t(2) v(1) mt' P', of uAddr] t(4) m(1) by auto
  have "insert m (held s v Pinned) - {m} = held s v Pinned" using m(2) v(1) by auto
  then have h: "held u w k = held s w k" if "w \<in> V" for w k
    using u(3) t(3) that by (auto simp: changed_def ht t(4))
  then have "holders V u m = holders V s m" for m by (auto simp: holders_def)
  then have "page_refs u = page_refs s" using inv u(2) by (auto simp: host_inv_def)
  then show ?thesis
    using t u h ht LockPage_pinned(1) [OF t(2) v(1) mt' P', of uAddr al page] m(1) by (intro exI [of _ t] exI [of _ u]) simp
qed

text \<open>
  C29: Locking a page panics when the memory tracker cannot record it (no memory, or as many pages as it
  can hold): the error path of \<open>HostIF_LockPage\<close> unlocks the page through the tracker of
  physical pages, into which it has not been entered yet.
\<close>

theorem lock_page_panics_without_memory:
  assumes inv: "host_inv V s" and v: "v \<in> V" "vm_memtracker (vm_mem s v) = Some mt" and P: "physTracker_of s v = Some P"
    and z: "MemTrack_LookupVPN mt (VA_2_VPN uAddr) = Some None" and m: "m \<noteq> 0" "m \<notin> (\<Union>w \<in> V. held s w Pinned)"
    and fail: "fst (MemTrack_Add (la_mt2 al) (la_mt3 al) (VA_2_VPN uAddr) m mt) = None"
  shows "HostIF_LockPage al (Some m) v uAddr False s = None"
proof -
  have "mt_ok mt" using inv v by (simp add: host_inv_def host_wf_def mt_unique_def)
  then have "locked_at s v (VA_2_VPN uAddr) = 0"
    by (rule locked_at_cases [OF _ v(2), of "VA_2_VPN uAddr"]) (use z in auto)
  from LockPage_new(2) [OF inv v P this m z fail] show ?thesis .
qed

text \<open>
  Freeing pages of a machine by their numbers refuses a list with a page that is not the
  machine's and changes nothing; it frees all of them when they are different; and a list that
  names one page twice panics, although the numbers come from user space.
\<close>

theorem free_locked_pages:
  assumes inv: "host_inv V s" and v: "v \<in> V" "AWEPages_of s v = Some a" and n: "kernelBuf \<or> n \<le> 64"
  shows "if \<not> set ms \<subseteq> held s v AWE then HostIF_FreeLockedPages v (Some ms) n kernelBuf s = Some (- EINVAL, s)
    else if distinct ms then \<exists>t. HostIF_FreeLockedPages v (Some ms) n kernelBuf s = Some (0, t)
      \<and> host_inv V t \<and> changed V s t v AWE (held s v AWE - set ms)
    else HostIF_FreeLockedPages v (Some ms) n kernelBuf s = None"
  using FreeLockedPages_run [OF inv v n, of ms] by (simp split: if_split)

text \<open>
  C28: Tearing a virtual machine down (\<open>HostIF_FreeAllResources\<close>) never panics and is complete.  When
  the driver's page accounting is consistent and the machine has its host part, all pages it holds, under any
  of the three trackers, are given back: afterwards the accounting is consistent for the remaining
  machines, the machine has neither trackers nor a host part, no other machine is changed, what the
  others hold is unchanged, and exactly the trackers of the machine are freed, with the shared tracker
  if no other machine uses it.  Pages 0 and \<open>INVALID_MPN\<close>, which the loop over a tracker cannot
  reach, must not be in the machine's own trackers.
\<close>

theorem free_all_resources:
  assumes inv: "host_inv V s" and v: "v \<in> V" and h: "vm_vmhost (vm_mem s v) \<noteq> None"
    and ends: "0 \<notin> held s v Locked \<union> held s v AWE" "INVALID_MPN \<notin> held s v Locked \<union> held s v AWE"
  shows "\<exists>t. HostIF_FreeAllResources v s = Some t \<and> host_inv (V - {v}) t \<and> blank_vm (vm_mem t v)
    \<and> (\<forall>w. w \<noteq> v \<longrightarrow> vm_mem t w = vm_mem s w) \<and> (\<forall>w \<in> V - {v}. \<forall>k. held t w k = held s w k)
    \<and> pt_live t = pt_live s - set_option (lockedPages_of s v) - set_option (AWEPages_of s v)
        - (if physTracker_of s v \<noteq> None \<and> (\<forall>w \<in> V - {v}. physTracker_of s w = None) then set_option (physTracker s) else {})"
  by (rule FreeAllResources_run [OF inv v h ends])

theorem free_all_resources_witness:
  "\<exists>(s :: host_state) v t. held s v Pinned = {77} \<and> HostIF_FreeAllResources v s = Some t \<and> host_inv {} t"
proof -
  obtain s :: host_state and v where s: "host_inv {v} s" "held s v Pinned = {77}" "held s v Locked = {}" "held s v AWE = {}"
      "vm_vmhost (vm_mem s v) \<noteq> None" by (rule machine_with_page)
  have "\<exists>t. HostIF_FreeAllResources v s = Some t \<and> host_inv ({v} - {v}) t \<and> blank_vm (vm_mem t v)
    \<and> (\<forall>w. w \<noteq> v \<longrightarrow> vm_mem t w = vm_mem s w) \<and> (\<forall>w \<in> {v} - {v}. \<forall>k. held t w k = held s w k)
    \<and> pt_live t = pt_live s - set_option (lockedPages_of s v) - set_option (AWEPages_of s v)
        - (if physTracker_of s v \<noteq> None \<and> (\<forall>w \<in> {v} - {v}. physTracker_of s w = None) then set_option (physTracker s) else {})"
    by (rule free_all_resources [OF s(1) _ s(5)]) (simp_all add: s(3,4))
  then show ?thesis using s(2) by auto
qed

subsection \<open>The driver over its operations\<close>

text \<open>
  The machines that have their resources, and the state of the driver, in the order in which the
  operations are called.  The kernel gives no page that has the number 0 or \<open>INVALID_MPN\<close>, and
  a new page is one to which the driver has no reference.
\<close>

definition user_page :: "MPN option \<Rightarrow> bool" where
  "user_page page \<longleftrightarrow> page \<noteq> Some 0 \<and> page \<noteq> Some INVALID_MPN"

inductive host_step :: "ptr set \<times> 'a host_state_scheme \<Rightarrow> ptr set \<times> 'a host_state_scheme \<Rightarrow> bool" where
  start: "v \<notin> V \<Longrightarrow> blank_vm (vm_mem s v) \<Longrightarrow> MemTrack_Init av pav = Some mt \<Longrightarrow> distinct [p, l, a]
    \<Longrightarrow> \<forall>q \<in> {p, l, a}. q \<notin> pt_live s \<Longrightarrow> HostIF_Init (Some mt) True (Some p) (Some l) (Some a) v s = (True, t)
    \<Longrightarrow> host_step (V, s) (insert v V, t)"
| lock: "v \<in> V \<Longrightarrow> user_page page \<Longrightarrow> HostIF_LockPage al page v uAddr False s = Some (r, t) \<Longrightarrow> host_step (V, s) (V, t)"
| lock_by_number: "v \<in> V \<Longrightarrow> user_page page \<Longrightarrow> HostIF_LockPage all_memory page v uAddr True s = Some (r, t) \<Longrightarrow> host_step (V, s) (V, t)"
| unlock: "v \<in> V \<Longrightarrow> HostIF_UnlockPage v uAddr s = Some (e, t) \<Longrightarrow> host_step (V, s) (V, t)"
| unlock_by_number: "v \<in> V \<Longrightarrow> HostIF_UnlockPageByMPN v m s = Some (e, t) \<Longrightarrow> host_step (V, s) (V, t)"
| alloc: "v \<in> V \<Longrightarrow> \<forall>(pg, c, a2, a3) \<in> set ps. a2 \<and> a3 \<and> user_page pg \<Longrightarrow> distinct (List.map_filter fst ps)
    \<Longrightarrow> \<forall>m \<in> set (List.map_filter fst ps). page_refs s m = 0 \<Longrightarrow> unat n < 2 ^ 31
    \<Longrightarrow> HostIF_AllocLockedPages ps v n s = Some (x, out, t) \<Longrightarrow> host_step (V, s) (V, t)"
| free: "v \<in> V \<Longrightarrow> HostIF_FreeLockedPages v buf n k s = Some (x, t) \<Longrightarrow> host_step (V, s) (V, t)"
| exit: "v \<in> V \<Longrightarrow> HostIF_FreeAllResources v s = Some t \<Longrightarrow> host_step (V, s) (V - {v}, t)"

inductive_cases host_stepE: "host_step x y"

definition ready :: "'a host_state_scheme \<Rightarrow> ptr \<Rightarrow> bool" where
  "ready s v \<longleftrightarrow> vm_memtracker (vm_mem s v) \<noteq> None \<and> physTracker_of s v \<noteq> None
     \<and> lockedPages_of s v \<noteq> None \<and> AWEPages_of s v \<noteq> None"

definition host_good :: "ptr set \<times> 'a host_state_scheme \<Rightarrow> bool" where
  "host_good x \<longleftrightarrow> host_inv (fst x) (snd x)
     \<and> (\<forall>v \<in> fst x. ready (snd x) v \<and> (\<forall>k. 0 \<notin> held (snd x) v k \<and> INVALID_MPN \<notin> held (snd x) v k))"

lemma ready_vm:
  "ready s v \<Longrightarrow> vm_vmhost (vm_mem t v) = vm_vmhost (vm_mem s v)
    \<Longrightarrow> (vm_memtracker (vm_mem t v) = None \<longleftrightarrow> vm_memtracker (vm_mem s v) = None) \<Longrightarrow> ready t v"
  by (simp add: ready_def physTracker_of_def lockedPages_of_def AWEPages_of_def)

lemma readyE:
  assumes "ready s v"
  obtains mt P L A where "vm_memtracker (vm_mem s v) = Some mt" "physTracker_of s v = Some P"
    "lockedPages_of s v = Some L" "AWEPages_of s v = Some A" "vm_vmhost (vm_mem s v) \<noteq> None"
proof -
  have "vm_vmhost (vm_mem s v) \<noteq> None" using assms by (cases "vm_vmhost (vm_mem s v)") (simp_all add: ready_def physTracker_of_def)
  with assms that show thesis by (auto simp: ready_def)
qed

lemma good_keep:
  assumes g: "host_good (V, s)" and t: "host_inv V t" "changed V s t v k S" "0 \<notin> S" "INVALID_MPN \<notin> S"
    and f: "\<And>w. vm_vmhost (vm_mem t w) = vm_vmhost (vm_mem s w)"
      "\<And>w. vm_memtracker (vm_mem t w) = None \<longleftrightarrow> vm_memtracker (vm_mem s w) = None"
  shows "host_good (V, t)"
  using g t ready_vm [OF _ f] by (auto simp: host_good_def changed_def)

lemma good_changed:
  assumes "host_good (V, s)" "v \<in> V" "user_page (Some m)"
  shows "0 \<notin> insert m (held s v k)" "INVALID_MPN \<notin> insert m (held s v k)"
  using assms by (auto simp: host_good_def user_page_def)

text \<open>What a call can do: nothing, with an error, or one change of the pages of the machine.\<close>

definition page_error :: "u32 \<Rightarrow> bool" where
  "page_error r \<longleftrightarrow> sint r < 0"

lemma page_errors: "page_error PAGE_LOCK_FAILED" "page_error PAGE_LOCK_ALREADY_LOCKED" "page_error PAGE_LOCK_PHYSTRACKER_ERROR"
  "page_error PAGE_UNLOCK_NOT_TRACKED" "page_error PAGE_UNLOCK_NO_MPN" "page_error PAGE_LOCK_LIMIT_EXCEEDED" "\<not> page_error PAGE_UNLOCK_NO_ERROR"
  by (simp_all add: page_error_def PAGE_LOCK_FAILED_def PAGE_LOCK_ALREADY_LOCKED_def PAGE_LOCK_PHYSTRACKER_ERROR_def
      PAGE_UNLOCK_NOT_TRACKED_def PAGE_UNLOCK_NO_MPN_def PAGE_LOCK_LIMIT_EXCEEDED_def PAGE_UNLOCK_NO_ERROR_def)

lemma lock_outcome:
  assumes g: "host_good (V, s)" and v: "v \<in> V" and pg: "user_page page"
    and run: "HostIF_LockPage al page v uAddr False s = Some (r, t)"
  obtains (error) "t = s" "page_error r"
    | (locked) "page = Some r" "r \<notin> held s v Pinned" "host_inv V t" "changed V s t v Pinned (insert r (held s v Pinned))"
proof -
  have inv: "host_inv V s" and rd: "ready s v" using g v by (simp_all add: host_good_def)
  obtain mt P where mt: "vm_memtracker (vm_mem s v) = Some mt" "physTracker_of s v = Some P" using rd by (rule readyE)
  note L = LockPage_pinned [OF inv v mt, of uAddr] and N = LockPage_new(1) [OF inv v mt, of uAddr _ al]
  show thesis
  proof (cases "locked_at s v (VA_2_VPN uAddr) = 0")
    case False
    then show thesis using L(1) run by (intro error) (auto simp: page_errors)
  next
    case z: True
    show thesis
    proof (cases page)
      case None
      then show thesis using L(2) [OF z None] run by (intro error) (auto simp: page_errors)
    next
      case (Some m)
      show thesis
      proof (cases "m \<in> (\<Union>w \<in> V. held s w Pinned)")
        case True
        then show thesis using L(3) [OF z Some True] run by (intro error) (auto simp: page_errors)
      next
        case False
        have m: "m \<noteq> 0" using pg Some by (simp add: user_page_def)
        have "r = m \<and> host_inv V t \<and> changed V s t v Pinned (insert m (held s v Pinned))"
          using N [OF z m False] run Some by simp
        then show thesis using Some False v by (intro locked) auto
      qed
    qed
  qed
qed

lemma lock_by_number_outcome:
  assumes g: "host_good (V, s)" and v: "v \<in> V"
    and run: "HostIF_LockPage all_memory page v uAddr True s = Some (r, t)"
  obtains (error) "t = s" "page_error r"
    | (locked) "page = Some r" "r \<notin> held s v Locked" "host_inv V t" "changed V s t v Locked (insert r (held s v Locked))"
proof -
  have inv: "host_inv V s" and rd: "ready s v" using g v by (simp_all add: host_good_def)
  obtain mt P L where mt: "vm_memtracker (vm_mem s v) = Some mt" "physTracker_of s v = Some P" "lockedPages_of s v = Some L"
    using rd by (rule readyE)
  note C = LockPage_bympn [OF inv v mt]
  show thesis
  proof (cases page)
    case None
    then show thesis using C(1) run by (intro error) (auto simp: page_errors)
  next
    case (Some m)
    show thesis
    proof (cases "m \<in> (\<Union>w \<in> V. held s w Pinned)")
      case True
      then show thesis using C(2) run Some by (intro error) (auto simp: page_errors)
    next
      case n: False
      show thesis
      proof (cases "m \<in> held s v Locked")
        case True
        then show thesis using C(3) [OF n] run Some by (intro error) (auto simp: page_errors)
      next
        case False
        then show thesis using C(4) [OF n, of uAddr] run Some by (intro locked) auto
      qed
    qed
  qed
qed

lemma unlock_outcome:
  assumes g: "host_good (V, s)" and v: "v \<in> V" and run: "HostIF_UnlockPage v uAddr s = Some (e, t)"
  obtains (error) "t = s" "page_error e"
    | (unlocked) m where "e = PAGE_UNLOCK_NO_ERROR" "m \<in> held s v Pinned" "host_inv V t" "changed V s t v Pinned (held s v Pinned - {m})"
proof -
  have inv: "host_inv V s" and rd: "ready s v" using g v by (simp_all add: host_good_def)
  obtain mt P where mt: "vm_memtracker (vm_mem s v) = Some mt" "physTracker_of s v = Some P" using rd by (rule readyE)
  note U = UnlockPage_pinned [OF inv v mt, of uAddr]
  have e: "e \<noteq> PAGE_UNLOCK_NO_ERROR \<Longrightarrow> page_error e"
    using run by (auto simp: HostIF_UnlockPage_def Let_def page_errors split: option.splits if_splits)
  show thesis
  proof (cases "locked_at s v (VA_2_VPN uAddr) = 0")
    case True
    then show thesis using U(1) run e by (intro error) auto
  next
    case False
    then show thesis using U(2) run by (intro unlocked [of "locked_at s v (VA_2_VPN uAddr)"]) auto
  qed
qed

lemma unlock_by_number_outcome:
  assumes g: "host_good (V, s)" and v: "v \<in> V" and run: "HostIF_UnlockPageByMPN v m s = Some (e, t)"
  obtains (error) "t = s" "page_error e"
    | (unlocked) "e = PAGE_UNLOCK_NO_ERROR" "m \<in> held s v Locked" "host_inv V t" "changed V s t v Locked (held s v Locked - {m})"
proof -
  have inv: "host_inv V s" and rd: "ready s v" using g v by (simp_all add: host_good_def)
  obtain L where L: "lockedPages_of s v = Some L" using rd by (rule readyE)
  note U = UnlockPageByMPN_held [OF inv v L, of m]
  show thesis
  proof (cases "m \<in> held s v Locked")
    case True
    then show thesis using U(2) run by (intro unlocked) auto
  next
    case False
    then show thesis using U(1) run by (intro error) (auto simp: page_errors)
  qed
qed

lemma free_outcome:
  assumes g: "host_good (V, s)" and v: "v \<in> V" and run: "HostIF_FreeLockedPages v buf n k s = Some (x, t)"
  obtains (error) "t = s" "x < 0"
    | (freed) ms where "x = 0" "buf = Some ms" "set ms \<subseteq> held s v AWE" "distinct ms" "host_inv V t"
      "changed V s t v AWE (held s v AWE - set ms)"
proof -
  have inv: "host_inv V s" and rd: "ready s v" using g v by (simp_all add: host_good_def)
  obtain A where A: "AWEPages_of s v = Some A" using rd by (rule readyE)
  show thesis
  proof (cases buf)
    case None
    then show thesis using run A by (intro error) (auto simp: HostIF_FreeLockedPages_def EINVAL_def split: if_splits)
  next
    case (Some ms)
    show thesis
    proof (cases "k \<or> n \<le> 64")
      case False
      then show thesis using run A by (intro error) (auto simp: HostIF_FreeLockedPages_def EINVAL_def not_le)
    next
      case True
      note F = FreeLockedPages_run [OF inv v A True, of ms]
      show thesis
      proof (cases "set ms \<subseteq> held s v AWE")
        case False
        then show thesis using F(1) run Some by (intro error) (auto simp: EINVAL_def)
      next
        case sub: True
        then have d: "distinct ms" using F(3) run Some by (cases "distinct ms") simp_all
        show thesis using F(2) [OF sub d] run Some sub d by (intro freed) auto
      qed
    qed
  qed
qed

text \<open>Each call keeps the machines in good order.\<close>

lemma good_lock:
  assumes g: "host_good (V, s)" "v \<in> V" and pg: "user_page page" and run: "HostIF_LockPage al page v uAddr False s = Some (r, t)"
  shows "host_good (V, t)"
  using g pg run
proof (rule lock_outcome)
  assume t: "page = Some r" "host_inv V t" "changed V s t v Pinned (insert r (held s v Pinned))"
  show ?thesis using good_changed [OF g, of r] pg t(1) LockPage_frame [OF run] by (auto intro!: good_keep [OF g(1) t(2,3)])
qed (use g in simp)

lemma good_lock_by_number:
  assumes g: "host_good (V, s)" "v \<in> V" and pg: "user_page page" and run: "HostIF_LockPage all_memory page v uAddr True s = Some (r, t)"
  shows "host_good (V, t)"
  using g run
proof (rule lock_by_number_outcome)
  assume t: "page = Some r" "host_inv V t" "changed V s t v Locked (insert r (held s v Locked))"
  show ?thesis using good_changed [OF g, of r] pg t(1) LockPage_frame [OF run] by (auto intro!: good_keep [OF g(1) t(2,3)])
qed (use g in simp)

lemma good_subset: "host_good (V, s) \<Longrightarrow> v \<in> V \<Longrightarrow> 0 \<notin> held s v k - M \<and> INVALID_MPN \<notin> held s v k - M"
  by (simp add: host_good_def)

lemma good_unlock:
  assumes g: "host_good (V, s)" "v \<in> V" and run: "HostIF_UnlockPage v uAddr s = Some (e, t)"
  shows "host_good (V, t)"
  using g run
proof (rule unlock_outcome)
  fix m assume t: "host_inv V t" "changed V s t v Pinned (held s v Pinned - {m})"
  show ?thesis using good_subset [OF g] UnlockPage_frame [OF run] by (auto intro!: good_keep [OF g(1) t])
qed (use g in simp)

lemma good_unlock_by_number:
  assumes g: "host_good (V, s)" "v \<in> V" and run: "HostIF_UnlockPageByMPN v m s = Some (e, t)"
  shows "host_good (V, t)"
  using g run
proof (rule unlock_by_number_outcome)
  assume t: "host_inv V t" "changed V s t v Locked (held s v Locked - {m})"
  show ?thesis using good_subset [OF g] UnlockPageByMPN_frame [OF run] by (auto intro!: good_keep [OF g(1) t])
qed (use g in simp)

lemma good_free:
  assumes g: "host_good (V, s)" "v \<in> V" and run: "HostIF_FreeLockedPages v buf n k s = Some (x, t)"
  shows "host_good (V, t)"
  using g run
proof (rule free_outcome)
  fix ms assume t: "host_inv V t" "changed V s t v AWE (held s v AWE - set ms)"
  show ?thesis using good_subset [OF g] FreeLockedPages_frame [OF run] by (auto intro!: good_keep [OF g(1) t])
qed (use g in simp)

lemma good_alloc:
  assumes g: "host_good (V, s)" and v: "v \<in> V" and ps: "\<forall>(pg, c, a2, a3) \<in> set ps. a2 \<and> a3 \<and> user_page pg"
    and fresh: "distinct (List.map_filter fst ps)" "\<forall>m \<in> set (List.map_filter fst ps). page_refs s m = 0"
    and n: "unat n < 2 ^ 31" and run: "HostIF_AllocLockedPages ps v n s = Some (x, out, t)"
    and user: "\<forall>m \<in> set out. user_page (Some m)"
  shows "host_good (V, t)"
proof -
  have inv: "host_inv V s" and rd: "ready s v" and b: "0 \<notin> held s v AWE" "INVALID_MPN \<notin> held s v AWE"
    using g v by (simp_all add: host_good_def)
  obtain A where A: "AWEPages_of s v = Some A" using rd by (rule readyE)
  have mem: "\<forall>(pg, c, a2, a3) \<in> set ps. a2 \<and> a3" using ps by auto
  have t: "host_inv V t" "changed V s t v AWE (held s v AWE \<union> set out)"
    using AllocLockedPages_inv [OF inv v A mem fresh n] run by auto
  show ?thesis using t user b AllocLockedPages_frame [OF run]
    by (intro good_keep [OF g t]) (auto simp: user_page_def)
qed

lemma alloc_out:
  "alloc_locked_loop ps a n cnt out s = Some (c, e, out', t) \<Longrightarrow> set out' \<subseteq> set out \<union> set (List.map_filter fst ps)"
proof (induction ps arbitrary: cnt out s)
  case (Cons x ps)
  obtain pg c2 a2 a3 where x: "x = (pg, c2, a2, a3)" by (rule prod_cases4)
  show ?case using Cons.prems
    by (auto simp: x Let_def bind_eq_Some_conv map_filter_simps dest!: Cons.IH split: option.splits if_splits)
qed (simp split: if_splits)

lemma good_start:
  assumes g: "host_good (V, s)" and b: "blank_vm (vm_mem s v)" "v \<notin> V" and mt: "MemTrack_Init av pav = Some mt"
    and fresh: "distinct [p, l, a]" "\<forall>q \<in> {p, l, a}. q \<notin> pt_live s"
    and run: "HostIF_Init (Some mt) True (Some p) (Some l) (Some a) v s = (True, t)"
  shows "host_good (insert v V, t) \<and> (\<forall>k. held t v k = {}) \<and> (\<forall>w \<in> V. \<forall>k. held t w k = held s w k)"
proof -
  have inv: "host_inv V s" using g by (simp add: host_good_def)
  from HostIF_Init_inv [OF inv b(1) refl MemTrack_Init_ok [OF mt] fresh] run
  have t: "host_inv (insert v V) t" "\<forall>k. held t v k = {}" "\<forall>w \<in> V. w \<noteq> v \<longrightarrow> (\<forall>k. held t w k = held s w k)"
      "vm_memtracker (vm_mem t v) = Some mt" "physTracker_of t v \<noteq> None" "lockedPages_of t v = Some l"
      "AWEPages_of t v = Some a" "\<forall>w. w \<noteq> v \<longrightarrow> vm_mem t w = vm_mem s w" by auto
  have "ready t v" using t(4-7) by (simp add: ready_def)
  moreover have "ready t w \<and> (\<forall>k. held t w k = held s w k)" if "w \<in> V" for w
  proof -
    have "w \<noteq> v" using that b(2) by blast
    then show ?thesis using g that t(3,8) by (auto simp: host_good_def intro: ready_vm)
  qed
  moreover have "host_good (insert v V, t)" using calculation t(1,2) g by (simp add: host_good_def)
  ultimately show ?thesis using t(2) by blast
qed

lemma good_exit:
  assumes g: "host_good (V, s)" and v: "v \<in> V"
  obtains t where "HostIF_FreeAllResources v s = Some t" "host_good (V - {v}, t)" "\<forall>w \<in> V - {v}. \<forall>k. held t w k = held s w k"
proof -
  have inv: "host_inv V s" and rd: "ready s v" and b: "0 \<notin> held s v Locked \<union> held s v AWE" "INVALID_MPN \<notin> held s v Locked \<union> held s v AWE"
    using g v by (simp_all add: host_good_def)
  have h: "vm_vmhost (vm_mem s v) \<noteq> None" using rd by (rule readyE)
  obtain t where t: "HostIF_FreeAllResources v s = Some t" "host_inv (V - {v}) t" "\<forall>w. w \<noteq> v \<longrightarrow> vm_mem t w = vm_mem s w"
      "\<forall>w \<in> V - {v}. \<forall>k. held t w k = held s w k"
    using FreeAllResources_run [OF inv v h b] by blast
  have "ready t w" if "w \<in> V - {v}" for w
    using g that t(3) by (auto simp: host_good_def intro: ready_vm)
  then have "host_good (V - {v}, t)" using t(2,4) g by (simp add: host_good_def)
  with t(1) show thesis using t(4) by (rule that)
qed

lemma good_step: "host_step x y \<Longrightarrow> host_good x \<Longrightarrow> host_good y"
proof (induction rule: host_step.induct)
  case (start v V s av pav mt p l a t)
  then show ?case using good_start [of V s v av pav mt p l a t] by simp
next
  case (alloc v V ps s n x out t)
  have "user_page (Some m)" if "m \<in> set out" for m
  proof -
    obtain A cnt err where "alloc_locked_loop ps A (unat n) 0 [] s = Some (cnt, err, out, t) \<or> out = []"
      using alloc.hyps by (fastforce simp: HostIF_AllocLockedPages_def split: option.splits)
    then have "m \<in> set (List.map_filter fst ps)" using that alloc_out by fastforce
    then show ?thesis using alloc.hyps by (fastforce simp: List.map_filter_def user_page_def)
  qed
  then show ?case by (intro good_alloc [OF alloc.prems alloc.hyps]) blast
next
  case (exit v V s t)
  then show ?case by (auto elim: good_exit)
qed (blast intro: good_lock good_lock_by_number good_unlock good_unlock_by_number good_free)+

lemma good_reachable: "host_step\<^sup>*\<^sup>* x y \<Longrightarrow> host_good x \<Longrightarrow> host_good y"
  by (induction rule: rtranclp_induct) (auto intro: good_step)

text \<open>
  C26: Whatever virtual machines are started, lock, unlock, allocate and free, in any order and with
  any answers of the kernel, until they exit: at every moment the number of references that the
  driver holds on a page is the number of places in which the trackers of the machines record it, so
  no page is lost or given back twice; every machine can be torn down without a panic, which
  leaves the other machines in the same consistent state; and when no machine is left the driver holds
  no reference and the shared tracker is gone.
\<close>

theorem host_accounting:
  assumes "host_step\<^sup>*\<^sup>* ({}, no_machines) (V, s)"
  shows "(\<forall>m. page_refs s m = card (holders V s m))
    \<and> (\<forall>v \<in> V. \<exists>t. HostIF_FreeAllResources v s = Some t \<and> (\<forall>m. page_refs t m = card (holders (V - {v}) t m))
        \<and> (\<forall>w \<in> V - {v}. \<forall>k. held t w k = held s w k))
    \<and> (V = {} \<longrightarrow> (\<forall>m. page_refs s m = 0) \<and> physTracker s = None)"
proof (intro conjI)
  have g: "host_good (V, s)" using good_reachable [OF assms] by (simp add: host_good_def no_machines_inv)
  then have inv: "host_inv V s" by (simp add: host_good_def)
  then show r: "\<forall>m. page_refs s m = card (holders V s m)" by (simp add: host_inv_def)
  show "\<forall>v \<in> V. \<exists>t. HostIF_FreeAllResources v s = Some t \<and> (\<forall>m. page_refs t m = card (holders (V - {v}) t m))
        \<and> (\<forall>w \<in> V - {v}. \<forall>k. held t w k = held s w k)"
  proof
    fix v assume v: "v \<in> V"
    have rd: "ready s v" and b: "0 \<notin> held s v Locked \<union> held s v AWE" "INVALID_MPN \<notin> held s v Locked \<union> held s v AWE"
      using g v by (simp_all add: host_good_def)
    have h: "vm_vmhost (vm_mem s v) \<noteq> None" using rd by (rule readyE)
    obtain t where "HostIF_FreeAllResources v s = Some t" "host_inv (V - {v}) t" "\<forall>w \<in> V - {v}. \<forall>k. held t w k = held s w k"
      using FreeAllResources_run [OF inv v h b] by blast
    then show "\<exists>t. HostIF_FreeAllResources v s = Some t \<and> (\<forall>m. page_refs t m = card (holders (V - {v}) t m))
        \<and> (\<forall>w \<in> V - {v}. \<forall>k. held t w k = held s w k)" by (auto simp: host_inv_def)
  qed
  have "physTracker s = None" if "V = {}"
    using host_wf_shared [of V s] inv that by (cases "physTracker s") (auto simp: host_inv_def)
  then show "V = {} \<longrightarrow> (\<forall>m. page_refs s m = 0) \<and> physTracker s = None"
    using r by (auto simp: holders_def)
qed

text \<open>A run in which a machine starts, locks a page at an address and locks another by number.\<close>

lemma machine_steps:
  obtains s :: host_state and mt P where "host_step\<^sup>*\<^sup>* ({}, no_machines) ({1}, s)" "host_inv {1} s" "\<forall>k. held s 1 k = {}"
    "vm_memtracker (vm_mem s 1) = Some mt" "physTracker_of s 1 = Some P" "AWEPages_of s 1 = Some 13" "unat (numPages mt) = 0"
    "MemTrack_Init True (\<lambda>_. True) = Some mt"
proof -
  obtain mt and s :: host_state where s: "MemTrack_Init True (\<lambda>_. True) = Some mt" "unat (numPages mt) = 0"
    "HostIF_Init (MemTrack_Init True (\<lambda>_. True)) True (Some 11) (Some 12) (Some 13) 1 no_machines = (True, s)"
    "host_inv {1} s" "\<forall>k. held s 1 k = {}" "vm_memtracker (vm_mem s 1) = Some mt" "physTracker_of s 1 \<noteq> None" "AWEPages_of s 1 = Some 13"
    using one_machine by metis
  have "host_step ({}, no_machines) (insert 1 {}, s)"
    using s(3) by (intro host_step.start [OF _ _ s(1)]) (simp_all add: s(1) no_machines_def zero_VMDriver_def blank_vm_def)
  then have "host_step\<^sup>*\<^sup>* ({}, no_machines) ({1}, s)" by auto
  with s show thesis by (auto intro: that)
qed

theorem host_accounting_witness:
  "\<exists>s :: host_state. host_step\<^sup>*\<^sup>* ({}, no_machines) ({1}, s) \<and> held s 1 Pinned = {77} \<and> page_refs s 77 = card (holders {1} s 77)
     \<and> HostIF_FreeAllResources 1 s \<noteq> None"
proof -
  obtain s :: host_state and mt P where s: "host_step\<^sup>*\<^sup>* ({}, no_machines) ({1}, s)" "host_inv {1} s" "\<forall>k. held s 1 k = {}"
    "vm_memtracker (vm_mem s 1) = Some mt" "physTracker_of s 1 = Some P" "unat (numPages mt) = 0"
    by (rule machine_steps)
  have v: "(1 :: ptr) \<in> {1}" by simp
  have "\<exists>t. HostIF_LockPage all_memory (Some 77) 1 4096 False s = Some (77, t) \<and> host_inv {1} t
         \<and> changed {1} s t 1 Pinned (insert 77 (held s 1 Pinned)) \<and> locked_at t 1 (VA_2_VPN 4096) = 77"
    using s(3,6) by (intro LockPage_pinned(4) [OF s(2) v s(4,5)]) (simp_all add: locked_at_empty max_entries_def mt_sizes)
  then obtain t where t: "HostIF_LockPage all_memory (Some 77) 1 4096 False s = Some (77, t)"
    "changed {1} s t 1 Pinned (insert 77 (held s 1 Pinned))" by blast
  have "host_step ({1}, s) ({1}, t)" by (rule host_step.lock [OF v _ t(1)]) (simp add: user_page_def INVALID_MPN_def)
  with s(1) have r: "host_step\<^sup>*\<^sup>* ({}, no_machines) ({1}, t)" by (rule rtranclp.rtrancl_into_rtrancl)
  have "held t 1 Pinned = {77}" using changed_held [OF t(2)] s(3) by simp
  then show ?thesis using r host_accounting [OF r] by auto
qed

theorem lock_unlock_roundtrip_witness:
  "\<exists>(s :: host_state) t u. HostIF_LockPage all_memory (Some 77) 1 4096 False s = Some (77, t)
     \<and> HostIF_UnlockPage 1 4096 t = Some (PAGE_UNLOCK_NO_ERROR, u) \<and> page_refs u = page_refs s"
proof -
  obtain s :: host_state and mt P where s: "host_inv {1} s" "\<forall>k. held s 1 k = {}"
    "vm_memtracker (vm_mem s 1) = Some mt" "physTracker_of s 1 = Some P" "unat (numPages mt) = 0"
    by (rule machine_steps)
  have v: "(1 :: ptr) \<in> {1}" by simp
  have z: "locked_at s 1 (VA_2_VPN 4096) = 0" using s(2) by (simp add: locked_at_empty)
  have "(77 :: MPN) \<noteq> 0" "(77 :: MPN) \<notin> (\<Union>w \<in> {1}. held s w Pinned)" "unat (numPages mt) < 1131520"
    using s(2,5) by simp_all
  from lock_unlock_roundtrip [where al = all_memory and page = None, OF s(1) v s(3,4) z this] show ?thesis by blast
qed

theorem lock_page_panics_without_memory_witness:
  "\<exists>s :: host_state. host_inv {1} s \<and> HostIF_LockPage (all_memory\<lparr>la_mt2 := False\<rparr>) (Some 77) 1 4096 False s = None"
proof -
  obtain s :: host_state and mt P where s: "host_inv {1} s" "\<forall>k. held s 1 k = {}"
    "vm_memtracker (vm_mem s 1) = Some mt" "physTracker_of s 1 = Some P" "unat (numPages mt) = 0" "MemTrack_Init True (\<lambda>_. True) = Some mt"
    by (rule machine_steps)
  have v: "(1 :: ptr) \<in> {1}" by simp
  note I = MemTrack_Init_ok [OF s(6)]
  have z: "MemTrack_LookupVPN mt (VA_2_VPN 4096) = Some None"
    by (rule LookupVPN_pairs [OF I(1), of "VA_2_VPN 4096"]) (simp_all add: s(5))
  have n: "numPages mt = 0" using s(5) by (simp add: unat_eq_0)
  have "fst (MemTrack_Add False True (VA_2_VPN 4096) 77 mt) = None"
    using s(6) by (auto simp: MemTrack_Init_def MemTrack_Add_def n MEMTRACK_IDX2DIR_def MemTrackAllocDir_def
        MEMTRACK_DIR1_ENTRIES_def split: if_splits)
  then show ?thesis using lock_page_panics_without_memory [OF s(1) v s(3,4) z, of 77 "all_memory\<lparr>la_mt2 := False\<rparr>"] s(1,2)
    by auto
qed

theorem free_locked_pages_witness:
  "\<exists>(s :: host_state) (t :: host_state). HostIF_FreeLockedPages 1 (Some [77]) 1 False s = Some (- EINVAL, s)
     \<and> HostIF_FreeLockedPages 1 (Some [77]) 1 False t \<noteq> None \<and> HostIF_FreeLockedPages 1 (Some [77, 77]) 2 False t = None"
proof -
  obtain s :: host_state and mt P where s: "host_inv {1} s" "\<forall>k. held s 1 k = {}" "AWEPages_of s 1 = Some 13"
    by (rule machine_steps)
  have v: "(1 :: ptr) \<in> {1}" by simp
  have r: "page_refs s 77 = 0" using s(1,2) by (simp add: host_inv_def holders_def)
  have f: "distinct (List.map_filter fst [(Some (77 :: MPN), True, True, True)])"
    "\<forall>m \<in> set (List.map_filter fst [(Some 77, True, True, True)]). page_refs s m = 0"
    by (simp_all add: map_filter_simps r)
  have "\<exists>t new r. HostIF_AllocLockedPages [(Some 77, True, True, True)] 1 1 s = Some (r, new, t) \<and> host_inv {1} t
    \<and> changed {1} s t 1 AWE (held s 1 AWE \<union> set new)"
    using AllocLockedPages_inv [OF s(1) v s(3) _ f, of 1] by auto
  then obtain t new r where t: "host_inv {1} t" "changed {1} s t 1 AWE (held s 1 AWE \<union> set new)"
      "HostIF_AllocLockedPages [(Some 77, True, True, True)] 1 1 s = Some (r, new, t)" by blast
  have new: "new = [77]" using t(3) s(3) by (auto simp: HostIF_AllocLockedPages_def Let_def bind_eq_Some_conv)
  have h: "held t 1 AWE = {77}" using changed_held [OF t(2) v] s(2) new by simp
  have a: "AWEPages_of t 1 = Some 13" using s(3) AllocLockedPages_frame [OF t(3)] by (simp add: AWEPages_of_def)
  have "HostIF_FreeLockedPages 1 (Some [77]) 1 False s = Some (- EINVAL, s)"
    using free_locked_pages [OF s(1) v s(3), of False 1 "[77]"] s(2) by simp
  moreover have "HostIF_FreeLockedPages 1 (Some [77]) 1 False t \<noteq> None"
    using free_locked_pages [OF t(1) v a, of False 1 "[77]"] h by auto
  moreover have "HostIF_FreeLockedPages 1 (Some [77, 77]) 2 False t = None"
    using free_locked_pages [OF t(1) v a, of False 2 "[77, 77]"] h by simp
  ultimately show ?thesis by blast
qed

end
