(* ===== verification/Vmx86.thy ===== *)
theory Vmx86
  imports HostLocking
begin

text \<open>
  The virtual machines of the driver and the accounting of their memory,
  \<open>vmmon-only/common/vmx86.c\<close>: the list of machines and their ids, the limits on locked pages, the
  reservation of pages before they are locked, admission control and the rate of the host clock.
  The state extends that of \<open>HostPages\<close>.  The kernel's statistics and answers are arguments.
  An access outside of the table of ids, a panic and a null pointer are \<open>None\<close>.
\<close>

record vmx_state = host_state +
  vmDriverList :: "ptr list"
  vm_live :: "ptr set"
  vmIDList :: "int list"
  vmIDsAllocated :: int
  vmIDsUnused :: int
  lpl_host :: u32
  lpl_configured :: u32
  lpl_dynamic :: u32
  minVmMemPct :: u32
  numLockedPages :: u32
  vmCount :: u32
  fdCount :: u32
  globalFastClockRate :: u32
  tsc_initialized :: bool

definition INVALID_VMID :: int where "INVALID_VMID = - 1"
definition MAX_VMS :: nat where "MAX_VMS = 64"
definition MAX_LOCKED_PAGES :: u32 where "MAX_LOCKED_PAGES = - 1"
definition LOCKED_PAGE_SLACK :: u32 where "LOCKED_PAGE_SLACK = 10000"
definition MAX_INT32 :: u32 where "MAX_INT32 = 0x7fffffff"

definition PAGE_LOCK_SUCCESS :: "u32 \<Rightarrow> bool" where
  "PAGE_LOCK_SUCCESS mpn \<longleftrightarrow> 0 \<le> sint mpn"

section \<open>The ids of the machines\<close>

definition Vmx86_InitIDList :: "'a vmx_state_scheme \<Rightarrow> 'a vmx_state_scheme" where
  "Vmx86_InitIDList s = s\<lparr>vmIDList := (map (\<lambda>i. int i + 1) [0 ..< MAX_VMS])[MAX_VMS - 1 := INVALID_VMID],
     vmIDsUnused := 0, vmIDsAllocated := INVALID_VMID\<rparr>"

definition id_at :: "int list \<Rightarrow> int \<Rightarrow> int option" where
  "id_at l i = (if 0 \<le> i \<and> nat i < length l then Some (l ! nat i) else None)"

text \<open>The loop of \<open>Vmx86FreeVMID\<close>: the id whose successor is to be freed.\<close>

partial_function (option) find_prev :: "int list \<Rightarrow> int \<Rightarrow> int \<Rightarrow> int option option" where
  "find_prev l vmID i = Option.bind (id_at l i) (\<lambda>n.
     if n = INVALID_VMID then Some None else if n = vmID then Some (Some i) else find_prev l vmID n)"

definition Vmx86FreeVMID :: "int \<Rightarrow> 'a vmx_state_scheme \<Rightarrow> 'a vmx_state_scheme option" where
  "Vmx86FreeVMID vmID s =
     (let l = vmIDList s
      in if vmID = vmIDsAllocated s
         then map_option (\<lambda>tmp. s\<lparr>vmIDList := l[nat vmID := vmIDsUnused s], vmIDsAllocated := tmp, vmIDsUnused := vmID\<rparr>)
                (id_at l vmID)
         else Option.bind (find_prev l vmID (vmIDsAllocated s)) (\<lambda>r. case r of None \<Rightarrow> Some s
           | Some i \<Rightarrow> map_option (\<lambda>n. s\<lparr>vmIDList := l[nat i := n, nat vmID := vmIDsUnused s], vmIDsUnused := vmID\<rparr>)
                        (id_at l vmID)))"

definition Vmx86AllocVMID :: "'a vmx_state_scheme \<Rightarrow> (int \<times> 'a vmx_state_scheme) option" where
  "Vmx86AllocVMID s =
     (let vmID = vmIDsUnused s
      in map_option (\<lambda>n. (vmID, s\<lparr>vmIDsUnused := n, vmIDList := (vmIDList s)[nat vmID := vmIDsAllocated s],
             vmIDsAllocated := vmID\<rparr>)) (id_at (vmIDList s) vmID))"

definition upd_memInfo :: "ptr \<Rightarrow> (VMMemMgmtInfo \<Rightarrow> VMMemMgmtInfo) \<Rightarrow> 'a host_state_scheme \<Rightarrow> 'a host_state_scheme" where
  "upd_memInfo v f = upd_vm v (\<lambda>vm. vm\<lparr>vm_memInfo := f (vm_memInfo vm)\<rparr>)"

definition Vmx86RegisterVMOnList :: "ptr \<Rightarrow> 'a vmx_state_scheme \<Rightarrow> 'a vmx_state_scheme option" where
  "Vmx86RegisterVMOnList v s =
     map_option (\<lambda>(vmID, s1).
       let s2 = upd_vm v (\<lambda>vm. vm\<lparr>vm_userID := vmID + 1\<rparr>) s1
       in if v \<in> set (vmDriverList s2) then s2 else s2\<lparr>vmDriverList := vmDriverList s2 @ [v]\<rparr>)
     (Vmx86AllocVMID (s\<lparr>vmCount := vmCount s + 1\<rparr>))"

definition Vmx86DeleteVMFromList :: "ptr \<Rightarrow> 'a vmx_state_scheme \<Rightarrow> 'a vmx_state_scheme option" where
  "Vmx86DeleteVMFromList v s =
     (if v \<notin> set (vmDriverList s) then Some s
      else map_option (\<lambda>s1.
          let s2 = s1\<lparr>numLockedPages := numLockedPages s1 - mi_locked (vm_memInfo (vm_mem s1 v))\<rparr>
          in if vmCount s2 = 0 then s2\<lparr>lpl_configured := 0\<rparr> else s2)
        (Vmx86FreeVMID (vm_userID (vm_mem s v) - 1)
          (s\<lparr>vmDriverList := remove1 v (vmDriverList s), vmCount := vmCount s - 1\<rparr>)))"

section \<open>The limits on locked pages\<close>

record mem_stats =
  ms_totalram :: u32
  ms_pagetable :: u32
  ms_slab :: u32
  ms_unevictable :: u32
  ms_anon :: u32
  ms_swapSize :: u64

definition HostIF_EstimateLockedPageLimit :: "mem_stats \<Rightarrow> VMDriver option \<Rightarrow> u32 \<Rightarrow> u32 option" where
  "HostIF_EstimateLockedPageLimit ms vm currentlyLockedPages =
     (let totalPhysicalPages = ms_totalram ms;
          reservedPages = 32768;
          lockedPages = ms_pagetable ms + ms_slab ms + ms_unevictable ms + reservedPages;
          anonPages = ms_anon ms;
          swapPages = ucast (drop_bit 12 (ms_swapSize ms)) :: u32
      in map_option (\<lambda>(lockedPages, anonPages).
           let lockedPages = (if swapPages < anonPages then lockedPages + (anonPages - swapPages) else lockedPages);
               forHost = lockedPages + LOCKED_PAGE_SLACK;
               forHost = (if totalPhysicalPages < forHost then totalPhysicalPages else forHost)
           in totalPhysicalPages - forHost)
         (case vm of None \<Rightarrow> Some (lockedPages, anonPages)
          | Some d \<Rightarrow>
              let lockedPages = lockedPages + ucast (mi_hugePageBytes (vm_memInfo d))
              in map_option (\<lambda>h.
                   if vh_usingMlock h
                   then (if currentlyLockedPages < lockedPages then lockedPages - currentlyLockedPages else 0, anonPages)
                   else if vh_swapBacked h
                   then (lockedPages, if currentlyLockedPages < anonPages then anonPages - currentlyLockedPages else 0)
                   else (lockedPages, anonPages)) (vm_vmhost d)))"

definition Vmx86AdjustLimitForOverheads :: "ptr option \<Rightarrow> u32 \<Rightarrow> 'a vmx_state_scheme \<Rightarrow> u32" where
  "Vmx86AdjustLimitForOverheads vm limit s =
     (let extraCost = (case vm of None \<Rightarrow> 0 | Some v \<Rightarrow> vmCount s * mi_perVMOverhead (vm_memInfo (vm_mem s v)))
      in if extraCost < limit then limit - extraCost else 0)"

definition Vmx86LockedPageLimit :: "mem_stats \<Rightarrow> ptr option \<Rightarrow> 'a vmx_state_scheme \<Rightarrow> (u32 \<times> 'a vmx_state_scheme) option" where
  "Vmx86LockedPageLimit ms vm s =
     map_option (\<lambda>h. let s1 = s\<lparr>lpl_host := h\<rparr>;
           overallLimit = min (min (lpl_configured s1) (lpl_dynamic s1)) (lpl_host s1)
         in (Vmx86AdjustLimitForOverheads vm overallLimit s1, s1))
       (HostIF_EstimateLockedPageLimit ms (map_option (vm_mem s) vm) (numLockedPages s))"

definition Vmx86LockedPageLimitForAdmissonControl :: "ptr option \<Rightarrow> 'a vmx_state_scheme \<Rightarrow> u32" where
  "Vmx86LockedPageLimitForAdmissonControl vm s =
     Vmx86AdjustLimitForOverheads vm (min (lpl_configured s) (lpl_dynamic s)) s"

definition Vmx86HasFreePages ::
  "mem_stats \<Rightarrow> ptr \<Rightarrow> u32 \<Rightarrow> bool \<Rightarrow> 'a vmx_state_scheme \<Rightarrow> (bool \<times> 'a vmx_state_scheme) option" where
  "Vmx86HasFreePages ms v n checkVM s =
     (if checkVM then
        let mi = vm_memInfo (vm_mem s v)
        in Some (if mi_admitted mi
                 then if mi_maxAllocation mi \<le> mi_locked mi then False
                      else if mi_maxAllocation mi - mi_locked mi < n then False else True
                 else True, s)
      else map_option (\<lambda>(limit, s1).
             (if limit \<le> numLockedPages s1 then False
              else if limit - numLockedPages s1 < n then False else True, s1))
           (Vmx86LockedPageLimit ms (Some v) s))"

text \<open>The kernel's statistics at each of the (three) tries.\<close>

fun reserve_tries :: "mem_stats list \<Rightarrow> ptr \<Rightarrow> u32 \<Rightarrow> 'a vmx_state_scheme \<Rightarrow> (bool \<times> 'a vmx_state_scheme) option" where
  "reserve_tries [] v n s = Some (False, s)"
| "reserve_tries (ms # mss) v n s =
     Option.bind (Vmx86HasFreePages ms v n True s) (\<lambda>(r, s1).
       if \<not> r then Some (False, s1)
       else Option.bind (Vmx86HasFreePages ms v n False s1) (\<lambda>(r, s2).
         if r then Some (True, upd_memInfo v (\<lambda>mi. mi\<lparr>mi_locked := mi_locked mi + n\<rparr>)
                                 (s2\<lparr>numLockedPages := numLockedPages s2 + n\<rparr>))
         else reserve_tries mss v n s2))"

definition Vmx86ReserveFreePages ::
  "mem_stats \<times> mem_stats \<times> mem_stats \<Rightarrow> ptr \<Rightarrow> u32 \<Rightarrow> 'a vmx_state_scheme \<Rightarrow> (bool \<times> 'a vmx_state_scheme) option" where
  "Vmx86ReserveFreePages mss v n s = (case mss of (m1, m2, m3) \<Rightarrow> reserve_tries [m1, m2, m3] v n s)"

definition Vmx86UnreserveFreePages :: "ptr \<Rightarrow> u32 \<Rightarrow> 'a vmx_state_scheme \<Rightarrow> 'a vmx_state_scheme" where
  "Vmx86UnreserveFreePages v n s =
     upd_memInfo v (\<lambda>mi. mi\<lparr>mi_locked := mi_locked mi - n\<rparr>) (s\<lparr>numLockedPages := numLockedPages s - n\<rparr>)"

definition Vmx86_SetConfiguredLockedPagesLimit :: "u32 \<Rightarrow> 'a vmx_state_scheme \<Rightarrow> bool \<times> 'a vmx_state_scheme" where
  "Vmx86_SetConfiguredLockedPagesLimit limit s =
     (if lpl_configured s \<le> limit then (True, s\<lparr>lpl_configured := limit\<rparr>) else (False, s))"

definition Vmx86_SetDynamicLockedPagesLimit :: "u32 \<Rightarrow> 'a vmx_state_scheme \<Rightarrow> 'a vmx_state_scheme" where
  "Vmx86_SetDynamicLockedPagesLimit limit s = s\<lparr>lpl_dynamic := limit\<rparr>"

section \<open>Locked pages\<close>

text \<open>Each operation reserves the pages first and gives back what it did not use.\<close>

definition Vmx86_LockPage ::
  "mem_stats \<times> mem_stats \<times> mem_stats \<Rightarrow> lock_alloc \<Rightarrow> MPN option \<Rightarrow> ptr \<Rightarrow> u64 \<Rightarrow> bool \<Rightarrow> 'a vmx_state_scheme
     \<Rightarrow> (MPN \<times> 'a vmx_state_scheme) option" where
  "Vmx86_LockPage mss al page v uAddr allowMultiple s =
     Option.bind (Vmx86ReserveFreePages mss v 1 s) (\<lambda>(ok, s1).
       if \<not> ok then Some (PAGE_LOCK_LIMIT_EXCEEDED, s1)
       else map_option (\<lambda>(mpn, s2). (mpn, if \<not> PAGE_LOCK_SUCCESS mpn then Vmx86UnreserveFreePages v 1 s2 else s2))
              (HostIF_LockPage al page v uAddr allowMultiple s1))"

definition Vmx86_UnlockPage :: "ptr \<Rightarrow> u64 \<Rightarrow> 'a vmx_state_scheme \<Rightarrow> (u32 \<times> 'a vmx_state_scheme) option" where
  "Vmx86_UnlockPage v uAddr s =
     map_option (\<lambda>(retval, s1). (retval, if PAGE_LOCK_SUCCESS retval then Vmx86UnreserveFreePages v 1 s1 else s1))
       (HostIF_UnlockPage v uAddr s)"

definition Vmx86_UnlockPageByMPN :: "ptr \<Rightarrow> MPN \<Rightarrow> 'a vmx_state_scheme \<Rightarrow> (u32 \<times> 'a vmx_state_scheme) option" where
  "Vmx86_UnlockPageByMPN v mpn s =
     map_option (\<lambda>(retval, s1). (retval, if PAGE_LOCK_SUCCESS retval then Vmx86UnreserveFreePages v 1 s1 else s1))
       (HostIF_UnlockPageByMPN v mpn s)"

definition Vmx86_AllocLockedPages ::
  "mem_stats \<times> mem_stats \<times> mem_stats \<Rightarrow> (MPN option \<times> bool \<times> bool \<times> bool) list \<Rightarrow> ptr \<Rightarrow> u32 \<Rightarrow> 'a vmx_state_scheme
     \<Rightarrow> (int \<times> MPN list \<times> 'a vmx_state_scheme) option" where
  "Vmx86_AllocLockedPages mss ps v n s =
     Option.bind (Vmx86ReserveFreePages mss v n s) (\<lambda>(ok, s1).
       if \<not> ok then Some (sint PAGE_LOCK_LIMIT_EXCEEDED, [], s1)
       else map_option (\<lambda>(allocated, out, s2).
              (allocated, out,
               if allocated < 0 then Vmx86UnreserveFreePages v n s2
               else if word_of_int allocated < n then Vmx86UnreserveFreePages v (n - word_of_int allocated) s2
               else s2))
            (HostIF_AllocLockedPages ps v n s1))"

definition Vmx86_FreeLockedPages ::
  "ptr \<Rightarrow> MPN list option \<Rightarrow> u32 \<Rightarrow> bool \<Rightarrow> 'a vmx_state_scheme \<Rightarrow> (int \<times> 'a vmx_state_scheme) option" where
  "Vmx86_FreeLockedPages v buf n kernelMPNBuffer s =
     map_option (\<lambda>(ret, s1). (ret, if ret = 0 then Vmx86UnreserveFreePages v n s1 else s1))
       (HostIF_FreeLockedPages v buf n kernelMPNBuffer s)"

definition Vmx86_IsAnonPage :: "ptr \<Rightarrow> MPN \<Rightarrow> 'a vmx_state_scheme \<Rightarrow> bool" where
  "Vmx86_IsAnonPage v mpn s = HostIF_IsAnonPage v mpn s"

definition Vmx86_GetLockedPageList :: "(nat \<Rightarrow> bool) \<Rightarrow> ptr \<Rightarrow> u32 \<Rightarrow> 'a vmx_state_scheme \<Rightarrow> int \<times> MPN list" where
  "Vmx86_GetLockedPageList copied v n s = HostIF_GetLockedPageList copied v n s"

section \<open>The clock rate\<close>

text \<open>\<open>set_rate\<close> is the result of \<open>HostIF_SetFastClockRate\<close> for the new rate.\<close>

definition newGlobalRate :: "ptr \<Rightarrow> u32 \<Rightarrow> 'a vmx_state_scheme \<Rightarrow> u32" where
  "newGlobalRate v rate s = foldl (\<lambda>r w. if w \<noteq> v \<and> r < vm_fastClockRate (vm_mem s w)
     then vm_fastClockRate (vm_mem s w) else r) rate (vmDriverList s)"

definition Vmx86_SetHostClockRate :: "(u32 \<Rightarrow> int) \<Rightarrow> ptr option \<Rightarrow> u32 \<Rightarrow> 'a vmx_state_scheme \<Rightarrow> int \<times> 'a vmx_state_scheme" where
  "Vmx86_SetHostClockRate set_rate vm rate s =
     (case vm of None \<Rightarrow> (set_rate (globalFastClockRate s), s)
      | Some v \<Rightarrow>
          if vm_fastClockRate (vm_mem s v) = rate then (0, s)
          else
            let new = newGlobalRate v rate s;
                (retval, s1) = (if new \<noteq> globalFastClockRate s
                  then (set_rate new, if set_rate new = 0 then s\<lparr>globalFastClockRate := new\<rparr> else s)
                  else (0, s))
            in (retval, if retval = 0 then upd_vm v (\<lambda>d. d\<lparr>vm_fastClockRate := rate\<rparr>) s1 else s1))"

section \<open>Machines come and go\<close>

definition Vmx86FreeAllVMResources :: "(u32 \<Rightarrow> int) \<Rightarrow> ptr \<Rightarrow> 'a vmx_state_scheme \<Rightarrow> 'a vmx_state_scheme option" where
  "Vmx86FreeAllVMResources set_rate v s =
     map_option (\<lambda>s1. s1\<lparr>vm_live := vm_live s1 - {v}\<rparr>)
       (HostIF_FreeAllResources v (snd (Vmx86_SetHostClockRate set_rate (Some v) 0 s)))"

text \<open>The allocations: of the machine, and of what \<open>HostIF_Init\<close> needs.\<close>

record vm_alloc =
  va_vm :: "ptr option"
  va_memtracker :: "MemTrack option"
  va_vmhost :: bool
  va_physTracker :: "ptr option"
  va_lockedPages :: "ptr option"
  va_AWEPages :: "ptr option"

definition Vmx86_CreateVM :: "(u32 \<Rightarrow> int) \<Rightarrow> vm_alloc \<Rightarrow> 'a vmx_state_scheme \<Rightarrow> (ptr option \<times> 'a vmx_state_scheme) option" where
  "Vmx86_CreateVM set_rate va s =
     (case va_vm va of None \<Rightarrow> Some (None, s)
      | Some v \<Rightarrow>
          let s1 = upd_vm v (\<lambda>_. zero_VMDriver) (s\<lparr>vm_live := insert v (vm_live s)\<rparr>);
              (ok, s2) = HostIF_Init (va_memtracker va) (va_vmhost va) (va_physTracker va) (va_lockedPages va) (va_AWEPages va) v s1
          in if \<not> ok then map_option (Pair None) (Vmx86FreeAllVMResources set_rate v s2)
             else if of_nat MAX_VMS \<le> vmCount s2 then map_option (Pair None) (Vmx86FreeAllVMResources set_rate v s2)
             else map_option (Pair (Some v)) (Vmx86RegisterVMOnList v s2))"

definition Vmx86_ReleaseVM :: "(u32 \<Rightarrow> int) \<Rightarrow> ptr \<Rightarrow> 'a vmx_state_scheme \<Rightarrow> (int \<times> 'a vmx_state_scheme) option" where
  "Vmx86_ReleaseVM set_rate v s =
     Option.bind (Vmx86DeleteVMFromList v s) (\<lambda>s1. map_option (Pair 0) (Vmx86FreeAllVMResources set_rate v s1))"

definition Vmx86_Open :: "'a vmx_state_scheme \<Rightarrow> 'a vmx_state_scheme" where
  "Vmx86_Open s = (if fdCount s < MAX_INT32 then s\<lparr>fdCount := fdCount s + 1\<rparr> else s)"

definition Vmx86_Close :: "'a vmx_state_scheme \<Rightarrow> 'a vmx_state_scheme" where
  "Vmx86_Close s =
     (let s1 = (if fdCount s < MAX_INT32 then s\<lparr>fdCount := fdCount s - 1\<rparr> else s)
      in if fdCount s1 = 0 then s1\<lparr>tsc_initialized := False\<rparr> else s1)"

definition Vmx86_GetNumVMs :: "'a vmx_state_scheme \<Rightarrow> int" where
  "Vmx86_GetNumVMs s = sint (vmCount s)"

section \<open>Admission control\<close>

definition RatioOf :: "u32 \<Rightarrow> u32 \<Rightarrow> u32 \<Rightarrow> u32" where
  "RatioOf numer1 numer2 denom = ucast ((ucast numer1 * ucast numer2 :: u64) div ucast denom)"

definition Vmx86MinAllocationFunc :: "u32 \<Rightarrow> u32 \<Rightarrow> u32 \<Rightarrow> u32 \<Rightarrow> u32" where
  "Vmx86MinAllocationFunc paged nonpaged swappable memPct =
     (let swappable = min swappable paged in RatioOf memPct swappable 100 + (paged - swappable) + nonpaged)"

definition Vmx86MinAllocation :: "VMMemMgmtInfo \<Rightarrow> u32 \<Rightarrow> u32" where
  "Vmx86MinAllocation mi memPct = Vmx86MinAllocationFunc (mi_paged mi) (mi_nonpaged mi) (mi_mainMemSize mi) memPct"

definition Vmx86CalculateGlobalMinAllocation :: "u32 \<Rightarrow> 'a vmx_state_scheme \<Rightarrow> u32" where
  "Vmx86CalculateGlobalMinAllocation memPct s =
     foldl (\<lambda>m w. let mi = vm_memInfo (vm_mem s w)
            in if mi_admitted mi then m + Vmx86MinAllocation mi memPct else m) 0 (vmDriverList s)"

definition Vmx86UpdateMinAllocations :: "u32 \<Rightarrow> 'a vmx_state_scheme \<Rightarrow> 'a vmx_state_scheme" where
  "Vmx86UpdateMinAllocations memPct s =
     foldl (\<lambda>s w. upd_memInfo w (\<lambda>mi. if mi_admitted mi then mi\<lparr>mi_minAllocation := Vmx86MinAllocation mi memPct\<rparr> else mi) s)
       s (vmDriverList s)"

definition Vmx86SetMemoryUsage :: "ptr \<Rightarrow> u32 \<Rightarrow> u32 \<Rightarrow> u32 \<Rightarrow> 'a vmx_state_scheme \<Rightarrow> bool \<times> 'a vmx_state_scheme" where
  "Vmx86SetMemoryUsage v paged nonpaged pct s =
     (let s1 = upd_memInfo v (\<lambda>mi. mi\<lparr>mi_paged := paged, mi_nonpaged := nonpaged\<rparr>) s;
          s2 = upd_memInfo v (\<lambda>mi. mi\<lparr>mi_minAllocation := Vmx86MinAllocation mi pct, mi_maxAllocation := paged + nonpaged\<rparr>) s1;
          mi = vm_memInfo (vm_mem s2 v)
      in (0 < mi_mainMemSize mi \<and> mi_mainMemSize mi \<le> paged, s2))"

record VMMemInfoArgs =
  ma_minVmMemPct :: u32
  ma_globalMinAllocation :: u32
  ma_numLockedPages :: u32
  ma_lockedPageLimit :: "u32 \<times> u32 \<times> u32"
  ma_maxLockedPages :: u32
  ma_callerIndex :: u32
  ma_numVMs :: u32
  ma_memInfo :: "VMMemMgmtInfo list"

definition lockedPageLimit :: "'a vmx_state_scheme \<Rightarrow> u32 \<times> u32 \<times> u32" where
  "lockedPageLimit s = (lpl_host s, lpl_configured s, lpl_dynamic s)"

definition Vmx86_Admit :: "mem_stats \<Rightarrow> ptr \<Rightarrow> VMMemInfoArgs \<Rightarrow> 'a vmx_state_scheme \<Rightarrow> (VMMemInfoArgs \<times> 'a vmx_state_scheme) option" where
  "Vmx86_Admit ms v args s =
     (let pct = ma_minVmMemPct args;
          arg = hd (ma_memInfo args);
          globalMin = Vmx86CalculateGlobalMinAllocation pct s;
          allow = (mi_mainMemSize arg \<le> mi_paged arg \<and> globalMin \<le> Vmx86LockedPageLimitForAdmissonControl None s);
          s1 = (if allow then Vmx86UpdateMinAllocations pct (s\<lparr>minVmMemPct := pct\<rparr>) else s);
          s2 = upd_memInfo v (\<lambda>mi. mi\<lparr>mi_shares := mi_shares arg, mi_usedPct := 100, mi_mainMemSize := mi_mainMemSize arg,
                 mi_perVMOverhead := mi_perVMOverhead arg, mi_admitted := False\<rparr>) s1;
          (ok, s3) = Vmx86SetMemoryUsage v (mi_paged arg) (mi_nonpaged arg) pct s2;
          s4 = (if ok \<and> allow \<and> globalMin + mi_minAllocation (vm_memInfo (vm_mem s3 v)) \<le> Vmx86LockedPageLimitForAdmissonControl (Some v) s3
                then upd_memInfo v (\<lambda>mi. mi\<lparr>mi_admitted := True\<rparr>) s3 else s3)
      in map_option (\<lambda>(limit, s5).
           (args\<lparr>ma_memInfo := (ma_memInfo args)[0 := vm_memInfo (vm_mem s4 v)], ma_numVMs := vmCount s4,
              ma_numLockedPages := numLockedPages s4, ma_maxLockedPages := limit, ma_lockedPageLimit := lockedPageLimit s5,
              ma_globalMinAllocation := globalMin\<rparr>, s5))
         (Vmx86LockedPageLimit ms (Some v) s4))"

text \<open>\<open>paged\<close> and \<open>nonpaged\<close> are the changes asked for.\<close>

definition Vmx86_Readmit :: "mem_stats \<Rightarrow> ptr \<Rightarrow> u32 \<Rightarrow> u32 \<Rightarrow> 'a vmx_state_scheme \<Rightarrow> (bool \<times> 'a vmx_state_scheme) option" where
  "Vmx86_Readmit ms v dpaged dnonpaged s =
     (let mi = vm_memInfo (vm_mem s v);
          globalMin = Vmx86CalculateGlobalMinAllocation (minVmMemPct s) s;
          paged = mi_paged mi + dpaged;
          nonpaged = mi_nonpaged mi + dnonpaged
      in if \<not> (0 \<le> sint nonpaged \<and> sint (mi_mainMemSize mi) \<le> sint paged) then Some (False, s)
         else
           let globalMin = globalMin - Vmx86MinAllocation mi (minVmMemPct s);
               newMin = Vmx86MinAllocationFunc paged nonpaged (mi_mainMemSize mi) (minVmMemPct s)
           in map_option (\<lambda>(limit, s1).
                if globalMin + newMin \<le> limit \<or> (sint dpaged \<le> 0 \<and> sint dnonpaged \<le> 0)
                then Vmx86SetMemoryUsage v paged nonpaged (minVmMemPct s1) s1
                else (False, s1))
              (Vmx86LockedPageLimit ms (Some v) s))"

record VMMemMgmtInfoPatch =
  mp_breaksAvg :: u32
  mp_sharedPctAvg :: u8
  mp_usedPct :: u8
  mp_hugePageBytes :: u64

definition Vmx86_UpdateMemInfo :: "ptr \<Rightarrow> VMMemMgmtInfoPatch \<Rightarrow> 'a vmx_state_scheme \<Rightarrow> 'a vmx_state_scheme" where
  "Vmx86_UpdateMemInfo v patch = upd_memInfo v (\<lambda>mi.
     (if mp_usedPct patch \<le> 100 then mi\<lparr>mi_usedPct := mp_usedPct patch\<rparr> else mi)
       \<lparr>mi_sharedPctAvg := mp_sharedPctAvg patch, mi_breaksAvg := mp_breaksAvg patch, mi_hugePageBytes := mp_hugePageBytes patch\<rparr>)"

definition Vmx86_GetTotalMemUsage :: "'a vmx_state_scheme \<Rightarrow> u32" where
  "Vmx86_GetTotalMemUsage s =
     foldl (\<lambda>m w. let mi = vm_memInfo (vm_mem s w)
            in if mi_admitted mi then m + drop_bit 8 ((mi_mainMemSize mi + 256 - 1) div 256 * 256) else m) 0 (vmDriverList s)"

text \<open>The state of the pages shared by copy-on-write, which is filled with constants, is left out of the answers.\<close>

definition Vmx86_GetMemInfoCopy :: "mem_stats \<Rightarrow> ptr option \<Rightarrow> VMMemInfoArgs \<Rightarrow> 'a vmx_state_scheme
     \<Rightarrow> ((bool \<times> VMMemInfoArgs) \<times> 'a vmx_state_scheme) option" where
  "Vmx86_GetMemInfoCopy ms curVM buf s =
     (if ma_numVMs buf < vmCount s then Some ((False, buf), s)
      else map_option (\<lambda>(limit, s1).
        let l = vmDriverList s1
        in ((True, buf\<lparr>ma_numLockedPages := numLockedPages s1, ma_maxLockedPages := limit, ma_lockedPageLimit := lockedPageLimit s1,
              ma_globalMinAllocation := Vmx86CalculateGlobalMinAllocation (minVmMemPct s1) s1, ma_minVmMemPct := minVmMemPct s1,
              ma_numVMs := of_nat (length l),
              ma_callerIndex := (case curVM of None \<Rightarrow> ma_callerIndex buf
                 | Some v \<Rightarrow> if v \<in> set l then of_nat (length (takeWhile (\<lambda>w. w \<noteq> v) l)) else ma_callerIndex buf),
              ma_memInfo := map (\<lambda>w. vm_memInfo (vm_mem s1 w)) l @ drop (length l) (ma_memInfo buf)\<rparr>), s1))
        (Vmx86LockedPageLimit ms curVM s))"

end
