(* ===== verification/VmxIds.thy ===== *)
theory VmxIds
  imports Vmx86
begin

text \<open>
  The table of machine ids of \<open>Vmx86\<close>: two lists that run through one array, the ids in use and the
  ids that are free.  Allocating moves the head of the second to the first, freeing moves an id
  back; no id is ever in both, and none gets lost.
\<close>

fun id_chain :: "int list \<Rightarrow> int \<Rightarrow> int list \<Rightarrow> bool" where
  "id_chain l i [] \<longleftrightarrow> i = INVALID_VMID"
| "id_chain l i (x # xs) \<longleftrightarrow> i = x \<and> 0 \<le> x \<and> nat x < length l \<and> id_chain l (l ! nat x) xs"

lemma id_chain_pos: "id_chain l i xs \<Longrightarrow> y \<in> set xs \<Longrightarrow> 0 \<le> y"
  by (induction xs arbitrary: i) auto

lemma id_chain_upd: "id_chain l i xs \<Longrightarrow> x \<notin> set xs \<Longrightarrow> 0 \<le> x \<Longrightarrow> id_chain (l[nat x := y]) i xs"
  by (induction xs arbitrary: i) (auto simp: nth_list_update)

lemma id_chain_link:
  "id_chain l i (ys @ p # v # zs) \<Longrightarrow> distinct (ys @ p # v # zs) \<Longrightarrow> id_chain (l[nat p := l ! nat v, nat v := u]) i (ys @ p # zs)"
proof (induction ys arbitrary: i)
  case Nil
  have z: "id_chain l (l ! nat v) zs" using Nil by simp
  have "id_chain (l[nat p := l ! nat v, nat v := u]) (l ! nat v) zs"
    using Nil by (intro id_chain_upd z) auto
  then show ?case using Nil by (simp add: nth_list_update eq_nat_nat_iff)
next
  case (Cons y ys)
  then have "0 \<le> y" "0 \<le> p" "0 \<le> v" using id_chain_pos by fastforce+
  then have "nat y \<noteq> nat p" "nat y \<noteq> nat v" using Cons.prems(2) by (auto simp: eq_nat_nat_iff)
  then show ?case using Cons by (simp add: nth_list_update)
qed

lemma find_prev_link:
  "id_chain l i (ys @ p # v # zs) \<Longrightarrow> v \<notin> set ys \<Longrightarrow> v \<noteq> p \<Longrightarrow> find_prev l v i = Some (Some p)"
proof (induction ys arbitrary: i)
  case Nil
  then show ?case by (subst find_prev.simps) (simp add: id_at_def INVALID_VMID_def)
next
  case (Cons y ys)
  have "l ! nat y \<noteq> v \<and> l ! nat y \<noteq> INVALID_VMID"
    using Cons.prems by (cases ys) (auto simp: INVALID_VMID_def)
  then show ?case using Cons by (subst find_prev.simps) (simp add: id_at_def)
qed

definition ids_inv :: "int list \<Rightarrow> int list \<Rightarrow> 'a vmx_state_scheme \<Rightarrow> bool" where
  "ids_inv A U s \<longleftrightarrow> length (vmIDList s) = MAX_VMS \<and> id_chain (vmIDList s) (vmIDsAllocated s) A
     \<and> id_chain (vmIDList s) (vmIDsUnused s) U \<and> distinct (A @ U) \<and> set (A @ U) = {0 ..< int MAX_VMS}"

lemma initial_chain:
  "i < n \<Longrightarrow> n \<le> length l \<Longrightarrow> \<forall>k. i \<le> k \<and> Suc k < n \<longrightarrow> l ! k = int k + 1 \<Longrightarrow> l ! (n - 1) = INVALID_VMID
    \<Longrightarrow> id_chain l (int i) (map int [i ..< n])"
proof (induction "n - i" arbitrary: i)
  case (Suc d)
  show ?case
  proof (cases "Suc i = n")
    case True
    then show ?thesis using Suc.prems by (auto simp: upt_rec [of i n])
  next
    case False
    have "id_chain l (int (Suc i)) (map int [Suc i ..< n])"
      using Suc.hyps(2) Suc.prems False by (intro Suc.hyps(1)) auto
    then show ?thesis using Suc.prems False by (simp add: upt_conv_Cons [of i n] add.commute)
  qed
qed simp

lemma init_ids: "ids_inv [] (map int [0 ..< MAX_VMS]) (Vmx86_InitIDList s)"
proof -
  have "id_chain ((map (\<lambda>i. int i + 1) [0 ..< MAX_VMS])[MAX_VMS - 1 := INVALID_VMID]) (int 0) (map int [0 ..< MAX_VMS])"
    by (rule initial_chain) (auto simp: MAX_VMS_def nth_list_update)
  moreover have "int ` {0 ..< MAX_VMS} = {0 ..< int MAX_VMS}" by (auto simp: image_iff intro!: bexI [of _ "nat _"])
  ultimately show ?thesis by (simp add: ids_inv_def Vmx86_InitIDList_def distinct_map inj_on_def)
qed

lemma AllocVMID_ids:
  assumes "ids_inv A U s"
  shows "U = [] \<Longrightarrow> Vmx86AllocVMID s = None"
    and "U = x # U' \<Longrightarrow> \<exists>l a u. Vmx86AllocVMID s = Some (x, s\<lparr>vmIDsUnused := u, vmIDList := l, vmIDsAllocated := a\<rparr>)
      \<and> ids_inv (x # A) U' (s\<lparr>vmIDsUnused := u, vmIDList := l, vmIDsAllocated := a\<rparr>)"
proof -
  note i = assms [unfolded ids_inv_def]
  show "Vmx86AllocVMID s = None" if "U = []"
    using i that by (simp add: Vmx86AllocVMID_def id_at_def INVALID_VMID_def)
  assume U: "U = x # U'"
  let ?l = "(vmIDList s)[nat x := vmIDsAllocated s]"
  have "id_chain ?l (vmIDsAllocated s) A" "id_chain ?l (vmIDList s ! nat x) U'"
    using i U by (auto intro: id_chain_upd)
  moreover have "?l ! nat x = vmIDsAllocated s" using i U by simp
  moreover have "Vmx86AllocVMID s = Some (x, s\<lparr>vmIDsUnused := vmIDList s ! nat x, vmIDList := ?l, vmIDsAllocated := x\<rparr>)"
    using i U by (simp add: Vmx86AllocVMID_def id_at_def)
  ultimately show "\<exists>l a u. Vmx86AllocVMID s = Some (x, s\<lparr>vmIDsUnused := u, vmIDList := l, vmIDsAllocated := a\<rparr>)
      \<and> ids_inv (x # A) U' (s\<lparr>vmIDsUnused := u, vmIDList := l, vmIDsAllocated := a\<rparr>)"
    using i U by (intro exI conjI) (assumption | auto simp: ids_inv_def)+
qed

lemma FreeVMID_ids:
  assumes "ids_inv A U s" "x \<in> set A"
  shows "\<exists>l a u. Vmx86FreeVMID x s = Some (s\<lparr>vmIDList := l, vmIDsAllocated := a, vmIDsUnused := u\<rparr>)
    \<and> ids_inv (remove1 x A) (x # U) (s\<lparr>vmIDList := l, vmIDsAllocated := a, vmIDsUnused := u\<rparr>)"
proof -
  note i = assms(1) [unfolded ids_inv_def]
  let ?l = "vmIDList s"
  have c: "id_chain ?l (vmIDsAllocated s) A" "id_chain ?l (vmIDsUnused s) U" "distinct A" "length ?l = MAX_VMS" "x \<notin> set U"
    using i assms(2) by auto
  have "x \<in> {0 ..< int MAX_VMS}" using i assms(2) by auto
  then have x: "0 \<le> x" "nat x < MAX_VMS" by auto
  then have at: "id_at ?l x = Some (?l ! nat x)" using c(4) by (simp add: id_at_def)
  show ?thesis
  proof (cases A)
    case (Cons a A')
    show ?thesis
    proof (cases "a = x")
      case True
      have "id_chain (?l[nat x := vmIDsUnused s]) (?l ! nat x) A'" "id_chain (?l[nat x := vmIDsUnused s]) (vmIDsUnused s) U"
        using c Cons True x by (auto intro: id_chain_upd)
      moreover have "Vmx86FreeVMID x s = Some (s\<lparr>vmIDList := ?l[nat x := vmIDsUnused s], vmIDsAllocated := ?l ! nat x, vmIDsUnused := x\<rparr>)"
        using c(1) Cons True at by (simp add: Vmx86FreeVMID_def Let_def)
      ultimately show ?thesis using i x Cons True
        by (intro exI conjI) (assumption | auto simp: ids_inv_def)+
    next
      case False
      then have "x \<in> set A'" using assms(2) Cons by simp
      then obtain ys zs where "A' = ys @ x # zs" "x \<notin> set ys" by (meson split_list_first)
      moreover obtain qs p where "a # ys = qs @ [p]" by (metis rev_exhaust list.discI)
      ultimately have A: "A = qs @ p # x # zs" "x \<notin> set (qs @ [p])"
        using Cons False by (metis append.assoc append_Cons append_Nil, metis set_ConsD)
      have ne: "x \<noteq> vmIDsAllocated s" using c(1) Cons False by simp
      let ?l' = "?l[nat p := ?l ! nat x, nat x := vmIDsUnused s]"
      have p: "0 \<le> p" "p \<notin> set U" using c(1) id_chain_pos i A(1) by fastforce+
      have "id_chain ?l' (vmIDsAllocated s) (qs @ p # zs)" using id_chain_link c(1,3) A(1) by blast
      moreover have "id_chain ?l' (vmIDsUnused s) U" using c(2,5) p x by (intro id_chain_upd) auto
      moreover have "remove1 x A = qs @ p # zs" using A by (simp add: remove1_append)
      moreover have "Vmx86FreeVMID x s = Some (s\<lparr>vmIDList := ?l', vmIDsAllocated := vmIDsAllocated s, vmIDsUnused := x\<rparr>)"
      proof -
        have "Vmx86FreeVMID x s = Some (s\<lparr>vmIDList := ?l', vmIDsUnused := x\<rparr>)"
          using find_prev_link [of ?l _ qs p x zs] c(1) A ne at by (simp add: Vmx86FreeVMID_def Let_def)
        then show ?thesis by simp
      qed
      moreover have "set ((qs @ p # zs) @ x # U) = {0 ..< int MAX_VMS}" using i A(1) by auto
      moreover have "distinct ((qs @ p # zs) @ x # U)" using i A(1) by auto
      ultimately show ?thesis using c(4) x
        by (intro exI [of _ ?l'] exI [of _ "vmIDsAllocated s"] exI [of _ x]) (simp add: ids_inv_def)
    qed
  qed (use assms(2) in simp)
qed

end
