(* ===== verification/VmxFrames.thy ===== *)
theory VmxFrames
  imports VmxIds
begin

text \<open>
  What the operations of \<open>HostPages\<close> leave alone of the state of \<open>Vmx86\<close>, and what the bookkeeping of
  \<open>Vmx86\<close> leaves alone of the state of \<open>HostPages\<close>.
\<close>

subsection \<open>The bookkeeping of the driver\<close>

definition books :: "'a host_state_scheme \<Rightarrow> 'a \<times> (ptr \<Rightarrow> int \<times> VMMemMgmtInfo \<times> u32)" where
  "books s = (host_state.more s, \<lambda>w. (vm_userID (vm_mem s w), vm_memInfo (vm_mem s w), vm_fastClockRate (vm_mem s w)))"

lemma books_upd [simp]:
  "books (upd_pt p f s) = books s" "books (get_page m s) = books s" "books (s\<lparr>page_refs := r\<rparr>) = books s"
  "books (s\<lparr>pt_mem := x\<rparr>) = books s"
  "books (s\<lparr>pt_live := l\<rparr>) = books s" "books (s\<lparr>physTracker := y\<rparr>) = books s"
  "books (upd_vm v (\<lambda>vm. vm\<lparr>vm_memtracker := z\<rparr>) s) = books s"
  "books (upd_vm v (\<lambda>vm. vm\<lparr>vm_vmhost := h\<rparr>) s) = books s" "books (upd_vmhost v g s) = books s"
  by (auto simp: books_def upd_pt_def get_page_def upd_vm_def upd_vmhost_def)

lemma books_put_page: "put_page m s = Some t \<Longrightarrow> books t = books s"
  by (auto simp: put_page_def split: if_splits)

lemma books_track_page: "track_page a b p m s = Some t \<Longrightarrow> books t = books s"
  by (auto simp: track_page_def)

lemma books_untrack_page: "untrack_page p m s = Some t \<Longrightarrow> books t = books s"
  by (auto simp: untrack_page_def)

lemmas books_page = books_put_page books_track_page books_untrack_page

lemma books_PhysTrack_Cleanup: "PhysTrack_Cleanup p s = Some t \<Longrightarrow> books t = books s"
  by (auto simp: PhysTrack_Cleanup_def Let_def split: if_splits)

lemma books_for_each_page:
  "for_each_page nxt f m s = Some t \<Longrightarrow> (\<forall>m s t. f m s = Some t \<longrightarrow> books t = books s) \<longrightarrow> books t = books s"
  by (erule for_each_page.raw_induct [where P = "\<lambda>nxt f m s t. (\<forall>m s t. f m s = Some t \<longrightarrow> books t = books s) \<longrightarrow> books t = books s", rotated])
    (auto simp: Let_def split: if_splits option.splits)

lemma books_cleanup:
  "(\<And>e s e' t. f e s = Some (e', t) \<Longrightarrow> books t = books s) \<Longrightarrow> cleanup_entries f es d s = Some (d', t) \<Longrightarrow> books t = books s"
  by (induction es arbitrary: s d) (auto split: option.splits prod.splits)

lemma books_release_tracked: "release_tracked p m s = Some t \<Longrightarrow> books t = books s"
  by (auto simp: release_tracked_def bind_eq_Some_conv dest!: books_page)

lemma books_drain_tracker: "drain_tracker p s = Some t \<Longrightarrow> books t = books s"
  by (auto simp: drain_tracker_def bind_eq_Some_conv dest!: books_PhysTrack_Cleanup books_for_each_page
      dest: books_release_tracked)

lemma books_UnlockEntry: "UnlockEntry v e s = Some (e', t) \<Longrightarrow> books t = books s"
  by (auto simp: UnlockEntry_def HOST_UNLOCK_PFN_def bind_eq_Some_conv dest!: books_page
      split: if_splits option.splits bool.splits)

lemma books_FreeAllResources:
  assumes "HostIF_FreeAllResources v s = Some t"
  shows "books t = books s"
proof -
  have c: "books s' = books s" if "MemTrack_Cleanup mt (UnlockEntry v) s = Some (a, b, s')" for mt a b s' and s :: "'a host_state_scheme"
    using that books_cleanup [of "UnlockEntry v", OF books_UnlockEntry]
    by (auto simp: MemTrack_Cleanup_def split: option.splits)
  have h: "HostIFHostMemCleanup v s = Some s' \<Longrightarrow> books s' = books s" for s'
    by (auto simp: HostIFHostMemCleanup_def bind_eq_Some_conv dest!: books_drain_tracker split: if_splits option.splits)
  show ?thesis using assms
    by (auto simp: HostIF_FreeAllResources_def bind_eq_Some_conv dest!: h c books_PhysTrack_Cleanup
        split: if_splits option.splits)
qed

lemma books_HostIF_Init: "HostIF_Init mt vmh p l a v s = (ok, t) \<Longrightarrow> books t = books s"
  by (auto simp: HostIF_Init_def HostIFHostMemInit_def PhysTrack_Init_def PhysTrack_Alloc_def Let_def
      split: if_splits option.splits prod.splits)

lemma books_LockPage: "HostIF_LockPage al page v uAddr multiple s = Some (r, t) \<Longrightarrow> books t = books s"
  by (auto simp: HostIF_LockPage_def HostIFGetUserPage_def Let_def HOST_UNLOCK_PFN_def bind_eq_Some_conv
      dest!: books_page split: option.splits if_splits prod.splits bool.splits)

lemma books_UnlockPage: "HostIF_UnlockPage v uAddr s = Some (r, t) \<Longrightarrow> books t = books s"
  by (auto simp: HostIF_UnlockPage_def Let_def HOST_UNLOCK_PFN_def bind_eq_Some_conv
      dest!: books_page split: option.splits if_splits)

lemma books_UnlockPageByMPN: "HostIF_UnlockPageByMPN v m s = Some (r, t) \<Longrightarrow> books t = books s"
  by (auto simp: HostIF_UnlockPageByMPN_def HOST_UNLOCK_PFN_BYMPN_def bind_eq_Some_conv
      dest!: books_page split: option.splits if_splits)

lemma books_alloc_loop: "alloc_locked_loop ps a n cnt out s = Some (c, e, out', t) \<Longrightarrow> books t = books s"
proof (induction ps arbitrary: cnt out s)
  case (Cons x ps)
  obtain pg c2 a2 a3 where x: "x = (pg, c2, a2, a3)" by (rule prod_cases4)
  show ?case using Cons.prems
    by (auto simp: x Let_def bind_eq_Some_conv dest!: books_page Cons.IH split: option.splits if_splits)
qed (simp split: if_splits)

lemma books_AllocLockedPages: "HostIF_AllocLockedPages ps v n s = Some (r, out, t) \<Longrightarrow> books t = books s"
  by (auto simp: HostIF_AllocLockedPages_def dest!: books_alloc_loop split: option.splits)

lemma books_free_loop: "free_locked_loop a ms s = Some t \<Longrightarrow> books t = books s"
  by (induction ms arbitrary: s) (auto simp: bind_eq_Some_conv dest!: books_page)

lemma books_FreeLockedPages: "HostIF_FreeLockedPages v buf n k s = Some (r, t) \<Longrightarrow> books t = books s"
  by (auto simp: HostIF_FreeLockedPages_def dest!: books_free_loop split: option.splits if_splits)

lemma books_fields:
  assumes "books t = books (s :: 'a vmx_state_scheme)"
  shows "vmDriverList t = vmDriverList s" "vm_live t = vm_live s" "vmIDList t = vmIDList s" "vmIDsAllocated t = vmIDsAllocated s"
    "vmIDsUnused t = vmIDsUnused s" "numLockedPages t = numLockedPages s" "vmCount t = vmCount s"
    "lpl_configured t = lpl_configured s" "lpl_dynamic t = lpl_dynamic s"
    "globalFastClockRate t = globalFastClockRate s" "minVmMemPct t = minVmMemPct s"
    "vm_userID (vm_mem t w) = vm_userID (vm_mem s w)" "vm_memInfo (vm_mem t w) = vm_memInfo (vm_mem s w)"
    "vm_fastClockRate (vm_mem t w) = vm_fastClockRate (vm_mem s w)"
proof -
  have m: "host_state.more t = host_state.more s" using assms by (simp add: books_def)
  show "vmDriverList t = vmDriverList s" "vm_live t = vm_live s" "vmIDList t = vmIDList s" "vmIDsAllocated t = vmIDsAllocated s"
    "vmIDsUnused t = vmIDsUnused s" "numLockedPages t = numLockedPages s" "vmCount t = vmCount s"
    "lpl_configured t = lpl_configured s" "lpl_dynamic t = lpl_dynamic s"
    "globalFastClockRate t = globalFastClockRate s" "minVmMemPct t = minVmMemPct s"
    using m by (cases s; cases t; simp)+
  have f: "(\<lambda>w. (vm_userID (vm_mem t w), vm_memInfo (vm_mem t w), vm_fastClockRate (vm_mem t w)))
    = (\<lambda>w. (vm_userID (vm_mem s w), vm_memInfo (vm_mem s w), vm_fastClockRate (vm_mem s w)))"
    using assms by (simp add: books_def)
  from fun_cong [OF f, of w] show "vm_userID (vm_mem t w) = vm_userID (vm_mem s w)" "vm_memInfo (vm_mem t w) = vm_memInfo (vm_mem s w)"
    "vm_fastClockRate (vm_mem t w) = vm_fastClockRate (vm_mem s w)" by simp_all
qed

subsection \<open>The state of the pages\<close>

definition same_on :: "ptr set \<Rightarrow> 'a host_state_scheme \<Rightarrow> 'b host_state_scheme \<Rightarrow> bool" where
  "same_on V s t \<longleftrightarrow> (\<forall>w \<in> V. vm_vmhost (vm_mem t w) = vm_vmhost (vm_mem s w) \<and> vm_memtracker (vm_mem t w) = vm_memtracker (vm_mem s w))
     \<and> pt_mem t = pt_mem s \<and> pt_live t = pt_live s \<and> physTracker t = physTracker s \<and> page_refs t = page_refs s"

abbreviation same_pages :: "'a host_state_scheme \<Rightarrow> 'b host_state_scheme \<Rightarrow> bool" where
  "same_pages \<equiv> same_on UNIV"

lemma same_on_held:
  assumes "same_on V s t" "w \<in> V"
  shows "held t w k = held s w k" "physTracker_of t w = physTracker_of s w" "own_pt t w k = own_pt s w k"
proof -
  show o: "own_pt t w k = own_pt s w k" for k
    using assms by (cases k) (simp_all add: same_on_def lockedPages_of_def AWEPages_of_def)
  show "physTracker_of t w = physTracker_of s w" using assms by (simp add: same_on_def physTracker_of_def)
  show "held t w k = held s w k" using assms by (simp add: held_def o pages_at_def same_on_def split: option.split)
qed

lemma same_on_good:
  assumes "same_on V s t"
  shows "host_good (V, t) \<longleftrightarrow> host_good (V, s)"
proof -
  note h = same_on_held [OF assms]
  have f: "pt_mem t = pt_mem s" "pt_live t = pt_live s" "physTracker t = physTracker s" "page_refs t = page_refs s"
    using assms by (simp_all add: same_on_def)
  have m: "vm_memtracker (vm_mem t w) = vm_memtracker (vm_mem s w)" if "w \<in> V" for w using assms that by (simp add: same_on_def)
  have c: "{w \<in> V. physTracker_of t w \<noteq> None} = {w \<in> V. physTracker_of s w \<noteq> None}" using h(2) by auto
  have "host_wf V t \<longleftrightarrow> host_wf V s" unfolding host_wf_def c by (simp add: h f m pt_at_def cong: ball_cong)
  moreover have "holders V t m = holders V s m" for m by (auto simp: holders_def h)
  moreover have "ready t w \<longleftrightarrow> ready s w" if "w \<in> V" for w
    using h(3) [OF that, of Locked] h(3) [OF that, of AWE] by (simp add: ready_def m that h(2))
  ultimately show ?thesis by (simp add: host_good_def host_inv_def f h(1) cong: ball_cong)
qed

lemma same_on_mono: "same_on V s t \<Longrightarrow> W \<subseteq> V \<Longrightarrow> same_on W s t" by (auto simp: same_on_def)

lemma same_pages_good: "same_pages s t \<Longrightarrow> host_good (V, t) \<longleftrightarrow> host_good (V, s)"
  by (rule same_on_good) (rule same_on_mono, auto)

lemma same_pages_held: "same_pages s t \<Longrightarrow> held t w k = held s w k"
  by (rule same_on_held(1)) auto

lemma same_pages_refl: "same_on V s s" by (simp add: same_on_def)

lemma same_pages_trans: "same_on V s t \<Longrightarrow> same_on V t u \<Longrightarrow> same_on V s u" by (simp add: same_on_def)

lemma same_pages_upd:
  "same_on V s (upd_memInfo v f s)" "same_on V s (upd_vm v (\<lambda>vm. vm\<lparr>vm_userID := i\<rparr>) s)"
  "same_on V s (upd_vm v (\<lambda>vm. vm\<lparr>vm_fastClockRate := r\<rparr>) s)"
  by (simp_all add: same_on_def upd_memInfo_def)

end
