(* ===== verification/VmxAccounting.thy ===== *)
theory VmxAccounting
  imports VmxFrames
begin

text \<open>
  The accounting of \<open>Vmx86\<close>: over all operations the number of locked pages of every machine is the
  number of pages that the trackers record for it, their sum is the total, and the machines have
  different ids.
\<close>

subsection \<open>The invariant\<close>

definition pages_of :: "'a host_state_scheme \<Rightarrow> ptr \<Rightarrow> nat" where
  "pages_of s v = card (held s v Pinned) + card (held s v Locked) + card (held s v AWE)"

definition locked_of :: "'a host_state_scheme \<Rightarrow> ptr \<Rightarrow> u32" where
  "locked_of s v = mi_locked (vm_memInfo (vm_mem s v))"

definition machines :: "'a vmx_state_scheme \<Rightarrow> ptr set" where
  "machines s = set (vmDriverList s)"

definition ids_ok :: "'a vmx_state_scheme \<Rightarrow> bool" where
  "ids_ok s \<longleftrightarrow> distinct (vmDriverList s) \<and> vmCount s = of_nat (length (vmDriverList s))
     \<and> inj_on (\<lambda>v. vm_userID (vm_mem s v)) (machines s)
     \<and> (\<exists>A U. ids_inv A U s \<and> set A = (\<lambda>v. vm_userID (vm_mem s v) - 1) ` machines s)"

definition pages_ok :: "'a vmx_state_scheme \<Rightarrow> bool" where
  "pages_ok s \<longleftrightarrow> (\<forall>v \<in> machines s. locked_of s v = of_nat (pages_of s v))
     \<and> numLockedPages s = of_nat (\<Sum>v \<in> machines s. pages_of s v)"

definition vmx_inv :: "'a vmx_state_scheme \<Rightarrow> bool" where
  "vmx_inv s \<longleftrightarrow> host_good (machines s, s) \<and> ids_ok s \<and> pages_ok s"

lemma finite_machines [simp]: "finite (machines s)"
  by (simp add: machines_def)

subsection \<open>Steps that leave the list of machines alone\<close>

text \<open>The step charges the machine \<open>v\<close> with \<open>d\<close> pages.\<close>

definition charged :: "'a vmx_state_scheme \<Rightarrow> 'a vmx_state_scheme \<Rightarrow> ptr \<Rightarrow> u32 \<Rightarrow> bool" where
  "charged s t v d \<longleftrightarrow> vmDriverList t = vmDriverList s \<and> vmIDList t = vmIDList s \<and> vmIDsAllocated t = vmIDsAllocated s
     \<and> vmIDsUnused t = vmIDsUnused s \<and> vmCount t = vmCount s \<and> numLockedPages t = numLockedPages s + d
     \<and> (\<forall>w \<in> machines s. vm_userID (vm_mem t w) = vm_userID (vm_mem s w))
     \<and> (\<forall>w \<in> machines s. locked_of t w = (if w = v then locked_of s w + d else locked_of s w))"

lemma charged_machines: "charged s t v d \<Longrightarrow> machines t = machines s"
  by (simp add: charged_def machines_def)

lemma charged_trans: "charged s t v d \<Longrightarrow> charged t u v e \<Longrightarrow> charged s u v (d + e)"
  using charged_machines [of s t v d] by (simp add: charged_def add.assoc)

lemma charged_books:
  assumes "books t = books s"
  shows "charged s t v 0"
  using books_fields [OF assms] by (simp add: charged_def locked_of_def)

lemma charged_ids:
  assumes c: "charged s t v d" and ok: "ids_ok s"
  shows "ids_ok t"
proof -
  have m: "machines t = machines s" by (rule charged_machines [OF c])
  have u: "vm_userID (vm_mem t w) = vm_userID (vm_mem s w)" if "w \<in> machines s" for w using c that by (simp add: charged_def)
  have "inj_on (\<lambda>v. vm_userID (vm_mem t v)) (machines s) \<longleftrightarrow> inj_on (\<lambda>v. vm_userID (vm_mem s v)) (machines s)"
    by (rule inj_on_cong) (rule u)
  moreover have "(\<lambda>v. vm_userID (vm_mem t v) - 1) ` machines s = (\<lambda>v. vm_userID (vm_mem s v) - 1) ` machines s"
    by (rule image_cong) (simp_all add: u)
  moreover have "ids_inv A U t = ids_inv A U s" for A U using c by (simp add: charged_def ids_inv_def)
  ultimately show ?thesis using c ok by (simp add: ids_ok_def m) (simp add: charged_def)
qed

lemma charged_pages:
  assumes c: "charged s t v d" and v: "v \<in> machines s" and ok: "pages_ok s"
    and other: "\<forall>w \<in> machines s. w \<noteq> v \<longrightarrow> (\<forall>k. held t w k = held s w k)"
    and d: "(of_nat (pages_of t v) :: u32) = of_nat (pages_of s v) + d"
  shows "pages_ok t"
proof -
  have o: "pages_of t w = pages_of s w" if "w \<in> machines s" "w \<noteq> v" for w using other that by (simp add: pages_of_def)
  have m: "machines t = machines s" using c by (rule charged_machines)
  have "locked_of t w = of_nat (pages_of t w)" if "w \<in> machines s" for w
    using c ok d o [OF that] that by (cases "w = v") (simp_all add: charged_def pages_ok_def)
  moreover have "numLockedPages t = of_nat (\<Sum>v \<in> machines s. pages_of t v)"
  proof -
    have "(\<Sum>w \<in> machines s - {v}. pages_of t w) = (\<Sum>w \<in> machines s - {v}. pages_of s w)" using o by (intro sum.cong) auto
    then have "(of_nat (\<Sum>v \<in> machines s. pages_of t v) :: u32) = of_nat (\<Sum>v \<in> machines s. pages_of s v) + d"
      using d by (simp add: sum.remove [OF _ v] del: of_nat_sum)
    then show ?thesis using c ok by (simp only: charged_def pages_ok_def)
  qed
  ultimately show ?thesis by (simp add: pages_ok_def m)
qed

lemma charged_inv:
  assumes "vmx_inv s" "charged s t v d" "v \<in> machines s" "host_good (machines s, t)"
    "\<forall>w \<in> machines s. w \<noteq> v \<longrightarrow> (\<forall>k. held t w k = held s w k)"
    "(of_nat (pages_of t v) :: u32) = of_nat (pages_of s v) + d"
  shows "vmx_inv t"
  using assms charged_ids [OF assms(2)] charged_pages [OF assms(2,3)] by (simp add: vmx_inv_def charged_machines [OF assms(2)])

lemma same_pages_pages_of: "same_pages s t \<Longrightarrow> pages_of t v = pages_of s v"
  by (simp add: pages_of_def same_pages_held)

lemma charged_same:
  assumes "vmx_inv s" "charged s t v 0" "same_pages s t"
  shows "vmx_inv t"
proof -
  have m: "machines t = machines s" by (rule charged_machines [OF assms(2)])
  have "locked_of t w = locked_of s w" if "w \<in> machines s" for w using assms(2) that by (simp add: charged_def)
  then have "pages_ok t" using assms
    by (simp add: pages_ok_def vmx_inv_def m same_pages_pages_of) (simp add: charged_def)
  then show ?thesis using assms charged_ids [OF assms(2)] by (simp add: vmx_inv_def m same_pages_good)
qed

lemma finite_held [simp]: "finite (held s v k)"
  by (rule finite_subset [OF subset_UNIV]) simp

lemma changed_pages_of:
  assumes c: "changed V s t v k S" and v: "v \<in> V" and fin: "finite S"
  shows "(of_nat (pages_of t v) :: u32) = of_nat (pages_of s v) + (of_nat (card S) - of_nat (card (held s v k)))"
  using c v by (cases k) (simp_all add: pages_of_def changed_def)

text \<open>Reserving pages for a machine, and giving back a reservation.\<close>

lemma HasFreePages_same:
  assumes "Vmx86HasFreePages ms v n c s = Some (r, t)"
  shows "charged s t v 0" "same_pages s t"
  using assms by (auto simp: Vmx86HasFreePages_def Vmx86LockedPageLimit_def Let_def charged_def locked_of_def same_on_def
      split: if_splits)

lemma charge: "charged s (upd_memInfo v (\<lambda>mi. mi\<lparr>mi_locked := mi_locked mi + n\<rparr>) (s\<lparr>numLockedPages := numLockedPages s + n\<rparr>)) v n"
  "same_pages s (upd_memInfo v (\<lambda>mi. mi\<lparr>mi_locked := mi_locked mi + n\<rparr>) (s\<lparr>numLockedPages := numLockedPages s + n\<rparr>))"
  by (simp_all add: charged_def same_on_def locked_of_def upd_memInfo_def upd_vm_def)

lemma reserve_tries_charged:
  "reserve_tries mss v n s = Some (ok, t) \<Longrightarrow> charged s t v (if ok then n else 0) \<and> same_pages s t"
proof (induction mss arbitrary: s)
  case Nil
  then show ?case by (simp add: charged_def same_pages_refl)
next
  case (Cons ms mss)
  obtain r1 s1 where h1: "Vmx86HasFreePages ms v n True s = Some (r1, s1)"
    by (simp add: Vmx86HasFreePages_def Let_def split: if_splits)
  note f1 = HasFreePages_same [OF h1]
  show ?case
  proof (cases r1)
    case False
    then show ?thesis using Cons.prems h1 f1 by simp
  next
    case True
    then obtain r2 s2 where h2: "Vmx86HasFreePages ms v n False s1 = Some (r2, s2)"
      using Cons.prems h1 by (auto simp: bind_eq_Some_conv)
    note f2 = HasFreePages_same [OF h2]
    have f: "charged s s2 v 0" "same_pages s s2"
      using charged_trans [OF f1(1) f2(1)] same_pages_trans [OF f1(2) f2(2)] by simp_all
    show ?thesis
    proof (cases r2)
      case True
      then have "t = upd_memInfo v (\<lambda>mi. mi\<lparr>mi_locked := mi_locked mi + n\<rparr>) (s2\<lparr>numLockedPages := numLockedPages s2 + n\<rparr>)" "ok"
        using Cons.prems h1 h2 \<open>r1\<close> by simp_all
      then show ?thesis using charged_trans [OF f(1) charge(1) [of s2 v n]] same_pages_trans [OF f(2) charge(2)] by simp
    next
      case False
      then have "reserve_tries mss v n s2 = Some (ok, t)" using Cons.prems h1 h2 \<open>r1\<close> by simp
      from Cons.IH [OF this] show ?thesis
        using charged_trans [OF f(1), of t] same_pages_trans [OF f(2), of t] by force
    qed
  qed
qed

lemma Reserve_charged:
  "Vmx86ReserveFreePages mss v n s = Some (ok, t) \<Longrightarrow> charged s t v (if ok then n else 0) \<and> same_pages s t"
  by (cases mss) (simp only: Vmx86ReserveFreePages_def prod.case reserve_tries_charged)

lemma Unreserve_charged:
  "charged s (Vmx86UnreserveFreePages v n s) v (- n)" "same_pages s (Vmx86UnreserveFreePages v n s)"
  by (simp_all add: Vmx86UnreserveFreePages_def charged_def same_on_def locked_of_def upd_memInfo_def upd_vm_def)

subsection \<open>The calls that lock and unlock pages\<close>

text \<open>A reservation, a change of the pages of the machine, and a correction of the reservation.\<close>

lemma accounted:
  assumes inv: "vmx_inv s" and v: "v \<in> machines s" and c1: "charged s s1 v n" "same_pages s s1"
    and h: "changed (machines s) s1 s2 v k S" "host_good (machines s, s2)" "books s2 = books s1"
    and c2: "charged s2 t v e" "same_pages s2 t"
    and sum: "(of_nat (card S) :: u32) - of_nat (card (held s v k)) = n + e"
  shows "vmx_inv t"
proof -
  have c: "charged s t v (n + e)"
    using charged_trans [OF charged_trans [OF c1(1) charged_books [OF h(3)]] c2(1)] by simp
  have fin: "finite S" using finite_held [of s2 v k] h(1) v by (simp add: changed_def)
  have "(of_nat (pages_of s2 v) :: u32) = of_nat (pages_of s1 v) + (of_nat (card S) - of_nat (card (held s1 v k)))"
    by (rule changed_pages_of [OF h(1) v fin])
  then have "(of_nat (pages_of t v) :: u32) = of_nat (pages_of s v) + (n + e)"
    using sum by (simp add: same_pages_pages_of [OF c2(2)] same_pages_pages_of [OF c1(2)] same_pages_held [OF c1(2)])
  moreover have "held t w j = held s w j" if "w \<in> machines s" "w \<noteq> v" for w j
    using h(1) that by (simp add: changed_def same_pages_held [OF c2(2)] same_pages_held [OF c1(2)])
  moreover have "host_good (machines s, t)" using h(2) same_pages_good [OF c2(2)] by blast
  ultimately show ?thesis by (intro charged_inv [OF inv c v]) auto
qed

lemma unchanged:
  assumes "vmx_inv s" "charged s s1 v n" "same_pages s s1" "charged s1 t v (- n)" "same_pages s1 t"
  shows "vmx_inv t"
  using charged_same [OF assms(1), of t v] charged_trans [OF assms(2,4)] same_pages_trans [OF assms(3,5)] by simp

lemma PAGE_LOCK_SUCCESS_iff: "PAGE_LOCK_SUCCESS r \<longleftrightarrow> \<not> page_error r"
  by (auto simp: PAGE_LOCK_SUCCESS_def page_error_def)

lemma small_page: "r < 2 ^ 31 \<Longrightarrow> PAGE_LOCK_SUCCESS r"
  using sint_small [of r] by (simp add: PAGE_LOCK_SUCCESS_def word_less_nat_alt)

lemma host_good_machines: "vmx_inv s \<Longrightarrow> host_good (machines s, s)"
  by (simp add: vmx_inv_def)

lemma inv_LockPage:
  assumes inv: "vmx_inv s" and v: "v \<in> machines s" and pg: "user_page page" "\<forall>m. page = Some m \<longrightarrow> m < 2 ^ 31"
    and al: "multiple \<longrightarrow> al = all_memory"
    and run: "Vmx86_LockPage mss al page v uAddr multiple s = Some (r, t)"
  shows "vmx_inv t"
proof -
  obtain ok s1 where res: "Vmx86ReserveFreePages mss v 1 s = Some (ok, s1)"
    using run by (auto simp: Vmx86_LockPage_def bind_eq_Some_conv)
  have c1: "charged s s1 v (if ok then 1 else 0)" "same_pages s s1" using Reserve_charged [OF res] by simp_all
  show ?thesis
  proof (cases ok)
    case False
    then show ?thesis using run res c1 charged_same [OF inv] by (simp add: Vmx86_LockPage_def)
  next
    case True
    then obtain mpn s2 where lk: "HostIF_LockPage al page v uAddr multiple s1 = Some (mpn, s2)"
      and t: "t = (if \<not> PAGE_LOCK_SUCCESS mpn then Vmx86UnreserveFreePages v 1 s2 else s2)"
      using run res by (auto simp: Vmx86_LockPage_def)
    have c: "charged s s1 v 1" "same_pages s s1" using c1 True by simp_all
    have g: "host_good (machines s, s1)" using host_good_machines [OF inv] same_pages_good [OF c(2)] by blast
    have err: ?thesis if "s2 = s1" "page_error mpn"
      using that t Unreserve_charged [of s1 v 1] by (intro unchanged [OF inv c]) (simp_all add: PAGE_LOCK_SUCCESS_iff)
    have locked: ?thesis if p: "page = Some mpn" and n: "mpn \<notin> held s1 v k" and ch: "changed (machines s) s1 s2 v k (insert mpn (held s1 v k))"
      and g2: "host_good (machines s, s2)" for k
    proof -
      have t: "t = s2" using pg(2) p t by (simp add: small_page)
      have n': "mpn \<notin> held s v k" using n by (simp add: same_pages_held [OF c(2)])
      show ?thesis
      proof (rule accounted [OF inv v c ch g2 books_LockPage [OF lk], of t 0])
        show "charged s2 t v 0" "same_pages s2 t" by (simp_all add: t same_pages_refl charged_books)
        show "(of_nat (card (insert mpn (held s1 v k))) :: u32) - of_nat (card (held s v k)) = 1 + 0"
          using n' by (simp add: same_pages_held [OF c(2)])
      qed
    qed
    show ?thesis
    proof (cases multiple)
      case False
      have lk1: "HostIF_LockPage al page v uAddr False s1 = Some (mpn, s2)" using lk False by simp
      from lock_outcome [OF g v pg(1) lk1] show ?thesis using good_lock [OF g v pg(1) lk1] err locked by metis
    next
      case True
      have lk1: "HostIF_LockPage all_memory page v uAddr True s1 = Some (mpn, s2)" using lk True al by simp
      from lock_by_number_outcome [OF g v lk1] show ?thesis using good_lock_by_number [OF g v pg(1) lk1] err locked by metis
    qed
  qed
qed

lemma unlocked_inv:
  assumes inv: "vmx_inv s" and v: "v \<in> machines s" and h: "changed (machines s) s s2 v k (held s v k - {m})" "m \<in> held s v k"
    "host_good (machines s, s2)" "books s2 = books s"
  shows "vmx_inv (Vmx86UnreserveFreePages v 1 s2)"
proof (rule accounted [OF inv v _ _ h(1,3,4) Unreserve_charged])
  show "charged s s v 0" "same_pages s s" by (simp_all add: same_pages_refl charged_books)
  show "(of_nat (card (held s v k - {m})) :: u32) - of_nat (card (held s v k)) = 0 + - 1"
  proof -
    have c: "card (held s v k) = Suc (card (held s v k - {m}))" by (rule card.remove [OF finite_held h(2)])
    show ?thesis by (subst c) simp
  qed
qed

lemma inv_UnlockPage:
  assumes inv: "vmx_inv s" and v: "v \<in> machines s" and run: "Vmx86_UnlockPage v uAddr s = Some (r, t)"
  shows "vmx_inv t"
proof -
  note g = host_good_machines [OF inv]
  obtain s2 where u: "HostIF_UnlockPage v uAddr s = Some (r, s2)"
    "t = (if PAGE_LOCK_SUCCESS r then Vmx86UnreserveFreePages v 1 s2 else s2)" using run by (auto simp: Vmx86_UnlockPage_def)
  from g v u(1) show ?thesis
  proof (rule unlock_outcome)
    assume "s2 = s" "page_error r"
    then show ?thesis using inv u(2) by (simp add: PAGE_LOCK_SUCCESS_iff)
  next
    fix m assume m: "r = PAGE_UNLOCK_NO_ERROR" "m \<in> held s v Pinned" "changed (machines s) s s2 v Pinned (held s v Pinned - {m})"
    show ?thesis using unlocked_inv [OF inv v m(3,2) good_unlock [OF g v u(1)] books_UnlockPage [OF u(1)]] u(2) m(1)
      by (simp add: PAGE_LOCK_SUCCESS_iff page_errors)
  qed
qed

lemma inv_UnlockPageByMPN:
  assumes inv: "vmx_inv s" and v: "v \<in> machines s" and run: "Vmx86_UnlockPageByMPN v m s = Some (r, t)"
  shows "vmx_inv t"
proof -
  note g = host_good_machines [OF inv]
  obtain s2 where u: "HostIF_UnlockPageByMPN v m s = Some (r, s2)"
    "t = (if PAGE_LOCK_SUCCESS r then Vmx86UnreserveFreePages v 1 s2 else s2)" using run by (auto simp: Vmx86_UnlockPageByMPN_def)
  from g v u(1) show ?thesis
  proof (rule unlock_by_number_outcome)
    assume "s2 = s" "page_error r"
    then show ?thesis using inv u(2) by (simp add: PAGE_LOCK_SUCCESS_iff)
  next
    assume m: "r = PAGE_UNLOCK_NO_ERROR" "m \<in> held s v Locked" "changed (machines s) s s2 v Locked (held s v Locked - {m})"
    show ?thesis using unlocked_inv [OF inv v m(3,2) good_unlock_by_number [OF g v u(1)] books_UnlockPageByMPN [OF u(1)]] u(2) m(1)
      by (simp add: PAGE_LOCK_SUCCESS_iff page_errors)
  qed
qed

lemma page_refs_same: "same_pages s t \<Longrightarrow> page_refs t = page_refs s"
  by (simp add: same_on_def)

lemma word_of_nat_small: "length xs \<le> unat (n :: u32) \<Longrightarrow> unat (of_nat (length xs) :: u32) = length xs"
proof -
  assume "length xs \<le> unat n"
  moreover have "unat n < 2 ^ 32" by (rule order_less_le_trans [OF unsigned_less]) simp
  ultimately show ?thesis by (simp add: unsigned_of_nat take_bit_nat_eq_self)
qed

lemma inv_AllocLockedPages:
  assumes inv: "vmx_inv s" and v: "v \<in> machines s" and ps: "\<forall>(pg, c, a2, a3) \<in> set ps. a2 \<and> a3 \<and> user_page pg"
    and fresh: "distinct (List.map_filter fst ps)" "\<forall>m \<in> set (List.map_filter fst ps). page_refs s m = 0"
    and n: "unat n < 2 ^ 31" and run: "Vmx86_AllocLockedPages mss ps v n s = Some (r, out, t)"
  shows "vmx_inv t"
proof -
  obtain ok s1 where res: "Vmx86ReserveFreePages mss v n s = Some (ok, s1)"
    using run by (auto simp: Vmx86_AllocLockedPages_def bind_eq_Some_conv)
  have c1: "charged s s1 v (if ok then n else 0)" "same_pages s s1" using Reserve_charged [OF res] by simp_all
  show ?thesis
  proof (cases ok)
    case False
    then show ?thesis using run res c1 charged_same [OF inv] by (simp add: Vmx86_AllocLockedPages_def)
  next
    case True
    then obtain s2 where al: "HostIF_AllocLockedPages ps v n s1 = Some (r, out, s2)"
      and t: "t = (if r < 0 then Vmx86UnreserveFreePages v n s2
         else if word_of_int r < n then Vmx86UnreserveFreePages v (n - word_of_int r) s2 else s2)"
      using run res by (auto simp: Vmx86_AllocLockedPages_def)
    have c: "charged s s1 v n" "same_pages s s1" using c1 True by simp_all
    have g: "host_good (machines s, s1)" using host_good_machines [OF inv] same_pages_good [OF c(2)] by blast
    have mem: "\<forall>(pg, c, a2, a3) \<in> set ps. a2 \<and> a3" using ps by auto
    have fr: "\<forall>m \<in> set (List.map_filter fst ps). page_refs s1 m = 0" using fresh(2) by (simp add: page_refs_same [OF c(2)])
    have "ready s1 v" using g v by (simp add: host_good_def)
    then obtain A where A: "AWEPages_of s1 v = Some A" by (rule readyE)
    have hi: "host_inv (machines s) s1" using g by (simp add: host_good_def)
    have h: "changed (machines s) s1 s2 v AWE (held s1 v AWE \<union> set out)" "distinct out" "set out \<inter> held s1 v AWE = {}"
      "length out \<le> unat n" "if out = [] then r \<le> 0 \<and> (n \<noteq> 0 \<longrightarrow> r < 0) else r = int (length out)"
      using AllocLockedPages_inv [OF hi v A mem fresh(1) fr n] al by auto
    have "\<forall>m \<in> set out. user_page (Some m)"
    proof
      fix m assume m: "m \<in> set out"
      obtain cnt err where "alloc_locked_loop ps A (unat n) 0 [] s1 = Some (cnt, err, out, s2)"
        using al A by (auto simp: HostIF_AllocLockedPages_def)
      then have "m \<in> set (List.map_filter fst ps)" using m alloc_out by fastforce
      then show "user_page (Some m)" using ps by (fastforce simp: List.map_filter_def user_page_def)
    qed
    then have g2: "host_good (machines s, s2)" by (rule good_alloc [OF g v ps fresh(1) fr n al])
    have card: "card (held s1 v AWE \<union> set out) = card (held s v AWE) + length out"
      using h(2,3) by (simp add: card_Un_disjoint Int_commute distinct_card same_pages_held [OF c(2)])
    define e where "e = of_nat (length out) - n"
    have t': "charged s2 t v e \<and> same_pages s2 t"
    proof (cases "out = []")
      case True
      then show ?thesis using t h(5) Unreserve_charged [of s2 v n] by (cases "r < 0") (auto simp: e_def same_pages_refl charged_books)
    next
      case False
      then have r: "r = int (length out)" using h(5) by simp
      then have rw: "word_of_int r = (of_nat (length out) :: u32)" by simp
      show ?thesis
      proof (cases "(of_nat (length out) :: u32) < n")
        case True
        then show ?thesis using t r rw Unreserve_charged [of s2 v "n - of_nat (length out)"] by (simp add: e_def)
      next
        case False
        then have "of_nat (length out) = n"
          using h(4) word_of_nat_small [OF h(4)] by (simp add: word_less_nat_alt word_eq_iff_unsigned unsigned_word_eqI)
        then show ?thesis using t r rw False by (simp add: e_def same_pages_refl charged_books)
      qed
    qed
    show ?thesis
      by (rule accounted [OF inv v c h(1) g2 books_AllocLockedPages [OF al] t' [THEN conjunct1] t' [THEN conjunct2]])
        (simp add: card e_def)
  qed
qed

lemma inv_FreeLockedPages:
  assumes inv: "vmx_inv s" and v: "v \<in> machines s" and buf: "\<forall>ms. buf = Some ms \<longrightarrow> length ms = unat n"
    and run: "Vmx86_FreeLockedPages v buf n k s = Some (r, t)"
  shows "vmx_inv t"
proof -
  note g = host_good_machines [OF inv]
  obtain s2 where u: "HostIF_FreeLockedPages v buf n k s = Some (r, s2)"
    "t = (if r = 0 then Vmx86UnreserveFreePages v n s2 else s2)" using run by (auto simp: Vmx86_FreeLockedPages_def)
  from g v u(1) show ?thesis
  proof (rule free_outcome)
    assume "s2 = s" "r < 0"
    then show ?thesis using inv u(2) by simp
  next
    fix ms assume m: "r = 0" "buf = Some ms" "set ms \<subseteq> held s v AWE" "distinct ms"
      "changed (machines s) s s2 v AWE (held s v AWE - set ms)"
    have "card (held s v AWE - set ms) + unat n = card (held s v AWE)"
      using m(2-4) buf card_Diff_subset [of "set ms" "held s v AWE"] card_mono [OF finite_held m(3)] by (simp add: distinct_card)
    then have "of_nat (card (held s v AWE - set ms)) + n = (of_nat (card (held s v AWE)) :: u32)"
      by (metis of_nat_add of_nat_unat ucast_id)
    then have sum: "(of_nat (card (held s v AWE - set ms)) :: u32) - of_nat (card (held s v AWE)) = 0 + - n"
      by (simp add: algebra_simps)
    show ?thesis unfolding u(2) m(1) if_P [OF refl]
      by (rule accounted [OF inv v _ _ m(5) good_free [OF g v u(1)] books_FreeLockedPages [OF u(1)] Unreserve_charged sum])
        (simp_all add: same_pages_refl charged_books)
  qed
qed

end
