(* ===== verification/VmxLifecycle.thy ===== *)
theory VmxLifecycle
  imports VmxAccounting
begin

text \<open>
  Machines are created and released, and the other calls of \<open>Vmx86\<close>; the step relation of the driver
  over all of them and what holds in every state it reaches.
\<close>

subsection \<open>Creating a machine\<close>

lemma ids_room:
  assumes "ids_inv A U s" "set A = f ` set L" "inj_on f (set L)" "distinct L"
  shows "length A = length L" "length L \<le> MAX_VMS" "length L < MAX_VMS \<longleftrightarrow> U \<noteq> []"
proof -
  have d: "distinct A" "card (set (A @ U)) = MAX_VMS" "distinct (A @ U)" using assms(1) by (auto simp: ids_inv_def)
  have "card (set A) = card (set L)" unfolding assms(2) by (rule card_image [OF assms(3)])
  then show l: "length A = length L" using d(1) assms(4) by (simp add: distinct_card)
  have "length A + length U = MAX_VMS" using d(2) distinct_card [OF d(3)] by simp
  then show "length L \<le> MAX_VMS" "length L < MAX_VMS \<longleftrightarrow> U \<noteq> []" using l by (cases U; simp)+
qed

lemma ids_okE:
  assumes "ids_ok s"
  obtains A U where "ids_inv A U s" "set A = (\<lambda>v. vm_userID (vm_mem s v) - 1) ` machines s" "distinct (vmDriverList s)"
    "vmCount s = of_nat (length (vmDriverList s))" "inj_on (\<lambda>v. vm_userID (vm_mem s v)) (machines s)"
    "length A = length (vmDriverList s)" "length (vmDriverList s) \<le> MAX_VMS" "length (vmDriverList s) < MAX_VMS \<longleftrightarrow> U \<noteq> []"
proof -
  obtain A U where i: "ids_inv A U s" "set A = (\<lambda>v. vm_userID (vm_mem s v) - 1) ` machines s" "distinct (vmDriverList s)"
    "vmCount s = of_nat (length (vmDriverList s))" "inj_on (\<lambda>v. vm_userID (vm_mem s v)) (machines s)"
    using assms by (auto simp: ids_ok_def)
  have "inj_on (\<lambda>v. vm_userID (vm_mem s v) - 1) (set (vmDriverList s))" using i(5) by (simp add: inj_on_def machines_def)
  note r = ids_room [OF i(1) i(2) [unfolded machines_def] this i(3)]
  show thesis by (rule that [OF i r])
qed

lemma count_limit:
  assumes "n \<le> MAX_VMS"
  shows "of_nat MAX_VMS \<le> (of_nat n :: u32) \<longleftrightarrow> MAX_VMS \<le> n"
proof -
  have "unat (of_nat n :: u32) = n" "unat (of_nat MAX_VMS :: u32) = MAX_VMS"
    using assms by (simp_all add: MAX_VMS_def unsigned_of_nat take_bit_nat_eq_self)
  then show ?thesis by (simp add: word_le_nat_alt)
qed

lemma Register_inv:
  assumes ok: "ids_ok s" and v: "v \<notin> machines s" and room: "length (vmDriverList s) < MAX_VMS"
    and good: "host_good (insert v (machines s), s)" and zero: "locked_of s v = 0" "\<forall>k. held s v k = {}" and pages: "pages_ok s"
  shows "\<exists>t. Vmx86RegisterVMOnList v s = Some t \<and> vmx_inv t \<and> vmDriverList t = vmDriverList s @ [v]"
proof -
  obtain A U where A: "ids_inv A U s" "set A = (\<lambda>v. vm_userID (vm_mem s v) - 1) ` machines s" "distinct (vmDriverList s)"
    "vmCount s = of_nat (length (vmDriverList s))" "inj_on (\<lambda>v. vm_userID (vm_mem s v)) (machines s)"
    "length (vmDriverList s) < MAX_VMS \<longleftrightarrow> U \<noteq> []" using ok by (rule ids_okE)
  obtain x U' where U: "U = x # U'" using A(6) room by (cases U) auto
  have "ids_inv A U (s\<lparr>vmCount := vmCount s + 1\<rparr>)" using A(1) by (simp add: ids_inv_def)
  from AllocVMID_ids(2) [OF this U] obtain l a u where al: "Vmx86AllocVMID (s\<lparr>vmCount := vmCount s + 1\<rparr>)
      = Some (x, s\<lparr>vmCount := vmCount s + 1, vmIDsUnused := u, vmIDList := l, vmIDsAllocated := a\<rparr>)"
    "ids_inv (x # A) U' (s\<lparr>vmCount := vmCount s + 1, vmIDsUnused := u, vmIDList := l, vmIDsAllocated := a\<rparr>)" by auto
  define t where "t = (upd_vm v (\<lambda>vm. vm\<lparr>vm_userID := x + 1\<rparr>)
      (s\<lparr>vmCount := vmCount s + 1, vmIDsUnused := u, vmIDList := l, vmIDsAllocated := a\<rparr>))\<lparr>vmDriverList := vmDriverList s @ [v]\<rparr>"
  have run: "Vmx86RegisterVMOnList v s = Some t"
    using v by (simp add: Vmx86RegisterVMOnList_def al(1) t_def machines_def upd_vm_def Let_def)
  have m: "machines t = insert v (machines s)" by (simp add: machines_def t_def)
  have f: "vmDriverList t = vmDriverList s @ [v]" "vmCount t = vmCount s + 1" "numLockedPages t = numLockedPages s"
    "vm_userID (vm_mem t w) = (if w = v then x + 1 else vm_userID (vm_mem s w))" "locked_of t w = locked_of s w" for w
    by (simp_all add: t_def upd_vm_def locked_of_def)
  have same: "same_pages s t" by (simp add: same_on_def t_def upd_vm_def)
  have x: "x \<notin> set A" using A(1) by (auto simp: ids_inv_def U)
  have "ids_inv (x # A) U' t" using al(2) by (simp add: ids_inv_def t_def upd_vm_def)
  moreover have img: "(\<lambda>w. vm_userID (vm_mem t w) - 1) ` machines s = set A" using v by (auto simp: A(2) f)
  moreover have "inj_on (\<lambda>w. vm_userID (vm_mem t w)) (machines t)"
  proof -
    have "x + 1 \<noteq> vm_userID (vm_mem s w)" if "w \<in> machines s" for w
      using x that unfolding A(2) by force
    note this this [symmetric]
    then show ?thesis using A(5) v by (auto simp: inj_on_def m f)
  qed
  moreover have "set (x # A) = (\<lambda>w. vm_userID (vm_mem t w) - 1) ` machines t" using img by (simp add: m f)
  moreover have "distinct (vmDriverList t)" "vmCount t = of_nat (length (vmDriverList t))"
    using A(3,4) v by (simp_all add: f machines_def)
  ultimately have "ids_ok t" unfolding ids_ok_def by blast
  moreover have "pages_ok t"
  proof -
    have z: "pages_of s v = 0" using zero(2) by (simp add: pages_of_def)
    show ?thesis using pages zero(1) v z by (simp add: pages_ok_def m f same_pages_pages_of [OF same])
  qed
  moreover have "host_good (machines t, t)" using good same_pages_good [OF same] by (simp add: m)
  ultimately show ?thesis using run f(1) by (auto simp: vmx_inv_def)
qed

lemma clock_noop: "vm_fastClockRate (vm_mem s v) = 0 \<Longrightarrow> snd (Vmx86_SetHostClockRate f (Some v) 0 s) = s"
  by (simp add: Vmx86_SetHostClockRate_def)

text \<open>The allocations of \<open>Vmx86_CreateVM\<close> succeed, with memory that nobody uses.\<close>

definition fresh_alloc :: "vm_alloc \<Rightarrow> 'a vmx_state_scheme \<Rightarrow> bool" where
  "fresh_alloc va s \<longleftrightarrow> (\<exists>v av pav mt p l a. va = \<lparr>va_vm = Some v, va_memtracker = Some mt, va_vmhost = True,
       va_physTracker = Some p, va_lockedPages = Some l, va_AWEPages = Some a\<rparr>
     \<and> MemTrack_Init av pav = Some mt \<and> distinct [p, l, a] \<and> (\<forall>q \<in> {p, l, a}. q \<notin> pt_live s) \<and> v \<notin> machines s)"

lemma books_machine:
  assumes "books t = books s"
  shows "machines t = machines s" "ids_ok s \<Longrightarrow> ids_ok t" "locked_of t w = locked_of s w" "numLockedPages t = numLockedPages s"
  using charged_ids [OF charged_books [OF assms]] books_fields [OF assms]
  by (simp_all add: locked_of_def machines_def)

lemma CreateVM_inv:
  assumes inv: "vmx_inv s" and va: "fresh_alloc va s"
  shows "\<exists>r t. Vmx86_CreateVM set_rate va s = Some (r, t) \<and> vmx_inv t
    \<and> (if length (vmDriverList s) < MAX_VMS then r = va_vm va \<and> vmDriverList t = vmDriverList s @ [the r]
       else r = None \<and> vmDriverList t = vmDriverList s)"
proof -
  obtain v av pav mt p l a where va': "va = \<lparr>va_vm = Some v, va_memtracker = Some mt, va_vmhost = True,
       va_physTracker = Some p, va_lockedPages = Some l, va_AWEPages = Some a\<rparr>"
     "MemTrack_Init av pav = Some mt" "distinct [p, l, a]" "\<forall>q \<in> {p, l, a}. q \<notin> pt_live s" "v \<notin> machines s"
    using va by (auto simp: fresh_alloc_def)
  define s1 where "s1 = upd_vm v (\<lambda>_. zero_VMDriver) (s\<lparr>vm_live := insert v (vm_live s)\<rparr>)"
  have c1: "charged s s1 v 0" and same1: "same_on (machines s) s s1"
    using va'(5) by (auto simp: charged_def same_on_def s1_def upd_vm_def locked_of_def)
  have m1: "machines s1 = machines s" by (rule charged_machines [OF c1])
  have ids1: "ids_ok s1" using charged_ids [OF c1] inv by (simp add: vmx_inv_def)
  have g1: "host_good (machines s, s1)" using same_on_good [OF same1] inv by (simp add: vmx_inv_def)
  have b1: "blank_vm (vm_mem s1 v)" by (simp add: s1_def blank_vm_def zero_VMDriver_def)
  have live: "\<forall>q \<in> {p, l, a}. q \<notin> pt_live s1" using va'(4) by (simp add: s1_def)
  obtain s2 where i: "HostIF_Init (Some mt) True (Some p) (Some l) (Some a) v s1 = (True, s2)"
    using HostIF_Init_inv [OF _ b1 refl MemTrack_Init_ok [OF va'(2)] va'(3) live, of "machines s"] g1
    by (auto simp: host_good_def)
  have bk: "books s2 = books s1" by (rule books_HostIF_Init [OF i])
  note b2 = books_machine [OF bk]
  have g2: "host_good (insert v (machines s), s2)" "\<forall>k. held s2 v k = {}" "\<forall>w \<in> machines s. \<forall>k. held s2 w k = held s1 w k"
    using good_start [OF g1 b1 va'(5,2,3) live i] by simp_all
  have L: "vmDriverList s2 = vmDriverList s" "vmCount s2 = vmCount s"
    using books_fields [OF bk] c1 by (simp_all add: charged_def)
  have lk: "locked_of s2 w = locked_of s w" if "w \<in> machines s" for w
    using b2(3) c1 that va'(5) by (auto simp: charged_def)
  have pg: "pages_of s2 w = pages_of s w" if "w \<in> machines s" for w
    using g2(3) same_on_held(1) [OF same1] that by (simp add: pages_of_def)
  have p2: "pages_ok s2"
    using inv lk pg by (simp add: pages_ok_def vmx_inv_def b2(1) m1 b2(4)) (simp add: s1_def upd_vm_def)
  have z: "locked_of s2 v = 0" using b2(3) [of v] by (simp add: locked_of_def s1_def zero_VMDriver_def zero_memInfo_def)
  have ids2: "ids_ok s2" by (rule b2(2) [OF ids1])
  obtain A U where A: "vmCount s2 = of_nat (length (vmDriverList s2))" "length (vmDriverList s2) \<le> MAX_VMS"
    using ids2 by (rule ids_okE)
  have lim: "of_nat MAX_VMS \<le> vmCount s2 \<longleftrightarrow> MAX_VMS \<le> length (vmDriverList s)" using A count_limit [OF A(2)] L(1) by simp
  have m2: "machines s2 = machines s" using b2(1) m1 by simp
  have create: "Vmx86_CreateVM set_rate va s = (if of_nat MAX_VMS \<le> vmCount s2
      then map_option (Pair None) (Vmx86FreeAllVMResources set_rate v s2) else map_option (Pair (Some v)) (Vmx86RegisterVMOnList v s2))"
    by (simp add: Vmx86_CreateVM_def va'(1) s1_def [symmetric] i)
  show ?thesis
  proof (cases "length (vmDriverList s) < MAX_VMS")
    case True
    obtain t where "Vmx86RegisterVMOnList v s2 = Some t" "vmx_inv t" "vmDriverList t = vmDriverList s2 @ [v]"
      using Register_inv [OF ids2 _ _ _ z g2(2) p2] g2(1) va'(5) True by (auto simp: m2 L)
    then show ?thesis using True create lim L va'(1) by auto
  next
    case False
    have r0: "vm_fastClockRate (vm_mem s2 v) = 0" using books_fields(14) [OF bk, of v] by (simp add: s1_def zero_VMDriver_def)
    obtain t where t: "HostIF_FreeAllResources v s2 = Some t" "host_good (insert v (machines s) - {v}, t)"
        "\<forall>w \<in> insert v (machines s) - {v}. \<forall>k. held t w k = held s2 w k"
      using good_exit [OF g2(1), of v] by blast
    have bt: "books t = books s2" by (rule books_FreeAllResources [OF t(1)])
    note b3 = books_machine [OF bt]
    have V: "insert v (machines s) - {v} = machines s" using va'(5) by simp
    define u where "u = t\<lparr>vm_live := vm_live t - {v}\<rparr>"
    have cu: "charged t u v 0" "same_pages t u" by (simp_all add: u_def charged_def same_on_def locked_of_def)
    have "pages_ok t"
      using p2 t(3) va'(5) by (simp add: pages_ok_def b3(1) m2 V b3(3,4) pages_of_def)
    then have "vmx_inv t" using t(2) b3(2) [OF ids2] by (simp add: vmx_inv_def b3(1) m2 V)
    then have "vmx_inv u" using cu by (rule charged_same)
    moreover have "Vmx86FreeAllVMResources set_rate v s2 = Some u"
      by (simp add: Vmx86FreeAllVMResources_def clock_noop [OF r0] t(1) u_def)
    moreover have "vmDriverList u = vmDriverList s" using books_fields(1) [OF bt] L by (simp add: u_def)
    ultimately show ?thesis using False create lim by auto
  qed
qed

subsection \<open>Calls that lock no pages\<close>

definition neutral :: "'a vmx_state_scheme \<Rightarrow> 'a vmx_state_scheme \<Rightarrow> bool" where
  "neutral s t \<longleftrightarrow> (\<forall>v. charged s t v 0) \<and> same_pages s t"

lemma neutral_refl: "neutral s s"
  by (simp add: neutral_def charged_def same_pages_refl)

lemma neutral_trans: "neutral s t \<Longrightarrow> neutral t u \<Longrightarrow> neutral s u"
  unfolding neutral_def using charged_trans [of s t _ 0 u 0] same_pages_trans [of UNIV s t u] by auto

lemma neutral_inv: "neutral s t \<Longrightarrow> vmx_inv s \<Longrightarrow> vmx_inv t"
  by (auto simp: neutral_def intro: charged_same)

lemma neutral_list: "neutral s t \<Longrightarrow> vmDriverList t = vmDriverList s"
  by (simp add: neutral_def charged_def)

lemma neutral_memInfo: "(\<And>mi. mi_locked (f mi) = mi_locked mi) \<Longrightarrow> neutral s (upd_memInfo v f s)"
  by (simp add: neutral_def charged_def same_on_def locked_of_def upd_memInfo_def upd_vm_def)

lemma neutral_fields:
  "neutral s (s\<lparr>lpl_host := a\<rparr>)" "neutral s (s\<lparr>lpl_configured := a\<rparr>)" "neutral s (s\<lparr>lpl_dynamic := a\<rparr>)"
  "neutral s (s\<lparr>minVmMemPct := a\<rparr>)" "neutral s (s\<lparr>fdCount := a\<rparr>)" "neutral s (s\<lparr>tsc_initialized := b\<rparr>)"
  "neutral s (s\<lparr>globalFastClockRate := a\<rparr>)" "neutral s (s\<lparr>vm_live := V\<rparr>)"
  by (simp_all add: neutral_def charged_def same_on_def locked_of_def)

lemma neutral_limit: "Vmx86LockedPageLimit ms v s = Some (l, t) \<Longrightarrow> neutral s t"
  by (auto simp: Vmx86LockedPageLimit_def Let_def neutral_fields)

lemma neutral_clock: "neutral s (snd (Vmx86_SetHostClockRate f (Some v) r s))"
  by (auto simp: Vmx86_SetHostClockRate_def Let_def neutral_def charged_def same_on_def locked_of_def upd_vm_def split: prod.split)

lemma neutral_UpdateMin: "neutral s (Vmx86UpdateMinAllocations pct s)"
proof -
  have "neutral s (foldl (\<lambda>s w. upd_memInfo w (\<lambda>mi. if mi_admitted mi then mi\<lparr>mi_minAllocation := Vmx86MinAllocation mi pct\<rparr> else mi) s) s l)" for l
    by (induction l rule: rev_induct) (auto simp: neutral_refl intro!: neutral_trans [OF _ neutral_memInfo])
  then show ?thesis by (simp add: Vmx86UpdateMinAllocations_def)
qed

lemma neutral_SetMemoryUsage: "Vmx86SetMemoryUsage v p n pct s = (ok, t) \<Longrightarrow> neutral s t"
  by (auto simp: Vmx86SetMemoryUsage_def Let_def intro!: neutral_trans [OF neutral_memInfo neutral_memInfo])

lemma neutral_Admit:
  assumes "Vmx86_Admit ms v args s = Some (out, t)"
  shows "neutral s t"
proof -
  define pct where "pct = ma_minVmMemPct args"
  define arg where "arg = hd (ma_memInfo args)"
  define allow where "allow = (mi_mainMemSize arg \<le> mi_paged arg \<and> Vmx86CalculateGlobalMinAllocation pct s \<le> Vmx86LockedPageLimitForAdmissonControl None s)"
  define s1 where "s1 = (if allow then Vmx86UpdateMinAllocations pct (s\<lparr>minVmMemPct := pct\<rparr>) else s)"
  have n1: "neutral s s1"
    using neutral_trans [OF neutral_fields(4) [of s pct] neutral_UpdateMin] by (simp add: s1_def neutral_refl)
  define s2 where "s2 = upd_memInfo v (\<lambda>mi. mi\<lparr>mi_shares := mi_shares arg, mi_usedPct := 100, mi_mainMemSize := mi_mainMemSize arg,
                 mi_perVMOverhead := mi_perVMOverhead arg, mi_admitted := False\<rparr>) s1"
  have n2: "neutral s1 s2" unfolding s2_def by (rule neutral_memInfo) simp
  obtain ok s3 where s3: "Vmx86SetMemoryUsage v (mi_paged arg) (mi_nonpaged arg) pct s2 = (ok, s3)" by fastforce
  note n3 = neutral_SetMemoryUsage [OF s3]
  define s4 where "s4 = (if ok \<and> allow \<and> Vmx86CalculateGlobalMinAllocation pct s + mi_minAllocation (vm_memInfo (vm_mem s3 v))
      \<le> Vmx86LockedPageLimitForAdmissonControl (Some v) s3 then upd_memInfo v (\<lambda>mi. mi\<lparr>mi_admitted := True\<rparr>) s3 else s3)"
  have n4: "neutral s3 s4" by (simp add: s4_def neutral_memInfo neutral_refl)
  obtain limit where "Vmx86LockedPageLimit ms (Some v) s4 = Some (limit, t)"
    using assms unfolding Vmx86_Admit_def Let_def pct_def [symmetric] arg_def [symmetric] allow_def [symmetric]
      s1_def [symmetric] s2_def [symmetric] s3 prod.case s4_def [symmetric] by auto
  then show ?thesis
    by (rule neutral_trans [OF neutral_trans [OF neutral_trans [OF neutral_trans [OF n1 n2] n3] n4] neutral_limit])
qed

lemma neutral_Readmit: "Vmx86_Readmit ms v dp dn s = Some (r, t) \<Longrightarrow> neutral s t"
  by (auto simp: Vmx86_Readmit_def Let_def neutral_refl dest!: neutral_limit neutral_SetMemoryUsage
      intro: neutral_trans split: if_splits)

lemma neutral_others:
  "neutral s (Vmx86_UpdateMemInfo v patch s)" "neutral s (snd (Vmx86_SetConfiguredLockedPagesLimit l s))"
  "neutral s (Vmx86_SetDynamicLockedPagesLimit l s)" "neutral s (Vmx86_Open s)" "neutral s (Vmx86_Close s)"
proof -
  show "neutral s (Vmx86_UpdateMemInfo v patch s)" unfolding Vmx86_UpdateMemInfo_def by (rule neutral_memInfo) simp
  show "neutral s (snd (Vmx86_SetConfiguredLockedPagesLimit l s))" "neutral s (Vmx86_SetDynamicLockedPagesLimit l s)" "neutral s (Vmx86_Open s)"
    by (simp_all add: Vmx86_SetConfiguredLockedPagesLimit_def Vmx86_SetDynamicLockedPagesLimit_def Vmx86_Open_def neutral_fields neutral_refl)
  show "neutral s (Vmx86_Close s)"
    by (auto simp: Vmx86_Close_def Let_def neutral_refl neutral_fields intro: neutral_trans neutral_fields)
qed

subsection \<open>Releasing a machine\<close>

lemma ReleaseVM_inv:
  assumes inv: "vmx_inv s" and v: "v \<in> machines s"
  shows "\<exists>t. Vmx86_ReleaseVM set_rate v s = Some (0, t) \<and> vmx_inv t \<and> vmDriverList t = remove1 v (vmDriverList s)"
proof -
  have ok: "ids_ok s" and pg: "pages_ok s" and g: "host_good (machines s, s)" using inv by (simp_all add: vmx_inv_def)
  obtain A U where A: "ids_inv A U s" "set A = (\<lambda>v. vm_userID (vm_mem s v) - 1) ` machines s" "distinct (vmDriverList s)"
    "vmCount s = of_nat (length (vmDriverList s))" "inj_on (\<lambda>v. vm_userID (vm_mem s v)) (machines s)" using ok by (rule ids_okE)
  define x where "x = vm_userID (vm_mem s v) - 1"
  have "x \<in> set A" using v by (simp add: A(2) x_def)
  moreover have "ids_inv A U (s\<lparr>vmDriverList := remove1 v (vmDriverList s), vmCount := vmCount s - 1\<rparr>)"
    using A(1) by (simp add: ids_inv_def)
  ultimately obtain l a u where fr: "Vmx86FreeVMID x (s\<lparr>vmDriverList := remove1 v (vmDriverList s), vmCount := vmCount s - 1\<rparr>)
      = Some (s\<lparr>vmDriverList := remove1 v (vmDriverList s), vmCount := vmCount s - 1, vmIDList := l, vmIDsAllocated := a, vmIDsUnused := u\<rparr>)"
    "ids_inv (remove1 x A) (x # U) (s\<lparr>vmDriverList := remove1 v (vmDriverList s), vmCount := vmCount s - 1, vmIDList := l, vmIDsAllocated := a, vmIDsUnused := u\<rparr>)"
    using FreeVMID_ids by fastforce
  define s1 where "s1 = (let s2 = s\<lparr>vmDriverList := remove1 v (vmDriverList s), vmCount := vmCount s - 1, vmIDList := l, vmIDsAllocated := a, vmIDsUnused := u,
      numLockedPages := numLockedPages s - locked_of s v\<rparr> in if vmCount s2 = 0 then s2\<lparr>lpl_configured := 0\<rparr> else s2)"
  have del: "Vmx86DeleteVMFromList v s = Some s1"
    using v fr(1) by (simp add: Vmx86DeleteVMFromList_def machines_def s1_def Let_def x_def [symmetric] locked_of_def)
  have f1: "vmDriverList s1 = remove1 v (vmDriverList s)" "vmCount s1 = vmCount s - 1" "numLockedPages s1 = numLockedPages s - locked_of s v"
    "vm_mem s1 = vm_mem s" "ids_inv (remove1 x A) (x # U) s1" "same_pages s s1"
    using fr(2) by (simp_all add: s1_def Let_def ids_inv_def same_on_def)
  have m1: "machines s1 = machines s - {v}" using A(3) by (simp add: machines_def f1(1))
  define s2 where "s2 = snd (Vmx86_SetHostClockRate set_rate (Some v) 0 s1)"
  have n2: "neutral s1 s2" unfolding s2_def by (rule neutral_clock)
  then have "same_pages s s2" using f1(6) same_pages_trans by (auto simp: neutral_def)
  note same = this
  have "host_good (machines s, s2)" using same_pages_good [OF same] g by simp
  then obtain t where t: "HostIF_FreeAllResources v s2 = Some t" "host_good (machines s - {v}, t)"
      "\<forall>w \<in> machines s - {v}. \<forall>k. held t w k = held s2 w k"
    using good_exit [of "machines s" s2 v] v by blast
  have bt: "books t = books s2" by (rule books_FreeAllResources [OF t(1)])
  have ct: "charged s1 t v 0" using charged_trans [OF _ charged_books [OF bt], of s1 v 0] n2 by (simp add: neutral_def)
  have mt: "machines t = machines s - {v}" using charged_machines [OF ct] m1 by simp
  have ids1: "ids_ok s1"
  proof -
    have "set (remove1 x A) = (\<lambda>w. vm_userID (vm_mem s w) - 1) ` (machines s - {v})"
    proof -
      have "distinct A" using A(1) by (simp add: ids_inv_def)
      then have "set (remove1 x A) = set A - {x}" by simp
      also have "\<dots> = (\<lambda>w. vm_userID (vm_mem s w) - 1) ` (machines s - {v})"
        using A(5) v unfolding A(2) x_def by (auto simp: inj_on_def)
      finally show ?thesis .
    qed
    moreover have "vmCount s1 = of_nat (length (vmDriverList s1))"
    proof -
      obtain n where n: "length (vmDriverList s) = Suc n" using v by (cases "vmDriverList s") (auto simp: machines_def)
      then have "length (vmDriverList s1) = n" using v by (simp add: f1(1) length_remove1 machines_def)
      then show ?thesis by (simp add: f1(2) A(4) n)
    qed
    moreover have "inj_on (\<lambda>w. vm_userID (vm_mem s w)) (machines s - {v})" using A(5) by (rule inj_on_subset) auto
    ultimately show ?thesis using A(3) f1(5) by (auto simp: ids_ok_def m1 f1(4)) (simp add: f1(1))
  qed
  have "pages_ok t"
  proof -
    have p: "pages_of t w = pages_of s w" if "w \<in> machines s" "w \<noteq> v" for w
      using t(3) that by (simp add: pages_of_def same_pages_held [OF same])
    have l: "locked_of t w = locked_of s w" if "w \<in> machines s" "w \<noteq> v" for w
      using ct that by (simp add: charged_def m1) (simp add: locked_of_def f1(4))
    have "numLockedPages t = numLockedPages s - of_nat (pages_of s v)"
      using ct pg v by (simp add: charged_def f1(3) pages_ok_def)
    also have "\<dots> = of_nat (\<Sum>w \<in> machines s - {v}. pages_of s w)"
    proof -
      have "numLockedPages s = of_nat (\<Sum>w \<in> machines s. pages_of s w)" using pg by (simp only: pages_ok_def)
      then show ?thesis by (simp add: sum.remove [OF finite_machines v] del: of_nat_sum)
    qed
    also have "(\<Sum>w \<in> machines s - {v}. pages_of s w) = (\<Sum>w \<in> machines s - {v}. pages_of t w)" using p by (intro sum.cong) auto
    finally have "numLockedPages t = of_nat (\<Sum>w \<in> machines s - {v}. pages_of t w)" .
    then show ?thesis using pg l p by (simp only: pages_ok_def mt) auto
  qed
  then have it: "vmx_inv t" using t(2) charged_ids [OF ct ids1] by (simp add: vmx_inv_def mt)
  have "Vmx86_ReleaseVM set_rate v s = Some (0, t\<lparr>vm_live := vm_live t - {v}\<rparr>)"
    by (simp add: Vmx86_ReleaseVM_def del Vmx86FreeAllVMResources_def s2_def [symmetric] t(1))
  moreover have "vmx_inv (t\<lparr>vm_live := vm_live t - {v}\<rparr>)" by (rule neutral_inv [OF neutral_fields(8) it])
  moreover have "vmDriverList t = remove1 v (vmDriverList s)" using ct f1(1) by (simp add: charged_def)
  ultimately show ?thesis by auto
qed

subsection \<open>The driver over its calls\<close>

text \<open>
  Every call of the driver, with any answers of the kernel; the page numbers of the kernel are below
  \<open>2 ^ 31\<close> (from there on \<open>PAGE_LOCK_SUCCESS\<close> takes a page number for an error).
\<close>

inductive vmx_step :: "vmx_state \<Rightarrow> vmx_state \<Rightarrow> bool" where
  create: "fresh_alloc va s \<Longrightarrow> Vmx86_CreateVM set_rate va s = Some (r, t) \<Longrightarrow> vmx_step s t"
| release: "v \<in> machines s \<Longrightarrow> Vmx86_ReleaseVM set_rate v s = Some (r, t) \<Longrightarrow> vmx_step s t"
| lock: "v \<in> machines s \<Longrightarrow> user_page page \<Longrightarrow> \<forall>m. page = Some m \<longrightarrow> m < 2 ^ 31 \<Longrightarrow> multiple \<longrightarrow> al = all_memory
    \<Longrightarrow> Vmx86_LockPage mss al page v uAddr multiple s = Some (mpn, t) \<Longrightarrow> vmx_step s t"
| unlock: "v \<in> machines s \<Longrightarrow> Vmx86_UnlockPage v uAddr s = Some (e, t) \<Longrightarrow> vmx_step s t"
| unlock_by_number: "v \<in> machines s \<Longrightarrow> Vmx86_UnlockPageByMPN v m s = Some (e, t) \<Longrightarrow> vmx_step s t"
| alloc: "v \<in> machines s \<Longrightarrow> \<forall>(pg, c, a2, a3) \<in> set ps. a2 \<and> a3 \<and> user_page pg \<Longrightarrow> distinct (List.map_filter fst ps)
    \<Longrightarrow> \<forall>m \<in> set (List.map_filter fst ps). page_refs s m = 0 \<Longrightarrow> unat n < 2 ^ 31
    \<Longrightarrow> Vmx86_AllocLockedPages mss ps v n s = Some (x, out, t) \<Longrightarrow> vmx_step s t"
| free: "v \<in> machines s \<Longrightarrow> \<forall>ms. buf = Some ms \<longrightarrow> length ms = unat n \<Longrightarrow> Vmx86_FreeLockedPages v buf n k s = Some (x, t) \<Longrightarrow> vmx_step s t"
| admit: "v \<in> machines s \<Longrightarrow> Vmx86_Admit ms v args s = Some (out, t) \<Longrightarrow> vmx_step s t"
| readmit: "v \<in> machines s \<Longrightarrow> Vmx86_Readmit ms v dp dn s = Some (b, t) \<Longrightarrow> vmx_step s t"
| update: "v \<in> machines s \<Longrightarrow> vmx_step s (Vmx86_UpdateMemInfo v patch s)"
| clock: "v \<in> machines s \<Longrightarrow> vmx_step s (snd (Vmx86_SetHostClockRate set_rate (Some v) rate s))"
| configure: "vmx_step s (snd (Vmx86_SetConfiguredLockedPagesLimit limit s))"
| limit: "vmx_step s (Vmx86_SetDynamicLockedPagesLimit limit s)"
| open_fd: "vmx_step s (Vmx86_Open s)"
| close_fd: "vmx_step s (Vmx86_Close s)"

text \<open>The driver when it is loaded.\<close>

definition vmx_init :: vmx_state where
  "vmx_init = Vmx86_InitIDList \<lparr>physTracker = None, pt_mem = \<lambda>_. zero_tracker, pt_live = {}, vm_mem = \<lambda>_. zero_VMDriver,
     page_refs = \<lambda>_. 0, vmDriverList = [], vm_live = {}, vmIDList = [], vmIDsAllocated = 0, vmIDsUnused = 0,
     lpl_host = 0, lpl_configured = 0, lpl_dynamic = MAX_LOCKED_PAGES, minVmMemPct = 0, numLockedPages = 0, vmCount = 0,
     fdCount = 0, globalFastClockRate = 0, tsc_initialized = False\<rparr>"

lemma vmx_init_inv: "vmx_inv vmx_init"
proof -
  have "host_good ({}, vmx_init)"
    by (simp add: host_good_def host_inv_def host_wf_def holders_def vmx_init_def Vmx86_InitIDList_def)
  moreover have f: "vmDriverList vmx_init = []" "vmCount vmx_init = 0" "numLockedPages vmx_init = 0"
    by (simp_all add: vmx_init_def Vmx86_InitIDList_def)
  moreover have "ids_ok vmx_init"
    using init_ids unfolding ids_ok_def machines_def f by (auto simp: vmx_init_def intro!: exI [of _ "map int [0 ..< MAX_VMS]"])
  ultimately show ?thesis by (simp add: vmx_inv_def pages_ok_def machines_def)
qed

lemma vmx_step_inv: "vmx_step s t \<Longrightarrow> vmx_inv s \<Longrightarrow> vmx_inv t"
proof (induction rule: vmx_step.induct)
  case (create va s set_rate r t)
  then show ?case using CreateVM_inv [of s va set_rate] by auto
next
  case (release v s set_rate r t)
  then show ?case using ReleaseVM_inv [of s v set_rate] by auto
qed (blast intro: inv_LockPage inv_UnlockPage inv_UnlockPageByMPN inv_AllocLockedPages inv_FreeLockedPages
      neutral_inv [OF neutral_Admit] neutral_inv [OF neutral_Readmit] neutral_inv [OF neutral_others(1)]
      neutral_inv [OF neutral_clock] neutral_inv [OF neutral_others(2)] neutral_inv [OF neutral_others(3)]
      neutral_inv [OF neutral_others(4)] neutral_inv [OF neutral_others(5)])+

lemma vmx_reachable: "vmx_step\<^sup>*\<^sup>* vmx_init s \<Longrightarrow> vmx_inv s"
  by (induction rule: rtranclp_induct) (auto intro: vmx_init_inv vmx_step_inv)

text \<open>
  C30: In every state the driver reaches, whatever calls are made and whatever the kernel answers, the
  number of locked pages charged to a machine is the number of pages that its trackers hold (under
  an address, under a number, or allocated), their sum is the driver's total, and releasing any machine
  returns and leaves such a state, without the machine.
\<close>

theorem locked_pages_exact:
  assumes "vmx_step\<^sup>*\<^sup>* vmx_init s"
  shows "(\<forall>v \<in> machines s. mi_locked (vm_memInfo (vm_mem s v))
        = of_nat (card (held s v Pinned) + card (held s v Locked) + card (held s v AWE)))
    \<and> numLockedPages s = (\<Sum>v \<in> machines s. mi_locked (vm_memInfo (vm_mem s v)))
    \<and> (\<forall>v \<in> machines s. \<exists>t. Vmx86_ReleaseVM set_rate v s = Some (0, t) \<and> vmDriverList t = remove1 v (vmDriverList s)
        \<and> numLockedPages t = (\<Sum>w \<in> machines t. mi_locked (vm_memInfo (vm_mem t w))))"
proof -
  have sum: "numLockedPages s = (\<Sum>v \<in> machines s. mi_locked (vm_memInfo (vm_mem s v)))"
    if "vmx_inv s" for s :: vmx_state
    using that by (simp add: vmx_inv_def pages_ok_def locked_of_def)
  have inv: "vmx_inv s" by (rule vmx_reachable [OF assms])
  then have "\<forall>v \<in> machines s. mi_locked (vm_memInfo (vm_mem s v))
        = of_nat (card (held s v Pinned) + card (held s v Locked) + card (held s v AWE))"
    by (simp add: vmx_inv_def pages_ok_def locked_of_def pages_of_def)
  moreover have "\<exists>t. Vmx86_ReleaseVM set_rate v s = Some (0, t) \<and> vmDriverList t = remove1 v (vmDriverList s)
        \<and> numLockedPages t = (\<Sum>w \<in> machines t. mi_locked (vm_memInfo (vm_mem t w)))" if "v \<in> machines s" for v
    using ReleaseVM_inv [OF inv that, of set_rate] sum by blast
  ultimately show ?thesis using sum [OF inv] by blast
qed

text \<open>
  C31: Machines always have different ids, between 1 and 64, and the driver's count is their number: in
  every state the driver reaches a new machine gets an id exactly when fewer than 64 machines exist, and is
  refused, with everything it was given freed, otherwise.
\<close>

theorem vm_ids_unique:
  assumes "vmx_step\<^sup>*\<^sup>* vmx_init s"
  shows "(\<forall>v \<in> machines s. 1 \<le> vm_userID (vm_mem s v) \<and> vm_userID (vm_mem s v) \<le> 64)
    \<and> inj_on (\<lambda>v. vm_userID (vm_mem s v)) (machines s)
    \<and> Vmx86_GetNumVMs s = int (card (machines s)) \<and> card (machines s) \<le> 64
    \<and> (fresh_alloc va s \<longrightarrow> (\<exists>r t. Vmx86_CreateVM set_rate va s = Some (r, t)
         \<and> (if card (machines s) < 64 then r = va_vm va \<and> vmDriverList t = vmDriverList s @ [the r]
            else r = None \<and> vmDriverList t = vmDriverList s)))"
proof -
  have inv: "vmx_inv s" by (rule vmx_reachable [OF assms])
  then have ok: "ids_ok s" by (simp add: vmx_inv_def)
  obtain A U where A: "ids_inv A U s" "set A = (\<lambda>v. vm_userID (vm_mem s v) - 1) ` machines s" "distinct (vmDriverList s)"
    "vmCount s = of_nat (length (vmDriverList s))" "inj_on (\<lambda>v. vm_userID (vm_mem s v)) (machines s)"
    "length (vmDriverList s) \<le> MAX_VMS" using ok by (rule ids_okE)
  have c: "card (machines s) = length (vmDriverList s)" using A(3) by (simp add: machines_def distinct_card)
  have "set A \<subseteq> {0 ..< int MAX_VMS}" using A(1) by (auto simp: ids_inv_def)
  then have "\<forall>v \<in> machines s. 1 \<le> vm_userID (vm_mem s v) \<and> vm_userID (vm_mem s v) \<le> 64"
    unfolding A(2) by (fastforce simp: MAX_VMS_def)
  moreover have "Vmx86_GetNumVMs s = int (card (machines s))"
  proof -
    have "unat (of_nat (length (vmDriverList s)) :: u32) = length (vmDriverList s)"
      using A(6) by (simp add: MAX_VMS_def unsigned_of_nat take_bit_nat_eq_self)
    then show ?thesis using A(6) sint_small [of "of_nat (length (vmDriverList s))"] by (simp add: Vmx86_GetNumVMs_def A(4) c MAX_VMS_def)
  qed
  moreover have "fresh_alloc va s \<longrightarrow> (\<exists>r t. Vmx86_CreateVM set_rate va s = Some (r, t)
         \<and> (if card (machines s) < 64 then r = va_vm va \<and> vmDriverList t = vmDriverList s @ [the r]
            else r = None \<and> vmDriverList t = vmDriverList s))"
  proof
    assume "fresh_alloc va s"
    from CreateVM_inv [OF inv this] obtain r t where
      "Vmx86_CreateVM set_rate va s = Some (r, t)"
      "if length (vmDriverList s) < MAX_VMS then r = va_vm va \<and> vmDriverList t = vmDriverList s @ [the r]
       else r = None \<and> vmDriverList t = vmDriverList s" by blast
    then show "\<exists>r t. Vmx86_CreateVM set_rate va s = Some (r, t)
         \<and> (if card (machines s) < 64 then r = va_vm va \<and> vmDriverList t = vmDriverList s @ [the r]
            else r = None \<and> vmDriverList t = vmDriverList s)"
      unfolding c MAX_VMS_def by blast
  qed
  ultimately show ?thesis using A(5,6) by (simp add: c MAX_VMS_def)
qed

text \<open>A machine created in the state the driver starts in, for the witnesses.\<close>

definition first_alloc :: vm_alloc where
  "first_alloc = \<lparr>va_vm = Some 1, va_memtracker = MemTrack_Init True (\<lambda>_. True), va_vmhost = True,
     va_physTracker = Some 11, va_lockedPages = Some 12, va_AWEPages = Some 13\<rparr>"

lemma first_alloc_fresh: "fresh_alloc first_alloc vmx_init"
proof -
  obtain mt where "MemTrack_Init True (\<lambda>_. True) = Some mt" by (fastforce simp: MemTrack_Init_def list_all_iff)
  then show ?thesis
    unfolding fresh_alloc_def first_alloc_def
    by (intro exI [of _ 1] exI [of _ True] exI [of _ "\<lambda>_. True"] exI [of _ mt] exI [of _ 11] exI [of _ 12] exI [of _ 13])
      (simp add: vmx_init_def Vmx86_InitIDList_def machines_def)
qed

lemma first_machine:
  "\<exists>t. Vmx86_CreateVM (\<lambda>_. 0) first_alloc vmx_init = Some (Some 1, t) \<and> vmx_step\<^sup>*\<^sup>* vmx_init t \<and> machines t = {1}"
proof -
  obtain r t where t: "Vmx86_CreateVM (\<lambda>_. 0) first_alloc vmx_init = Some (r, t)"
    "if length (vmDriverList vmx_init) < MAX_VMS then r = va_vm first_alloc \<and> vmDriverList t = vmDriverList vmx_init @ [the r]
     else r = None \<and> vmDriverList t = vmDriverList vmx_init"
    using CreateVM_inv [OF vmx_init_inv first_alloc_fresh, of "\<lambda>_. 0"] by blast
  have "vmx_step vmx_init t" by (rule vmx_step.create [OF first_alloc_fresh t(1)])
  moreover have "r = Some 1" "machines t = {1}"
    using t(2) by (simp_all add: MAX_VMS_def vmx_init_def Vmx86_InitIDList_def first_alloc_def machines_def)
  ultimately show ?thesis using t(1) by blast
qed

theorem locked_pages_exact_witness:
  "\<exists>s. vmx_step\<^sup>*\<^sup>* vmx_init s \<and> machines s = {1}
    \<and> numLockedPages s = of_nat (card (held s 1 Pinned) + card (held s 1 Locked) + card (held s 1 AWE))
    \<and> (\<exists>t. Vmx86_ReleaseVM (\<lambda>_. 0) 1 s = Some (0, t) \<and> numLockedPages t = 0)"
proof -
  obtain s where s: "vmx_step\<^sup>*\<^sup>* vmx_init s" "machines s = {1}" using first_machine by blast
  note h = locked_pages_exact [OF s(1), of "\<lambda>_. 0"]
  obtain t where t: "Vmx86_ReleaseVM (\<lambda>_. 0) 1 s = Some (0, t)" "vmDriverList t = remove1 1 (vmDriverList s)"
    "numLockedPages t = (\<Sum>w \<in> machines t. mi_locked (vm_memInfo (vm_mem t w)))" using h s(2) by auto
  have "distinct (vmDriverList s)" using vmx_reachable [OF s(1)] by (simp add: vmx_inv_def ids_ok_def)
  then have "machines t = {}" using t(2) s(2) by (simp add: machines_def)
  then show ?thesis using h s t by (intro exI [of _ s]) simp
qed

theorem vm_ids_unique_witness:
  "\<exists>s. vmx_step\<^sup>*\<^sup>* vmx_init s \<and> machines s = {1} \<and> Vmx86_GetNumVMs s = 1 \<and> 1 \<le> vm_userID (vm_mem s 1)"
proof -
  obtain s where s: "vmx_step\<^sup>*\<^sup>* vmx_init s" "machines s = {1}" using first_machine by blast
  then show ?thesis using vm_ids_unique [OF s(1), of first_alloc "\<lambda>_. 0"] by auto
qed

end
