(* ===== verification/VmxLimits.thy ===== *)
theory VmxLimits
  imports VmxLifecycle
begin

text \<open>
  The limits of \<open>vmmon-only/common/vmx86.c\<close>: pages are reserved only within the limit of the machine and
  the limit of the host, and machines are admitted only while the minimum allocations of all admitted
  machines fit.
\<close>

section \<open>Reservation\<close>

lemma word_room: "(a :: 'a::len word) < l \<Longrightarrow> n \<le> l - a \<Longrightarrow> unat (a + n) = unat a + unat n \<and> a + n \<le> l"
proof -
  assume "a < l" "n \<le> l - a"
  then have "unat a + unat n \<le> unat l" by (simp add: word_le_nat_alt word_less_nat_alt unat_sub)
  moreover from this have "unat a + unat n < 2 ^ LENGTH('a)" by (meson le_less_trans unsigned_less)
  ultimately show ?thesis by (simp add: word_le_nat_alt unat_word_ariths(1))
qed

lemma LockedPageLimit_frame:
  "Vmx86LockedPageLimit ms vm s = Some (l, t) \<Longrightarrow> numLockedPages t = numLockedPages s \<and> vm_mem t = vm_mem s \<and> vmDriverList t = vmDriverList s
     \<and> minVmMemPct t = minVmMemPct s \<and> lpl_configured t = lpl_configured s \<and> lpl_dynamic t = lpl_dynamic s \<and> vmCount t = vmCount s"
  by (auto simp: Vmx86LockedPageLimit_def Let_def)

lemma LockedPageLimit_value:
  "Vmx86LockedPageLimit ms vm s = Some (l, t) \<Longrightarrow>
     l = Vmx86AdjustLimitForOverheads vm (min (min (lpl_configured t) (lpl_dynamic t)) (lpl_host t)) t"
  by (auto simp: Vmx86LockedPageLimit_def Let_def)

definition host_limit :: "ptr option \<Rightarrow> 'a vmx_state_scheme \<Rightarrow> u32" where
  "host_limit vm s = Vmx86AdjustLimitForOverheads vm (min (min (lpl_configured s) (lpl_dynamic s)) (lpl_host s)) s"

lemma host_limit_frame:
  "lpl_configured t = lpl_configured s \<Longrightarrow> lpl_dynamic t = lpl_dynamic s \<Longrightarrow> lpl_host t = lpl_host s \<Longrightarrow> vmCount t = vmCount s
    \<Longrightarrow> mi_perVMOverhead (vm_memInfo (vm_mem t v)) = mi_perVMOverhead (vm_memInfo (vm_mem s v)) \<Longrightarrow> host_limit (Some v) t = host_limit (Some v) s"
  by (simp add: host_limit_def Vmx86AdjustLimitForOverheads_def)

text \<open>What a successful reservation leaves: there was room under both limits, and the pages are charged.\<close>

definition reserved :: "ptr \<Rightarrow> u32 \<Rightarrow> 'a vmx_state_scheme \<Rightarrow> 'a vmx_state_scheme \<Rightarrow> bool" where
  "reserved v n s t \<longleftrightarrow>
     (let mi = vm_memInfo (vm_mem s v) in
      numLockedPages s < host_limit (Some v) t \<and> n \<le> host_limit (Some v) t - numLockedPages s
      \<and> numLockedPages t = numLockedPages s + n \<and> vm_memInfo (vm_mem t v) = mi\<lparr>mi_locked := mi_locked mi + n\<rparr>
      \<and> (\<forall>w. w \<noteq> v \<longrightarrow> vm_mem t w = vm_mem s w)
      \<and> (mi_admitted mi \<longrightarrow> mi_locked mi < mi_maxAllocation mi \<and> n \<le> mi_maxAllocation mi - mi_locked mi))"

lemma reserve_tries_limits: "reserve_tries mss v n s = Some (True, t) \<Longrightarrow> reserved v n s t"
proof (induction mss arbitrary: s)
  case Nil
  then show ?case by simp
next
  case (Cons ms mss)
  obtain limit s2 where l: "Vmx86LockedPageLimit ms (Some v) s = Some (limit, s2)"
    and ok: "mi_admitted (vm_memInfo (vm_mem s v)) \<longrightarrow> mi_locked (vm_memInfo (vm_mem s v)) < mi_maxAllocation (vm_memInfo (vm_mem s v))
          \<and> n \<le> mi_maxAllocation (vm_memInfo (vm_mem s v)) - mi_locked (vm_memInfo (vm_mem s v))"
    using Cons.prems by (auto simp: Vmx86HasFreePages_def Let_def not_less not_le split: if_splits bind_splits option.splits)
  note f = LockedPageLimit_frame [OF l]
  show ?case
  proof (cases "numLockedPages s < limit \<and> n \<le> limit - numLockedPages s")
    case True
    have t: "t = upd_memInfo v (\<lambda>mi. mi\<lparr>mi_locked := mi_locked mi + n\<rparr>) (s2\<lparr>numLockedPages := numLockedPages s2 + n\<rparr>)"
      using Cons.prems l ok True f by (auto simp: Vmx86HasFreePages_def Let_def split: if_splits)
    have "limit = host_limit (Some v) t"
      unfolding LockedPageLimit_value [OF l] host_limit_def Vmx86AdjustLimitForOverheads_def by (simp add: t upd_memInfo_def upd_vm_def Let_def)
    moreover have "vm_mem t v = (vm_mem s v)\<lparr>vm_memInfo := (vm_memInfo (vm_mem s v))\<lparr>mi_locked := mi_locked (vm_memInfo (vm_mem s v)) + n\<rparr>\<rparr>"
      "\<forall>w. w \<noteq> v \<longrightarrow> vm_mem t w = vm_mem s w" "numLockedPages t = numLockedPages s + n"
      using f by (simp_all add: t upd_memInfo_def upd_vm_def)
    ultimately show ?thesis using True ok by (simp add: reserved_def)
  next
    case False
    then have "reserve_tries mss v n s2 = Some (True, t)"
      using Cons.prems l f by (auto simp: Vmx86HasFreePages_def Let_def split: if_splits)
    from Cons.IH [OF this] show ?thesis using f by (simp add: reserved_def)
  qed
qed

text \<open>
  C32: Pages are reserved only within both limits, without wrap-around: after a successful reservation
  the driver's total and the machine's count are larger by the pages asked for, the total is at most
  the least of the three limits of the host less the overheads, and the count of an admitted machine
  at most its maximum; no other machine changes.
\<close>

theorem reserve_within_limits:
  assumes "Vmx86ReserveFreePages mss v n s = Some (True, t)"
  shows "unat (numLockedPages t) = unat (numLockedPages s) + unat n
    \<and> numLockedPages t \<le> Vmx86AdjustLimitForOverheads (Some v) (min (min (lpl_configured t) (lpl_dynamic t)) (lpl_host t)) t
    \<and> mi_locked (vm_memInfo (vm_mem t v)) = mi_locked (vm_memInfo (vm_mem s v)) + n
    \<and> (mi_admitted (vm_memInfo (vm_mem s v)) \<longrightarrow>
         unat (mi_locked (vm_memInfo (vm_mem t v))) = unat (mi_locked (vm_memInfo (vm_mem s v))) + unat n
         \<and> mi_locked (vm_memInfo (vm_mem t v)) \<le> mi_maxAllocation (vm_memInfo (vm_mem t v)))
    \<and> (\<forall>w. w \<noteq> v \<longrightarrow> vm_mem t w = vm_mem s w)"
proof -
  have r: "reserved v n s t"
    using assms by (cases mss) (auto simp: Vmx86ReserveFreePages_def simp del: reserve_tries.simps intro: reserve_tries_limits)
  let ?mi = "vm_memInfo (vm_mem s v)"
  have total: "unat (numLockedPages t) = unat (numLockedPages s) + unat n \<and> numLockedPages t \<le> host_limit (Some v) t"
    using r word_room [of "numLockedPages s" "host_limit (Some v) t" n] unfolding reserved_def Let_def by simp
  have "mi_admitted ?mi \<longrightarrow> unat (mi_locked ?mi + n) = unat (mi_locked ?mi) + unat n \<and> mi_locked ?mi + n \<le> mi_maxAllocation ?mi"
    using r word_room [of "mi_locked ?mi" "mi_maxAllocation ?mi" n] unfolding reserved_def Let_def by simp
  then show ?thesis using r total by (simp add: reserved_def Let_def host_limit_def)
qed

section \<open>Admission\<close>

lemma global_min_sum:
  "Vmx86CalculateGlobalMinAllocation pct s = sum_list (map (\<lambda>w. let mi = vm_memInfo (vm_mem s w) in
     if mi_admitted mi then Vmx86MinAllocation mi pct else 0) (vmDriverList s))"
proof -
  have "foldl (\<lambda>m w. let mi = vm_memInfo (vm_mem s w) in if mi_admitted mi then m + Vmx86MinAllocation mi pct else m) a l
      = a + sum_list (map (\<lambda>w. let mi = vm_memInfo (vm_mem s w) in if mi_admitted mi then Vmx86MinAllocation mi pct else 0) l)" for a l
    by (induction l arbitrary: a) (simp_all add: Let_def add.assoc)
  then show ?thesis by (simp add: Vmx86CalculateGlobalMinAllocation_def)
qed

lemma sum_list_one:
  fixes f :: "'b \<Rightarrow> 'a::comm_monoid_add"
  shows "distinct l \<Longrightarrow> v \<in> set l \<Longrightarrow> f v = 0 \<Longrightarrow> (\<And>w. w \<noteq> v \<Longrightarrow> g w = f w)
    \<Longrightarrow> sum_list (map g l) = sum_list (map f l) + g v"
proof (induction l)
  case Nil
  then show ?case by simp
next
  case (Cons x l)
  show ?case
  proof (cases "x = v")
    case True
    then have "map g l = map f l" using Cons.prems by (metis distinct.simps(2) map_cong)
    then show ?thesis using True Cons.prems by (simp add: ac_simps del: map_eq_conv)
  next
    case False
    then show ?thesis using Cons.IH Cons.prems by (simp add: ac_simps)
  qed
qed

lemma global_min_admit:
  assumes "distinct (vmDriverList s)" "v \<in> set (vmDriverList s)" "vmDriverList t = vmDriverList s"
    "\<not> mi_admitted (vm_memInfo (vm_mem s v))" "mi_admitted (vm_memInfo (vm_mem t v))"
    "\<And>w. w \<noteq> v \<Longrightarrow> mi_admitted (vm_memInfo (vm_mem t w)) = mi_admitted (vm_memInfo (vm_mem s w))
       \<and> Vmx86MinAllocation (vm_memInfo (vm_mem t w)) pct = Vmx86MinAllocation (vm_memInfo (vm_mem s w)) pct"
  shows "Vmx86CalculateGlobalMinAllocation pct t = Vmx86CalculateGlobalMinAllocation pct s + Vmx86MinAllocation (vm_memInfo (vm_mem t v)) pct"
proof -
  let ?f = "\<lambda>s w. let mi = vm_memInfo (vm_mem s w) in if mi_admitted mi then Vmx86MinAllocation mi pct else 0"
  have "sum_list (map (?f t) (vmDriverList s)) = sum_list (map (?f s) (vmDriverList s)) + ?f t v"
    using assms by (intro sum_list_one) (auto simp: Let_def)
  then show ?thesis using assms(3,5) by (simp add: global_min_sum Let_def)
qed

text \<open>What recomputing the minimums changes.\<close>

lemma UpdateMin_frame:
  "vm_memInfo (vm_mem (Vmx86UpdateMinAllocations pct s) w)
     = (if w \<in> set (vmDriverList s) \<and> mi_admitted (vm_memInfo (vm_mem s w))
        then (vm_memInfo (vm_mem s w))\<lparr>mi_minAllocation := Vmx86MinAllocation (vm_memInfo (vm_mem s w)) pct\<rparr>
        else vm_memInfo (vm_mem s w))
   \<and> vmDriverList (Vmx86UpdateMinAllocations pct s) = vmDriverList s \<and> minVmMemPct (Vmx86UpdateMinAllocations pct s) = minVmMemPct s"
proof -
  have "let t = foldl (\<lambda>s w. upd_memInfo w (\<lambda>mi. if mi_admitted mi then mi\<lparr>mi_minAllocation := Vmx86MinAllocation mi pct\<rparr> else mi) s) s l
     in vm_memInfo (vm_mem t w) = (if w \<in> set l \<and> mi_admitted (vm_memInfo (vm_mem s w))
        then (vm_memInfo (vm_mem s w))\<lparr>mi_minAllocation := Vmx86MinAllocation (vm_memInfo (vm_mem s w)) pct\<rparr>
        else vm_memInfo (vm_mem s w))
      \<and> vmDriverList t = vmDriverList s \<and> minVmMemPct t = minVmMemPct s" for l
    by (induction l arbitrary: s) (auto simp: Let_def upd_memInfo_def upd_vm_def Vmx86MinAllocation_def)
  then show ?thesis unfolding Vmx86UpdateMinAllocations_def Let_def by blast
qed


section \<open>Witnesses\<close>

text \<open>One machine of 800 pages with 100 pages of overhead on a host of 1,000,000 pages.\<close>

definition one_vm :: vmx_state where
  "one_vm = vmx_init\<lparr>vmDriverList := [1], vmCount := 1, lpl_configured := 500000, lpl_dynamic := 500000,
     vm_mem := (vm_mem vmx_init)(1 := zero_VMDriver\<lparr>vm_vmhost := Some \<lparr>vh_physTracker = None, vh_lockedPages = None, vh_AWEPages = None,
        vh_swapBacked = False, vh_usingMlock = False\<rparr>\<rparr>)\<rparr>"

definition big_host :: mem_stats where
  "big_host = \<lparr>ms_totalram = 1000000, ms_pagetable = 0, ms_slab = 0, ms_unevictable = 0, ms_anon = 0, ms_swapSize = 0\<rparr>"

definition small_vm :: VMMemInfoArgs where
  "small_vm = \<lparr>ma_minVmMemPct = 50, ma_globalMinAllocation = 0, ma_numLockedPages = 0, ma_lockedPageLimit = (0, 0, 0),
     ma_maxLockedPages = 0, ma_callerIndex = 0, ma_numVMs = 0,
     ma_memInfo = [zero_memInfo\<lparr>mi_paged := 1000, mi_nonpaged := 100, mi_mainMemSize := 800\<rparr>]\<rparr>"

lemmas one_vm_defs = one_vm_def big_host_def small_vm_def vmx_init_def Vmx86_InitIDList_def zero_VMDriver_def zero_memInfo_def
  upd_memInfo_def upd_vm_def Vmx86LockedPageLimit_def HostIF_EstimateLockedPageLimit_def Vmx86AdjustLimitForOverheads_def
  LOCKED_PAGE_SLACK_def MAX_LOCKED_PAGES_def Let_def

theorem reserve_within_limits_witness:
  "\<exists>t. Vmx86ReserveFreePages (big_host, big_host, big_host) 1 5 one_vm = Some (True, t) \<and> unat (numLockedPages t) = 5"
proof -
  have "\<exists>t. Vmx86ReserveFreePages (big_host, big_host, big_host) 1 5 one_vm = Some (True, t)"
    by (simp add: Vmx86ReserveFreePages_def Vmx86HasFreePages_def one_vm_defs)
  then obtain t where t: "Vmx86ReserveFreePages (big_host, big_host, big_host) 1 5 one_vm = Some (True, t)" ..
  have "numLockedPages one_vm = 0" by (simp add: one_vm_defs)
  then show ?thesis using t reserve_within_limits [OF t] by simp
qed


end
