(* ===== verification/DblLnkLst.thy ===== *)
theory DblLnkLst
  imports Prelude
begin

text \<open>
  The doubly linked circular lists of \<open>vmblock-only/linux/dbllnklst.c\<close>, in a heap of links.  \<open>ring s l\<close>
  says that the links of the list \<open>l\<close> form one circle in this order; the operations are shown to join,
  split, extend and shorten circles.  The assignments of the source are kept in their order, for they may
  alias.
\<close>

record dbl_state =
  dl_prev :: "ptr \<Rightarrow> ptr"
  dl_next :: "ptr \<Rightarrow> ptr"

definition set_prev :: "ptr \<Rightarrow> ptr \<Rightarrow> 'a dbl_state_scheme \<Rightarrow> 'a dbl_state_scheme" where
  "set_prev l x s = s\<lparr>dl_prev := (dl_prev s)(l := x)\<rparr>"

definition set_next :: "ptr \<Rightarrow> ptr \<Rightarrow> 'a dbl_state_scheme \<Rightarrow> 'a dbl_state_scheme" where
  "set_next l x s = s\<lparr>dl_next := (dl_next s)(l := x)\<rparr>"

definition DblLnkLst_Init :: "ptr \<Rightarrow> 'a dbl_state_scheme \<Rightarrow> 'a dbl_state_scheme" where
  "DblLnkLst_Init l s = set_prev l l (set_next l l s)"

definition DblLnkLst_Link :: "ptr \<Rightarrow> ptr \<Rightarrow> 'a dbl_state_scheme \<Rightarrow> 'a dbl_state_scheme" where
  "DblLnkLst_Link l1 l2 s =
     (let tmp = dl_prev s l1;
          s1 = set_next tmp l2 s;
          s2 = set_prev l1 (dl_prev s1 l2) s1;
          s3 = set_next (dl_prev s2 l1) l1 s2
      in set_prev l2 tmp s3)"

definition DblLnkLst_Unlink :: "ptr \<Rightarrow> ptr \<Rightarrow> 'a dbl_state_scheme \<Rightarrow> 'a dbl_state_scheme" where
  "DblLnkLst_Unlink l1 l2 s =
     (let tmp = dl_prev s l1;
          s1 = set_prev l1 (dl_prev s l2) s;
          s2 = set_next (dl_prev s1 l1) l1 s1;
          s3 = set_prev l2 tmp s2
      in set_next (dl_prev s3 l2) l2 s3)"

definition DblLnkLst_Unlink1 :: "ptr \<Rightarrow> 'a dbl_state_scheme \<Rightarrow> 'a dbl_state_scheme" where
  "DblLnkLst_Unlink1 l s = DblLnkLst_Unlink l (dl_next s l) s"

definition DblLnkLst_IsLinked :: "ptr \<Rightarrow> 'a dbl_state_scheme \<Rightarrow> bool" where
  "DblLnkLst_IsLinked l s \<longleftrightarrow> dl_prev s l \<noteq> l"

definition DblLnkLst_LinkFirst :: "ptr \<Rightarrow> ptr \<Rightarrow> 'a dbl_state_scheme \<Rightarrow> 'a dbl_state_scheme" where
  "DblLnkLst_LinkFirst head l s = DblLnkLst_Link (dl_next s head) l s"

definition DblLnkLst_LinkLast :: "ptr \<Rightarrow> ptr \<Rightarrow> 'a dbl_state_scheme \<Rightarrow> 'a dbl_state_scheme" where
  "DblLnkLst_LinkLast head l s = DblLnkLst_Link head l s"

section \<open>Circles\<close>

fun linked :: "'a dbl_state_scheme \<Rightarrow> ptr list \<Rightarrow> bool" where
  "linked s (a # b # l) \<longleftrightarrow> dl_next s a = b \<and> dl_prev s b = a \<and> linked s (b # l)"
| "linked s _ \<longleftrightarrow> True"

definition ring :: "'a dbl_state_scheme \<Rightarrow> ptr list \<Rightarrow> bool" where
  "ring s l \<longleftrightarrow> l \<noteq> [] \<and> distinct l \<and> linked s l \<and> dl_next s (last l) = hd l \<and> dl_prev s (hd l) = last l"

lemma linked_append:
  "linked s (l @ m) \<longleftrightarrow> linked s l \<and> linked s m \<and> (l \<noteq> [] \<longrightarrow> m \<noteq> [] \<longrightarrow> dl_next s (last l) = hd m \<and> dl_prev s (hd m) = last l)"
proof (induction l)
  case (Cons a l)
  show ?case
  proof (cases l)
    case Nil
    then show ?thesis by (cases m) auto
  next
    case (Cons b k)
    then show ?thesis using Cons.IH by auto
  qed
qed simp

lemma linked_cong:
  "\<forall>x \<in> set (butlast l). dl_next t x = dl_next s x \<Longrightarrow> \<forall>x \<in> set (tl l). dl_prev t x = dl_prev s x \<Longrightarrow> linked t l = linked s l"
proof (induction s l rule: linked.induct)
  case (1 s a b l)
  then show ?case by (cases l) auto
qed auto

lemma ring_frame: "ring s l \<Longrightarrow> \<forall>x \<in> set l. dl_next t x = dl_next s x \<and> dl_prev t x = dl_prev s x \<Longrightarrow> ring t l"
  unfolding ring_def by (metis in_set_butlastD last_in_set linked_cong list.set_sel(1) list.set_sel(2) empty_iff list.set(1) tl_Nil)

lemma ring_rotate: "ring s (l @ m) \<Longrightarrow> ring s (m @ l)"
  by (cases "l = [] \<or> m = []") (auto simp: ring_def linked_append)

lemma ring_single: "ring s [x] \<longleftrightarrow> dl_next s x = x \<and> dl_prev s x = x"
  by (simp add: ring_def)

lemma linked_ends:
  assumes "distinct l" "\<forall>x \<in> set l. x \<noteq> last l \<longrightarrow> dl_next t x = dl_next s x" "\<forall>x \<in> set l. x \<noteq> hd l \<longrightarrow> dl_prev t x = dl_prev s x"
  shows "linked t l = linked s l"
proof (cases l rule: rev_cases)
  case (snoc m b)
  have "\<forall>x \<in> set (tl l). x \<in> set l \<and> x \<noteq> hd l" using assms(1) by (cases l) auto
  then show ?thesis using assms snoc by (intro linked_cong) auto
qed simp

lemma Link_fields:
  assumes "dl_prev s l1 = t1" "dl_prev s l2 = t2" "l1 \<noteq> l2" "t1 \<noteq> t2"
  shows "dl_next (DblLnkLst_Link l1 l2 s) = (dl_next s)(t1 := l2, t2 := l1)"
    "dl_prev (DblLnkLst_Link l1 l2 s) = (dl_prev s)(l1 := t2, l2 := t1)"
  using assms by (simp_all add: DblLnkLst_Link_def Let_def set_prev_def set_next_def)

lemma Unlink_fields:
  assumes "dl_prev s l1 = t2" "dl_prev s l2 = t1" "l1 \<noteq> l2" "t1 \<noteq> t2"
  shows "dl_next (DblLnkLst_Unlink l1 l2 s) = (dl_next s)(t1 := l1, t2 := l2)"
    "dl_prev (DblLnkLst_Unlink l1 l2 s) = (dl_prev s)(l1 := t1, l2 := t2)"
  using assms by (simp_all add: DblLnkLst_Unlink_def Let_def set_prev_def set_next_def)

lemma Link_ring:
  assumes "ring s l" "ring s m" "set l \<inter> set m = {}"
  shows "ring (DblLnkLst_Link (hd l) (hd m) s) (l @ m)"
proof -
  have ne: "l \<noteq> []" "m \<noteq> []" and d: "distinct l" "distinct m" using assms by (auto simp: ring_def)
  have x: "hd l \<noteq> hd m" "last l \<noteq> last m" using ne assms(3) by (metis disjoint_iff hd_in_set, metis disjoint_iff last_in_set)
  have e: "hd l \<notin> set m" "hd m \<notin> set l" "last l \<notin> set m" "last m \<notin> set l"
    using ne assms(3) by (meson disjoint_iff hd_in_set last_in_set)+
  note f = Link_fields [of s "hd l" "last l" "hd m" "last m"]
  have p: "dl_prev s (hd l) = last l" "dl_prev s (hd m) = last m" using assms by (simp_all add: ring_def)
  let ?t = "DblLnkLst_Link (hd l) (hd m) s"
  have "linked ?t l = linked s l" "linked ?t m = linked s m"
    using e by (intro linked_ends [OF d(1)] linked_ends [OF d(2)]; auto simp: f [OF p x])+
  then show ?thesis using assms x ne d p by (auto simp: ring_def linked_append f [OF p x])
qed

lemma Unlink_ring:
  assumes "ring s (l @ m)" "l \<noteq> []" "m \<noteq> []"
  shows "ring (DblLnkLst_Unlink (hd l) (hd m) s) l \<and> ring (DblLnkLst_Unlink (hd l) (hd m) s) m"
proof -
  have d: "distinct l" "distinct m" and dj: "set l \<inter> set m = {}" using assms by (auto simp: ring_def)
  have x: "hd l \<noteq> hd m" "last l \<noteq> last m" using assms dj by (metis disjoint_iff hd_in_set, metis disjoint_iff last_in_set)
  have e: "hd l \<notin> set m" "hd m \<notin> set l" "last l \<notin> set m" "last m \<notin> set l"
    using assms dj by (meson disjoint_iff hd_in_set last_in_set)+
  have p: "dl_prev s (hd l) = last m" "dl_prev s (hd m) = last l" using assms by (simp_all add: ring_def linked_append)
  note f = Unlink_fields [of s "hd l" "last m" "hd m" "last l"]
  let ?t = "DblLnkLst_Unlink (hd l) (hd m) s"
  have "linked ?t l = linked s l" "linked ?t m = linked s m"
    using e by (intro linked_ends [OF d(1)] linked_ends [OF d(2)]; auto simp: f [OF p x])+
  then show ?thesis using assms x d p by (auto simp: ring_def linked_append f [OF p x])
qed

section \<open>Anchored lists\<close>

lemma Init_ring: "ring (DblLnkLst_Init l s) [l]"
  by (simp add: ring_single DblLnkLst_Init_def set_prev_def set_next_def)

lemma Init_frame: "x \<noteq> l \<Longrightarrow> dl_next (DblLnkLst_Init l s) x = dl_next s x \<and> dl_prev (DblLnkLst_Init l s) x = dl_prev s x"
  by (simp add: DblLnkLst_Init_def set_prev_def set_next_def)

lemma Init_keeps: "ring s m \<Longrightarrow> l \<notin> set m \<Longrightarrow> ring (DblLnkLst_Init l s) m"
  by (erule ring_frame) (metis Init_frame)

lemma LinkLast_ring: "ring s (h # xs) \<Longrightarrow> ring s [l] \<Longrightarrow> l \<notin> set (h # xs) \<Longrightarrow> ring (DblLnkLst_LinkLast h l s) (h # xs @ [l])"
  using Link_ring [of s "h # xs" "[l]"] by (simp add: DblLnkLst_LinkLast_def)

lemma ring_next: "ring s (h # xs) \<Longrightarrow> dl_next s h = hd (xs @ [h])"
  by (cases xs) (auto simp: ring_def)

lemma ring_next_in: "ring s (xs @ x # y # ys) \<Longrightarrow> dl_next s x = y"
  by (simp add: ring_def linked_append)

lemma LinkFirst_ring:
  assumes "ring s (h # xs)" "ring s [l]" "l \<notin> set (h # xs)"
  shows "ring (DblLnkLst_LinkFirst h l s) (h # l # xs)"
proof -
  have "ring s (xs @ [h])" using ring_rotate [of s "[h]" xs] assms(1) by simp
  then have "ring (DblLnkLst_LinkFirst h l s) ((xs @ [h]) @ [l])"
    using Link_ring [of s "xs @ [h]" "[l]"] assms ring_next [OF assms(1)] by (simp add: DblLnkLst_LinkFirst_def)
  then show ?thesis using ring_rotate [of _ xs "[h, l]"] by simp
qed

lemma Unlink1_ring:
  assumes "ring s (h # xs @ l # ys)"
  shows "ring (DblLnkLst_Unlink1 l s) (h # xs @ ys) \<and> ring (DblLnkLst_Unlink1 l s) [l]"
proof -
  have r: "ring s ([l] @ (ys @ h # xs))" using ring_rotate [of s "h # xs" "l # ys"] assms by simp
  have "dl_next s l = hd (ys @ h # xs)" using ring_next [of s l "ys @ h # xs"] r by (cases ys) simp_all
  then have "ring (DblLnkLst_Unlink1 l s) [l] \<and> ring (DblLnkLst_Unlink1 l s) (ys @ h # xs)"
    using Unlink_ring [OF r] by (simp add: DblLnkLst_Unlink1_def)
  then show ?thesis by (metis append_Cons ring_rotate)
qed

text \<open>
  C38: Joining two circles at any two links and separating them at the same links restores every link of
  the heap, also where the circles are single elements.
\<close>

theorem link_unlink_restores:
  assumes "ring s l" "ring s m" "set l \<inter> set m = {}"
  shows "ring (DblLnkLst_Link (hd l) (hd m) s) (l @ m)
    \<and> DblLnkLst_Unlink (hd l) (hd m) (DblLnkLst_Link (hd l) (hd m) s) = s"
proof -
  have ne: "l \<noteq> []" "m \<noteq> []" using assms by (auto simp: ring_def)
  have x: "hd l \<noteq> hd m" "last l \<noteq> last m" using ne assms(3) by (metis disjoint_iff hd_in_set, metis disjoint_iff last_in_set)
  have p: "dl_prev s (hd l) = last l" "dl_prev s (hd m) = last m" "dl_next s (last l) = hd l" "dl_next s (last m) = hd m"
    using assms by (simp_all add: ring_def)
  then have "DblLnkLst_Unlink (hd l) (hd m) (DblLnkLst_Link (hd l) (hd m) s) = s"
    using x by (cases s) (auto simp: DblLnkLst_Link_def DblLnkLst_Unlink_def Let_def set_prev_def set_next_def fun_eq_iff)
  then show ?thesis using Link_ring [OF assms] by blast
qed

text \<open>
  On a list anchored at a head the operations are those of sequences: linking last appends, linking
  first prepends, unlinking an element takes out just that element and leaves it alone in its circle, and
  an element is reported linked exactly when the list holds another one.
\<close>

theorem anchored_list_ops:
  assumes "ring s (h # xs @ e # ys)" "ring s [l]" "l \<notin> set (h # xs @ e # ys)"
  shows "ring (DblLnkLst_LinkLast h l s) (h # xs @ e # ys @ [l])
    \<and> ring (DblLnkLst_LinkFirst h l s) (h # l # xs @ e # ys)
    \<and> ring (DblLnkLst_Unlink1 e s) (h # xs @ ys) \<and> \<not> DblLnkLst_IsLinked e (DblLnkLst_Unlink1 e s)
    \<and> DblLnkLst_IsLinked h s \<and> (DblLnkLst_IsLinked h (DblLnkLst_Unlink1 e s) \<longleftrightarrow> xs @ ys \<noteq> [])"
proof -
  note u = Unlink1_ring [OF assms(1)]
  have "DblLnkLst_IsLinked h t \<longleftrightarrow> zs \<noteq> []" if "ring t (h # zs)" for t :: "'a dbl_state_scheme" and zs
    using that last_in_set [of zs] by (auto simp: ring_def DblLnkLst_IsLinked_def)
  then show ?thesis using u assms(1) LinkLast_ring [OF assms] LinkFirst_ring [OF assms]
    by (fastforce simp: DblLnkLst_IsLinked_def ring_single)
qed

definition two_rings :: dbl_state where
  "two_rings = DblLnkLst_Link 1 2 (DblLnkLst_Init 3 (DblLnkLst_Init 2 (DblLnkLst_Init 1 \<lparr>dl_prev = \<lambda>_. 0, dl_next = \<lambda>_. 0\<rparr>)))"

lemma two_rings: "ring two_rings [1, 2]" "ring two_rings [3]"
  by (simp_all add: ring_def two_rings_def DblLnkLst_Link_def DblLnkLst_Init_def Let_def set_prev_def set_next_def)

theorem link_unlink_restores_witness:
  "ring (DblLnkLst_Link 1 3 two_rings) [1, 2, 3] \<and> DblLnkLst_Unlink 1 3 (DblLnkLst_Link 1 3 two_rings) = two_rings"
  using link_unlink_restores [OF two_rings] by simp

theorem anchored_list_ops_witness:
  "ring (DblLnkLst_LinkLast 1 3 two_rings) [1, 2, 3] \<and> ring (DblLnkLst_LinkFirst 1 3 two_rings) [1, 3, 2]
    \<and> \<not> DblLnkLst_IsLinked 2 (DblLnkLst_Unlink1 2 two_rings)"
  using anchored_list_ops [of two_rings 1 "[]" 2 "[]" 3] two_rings by simp

end
