(* ===== verification/FileBlock.thy ===== *)
theory FileBlock
  imports DblLnkLst "HOL-Library.Multiset"
begin

text \<open>
  The file blocks of \<open>vmblock-only/linux/block.c\<close>: a process adds a block on a file name, and
  whoever looks the file up waits until the block is removed.  The blocks are in the circular list
  anchored at \<open>blockedFiles\<close>; each has a count of references.  The address of a block is that of its
  links.  An access to a block that was freed, or a second free, is the value \<open>None\<close>.  The null
  pointer, which names no blocker, is 0.
\<close>

record block_state = dbl_state +
  bi_refcount :: "ptr \<Rightarrow> int"
  bi_blocker :: "ptr \<Rightarrow> ptr"
  bi_done :: "ptr \<Rightarrow> bool"
  bi_filename :: "ptr \<Rightarrow> string"
  bi_live :: "ptr set"

definition blockedFiles :: ptr where "blockedFiles = 1"
definition OS_UNKNOWN_BLOCKER :: ptr where "OS_UNKNOWN_BLOCKER = 0"
definition OS_PATH_MAX :: nat where "OS_PATH_MAX = 4096"
definition OS_ENOMEM :: int where "OS_ENOMEM = - 12"
definition OS_ENOENT :: int where "OS_ENOENT = - 2"
definition OS_EEXIST :: int where "OS_EEXIST = - 17"

definition BlockInit :: "bool \<Rightarrow> 'a block_state_scheme \<Rightarrow> int \<times> 'a block_state_scheme" where
  "BlockInit cache s = (if \<not> cache then (OS_ENOMEM, s) else (0, DblLnkLst_Init blockedFiles s))"

text \<open>Access to the reference count of a block.\<close>

definition atomic_add :: "int \<Rightarrow> ptr \<Rightarrow> 'a block_state_scheme \<Rightarrow> 'a block_state_scheme option" where
  "atomic_add n b s = (if b \<in> bi_live s then Some (s\<lparr>bi_refcount := (bi_refcount s)(b := bi_refcount s b + n)\<rparr>) else None)"

definition dec_and_test :: "ptr \<Rightarrow> 'a block_state_scheme \<Rightarrow> (bool \<times> 'a block_state_scheme) option" where
  "dec_and_test b s = map_option (\<lambda>s1. (bi_refcount s1 b = 0, s1)) (atomic_add (- 1) b s)"

definition complete_all :: "ptr \<Rightarrow> 'a block_state_scheme \<Rightarrow> 'a block_state_scheme option" where
  "complete_all b s = (if b \<in> bi_live s then Some (s\<lparr>bi_done := (bi_done s)(b := True)\<rparr>) else None)"

partial_function (option) find_block ::
  "string \<Rightarrow> ptr \<Rightarrow> ptr \<Rightarrow> 'a block_state_scheme \<Rightarrow> (ptr option \<times> 'a block_state_scheme) option" where
  "find_block filename blocker cur s =
     (if cur = blockedFiles then Some (None, s)
      else if cur \<notin> bi_live s then None
      else if (blocker = OS_UNKNOWN_BLOCKER \<or> bi_blocker s cur = blocker) \<and> bi_filename s cur = filename
      then map_option (Pair (Some cur)) (atomic_add 1 cur s)
      else find_block filename blocker (dl_next s cur) s)"

definition GetBlock :: "string \<Rightarrow> ptr \<Rightarrow> 'a block_state_scheme \<Rightarrow> (ptr option \<times> 'a block_state_scheme) option" where
  "GetBlock filename blocker s = find_block filename blocker (dl_next s blockedFiles) s"

definition BlockExists :: "string \<Rightarrow> 'a block_state_scheme \<Rightarrow> (bool \<times> 'a block_state_scheme) option" where
  "BlockExists filename s = Option.bind (GetBlock filename OS_UNKNOWN_BLOCKER s) (\<lambda>(b, s1).
     case b of None \<Rightarrow> Some (False, s1) | Some b \<Rightarrow> map_option (Pair True) (atomic_add (- 1) b s1))"

definition FreeBlock :: "ptr \<Rightarrow> 'a block_state_scheme \<Rightarrow> 'a block_state_scheme option" where
  "FreeBlock b s = (if b \<in> bi_live s then Some (s\<lparr>bi_live := bi_live s - {b}\<rparr>) else None)"

text \<open>\<open>mem\<close> is the allocator's answer.\<close>

definition AllocBlock :: "ptr option \<Rightarrow> string \<Rightarrow> ptr \<Rightarrow> 'a block_state_scheme \<Rightarrow> ptr option \<times> 'a block_state_scheme" where
  "AllocBlock mem filename blocker s =
     (case mem of None \<Rightarrow> (None, s)
      | Some b \<Rightarrow> if OS_PATH_MAX \<le> length filename then (None, s)
          else (Some b, DblLnkLst_Init b (s\<lparr>bi_live := insert b (bi_live s), bi_filename := (bi_filename s)(b := filename),
                  bi_refcount := (bi_refcount s)(b := 1), bi_done := (bi_done s)(b := False), bi_blocker := (bi_blocker s)(b := blocker)\<rparr>)))"

definition BlockAddFileBlock :: "ptr option \<Rightarrow> string \<Rightarrow> ptr \<Rightarrow> 'a block_state_scheme \<Rightarrow> (int \<times> 'a block_state_scheme) option" where
  "BlockAddFileBlock mem filename blocker s =
     (let (block, s1) = AllocBlock mem filename blocker s in
      case block of None \<Rightarrow> Some (OS_ENOMEM, s1)
      | Some b \<Rightarrow> Option.bind (BlockExists filename s1) (\<lambda>(exists, s2).
          if exists then map_option (Pair OS_EEXIST) (FreeBlock b s2)
          else Some (0, DblLnkLst_LinkLast blockedFiles b s2)))"

text \<open>
  Removing a block has two steps: under the lock the block is found and taken out of the list; then,
  without the lock, the reference of the list and that of the search are given up, and the block is
  freed or its waiters are woken.
\<close>

definition remove_unlink :: "string \<Rightarrow> ptr \<Rightarrow> 'a block_state_scheme \<Rightarrow> (ptr option \<times> 'a block_state_scheme) option" where
  "remove_unlink filename blocker s = map_option (\<lambda>(b, s1).
     case b of None \<Rightarrow> (None, s1) | Some b \<Rightarrow> (Some b, DblLnkLst_Unlink1 b s1)) (GetBlock filename blocker s)"

definition drop_last :: "ptr \<Rightarrow> 'a block_state_scheme \<Rightarrow> 'a block_state_scheme option" where
  "drop_last b s = Option.bind (dec_and_test b s) (\<lambda>(last, s1). if last then FreeBlock b s1 else complete_all b s1)"

definition remove_drop :: "ptr \<Rightarrow> 'a block_state_scheme \<Rightarrow> 'a block_state_scheme option" where
  "remove_drop b s = Option.bind (atomic_add (- 1) b s) (drop_last b)"

definition BlockRemoveFileBlock :: "string \<Rightarrow> ptr \<Rightarrow> 'a block_state_scheme \<Rightarrow> (int \<times> 'a block_state_scheme) option" where
  "BlockRemoveFileBlock filename blocker s = Option.bind (remove_unlink filename blocker s) (\<lambda>(b, s1).
     case b of None \<Rightarrow> Some (OS_ENOENT, s1) | Some b \<Rightarrow> map_option (Pair 0) (remove_drop b s1))"

partial_function (option) remove_all ::
  "ptr \<Rightarrow> ptr \<Rightarrow> u32 \<Rightarrow> 'a block_state_scheme \<Rightarrow> (u32 \<times> 'a block_state_scheme) option" where
  "remove_all blocker cur removed s =
     (if cur = blockedFiles then Some (removed, s)
      else if cur \<notin> bi_live s then None
      else let tmp = dl_next s cur in
        if bi_blocker s cur = blocker \<or> blocker = OS_UNKNOWN_BLOCKER
        then Option.bind (drop_last cur (DblLnkLst_Unlink1 cur s)) (remove_all blocker tmp (removed + 1))
        else remove_all blocker tmp removed s)"

definition BlockRemoveAllBlocks :: "ptr \<Rightarrow> 'a block_state_scheme \<Rightarrow> (u32 \<times> 'a block_state_scheme) option" where
  "BlockRemoveAllBlocks blocker s = remove_all blocker (dl_next s blockedFiles) 0 s"

definition BlockLookup :: "string \<Rightarrow> ptr \<Rightarrow> 'a block_state_scheme \<Rightarrow> (ptr option \<times> 'a block_state_scheme) option" where
  "BlockLookup filename blocker s = GetBlock filename blocker s"

text \<open>
  Waiting has two steps: the block is found (unless the caller brings one from \<open>BlockLookup\<close>), and,
  when it is complete, its reference is given up.  \<open>None\<close> for the block means that there is nothing
  to wait for.
\<close>

definition wait_start :: "string \<Rightarrow> ptr option \<Rightarrow> 'a block_state_scheme \<Rightarrow> (ptr option \<times> 'a block_state_scheme) option" where
  "wait_start filename cookie s =
     (case cookie of None \<Rightarrow> GetBlock filename OS_UNKNOWN_BLOCKER s | Some b \<Rightarrow> Some (Some b, s))"

definition wait_finish :: "ptr \<Rightarrow> 'a block_state_scheme \<Rightarrow> 'a block_state_scheme option" where
  "wait_finish b s = Option.bind (dec_and_test b s) (\<lambda>(last, s1). if last then FreeBlock b s1 else Some s1)"

text \<open>A wait that is not overtaken: \<open>Inr\<close> the block when the caller has to sleep.\<close>

definition BlockWaitOnFile :: "string \<Rightarrow> ptr option \<Rightarrow> 'a block_state_scheme \<Rightarrow> ((int + ptr) \<times> 'a block_state_scheme) option" where
  "BlockWaitOnFile filename cookie s = Option.bind (wait_start filename cookie s) (\<lambda>(b, s1).
     case b of None \<Rightarrow> Some (Inl 0, s1)
     | Some b \<Rightarrow> if b \<notin> bi_live s1 then None
         else if \<not> bi_done s1 b then Some (Inr b, s1)
         else map_option (Pair (Inl 0)) (wait_finish b s1))"

end
