(* ===== verification/FileBlockProps.thy ===== *)
theory FileBlockProps
  imports FileBlock
begin

text \<open>
  The references to file blocks are counted exactly, whatever adds, removals, lookups and waits are
  interleaved: no block is used after it was freed, none is lost, and every sleeper is woken.
\<close>

section \<open>The invariant\<close>

text \<open>
  \<open>xs\<close> are the blocks in the list, \<open>held\<close> the references of lookups and waits, and \<open>e b\<close> the references
  that a removal in progress still has to give up.
\<close>

definition file_inv :: "ptr list \<Rightarrow> ptr multiset \<Rightarrow> (ptr \<Rightarrow> int) \<Rightarrow> 'a block_state_scheme \<Rightarrow> bool" where
  "file_inv xs held e s \<longleftrightarrow> ring s (blockedFiles # xs) \<and> blockedFiles \<notin> bi_live s
     \<and> bi_live s = set xs \<union> set_mset held \<union> {b. e b \<noteq> 0} \<and> (\<forall>b. 0 \<le> e b) \<and> (\<forall>b \<in> set xs. e b = 0)
     \<and> distinct (map (bi_filename s) xs)
     \<and> (\<forall>b \<in> bi_live s. bi_refcount s b = of_bool (b \<in> set xs) + int (count held b) + e b
          \<and> (bi_done s b \<longleftrightarrow> b \<notin> set xs \<and> e b = 0))"

definition same_names :: "'a block_state_scheme \<Rightarrow> 'a block_state_scheme \<Rightarrow> bool" where
  "same_names s t \<longleftrightarrow> bi_filename t = bi_filename s \<and> bi_blocker t = bi_blocker s"

lemma same_names_refl [simp]: "same_names s s"
  by (simp add: same_names_def)

lemma same_names_trans: "same_names s t \<Longrightarrow> same_names t u \<Longrightarrow> same_names s u"
  by (simp add: same_names_def)

text \<open>The links do not concern the other fields.\<close>

lemma set_fields [frame_simps]:
  "bi_refcount (set_prev l x s) = bi_refcount s" "bi_refcount (set_next l x s) = bi_refcount s"
  "bi_blocker (set_prev l x s) = bi_blocker s" "bi_blocker (set_next l x s) = bi_blocker s"
  "bi_done (set_prev l x s) = bi_done s" "bi_done (set_next l x s) = bi_done s"
  "bi_filename (set_prev l x s) = bi_filename s" "bi_filename (set_next l x s) = bi_filename s"
  "bi_live (set_prev l x s) = bi_live s" "bi_live (set_next l x s) = bi_live s"
  by (simp_all add: set_prev_def set_next_def)

lemma link_fields [frame_simps]:
  "bi_refcount (DblLnkLst_Link l m s) = bi_refcount s" "bi_blocker (DblLnkLst_Link l m s) = bi_blocker s"
  "bi_done (DblLnkLst_Link l m s) = bi_done s" "bi_filename (DblLnkLst_Link l m s) = bi_filename s"
  "bi_live (DblLnkLst_Link l m s) = bi_live s"
  "bi_refcount (DblLnkLst_Unlink l m s) = bi_refcount s" "bi_blocker (DblLnkLst_Unlink l m s) = bi_blocker s"
  "bi_done (DblLnkLst_Unlink l m s) = bi_done s" "bi_filename (DblLnkLst_Unlink l m s) = bi_filename s"
  "bi_live (DblLnkLst_Unlink l m s) = bi_live s"
  by (simp_all add: DblLnkLst_Link_def DblLnkLst_Unlink_def Let_def frame_simps)

lemmas link_frames = frame_simps DblLnkLst_Unlink1_def DblLnkLst_LinkLast_def DblLnkLst_Init_def

lemma ring_upd:
  "ring (s\<lparr>bi_refcount := r\<rparr>) l = ring s l" "ring (s\<lparr>bi_done := d\<rparr>) l = ring s l" "ring (s\<lparr>bi_live := v\<rparr>) l = ring s l"
proof -
  have "linked (s\<lparr>bi_refcount := r\<rparr>) l = linked s l \<and> linked (s\<lparr>bi_done := d\<rparr>) l = linked s l \<and> linked (s\<lparr>bi_live := v\<rparr>) l = linked s l"
    by (induction s l rule: linked.induct) auto
  then show "ring (s\<lparr>bi_refcount := r\<rparr>) l = ring s l" "ring (s\<lparr>bi_done := d\<rparr>) l = ring s l" "ring (s\<lparr>bi_live := v\<rparr>) l = ring s l"
    by (simp_all add: ring_def)
qed

lemma file_inv_head: "file_inv xs held e s \<Longrightarrow> blockedFiles \<notin> set xs"
  by (auto simp: file_inv_def)

section \<open>The search\<close>

definition matches :: "'a block_state_scheme \<Rightarrow> string \<Rightarrow> ptr \<Rightarrow> ptr \<Rightarrow> bool" where
  "matches s filename blocker b \<longleftrightarrow> (blocker = OS_UNKNOWN_BLOCKER \<or> bi_blocker s b = blocker) \<and> bi_filename s b = filename"

lemma ring_step: "ring s (h # as @ b # bs) \<Longrightarrow> dl_next s b = hd (bs @ [h])"
proof -
  assume "ring s (h # as @ b # bs)"
  then have "ring s (b # (bs @ h # as))" using ring_rotate [of s "h # as" "b # bs"] by simp
  then show ?thesis using ring_next [of s b "bs @ h # as"] by (cases bs) simp_all
qed

lemma find_block_run:
  assumes "ring s (blockedFiles # as @ bs)" "set bs \<subseteq> bi_live s"
  shows "find_block f k (hd (bs @ [blockedFiles])) s
    = (case find (matches s f k) bs of None \<Rightarrow> Some (None, s) | Some b \<Rightarrow> map_option (Pair (Some b)) (atomic_add 1 b s))"
  using assms
proof (induction bs arbitrary: as)
  case Nil
  then show ?case by (simp add: find_block.simps)
next
  case (Cons b bs)
  have "b \<noteq> blockedFiles" using Cons.prems(1) by (auto simp: ring_def)
  moreover have "find_block f k (hd (bs @ [blockedFiles])) s
    = (case find (matches s f k) bs of None \<Rightarrow> Some (None, s) | Some b \<Rightarrow> map_option (Pair (Some b)) (atomic_add 1 b s))"
    using Cons.IH [of "as @ [b]"] Cons.prems by simp
  ultimately show ?case using Cons.prems ring_step [OF Cons.prems(1)]
    by (simp add: find_block.simps [of f k b] matches_def [symmetric]) 
qed

lemma GetBlock_run:
  assumes "file_inv xs held e s"
  shows "GetBlock f k s = (case find (matches s f k) xs of None \<Rightarrow> Some (None, s)
     | Some b \<Rightarrow> Some (Some b, s\<lparr>bi_refcount := (bi_refcount s)(b := bi_refcount s b + 1)\<rparr>))"
proof -
  have r: "ring s (blockedFiles # [] @ xs)" "set xs \<subseteq> bi_live s" using assms by (auto simp: file_inv_def)
  then have "dl_next s blockedFiles = hd (xs @ [blockedFiles])" using ring_next [of s blockedFiles xs] by simp
  then show ?thesis using find_block_run [OF r, of f k] r(2)
    by (auto simp: GetBlock_def atomic_add_def split: option.splits dest: find_Some_D)
qed

section \<open>Every operation returns and keeps the invariant\<close>

lemma dec_run:
  assumes "file_inv xs held e s" "2 \<le> e b"
  shows "\<exists>t. atomic_add (- 1) b s = Some t \<and> file_inv xs held (e(b := e b - 1)) t \<and> same_names s t"
proof -
  have l: "b \<in> bi_live s" using assms by (auto simp: file_inv_def)
  let ?t = "s\<lparr>bi_refcount := (bi_refcount s)(b := bi_refcount s b - 1)\<rparr>"
  have "{x. (e(b := e b - 1)) x \<noteq> 0} = {x. e x \<noteq> 0}" using assms(2) by auto
  then have "file_inv xs held (e(b := e b - 1)) ?t" using assms unfolding file_inv_def by (auto simp: ring_upd)
  then show ?thesis using l by (simp add: atomic_add_def same_names_def)
qed

lemma drop_last_run:
  assumes inv: "file_inv xs held e s" and e: "e b = 1"
  shows "\<exists>t. drop_last b s = Some t \<and> file_inv xs held (e(b := 0)) t \<and> same_names s t"
proof -
  have l: "b \<in> bi_live s" "b \<notin> set xs" using assms by (auto simp: file_inv_def)
  have r: "bi_refcount s b = int (count held b) + 1" using inv l e by (auto simp: file_inv_def)
  have z: "{x. (e(b := 0)) x \<noteq> 0} = {x. e x \<noteq> 0} - {b}" by auto
  let ?s1 = "s\<lparr>bi_refcount := (bi_refcount s)(b := bi_refcount s b - 1)\<rparr>"
  show ?thesis
  proof (cases "b \<in># held")
    case True
    let ?t = "?s1\<lparr>bi_done := (bi_done s)(b := True)\<rparr>"
    have d: "drop_last b s = Some ?t" using l r True
      by (simp add: drop_last_def dec_and_test_def atomic_add_def complete_all_def count_eq_zero_iff)
    have "bi_live s = set xs \<union> set_mset held \<union> {x. (e(b := 0)) x \<noteq> 0}" using inv True unfolding z by (auto simp: file_inv_def)
    then have "file_inv xs held (e(b := 0)) ?t"
      using inv l e unfolding file_inv_def z by (auto simp: ring_upd r)
    then show ?thesis using d by (auto simp: same_names_def)
  next
    case False
    then have c: "count held b = 0" by (simp add: not_in_iff)
    let ?t = "?s1\<lparr>bi_live := bi_live s - {b}\<rparr>"
    have d: "drop_last b s = Some ?t" using l r c
      by (simp add: drop_last_def dec_and_test_def atomic_add_def FreeBlock_def)
    have "file_inv xs held (e(b := 0)) ?t" using inv l False unfolding file_inv_def z by (auto simp: ring_upd)
    then show ?thesis using d by (auto simp: same_names_def)
  qed
qed

lemma remove_drop_run:
  assumes "file_inv xs held e s" "e b = 2"
  shows "\<exists>t. remove_drop b s = Some t \<and> file_inv xs held (e(b := 0)) t \<and> same_names s t"
proof -
  obtain s1 where s1: "atomic_add (- 1) b s = Some s1" "file_inv xs held (e(b := 1)) s1" "same_names s s1"
    using dec_run [OF assms(1), of b] assms(2) by auto
  from drop_last_run [OF s1(2), of b] obtain t where "drop_last b s1 = Some t" "file_inv xs held (e(b := 0)) t" "same_names s1 t"
    by auto
  then show ?thesis using s1 by (auto simp: remove_drop_def intro: same_names_trans)
qed

text \<open>Taking a block out of the list; \<open>n\<close> references are then the remover's.\<close>

lemma unlink_inv:
  assumes inv: "file_inv (as @ b # bs) held e s"
  shows "file_inv (as @ bs) held (e(b := 1)) (DblLnkLst_Unlink1 b s)"
proof -
  have r: "ring (DblLnkLst_Unlink1 b s) (blockedFiles # as @ bs)"
    using Unlink1_ring [of s blockedFiles as b bs] inv by (simp add: file_inv_def)
  have d: "b \<notin> set (as @ bs)" using inv by (auto simp: file_inv_def ring_def)
  have e: "e b = 0" using inv by (auto simp: file_inv_def)
  have z: "{x. (e(b := 1)) x \<noteq> 0} = insert b {x. e x \<noteq> 0}" by auto
  show ?thesis using inv r d e unfolding file_inv_def z by (auto simp: link_frames)
qed

lemma unlink_get_inv:
  assumes inv: "file_inv (as @ b # bs) held e s"
  shows "file_inv (as @ bs) held (e(b := 2)) (DblLnkLst_Unlink1 b (s\<lparr>bi_refcount := (bi_refcount s)(b := bi_refcount s b + 1)\<rparr>))"
proof -
  let ?s1 = "s\<lparr>bi_refcount := (bi_refcount s)(b := bi_refcount s b + 1)\<rparr>"
  have r: "ring (DblLnkLst_Unlink1 b ?s1) (blockedFiles # as @ bs)"
    using Unlink1_ring [of ?s1 blockedFiles as b bs] inv by (simp add: file_inv_def ring_upd)
  have d: "b \<notin> set (as @ bs)" using inv by (auto simp: file_inv_def ring_def)
  have e: "e b = 0" using inv by (auto simp: file_inv_def)
  have z: "{x. (e(b := 2)) x \<noteq> 0} = insert b {x. e x \<noteq> 0}" by auto
  show ?thesis using inv r d e unfolding file_inv_def z by (auto simp: link_frames)
qed

lemma remove_unlink_run:
  assumes inv: "file_inv xs held e s"
  shows "(find (matches s f k) xs = None \<and> remove_unlink f k s = Some (None, s))
    \<or> (\<exists>b t. find (matches s f k) xs = Some b \<and> remove_unlink f k s = Some (Some b, t)
         \<and> file_inv (remove1 b xs) held (e(b := 2)) t \<and> same_names s t \<and> e b = 0)"
proof (cases "find (matches s f k) xs")
  case None
  then show ?thesis using GetBlock_run [OF inv, of f k] by (simp add: remove_unlink_def)
next
  case (Some b)
  then obtain as bs where xs: "xs = as @ b # bs" using find_Some_D split_list by metis
  have "b \<notin> set as" using inv by (auto simp: file_inv_def ring_def xs)
  then have "remove1 b xs = as @ bs" by (simp add: xs remove1_append)
  then show ?thesis using Some GetBlock_run [OF inv, of f k] unlink_get_inv [OF inv [unfolded xs]] inv
    by (auto simp: remove_unlink_def same_names_def link_frames xs file_inv_def)
qed

lemma get_inv:
  assumes inv: "file_inv xs held e s" and b: "b \<in> set xs"
  shows "file_inv xs (add_mset b held) e (s\<lparr>bi_refcount := (bi_refcount s)(b := bi_refcount s b + 1)\<rparr>)"
  using assms unfolding file_inv_def by (auto simp: ring_upd)

lemma GetBlock_inv:
  assumes inv: "file_inv xs held e s"
  shows "(GetBlock f k s = Some (None, s) \<and> find (matches s f k) xs = None)
    \<or> (\<exists>b t. GetBlock f k s = Some (Some b, t) \<and> find (matches s f k) xs = Some b \<and> file_inv xs (add_mset b held) e t \<and> same_names s t
         \<and> bi_live t = bi_live s \<and> bi_done t = bi_done s)"
  using GetBlock_run [OF inv, of f k] get_inv [OF inv]
  by (cases "find (matches s f k) xs") (auto simp: same_names_def dest: find_Some_D)

lemma set_mset_minus: "b \<in># M \<Longrightarrow> set_mset (M - {#b#}) = (if count M b = 1 then set_mset M - {b} else set_mset M)"
proof -
  assume "b \<in># M"
  have "x \<in># M - {#b#} \<longleftrightarrow> x \<in># M \<and> (x \<noteq> b \<or> count M b \<noteq> 1)" for x
  proof (cases "x = b")
    case True
    have "b \<in># M - {#b#} \<longleftrightarrow> 1 < count M b" using count_greater_zero_iff [of "M - {#b#}" b] by simp
    moreover obtain c where "count M b = Suc c" using \<open>b \<in># M\<close> by (metis Suc_pred count_greater_zero_iff)
    ultimately show ?thesis using True \<open>b \<in># M\<close> by auto
  next
    case False
    then show ?thesis using count_greater_zero_iff [of "M - {#b#}" x] by simp
  qed
  then show ?thesis by auto
qed

lemma wait_finish_run:
  assumes inv: "file_inv xs held e s" and b: "b \<in># held" and d: "bi_done s b"
  shows "\<exists>t. wait_finish b s = Some t \<and> file_inv xs (held - {#b#}) e t \<and> same_names s t"
proof -
  have l: "b \<in> bi_live s" using assms by (auto simp: file_inv_def)
  then have n: "b \<notin> set xs" "e b = 0" "bi_refcount s b = int (count held b)" using inv d by (auto simp: file_inv_def)
  have c: "0 < count held b" using b by simp
  let ?s1 = "s\<lparr>bi_refcount := (bi_refcount s)(b := bi_refcount s b - 1)\<rparr>"
  show ?thesis
  proof (cases "count held b = 1")
    case True
    then have h: "b \<notin># held - {#b#}" by (simp add: not_in_iff)
    let ?t = "?s1\<lparr>bi_live := bi_live s - {b}\<rparr>"
    have "wait_finish b s = Some ?t" using l n True by (simp add: wait_finish_def dec_and_test_def atomic_add_def FreeBlock_def)
    moreover have "bi_live s - {b} = set xs \<union> set_mset (held - {#b#}) \<union> {b. e b \<noteq> 0}"
      using inv n h set_mset_minus [OF b] True unfolding file_inv_def by auto
    then have "file_inv xs (held - {#b#}) e ?t" using inv n h unfolding file_inv_def by (auto simp: ring_upd)
    ultimately show ?thesis by (auto simp: same_names_def)
  next
    case False
    then have h: "b \<in># held - {#b#}" using c by (simp flip: count_greater_zero_iff)
    have "wait_finish b s = Some ?s1" using l n False by (simp add: wait_finish_def dec_and_test_def atomic_add_def)
    moreover have "set_mset (held - {#b#}) = set_mset held" using set_mset_minus [OF b] False by simp
    then have "file_inv xs (held - {#b#}) e ?s1" using inv n c unfolding file_inv_def by (auto simp: ring_upd of_nat_diff)
    ultimately show ?thesis by (auto simp: same_names_def)
  qed
qed

definition blocked :: "ptr list \<Rightarrow> 'a block_state_scheme \<Rightarrow> string set" where
  "blocked xs s = bi_filename s ` set xs"

lemma find_matches_any: "find (matches s f OS_UNKNOWN_BLOCKER) xs = None \<longleftrightarrow> f \<notin> blocked xs s"
  by (auto simp: find_None_iff matches_def blocked_def)

text \<open>A new block, before it is linked.\<close>

lemma AllocBlock_inv:
  assumes inv: "file_inv xs held e s" and m: "m \<notin> bi_live s" "m \<noteq> blockedFiles" and len: "length f < OS_PATH_MAX"
  shows "\<exists>t. AllocBlock (Some m) f k s = (Some m, t) \<and> file_inv xs held (e(m := 1)) t \<and> bi_refcount t m = 1 \<and> ring t [m]
    \<and> bi_filename t = (bi_filename s)(m := f) \<and> bi_blocker t = (bi_blocker s)(m := k)"
proof -
  let ?u = "s\<lparr>bi_live := insert m (bi_live s), bi_filename := (bi_filename s)(m := f),
                  bi_refcount := (bi_refcount s)(m := 1), bi_done := (bi_done s)(m := False), bi_blocker := (bi_blocker s)(m := k)\<rparr>"
  let ?t = "DblLnkLst_Init m ?u"
  have n: "m \<notin> set xs" "e m = 0" "m \<notin># held" using inv m by (auto simp: file_inv_def)
  have r: "ring ?t (blockedFiles # xs)"
    by (rule Init_keeps, rule ring_frame [of s]) (use inv n m in \<open>auto simp: file_inv_def\<close>)
  have z: "{x. (e(m := 1)) x \<noteq> 0} = insert m {x. e x \<noteq> 0}" by auto
  have d: "map (bi_filename ?t) xs = map (bi_filename s) xs" using n by (auto simp: link_frames)
  have "file_inv xs held (e(m := 1)) ?t"
    using inv r n m unfolding file_inv_def z d by (auto simp: link_frames not_in_iff)
  then show ?thesis using len Init_ring [of m ?u] by (simp add: AllocBlock_def link_frames)
qed

lemma AddFileBlock_run:
  assumes inv: "file_inv xs held e s" and m: "\<forall>m. mem = Some m \<longrightarrow> m \<notin> bi_live s \<and> m \<noteq> blockedFiles"
  shows "\<exists>r t. BlockAddFileBlock mem f k s = Some (r, t)
    \<and> (if mem = None \<or> OS_PATH_MAX \<le> length f then r = OS_ENOMEM \<and> t = s
       else if f \<in> blocked xs s then r = OS_EEXIST \<and> file_inv xs held e t
       else r = 0 \<and> file_inv (xs @ [the mem]) held e t \<and> bi_filename t = (bi_filename s)(the mem := f) \<and> bi_blocker t = (bi_blocker s)(the mem := k))"
proof (cases "mem = None \<or> OS_PATH_MAX \<le> length f")
  case True
  then show ?thesis by (auto simp: BlockAddFileBlock_def AllocBlock_def split: option.splits)
next
  case False
  then obtain m where mem: "mem = Some m" and len: "length f < OS_PATH_MAX" by auto
  have m: "m \<notin> bi_live s" "m \<noteq> blockedFiles" using m mem by auto
  obtain s1 where a: "AllocBlock (Some m) f k s = (Some m, s1)" "file_inv xs held (e(m := 1)) s1" "bi_refcount s1 m = 1" "ring s1 [m]"
    "bi_filename s1 = (bi_filename s)(m := f)" "bi_blocker s1 = (bi_blocker s)(m := k)"
    using AllocBlock_inv [OF inv m len] by blast
  have n: "m \<notin> set xs" "e m = 0" "m \<notin># held" "m \<in> bi_live s1" using inv m a(2) by (auto simp: file_inv_def)
  have b: "blocked xs s1 = blocked xs s" using n by (auto simp: blocked_def a(5))
  have e: "(e(m := 1))(m := 0) = e" using n by auto
  show ?thesis
  proof (cases "f \<in> blocked xs s")
    case True
    then have "find (matches s1 f OS_UNKNOWN_BLOCKER) xs \<noteq> None" unfolding find_matches_any b by simp
    then obtain c where c: "find (matches s1 f OS_UNKNOWN_BLOCKER) xs = Some c" by blast
    then have cl: "c \<in> bi_live s1" using a(2) by (auto simp: file_inv_def dest: find_Some_D)
    have "BlockExists f s1 = Some (True, s1)"
      using GetBlock_run [OF a(2), of f OS_UNKNOWN_BLOCKER] cl by (simp add: BlockExists_def c atomic_add_def)
    then have r: "BlockAddFileBlock mem f k s = Some (OS_EEXIST, s1\<lparr>bi_live := bi_live s1 - {m}\<rparr>)"
      using n by (simp add: BlockAddFileBlock_def mem a(1) FreeBlock_def)
    have z: "{x. (e(m := 1)) x \<noteq> 0} - {m} = {x. e x \<noteq> 0}" using n by auto
    have "file_inv xs held e (s1\<lparr>bi_live := bi_live s1 - {m}\<rparr>)"
      using a(2) n unfolding file_inv_def z [symmetric] by (auto simp: ring_upd split: if_splits)
    then show ?thesis using r True False mem by simp
  next
    case no: False
    then have "find (matches s1 f OS_UNKNOWN_BLOCKER) xs = None" unfolding find_matches_any b .
    then have "BlockExists f s1 = Some (False, s1)"
      using GetBlock_run [OF a(2), of f OS_UNKNOWN_BLOCKER] by (simp add: BlockExists_def)
    then have r: "BlockAddFileBlock mem f k s = Some (0, DblLnkLst_LinkLast blockedFiles m s1)"
      by (simp add: BlockAddFileBlock_def mem a(1))
    have rg: "ring (DblLnkLst_LinkLast blockedFiles m s1) (blockedFiles # xs @ [m])"
      using LinkLast_ring [OF _ a(4)] a(2) n m by (simp add: file_inv_def)
    have z: "{x. (e(m := 1)) x \<noteq> 0} = insert m {x. e x \<noteq> 0}" by auto
    have p: "\<forall>b. 0 \<le> e b" "\<forall>b \<in> set xs. e b = 0" using inv by (auto simp: file_inv_def)
    have "file_inv (xs @ [m]) held e (DblLnkLst_LinkLast blockedFiles m s1)"
      using a(2,3,5) rg n no b p unfolding file_inv_def z by (auto simp: link_frames not_in_iff blocked_def)
    then show ?thesis using r False no mem by (simp add: link_frames a(5,6))
  qed
qed

text \<open>Removing all blocks of a blocker.\<close>

definition owned :: "'a block_state_scheme \<Rightarrow> ptr \<Rightarrow> ptr \<Rightarrow> bool" where
  "owned s blocker b \<longleftrightarrow> bi_blocker s b = blocker \<or> blocker = OS_UNKNOWN_BLOCKER"

lemma remove_all_run:
  "file_inv (as @ bs) held e s \<Longrightarrow>
    \<exists>t. remove_all k (hd (bs @ [blockedFiles])) n s = Some (n + of_nat (length (filter (owned s k) bs)), t)
      \<and> file_inv (as @ filter (\<lambda>b. \<not> owned s k b) bs) held e t \<and> same_names s t"
proof (induction bs arbitrary: as n s)
  case Nil
  then show ?case by (simp add: remove_all.simps)
next
  case (Cons b bs)
  have h: "b \<noteq> blockedFiles" "b \<in> bi_live s" "e b = 0" using Cons.prems by (auto simp: file_inv_def ring_def)
  have nx: "dl_next s b = hd (bs @ [blockedFiles])" using ring_step [of s blockedFiles as b bs] Cons.prems by (simp add: file_inv_def)
  show ?case
  proof (cases "owned s k b")
    case True
    let ?s1 = "DblLnkLst_Unlink1 b s"
    have i: "file_inv (as @ bs) held (e(b := 1)) ?s1" by (rule unlink_inv [OF Cons.prems])
    then obtain s2 where s2: "drop_last b ?s1 = Some s2" "file_inv (as @ bs) held (e(b := 1, b := 0)) s2" "same_names ?s1 s2"
      using drop_last_run [OF i, of b] by auto
    have e: "e(b := 1, b := 0) = e" using h by auto
    have o: "owned s2 k = owned s k" using s2(3) by (auto simp: owned_def same_names_def link_frames)
    obtain t where t: "remove_all k (hd (bs @ [blockedFiles])) (n + 1) s2 = Some (n + 1 + of_nat (length (filter (owned s k) bs)), t)"
      "file_inv (as @ filter (\<lambda>b. \<not> owned s k b) bs) held e t" "same_names s2 t"
      using Cons.IH [OF s2(2) [unfolded e], of "n + 1"] unfolding o by blast
    have "same_names s t" using s2(3) t(3) by (auto simp: same_names_def link_frames)
    have "remove_all k b n s = Option.bind (drop_last b ?s1) (remove_all k (hd (bs @ [blockedFiles])) (n + 1))"
      using True h by (simp add: remove_all.simps [of k b] owned_def nx Let_def)
    then have "remove_all k b n s = Some (n + 1 + of_nat (length (filter (owned s k) bs)), t)" by (simp only: s2(1) t(1) Option.bind.bind_lunit)
    then show ?thesis using True t(2) \<open>same_names s t\<close> by (intro exI [of _ t]) (simp add: add.assoc)
  next
    case False
    then have "remove_all k b n s = remove_all k (hd (bs @ [blockedFiles])) n s"
      using h by (simp add: remove_all.simps [of k b] owned_def nx Let_def)
    then show ?thesis using Cons.IH [of "as @ [b]" s n] Cons.prems False by simp
  qed
qed

lemma RemoveAllBlocks_run:
  assumes "file_inv xs held e s"
  shows "\<exists>t. BlockRemoveAllBlocks k s = Some (of_nat (length (filter (owned s k) xs)), t)
     \<and> file_inv (filter (\<lambda>b. \<not> owned s k b) xs) held e t \<and> same_names s t"
proof -
  have "dl_next s blockedFiles = hd (xs @ [blockedFiles])" using ring_next [of s blockedFiles xs] assms by (simp add: file_inv_def)
  then show ?thesis using remove_all_run [of "[]" xs held e s k 0] assms by (simp add: BlockRemoveAllBlocks_def)
qed

lemma RemoveFileBlock_run:
  assumes inv: "file_inv xs held e s"
  shows "(find (matches s f k) xs = None \<and> BlockRemoveFileBlock f k s = Some (OS_ENOENT, s))
    \<or> (\<exists>b t. find (matches s f k) xs = Some b \<and> BlockRemoveFileBlock f k s = Some (0, t)
         \<and> file_inv (remove1 b xs) held e t \<and> same_names s t)"
  using remove_unlink_run [OF inv, of f k]
proof (elim disjE exE conjE)
  fix b t
  assume b: "find (matches s f k) xs = Some b" "remove_unlink f k s = Some (Some b, t)" "file_inv (remove1 b xs) held (e(b := 2)) t"
    "same_names s t" "e b = 0"
  from remove_drop_run [OF b(3), of b] obtain u where u: "remove_drop b t = Some u" "file_inv (remove1 b xs) held (e(b := 2, b := 0)) u" "same_names t u"
    by auto
  have e: "e(b := 2, b := 0) = e" using b(5) by auto
  show ?thesis using b(1,2,4) u unfolding e by (auto simp: BlockRemoveFileBlock_def intro: same_names_trans)
qed (simp add: BlockRemoveFileBlock_def)

lemma WaitOnFile_new:
  assumes inv: "file_inv xs held e s"
  shows "(f \<notin> blocked xs s \<and> BlockWaitOnFile f None s = Some (Inl 0, s))
    \<or> (\<exists>b t. b \<in> set xs \<and> bi_filename s b = f \<and> BlockWaitOnFile f None s = Some (Inr b, t) \<and> file_inv xs (add_mset b held) e t \<and> same_names s t)"
  using GetBlock_inv [OF inv, of f OS_UNKNOWN_BLOCKER]
proof (elim disjE exE conjE)
  fix b t
  assume b: "GetBlock f OS_UNKNOWN_BLOCKER s = Some (Some b, t)" "find (matches s f OS_UNKNOWN_BLOCKER) xs = Some b"
    "file_inv xs (add_mset b held) e t" "same_names s t" "bi_live t = bi_live s" "bi_done t = bi_done s"
  have "b \<in> set xs" "bi_filename s b = f" using b(2) by (auto dest: find_Some_D simp: matches_def)
  moreover from this have "b \<in> bi_live s" "\<not> bi_done s b" using inv by (auto simp: file_inv_def)
  ultimately show ?thesis using b by (simp add: BlockWaitOnFile_def wait_start_def)
qed (simp add: BlockWaitOnFile_def wait_start_def find_matches_any)

lemma WaitOnFile_cookie:
  assumes inv: "file_inv xs held e s" and b: "b \<in># held"
  shows "(\<not> bi_done s b \<and> BlockWaitOnFile f (Some b) s = Some (Inr b, s))
    \<or> (bi_done s b \<and> (\<exists>t. BlockWaitOnFile f (Some b) s = Some (Inl 0, t) \<and> file_inv xs (held - {#b#}) e t \<and> same_names s t))"
proof -
  have "b \<in> bi_live s" using assms by (auto simp: file_inv_def)
  then show ?thesis using wait_finish_run [OF inv b] by (auto simp: BlockWaitOnFile_def wait_start_def)
qed

section \<open>Interleavings\<close>

text \<open>
  The steps of the processes: each is atomic, for it runs under the lock or is one step on the count.
  A new block is at an address that is not in use.
\<close>

inductive block_step :: "block_state \<times> ptr multiset \<times> (ptr \<Rightarrow> int) \<Rightarrow> block_state \<times> ptr multiset \<times> (ptr \<Rightarrow> int) \<Rightarrow> bool" where
  add: "\<forall>m. mem = Some m \<longrightarrow> m \<notin> bi_live s \<and> m \<noteq> blockedFiles \<Longrightarrow> BlockAddFileBlock mem f k s = Some (r, t)
    \<Longrightarrow> block_step (s, held, e) (t, held, e)"
| unlink: "remove_unlink f k s = Some (Some b, t) \<Longrightarrow> block_step (s, held, e) (t, held, e(b := 2))"
| drop: "e b = 2 \<Longrightarrow> remove_drop b s = Some t \<Longrightarrow> block_step (s, held, e) (t, held, e(b := 0))"
| remove_all: "BlockRemoveAllBlocks k s = Some (n, t) \<Longrightarrow> block_step (s, held, e) (t, held, e)"
| lookup: "BlockLookup f k s = Some (Some b, t) \<Longrightarrow> block_step (s, held, e) (t, add_mset b held, e)"
| wait: "wait_start f None s = Some (Some b, t) \<Longrightarrow> block_step (s, held, e) (t, add_mset b held, e)"
| wake: "b \<in># held \<Longrightarrow> bi_done s b \<Longrightarrow> wait_finish b s = Some t \<Longrightarrow> block_step (s, held, e) (t, held - {#b#}, e)"

definition block_init :: block_state where
  "block_init = snd (BlockInit True \<lparr>dl_prev = \<lambda>_. 0, dl_next = \<lambda>_. 0, bi_refcount = \<lambda>_. 0, bi_blocker = \<lambda>_. 0,
     bi_done = \<lambda>_. False, bi_filename = \<lambda>_. [], bi_live = {}\<rparr>)"

definition block_reach :: "block_state \<Rightarrow> ptr multiset \<Rightarrow> (ptr \<Rightarrow> int) \<Rightarrow> bool" where
  "block_reach s held e \<longleftrightarrow> block_step\<^sup>*\<^sup>* (block_init, {#}, \<lambda>_. 0) (s, held, e)"

lemma block_init_inv: "file_inv [] {#} (\<lambda>_. 0) block_init"
  by (simp add: file_inv_def block_init_def BlockInit_def ring_single link_frames set_prev_def set_next_def)

lemma block_step_inv:
  assumes "block_step p q" "\<exists>xs. file_inv xs (fst (snd p)) (snd (snd p)) (fst p)"
  shows "\<exists>xs. file_inv xs (fst (snd q)) (snd (snd q)) (fst q)"
  using assms
proof (induction rule: block_step.induct)
  case (add mem s f k r t held e)
  then obtain xs where inv: "file_inv xs held e s" by auto
  show ?case using AddFileBlock_run [OF inv, of mem f k] add.hyps inv by (auto split: if_splits)
next
  case (unlink f k s b t held e)
  then obtain xs where inv: "file_inv xs held e s" by auto
  show ?case using remove_unlink_run [OF inv, of f k] unlink.hyps by (auto simp del: fun_upd_apply)
next
  case (drop e b s t held)
  then obtain xs where inv: "file_inv xs held e s" by auto
  show ?case using remove_drop_run [OF inv drop.hyps(1)] drop.hyps by (auto simp del: fun_upd_apply)
next
  case (remove_all k s n t held e)
  then obtain xs where inv: "file_inv xs held e s" by auto
  show ?case using RemoveAllBlocks_run [OF inv, of k] remove_all.hyps by auto
next
  case (lookup f k s b t held e)
  then obtain xs where inv: "file_inv xs held e s" by auto
  show ?case using GetBlock_inv [OF inv, of f k] lookup.hyps by (auto simp: BlockLookup_def)
next
  case (wait f s b t held e)
  then obtain xs where inv: "file_inv xs held e s" by auto
  show ?case using GetBlock_inv [OF inv, of f OS_UNKNOWN_BLOCKER] wait.hyps by (auto simp: wait_start_def)
next
  case (wake b held s t e)
  then obtain xs where inv: "file_inv xs held e s" by auto
  show ?case using wait_finish_run [OF inv wake.hyps(1,2)] wake.hyps(3) by auto
qed

lemma block_reach_inv: "block_reach s held e \<Longrightarrow> \<exists>xs. file_inv xs held e s"
proof -
  have "block_step\<^sup>*\<^sup>* (block_init, {#}, \<lambda>_. 0) q \<Longrightarrow> \<exists>xs. file_inv xs (fst (snd q)) (snd (snd q)) (fst q)" for q
    by (induction rule: rtranclp_induct) (use block_init_inv block_step_inv in auto)
  then show "block_reach s held e \<Longrightarrow> ?thesis" unfolding block_reach_def by fastforce
qed


text \<open>
  C35: No block is used after it was freed and none is freed twice: in every reachable state every
  operation returns, for every file name, blocker and outstanding reference, and gives one of its results.
\<close>

theorem block_operations_safe:
  assumes "block_reach s held e" "\<forall>m. mem = Some m \<longrightarrow> m \<notin> bi_live s \<and> m \<noteq> blockedFiles"
  shows "(\<exists>r t. BlockAddFileBlock mem f k s = Some (r, t) \<and> r \<in> {0, OS_ENOMEM, OS_EEXIST})
    \<and> (\<exists>r t. BlockRemoveFileBlock f k s = Some (r, t) \<and> r \<in> {0, OS_ENOENT})
    \<and> BlockRemoveAllBlocks k s \<noteq> None \<and> BlockLookup f k s \<noteq> None \<and> BlockWaitOnFile f None s \<noteq> None
    \<and> (\<forall>b. b \<in># held \<longrightarrow> BlockWaitOnFile f (Some b) s \<noteq> None) \<and> (\<forall>b. e b = 2 \<longrightarrow> remove_drop b s \<noteq> None)"
proof -
  obtain xs where inv: "file_inv xs held e s" using block_reach_inv [OF assms(1)] ..
  have "\<exists>r t. BlockAddFileBlock mem f k s = Some (r, t) \<and> r \<in> {0, OS_ENOMEM, OS_EEXIST}"
    using AddFileBlock_run [OF inv assms(2), of f k] by (auto split: if_splits)
  moreover have "\<exists>r t. BlockRemoveFileBlock f k s = Some (r, t) \<and> r \<in> {0, OS_ENOENT}"
    using RemoveFileBlock_run [OF inv, of f k] by auto
  moreover have "\<forall>b. b \<in># held \<longrightarrow> BlockWaitOnFile f (Some b) s \<noteq> None" using WaitOnFile_cookie [OF inv, of _ f] by force
  moreover have "\<forall>b. e b = 2 \<longrightarrow> remove_drop b s \<noteq> None" using remove_drop_run [OF inv] by force
  ultimately show ?thesis
    using RemoveAllBlocks_run [OF inv, of k] GetBlock_inv [OF inv, of f k] WaitOnFile_new [OF inv, of f]
    by (auto simp: BlockLookup_def)
qed

text \<open>The sleepers \<open>bs\<close> wake up in this order.\<close>

fun wake_in_turn :: "ptr list \<Rightarrow> 'a block_state_scheme \<Rightarrow> 'a block_state_scheme option" where
  "wake_in_turn [] s = Some s"
| "wake_in_turn (b # bs) s = Option.bind (BlockWaitOnFile [] (Some b) s) (\<lambda>(r, t). if r = Inl 0 then wake_in_turn bs t else None)"

lemma wake_in_turn_run:
  "file_inv [] (mset bs) (\<lambda>_. 0) s \<Longrightarrow> \<exists>t. wake_in_turn bs s = Some t \<and> file_inv [] {#} (\<lambda>_. 0) t"
proof (induction bs arbitrary: s)
  case Nil
  then show ?case by simp
next
  case (Cons b bs)
  have "bi_done s b" using Cons.prems by (auto simp: file_inv_def)
  then obtain t where t: "BlockWaitOnFile [] (Some b) s = Some (Inl 0, t)" "file_inv [] (mset bs) (\<lambda>_. 0) t"
    using WaitOnFile_cookie [OF Cons.prems, of b "[]"] by auto
  then show ?case using Cons.IH [OF t(2)] by simp
qed

text \<open>
  C36: Nobody sleeps for ever on a removed block: when all blocks are removed and no removal is in
  progress, the number removed is that of the list, all sleepers return in whatever order they wake, and
  then no block is left allocated.
\<close>

theorem sleepers_return:
  assumes "block_reach s held (\<lambda>_. 0)" "mset bs = held"
  shows "\<exists>xs n t u. ring s (blockedFiles # xs) \<and> BlockRemoveAllBlocks OS_UNKNOWN_BLOCKER s = Some (n, t) \<and> n = of_nat (length xs)
    \<and> wake_in_turn bs t = Some u \<and> bi_live u = {} \<and> ring u [blockedFiles]"
proof -
  obtain xs where inv: "file_inv xs held (\<lambda>_. 0) s" using block_reach_inv [OF assms(1)] ..
  have o: "filter (owned s OS_UNKNOWN_BLOCKER) xs = xs" "filter (\<lambda>b. \<not> owned s OS_UNKNOWN_BLOCKER b) xs = []"
    by (simp_all add: owned_def)
  obtain t where t: "BlockRemoveAllBlocks OS_UNKNOWN_BLOCKER s = Some (of_nat (length xs), t)" "file_inv [] held (\<lambda>_. 0) t"
    using RemoveAllBlocks_run [OF inv, of OS_UNKNOWN_BLOCKER] unfolding o by blast
  obtain u where u: "wake_in_turn bs t = Some u" "file_inv [] {#} (\<lambda>_. 0) u" using wake_in_turn_run [of bs t] t(2) assms(2) by auto
  have "ring s (blockedFiles # xs)" "bi_live u = {}" "ring u [blockedFiles]" using inv u(2) by (auto simp: file_inv_def)
  then show ?thesis using t(1) u(1) by blast
qed

lemma blocked_unique:
  assumes "file_inv xs held e s" "a \<in> set xs" "b \<in> set xs" "bi_filename s a = bi_filename s b"
  shows "a = b"
proof -
  have "distinct (map (bi_filename s) xs)" using assms(1) unfolding file_inv_def by blast
  then have "inj_on (bi_filename s) (set xs)" unfolding distinct_map by blast
  then show ?thesis using assms by (meson inj_onD)
qed

lemma wait_sleeps:
  assumes "file_inv xs held e s" "m \<in> set xs"
  shows "\<exists>u. BlockWaitOnFile (bi_filename s m) None s = Some (Inr m, u) \<and> file_inv xs (add_mset m held) e u \<and> same_names s u"
proof -
  have "bi_filename s m \<in> blocked xs s" using assms(2) by (simp add: blocked_def)
  then show ?thesis using WaitOnFile_new [OF assms(1), of "bi_filename s m"] blocked_unique [OF assms(1) _ assms(2)] by blast
qed

text \<open>
  A block holds up whoever looks the file up until its blocker removes it: after a block was added,
  a lookup of the file sleeps on it; another blocker cannot remove it; after its blocker removed it the
  sleeper returns, and later lookups do not sleep.
\<close>

theorem block_holds_file:
  assumes "block_reach s held e" "m \<notin> bi_live s \<and> m \<noteq> blockedFiles" "BlockAddFileBlock (Some m) f k s = Some (0, t)"
    "k \<noteq> k'" "k' \<noteq> OS_UNKNOWN_BLOCKER"
  shows "\<exists>u v w. BlockWaitOnFile f None t = Some (Inr m, u) \<and> BlockRemoveFileBlock f k' u = Some (OS_ENOENT, u)
    \<and> BlockRemoveFileBlock f k u = Some (0, v) \<and> BlockWaitOnFile f (Some m) u = Some (Inr m, u)
    \<and> BlockWaitOnFile f (Some m) v = Some (Inl 0, w) \<and> BlockWaitOnFile f None w = Some (Inl 0, w)"
proof -
  obtain xs where inv: "file_inv xs held e s" using block_reach_inv [OF assms(1)] ..
  have t: "file_inv (xs @ [m]) held e t" "bi_filename t m = f" "bi_blocker t m = k"
    using AddFileBlock_run [OF inv, of "Some m" f k] assms(2,3) by (auto simp: OS_ENOMEM_def OS_EEXIST_def split: if_splits)
  obtain u where u: "BlockWaitOnFile f None t = Some (Inr m, u)" "file_inv (xs @ [m]) (add_mset m held) e u" "same_names t u"
    using wait_sleeps [OF t(1), of m] t(2) by auto
  have nm: "bi_filename u m = f" "bi_blocker u m = k" using u(3) t by (simp_all add: same_names_def)
  have "find (matches u f k') (xs @ [m]) = None"
    using blocked_unique [OF u(2), of _ m] nm assms(4,5) by (fastforce simp: find_None_iff matches_def)
  then have other: "BlockRemoveFileBlock f k' u = Some (OS_ENOENT, u)" using RemoveFileBlock_run [OF u(2), of f k'] by auto
  have fnd: "find (matches u f k) (xs @ [m]) = Some m"
    by (rule find_unique) (use blocked_unique [OF u(2), of _ m] nm in \<open>auto simp: matches_def\<close>)
  then obtain v where v: "BlockRemoveFileBlock f k u = Some (0, v)" "file_inv (remove1 m (xs @ [m])) (add_mset m held) e v" "same_names u v"
    using RemoveFileBlock_run [OF u(2), of f k] by auto
  have d: "m \<notin> set xs" "e m = 0" using t(1) by (auto simp: file_inv_def ring_def)
  then have r: "remove1 m (xs @ [m]) = xs" by (simp add: remove1_append)
  have "\<not> bi_done u m" using u(2) by (auto simp: file_inv_def)
  then have sleep: "BlockWaitOnFile f (Some m) u = Some (Inr m, u)" using WaitOnFile_cookie [OF u(2), of m f] by auto
  have "bi_done v m" using v(2) d unfolding r by (auto simp: file_inv_def)
  then obtain w where w: "BlockWaitOnFile f (Some m) v = Some (Inl 0, w)" "file_inv xs held e w" "same_names v w"
    using WaitOnFile_cookie [OF v(2), of m f] unfolding r by auto
  have "f \<notin> blocked xs w"
    using t(1) t(2) u(3) v(3) w(3) by (auto simp: file_inv_def blocked_def same_names_def)
  then have "BlockWaitOnFile f None w = Some (Inl 0, w)" using WaitOnFile_new [OF w(2), of f] by (auto simp: blocked_def)
  then show ?thesis using u(1) other v(1) sleep w(1) by blast
qed

section \<open>Witnesses\<close>

lemma init_reach: "block_reach block_init {#} (\<lambda>_. 0)"
  by (simp add: block_reach_def)

lemma init_live: "bi_live block_init = {}"
  by (simp add: block_init_def BlockInit_def link_frames)

text \<open>Process 7 blocks the file \<open>f\<close> with the block 5, and somebody waits for it.\<close>

lemma one_sleeper:
  "\<exists>t u. BlockAddFileBlock (Some 5) ''f'' 7 block_init = Some (0, t) \<and> wait_start ''f'' None t = Some (Some 5, u)
     \<and> block_reach u {#5#} (\<lambda>_. 0)"
proof -
  have m: "\<forall>m. Some 5 = Some m \<longrightarrow> m \<notin> bi_live block_init \<and> m \<noteq> blockedFiles" by (simp add: init_live blockedFiles_def)
  have "blocked [] block_init = {}" by (simp add: blocked_def)
  then obtain t where t: "BlockAddFileBlock (Some 5) ''f'' 7 block_init = Some (0, t)" "file_inv [5] {#} (\<lambda>_. 0) t"
    "bi_filename t 5 = ''f''"
    using AddFileBlock_run [OF block_init_inv m, of "''f''" 7] by (auto simp: OS_PATH_MAX_def)
  have "find (matches t ''f'' OS_UNKNOWN_BLOCKER) [5] = Some 5" using t(3) by (simp add: matches_def)
  then obtain u where u: "wait_start ''f'' None t = Some (Some 5, u)"
    using GetBlock_inv [OF t(2), of "''f''" OS_UNKNOWN_BLOCKER] by (auto simp: wait_start_def)
  have "block_step (block_init, {#}, \<lambda>_. 0) (t, {#}, \<lambda>_. 0)" by (rule block_step.add [OF m t(1)])
  moreover have "block_step (t, {#}, \<lambda>_. 0) (u, {#5#}, \<lambda>_. 0)" by (rule block_step.wait [OF u])
  ultimately have "block_reach u {#5#} (\<lambda>_. 0)" unfolding block_reach_def by (meson r_into_rtranclp rtranclp.rtrancl_into_rtrancl)
  then show ?thesis using t(1) u by blast
qed


theorem block_operations_safe_witness:
  "\<exists>s. block_reach s {#5#} (\<lambda>_. 0) \<and> BlockWaitOnFile ''f'' (Some 5) s \<noteq> None \<and> BlockRemoveAllBlocks 7 s \<noteq> None"
proof -
  obtain s where s: "block_reach s {#5#} (\<lambda>_. 0)" using one_sleeper by blast
  then show ?thesis using block_operations_safe [OF s, of None "''f''" 7] by auto
qed

theorem sleepers_return_witness:
  "\<exists>s n t u. block_reach s {#5#} (\<lambda>_. 0) \<and> BlockRemoveAllBlocks OS_UNKNOWN_BLOCKER s = Some (n, t)
     \<and> wake_in_turn [5] t = Some u \<and> bi_live u = {}"
proof -
  obtain s where s: "block_reach s {#5#} (\<lambda>_. 0)" using one_sleeper by blast
  then show ?thesis using sleepers_return [OF s, of "[5]"] by auto
qed

theorem block_holds_file_witness:
  "\<exists>t u v. BlockAddFileBlock (Some 5) ''f'' 7 block_init = Some (0, t) \<and> BlockWaitOnFile ''f'' None t = Some (Inr 5, u)
     \<and> BlockRemoveFileBlock ''f'' 8 u = Some (OS_ENOENT, u) \<and> BlockRemoveFileBlock ''f'' 7 u = Some (0, v)"
proof -
  obtain t where t: "BlockAddFileBlock (Some 5) ''f'' 7 block_init = Some (0, t)" using one_sleeper by blast
  have "(5::nat) \<notin> bi_live block_init \<and> 5 \<noteq> blockedFiles" "(7::nat) \<noteq> 8" "8 \<noteq> OS_UNKNOWN_BLOCKER"
    by (simp_all add: init_live blockedFiles_def OS_UNKNOWN_BLOCKER_def)
  from block_holds_file [OF init_reach this(1) t this(2,3)] show ?thesis using t by blast
qed

end
