(* ===== verification/BlockFs.thy ===== *)
theory BlockFs
  imports FileBlockProps
begin

text \<open>
  The two users of file blocks: the control device (\<open>vmblock-only/linux/control.c\<close>), through which a
  process adds and removes blocks, and the lookups of the file system
  (\<open>inode.c\<close>, \<open>dentry.c\<close>, \<open>filesystem.c\<close>), which wait for them.  The kernel's answers (memory,
  the user's string, path lookups) are arguments; a string has no terminator.
\<close>

definition VMBLOCK_ADD_FILEBLOCK :: nat where "VMBLOCK_ADD_FILEBLOCK = 98"
definition VMBLOCK_DEL_FILEBLOCK :: nat where "VMBLOCK_DEL_FILEBLOCK = 99"
definition fs_EINVAL :: int where "fs_EINVAL = - 22"
definition fs_ENAMETOOLONG :: int where "fs_ENAMETOOLONG = - 36"

section \<open>The control device\<close>

fun strip_slashes :: "string \<Rightarrow> string" where
  "strip_slashes s = rev (dropWhile (\<lambda>c. c = CHR ''/'') (rev s))"

text \<open>\<open>user\<close> is the answer of \<open>strncpy_from_user\<close>: an error, or the string, cut at \<open>PATH_MAX\<close>.\<close>

definition ControlFileOpWrite ::
  "bool \<Rightarrow> int + string \<Rightarrow> ptr option \<Rightarrow> ptr \<Rightarrow> nat \<Rightarrow> 'a block_state_scheme \<Rightarrow> (int \<times> 'a block_state_scheme) option" where
  "ControlFileOpWrite getname user mem file cmd s =
     (if \<not> getname then Some (OS_ENOMEM, s)
      else case user of Inl err \<Rightarrow> Some (err, s)
      | Inr str \<Rightarrow>
          if OS_PATH_MAX \<le> length str then Some (fs_ENAMETOOLONG, s)
          else let filename = strip_slashes str in
            if filename = [] then Some (fs_EINVAL, s)
            else if cmd = VMBLOCK_ADD_FILEBLOCK then BlockAddFileBlock mem filename file s
            else if cmd = VMBLOCK_DEL_FILEBLOCK then BlockRemoveFileBlock filename file s
            else Some (fs_EINVAL, s))"

definition ControlFileOpRelease :: "ptr \<Rightarrow> 'a block_state_scheme \<Rightarrow> (int \<times> 'a block_state_scheme) option" where
  "ControlFileOpRelease file s = map_option (\<lambda>(_, t). (0, t)) (BlockRemoveAllBlocks file s)"

section \<open>Inodes\<close>

record VMBlockInodeInfo =
  ii_name :: string
  ii_nameLen :: nat
  ii_actualDentry :: "ptr option"

record fs_state = block_state +
  fsRoot :: string
  nextIno :: u32
  fs_inodes :: "u32 \<Rightarrow> VMBlockInodeInfo option"

definition VMBlockReadInode :: "VMBlockInodeInfo \<Rightarrow> VMBlockInodeInfo" where
  "VMBlockReadInode i = i\<lparr>ii_name := [], ii_nameLen := 0, ii_actualDentry := None\<rparr>"

definition GetNextIno :: "'a fs_state_scheme \<Rightarrow> u32 \<times> 'a fs_state_scheme" where
  "GetNextIno s = (nextIno s + 1, s\<lparr>nextIno := nextIno s + 1\<rparr>)"

text \<open>\<open>slab\<close> is what a new inode's memory held.\<close>

definition GetInode :: "VMBlockInodeInfo option \<Rightarrow> u32 \<Rightarrow> 'a fs_state_scheme \<Rightarrow> bool \<times> 'a fs_state_scheme" where
  "GetInode slab ino s =
     (case fs_inodes s ino of Some _ \<Rightarrow> (True, s)
      | None \<Rightarrow> (case slab of None \<Rightarrow> (False, s)
          | Some i \<Rightarrow> (True, s\<lparr>fs_inodes := (fs_inodes s)(ino := Some (VMBlockReadInode i))\<rparr>)))"

text \<open>
  The name of the directory and that of the entry; \<open>stale\<close> says whether the byte after an empty name is 0.
\<close>

definition full_name :: "bool \<Rightarrow> string \<Rightarrow> string \<Rightarrow> string" where
  "full_name stale dirname name =
     (if (case dirname of [] \<Rightarrow> stale | [_] \<Rightarrow> True | _ \<Rightarrow> False) then dirname @ name else dirname @ ''/'' @ name)"

definition MakeFullName :: "bool \<Rightarrow> string option \<Rightarrow> string option \<Rightarrow> nat \<Rightarrow> 'a fs_state_scheme \<Rightarrow> int + string" where
  "MakeFullName stale dir dentry bufOutSize s =
     (case dir of None \<Rightarrow> if bufOutSize \<le> length (fsRoot s) then Inl fs_ENAMETOOLONG else Inr (fsRoot s)
      | Some dirname \<Rightarrow> (case dentry of None \<Rightarrow> Inl fs_EINVAL
          | Some name \<Rightarrow> if bufOutSize \<le> length (full_name stale dirname name) then Inl fs_ENAMETOOLONG
                          else Inr (full_name stale dirname name)))"

text \<open>
  \<open>path_lookup\<close> gives the actual file.  \<open>None\<close>: there is no inode, or it was given back because the name
  could not be made.
\<close>

definition Iget ::
  "VMBlockInodeInfo option \<Rightarrow> (string \<Rightarrow> ptr option) \<Rightarrow> bool \<Rightarrow> string option \<Rightarrow> string option \<Rightarrow> u32 \<Rightarrow> 'a fs_state_scheme
     \<Rightarrow> u32 option \<times> 'a fs_state_scheme" where
  "Iget slab path_lookup stale dir dentry ino s =
     (let (ok, s1) = GetInode slab ino s in
      if \<not> ok then (None, s1)
      else case MakeFullName stale dir dentry OS_PATH_MAX s1 of Inl _ \<Rightarrow> (None, s1)
        | Inr name \<Rightarrow> (Some ino, s1\<lparr>fs_inodes := (fs_inodes s1)(ino :=
            map_option (\<lambda>i. i\<lparr>ii_name := name, ii_actualDentry := path_lookup name\<rparr>) (fs_inodes s1 ino))\<rparr>))"

datatype lookup_result = LookupError int | LookupSleeps ptr | LookupNegative | LookupLink u32

text \<open>The part of a lookup after the wait; \<open>has_inode\<close> tells which actual files exist.\<close>

definition lookup_link ::
  "VMBlockInodeInfo option \<Rightarrow> (string \<Rightarrow> ptr option) \<Rightarrow> (ptr \<Rightarrow> bool) \<Rightarrow> bool \<Rightarrow> string \<Rightarrow> string option \<Rightarrow> 'a fs_state_scheme
     \<Rightarrow> lookup_result \<times> 'a fs_state_scheme" where
  "lookup_link slab path_lookup has_inode stale dirname dentry s =
     (let (ino, s1) = GetNextIno s;
          (inode, s2) = Iget slab path_lookup stale (Some dirname) dentry ino s1
      in case inode of None \<Rightarrow> (LookupError OS_ENOMEM, s2)
         | Some ino \<Rightarrow> (case Option.bind (fs_inodes s2 ino) ii_actualDentry of None \<Rightarrow> (LookupNegative, s2)
             | Some d \<Rightarrow> if has_inode d then (LookupLink ino, s2) else (LookupNegative, s2)))"

definition InodeOpLookup ::
  "bool \<Rightarrow> VMBlockInodeInfo option \<Rightarrow> (string \<Rightarrow> ptr option) \<Rightarrow> (ptr \<Rightarrow> bool) \<Rightarrow> bool \<Rightarrow> string \<Rightarrow> string option \<Rightarrow> 'a fs_state_scheme
     \<Rightarrow> (lookup_result \<times> 'a fs_state_scheme) option" where
  "InodeOpLookup getname slab path_lookup has_inode stale dirname dentry s =
     (if \<not> getname then Some (LookupError OS_ENOMEM, s)
      else case MakeFullName stale (Some dirname) dentry OS_PATH_MAX s of Inl err \<Rightarrow> Some (LookupError err, s)
      | Inr filename \<Rightarrow> map_option (\<lambda>(r, s1). case r of Inr b \<Rightarrow> (LookupSleeps b, s1)
          | Inl _ \<Rightarrow> lookup_link slab path_lookup has_inode stale dirname dentry s1)
          (BlockWaitOnFile filename None s))"

text \<open>The size that is given to a link, and the copy of its target to the user.\<close>

definition link_size :: "u32 \<Rightarrow> 'a fs_state_scheme \<Rightarrow> nat option" where
  "link_size ino s = map_option ii_nameLen (fs_inodes s ino)"

definition readlink_copy :: "bool \<Rightarrow> u32 \<Rightarrow> string \<Rightarrow> int \<times> string" where
  "readlink_copy copied buflen link =
     (let len = (if unat buflen < length link then unat buflen else length link)
      in if copied then (sint (of_nat len :: u32), take len link) else (- 14, []))"

text \<open>
  Revalidation waits for the block, then asks the actual file's own operation, if there is one, or
  looks the path up again.
\<close>

definition DentryOpRevalidate ::
  "(ptr \<Rightarrow> int option) \<Rightarrow> (string \<Rightarrow> ptr option) \<Rightarrow> (ptr \<Rightarrow> bool) \<Rightarrow> u32 option \<Rightarrow> 'a fs_state_scheme \<Rightarrow> ((int + ptr) \<times> 'a fs_state_scheme) option" where
  "DentryOpRevalidate d_revalidate path_lookup has_inode d_inode s =
     (case Option.bind d_inode (fs_inodes s) of None \<Rightarrow> Some (Inl 0, s)
      | Some i \<Rightarrow> map_option (\<lambda>(r, s1). case r of Inr b \<Rightarrow> (Inr b, s1)
          | Inl _ \<Rightarrow> (Inl (case Option.bind (ii_actualDentry i) d_revalidate of Some v \<Rightarrow> v
              | None \<Rightarrow> (case path_lookup (ii_name i) of None \<Rightarrow> 0 | Some d \<Rightarrow> of_bool (has_inode d))), s1))
          (BlockWaitOnFile (ii_name i) None s))"

section \<open>A blocked name holds up its lookups\<close>

lemma strip_slashes_path:
  "name \<noteq> [] \<Longrightarrow> last name \<noteq> CHR ''/'' \<Longrightarrow> strip_slashes (d @ name @ replicate n (CHR ''/'')) = d @ name"
proof -
  assume n: "name \<noteq> []" "last name \<noteq> CHR ''/''"
  then obtain m c where m: "name = m @ [c]" "c \<noteq> CHR ''/''" by (cases name rule: rev_cases) auto
  then show ?thesis by (simp add: dropWhile_append3)
qed

text \<open>
  C37: What the control device blocks, the file system holds up: when a process has blocked a path of the
  redirected directory, however many slashes end it, a lookup of that name in the directory sleeps on the
  new block; lookups of names that nobody blocked do not sleep.
\<close>

theorem control_blocks_lookup:
  assumes "file_inv xs held e s" "2 \<le> length root" "name \<noteq> [] \<and> last name \<noteq> CHR ''/''" "m \<notin> bi_live s \<and> m \<noteq> blockedFiles"
    "ControlFileOpWrite True (Inr (root @ ''/'' @ name @ replicate n (CHR ''/''))) (Some m) proc VMBLOCK_ADD_FILEBLOCK s = Some (0, t)"
  shows "(\<exists>u. InodeOpLookup True slab path_lookup has_inode stale root (Some name) t = Some (LookupSleeps m, u))
    \<and> (\<forall>name'. root @ ''/'' @ name' \<notin> blocked xs s \<and> name' \<noteq> name \<and> length root + length name' + 1 < OS_PATH_MAX \<longrightarrow>
         InodeOpLookup True slab path_lookup has_inode stale root (Some name') t
         = Some (lookup_link slab path_lookup has_inode stale root (Some name') t))"
proof -
  let ?f = "\<lambda>name. root @ ''/'' @ name"
  have f: "full_name stale root nm = ?f nm" for nm using assms(2) by (auto simp: full_name_def split: list.splits)
  have sf: "strip_slashes (?f name @ replicate n (CHR ''/'')) = ?f name"
    using strip_slashes_path [of name "root @ ''/''" n] assms(3) by simp
  have add: "BlockAddFileBlock (Some m) (?f name) proc s = Some (0, t)" and len: "length (?f name) < OS_PATH_MAX"
    using assms(5) sf by (auto simp: ControlFileOpWrite_def Let_def fs_ENAMETOOLONG_def fs_EINVAL_def simp del: strip_slashes.simps split: if_splits)
  have "file_inv (xs @ [m]) held e t \<and> bi_filename t = (bi_filename s)(m := ?f name)"
    using AddFileBlock_run [OF assms(1), of "Some m" "?f name" proc] assms(4) add
    by (auto simp: OS_ENOMEM_def OS_EEXIST_def simp del: fun_upd_apply split: if_splits)
  then have t: "file_inv (xs @ [m]) held e t" and nm: "bi_filename t = (bi_filename s)(m := ?f name)" by blast+
  have "m \<notin> set xs" using t by (auto simp: file_inv_def ring_def)
  then have b: "blocked (xs @ [m]) t = insert (?f name) (blocked xs s)" by (auto simp: blocked_def nm)
  obtain u where "BlockWaitOnFile (?f name) None t = Some (Inr m, u)" using wait_sleeps [OF t, of m] by (auto simp: nm)
  then have "InodeOpLookup True slab path_lookup has_inode stale root (Some name) t = Some (LookupSleeps m, u)"
    using len by (simp add: InodeOpLookup_def MakeFullName_def f)
  moreover have "InodeOpLookup True slab path_lookup has_inode stale root (Some name') t
         = Some (lookup_link slab path_lookup has_inode stale root (Some name') t)"
    if "?f name' \<notin> blocked xs s \<and> name' \<noteq> name \<and> length root + length name' + 1 < OS_PATH_MAX" for name'
  proof -
    have "?f name' \<notin> blocked (xs @ [m]) t" using that b by simp
    then have "BlockWaitOnFile (?f name') None t = Some (Inl 0, t)" using WaitOnFile_new [OF t, of "?f name'"] by (metis blocked_def imageI)
    then show ?thesis using that by (simp add: InodeOpLookup_def MakeFullName_def f)
  qed
  ultimately show ?thesis by blast
qed

text \<open>
  A lookup that does not sleep names exactly one inode, the one with the next number, by the full name
  of the file; every other inode keeps its name.  The numbers wrap: after 2 ^ 32 lookups the
  number is that of the root directory, and the lookup renames the root.
\<close>

theorem lookup_names_inode:
  assumes "lookup_link slab path_lookup has_inode stale dirname (Some name) s = (LookupLink ino, t)"
  shows "ino = nextIno s + 1 \<and> (\<exists>i. fs_inodes t ino = Some i \<and> ii_name i = full_name stale dirname name)
    \<and> (\<forall>j. j \<noteq> ino \<longrightarrow> fs_inodes t j = fs_inodes s j) \<and> (nextIno s = 0 \<longrightarrow> ino = 1)
    \<and> (fs_inodes s ino = None \<longrightarrow> link_size ino t = Some 0)"
  using assms
  by (auto simp: lookup_link_def GetNextIno_def Iget_def GetInode_def MakeFullName_def VMBlockReadInode_def link_size_def Let_def
      split: if_splits option.splits sum.splits)

definition fs_init :: fs_state where
  "fs_init = block_state.extend block_init \<lparr>fsRoot = ''/tmp'', nextIno = 2, fs_inodes = Map.empty\<rparr>"

lemma fs_init_inv: "file_inv [] {#} (\<lambda>_. 0) fs_init"
  using block_init_inv by (simp add: file_inv_def fs_init_def block_state.defs ring_single)

theorem control_blocks_lookup_witness:
  "\<exists>t u. ControlFileOpWrite True (Inr ''/tmp/f//'') (Some 5) 7 VMBLOCK_ADD_FILEBLOCK fs_init = Some (0, t)
    \<and> InodeOpLookup True None (\<lambda>_. None) (\<lambda>_. True) True ''/tmp'' (Some ''f'') t = Some (LookupSleeps 5, u)"
proof -
  have l: "(5::nat) \<notin> bi_live fs_init \<and> 5 \<noteq> blockedFiles"
    by (simp add: fs_init_def block_state.defs init_live blockedFiles_def)
  have "strip_slashes ''/tmp/f//'' = ''/tmp/f''" by simp
  then obtain t where t: "ControlFileOpWrite True (Inr ''/tmp/f//'') (Some 5) 7 VMBLOCK_ADD_FILEBLOCK fs_init = Some (0, t)"
    using AddFileBlock_run [OF fs_init_inv, of "Some 5" "''/tmp/f''" 7] l
    by (auto simp: ControlFileOpWrite_def OS_PATH_MAX_def blocked_def Let_def simp del: strip_slashes.simps)
  have p: "''/tmp/f//'' = ''/tmp'' @ ''/'' @ ''f'' @ replicate 2 (CHR ''/'')" by (simp add: numeral_2_eq_2)
  have "\<exists>u. InodeOpLookup True None (\<lambda>_. None) (\<lambda>_. True) True ''/tmp'' (Some ''f'') t = Some (LookupSleeps 5, u)"
    using control_blocks_lookup [OF fs_init_inv _ _ l t [unfolded p]] by simp
  then show ?thesis using t by blast
qed

theorem lookup_names_inode_witness:
  "\<exists>t. lookup_link (Some \<lparr>ii_name = [], ii_nameLen = 0, ii_actualDentry = None\<rparr>) (\<lambda>_. Some 1) (\<lambda>_. True) True ''/tmp'' (Some ''f'') fs_init
     = (LookupLink 3, t) \<and> link_size 3 t = Some 0"
proof -
  let ?slab = "Some \<lparr>ii_name = [], ii_nameLen = 0, ii_actualDentry = None\<rparr>"
  have "fst (lookup_link ?slab (\<lambda>_. Some 1) (\<lambda>_. True) True ''/tmp'' (Some ''f'') fs_init) = LookupLink 3" by code_simp
  then obtain t where t: "lookup_link ?slab (\<lambda>_. Some 1) (\<lambda>_. True) True ''/tmp'' (Some ''f'') fs_init = (LookupLink 3, t)"
    by (metis prod.collapse)
  have "fs_inodes fs_init 3 = None" by code_simp
  then show ?thesis using t lookup_names_inode [OF t] by blast
qed

end
