(* ===== verification/VNetEvent.thy ===== *)
theory VNetEvent
  imports Prelude "HOL-Library.AList"
begin

text \<open>
  The event mechanism of the virtual networks, \<open>vmnet-only/vnetEvent.c\<close>: senders publish events,
  listeners are called back with the events of their classes, and a new listener is first called with
  what each sender last said.  The lists are lists, the objects are in stores with the sets of those
  allocated; a use of a freed object is \<open>None\<close>.  A callback is recorded with its handler, its data and
  the event; it runs while the mechanism's lock is held and \<open>handlerTask\<close> names the calling thread.
  The size in an event's header is that of the whole event.
\<close>

record VNet_EventHeader =
  ev_size :: u32
  ev_senderId :: u32
  ev_eventId :: u32
  ev_classSet :: u32
  ev_type :: u32
  ev_data :: "u8 list"

record VNetEvent_Mechanism =
  em_handlerTask :: "nat option"
  em_refCount :: u32
  em_senderId :: u32
  em_senders :: "ptr list"
  em_listeners :: "ptr list"

record VNetEvent_Sender =
  es_m :: ptr
  es_senderId :: u32
  es_events :: "VNet_EventHeader list"

record VNetEvent_Listener =
  el_m :: ptr
  el_handler :: ptr
  el_data :: ptr
  el_classMask :: u32

record event_state =
  em_mem :: "ptr \<Rightarrow> VNetEvent_Mechanism"
  em_live :: "ptr set"
  es_mem :: "ptr \<Rightarrow> VNetEvent_Sender"
  es_live :: "ptr set"
  el_mem :: "ptr \<Rightarrow> VNetEvent_Listener"
  el_live :: "ptr set"
  calls :: "(ptr \<times> ptr \<times> VNet_EventHeader) list"

definition VNetKernel_EBUSY :: int where "VNetKernel_EBUSY = - 16"
definition VNetKernel_EINVAL :: int where "VNetKernel_EINVAL = - 22"
definition VNetKernel_ENOMEM :: int where "VNetKernel_ENOMEM = - 12"

definition upd_m :: "ptr \<Rightarrow> (VNetEvent_Mechanism \<Rightarrow> VNetEvent_Mechanism) \<Rightarrow> 'a event_state_scheme \<Rightarrow> 'a event_state_scheme" where
  "upd_m m f s = s\<lparr>em_mem := (em_mem s)(m := f (em_mem s m))\<rparr>"

definition upd_s :: "ptr \<Rightarrow> (VNetEvent_Sender \<Rightarrow> VNetEvent_Sender) \<Rightarrow> 'a event_state_scheme \<Rightarrow> 'a event_state_scheme" where
  "upd_s p f s = s\<lparr>es_mem := (es_mem s)(p := f (es_mem s p))\<rparr>"

section \<open>Mechanisms\<close>

definition VNetEvent_CreateMechanism :: "ptr option \<Rightarrow> 'a event_state_scheme \<Rightarrow> (int \<times> ptr option) \<times> 'a event_state_scheme" where
  "VNetEvent_CreateMechanism mem s =
     (case mem of None \<Rightarrow> ((VNetKernel_ENOMEM, None), s)
      | Some t \<Rightarrow> ((0, Some t), s\<lparr>em_live := insert t (em_live s), em_mem := (em_mem s)(t :=
          \<lparr>em_handlerTask = None, em_refCount = 1, em_senderId = 0, em_senders = [], em_listeners = []\<rparr>)\<rparr>))"

definition VNetEvent_DestroyMechanism :: "nat \<Rightarrow> ptr \<Rightarrow> 'a event_state_scheme \<Rightarrow> (int \<times> 'a event_state_scheme) option" where
  "VNetEvent_DestroyMechanism cur m s =
     (if m \<notin> em_live s then None
      else if em_handlerTask (em_mem s m) = Some cur then Some (VNetKernel_EBUSY, s)
      else let refCount = em_refCount (em_mem s m) - 1;
               s1 = upd_m m (\<lambda>x. x\<lparr>em_refCount := refCount\<rparr>) s
           in Some (0, if refCount = 0 then s1\<lparr>em_live := em_live s1 - {m}\<rparr> else s1))"

section \<open>Senders\<close>

definition VNetEvent_CreateSender :: "nat \<Rightarrow> ptr option \<Rightarrow> ptr \<Rightarrow> 'a event_state_scheme \<Rightarrow> ((int \<times> ptr option) \<times> 'a event_state_scheme) option" where
  "VNetEvent_CreateSender cur mem m s =
     (if m \<notin> em_live s then None
      else if em_handlerTask (em_mem s m) = Some cur then Some ((VNetKernel_EBUSY, None), s)
      else case mem of None \<Rightarrow> Some ((VNetKernel_ENOMEM, None), s)
        | Some t \<Rightarrow> Some ((0, Some t),
            upd_m m (\<lambda>x. x\<lparr>em_refCount := em_refCount x + 1, em_senderId := em_senderId x + 1, em_senders := t # em_senders x\<rparr>)
              (s\<lparr>es_live := insert t (es_live s), es_mem := (es_mem s)(t :=
                \<lparr>es_m = m, es_senderId = em_senderId (em_mem s m), es_events = []\<rparr>)\<rparr>)))"

definition VNetEvent_DestroySender :: "nat \<Rightarrow> ptr \<Rightarrow> 'a event_state_scheme \<Rightarrow> (int \<times> 'a event_state_scheme) option" where
  "VNetEvent_DestroySender cur p s =
     (if p \<notin> es_live s then None
      else let m = es_m (es_mem s p) in
        if m \<notin> em_live s then None
        else if em_handlerTask (em_mem s m) = Some cur then Some (VNetKernel_EBUSY, s)
        else if p \<notin> set (em_senders (em_mem s m)) then Some (VNetKernel_EINVAL, s)
        else map_option (\<lambda>(_, s2). (0, s2\<lparr>es_live := es_live s2 - {p}\<rparr>))
               (VNetEvent_DestroyMechanism cur m (upd_m m (\<lambda>x. x\<lparr>em_senders := remove1 p (em_senders x)\<rparr>) s)))"

definition VNetEvent_GetSenderId :: "ptr \<Rightarrow> 'a event_state_scheme \<Rightarrow> (int \<times> u32) option" where
  "VNetEvent_GetSenderId p s = (if p \<in> es_live s then Some (0, es_senderId (es_mem s p)) else None)"

section \<open>Sending\<close>

definition same_event :: "VNet_EventHeader \<Rightarrow> VNet_EventHeader \<Rightarrow> bool" where
  "same_event e p \<longleftrightarrow> ev_eventId p = ev_eventId e \<and> ev_type p = ev_type e"

text \<open>
  The search for the event that is replaced, and the list after it was found: overwritten in its place, or,
  when its size differs, taken out.
\<close>

fun overwrite_event :: "VNet_EventHeader \<Rightarrow> VNet_EventHeader list \<Rightarrow> VNet_EventHeader list" where
  "overwrite_event e [] = []"
| "overwrite_event e (p # ps) = (if same_event e p then e # ps else p # overwrite_event e ps)"

fun unlink_event :: "VNet_EventHeader \<Rightarrow> VNet_EventHeader list \<Rightarrow> VNet_EventHeader list" where
  "unlink_event e [] = []"
| "unlink_event e (p # ps) = (if same_event e p then ps else p # unlink_event e ps)"

text \<open>The events of the sender after a send; \<open>False\<close>: there was no memory for a new node.\<close>

definition store_event :: "bool \<Rightarrow> VNet_EventHeader \<Rightarrow> VNet_EventHeader list \<Rightarrow> bool \<times> VNet_EventHeader list" where
  "store_event mem e es =
     (let (found, es1) = (case find (same_event e) es of None \<Rightarrow> (False, es)
            | Some p \<Rightarrow> if ev_size p \<noteq> ev_size e then (False, unlink_event e es) else (True, es))
      in if found then (True, overwrite_event e es1)
         else if \<not> mem then (False, es1) else (True, e # es1))"

definition call_listeners :: "ptr \<Rightarrow> VNet_EventHeader \<Rightarrow> 'a event_state_scheme \<Rightarrow> (ptr \<times> ptr \<times> VNet_EventHeader) list" where
  "call_listeners m e s = map (\<lambda>l. (el_handler (el_mem s l), el_data (el_mem s l), e))
     (filter (\<lambda>l. ev_classSet e AND el_classMask (el_mem s l) \<noteq> 0) (em_listeners (em_mem s m)))"

definition VNetEvent_Send :: "nat \<Rightarrow> bool \<Rightarrow> ptr \<Rightarrow> VNet_EventHeader \<Rightarrow> 'a event_state_scheme \<Rightarrow> (int \<times> 'a event_state_scheme) option" where
  "VNetEvent_Send cur mem p e s =
     (if p \<notin> es_live s then None
      else let m = es_m (es_mem s p) in
        if m \<notin> em_live s then None
        else if em_handlerTask (em_mem s m) = Some cur then Some (VNetKernel_EBUSY, s)
        else if es_senderId (es_mem s p) \<noteq> ev_senderId e then Some (VNetKernel_EINVAL, s)
        else
          let s1 = upd_m m (\<lambda>x. x\<lparr>em_handlerTask := Some cur\<rparr>) s;
              (ok, es) = store_event mem e (es_events (es_mem s1 p));
              s2 = upd_s p (\<lambda>x. x\<lparr>es_events := es\<rparr>) s1
          in if \<not> ok then Some (VNetKernel_ENOMEM, upd_m m (\<lambda>x. x\<lparr>em_handlerTask := None\<rparr>) s2)
             else if \<not> set (em_listeners (em_mem s m)) \<subseteq> el_live s then None
             else Some (0, upd_m m (\<lambda>x. x\<lparr>em_handlerTask := None\<rparr>) (s2\<lparr>calls := calls s2 @ call_listeners m e s2\<rparr>)))"

section \<open>Listeners\<close>

text \<open>What a new listener is called with: the events of each sender that are of its classes.\<close>

definition replay :: "ptr \<Rightarrow> u32 \<Rightarrow> 'a event_state_scheme \<Rightarrow> VNet_EventHeader list" where
  "replay m classMask s = concat (map (\<lambda>p. filter (\<lambda>e. ev_classSet e AND classMask \<noteq> 0) (es_events (es_mem s p))) (em_senders (em_mem s m)))"

definition VNetEvent_CreateListener ::
  "nat \<Rightarrow> ptr option \<Rightarrow> ptr \<Rightarrow> ptr \<Rightarrow> ptr \<Rightarrow> u32 \<Rightarrow> 'a event_state_scheme \<Rightarrow> ((int \<times> ptr option) \<times> 'a event_state_scheme) option" where
  "VNetEvent_CreateListener cur mem m h data classMask s =
     (if m \<notin> em_live s then None
      else if em_handlerTask (em_mem s m) = Some cur then Some ((VNetKernel_EBUSY, None), s)
      else case mem of None \<Rightarrow> Some ((VNetKernel_ENOMEM, None), s)
        | Some t \<Rightarrow>
            if \<not> set (em_senders (em_mem s m)) \<subseteq> es_live s then None
            else let s1 = upd_m m (\<lambda>x. x\<lparr>em_handlerTask := Some cur, em_refCount := em_refCount x + 1, em_listeners := t # em_listeners x\<rparr>)
                   (s\<lparr>el_live := insert t (el_live s), el_mem := (el_mem s)(t :=
                      \<lparr>el_m = m, el_handler = h, el_data = data, el_classMask = classMask\<rparr>)\<rparr>);
                   s2 = s1\<lparr>calls := calls s1 @ map (\<lambda>e. (h, data, e)) (replay m classMask s1)\<rparr>
              in Some ((0, Some t), upd_m m (\<lambda>x. x\<lparr>em_handlerTask := None\<rparr>) s2))"

definition VNetEvent_DestroyListener :: "nat \<Rightarrow> ptr \<Rightarrow> 'a event_state_scheme \<Rightarrow> (int \<times> 'a event_state_scheme) option" where
  "VNetEvent_DestroyListener cur l s =
     (if l \<notin> el_live s then None
      else let m = el_m (el_mem s l) in
        if m \<notin> em_live s then None
        else if em_handlerTask (em_mem s m) = Some cur then Some (VNetKernel_EBUSY, s)
        else if l \<notin> set (em_listeners (em_mem s m)) then Some (VNetKernel_EINVAL, s)
        else map_option (\<lambda>(_, s2). (0, s2\<lparr>el_live := el_live s2 - {l}\<rparr>))
               (VNetEvent_DestroyMechanism cur m (upd_m m (\<lambda>x. x\<lparr>em_listeners := remove1 l (em_listeners x)\<rparr>) s)))"

end
