(* ===== verification/VNetEventProps.thy ===== *)
theory VNetEventProps
  imports VNetEvent
begin

text \<open>
  The mechanism lives as long as its owner, a sender or a listener needs it; and a sender's events are a
  map from event number and type to the last event sent, with which every new listener is called.
\<close>

section \<open>The events of a sender are a map\<close>

definition event_key :: "VNet_EventHeader \<Rightarrow> u32 \<times> u32" where
  "event_key e = (ev_eventId e, ev_type e)"

definition last_sent :: "VNet_EventHeader list \<Rightarrow> u32 \<times> u32 \<Rightarrow> VNet_EventHeader option" where
  "last_sent es = map_of (map (\<lambda>e. (event_key e, e)) es)"

lemma same_event_key: "same_event e p \<longleftrightarrow> event_key p = event_key e"
  by (auto simp: same_event_def event_key_def)

lemma last_sent_Cons: "last_sent (p # ps) = (last_sent ps)(event_key p \<mapsto> p)"
  by (simp add: last_sent_def)

lemma last_sent_None: "last_sent es k = None \<longleftrightarrow> k \<notin> event_key ` set es"
  by (simp add: last_sent_def map_of_eq_None_iff image_image)

lemma find_same_event: "find (same_event e) es = last_sent es (event_key e)"
  by (induction es) (auto simp: last_sent_def same_event_key)

lemma last_sent_key: "last_sent es k = Some p \<Longrightarrow> event_key p = k \<and> p \<in> set es"
  by (auto simp: last_sent_def dest: map_of_SomeD)

lemma overwrite_event_keys: "map event_key (overwrite_event e es) = map event_key es"
  by (induction es) (auto simp: same_event_key)

lemma overwrite_event_map: "event_key e \<in> event_key ` set es \<Longrightarrow> last_sent (overwrite_event e es) = (last_sent es)(event_key e \<mapsto> e)"
proof (induction es)
  case (Cons p ps)
  show ?case
  proof (cases "event_key p = event_key e")
    case False
    then have "event_key e \<in> event_key ` set ps" using Cons.prems by auto
    then have "last_sent (overwrite_event e ps) = (last_sent ps)(event_key e \<mapsto> e)" by (rule Cons.IH)
    then show ?thesis using False by (simp add: last_sent_Cons same_event_key fun_upd_twist [OF False] del: fun_upd_apply)
  qed (simp add: last_sent_Cons same_event_key del: fun_upd_apply)
qed simp

lemma unlink_event_map:
  "distinct (map event_key es) \<Longrightarrow> last_sent (unlink_event e es) = (last_sent es)(event_key e := None)
     \<and> distinct (map event_key (unlink_event e es)) \<and> set (unlink_event e es) \<subseteq> set es"
proof (induction es)
  case Nil
  then show ?case by (simp add: last_sent_def fun_eq_iff)
next
  case (Cons p ps)
  show ?case
  proof (cases "event_key p = event_key e")
    case True
    then have "last_sent ps (event_key e) = None" using Cons.prems by (simp add: last_sent_None)
    then show ?thesis using True Cons.prems by (auto simp: last_sent_Cons same_event_key fun_upd_idem)
  next
    case False
    have "last_sent (unlink_event e ps) = (last_sent ps)(event_key e := None)" "distinct (map event_key (unlink_event e ps))"
      "set (unlink_event e ps) \<subseteq> set ps" using Cons.IH Cons.prems by auto
    then show ?thesis using False Cons.prems by (auto simp: last_sent_Cons same_event_key fun_upd_twist [OF False] simp del: fun_upd_apply)
  qed
qed

lemma store_event_map:
  assumes "distinct (map event_key es)"
  shows "distinct (map event_key (snd (store_event mem e es)))
    \<and> last_sent (snd (store_event mem e es)) =
       (if fst (store_event mem e es) then (last_sent es)(event_key e \<mapsto> e)
        else (last_sent es)(event_key e := None))
    \<and> (\<not> fst (store_event mem e es) \<longleftrightarrow>
         \<not> mem \<and> (case last_sent es (event_key e) of None \<Rightarrow> True | Some p \<Rightarrow> ev_size p \<noteq> ev_size e))"
proof (cases "last_sent es (event_key e)")
  case None
  then have "event_key e \<notin> event_key ` set es" by (simp add: last_sent_None)
  then show ?thesis using assms None by (auto simp: store_event_def find_same_event last_sent_Cons)
next
  case (Some p)
  then have i: "event_key e \<in> event_key ` set es" using last_sent_key [OF Some] by (metis imageI)
  show ?thesis
  proof (cases "ev_size p = ev_size e")
    case True
    then show ?thesis using Some assms i by (simp add: store_event_def find_same_event overwrite_event_keys overwrite_event_map)
  next
    case False
    note u = unlink_event_map [OF assms, of e]
    then have "event_key e \<notin> event_key ` set (unlink_event e es)" by (metis fun_upd_same last_sent_None)
    then show ?thesis using Some False u by (auto simp: store_event_def find_same_event last_sent_Cons)
  qed
qed

section \<open>The invariant\<close>

text \<open>
  A mechanism's count is the number of those that need it: its owner, its senders and its listeners; and
  \<open>x m\<close> references that an operation in progress still has to give up.
\<close>

definition holders_of :: "ptr set \<Rightarrow> 'a event_state_scheme \<Rightarrow> ptr \<Rightarrow> nat" where
  "holders_of owned s m = of_bool (m \<in> owned) + length (em_senders (em_mem s m)) + length (em_listeners (em_mem s m))"

definition mech_ok :: "ptr set \<Rightarrow> (ptr \<Rightarrow> nat) \<Rightarrow> 'a event_state_scheme \<Rightarrow> ptr \<Rightarrow> bool" where
  "mech_ok owned x s m \<longleftrightarrow> em_handlerTask (em_mem s m) = None
     \<and> distinct (em_senders (em_mem s m)) \<and> set (em_senders (em_mem s m)) = {p \<in> es_live s. es_m (es_mem s p) = m}
     \<and> distinct (em_listeners (em_mem s m)) \<and> set (em_listeners (em_mem s m)) = {l \<in> el_live s. el_m (el_mem s l) = m}
     \<and> em_refCount (em_mem s m) = of_nat (holders_of owned s m + x m)
     \<and> 0 < holders_of owned s m + x m \<and> holders_of owned s m + x m < 2 ^ 32"

definition event_inv :: "ptr set \<Rightarrow> (ptr \<Rightarrow> nat) \<Rightarrow> 'a event_state_scheme \<Rightarrow> bool" where
  "event_inv owned x s \<longleftrightarrow> owned \<subseteq> em_live s \<and> (\<forall>m \<in> em_live s. mech_ok owned x s m)
     \<and> (\<forall>p \<in> es_live s. es_m (es_mem s p) \<in> em_live s \<and> distinct (map event_key (es_events (es_mem s p))))
     \<and> (\<forall>l \<in> el_live s. el_m (el_mem s l) \<in> em_live s)"

lemma of_nat_u32_zero: "n < 2 ^ 32 \<Longrightarrow> (of_nat n :: u32) = 0 \<longleftrightarrow> n = 0"
  by (auto simp: word_of_nat_eq_0_iff dest: dvd_imp_le)

lemma event_inv_mech: "event_inv owned x s \<Longrightarrow> m \<in> em_live s \<Longrightarrow> mech_ok owned x s m"
  by (simp add: event_inv_def)

lemma no_handler: "event_inv owned x s \<Longrightarrow> m \<in> em_live s \<Longrightarrow> em_handlerTask (em_mem s m) = None"
  by (simp add: event_inv_def mech_ok_def)

text \<open>Fields that an operation on a mechanism does not write.\<close>

definition same_objects :: "'a event_state_scheme \<Rightarrow> 'a event_state_scheme \<Rightarrow> bool" where
  "same_objects s t \<longleftrightarrow> es_mem t = es_mem s \<and> es_live t = es_live s \<and> el_mem t = el_mem s \<and> el_live t = el_live s \<and> calls t = calls s"

lemma DestroyMechanism_run:
  assumes inv: "event_inv owned x s" and m: "m \<in> em_live s" "x m = 1"
  shows "\<exists>t. VNetEvent_DestroyMechanism cur m s = Some (0, t) \<and> event_inv owned (x(m := 0)) t \<and> same_objects s t
    \<and> em_live t = (if holders_of owned s m = 0 then em_live s - {m} else em_live s)"
proof -
  have ok: "mech_ok owned x s m" by (rule event_inv_mech [OF inv m(1)])
  let ?s1 = "upd_m m (\<lambda>x. x\<lparr>em_refCount := em_refCount (em_mem s m) - 1\<rparr>) s"
  have rc: "em_refCount (em_mem s m) - 1 = of_nat (holders_of owned s m)" using ok m(2) by (simp add: mech_ok_def)
  have z: "em_refCount (em_mem s m) - 1 = 0 \<longleftrightarrow> holders_of owned s m = 0"
    unfolding rc using ok by (intro of_nat_u32_zero) (simp add: mech_ok_def)
  have other: "mech_ok owned (x(m := 0)) t n" if "n \<in> em_live s" "n \<noteq> m" "em_mem t n = em_mem s n" "same_objects s t" for n t
    using event_inv_mech [OF inv that(1)] that by (simp add: mech_ok_def holders_of_def same_objects_def)
  show ?thesis
  proof (cases "holders_of owned s m = 0")
    case True
    let ?t = "?s1\<lparr>em_live := em_live s - {m}\<rparr>"
    have e: "m \<notin> owned" "\<forall>p \<in> es_live s. es_m (es_mem s p) \<noteq> m" "\<forall>l \<in> el_live s. el_m (el_mem s l) \<noteq> m"
      using True ok unfolding mech_ok_def holders_of_def by auto
    have "event_inv owned (x(m := 0)) ?t"
      using inv e other [of _ ?t] by (auto simp: event_inv_def upd_m_def same_objects_def)
    then show ?thesis using True z m no_handler [OF inv m(1)]
      by (simp add: VNetEvent_DestroyMechanism_def same_objects_def upd_m_def)
  next
    case False
    have "mech_ok owned (x(m := 0)) ?s1 m" using ok False by (auto simp: mech_ok_def holders_of_def upd_m_def m(2))
    moreover have "same_objects s ?s1" by (simp add: same_objects_def upd_m_def)
    ultimately have "event_inv owned (x(m := 0)) ?s1"
      using inv other [of _ ?s1] by (auto simp: event_inv_def upd_m_def)
    then show ?thesis using False z m no_handler [OF inv m(1)] \<open>same_objects s ?s1\<close>
      by (simp add: VNetEvent_DestroyMechanism_def upd_m_def Let_def)
  qed
qed

lemma DestroyMechanism_commute:
  "VNetEvent_DestroyMechanism cur m (s\<lparr>es_live := a\<rparr>) = map_option (\<lambda>(r, t). (r, t\<lparr>es_live := a\<rparr>)) (VNetEvent_DestroyMechanism cur m s)"
  "VNetEvent_DestroyMechanism cur m (s\<lparr>el_live := b\<rparr>) = map_option (\<lambda>(r, t). (r, t\<lparr>el_live := b\<rparr>)) (VNetEvent_DestroyMechanism cur m s)"
  by (simp_all add: VNetEvent_DestroyMechanism_def upd_m_def Let_def)

section \<open>Every operation returns and keeps the invariant\<close>

lemma handler_idem [simp]: "em_handlerTask x = None \<Longrightarrow> x\<lparr>em_handlerTask := None\<rparr> = x"
  by simp

text \<open>No reference is being given up.\<close>

abbreviation quiet :: "ptr \<Rightarrow> nat" where "quiet \<equiv> \<lambda>_. 0"

lemma CreateMechanism_inv:
  assumes inv: "event_inv owned quiet s" and m: "\<forall>t. mem = Some t \<longrightarrow> t \<notin> em_live s"
    and r: "VNetEvent_CreateMechanism mem s = ((r, out), t)"
  shows "(case mem of None \<Rightarrow> r = VNetKernel_ENOMEM \<and> t = s | Some m \<Rightarrow> r = 0 \<and> out = Some m \<and> event_inv (insert m owned) quiet t)"
proof (cases mem)
  case None
  then show ?thesis using r by (simp add: VNetEvent_CreateMechanism_def)
next
  case (Some m)
  have f: "m \<notin> em_live s" using assms Some by simp
  then have e: "m \<notin> owned" "\<forall>p \<in> es_live s. es_m (es_mem s p) \<noteq> m" "\<forall>l \<in> el_live s. el_m (el_mem s l) \<noteq> m"
    using inv by (auto simp: event_inv_def)
  have t: "t = s\<lparr>em_live := insert m (em_live s), em_mem := (em_mem s)(m :=
          \<lparr>em_handlerTask = None, em_refCount = 1, em_senderId = 0, em_senders = [], em_listeners = []\<rparr>)\<rparr>" "r = 0" "out = Some m"
    using r Some by (auto simp: VNetEvent_CreateMechanism_def)
  have "mech_ok (insert m owned) quiet t n" if "n \<in> em_live t" for n
  proof (cases "n = m")
    case True
    then show ?thesis using e by (auto simp: mech_ok_def holders_of_def t)
  next
    case False
    then show ?thesis using event_inv_mech [OF inv, of n] that by (auto simp: mech_ok_def holders_of_def t)
  qed
  then have "event_inv (insert m owned) quiet t" using inv by (auto simp: event_inv_def t)
  then show ?thesis using Some t by simp
qed

lemma Owner_destroys_inv:
  assumes inv: "event_inv owned quiet s" and m: "m \<in> owned"
  shows "\<exists>t. VNetEvent_DestroyMechanism cur m s = Some (0, t) \<and> event_inv (owned - {m}) quiet t"
proof -
  have l: "m \<in> em_live s" using assms by (auto simp: event_inv_def)
  have "event_inv (owned - {m}) (quiet(m := 1)) s"
  proof -
    have "mech_ok (owned - {m}) (quiet(m := 1)) s n" if "n \<in> em_live s" for n
      using event_inv_mech [OF inv that] m by (cases "n = m") (simp_all add: mech_ok_def holders_of_def)
    then show ?thesis using inv by (auto simp: event_inv_def)
  qed
  from DestroyMechanism_run [OF this l, of cur] show ?thesis by (auto simp: fun_upd_idem)
qed

lemma CreateSender_inv:
  assumes inv: "event_inv owned quiet s" and m: "m \<in> em_live s" and mem: "\<forall>p. mem = Some p \<longrightarrow> p \<notin> es_live s"
    and room: "holders_of owned s m + 1 < 2 ^ 32"
  shows "\<exists>r out t. VNetEvent_CreateSender cur mem m s = Some ((r, out), t)
    \<and> (case mem of None \<Rightarrow> r = VNetKernel_ENOMEM \<and> t = s
       | Some p \<Rightarrow> r = 0 \<and> out = Some p \<and> event_inv owned quiet t \<and> es_live t = insert p (es_live s) \<and> es_events (es_mem t p) = []
           \<and> (\<forall>q. q \<noteq> p \<longrightarrow> es_mem t q = es_mem s q) \<and> em_live t = em_live s \<and> es_m (es_mem t p) = m)"
proof (cases mem)
  case None
  then show ?thesis using m no_handler [OF inv m] by (simp add: VNetEvent_CreateSender_def)
next
  case (Some p)
  have f: "p \<notin> es_live s" using mem Some by simp
  let ?t = "upd_m m (\<lambda>x. x\<lparr>em_refCount := em_refCount x + 1, em_senderId := em_senderId x + 1, em_senders := p # em_senders x\<rparr>)
              (s\<lparr>es_live := insert p (es_live s), es_mem := (es_mem s)(p := \<lparr>es_m = m, es_senderId = em_senderId (em_mem s m), es_events = []\<rparr>)\<rparr>)"
  have run: "VNetEvent_CreateSender cur mem m s = Some ((0, Some p), ?t)"
    using m no_handler [OF inv m] Some by (simp add: VNetEvent_CreateSender_def)
  have "mech_ok owned quiet ?t n" if "n \<in> em_live s" for n
  proof (cases "n = m")
    case True
    then show ?thesis using event_inv_mech [OF inv m] f room
      by (auto simp: mech_ok_def holders_of_def upd_m_def add.commute)
  next
    case False
    then have "{q \<in> es_live ?t. es_m (es_mem ?t q) = n} = {q \<in> es_live s. es_m (es_mem s q) = n}" using f by (auto simp: upd_m_def)
    then show ?thesis using event_inv_mech [OF inv that] False unfolding mech_ok_def holders_of_def by (simp add: upd_m_def)
  qed
  then have "event_inv owned quiet ?t" using inv m by (auto simp: event_inv_def upd_m_def)
  then show ?thesis using run Some by (simp add: upd_m_def)
qed

lemma DestroySender_inv:
  assumes inv: "event_inv owned quiet s" and p: "p \<in> es_live s"
  shows "\<exists>t. VNetEvent_DestroySender cur p s = Some (0, t) \<and> event_inv owned quiet t \<and> es_live t = es_live s - {p}
    \<and> es_mem t = es_mem s \<and> el_live t = el_live s \<and> el_mem t = el_mem s \<and> calls t = calls s
    \<and> em_live t = (if holders_of owned s (es_m (es_mem s p)) = 1 then em_live s - {es_m (es_mem s p)} else em_live s)"
proof -
  define m where "m = es_m (es_mem s p)"
  have m: "m \<in> em_live s" using inv p by (auto simp: event_inv_def m_def)
  note ok = event_inv_mech [OF inv m]
  have pm: "p \<in> set (em_senders (em_mem s m))" using ok p by (simp add: mech_ok_def m_def)
  let ?s1 = "upd_m m (\<lambda>x. x\<lparr>em_senders := remove1 p (em_senders x)\<rparr>) s"
  let ?s2 = "?s1\<lparr>es_live := es_live s - {p}\<rparr>"
  have h: "holders_of owned ?s2 m + 1 = holders_of owned s m"
    using pm by (simp add: holders_of_def upd_m_def length_remove1) (metis Suc_pred length_pos_if_in_set)
  have "mech_ok owned (quiet(m := 1)) ?s2 n" if "n \<in> em_live s" for n
  proof (cases "n = m")
    case True
    have "{q \<in> es_live s - {p}. es_m (es_mem s q) = m} = {q \<in> es_live s. es_m (es_mem s q) = m} - {p}" by auto
    then show ?thesis using ok True h unfolding mech_ok_def by (simp add: upd_m_def flip: h)
  next
    case False
    then have "{q \<in> es_live ?s2. es_m (es_mem ?s2 q) = n} = {q \<in> es_live s. es_m (es_mem s q) = n}" by (auto simp: upd_m_def m_def)
    then show ?thesis using event_inv_mech [OF inv that] False unfolding mech_ok_def holders_of_def by (simp add: upd_m_def)
  qed
  then have i2: "event_inv owned (quiet(m := 1)) ?s2" using inv by (auto simp: event_inv_def upd_m_def)
  obtain t where t: "VNetEvent_DestroyMechanism cur m ?s2 = Some (0, t)" "event_inv owned quiet t" "same_objects ?s2 t"
    "em_live t = (if holders_of owned ?s2 m = 0 then em_live s - {m} else em_live s)"
    using DestroyMechanism_run [OF i2, of m cur] m by (auto simp: fun_upd_idem upd_m_def)
  obtain t' where t': "VNetEvent_DestroyMechanism cur m ?s1 = Some (0, t')" "t = t'\<lparr>es_live := es_live s - {p}\<rparr>"
    using t(1) unfolding DestroyMechanism_commute(1) by auto
  have le: "es_live t' = es_live s" using t'(1) by (auto simp: VNetEvent_DestroyMechanism_def upd_m_def Let_def split: if_splits)
  have "VNetEvent_DestroySender cur p s = Some (0, t)"
    using p m pm no_handler [OF inv m] t' le by (simp add: VNetEvent_DestroySender_def m_def [symmetric] Let_def)
  then show ?thesis using t h unfolding m_def [symmetric] by (auto simp: same_objects_def upd_m_def)
qed

lemma DestroyListener_inv:
  assumes inv: "event_inv owned quiet s" and l: "l \<in> el_live s"
  shows "\<exists>t. VNetEvent_DestroyListener cur l s = Some (0, t) \<and> event_inv owned quiet t \<and> el_live t = el_live s - {l}
    \<and> es_mem t = es_mem s \<and> es_live t = es_live s \<and> el_mem t = el_mem s \<and> calls t = calls s
    \<and> em_live t = (if holders_of owned s (el_m (el_mem s l)) = 1 then em_live s - {el_m (el_mem s l)} else em_live s)"
proof -
  define m where "m = el_m (el_mem s l)"
  have m: "m \<in> em_live s" using inv l by (auto simp: event_inv_def m_def)
  note ok = event_inv_mech [OF inv m]
  have lm: "l \<in> set (em_listeners (em_mem s m))" using ok l by (simp add: mech_ok_def m_def)
  let ?s1 = "upd_m m (\<lambda>x. x\<lparr>em_listeners := remove1 l (em_listeners x)\<rparr>) s"
  let ?s2 = "?s1\<lparr>el_live := el_live s - {l}\<rparr>"
  have h: "holders_of owned ?s2 m + 1 = holders_of owned s m"
    using lm by (simp add: holders_of_def upd_m_def length_remove1) (metis Suc_pred length_pos_if_in_set)
  have "mech_ok owned (quiet(m := 1)) ?s2 n" if "n \<in> em_live s" for n
  proof (cases "n = m")
    case True
    have "{q \<in> el_live s - {l}. el_m (el_mem s q) = m} = {q \<in> el_live s. el_m (el_mem s q) = m} - {l}" by auto
    then show ?thesis using ok True h unfolding mech_ok_def by (simp add: upd_m_def flip: h)
  next
    case False
    then have "{q \<in> el_live ?s2. el_m (el_mem ?s2 q) = n} = {q \<in> el_live s. el_m (el_mem s q) = n}" by (auto simp: upd_m_def m_def)
    then show ?thesis using event_inv_mech [OF inv that] False unfolding mech_ok_def holders_of_def by (simp add: upd_m_def)
  qed
  then have i2: "event_inv owned (quiet(m := 1)) ?s2" using inv by (auto simp: event_inv_def upd_m_def)
  obtain t where t: "VNetEvent_DestroyMechanism cur m ?s2 = Some (0, t)" "event_inv owned quiet t" "same_objects ?s2 t"
    "em_live t = (if holders_of owned ?s2 m = 0 then em_live s - {m} else em_live s)"
    using DestroyMechanism_run [OF i2, of m cur] m by (auto simp: fun_upd_idem upd_m_def)
  obtain t' where t': "VNetEvent_DestroyMechanism cur m ?s1 = Some (0, t')" "t = t'\<lparr>el_live := el_live s - {l}\<rparr>"
    using t(1) unfolding DestroyMechanism_commute(2) by auto
  have le: "el_live t' = el_live s" using t'(1) by (auto simp: VNetEvent_DestroyMechanism_def upd_m_def Let_def split: if_splits)
  have "VNetEvent_DestroyListener cur l s = Some (0, t)"
    using l m lm no_handler [OF inv m] t' le by (simp add: VNetEvent_DestroyListener_def m_def [symmetric] Let_def)
  then show ?thesis using t h unfolding m_def [symmetric] by (auto simp: same_objects_def upd_m_def)
qed

lemma CreateListener_inv:
  assumes inv: "event_inv owned quiet s" and m: "m \<in> em_live s" and mem: "l \<notin> el_live s"
    and room: "holders_of owned s m + 1 < 2 ^ 32"
  shows "\<exists>t. VNetEvent_CreateListener cur (Some l) m h data cmask s = Some ((0, Some l), t)
     \<and> event_inv owned quiet t \<and> el_live t = insert l (el_live s) \<and> calls t = calls s @ map (\<lambda>e. (h, data, e)) (replay m cmask s)
     \<and> es_mem t = es_mem s \<and> es_live t = es_live s \<and> em_live t = em_live s"
proof -
  let ?l = "\<lparr>el_m = m, el_handler = h, el_data = data, el_classMask = cmask\<rparr>"
  have sub: "set (em_senders (em_mem s m)) \<subseteq> es_live s" using event_inv_mech [OF inv m] by (auto simp: mech_ok_def)
  let ?t = "upd_m m (\<lambda>x. x\<lparr>em_refCount := em_refCount x + 1, em_listeners := l # em_listeners x\<rparr>)
              (s\<lparr>el_live := insert l (el_live s), el_mem := (el_mem s)(l := ?l), calls := calls s @ map (\<lambda>e. (h, data, e)) (replay m cmask s)\<rparr>)"
  have rp: "replay m cmask (upd_m m (\<lambda>x. x\<lparr>em_handlerTask := Some cur, em_refCount := em_refCount x + 1, em_listeners := l # em_listeners x\<rparr>)
                   (s\<lparr>el_live := insert l (el_live s), el_mem := (el_mem s)(l := ?l)\<rparr>)) = replay m cmask s"
    by (simp add: replay_def upd_m_def)
  have run: "VNetEvent_CreateListener cur (Some l) m h data cmask s = Some ((0, Some l), ?t)"
    using m no_handler [OF inv m] sub rp by (simp add: VNetEvent_CreateListener_def Let_def upd_m_def)
  have "mech_ok owned quiet ?t n" if "n \<in> em_live s" for n
  proof (cases "n = m")
    case True
    then show ?thesis using event_inv_mech [OF inv m] mem room
      by (auto simp: mech_ok_def holders_of_def upd_m_def add.commute)
  next
    case False
    then have "{q \<in> el_live ?t. el_m (el_mem ?t q) = n} = {q \<in> el_live s. el_m (el_mem s q) = n}" using mem by (auto simp: upd_m_def)
    then show ?thesis using event_inv_mech [OF inv that] False unfolding mech_ok_def holders_of_def by (simp add: upd_m_def)
  qed
  then have "event_inv owned quiet ?t" using inv m by (auto simp: event_inv_def upd_m_def)
  then show ?thesis using run by (simp add: upd_m_def)
qed

lemma Send_inv:
  assumes inv: "event_inv owned quiet s" and p: "p \<in> es_live s" and id: "ev_senderId e = es_senderId (es_mem s p)"
  shows "\<exists>r t. VNetEvent_Send cur mem p e s = Some (r, t) \<and> event_inv owned quiet t
     \<and> r = (if fst (store_event mem e (es_events (es_mem s p))) then 0 else VNetKernel_ENOMEM)
     \<and> es_mem t = (es_mem s)(p := (es_mem s p)\<lparr>es_events := snd (store_event mem e (es_events (es_mem s p)))\<rparr>)
     \<and> calls t = calls s @ (if r = 0 then call_listeners (es_m (es_mem s p)) e s else [])
     \<and> em_live t = em_live s \<and> es_live t = es_live s \<and> el_live t = el_live s \<and> el_mem t = el_mem s
     \<and> em_senders (em_mem t (es_m (es_mem s p))) = em_senders (em_mem s (es_m (es_mem s p)))"
proof -
  define m where "m = es_m (es_mem s p)"
  have m: "m \<in> em_live s" using inv p by (auto simp: event_inv_def m_def)
  obtain ok es where st: "store_event mem e (es_events (es_mem s p)) = (ok, es)" by fastforce
  have d: "distinct (map event_key es)"
    using store_event_map [of "es_events (es_mem s p)" mem e] inv p by (simp add: event_inv_def st)
  have sub: "set (em_listeners (em_mem s m)) \<subseteq> el_live s" using event_inv_mech [OF inv m] by (auto simp: mech_ok_def)
  have id': "upd_m m (\<lambda>x. x\<lparr>em_handlerTask := None\<rparr>) (upd_m m (\<lambda>x. x\<lparr>em_handlerTask := Some cur\<rparr>) u) = u"
    if "em_handlerTask (em_mem u m) = None" for u :: "'a event_state_scheme"
    using that by (simp add: upd_m_def fun_upd_idem)
  let ?t = "(upd_s p (\<lambda>x. x\<lparr>es_events := es\<rparr>) s)\<lparr>calls := calls s @ (if ok then call_listeners m e s else [])\<rparr>"
  have cl: "call_listeners m e (upd_s p (\<lambda>x. x\<lparr>es_events := es\<rparr>) (upd_m m (\<lambda>x. x\<lparr>em_handlerTask := Some cur\<rparr>) s)) = call_listeners m e s"
    by (simp add: call_listeners_def upd_m_def upd_s_def)
  have run: "VNetEvent_Send cur mem p e s = Some (if ok then 0 else VNetKernel_ENOMEM, ?t)"
    using p m no_handler [OF inv m] id sub cl id' [OF no_handler [OF inv m]] st
    by (auto simp: VNetEvent_Send_def m_def [symmetric] Let_def upd_m_def upd_s_def fun_upd_idem)
  have "mech_ok owned quiet ?t n" if "n \<in> em_live s" for n
  proof -
    have "{q \<in> es_live ?t. es_m (es_mem ?t q) = n} = {q \<in> es_live s. es_m (es_mem s q) = n}" by (auto simp: upd_s_def)
    then show ?thesis using event_inv_mech [OF inv that] unfolding mech_ok_def holders_of_def by (simp add: upd_s_def)
  qed
  then have "event_inv owned quiet ?t" using inv p m d by (auto simp: event_inv_def upd_s_def m_def)
  then show ?thesis using run unfolding m_def [symmetric] st
    by (auto simp: upd_s_def VNetKernel_ENOMEM_def)
qed

section \<open>Runs\<close>

text \<open>
  The steps of the clients of the events, with the mechanisms that still have their owner, and, for every sender, what a
  listener should be told: the last event sent under each key, or nothing after a send that failed for want
  of memory, unless the event it was to replace had the same size, when no memory is needed.  New objects
  are at addresses not in use, and no mechanism has 2 ^ 32 references.
\<close>

type_synonym told = "ptr \<Rightarrow> u32 \<times> u32 \<Rightarrow> VNet_EventHeader option"

inductive event_step :: "event_state \<times> ptr set \<times> told \<Rightarrow> event_state \<times> ptr set \<times> told \<Rightarrow> bool" where
  new_mechanism: "m \<notin> em_live s \<Longrightarrow> VNetEvent_CreateMechanism (Some m) s = ((r, out), t)
    \<Longrightarrow> event_step (s, owned, told) (t, insert m owned, told)"
| destroy: "m \<in> owned \<Longrightarrow> VNetEvent_DestroyMechanism cur m s = Some (r, t) \<Longrightarrow> event_step (s, owned, told) (t, owned - {m}, told)"
| new_sender: "m \<in> em_live s \<Longrightarrow> p \<notin> es_live s \<Longrightarrow> holders_of owned s m + 1 < 2 ^ 32
    \<Longrightarrow> VNetEvent_CreateSender cur (Some p) m s = Some (out, t) \<Longrightarrow> event_step (s, owned, told) (t, owned, told(p := Map.empty))"
| drop_sender: "p \<in> es_live s \<Longrightarrow> VNetEvent_DestroySender cur p s = Some (r, t) \<Longrightarrow> event_step (s, owned, told) (t, owned, told)"
| new_listener: "m \<in> em_live s \<Longrightarrow> l \<notin> el_live s \<Longrightarrow> holders_of owned s m + 1 < 2 ^ 32
    \<Longrightarrow> VNetEvent_CreateListener cur (Some l) m h data cmask s = Some (out, t) \<Longrightarrow> event_step (s, owned, told) (t, owned, told)"
| drop_listener: "l \<in> el_live s \<Longrightarrow> VNetEvent_DestroyListener cur l s = Some (r, t) \<Longrightarrow> event_step (s, owned, told) (t, owned, told)"
| send: "p \<in> es_live s \<Longrightarrow> ev_senderId e = es_senderId (es_mem s p) \<Longrightarrow> VNetEvent_Send cur mem p e s = Some (r, t)
    \<Longrightarrow> event_step (s, owned, told) (t, owned, told(p := (told p)(event_key e := if r = 0 then Some e else None)))"

definition event_init :: event_state where
  "event_init = \<lparr>em_mem = \<lambda>_. \<lparr>em_handlerTask = None, em_refCount = 0, em_senderId = 0, em_senders = [], em_listeners = []\<rparr>, em_live = {},
     es_mem = \<lambda>_. \<lparr>es_m = 0, es_senderId = 0, es_events = []\<rparr>, es_live = {},
     el_mem = \<lambda>_. \<lparr>el_m = 0, el_handler = 0, el_data = 0, el_classMask = 0\<rparr>, el_live = {}, calls = []\<rparr>"

definition event_reach :: "event_state \<Rightarrow> ptr set \<Rightarrow> told \<Rightarrow> bool" where
  "event_reach s owned told \<longleftrightarrow> event_step\<^sup>*\<^sup>* (event_init, {}, \<lambda>_. Map.empty) (s, owned, told)"

definition tells :: "event_state \<Rightarrow> told \<Rightarrow> bool" where
  "tells s told \<longleftrightarrow> (\<forall>p \<in> es_live s. last_sent (es_events (es_mem s p)) = told p)"

definition run_inv :: "event_state \<times> ptr set \<times> told \<Rightarrow> bool" where
  "run_inv c \<longleftrightarrow> (case c of (s, owned, told) \<Rightarrow> event_inv owned quiet s \<and> tells s told)"

lemma event_step_inv: "event_step c d \<Longrightarrow> run_inv c \<Longrightarrow> run_inv d"
proof (induction rule: event_step.induct)
  case (new_mechanism m s r out t owned told)
  then have inv: "event_inv owned quiet s" "tells s told" by (simp_all add: run_inv_def)
  show ?case using CreateMechanism_inv [OF inv(1), of "Some m" r out t] new_mechanism inv(2)
    by (auto simp: run_inv_def VNetEvent_CreateMechanism_def tells_def)
next
  case (destroy m owned cur s r t told)
  then have inv: "event_inv owned quiet s" "tells s told" by (simp_all add: run_inv_def)
  have "es_mem t = es_mem s \<and> es_live t = es_live s"
    using destroy.hyps(2) by (auto simp: VNetEvent_DestroyMechanism_def upd_m_def Let_def split: if_splits)
  then show ?case using Owner_destroys_inv [OF inv(1) destroy.hyps(1), of cur] destroy.hyps(2) inv(2) by (auto simp: run_inv_def tells_def)
next
  case (new_sender m s p owned cur out t told)
  then have inv: "event_inv owned quiet s" "tells s told" by (simp_all add: run_inv_def)
  show ?case using CreateSender_inv [OF inv(1) new_sender.hyps(1) _ new_sender.hyps(3), of "Some p" cur] new_sender.hyps inv(2)
    by (auto simp: run_inv_def tells_def last_sent_def)
next
  case (drop_sender p s cur r t owned told)
  then have inv: "event_inv owned quiet s" "tells s told" by (simp_all add: run_inv_def)
  show ?case using DestroySender_inv [OF inv(1) drop_sender.hyps(1), of cur] drop_sender.hyps inv(2) by (auto simp: run_inv_def tells_def)
next
  case (new_listener m s l owned cur h data cmask out t told)
  then have inv: "event_inv owned quiet s" "tells s told" by (simp_all add: run_inv_def)
  show ?case using CreateListener_inv [OF inv(1) new_listener.hyps(1,2,3), of cur h data cmask] new_listener.hyps inv(2)
    by (auto simp: run_inv_def tells_def)
next
  case (drop_listener l s cur r t owned told)
  then have inv: "event_inv owned quiet s" "tells s told" by (simp_all add: run_inv_def)
  show ?case using DestroyListener_inv [OF inv(1) drop_listener.hyps(1), of cur] drop_listener.hyps inv(2) by (auto simp: run_inv_def tells_def)
next
  case (send p s e cur mem r t owned told)
  then have inv: "event_inv owned quiet s" "tells s told" by (simp_all add: run_inv_def)
  have d: "distinct (map event_key (es_events (es_mem s p)))" using inv(1) send.hyps(1) by (simp add: event_inv_def)
  note st = store_event_map [OF d, of mem e, THEN conjunct2, THEN conjunct1]
  have run: "event_inv owned quiet t" "r = (if fst (store_event mem e (es_events (es_mem s p))) then 0 else VNetKernel_ENOMEM)"
    "es_mem t = (es_mem s)(p := (es_mem s p)\<lparr>es_events := snd (store_event mem e (es_events (es_mem s p)))\<rparr>)" "es_live t = es_live s"
    using Send_inv [OF inv(1) send.hyps(1,2), of cur mem] send.hyps(3) by auto
  have "last_sent (es_events (es_mem t p)) = (told p)(event_key e := if r = 0 then Some e else None)"
    using st inv(2) send.hyps(1) run(2) by (simp add: run(3) tells_def VNetKernel_ENOMEM_def)
  then show ?case using run(1,4) inv(2) by (simp add: run_inv_def tells_def run(3))
qed

lemma event_reach_inv: "event_reach s owned told \<Longrightarrow> event_inv owned quiet s \<and> tells s told"
proof -
  have init: "run_inv (event_init, {}, \<lambda>_. Map.empty)" by (simp add: run_inv_def event_inv_def event_init_def tells_def)
  have "event_step\<^sup>*\<^sup>* (event_init, {}, \<lambda>_. Map.empty) c \<Longrightarrow> run_inv c" for c
    by (induction rule: rtranclp_induct) (use init event_step_inv in auto)
  then show "event_reach s owned told \<Longrightarrow> ?thesis" unfolding event_reach_def run_inv_def by fastforce
qed

text \<open>
  C39: A mechanism lives exactly as long as somebody needs it: in every reachable state a mechanism is
  allocated exactly if its owner has not destroyed it or a live sender or listener belongs to it, its count
  is their number, and destroying any of them returns and frees the mechanism exactly when it was the last.
\<close>

theorem mechanism_lifetime:
  assumes "event_reach s owned told"
  shows "(\<forall>m. m \<in> em_live s \<longleftrightarrow> m \<in> owned \<or> (\<exists>p \<in> es_live s. es_m (es_mem s p) = m) \<or> (\<exists>l \<in> el_live s. el_m (el_mem s l) = m))
    \<and> (\<forall>m \<in> em_live s. unat (em_refCount (em_mem s m)) = of_bool (m \<in> owned)
         + card {p \<in> es_live s. es_m (es_mem s p) = m} + card {l \<in> el_live s. el_m (el_mem s l) = m})
    \<and> (\<forall>p \<in> es_live s. \<exists>t. VNetEvent_DestroySender cur p s = Some (0, t) \<and> es_live t = es_live s - {p}
         \<and> em_live t = (if em_refCount (em_mem s (es_m (es_mem s p))) = 1 then em_live s - {es_m (es_mem s p)} else em_live s))
    \<and> (\<forall>l \<in> el_live s. \<exists>t. VNetEvent_DestroyListener cur l s = Some (0, t) \<and> el_live t = el_live s - {l}
         \<and> em_live t = (if em_refCount (em_mem s (el_m (el_mem s l))) = 1 then em_live s - {el_m (el_mem s l)} else em_live s))"
proof -
  have inv: "event_inv owned quiet s" using event_reach_inv [OF assms] by simp
  have rc: "unat (em_refCount (em_mem s m)) = holders_of owned s m" if "m \<in> em_live s" for m
    using event_inv_mech [OF inv that] by (simp add: mech_ok_def unsigned_of_nat take_bit_nat_eq_self)
  have card: "holders_of owned s m = of_bool (m \<in> owned) + card {p \<in> es_live s. es_m (es_mem s p) = m} + card {l \<in> el_live s. el_m (el_mem s l) = m}"
    if "m \<in> em_live s" for m
    using event_inv_mech [OF inv that] unfolding mech_ok_def holders_of_def by (metis distinct_card)
  have one: "em_refCount (em_mem s m) = 1 \<longleftrightarrow> holders_of owned s m = 1" if "m \<in> em_live s" for m
    using rc [OF that] by (metis unsigned_1 unsigned_word_eqI)
  have live: "m \<in> em_live s \<longleftrightarrow> m \<in> owned \<or> (\<exists>p \<in> es_live s. es_m (es_mem s p) = m) \<or> (\<exists>l \<in> el_live s. el_m (el_mem s l) = m)" for m
  proof
    assume m: "m \<in> em_live s"
    have pos: "0 < holders_of owned s m" using event_inv_mech [OF inv m] by (simp add: mech_ok_def)
    show "m \<in> owned \<or> (\<exists>p \<in> es_live s. es_m (es_mem s p) = m) \<or> (\<exists>l \<in> el_live s. el_m (el_mem s l) = m)"
    proof (rule ccontr)
      assume "\<not> ?thesis"
      then have e: "{p \<in> es_live s. es_m (es_mem s p) = m} = {}" "{l \<in> el_live s. el_m (el_mem s l) = m} = {}" "m \<notin> owned" by auto
      show False using pos unfolding card [OF m] e(1) e(2) using e(3) by simp
    qed
  qed (use inv in \<open>auto simp: event_inv_def\<close>)
  have sm: "es_m (es_mem s p) \<in> em_live s" if "p \<in> es_live s" for p using inv that by (simp add: event_inv_def)
  have lm: "el_m (el_mem s l) \<in> em_live s" if "l \<in> el_live s" for l using inv that by (simp add: event_inv_def)
  have "\<forall>p \<in> es_live s. \<exists>t. VNetEvent_DestroySender cur p s = Some (0, t) \<and> es_live t = es_live s - {p}
         \<and> em_live t = (if em_refCount (em_mem s (es_m (es_mem s p))) = 1 then em_live s - {es_m (es_mem s p)} else em_live s)"
  proof
    fix p assume p: "p \<in> es_live s"
    show "\<exists>t. VNetEvent_DestroySender cur p s = Some (0, t) \<and> es_live t = es_live s - {p}
         \<and> em_live t = (if em_refCount (em_mem s (es_m (es_mem s p))) = 1 then em_live s - {es_m (es_mem s p)} else em_live s)"
      unfolding one [OF sm [OF p]] using DestroySender_inv [OF inv p, of cur] by blast
  qed
  moreover have "\<forall>l \<in> el_live s. \<exists>t. VNetEvent_DestroyListener cur l s = Some (0, t) \<and> el_live t = el_live s - {l}
         \<and> em_live t = (if em_refCount (em_mem s (el_m (el_mem s l))) = 1 then em_live s - {el_m (el_mem s l)} else em_live s)"
  proof
    fix l assume l: "l \<in> el_live s"
    show "\<exists>t. VNetEvent_DestroyListener cur l s = Some (0, t) \<and> el_live t = el_live s - {l}
         \<and> em_live t = (if em_refCount (em_mem s (el_m (el_mem s l))) = 1 then em_live s - {el_m (el_mem s l)} else em_live s)"
      unfolding one [OF lm [OF l]] using DestroyListener_inv [OF inv l, of cur] by blast
  qed
  moreover have "\<forall>m \<in> em_live s. unat (em_refCount (em_mem s m)) = of_bool (m \<in> owned)
         + card {p \<in> es_live s. es_m (es_mem s p) = m} + card {l \<in> el_live s. el_m (el_mem s l) = m}"
    using rc card by simp
  ultimately show ?thesis using live by blast
qed

lemma last_sent_in: "distinct (map event_key es) \<Longrightarrow> e \<in> set es \<Longrightarrow> last_sent es (event_key e) = Some e"
  by (auto simp: last_sent_def comp_def intro!: map_of_is_SomeI)

lemma keyed_filter:
  assumes "distinct (map event_key es)"
  shows "length (filter P es) = card {k. \<exists>e. last_sent es k = Some e \<and> P e}"
proof -
  have "{k. \<exists>e. last_sent es k = Some e \<and> P e} = event_key ` set (filter P es)"
  proof (intro set_eqI iffI)
    fix k assume "k \<in> {k. \<exists>e. last_sent es k = Some e \<and> P e}"
    then obtain e where e: "last_sent es k = Some e" "P e" by blast
    then have "k = event_key e" "e \<in> set (filter P es)" using last_sent_key [OF e(1)] by simp_all
    then show "k \<in> event_key ` set (filter P es)" by blast
  qed (use last_sent_in [OF assms] in auto)
  moreover have "distinct (map event_key (filter P es))" using assms by (rule distinct_map_filter)
  ultimately show ?thesis by (metis distinct_card length_map list.set_map)
qed

text \<open>
  C40: A listener that comes late is told the present state: in every reachable state, creating a listener
  calls its handler once for every sender of the mechanism and every key under which this sender has an
  event of the listener's classes, with the last event sent under the key, and with nothing else.
\<close>

theorem late_listener_told:
  assumes "event_reach s owned told" "m \<in> em_live s" "l \<notin> el_live s" "holders_of owned s m + 1 < 2 ^ 32"
  shows "\<exists>t es. VNetEvent_CreateListener cur (Some l) m h data cmask s = Some ((0, Some l), t)
    \<and> calls t = calls s @ map (\<lambda>e. (h, data, e)) es
    \<and> set es = {e. \<exists>p k. p \<in> es_live s \<and> es_m (es_mem s p) = m \<and> told p k = Some e \<and> ev_classSet e AND cmask \<noteq> 0}
    \<and> length es = card (SIGMA p : {p \<in> es_live s. es_m (es_mem s p) = m}. {k. \<exists>e. told p k = Some e \<and> ev_classSet e AND cmask \<noteq> 0})"
proof -
  have inv: "event_inv owned quiet s" "tells s told" using event_reach_inv [OF assms(1)] by auto
  let ?P = "\<lambda>e. ev_classSet e AND cmask \<noteq> 0"
  let ?ps = "em_senders (em_mem s m)"
  let ?K = "\<lambda>p. {k. \<exists>e. told p k = Some e \<and> ?P e}"
  have ps: "distinct ?ps" "set ?ps = {p \<in> es_live s. es_m (es_mem s p) = m}"
    using event_inv_mech [OF inv(1) assms(2)] by (simp_all add: mech_ok_def)
  have told: "told p = last_sent (es_events (es_mem s p))" "distinct (map event_key (es_events (es_mem s p)))" if "p \<in> set ?ps" for p
    using that inv unfolding ps(2) by (simp_all add: event_inv_def tells_def)
  have key: "(\<exists>k. told p k = Some e) \<longleftrightarrow> e \<in> set (es_events (es_mem s p))" if "p \<in> set ?ps" for p e
    using last_sent_key [of "es_events (es_mem s p)" _ e] last_sent_in [OF told(2) [OF that]] told(1) [OF that] by metis
  have "set (replay m cmask s) = {e. \<exists>p \<in> set ?ps. e \<in> set (es_events (es_mem s p)) \<and> ?P e}" by (auto simp: replay_def)
  also have "\<dots> = {e. \<exists>p k. p \<in> es_live s \<and> es_m (es_mem s p) = m \<and> told p k = Some e \<and> ?P e}"
    using key unfolding ps(2) by blast
  finally have els: "set (replay m cmask s) = {e. \<exists>p k. p \<in> es_live s \<and> es_m (es_mem s p) = m \<and> told p k = Some e \<and> ?P e}" .
  have fin: "finite (?K p)" if pin: "p \<in> set ?ps" for p
  proof -
    have "?K p \<subseteq> event_key ` set (es_events (es_mem s p))"
    proof
      fix k assume "k \<in> ?K p"
      then obtain e where "last_sent (es_events (es_mem s p)) k = Some e" using told(1) [OF pin] by auto
      then show "k \<in> event_key ` set (es_events (es_mem s p))" using last_sent_key by (metis imageI)
    qed
    then show ?thesis by (rule finite_subset) simp
  qed
  have "length (replay m cmask s) = sum_list (map (\<lambda>p. card (?K p)) ?ps)"
    unfolding replay_def length_concat map_map comp_def
    by (intro arg_cong [where f = sum_list] map_cong refl) (simp add: keyed_filter told)
  also have "\<dots> = (\<Sum>p \<in> set ?ps. card (?K p))" using ps(1) by (rule sum_list_distinct_conv_sum_set)
  also have "\<dots> = card (SIGMA p : set ?ps. ?K p)" using fin by (simp add: card_SigmaI)
  finally have len: "length (replay m cmask s) = card (SIGMA p : {p \<in> es_live s. es_m (es_mem s p) = m}. ?K p)" unfolding ps(2) .
  show ?thesis using CreateListener_inv [OF inv(1) assms(2-4), of cur h data cmask] els len by blast
qed

text \<open>A handler that calls back into its mechanism is refused, and changes nothing.\<close>

lemma handler_refused:
  assumes "m \<in> em_live s" "em_handlerTask (em_mem s m) = Some cur"
  shows "VNetEvent_DestroyMechanism cur m s = Some (VNetKernel_EBUSY, s)"
    "VNetEvent_CreateSender cur mem m s = Some ((VNetKernel_EBUSY, None), s)"
    "VNetEvent_CreateListener cur mem m h data cmask s = Some ((VNetKernel_EBUSY, None), s)"
    "p \<in> es_live s \<Longrightarrow> es_m (es_mem s p) = m \<Longrightarrow> VNetEvent_DestroySender cur p s = Some (VNetKernel_EBUSY, s)
       \<and> VNetEvent_Send cur avail p e s = Some (VNetKernel_EBUSY, s)"
    "l \<in> el_live s \<Longrightarrow> el_m (el_mem s l) = m \<Longrightarrow> VNetEvent_DestroyListener cur l s = Some (VNetKernel_EBUSY, s)"
  using assms
  by (simp_all add: VNetEvent_DestroyMechanism_def VNetEvent_CreateSender_def VNetEvent_CreateListener_def VNetEvent_DestroySender_def
      VNetEvent_Send_def VNetEvent_DestroyListener_def Let_def)

text \<open>
  A send that fails for want of memory, because the event's size changed, has already taken out the
  event it was to replace: late listeners are told nothing.
\<close>

lemma failed_send_forgets:
  assumes "p \<in> es_live s" "event_inv owned quiet s" "ev_senderId e = es_senderId (es_mem s p)"
    "last_sent (es_events (es_mem s p)) (event_key e) = Some old" "ev_size old \<noteq> ev_size e"
  shows "\<exists>t. VNetEvent_Send cur False p e s = Some (VNetKernel_ENOMEM, t) \<and> last_sent (es_events (es_mem t p)) (event_key e) = None"
proof -
  have d: "distinct (map event_key (es_events (es_mem s p)))" using assms by (simp add: event_inv_def)
  note st = store_event_map [OF d, of False e]
  have "\<not> fst (store_event False e (es_events (es_mem s p)))" using st assms(4,5) by auto
  then show ?thesis using Send_inv [OF assms(2,1,3), of cur False] st by auto
qed

section \<open>Witnesses\<close>

lemma one_sender:
  "\<exists>s told. event_reach s {1} told \<and> em_live s = {1} \<and> es_live s = {2} \<and> el_live s = {} \<and> es_m (es_mem s 2) = 1
     \<and> told 2 (7, 8) = Some \<lparr>ev_size = 20, ev_senderId = 0, ev_eventId = 7, ev_classSet = 1, ev_type = 8, ev_data = []\<rparr>"
proof -
  let ?e = "\<lparr>ev_size = 20, ev_senderId = 0, ev_eventId = 7, ev_classSet = 1, ev_type = 8, ev_data = []\<rparr>"
  let ?c0 = "(event_init, {}, \<lambda>_. Map.empty) :: event_state \<times> ptr set \<times> told"
  obtain s1 where s1: "VNetEvent_CreateMechanism (Some 1) event_init = ((0, Some 1), s1)" "em_live s1 = {1}" "es_live s1 = {}" "el_live s1 = {}"
    "em_senderId (em_mem s1 1) = 0" "holders_of {1} s1 1 = 1" "em_handlerTask (em_mem s1 1) = None" "em_listeners (em_mem s1 1) = []"
    by (simp add: VNetEvent_CreateMechanism_def event_init_def holders_of_def)
  have r1: "event_step ?c0 (s1, {1}, \<lambda>_. Map.empty)"
    using event_step.new_mechanism [OF _ s1(1), of "{}" "\<lambda>_. Map.empty"] by (simp add: event_init_def)
  obtain s2 where s2: "VNetEvent_CreateSender 0 (Some 2) 1 s1 = Some ((0, Some 2), s2)" "em_live s2 = {1}" "es_live s2 = {2}" "el_live s2 = {}"
    "es_m (es_mem s2 2) = 1" "es_senderId (es_mem s2 2) = 0" "em_handlerTask (em_mem s2 1) = None" "em_listeners (em_mem s2 1) = []"
    "es_events (es_mem s2 2) = []"
    using s1 by (simp add: VNetEvent_CreateSender_def upd_m_def)
  define told2 :: told where "told2 = (\<lambda>_. Map.empty)(2 := Map.empty)"
  define told3 :: told where "told3 = told2(2 := (told2 2)(event_key ?e := Some ?e))"
  have r2: "event_step (s1, {1}, \<lambda>_. Map.empty) (s2, {1}, told2)"
    unfolding told2_def by (rule event_step.new_sender [OF _ _ _ s2(1)]) (use s1 in simp_all)
  obtain r s3 where s3: "VNetEvent_Send 0 True 2 ?e s2 = Some (r, s3)" "em_live s3 = {1}" "es_live s3 = {2}" "el_live s3 = {}" "r = 0"
    "es_m (es_mem s3 2) = 1"
    using s2 by (simp add: VNetEvent_Send_def upd_m_def upd_s_def store_event_def Let_def)
  have r3: "event_step (s2, {1}, told2) (s3, {1}, told3)"
    using event_step.send [OF _ _ s3(1), of "{1}" told2] s2 s3(5) by (simp add: told3_def del: fun_upd_apply)
  have "event_reach s3 {1} told3"
    unfolding event_reach_def
  proof -
    have "event_step\<^sup>*\<^sup>* ?c0 (s1, {1}, \<lambda>_. Map.empty)" using r1 by (rule r_into_rtranclp)
    then have "event_step\<^sup>*\<^sup>* ?c0 (s2, {1}, told2)" using r2 by (rule rtranclp.rtrancl_into_rtrancl)
    then show "event_step\<^sup>*\<^sup>* ?c0 (s3, {1}, told3)" using r3 by (rule rtranclp.rtrancl_into_rtrancl)
  qed
  moreover have "told3 2 (7, 8) = Some ?e" by (simp add: told3_def event_key_def)
  ultimately show ?thesis using s3 by blast
qed

theorem mechanism_lifetime_witness:
  "\<exists>s told. event_reach s {1} told \<and> es_live s = {2} \<and> unat (em_refCount (em_mem s 1)) = 2"
proof -
  obtain s told where s: "event_reach s {1} told" "em_live s = {1}" "es_live s = {2}" "el_live s = {}" "es_m (es_mem s 2) = 1"
    using one_sender by blast
  have e: "{p \<in> es_live s. es_m (es_mem s p) = 1} = {2}" "{l \<in> el_live s. el_m (el_mem s l) = 1} = {}" using s by auto
  have "unat (em_refCount (em_mem s 1)) = of_bool ((1::nat) \<in> {1}) + card {p \<in> es_live s. es_m (es_mem s p) = 1}
      + card {l \<in> el_live s. el_m (el_mem s l) = 1}"
    by (rule mechanism_lifetime [OF s(1), THEN conjunct2, THEN conjunct1, THEN bspec]) (simp add: s(2))
  then have "unat (em_refCount (em_mem s 1)) = 2" unfolding e by simp
  then show ?thesis using s by blast
qed

theorem late_listener_told_witness:
  "\<exists>s told t e. event_reach s {1} told \<and> VNetEvent_CreateListener 0 (Some 3) 1 4 5 1 s = Some ((0, Some 3), t)
     \<and> (4, 5, e) \<in> set (calls t) \<and> ev_eventId e = 7"
proof -
  obtain s told where s: "event_reach s {1} told" "em_live s = {1}" "es_live s = {2}" "el_live s = {}" "es_m (es_mem s 2) = 1"
    "told 2 (7, 8) = Some \<lparr>ev_size = 20, ev_senderId = 0, ev_eventId = 7, ev_classSet = 1, ev_type = 8, ev_data = []\<rparr>"
    using one_sender by blast
  let ?e = "\<lparr>ev_size = 20, ev_senderId = 0, ev_eventId = 7, ev_classSet = 1, ev_type = 8, ev_data = []\<rparr>"
  have inv: "event_inv {1} quiet s" using event_reach_inv [OF s(1)] by simp
  have e: "{p \<in> es_live s. es_m (es_mem s p) = 1} = {2}" "{l \<in> el_live s. el_m (el_mem s l) = 1} = {}" using s by auto
  have "mech_ok {1} quiet s 1" using event_inv_mech [OF inv, of 1] s(2) by simp
  then have "length (em_senders (em_mem s 1)) = 1" "length (em_listeners (em_mem s 1)) = 0"
    using distinct_card [of "em_senders (em_mem s 1)"] distinct_card [of "em_listeners (em_mem s 1)"]
    unfolding mech_ok_def e by auto
  then have "holders_of {1} s 1 + 1 < 2 ^ 32" by (simp add: holders_of_def)
  then obtain t es where t: "VNetEvent_CreateListener 0 (Some 3) 1 4 5 1 s = Some ((0, Some 3), t)" "calls t = calls s @ map (\<lambda>e. (4, 5, e)) es"
    "set es = {e. \<exists>p k. p \<in> es_live s \<and> es_m (es_mem s p) = 1 \<and> told p k = Some e \<and> ev_classSet e AND 1 \<noteq> 0}"
    using late_listener_told [OF s(1), of 1 3 0 4 5 1] s(2,4) by auto
  have "?e \<in> set es" unfolding t(3) mem_Collect_eq
    by (rule exI [of _ 2], rule exI [of _ "(7, 8)"]) (use s(3,5,6) in simp)
  then have "(4, 5, ?e) \<in> set (calls t)" using t(2) by force
  then show ?thesis using s(1) t(1) by fastforce
qed

end
