(* ===== verification/Spec2Isabelle.thy ===== *)
theory Spec2Isabelle
  imports HandleArray HashChain VmciContext Resource Event Datagram Group DiscoveryService QueuePairProps QueueRing
    ContextTeardown VmxLimits BlockFs VNetEventProps
begin

text \<open>
  A verification development for the kernel modules of this repository.  It models, in the
  hosted Linux release build for x86_64 (no \<open>VMKERNEL\<close>, \<open>_WIN32\<close>, \<open>VMX86_SERVER\<close>, \<open>VMX86_TOOLS\<close>,
  \<open>VMX86_DEVEL\<close> or \<open>VMX86_DEBUG\<close>, so that \<open>ASSERT\<close> is empty), the core of four of the five modules.

  \<^bold>\<open>Conventions.\<close>  A structure is a record with the fields that the code uses, under a short prefix;
  objects that the code reaches by pointers are in a store (a function from addresses) with, where
  lifetimes matter, a ghost set of the addresses that are allocated.  The state of a module is a
  record that its components extend in layers, so that an operation of a lower component applies to
  every higher state: in VMCI \<open>ctx_state\<close>, \<open>res_state\<close>, \<open>dg_state\<close>, \<open>ds_state\<close>, \<open>qp_state\<close>; in vmmon
  \<open>phys_state\<close>, \<open>host_state\<close>, \<open>vmx_state\<close>; in vmblock \<open>dbl_state\<close>, \<open>block_state\<close>, \<open>fs_state\<close>; in vmnet
  \<open>event_state\<close>.  Machine integers are words of their width.  A section that runs under a lock is
  one step; where the code gives a lock up in the middle of an operation and the order matters, the operation
  is given in its steps as well.  What the kernel answers (memory, pages, copies from and to user space, path
  lookups, statistics) is an argument.  An error the code returns is a value; a panic, a use of a null
  or freed pointer, an access out of bounds and a \<open>put_page\<close> without a reference are \<open>None\<close>, and
  the theorems on an operation show that it is not \<open>None\<close>, or when it is.

  \<^bold>\<open>The virtual machine communication interface, \<open>vmci-only\<close>.\<close>
  \<^item> \<open>VmciDefs\<close>: handles, headers and privilege rules (\<open>include/vmci_defs.h\<close>, \<open>vmci_call_defs.h\<close>,
    \<open>vmci_infrastructure.h\<close>, \<open>common/vmciCommonInt.h\<close>).
  \<^item> \<open>HandleArray\<close> (\<open>include/vmci_handle_array.h\<close>): growable arrays, shown to be bags of handles.
  \<^item> \<open>HashTable\<close>, \<open>HashChain\<close> (\<open>common/vmciHashtable.c\<close>): the table of reference counted entries on lists,
    with the exactness of the counts over all sequences of operations, and on the pointers of the code, which refine the lists.
  \<^item> \<open>VmciContext\<close> (\<open>common/vmciContext.c\<close>): contexts, their ids and datagram queues (first in, first out, within their byte limits).
  \<^item> \<open>Resource\<close>, \<open>Event\<close>, \<open>Datagram\<close>, \<open>Group\<close>, \<open>DiscoveryService\<close> (\<open>common/vmciResource.c\<close>, \<open>vmciEvent.c\<close>,
    \<open>vmciDatagram.c\<close>, \<open>vmciGroup.c\<close>, \<open>vmciDs.c\<close>): the registry of resources and its privileges, event subscriptions, the routing of
    datagrams and the checks on their senders, groups, and the registry of names with its request handler, byte by byte.
  \<^item> \<open>QueuePair\<close>, \<open>QueuePairProps\<close> (\<open>common/vmciQueuePair.c\<close>, the pinning of user memory of \<open>linux/vmciKernelIf.c\<close>): the broker of queue pairs as a
    state machine, the invariant of its reachable states, and the rules for attaching.
  \<^item> \<open>QueueRing\<close> (\<open>include/vmci_queue_pair.h\<close>, \<open>linux/vmciKernelIf.c\<close>): the rings, which refine bounded byte streams, and the page-wise copies.
  \<^item> \<open>ContextTeardown\<close>: the end of a context, which calls all of these, and its checkpoint.

  \<^bold>\<open>The machine monitor's driver, \<open>vmmon-only\<close>.\<close>
  \<^item> \<open>PhysTrack\<close>, \<open>MemTrack\<close> (\<open>common/phystrack.c\<close>, \<open>common/memtrack.c\<close>): the tracker of physical pages, which refines a set, and
    the tracker of pinned virtual pages.
  \<^item> \<open>HostPages\<close>, \<open>HostPagesProps\<close>, \<open>HostTeardown\<close>, \<open>HostLocking\<close> (\<open>linux/hostif.c\<close>): locking, unlocking, allocating and freeing the pages
    of a machine, with the invariant that the trackers and the references of the pages agree, and the teardown of a machine.
  \<^item> \<open>Vmx86\<close> (\<open>common/vmx86.c\<close>): machines, their ids, limits, admission and the charged pages.  \<open>VmxIds\<close> holds the two lists that run
    through the table of ids, \<open>VmxFrames\<close> what the operations leave alone, \<open>VmxAccounting\<close> the invariant of the accounts,
    \<open>VmxLifecycle\<close> the step relation of the driver and its reachable states, \<open>VmxLimits\<close> reservations and admission.

  \<^bold>\<open>The blocking file system, \<open>vmblock-only\<close>.\<close>
  \<^item> \<open>DblLnkLst\<close> (\<open>linux/dbllnklst.c\<close>): circular lists in a heap of links.
  \<^item> \<open>FileBlock\<close>, \<open>FileBlockProps\<close> (\<open>linux/block.c\<close>): blocks on file names; the step relation of adds, removals, lookups, waits and wake-ups,
    its exact reference counts, and that no sleeper is left behind.
  \<^item> \<open>BlockFs\<close> (\<open>linux/control.c\<close>, \<open>inode.c\<close>, \<open>dentry.c\<close>, \<open>filesystem.c\<close>): the control device and the lookups that wait.

  \<^bold>\<open>The virtual networks, \<open>vmnet-only\<close>.\<close>
  \<^item> \<open>VNetEvent\<close>, \<open>VNetEventProps\<close> (\<open>vnetEvent.c\<close>): senders, listeners and the mechanism they share.

  \<^bold>\<open>Interfaces.\<close>  The contracts that components rely on are locales, interpreted on the model: \<open>handle_bag\<close> (the handle arrays),
  \<open>handle_table\<close> (the hash table), \<open>datagram_queue\<close> (the queues of contexts and of host processes), \<open>name_registry\<close> (the discovery
  service), \<open>page_set\<close> (the page trackers, and a tracker while it is emptied) and \<open>byte_stream\<close> (the rings).

  \<^bold>\<open>Loops and bounds.\<close>  Loops over lists are structural; loops over indices and pages carry their measures; loops that follow
  pointers are \<open>partial_function (option)\<close> without fuel, and the lemmas on well-formed states show that they return.  The sizes
  used as hypotheses are those of the code: 2 ^ 31 page numbers, 64 machines, 4096 bytes of a path, 2 ^ 32 references.

  \<^bold>\<open>Not modelled.\<close>  The rest of \<open>vmmon-only\<close> (\<open>task.c\<close>, \<open>cpuid.c\<close>, \<open>comport.c\<close>, \<open>iommu.c\<close>, \<open>moduleloop.c\<close>, the CPU, TSC, NUMA and hypervisor parts of \<open>vmx86.c\<close>, the
  timers and semaphores of \<open>hostif.c\<close>, the ioctl dispatch of \<open>driver.c\<close>) is assembly, hardware access or a pass-through to kernel services.
  Of \<open>vmci-only\<close> the ioctl dispatch of \<open>linux/driver.c\<close>, the wrappers of kernel services in \<open>vmciKernelIf.c\<close> and the process table are left out; of \<open>vmblock-only\<close> mounting
  and the pass-through file operations.  Of \<open>vmnet-only\<close> the bridge, the stateful MAC table, the filter, the hub and the user interface, and all of \<open>vsock-only\<close>, are not modelled.
  The headers that every module carries (atomics, CPU identification, basic types, compatibility with kernel versions) are shared
  definitions with no state of their own.
\<close>

end
